(* ===== verification/Prelude.thy ===== *)
theory Prelude
  imports Main "HOL-Library.Word" "HOL-Library.Monad_Syntax"
begin

text \<open>
  Shared vocabulary of the development.

  \<^item> Names for the machine integers of Go (\<open>byte\<close>, \<open>uint16\<close>, \<open>uint32\<close>, \<open>uint64\<close>,
    \<open>int16\<close>); Go's \<open>int\<close> is an \<^typ>\<open>int\<close>.
  \<^item> Checked indexing: a Go index expression out of range panics, which is the value
    \<^term>\<open>None\<close> of an option; \<open>arr_get\<close> and \<open>arr_set\<close> are \<open>x[i]\<close> and \<open>x[i] = v\<close>.
  \<^item> \<open>foldM\<close>, a \<open>for ... range\<close> loop whose body may panic, and \<open>wp_opt\<close>, the
    postcondition calculus that proves that a computation does not panic and what it returns.
  \<^item> Little endian and big endian byte layouts (package \<open>encoding/binary\<close>).
  \<^item> The locale \<open>machine\<close> of a component driven by a sequence of labelled operations.
\<close>

section \<open>Collections and types\<close>

named_theorems wp_simps \<open>rules that compute the weakest precondition of an option computation\<close>
named_theorems bytes_simps \<open>rules on byte layouts\<close>

type_synonym u8 = "8 word"
type_synonym u16 = "16 word"
type_synonym u32 = "32 word"
type_synonym u64 = "64 word"
type_synonym i16 = "16 word"
type_synonym bytes = "u8 list"

section \<open>Checked indexing\<close>

definition arr_get :: "'a list \<Rightarrow> int \<Rightarrow> 'a option" where
  "arr_get xs i = (if 0 \<le> i \<and> i < int (length xs) then Some (xs ! nat i) else None)"

definition arr_set :: "'a list \<Rightarrow> int \<Rightarrow> 'a \<Rightarrow> 'a list option" where
  "arr_set xs i v = (if 0 \<le> i \<and> i < int (length xs) then Some (xs[nat i := v]) else None)"

text \<open>\<open>make([]T, n)\<close> with the zero value \<open>z\<close>.\<close>
definition go_make :: "int \<Rightarrow> 'a \<Rightarrow> 'a list" where
  "go_make n z = replicate (nat n) z"

text \<open>\<open>copy(dst, src)\<close>: as many elements as both slices have.\<close>
definition go_copy :: "'a list \<Rightarrow> 'a list \<Rightarrow> 'a list" where
  "go_copy dst src = take (length dst) src @ drop (length src) dst"

text \<open>\<open>xs[a:b]\<close>\<close>
definition go_slice :: "'a list \<Rightarrow> int \<Rightarrow> int \<Rightarrow> 'a list option" where
  "go_slice xs a b = (if 0 \<le> a \<and> a \<le> b \<and> b \<le> int (length xs) then Some (take (nat (b - a)) (drop (nat a) xs)) else None)"

lemma length_go_copy [simp]: "length (go_copy dst src) = length dst"
  by (simp add: go_copy_def)

lemma length_go_make [simp]: "length (go_make n z) = nat n"
  by (simp add: go_make_def)

lemma arr_get_in: "\<lbrakk>0 \<le> i; i < int (length xs)\<rbrakk> \<Longrightarrow> arr_get xs i = Some (xs ! nat i)"
  by (simp add: arr_get_def)

lemma arr_get_int [simp]: "n < length xs \<Longrightarrow> arr_get xs (int n) = Some (xs ! n)"
  by (simp add: arr_get_def)

lemma arr_set_in: "\<lbrakk>0 \<le> i; i < int (length xs)\<rbrakk> \<Longrightarrow> arr_set xs i v = Some (xs[nat i := v])"
  by (simp add: arr_set_def)

lemma arr_set_int [simp]: "n < length xs \<Longrightarrow> arr_set xs (int n) v = Some (xs[n := v])"
  by (simp add: arr_set_def)

lemma arr_get_None_iff: "arr_get xs i = None \<longleftrightarrow> i < 0 \<or> int (length xs) \<le> i"
  by (auto simp: arr_get_def)

section \<open>Computations that may panic\<close>

primrec foldM :: "('a \<Rightarrow> 's \<Rightarrow> 's option) \<Rightarrow> 'a list \<Rightarrow> 's \<Rightarrow> 's option" where
  "foldM f [] s = Some s"
| "foldM f (x # xs) s = Option.bind (f x s) (foldM f xs)"

definition wp_opt :: "'a option \<Rightarrow> ('a \<Rightarrow> bool) \<Rightarrow> bool" where
  "wp_opt m P = (case m of None \<Rightarrow> False | Some x \<Rightarrow> P x)"

lemma wp_opt_Some [wp_simps]: "wp_opt (Some x) P = P x"
  by (simp add: wp_opt_def)

lemma wp_opt_None [wp_simps]: "wp_opt None P = False"
  by (simp add: wp_opt_def)

lemma wp_opt_bind [wp_simps]: "wp_opt (Option.bind m f) P = wp_opt m (\<lambda>x. wp_opt (f x) P)"
  by (cases m) (simp_all add: wp_opt_def)

lemma wp_opt_if [wp_simps]: "wp_opt (if b then m else n) P = (if b then wp_opt m P else wp_opt n P)"
  by simp

lemma wp_opt_get [wp_simps]:
  "wp_opt (arr_get xs i) P = (0 \<le> i \<and> i < int (length xs) \<and> P (xs ! nat i))"
  by (auto simp: arr_get_def wp_opt_def)

lemma wp_opt_set [wp_simps]:
  "wp_opt (arr_set xs i v) P = (0 \<le> i \<and> i < int (length xs) \<and> P (xs[nat i := v]))"
  by (auto simp: arr_set_def wp_opt_def)

lemma wp_opt_slice [wp_simps]:
  "wp_opt (go_slice xs a b) P = (0 \<le> a \<and> a \<le> b \<and> b \<le> int (length xs) \<and> P (take (nat (b - a)) (drop (nat a) xs)))"
  by (auto simp: go_slice_def wp_opt_def)

lemma wp_opt_case_prod [wp_simps]:
  "wp_opt (case x of (a, b) \<Rightarrow> f a b) P = (case x of (a, b) \<Rightarrow> wp_opt (f a b) P)"
  by (cases x) simp

lemma wp_opt_mono: "\<lbrakk>wp_opt m P; \<And>x. P x \<Longrightarrow> Q x\<rbrakk> \<Longrightarrow> wp_opt m Q"
  by (cases m) (simp_all add: wp_opt_def)

lemma wp_opt_iff: "wp_opt m P \<longleftrightarrow> (\<exists>x. m = Some x \<and> P x)"
  by (cases m) (simp_all add: wp_opt_def)

lemma bind_SomeE:
  assumes "Option.bind m f = Some y"
  obtains x where "m = Some x" "f x = Some y"
  using assms by (cases m) auto

lemma wp_opt_conj: "wp_opt m (\<lambda>x. P x \<and> Q x) \<longleftrightarrow> wp_opt m P \<and> wp_opt m Q"
  by (cases m) (simp_all add: wp_opt_def)

text \<open>The loop rule: an invariant indexed by what is left to do.\<close>

lemma wp_foldM:
  assumes "I xs s"
    and "\<And>x ys s. I (x # ys) s \<Longrightarrow> wp_opt (f x s) (I ys)"
  shows "wp_opt (foldM f xs s) (I [])"
  using assms(1)
proof (induction xs arbitrary: s)
  case Nil
  then show ?case by (simp add: wp_simps)
next
  case (Cons x xs)
  then show ?case
    by (auto simp: wp_simps intro: wp_opt_mono[OF assms(2)[OF Cons.prems]])
qed

text \<open>An invariant that every iteration keeps, for elements of the range.\<close>

lemma wp_foldM_inv:
  assumes "I s"
    and "\<And>x s. \<lbrakk>x \<in> set xs; I s\<rbrakk> \<Longrightarrow> wp_opt (f x s) I"
  shows "wp_opt (foldM f xs s) I"
  using assms
proof (induction xs arbitrary: s)
  case Nil
  then show ?case by (simp add: wp_simps)
next
  case (Cons x xs)
  have "wp_opt (f x s) I" by (rule Cons.prems) (simp_all add: Cons.prems)
  then show ?case
    by (simp add: wp_simps) (erule wp_opt_mono, rule Cons.IH, auto intro: Cons.prems)
qed

text \<open>A counting loop \<open>for i := 0; i < n; i++\<close>: the invariant is indexed by the counter.\<close>

lemma wp_foldM_upt:
  assumes "I m s" and "m \<le> n"
    and "\<And>i s. \<lbrakk>m \<le> i; i < n; I i s\<rbrakk> \<Longrightarrow> wp_opt (f i s) (I (Suc i))"
  shows "wp_opt (foldM f [m..<n] s) (I n)"
  using assms
proof (induction "n - m" arbitrary: m s)
  case 0
  then show ?case by (simp add: wp_simps)
next
  case (Suc k)
  then have "m < n" by simp
  have "wp_opt (f m s) (I (Suc m))" by (rule Suc.prems(3)) (simp_all add: Suc.prems \<open>m < n\<close>)
  then have "wp_opt (f m s) (\<lambda>t. wp_opt (foldM f [Suc m..<n] t) (I n))"
    by (rule wp_opt_mono) (rule Suc.hyps(1), use Suc \<open>m < n\<close> in auto)
  then show ?case
    by (simp add: upt_conv_Cons \<open>m < n\<close> wp_simps)
qed

text \<open>Consecutive assignments \<open>x[i] = v0; x[i+1] = v1; ...\<close>.\<close>

fun set_run :: "'a list \<Rightarrow> int \<Rightarrow> 'a list \<Rightarrow> 'a list option" where
  "set_run xs i [] = Some xs"
| "set_run xs i (v # vs) = Option.bind (arr_set xs i v) (\<lambda>ys. set_run ys (i + 1) vs)"

lemma set_run_spec:
  "\<lbrakk>0 \<le> i; i + int (length vs) \<le> int (length xs)\<rbrakk> \<Longrightarrow>
     \<exists>ys. set_run xs i vs = Some ys \<and> length ys = length xs
        \<and> (\<forall>t<length xs. ys ! t = (if nat i \<le> t \<and> t < nat i + length vs then vs ! (t - nat i) else xs ! t))"
proof (induction vs arbitrary: xs i)
  case (Cons v vs)
  then have i: "0 \<le> i" "i < int (length xs)" by auto
  define ys where "ys = xs[nat i := v]"
  obtain zs where zs: "set_run ys (i + 1) vs = Some zs" "length zs = length ys"
    "\<forall>t<length ys. zs ! t = (if nat (i + 1) \<le> t \<and> t < nat (i + 1) + length vs
        then vs ! (t - nat (i + 1)) else ys ! t)"
    using Cons.IH[of "i + 1" ys] Cons.prems by (auto simp: ys_def)
  have n: "nat (i + 1) = Suc (nat i)" using i by simp
  have "zs ! t = (if nat i \<le> t \<and> t < nat i + length (v # vs) then (v # vs) ! (t - nat i) else xs ! t)"
    if "t < length xs" for t
    using zs(3) that i by (cases "t = nat i") (auto simp: n ys_def nth_Cons' Suc_diff_Suc)
  then show ?case using zs i by (auto simp: arr_set_in ys_def)
qed auto

text \<open>A chain of checks \<open>if err := f(); err != nil { return err }\<close> succeeds when all do.\<close>

lemma first_error_None [simp]: "case_option n Some m = None \<longleftrightarrow> m = None \<and> n = None"
  by (cases m) auto

lemma find_SomeD: "List.find P xs = Some x \<Longrightarrow> x \<in> set xs \<and> P x"
  by (auto simp: find_Some_iff)

section \<open>Byte layouts\<close>

text \<open>\<open>binary.LittleEndian\<close> and \<open>binary.BigEndian\<close>: \<open>PutUint16/32\<close> and \<open>Uint16/32\<close>.\<close>

definition le16 :: "u16 \<Rightarrow> bytes" where
  "le16 w = [ucast w, ucast (drop_bit 8 w)]"

definition le32 :: "u32 \<Rightarrow> bytes" where
  "le32 w = [ucast w, ucast (drop_bit 8 w), ucast (drop_bit 16 w), ucast (drop_bit 24 w)]"

unbundle bit_operations_syntax

definition get_le16 :: "u8 \<Rightarrow> u8 \<Rightarrow> u16" where
  "get_le16 b0 b1 = ucast b0 OR push_bit 8 (ucast b1)"

definition get_le32 :: "u8 \<Rightarrow> u8 \<Rightarrow> u8 \<Rightarrow> u8 \<Rightarrow> u32" where
  "get_le32 b0 b1 b2 b3 =
     ucast b0 OR push_bit 8 (ucast b1) OR push_bit 16 (ucast b2) OR push_bit 24 (ucast b3)"

lemma bit_byte_high [simp]: "8 \<le> n \<Longrightarrow> \<not> bit (b :: u8) n"
  using bit_imp_le_length[of b n] by auto

lemma get_le16_le16 [bytes_simps]: "get_le16 (ucast w) (ucast (drop_bit 8 w)) = w"
  by (rule bit_word_eqI) (auto simp: get_le16_def bit_simps)

lemma get_le32_le32 [bytes_simps]:
  "get_le32 (ucast w) (ucast (drop_bit 8 w)) (ucast (drop_bit 16 w)) (ucast (drop_bit 24 w)) = w"
  by (rule bit_word_eqI) (auto simp: get_le32_def bit_simps split: nat_diff_split)

lemma le16_get_le16 [bytes_simps]: "le16 (get_le16 a b) = [a, b]"
  by (auto simp: le16_def get_le16_def bit_simps intro!: bit_word_eqI)

lemma le32_get_le32 [bytes_simps]: "le32 (get_le32 a b c d) = [a, b, c, d]"
  by (auto simp: le32_def get_le32_def bit_simps intro!: bit_word_eqI)

lemma length_le16 [simp]: "length (le16 w) = 2"
  by (simp add: le16_def)

lemma length_le32 [simp]: "length (le32 w) = 4"
  by (simp add: le32_def)

section \<open>Components as machines\<close>

text \<open>
  A component whose state changes by labelled operations: \<open>ok s l\<close> says that the
  environment may issue the operation \<open>l\<close> in state \<open>s\<close>, \<open>next s l\<close> is what the code does.
\<close>

fun run_ops :: "('s \<Rightarrow> 'l \<Rightarrow> 's) \<Rightarrow> 's \<Rightarrow> 'l list \<Rightarrow> 's" where
  "run_ops nx s [] = s"
| "run_ops nx s (l # ls) = run_ops nx (nx s l) ls"

fun ops_ok :: "('s \<Rightarrow> 'l \<Rightarrow> bool) \<Rightarrow> ('s \<Rightarrow> 'l \<Rightarrow> 's) \<Rightarrow> 's \<Rightarrow> 'l list \<Rightarrow> bool" where
  "ops_ok ok nx s [] = True"
| "ops_ok ok nx s (l # ls) = (ok s l \<and> ops_ok ok nx (nx s l) ls)"

lemma run_ops_append: "run_ops nx s (xs @ ys) = run_ops nx (run_ops nx s xs) ys"
  by (induction xs arbitrary: s) auto

lemma ops_ok_append: "ops_ok ok nx s (xs @ ys) \<longleftrightarrow> ops_ok ok nx s xs \<and> ops_ok ok nx (run_ops nx s xs) ys"
  by (induction xs arbitrary: s) auto

locale machine =
  fixes start :: "'s"
    and ok :: "'s \<Rightarrow> 'l \<Rightarrow> bool"
    and nx :: "'s \<Rightarrow> 'l \<Rightarrow> 's"
    and inv :: "'s \<Rightarrow> bool"
  assumes inv_start: "inv start"
    and inv_nx: "\<lbrakk>inv s; ok s l\<rbrakk> \<Longrightarrow> inv (nx s l)"
begin

lemma inv_run_from: "\<lbrakk>inv s; ops_ok ok nx s ls\<rbrakk> \<Longrightarrow> inv (run_ops nx s ls)"
  by (induction ls arbitrary: s) (auto intro: inv_nx)

lemma inv_run: "ops_ok ok nx start ls \<Longrightarrow> inv (run_ops nx start ls)"
  by (rule inv_run_from[OF inv_start])

end

end
