(* ===== verification/Breaker.thy ===== *)
theory Breaker
  imports Prelude
begin

text \<open>
  The circuit breaker of \<open>src/internal/circuitbreaker/breaker.go\<close>.

  Its mutex makes every method one atomic step, so the behaviour of a breaker is a sequence
  of timed calls. \<open>breaker_refines\<close> compares every such sequence with the abstract contract:
  the number of failures since the last success and the time of the last failure decide
  whether a request is let through.
\<close>

section \<open>State\<close>

datatype State = StateClosed | StateOpen | StateHalfOpen

record Breaker =
  state :: State
  failures :: int
  threshold :: int
  resetTimeout :: int
  lastFailure :: int

text \<open>\<open>time.Time\<close> is a number of nanoseconds; \<open>time.Since\<close> saturates at an \<open>int64\<close>.
  The zero value of \<open>lastFailure\<close> is Go's year 1; it is a parameter-free constant here because
  no operation reads it before it is set.\<close>

definition zeroTime :: int where
  "zeroTime = - 62135596800000000000"

definition since :: "int \<Rightarrow> int \<Rightarrow> int" where
  "since now t = max (- (2 ^ 63)) (min (2 ^ 63 - 1) (now - t))"

section \<open>Operations\<close>

definition New :: "int \<Rightarrow> int \<Rightarrow> Breaker" where
  "New thr rt = \<lparr>state = StateClosed, failures = 0, threshold = thr, resetTimeout = rt,
                 lastFailure = zeroTime\<rparr>"

definition State_op :: "int \<Rightarrow> Breaker \<Rightarrow> Breaker \<times> State" where
  "State_op now b =
     (let b' = (if state b = StateOpen \<and> since now (lastFailure b) \<ge> resetTimeout b
                then b\<lparr>state := StateHalfOpen\<rparr> else b)
      in (b', state b'))"

definition Allow :: "int \<Rightarrow> Breaker \<Rightarrow> Breaker \<times> bool" where
  "Allow now b = (case State_op now b of (b', st) \<Rightarrow> (b', st = StateClosed \<or> st = StateHalfOpen))"

definition RecordSuccess :: "Breaker \<Rightarrow> Breaker" where
  "RecordSuccess b = b\<lparr>failures := 0, state := StateClosed\<rparr>"

definition RecordFailure :: "int \<Rightarrow> Breaker \<Rightarrow> Breaker" where
  "RecordFailure now b =
     (let b1 = b\<lparr>failures := failures b + 1, lastFailure := now\<rparr>
      in if failures b1 \<ge> threshold b1 then b1\<lparr>state := StateOpen\<rparr> else b1)"

section \<open>Sequences of calls\<close>

datatype call = CAllow int | CSuccess int | CFailure int

fun call_time :: "call \<Rightarrow> int" where
  "call_time (CAllow t) = t"
| "call_time (CSuccess t) = t"
| "call_time (CFailure t) = t"

fun breaker_call :: "Breaker \<Rightarrow> call \<Rightarrow> Breaker" where
  "breaker_call b (CAllow t) = fst (Allow t b)"
| "breaker_call b (CSuccess t) = RecordSuccess b"
| "breaker_call b (CFailure t) = RecordFailure t b"

text \<open>The abstract contract, a function of the history alone (newest call first).\<close>

fun recent_failures :: "call list \<Rightarrow> int" where
  "recent_failures [] = 0"
| "recent_failures (CAllow t # h) = recent_failures h"
| "recent_failures (CSuccess t # h) = 0"
| "recent_failures (CFailure t # h) = recent_failures h + 1"

fun last_failure :: "call list \<Rightarrow> int" where
  "last_failure [] = zeroTime"
| "last_failure (CFailure t # h) = t"
| "last_failure (_ # h) = last_failure h"

definition tripped :: "int \<Rightarrow> call list \<Rightarrow> bool" where
  "tripped thr h \<longleftrightarrow> 0 < recent_failures h \<and> thr \<le> recent_failures h"

definition denies :: "int \<Rightarrow> int \<Rightarrow> call list \<Rightarrow> int \<Rightarrow> bool" where
  "denies thr rt h now \<longleftrightarrow> tripped thr h \<and> since now (last_failure h) < rt"

fun monotone_calls :: "call list \<Rightarrow> bool" where
  "monotone_calls [] = True"
| "monotone_calls [c] = True"
| "monotone_calls (c # d # h) = (call_time d \<le> call_time c \<and> monotone_calls (d # h))"

section \<open>Lemmas\<close>

lemma since_mono: "a \<le> b \<Longrightarrow> since a t \<le> since b t"
  by (auto simp: since_def)

lemma recent_failures_nonneg [simp]: "0 \<le> recent_failures h"
  by (induction h rule: recent_failures.induct) auto

text \<open>The simulation relation: \<open>clock\<close> is not before any earlier call.\<close>

definition sim :: "int \<Rightarrow> int \<Rightarrow> call list \<Rightarrow> Breaker \<Rightarrow> bool" where
  "sim thr rt h b \<longleftrightarrow>
     threshold b = thr \<and> resetTimeout b = rt \<and>
     failures b = recent_failures h \<and> lastFailure b = last_failure h \<and>
     (state b = StateClosed \<longleftrightarrow> \<not> tripped thr h) \<and>
     (state b = StateHalfOpen \<longrightarrow> (\<exists>c \<in> set h. since (call_time c) (last_failure h) \<ge> rt))"

lemma sim_New: "sim thr rt [] (New thr rt)"
  by (simp add: sim_def New_def tripped_def)

lemma sim_Success: "sim thr rt h b \<Longrightarrow> sim thr rt (CSuccess t # h) (RecordSuccess b)"
  by (simp add: sim_def RecordSuccess_def tripped_def)

lemma sim_Failure: "sim thr rt h b \<Longrightarrow> sim thr rt (CFailure t # h) (RecordFailure t b)"
  using recent_failures_nonneg[of h]
  by (cases "state b") (auto simp: sim_def RecordFailure_def tripped_def Let_def)

lemma sim_Allow: "sim thr rt h b \<Longrightarrow> sim thr rt (CAllow t # h) (fst (Allow t b))"
  by (cases "state b") (auto simp: sim_def Allow_def State_op_def tripped_def Let_def)

lemma sim_call: "sim thr rt h b \<Longrightarrow> sim thr rt (c # h) (breaker_call b c)"
  by (cases c) (simp_all add: sim_Allow sim_Success sim_Failure)

lemma sim_run: "sim thr rt h (run_ops breaker_call (New thr rt) (rev h))"
  by (induction h) (simp_all add: sim_New run_ops_append sim_call)

lemma monotone_calls_latest:
  "monotone_calls (c # h) \<Longrightarrow> d \<in> set h \<Longrightarrow> call_time d \<le> call_time c"
  by (induction h arbitrary: c) fastforce+

lemma sim_Allow_result:
  assumes "sim thr rt h b" and "monotone_calls (CAllow now # h)"
  shows "snd (Allow now b) \<longleftrightarrow> \<not> denies thr rt h now"
proof (cases "state b")
  case StateHalfOpen
  with assms obtain c where c: "c \<in> set h" "since (call_time c) (last_failure h) \<ge> rt"
    unfolding sim_def by blast
  have "since now (last_failure h) \<ge> rt"
    using c since_mono[OF monotone_calls_latest[OF assms(2) c(1)]] by (simp add: order.trans)
  with StateHalfOpen show ?thesis by (simp add: Allow_def State_op_def denies_def)
qed (use assms in \<open>auto simp: sim_def Allow_def State_op_def denies_def\<close>)

section \<open>Properties\<close>

text \<open>C34: the breaker implements its contract on every history of calls with a monotone
  clock: a request is refused exactly when the failures since the last success reached the
  threshold and less than the reset timeout has passed since the last failure.\<close>

theorem breaker_refines:
  assumes "monotone_calls (CAllow now # h)"
  shows "snd (Allow now (run_ops breaker_call (New thr rt) (rev h))) \<longleftrightarrow> \<not> denies thr rt h now"
  using sim_run assms by (rule sim_Allow_result)

theorem breaker_refines_witness:
  "snd (Allow 25 (run_ops breaker_call (New 2 10)
      (rev [CAllow 22, CFailure 20, CFailure 8, CAllow 3, CSuccess 2, CFailure 1]))) = False"
  by (subst breaker_refines) (simp_all add: denies_def tripped_def since_def)

text \<open>In the half-open state a single failure opens the circuit again, whatever the
  threshold, and a success closes it and forgets all earlier failures.\<close>

theorem half_open_probe:
  assumes "state (run_ops breaker_call (New thr rt) ls) = StateHalfOpen"
  shows "state (run_ops breaker_call (New thr rt) (ls @ [CFailure t])) = StateOpen
    \<and> run_ops breaker_call (New thr rt) (ls @ [CSuccess t])
        = (run_ops breaker_call (New thr rt) ls)\<lparr>failures := 0, state := StateClosed\<rparr>"
  using sim_run[of thr rt "rev ls"] assms
  by (auto simp: run_ops_append sim_def RecordFailure_def RecordSuccess_def tripped_def Let_def)

theorem half_open_probe_witness:
  "state (run_ops breaker_call (New 3 10)
     ([CFailure 1, CFailure 2, CFailure 3, CAllow 14] @ [CFailure 15])) = StateOpen"
  using half_open_probe[of 3 10 "[CFailure 1, CFailure 2, CFailure 3, CAllow 14]" 15]
  by (simp add: New_def RecordFailure_def Allow_def State_op_def since_def)

end
