(* ===== verification/Protocol.thy ===== *)
theory Protocol
  imports Prelude
begin

text \<open>
  The IVTP wire format, \<open>src/internal/ikvm/protocol.go\<close>: the 8-byte packet header and the
  86-byte ASPEED video header, with their decoders. \<open>encode_video_header\<close> is the layout the
  decoder expects, written as an encoder; the repository has no such function because only
  the BMC writes that header. A slice \<open>data[off:]\<close> with a moving \<open>off\<close> is the rest of the list,
  and reading past its end panics, which is \<^term>\<open>None\<close>.
\<close>

section \<open>Constants\<close>

text \<open>The message types that the client and the bridge use.\<close>

definition IVTPHIDPkt :: u16 where "IVTPHIDPkt = 1"
definition IVTPSetBandwidth :: u16 where "IVTPSetBandwidth = 2"
definition IVTPSetFPS :: u16 where "IVTPSetFPS = 3"
definition IVTPPauseRedirection :: u16 where "IVTPPauseRedirection = 4"
definition IVTPRefreshVideoScreen :: u16 where "IVTPRefreshVideoScreen = 5"
definition IVTPResumeRedirection :: u16 where "IVTPResumeRedirection = 6"
definition IVTPSetCompressionType :: u16 where "IVTPSetCompressionType = 7"
definition IVTPStopSessionImmediate :: u16 where "IVTPStopSessionImmediate = 8"
definition IVTPBlankScreen :: u16 where "IVTPBlankScreen = 9"
definition IVTPGetUSBMouseMode :: u16 where "IVTPGetUSBMouseMode = 10"
definition IVTPGetFullScreen :: u16 where "IVTPGetFullScreen = 11"
definition IVTPEnableEncryption :: u16 where "IVTPEnableEncryption = 12"
definition IVTPDisableEncryption :: u16 where "IVTPDisableEncryption = 13"
definition IVTPEncryptionStatus :: u16 where "IVTPEncryptionStatus = 14"
definition IVTPInitialEncryptionStatus :: u16 where "IVTPInitialEncryptionStatus = 15"
definition IVTPBWDetectReq :: u16 where "IVTPBWDetectReq = 16"
definition IVTPBWDetectResp :: u16 where "IVTPBWDetectResp = 17"
definition IVTPValidateVideoSession :: u16 where "IVTPValidateVideoSession = 18"
definition IVTPValidateVideoSessionRsp :: u16 where "IVTPValidateVideoSessionRsp = 19"
definition IVTPGetKeybdLED :: u16 where "IVTPGetKeybdLED = 20"
definition IVTPGetWebToken :: u16 where "IVTPGetWebToken = 21"
definition IVTPMaxSessionClosing :: u16 where "IVTPMaxSessionClosing = 22"
definition IVTPSessionAccepted :: u16 where "IVTPSessionAccepted = 23"
definition IVTPMediaState :: u16 where "IVTPMediaState = 24"
definition IVTPVideoFragment :: u16 where "IVTPVideoFragment = 25"
definition IVTPWebPreviewerSession :: u16 where "IVTPWebPreviewerSession = 26"
definition IVTPSetMouseMode :: u16 where "IVTPSetMouseMode = 28"
definition IVTPKVMSharing :: u16 where "IVTPKVMSharing = 32"
definition IVTPSocketStatus :: u16 where "IVTPSocketStatus = 33"
definition IVTPPowerStatus :: u16 where "IVTPPowerStatus = 34"
definition IVTPPowerControlReq :: u16 where "IVTPPowerControlReq = 35"
definition IVTPPowerControlResp :: u16 where "IVTPPowerControlResp = 36"
definition IVTPConfServiceStatus :: u16 where "IVTPConfServiceStatus = 37"
definition IVTPGetActiveClients :: u16 where "IVTPGetActiveClients = 39"
definition IVTPGetUserMacro :: u16 where "IVTPGetUserMacro = 40"
definition IVTPIPMIRequestPkt :: u16 where "IVTPIPMIRequestPkt = 48"
definition IVTPSetNextMaster :: u16 where "IVTPSetNextMaster = 50"
definition IVTPDisplayLock :: u16 where "IVTPDisplayLock = 51"
definition IVTPMediaLicenseStatus :: u16 where "IVTPMediaLicenseStatus = 53"
definition IVTPSetKbdLang :: u16 where "IVTPSetKbdLang = 55"
definition IVTPMediaFreeInstance :: u16 where "IVTPMediaFreeInstance = 56"
definition IVTPSOCVideoEngConfig :: u16 where "IVTPSOCVideoEngConfig = 4099"

lemmas ivtp_types =
  IVTPHIDPkt_def IVTPSetBandwidth_def IVTPSetFPS_def IVTPPauseRedirection_def
  IVTPRefreshVideoScreen_def IVTPResumeRedirection_def IVTPSetCompressionType_def IVTPStopSessionImmediate_def
  IVTPBlankScreen_def IVTPGetUSBMouseMode_def IVTPGetFullScreen_def IVTPEnableEncryption_def
  IVTPDisableEncryption_def IVTPEncryptionStatus_def IVTPInitialEncryptionStatus_def IVTPBWDetectReq_def
  IVTPBWDetectResp_def IVTPValidateVideoSession_def IVTPValidateVideoSessionRsp_def IVTPGetKeybdLED_def
  IVTPGetWebToken_def IVTPMaxSessionClosing_def IVTPSessionAccepted_def IVTPMediaState_def
  IVTPVideoFragment_def IVTPWebPreviewerSession_def IVTPSetMouseMode_def IVTPKVMSharing_def
  IVTPSocketStatus_def IVTPPowerStatus_def IVTPPowerControlReq_def IVTPPowerControlResp_def
  IVTPConfServiceStatus_def IVTPGetActiveClients_def IVTPGetUserMacro_def IVTPIPMIRequestPkt_def
  IVTPSetNextMaster_def IVTPDisplayLock_def IVTPMediaLicenseStatus_def IVTPSetKbdLang_def
  IVTPMediaFreeInstance_def IVTPSOCVideoEngConfig_def

definition IVTPHeaderSize :: int where "IVTPHeaderSize = 8"
definition VideoHeaderSize :: int where "VideoHeaderSize = 86"
definition FragmentLastMask :: u16 where "FragmentLastMask = 0x8000"
definition DisplayUnlock :: u8 where "DisplayUnlock = 0"
definition DisplayLock :: u8 where "DisplayLock = 1"
definition DisplayQuery :: u8 where "DisplayQuery = 2"
definition MouseModeRelative :: u8 where "MouseModeRelative = 1"
definition MouseModeAbsolute :: u8 where "MouseModeAbsolute = 2"

section \<open>The IVTP header\<close>

record IVTPHeader =
  Type :: u16
  PktSize :: u32
  Status :: u16

datatype decode_error = ETooShort nat

definition Encode :: "IVTPHeader \<Rightarrow> bytes" where
  "Encode h = le16 (Type h) @ le32 (PktSize h) @ le16 (Status h)"

text \<open>Reading from the front of a slice: \<open>data[off]\<close>, \<open>Uint16(data[off:])\<close>, \<open>Uint32(data[off:])\<close>.\<close>

fun r8 :: "bytes \<Rightarrow> (u8 \<times> bytes) option" where
  "r8 (a # d) = Some (a, d)"
| "r8 _ = None"

fun r16 :: "bytes \<Rightarrow> (u16 \<times> bytes) option" where
  "r16 (a # b # d) = Some (get_le16 a b, d)"
| "r16 _ = None"

fun r32 :: "bytes \<Rightarrow> (u32 \<times> bytes) option" where
  "r32 (a # b # c # e # d) = Some (get_le32 a b c e, d)"
| "r32 _ = None"

definition DecodeIVTPHeader :: "bytes \<Rightarrow> (decode_error + IVTPHeader) option" where
  "DecodeIVTPHeader data =
     (if int (length data) < IVTPHeaderSize then Some (Inl (ETooShort (length data)))
      else do {
        (t, d1) \<leftarrow> r16 data;
        (n, d2) \<leftarrow> r32 d1;
        (s, d3) \<leftarrow> r16 d2;
        Some (Inr \<lparr>Type = t, PktSize = n, Status = s\<rparr>)
      })"

section \<open>The ASPEED video header\<close>

record ASPEEDVideoHeader =
  EngVersion :: u16
  HeaderLen :: u16
  SrcX :: u16
  SrcY :: u16
  SrcColorDepth :: u16
  SrcRefreshRate :: u16
  SrcModeIndex :: u8
  DstX :: u16
  DstY :: u16
  DstColorDepth :: u16
  DstRefreshRate :: u16
  DstModeIndex :: u8
  FrameStartCode :: u32
  FrameNumber :: u32
  HSize :: u16
  VSize :: u16
  Reserved :: bytes
  CompressionMode :: u8
  JPEGScaleFactor :: u8
  JPEGTableSelector :: u8
  JPEGYUVTableMapping :: u8
  SharpModeSelection :: u8
  AdvTableSelector :: u8
  AdvScaleFactor :: u8
  NumberOfMB :: u32
  RC4Enable :: u8
  RC4Reset :: u8
  Mode420 :: u8
  DownScalingMethod :: u8
  DiffSetting :: u8
  AnalogDiffThresh :: u16
  DigitalDiffThresh :: u16
  ExtSignalEnable :: u8
  AutoMode :: u8
  VQMode :: u8
  SrcFrameSize :: u32
  CompressSize :: u32
  HDebug :: u32
  VDebug :: u32
  InputSignal :: u8
  CursorXPos :: u16
  CursorYPos :: u16

text \<open>\<open>copy(h.Reserved[:], data[off:off+8])\<close>\<close>

definition r_reserved :: "bytes \<Rightarrow> (bytes \<times> bytes) option" where
  "r_reserved d = (if length d < 8 then None else Some (take 8 d, drop 8 d))"

definition DecodeASPEEDVideoHeader :: "bytes \<Rightarrow> (decode_error + ASPEEDVideoHeader) option" where
  "DecodeASPEEDVideoHeader data =
     (if int (length data) < VideoHeaderSize then Some (Inl (ETooShort (length data)))
      else do {
        (v0, d1) \<leftarrow> r16 data;
        (v1, d2) \<leftarrow> r16 d1;
        (v2, d3) \<leftarrow> r16 d2;
        (v3, d4) \<leftarrow> r16 d3;
        (v4, d5) \<leftarrow> r16 d4;
        (v5, d6) \<leftarrow> r16 d5;
        (v6, d7) \<leftarrow> r8 d6;
        (v7, d8) \<leftarrow> r16 d7;
        (v8, d9) \<leftarrow> r16 d8;
        (v9, d10) \<leftarrow> r16 d9;
        (v10, d11) \<leftarrow> r16 d10;
        (v11, d12) \<leftarrow> r8 d11;
        (v12, d13) \<leftarrow> r32 d12;
        (v13, d14) \<leftarrow> r32 d13;
        (v14, d15) \<leftarrow> r16 d14;
        (v15, d16) \<leftarrow> r16 d15;
        (v16, d17) \<leftarrow> r_reserved d16;
        (v17, d18) \<leftarrow> r8 d17;
        (v18, d19) \<leftarrow> r8 d18;
        (v19, d20) \<leftarrow> r8 d19;
        (v20, d21) \<leftarrow> r8 d20;
        (v21, d22) \<leftarrow> r8 d21;
        (v22, d23) \<leftarrow> r8 d22;
        (v23, d24) \<leftarrow> r8 d23;
        (v24, d25) \<leftarrow> r32 d24;
        (v25, d26) \<leftarrow> r8 d25;
        (v26, d27) \<leftarrow> r8 d26;
        (v27, d28) \<leftarrow> r8 d27;
        (v28, d29) \<leftarrow> r8 d28;
        (v29, d30) \<leftarrow> r8 d29;
        (v30, d31) \<leftarrow> r16 d30;
        (v31, d32) \<leftarrow> r16 d31;
        (v32, d33) \<leftarrow> r8 d32;
        (v33, d34) \<leftarrow> r8 d33;
        (v34, d35) \<leftarrow> r8 d34;
        (v35, d36) \<leftarrow> r32 d35;
        (v36, d37) \<leftarrow> r32 d36;
        (v37, d38) \<leftarrow> r32 d37;
        (v38, d39) \<leftarrow> r32 d38;
        (v39, d40) \<leftarrow> r8 d39;
        (v40, d41) \<leftarrow> r16 d40;
        (v41, d42) \<leftarrow> r16 d41;
        Some (Inr \<lparr>EngVersion = v0, HeaderLen = v1, SrcX = v2, SrcY = v3,
          SrcColorDepth = v4, SrcRefreshRate = v5, SrcModeIndex = v6, DstX = v7,
          DstY = v8, DstColorDepth = v9, DstRefreshRate = v10, DstModeIndex = v11,
          FrameStartCode = v12, FrameNumber = v13, HSize = v14, VSize = v15,
          Reserved = v16, CompressionMode = v17, JPEGScaleFactor = v18, JPEGTableSelector = v19,
          JPEGYUVTableMapping = v20, SharpModeSelection = v21, AdvTableSelector = v22, AdvScaleFactor = v23,
          NumberOfMB = v24, RC4Enable = v25, RC4Reset = v26, Mode420 = v27,
          DownScalingMethod = v28, DiffSetting = v29, AnalogDiffThresh = v30, DigitalDiffThresh = v31,
          ExtSignalEnable = v32, AutoMode = v33, VQMode = v34, SrcFrameSize = v35,
          CompressSize = v36, HDebug = v37, VDebug = v38, InputSignal = v39,
          CursorXPos = v40, CursorYPos = v41\<rparr>)
      })"

definition encode_video_header :: "ASPEEDVideoHeader \<Rightarrow> bytes" where
  "encode_video_header h =
     le16 (EngVersion h) @ le16 (HeaderLen h) @ le16 (SrcX h) @ le16 (SrcY h) @
     le16 (SrcColorDepth h) @ le16 (SrcRefreshRate h) @ [SrcModeIndex h] @ le16 (DstX h) @
     le16 (DstY h) @ le16 (DstColorDepth h) @ le16 (DstRefreshRate h) @ [DstModeIndex h] @
     le32 (FrameStartCode h) @ le32 (FrameNumber h) @ le16 (HSize h) @ le16 (VSize h) @
     Reserved h @ [CompressionMode h] @ [JPEGScaleFactor h] @ [JPEGTableSelector h] @
     [JPEGYUVTableMapping h] @ [SharpModeSelection h] @ [AdvTableSelector h] @ [AdvScaleFactor h] @
     le32 (NumberOfMB h) @ [RC4Enable h] @ [RC4Reset h] @ [Mode420 h] @
     [DownScalingMethod h] @ [DiffSetting h] @ le16 (AnalogDiffThresh h) @ le16 (DigitalDiffThresh h) @
     [ExtSignalEnable h] @ [AutoMode h] @ [VQMode h] @ le32 (SrcFrameSize h) @
     le32 (CompressSize h) @ le32 (HDebug h) @ le32 (VDebug h) @ [InputSignal h] @
     le16 (CursorXPos h) @ le16 (CursorYPos h)"

section \<open>Lemmas\<close>

lemma reads_back [bytes_simps]:
  "r8 (a # d) = Some (a, d)" "r16 (le16 w @ d) = Some (w, d)" "r32 (le32 u @ d) = Some (u, d)"
  "length rs = 8 \<Longrightarrow> r_reserved (rs @ d) = Some (rs, d)"
  by (simp_all add: le16_def le32_def bytes_simps r_reserved_def)

lemma length_ge_explicit:
  "numeral k \<le> length d \<longleftrightarrow> (\<exists>a d'. d = a # d' \<and> pred_numeral k \<le> length d')"
  by (simp add: numeral_eq_Suc Suc_le_length_iff)

lemma le16_get_le16_append [bytes_simps]: "le16 (get_le16 a b) @ d = a # b # d"
  by (simp add: bytes_simps)

lemma le32_get_le32_append [bytes_simps]: "le32 (get_le32 a b c e) @ d = a # b # c # e # d"
  by (simp add: bytes_simps)

lemma length_encode_video_header: "length (Reserved h) = 8 \<Longrightarrow> length (encode_video_header h) = 86"
  by (simp add: encode_video_header_def)

lemma DecodeIVTPHeader_total:
  assumes "8 \<le> length data"
  shows "\<exists>h. DecodeIVTPHeader data = Some (Inr h) \<and> Encode h = take 8 data"
  using assms
  by (clarsimp simp: length_ge_explicit Suc_le_length_iff DecodeIVTPHeader_def IVTPHeaderSize_def Encode_def bytes_simps)

lemma decode_video_header_explicit:
  assumes "86 \<le> length data"
  shows "\<exists>h. DecodeASPEEDVideoHeader data = Some (Inr h) \<and> encode_video_header h = take 86 data
           \<and> length (Reserved h) = 8"
  using assms
  by (clarsimp simp: length_ge_explicit Suc_le_length_iff DecodeASPEEDVideoHeader_def VideoHeaderSize_def r_reserved_def
      encode_video_header_def bytes_simps)

section \<open>Properties\<close>

text \<open>The IVTP packet header survives encoding and decoding, whatever follows it, and it
  occupies exactly \<open>IVTPHeaderSize\<close> bytes.\<close>

theorem IVTPHeader_roundtrip:
  "DecodeIVTPHeader (Encode h @ rest) = Some (Inr h) \<and> int (length (Encode h)) = IVTPHeaderSize"
  by (simp add: DecodeIVTPHeader_def Encode_def IVTPHeaderSize_def bytes_simps)

text \<open>The video header decoder never panics; it fails exactly on buffers shorter than the
  header and otherwise returns the header whose layout is the first 86 bytes, so that it
  reads every byte of the header into one field, and a header survives the round trip.\<close>

theorem ASPEEDVideoHeader_roundtrip:
  "DecodeASPEEDVideoHeader data \<noteq> None
   \<and> (DecodeASPEEDVideoHeader data = Some (Inl (ETooShort n)) \<longleftrightarrow> length data = n \<and> n < 86)
   \<and> (DecodeASPEEDVideoHeader data = Some (Inr h) \<longleftrightarrow>
        86 \<le> length data \<and> encode_video_header h = take 86 data \<and> length (Reserved h) = 8)"
proof (cases "86 \<le> length data")
  case True
  then obtain g where g: "DecodeASPEEDVideoHeader data = Some (Inr g)"
    "encode_video_header g = take 86 data" "length (Reserved g) = 8"
    using decode_video_header_explicit by blast
  have again: "DecodeASPEEDVideoHeader (encode_video_header k @ drop 86 data) = Some (Inr k)"
    if "length (Reserved k) = 8" for k
    using that
    by (simp add: DecodeASPEEDVideoHeader_def VideoHeaderSize_def encode_video_header_def bytes_simps)
  show ?thesis using True g again[of h] by auto
qed (auto simp: DecodeASPEEDVideoHeader_def VideoHeaderSize_def)

end
