(* ===== verification/Hid.thy ===== *)
theory Hid
  imports Protocol
begin

text \<open>
  The HID packets of \<open>src/internal/ikvm/hid.go\<close>: keyboard and absolute mouse reports wrapped in
  an IUSB header and an IVTP header. The shared atomic sequence counter is threaded through:
  each builder returns the packet and the next counter value.
\<close>

section \<open>Packets\<close>

definition IUSBSignature :: bytes where
  "IUSBSignature = [0x49, 0x55, 0x53, 0x42, 0x20, 0x20, 0x20, 0x20]"

definition IUSBProtoKeybdData :: u8 where "IUSBProtoKeybdData = 0x10"
definition IUSBProtoMouseData :: u8 where "IUSBProtoMouseData = 0x20"
definition IUSBDeviceKeybd :: u8 where "IUSBDeviceKeybd = 0x30"
definition IUSBDeviceMouse :: u8 where "IUSBDeviceMouse = 0x31"
definition IUSBFromRemote :: u8 where "IUSBFromRemote = 0x80"
definition IUSBKeybdDevNum :: u8 where "IUSBKeybdDevNum = 2"
definition IUSBKeybdIfNum :: u8 where "IUSBKeybdIfNum = 0"
definition IUSBMouseDevNum :: u8 where "IUSBMouseDevNum = 2"
definition IUSBMouseIfNum :: u8 where "IUSBMouseIfNum = 1"

lemmas iusb_consts = IUSBSignature_def IUSBProtoKeybdData_def IUSBProtoMouseData_def
  IUSBDeviceKeybd_def IUSBDeviceMouse_def IUSBFromRemote_def IUSBKeybdDevNum_def IUSBKeybdIfNum_def
  IUSBMouseDevNum_def IUSBMouseIfNum_def

text \<open>\<open>for i := 8; i < 40; i++ { cksum += buf[i] }; buf[19] = -cksum\<close>\<close>

definition iusb_cksum :: "bytes \<Rightarrow> u8" where
  "iusb_cksum buf = fold (\<lambda>i c. c + buf ! i) [8..<40] 0"

definition set_checksum :: "bytes \<Rightarrow> bytes" where
  "set_checksum buf = buf[19 := - iusb_cksum buf]"

definition BuildKeyboardReport :: "u32 \<Rightarrow> u8 \<Rightarrow> u8 \<Rightarrow> bool \<Rightarrow> bytes \<times> u32" where
  "BuildKeyboardReport seqNum modifiers keycode pressed =
     (set_checksum
        (le16 IVTPHIDPkt @ le32 41 @ le16 0
         @ IUSBSignature
         @ [1, 0, 0x20, 0]
         @ le32 9
         @ [0, IUSBDeviceKeybd, IUSBProtoKeybdData, IUSBFromRemote, IUSBKeybdDevNum, IUSBKeybdIfNum, 0, 0]
         @ le32 seqNum
         @ [0, 0, 0, 0]
         @ [8]
         @ [modifiers, if pressed then 1 else 0, keycode, 0, 0, 0, 0, 0]),
      seqNum + 1)"

definition BuildAbsMouseReport :: "u32 \<Rightarrow> u8 \<Rightarrow> u16 \<Rightarrow> u16 \<Rightarrow> u8 \<Rightarrow> bytes \<times> u32" where
  "BuildAbsMouseReport seqNum buttons x y wheel =
     (set_checksum
        (le16 IVTPHIDPkt @ le32 39 @ le16 0
         @ IUSBSignature
         @ [1, 0, 0x20, 0]
         @ le32 7
         @ [0, IUSBDeviceMouse, IUSBProtoMouseData, IUSBFromRemote, IUSBMouseDevNum, IUSBMouseIfNum, 0, 0]
         @ le32 seqNum
         @ [0, 0, 0, 0]
         @ [6]
         @ [buttons] @ le16 x @ le16 y @ [wheel]),
      seqNum + 1)"

section \<open>Specification\<close>

text \<open>A HID packet as the BMC reads it: the IVTP header announces exactly what follows, the IUSB
  header has its signature and sums to zero, and its length field counts the report with its
  length byte.\<close>

definition hid_packet :: "bytes \<Rightarrow> u8 \<Rightarrow> u32 \<Rightarrow> bytes \<Rightarrow> bool" where
  "hid_packet p device sn report \<longleftrightarrow>
     DecodeIVTPHeader p = Some (Inr \<lparr>Type = IVTPHIDPkt, PktSize = of_nat (length p - 8), Status = 0\<rparr>)
     \<and> take 8 (drop 8 p) = IUSBSignature
     \<and> sum_list (take 32 (drop 8 p)) = 0
     \<and> take 4 (drop 20 p) = le32 (of_nat (length report + 1))
     \<and> p ! 25 = device \<and> take 4 (drop 32 p) = le32 sn
     \<and> drop 40 p = of_nat (length report) # report"

lemma le_explicit: "le16 w = [ucast w, ucast (drop_bit 8 w)]"
  "le32 u = [ucast u, ucast (drop_bit 8 u), ucast (drop_bit 16 u), ucast (drop_bit 24 u)]"
  by (simp_all add: le16_def le32_def)

lemma iusb_cksum_explicit:
  "iusb_cksum buf = sum_list (map (\<lambda>i. buf ! i) [8..<40])"
proof -
  have "fold (\<lambda>i c. c + buf ! i) is a = a + sum_list (map (\<lambda>i. buf ! i) is)" for "is" and a :: u8
    by (induction "is" arbitrary: a) (simp_all add: algebra_simps)
  then show ?thesis by (simp add: iusb_cksum_def)
qed

lemma take_drop_nth: "m + n \<le> length xs \<Longrightarrow> take n (drop m xs) = map (\<lambda>i. xs ! i) [m..<m + n]"
  by (rule nth_equalityI) simp_all

text \<open>Storing the negated sum in the checksum byte, which was zero, makes the header sum to zero.\<close>

lemma set_checksum_sum:
  assumes "40 \<le> length buf" and "buf ! 19 = 0"
  shows "sum_list (take 32 (drop 8 (set_checksum buf))) = 0"
proof -
  define c where "c = iusb_cksum buf"
  have split: "[8..<40] = [8..<19] @ [19] @ [20..<40::nat]"
    by (simp add: upt_add_eq_append[of 8 19 21, simplified] upt_conv_Cons)
  have "take 32 (drop 8 (set_checksum buf)) = map (\<lambda>i. buf[19 := - c] ! i) [8..<40]"
    using take_drop_nth[of 8 32 "buf[19 := - c]"] assms(1)
    by (simp add: set_checksum_def c_def)
  also have "sum_list \<dots> = sum_list (map (\<lambda>i. buf ! i) [8..<19]) - c + sum_list (map (\<lambda>i. buf ! i) [20..<40])"
    unfolding split using assms(1) by (simp add: nth_list_update cong: map_cong)
  also have "\<dots> = sum_list (map (\<lambda>i. buf ! i) [8..<40]) - c"
    unfolding split using assms(2) by simp
  finally show ?thesis by (simp add: c_def iusb_cksum_explicit)
qed

lemma length_set_checksum [simp]: "length (set_checksum buf) = length buf"
  by (simp add: set_checksum_def)

lemma length_IUSBSignature [simp]: "length IUSBSignature = 8"
  by (simp add: IUSBSignature_def)

section \<open>Properties\<close>

text \<open>Every keyboard report is a well-formed HID packet for the keyboard that carries its
  modifiers, key and direction, and the sequence number of the call.\<close>

theorem BuildKeyboardReport_wf:
  "hid_packet (fst (BuildKeyboardReport sn m k pressed)) IUSBDeviceKeybd sn
     [m, if pressed then 1 else 0, k, 0, 0, 0, 0, 0]"
  unfolding hid_packet_def BuildKeyboardReport_def fst_conv
  by (intro conjI set_checksum_sum)
     (simp_all add: set_checksum_def DecodeIVTPHeader_def IVTPHeaderSize_def le_explicit get_le16_def
       get_le32_def IVTPHIDPkt_def iusb_consts)

text \<open>Every mouse report is a well-formed HID packet for the mouse that carries its buttons,
  coordinates and wheel, and the sequence number of the call.\<close>

theorem BuildAbsMouseReport_wf:
  "hid_packet (fst (BuildAbsMouseReport sn b x y w)) IUSBDeviceMouse sn ([b] @ le16 x @ le16 y @ [w])"
  unfolding hid_packet_def BuildAbsMouseReport_def fst_conv
  by (intro conjI set_checksum_sum)
     (simp_all add: set_checksum_def DecodeIVTPHeader_def IVTPHeaderSize_def le_explicit get_le16_def
       get_le32_def IVTPHIDPkt_def iusb_consts)

end
