(* ===== verification/Models.thy ===== *)
theory Models
  imports Prelude
begin

text \<open>
  The data model of \<open>src/internal/models/models.go\<close>: the structs the modelled components
  pass around, as records with the source's fields. Field names carry a prefix for their
  struct, since several structs share a name. A pointer to a \<open>bool\<close> with \<open>nil\<close> as "not set" is
  an option; \<open>time.Time\<close> is a number of nanoseconds.
\<close>

section \<open>Configuration\<close>

record ServerConfig =
  sc_Name :: string
  sc_BMCIP :: string
  sc_BMCPort :: int
  sc_BoardType :: string
  sc_Username :: string
  sc_CredentialEnv :: string
  sc_TLSSkipVerify :: "bool option"
  sc_PollIntervalSeconds :: int

record Settings =
  st_MaxConcurrentSessions :: int
  st_SessionTimeoutMinutes :: int
  st_IdleTimeoutMinutes :: int
  st_ListenAddress :: string
  st_CORSOrigins :: "string list"
  st_RateLimitRPM :: int
  st_BMCProxyRateLimitRPM :: int
  st_DBPath :: string
  st_AuditLog :: "bool option"
  st_MetricsEnabled :: bool
  st_BMCCredsTTLMinutes :: int
  st_AuditRetentionDays :: int
  st_ISODir :: string
  st_ISOMaxSizeGB :: int
  st_ISOServeAddress :: string
  st_NFSEnabled :: "bool option"
  st_NFSPort :: int

record RoleMapping =
  rm_Servers :: "string list"

text \<open>A \<open>map[string]*RoleMapping\<close> is an association list in the order one \<open>range\<close> loop visits it;
  the pointer may be \<open>nil\<close>.\<close>

record OIDCConfig =
  oc_Enabled :: bool
  oc_IssuerURL :: string
  oc_ClientID :: string
  oc_ClientSecretEnv :: string
  oc_RedirectURL :: string
  oc_Scopes :: "string list"
  oc_RoleClaim :: string
  oc_RoleMappings :: "(string \<times> RoleMapping option) list"

record AppConfig =
  ac_Servers :: "ServerConfig list"
  ac_Settings :: Settings
  ac_OIDC :: OIDCConfig

section \<open>Users\<close>

record UserInfo =
  ui_Email :: string
  ui_Name :: string
  ui_Roles :: "string list"

record UserSession =
  us_ID :: string
  us_User :: UserInfo
  us_IDToken :: string
  us_RefreshToken :: string
  us_ExpiresAt :: int

text \<open>An audit entry as the callers give it; the database adds the id and the time. The free-form \<open>Details\<close>
  are left out.\<close>

record AuditEntry =
  ae_EventType :: string
  ae_UserEmail :: string
  ae_ServerName :: string
  ae_SessionID :: string
  ae_RemoteAddr :: string

section \<open>Sessions and viewers\<close>

record Viewer =
  v_ID :: string
  v_DisplayName :: string
  v_IP :: string
  v_HasControl :: bool
  v_ConnectedAt :: int

datatype SessionStatus = SessionStarting | SessionConnected | SessionDisconnected | SessionError

datatype KVMMode = KVMModeWebSocket | KVMModeVNC | KVMModeIKVM

record JViewerArgs =
  jv_Hostname :: string
  jv_KVMToken :: string
  jv_KVMSecure :: string
  jv_KVMPort :: string
  jv_VMSecure :: string
  jv_CDState :: string
  jv_FDState :: string
  jv_HDState :: string
  jv_CDNum :: string
  jv_FDNum :: string
  jv_HDNum :: string
  jv_ExtendedPriv :: string
  jv_Localization :: string
  jv_KeyboardLayout :: string
  jv_WebSecurePort :: string
  jv_SinglePortEnabled :: string
  jv_WebCookie :: string
  jv_OEMFeatures :: string

record KVMConnectInfo =
  ci_Mode :: KVMMode
  ci_IKVMArgs :: "JViewerArgs option"
  ci_TargetURL :: string
  ci_TargetAddr :: string
  ci_VNCPassword :: string

record BMCCredentials =
  bc_SessionCookie :: string
  bc_CSRFToken :: string
  bc_KVMToken :: string
  bc_WebCookie :: string
  bc_Username :: string
  bc_Privilege :: int
  bc_ExtendedPriv :: int
  bc_Extra :: "(string \<times> string) list"

record BMCCredEntry =
  ce_Creds :: BMCCredentials
  ce_CreatedAt :: int

text \<open>\<open>ConnMode\<close> is \<^term>\<open>None\<close> for the empty string, before the session has a mode.\<close>

record KVMSession =
  ks_ID :: string
  ks_ServerName :: string
  ks_BMCIP :: string
  ks_Status :: SessionStatus
  ks_ConnMode :: "KVMMode option"
  ks_KVMTarget :: string
  ks_KVMPassword :: string
  ks_IKVMArgs :: "JViewerArgs option"
  ks_CreatedAt :: int
  ks_LastActivity :: int
  ks_Error :: string

section \<open>The session store\<close>

text \<open>
  \<open>SessionStore\<close> maps an id to a pointer: handlers keep changing the struct after \<open>Set\<close>, so the
  model has a heap of sessions and the map holds references into it. The order in which
  \<open>range\<close> visits a Go map is not specified; \<open>order\<close> is the enumeration of one such loop.
\<close>

type_synonym session_ref = nat
type_synonym session_heap = "session_ref \<Rightarrow> KVMSession"
type_synonym SessionStore = "string \<rightharpoonup> session_ref"

definition NewSessionStore :: SessionStore where
  "NewSessionStore = Map.empty"

definition store_Get :: "SessionStore \<Rightarrow> string \<Rightarrow> session_ref option" where
  "store_Get s i = s i"

definition store_Set :: "session_heap \<Rightarrow> SessionStore \<Rightarrow> session_ref \<Rightarrow> SessionStore" where
  "store_Set h s r = s(ks_ID (h r) \<mapsto> r)"

definition store_Delete :: "SessionStore \<Rightarrow> string \<Rightarrow> SessionStore" where
  "store_Delete s i = s(i := None)"

definition store_List :: "string list \<Rightarrow> SessionStore \<Rightarrow> session_ref list" where
  "store_List order s = List.map_filter s order"

definition active_for :: "session_heap \<Rightarrow> string \<Rightarrow> session_ref \<Rightarrow> bool" where
  "active_for h name r \<longleftrightarrow> ks_ServerName (h r) = name
     \<and> ks_Status (h r) \<noteq> SessionDisconnected \<and> ks_Status (h r) \<noteq> SessionError"

definition store_FindByServer ::
  "string list \<Rightarrow> session_heap \<Rightarrow> SessionStore \<Rightarrow> string \<Rightarrow> session_ref option" where
  "store_FindByServer order h s name = List.find (active_for h name) (store_List order s)"

text \<open>A \<open>range\<close> over a map visits every key once.\<close>

definition enumerates :: "string list \<Rightarrow> SessionStore \<Rightarrow> bool" where
  "enumerates order s \<longleftrightarrow> distinct order \<and> set order = dom s"

text \<open>
  The interface \<open>SessionStoreInterface\<close>: what its clients rely on, over the abstract view of
  a backend as a finite map from ids to references.
\<close>

locale session_store =
  fixes get :: "'st \<Rightarrow> string \<Rightarrow> session_ref option"
    and put :: "session_heap \<Rightarrow> 'st \<Rightarrow> session_ref \<Rightarrow> 'st"
    and delete :: "'st \<Rightarrow> string \<Rightarrow> 'st"
    and listing :: "string list \<Rightarrow> 'st \<Rightarrow> session_ref list"
    and find_by_server :: "string list \<Rightarrow> session_heap \<Rightarrow> 'st \<Rightarrow> string \<Rightarrow> session_ref option"
    and visits :: "string list \<Rightarrow> 'st \<Rightarrow> bool"
  assumes get_put: "get (put h s r) i = (if i = ks_ID (h r) then Some r else get s i)"
    and get_delete: "get (delete s i) j = (if j = i then None else get s j)"
    and listing_get: "visits order s \<Longrightarrow> set (listing order s) = {r. \<exists>i. get s i = Some r}"
    and find_listing: "find_by_server order h s name = List.find (active_for h name) (listing order s)"
begin

text \<open>\<open>FindByServer\<close> misses no active session and returns only active ones, in any order.\<close>

lemma lookup_None_iff:
  "visits order s \<Longrightarrow>
     find_by_server order h s name = None \<longleftrightarrow> (\<forall>i r. get s i = Some r \<longrightarrow> \<not> active_for h name r)"
  by (auto simp: find_listing find_None_iff listing_get)

lemma lookup_Some:
  "\<lbrakk>visits order s; find_by_server order h s name = Some r\<rbrakk> \<Longrightarrow>
     active_for h name r \<and> (\<exists>i. get s i = Some r)"
proof -
  assume v: "visits order s" and f: "find_by_server order h s name = Some r"
  from f have "r \<in> set (listing order s)" and "active_for h name r"
    by (auto simp: find_listing find_Some_iff)
  with listing_get[OF v] show ?thesis by blast
qed

text \<open>A session that was stored under its own id is found until it is deleted or inactive.\<close>

lemma put_findable:
  "\<lbrakk>visits order (put h s r); active_for h name r\<rbrakk> \<Longrightarrow> find_by_server order h (put h s r) name \<noteq> None"
  by (auto simp: lookup_None_iff get_put)

lemma delete_put: "get s (ks_ID (h r)) = None \<Longrightarrow> get (delete (put h s r) (ks_ID (h r))) = get s"
  by (rule ext) (auto simp: get_put get_delete)

end

interpretation mem: session_store store_Get store_Set store_Delete store_List store_FindByServer enumerates
proof
  fix order s
  assume "enumerates order s"
  then show "set (store_List order s) = {r. \<exists>i. store_Get s i = Some r}"
    by (force simp: store_List_def store_Get_def enumerates_def map_filter_def dom_def)
qed (auto simp: store_Get_def store_Set_def store_Delete_def store_FindByServer_def)

section \<open>Properties\<close>

text \<open>The in-memory store finds a session for a server exactly when some stored session of
  that server is neither disconnected nor failed, whatever the iteration order of the map,
  and the session it returns is such a one.\<close>

theorem FindByServer_correct:
  assumes "enumerates order s"
  shows "(store_FindByServer order h s name = None \<longleftrightarrow>
            (\<forall>i r. store_Get s i = Some r \<longrightarrow> \<not> active_for h name r))
       \<and> (\<forall>r. store_FindByServer order h s name = Some r \<longrightarrow>
            active_for h name r \<and> (\<exists>i. store_Get s i = Some r))"
  using mem.lookup_None_iff[OF assms] mem.lookup_Some[OF assms] by blast

definition sample_session :: "string \<Rightarrow> string \<Rightarrow> SessionStatus \<Rightarrow> KVMSession" where
  "sample_session i name status = \<lparr>ks_ID = i, ks_ServerName = name, ks_BMCIP = ''10.0.0.1'',
     ks_Status = status, ks_ConnMode = None, ks_KVMTarget = '''', ks_KVMPassword = '''',
     ks_IKVMArgs = None, ks_CreatedAt = 0, ks_LastActivity = 0, ks_Error = ''''\<rparr>"

definition sample_heap :: session_heap where
  "sample_heap r = (if r = 0 then sample_session ''a'' ''srv'' SessionError
                    else sample_session ''b'' ''srv'' SessionConnected)"

theorem FindByServer_correct_witness:
  "store_FindByServer [''a'', ''b''] sample_heap [''a'' \<mapsto> 0, ''b'' \<mapsto> 1] ''srv'' \<noteq> None"
proof -
  have "enumerates [''a'', ''b''] [''a'' \<mapsto> 0, ''b'' \<mapsto> 1]"
    by (auto simp: enumerates_def)
  then have "store_FindByServer [''a'', ''b''] sample_heap [''a'' \<mapsto> 0, ''b'' \<mapsto> 1] ''srv'' = None \<longleftrightarrow>
    (\<forall>i r. store_Get [''a'' \<mapsto> 0, ''b'' \<mapsto> 1] i = Some r \<longrightarrow> \<not> active_for sample_heap ''srv'' r)"
    by (rule FindByServer_correct[THEN conjunct1])
  moreover have "store_Get [''a'' \<mapsto> 0, ''b'' \<mapsto> 1] ''b'' = Some 1" and "active_for sample_heap ''srv'' 1"
    by (simp_all add: store_Get_def active_for_def sample_heap_def sample_session_def)
  ultimately show ?thesis by blast
qed

end
