(* ===== verification/Config.thy ===== *)
theory Config
  imports Models
begin

text \<open>
  Configuration loading, \<open>src/internal/config/config.go\<close>. \<open>validate\<close>, \<open>setDefaults\<close>,
  \<open>applyEnvOverrides\<close> and \<open>GetPassword\<close> are translated as they are; reading the file and the
  YAML parser (a third-party package) are parameters of \<open>Load\<close>, and the process environment is
  a function from names to values (\<open>os.Getenv\<close> gives the empty string for an unset variable).
\<close>

section \<open>Library functions\<close>

text \<open>\<open>strconv.Atoi\<close>: an optional sign, decimal digits, and a value in the range of \<open>int64\<close>.\<close>

definition is_digit :: "char \<Rightarrow> bool" where
  "is_digit c \<longleftrightarrow> 48 \<le> (of_char c :: nat) \<and> (of_char c :: nat) \<le> 57"

definition digits_value :: "string \<Rightarrow> int" where
  "digits_value ds = foldl (\<lambda>n c. 10 * n + (of_char c - 48)) 0 ds"

definition parse_digits :: "string \<Rightarrow> int option" where
  "parse_digits ds = (if ds \<noteq> [] \<and> list_all is_digit ds then Some (digits_value ds) else None)"

definition in_int64 :: "int \<Rightarrow> int option" where
  "in_int64 n = (if - (2 ^ 63) \<le> n \<and> n < 2 ^ 63 then Some n else None)"

fun Atoi :: "string \<Rightarrow> int option" where
  "Atoi [] = None"
| "Atoi (c # cs) =
     (if c = CHR ''-'' then Option.bind (parse_digits cs) (\<lambda>n. in_int64 (- n))
      else if c = CHR ''+'' then Option.bind (parse_digits cs) in_int64
      else Option.bind (parse_digits (c # cs)) in_int64)"

text \<open>\<open>strings.Split(v, ",")\<close>.\<close>

fun split_comma :: "string \<Rightarrow> string list" where
  "split_comma [] = ['''']"
| "split_comma (c # cs) =
     (if c = CHR '','' then '''' # split_comma cs
      else (case split_comma cs of [] \<Rightarrow> [[c]] | w # ws \<Rightarrow> (c # w) # ws))"

section \<open>Validation\<close>

datatype config_error =
    ENoServers
  | EServerName int
  | EDuplicateName int string
  | EBMCIP string
  | EBoardType string
  | EUsername string
  | ECredentialEnv string
  | EIssuerURL
  | EClientID
  | EClientSecretEnv
  | ERedirectURL
  | ENoRoleMapping
  | EUnknownServer string string
  | ENilDereference

fun validate_servers :: "int \<Rightarrow> string list \<Rightarrow> ServerConfig list \<Rightarrow> config_error option" where
  "validate_servers i names [] = None"
| "validate_servers i names (s # ss) =
     (if sc_Name s = '''' then Some (EServerName i)
      else if sc_Name s \<in> set names then Some (EDuplicateName i (sc_Name s))
      else if sc_BMCIP s = '''' then Some (EBMCIP (sc_Name s))
      else if sc_BoardType s = '''' then Some (EBoardType (sc_Name s))
      else if sc_Username s = '''' then Some (EUsername (sc_Name s))
      else if sc_CredentialEnv s = '''' then Some (ECredentialEnv (sc_Name s))
      else validate_servers (i + 1) (sc_Name s # names) ss)"

fun validate_role :: "string set \<Rightarrow> string \<Rightarrow> string list \<Rightarrow> config_error option" where
  "validate_role known role [] = None"
| "validate_role known role (srv # srvs) =
     (if srv \<noteq> ''*'' \<and> srv \<notin> known then Some (EUnknownServer role srv)
      else validate_role known role srvs)"

fun validate_roles :: "string set \<Rightarrow> (string \<times> RoleMapping option) list \<Rightarrow> config_error option" where
  "validate_roles known [] = None"
| "validate_roles known ((role, None) # ms) = Some ENilDereference"
| "validate_roles known ((role, Some m) # ms) =
     (case validate_role known role (rm_Servers m) of
        Some e \<Rightarrow> Some e
      | None \<Rightarrow> validate_roles known ms)"

definition validate_oidc :: "string set \<Rightarrow> OIDCConfig \<Rightarrow> config_error option" where
  "validate_oidc known oc =
     (if \<not> oc_Enabled oc then None
      else if oc_IssuerURL oc = '''' then Some EIssuerURL
      else if oc_ClientID oc = '''' then Some EClientID
      else if oc_ClientSecretEnv oc = '''' then Some EClientSecretEnv
      else if oc_RedirectURL oc = '''' then Some ERedirectURL
      else if oc_RoleMappings oc = [] then Some ENoRoleMapping
      else validate_roles known (oc_RoleMappings oc))"

definition validate :: "AppConfig \<Rightarrow> config_error option" where
  "validate cfg =
     (if ac_Servers cfg = [] then Some ENoServers
      else (case validate_servers 0 [] (ac_Servers cfg) of
              Some e \<Rightarrow> Some e
            | None \<Rightarrow> validate_oidc (sc_Name ` set (ac_Servers cfg)) (ac_OIDC cfg)))"

section \<open>Defaults and overrides\<close>

definition default_int :: "int \<Rightarrow> int \<Rightarrow> int" where
  "default_int d n = (if n \<le> 0 then d else n)"

definition default_str :: "string \<Rightarrow> string \<Rightarrow> string" where
  "default_str d s = (if s = '''' then d else s)"

definition settings_defaults :: "Settings \<Rightarrow> Settings" where
  "settings_defaults st = st\<lparr>
     st_MaxConcurrentSessions := default_int 4 (st_MaxConcurrentSessions st),
     st_SessionTimeoutMinutes := default_int 60 (st_SessionTimeoutMinutes st),
     st_IdleTimeoutMinutes := default_int 30 (st_IdleTimeoutMinutes st),
     st_ListenAddress := default_str ''0.0.0.0:8080'' (st_ListenAddress st),
     st_CORSOrigins := (if st_CORSOrigins st = [] then [''*''] else st_CORSOrigins st),
     st_RateLimitRPM := default_int 60 (st_RateLimitRPM st),
     st_BMCProxyRateLimitRPM := default_int 300 (st_BMCProxyRateLimitRPM st),
     st_DBPath := default_str ''data/kvm-switcher.db'' (st_DBPath st),
     st_AuditLog := (if st_AuditLog st = None then Some True else st_AuditLog st),
     st_BMCCredsTTLMinutes := default_int 120 (st_BMCCredsTTLMinutes st),
     st_AuditRetentionDays := default_int 90 (st_AuditRetentionDays st),
     st_ISODir := default_str ''data/isos/'' (st_ISODir st),
     st_ISOMaxSizeGB := default_int 10 (st_ISOMaxSizeGB st),
     st_NFSPort := default_int 2049 (st_NFSPort st)\<rparr>"

definition server_defaults :: "ServerConfig \<Rightarrow> ServerConfig" where
  "server_defaults s = s\<lparr>
     sc_BMCPort := default_int
        (if sc_BoardType s = ''dell_idrac8'' \<or> sc_BoardType s = ''dell_idrac9'' then 443 else 80)
        (sc_BMCPort s),
     sc_PollIntervalSeconds := default_int 30 (sc_PollIntervalSeconds s)\<rparr>"

definition setDefaults :: "AppConfig \<Rightarrow> AppConfig" where
  "setDefaults cfg = cfg\<lparr>ac_Settings := settings_defaults (ac_Settings cfg),
                         ac_Servers := map server_defaults (ac_Servers cfg)\<rparr>"

definition env_int :: "string \<Rightarrow> int \<Rightarrow> int" where
  "env_int v old = (if v = '''' then old
     else (case Atoi v of None \<Rightarrow> old | Some n \<Rightarrow> if n > 0 then n else old))"

definition env_str :: "string \<Rightarrow> string \<Rightarrow> string" where
  "env_str v old = (if v = '''' then old else v)"

definition env_true :: "string \<Rightarrow> bool" where
  "env_true v \<longleftrightarrow> v = ''true'' \<or> v = ''1''"

definition settings_overrides :: "(string \<Rightarrow> string) \<Rightarrow> Settings \<Rightarrow> Settings" where
  "settings_overrides env st = st\<lparr>
     st_CORSOrigins := (let v = env ''KVM_CORS_ORIGINS'' in
        if v = '''' then st_CORSOrigins st else split_comma v),
     st_RateLimitRPM := env_int (env ''KVM_RATE_LIMIT_RPM'') (st_RateLimitRPM st),
     st_DBPath := env_str (env ''KVM_DB_PATH'') (st_DBPath st),
     st_AuditLog := (let v = env ''KVM_AUDIT_LOG'' in
        if v = '''' then st_AuditLog st else Some (env_true v)),
     st_MetricsEnabled := (let v = env ''KVM_METRICS_ENABLED'' in
        if v = '''' then st_MetricsEnabled st else env_true v),
     st_BMCProxyRateLimitRPM :=
        env_int (env ''KVM_BMC_PROXY_RATE_LIMIT_RPM'') (st_BMCProxyRateLimitRPM st),
     st_BMCCredsTTLMinutes := env_int (env ''KVM_BMC_CREDS_TTL_MINUTES'') (st_BMCCredsTTLMinutes st),
     st_AuditRetentionDays := env_int (env ''KVM_AUDIT_RETENTION_DAYS'') (st_AuditRetentionDays st),
     st_ISODir := env_str (env ''KVM_ISO_DIR'') (st_ISODir st),
     st_ISOMaxSizeGB := env_int (env ''KVM_ISO_MAX_SIZE_GB'') (st_ISOMaxSizeGB st),
     st_ISOServeAddress := env_str (env ''KVM_ISO_SERVE_ADDRESS'') (st_ISOServeAddress st),
     st_NFSEnabled := (let v = env ''KVM_NFS_ENABLED'' in
        if v = '''' then st_NFSEnabled st else Some (env_true v)),
     st_NFSPort := env_int (env ''KVM_NFS_PORT'') (st_NFSPort st)\<rparr>"

definition applyEnvOverrides :: "(string \<Rightarrow> string) \<Rightarrow> AppConfig \<Rightarrow> AppConfig" where
  "applyEnvOverrides env cfg = cfg\<lparr>ac_Settings := settings_overrides env (ac_Settings cfg)\<rparr>"

datatype load_error = EReadFile | EParse | EInvalid config_error

definition Load ::
  "(string \<Rightarrow> bytes option) \<Rightarrow> (bytes \<Rightarrow> AppConfig option) \<Rightarrow> (string \<Rightarrow> string) \<Rightarrow> string
     \<Rightarrow> load_error + AppConfig" where
  "Load readFile unmarshal env path =
     (case readFile path of
        None \<Rightarrow> Inl EReadFile
      | Some content \<Rightarrow>
          (case unmarshal content of
             None \<Rightarrow> Inl EParse
           | Some cfg \<Rightarrow>
               (case validate cfg of
                  Some e \<Rightarrow> Inl (EInvalid e)
                | None \<Rightarrow> Inr (applyEnvOverrides env (setDefaults cfg)))))"

definition GetPassword :: "(string \<Rightarrow> string) \<Rightarrow> ServerConfig \<Rightarrow> string option" where
  "GetPassword env server =
     (let password = env (sc_CredentialEnv server) in if password = '''' then None else Some password)"

section \<open>Specification\<close>

definition complete_server :: "ServerConfig \<Rightarrow> bool" where
  "complete_server s \<longleftrightarrow> sc_Name s \<noteq> '''' \<and> sc_BMCIP s \<noteq> '''' \<and> sc_BoardType s \<noteq> ''''
     \<and> sc_Username s \<noteq> '''' \<and> sc_CredentialEnv s \<noteq> ''''"

definition valid_mapping :: "string set \<Rightarrow> RoleMapping option \<Rightarrow> bool" where
  "valid_mapping known m = (case m of None \<Rightarrow> False | Some m \<Rightarrow> set (rm_Servers m) \<subseteq> insert ''*'' known)"

definition valid_config :: "AppConfig \<Rightarrow> bool" where
  "valid_config cfg \<longleftrightarrow>
     ac_Servers cfg \<noteq> [] \<and> list_all complete_server (ac_Servers cfg)
     \<and> distinct (map sc_Name (ac_Servers cfg))
     \<and> (let oc = ac_OIDC cfg in \<not> oc_Enabled oc \<or>
          (oc_IssuerURL oc \<noteq> '''' \<and> oc_ClientID oc \<noteq> '''' \<and> oc_ClientSecretEnv oc \<noteq> ''''
           \<and> oc_RedirectURL oc \<noteq> '''' \<and> oc_RoleMappings oc \<noteq> []
           \<and> list_all (\<lambda>(_, m). valid_mapping (sc_Name ` set (ac_Servers cfg)) m) (oc_RoleMappings oc)))"

definition positive_settings :: "Settings \<Rightarrow> bool" where
  "positive_settings st \<longleftrightarrow>
     0 < st_MaxConcurrentSessions st \<and> 0 < st_SessionTimeoutMinutes st \<and> 0 < st_IdleTimeoutMinutes st
     \<and> 0 < st_RateLimitRPM st \<and> 0 < st_BMCProxyRateLimitRPM st \<and> 0 < st_BMCCredsTTLMinutes st
     \<and> 0 < st_AuditRetentionDays st \<and> 0 < st_ISOMaxSizeGB st \<and> 0 < st_NFSPort st
     \<and> st_ListenAddress st \<noteq> '''' \<and> st_CORSOrigins st \<noteq> [] \<and> st_DBPath st \<noteq> ''''
     \<and> st_ISODir st \<noteq> '''' \<and> st_AuditLog st \<noteq> None"

definition ready_server :: "ServerConfig \<Rightarrow> bool" where
  "ready_server s \<longleftrightarrow> 0 < sc_BMCPort s \<and> 0 < sc_PollIntervalSeconds s"

section \<open>Lemmas\<close>

lemma validate_servers_None_iff:
  "validate_servers i names ss = None \<longleftrightarrow>
     list_all complete_server ss \<and> distinct (map sc_Name ss) \<and> sc_Name ` set ss \<inter> set names = {}"
  by (induction i names ss rule: validate_servers.induct) (auto simp: complete_server_def)

lemma validate_role_None_iff: "validate_role known role srvs = None \<longleftrightarrow> set srvs \<subseteq> insert ''*'' known"
  by (induction srvs) auto

lemma validate_roles_None_iff:
  "validate_roles known ms = None \<longleftrightarrow> list_all (\<lambda>(_, m). valid_mapping known m) ms"
  by (induction known ms rule: validate_roles.induct)
     (auto simp: valid_mapping_def validate_role_None_iff)

lemma default_int_pos [simp]: "0 < d \<Longrightarrow> 0 < default_int d n"
  by (simp add: default_int_def)

lemma default_str_nonempty [simp]: "d \<noteq> '''' \<Longrightarrow> default_str d s \<noteq> ''''"
  by (simp add: default_str_def)

lemma env_int_pos [simp]: "0 < old \<Longrightarrow> 0 < env_int v old"
  by (simp add: env_int_def split: option.split)

lemma env_str_nonempty [simp]: "old \<noteq> '''' \<Longrightarrow> env_str v old \<noteq> ''''"
  by (simp add: env_str_def)

lemma split_comma_nonempty [simp]: "split_comma v \<noteq> []"
  by (cases v) (auto split: list.splits)

lemma positive_settings_defaults: "positive_settings (settings_defaults st)"
  by (auto simp: positive_settings_def settings_defaults_def)

lemma positive_settings_overrides:
  "positive_settings st \<Longrightarrow> positive_settings (settings_overrides env st)"
  by (simp add: positive_settings_def settings_overrides_def Let_def)

lemma ready_server_defaults: "ready_server (server_defaults s)"
  by (simp add: ready_server_def server_defaults_def)

lemma complete_server_defaults [simp]: "complete_server (server_defaults s) = complete_server s"
  by (simp add: complete_server_def server_defaults_def)

lemma sc_Name_server_defaults [simp]: "sc_Name (server_defaults s) = sc_Name s"
  by (simp add: server_defaults_def)

lemma valid_config_setDefaults: "valid_config (setDefaults cfg) = valid_config cfg"
  by (simp add: valid_config_def setDefaults_def list_all_iff image_image comp_def Let_def)

lemma valid_config_overrides: "valid_config (applyEnvOverrides env cfg) = valid_config cfg"
  by (simp add: valid_config_def applyEnvOverrides_def)

lemma validate_None_iff: "validate cfg = None \<longleftrightarrow> valid_config cfg"
  by (auto simp: validate_def valid_config_def validate_oidc_def validate_servers_None_iff
      validate_roles_None_iff Let_def)

section \<open>Properties\<close>

text \<open>\<open>validate\<close> accepts exactly the configurations with at least one server, complete and
  uniquely named servers and, when OIDC is on, complete OIDC settings whose role mappings
  only name configured servers or the wildcard.\<close>

theorem validate_correct: "validate cfg = None \<longleftrightarrow> valid_config cfg"
  by (rule validate_None_iff)

text \<open>\<open>Load\<close> returns a configuration exactly when the file is readable, parses and is
  valid; what it returns is still valid, keeps the server names, and every limit, timeout,
  port and interval in it is positive, whatever the environment holds.\<close>

theorem Load_correct:
  "Load readFile unmarshal env path = Inr cfg \<longleftrightarrow>
     (\<exists>content cfg0. readFile path = Some content \<and> unmarshal content = Some cfg0 \<and> valid_config cfg0
        \<and> cfg = applyEnvOverrides env (setDefaults cfg0)
        \<and> valid_config cfg \<and> positive_settings (ac_Settings cfg)
        \<and> list_all ready_server (ac_Servers cfg)
        \<and> map sc_Name (ac_Servers cfg) = map sc_Name (ac_Servers cfg0))"
proof -
  have "valid_config (applyEnvOverrides env (setDefaults c)) = valid_config c"
    and "positive_settings (ac_Settings (applyEnvOverrides env (setDefaults c)))"
    and "list_all ready_server (ac_Servers (applyEnvOverrides env (setDefaults c)))"
    and "map sc_Name (ac_Servers (applyEnvOverrides env (setDefaults c))) = map sc_Name (ac_Servers c)"
    for c
    by (simp_all add: valid_config_overrides valid_config_setDefaults)
       (simp_all add: applyEnvOverrides_def setDefaults_def positive_settings_overrides
         positive_settings_defaults list_all_iff ready_server_defaults)
  then show ?thesis
    by (auto simp: Load_def validate_None_iff[symmetric] split: option.splits)
qed

end
