(* ===== verification/Client.thy ===== *)
theory Client
  imports Hid Config "HOL-Library.Sublist"
begin

text \<open>
  The IVTP client, \<open>src/internal/ikvm/client.go\<close>: tunnel handshake, session start, the message loop with
  the reassembly of video fragments, and the senders.

  A connection is what its buffered reader will still deliver (\<open>cn_in\<close>; a deadline or a lost peer is
  the end of the input), what was written (\<open>cn_out\<close>) and the outcome of each write, which the
  network decides: \<open>cn_fail n\<close> says that write number \<open>n\<close> fails. After \<open>Close\<close> the reader still has
  the \<open>cn_keep\<close> bytes it had buffered. An operation gives \<^term>\<open>None\<close> when it
  panics, for instance when it writes to the \<open>nil\<close> connection of a client that never connected.
  Dialling is a parameter; log output is left out. The callback \<open>OnVideoFrame\<close> is an output of the
  operation that calls it.
\<close>

section \<open>Strings\<close>

definition str_bytes :: "string \<Rightarrow> bytes" where
  "str_bytes s = map of_char s"

fun dec_digits :: "nat \<Rightarrow> string" where
  "dec_digits n = (if n < 10 then [char_of (48 + n)] else dec_digits (n div 10) @ [char_of (48 + n mod 10)])"

declare dec_digits.simps [simp del]

text \<open>\<open>fmt.Sprintf("%d", n)\<close>\<close>

definition show_int :: "int \<Rightarrow> string" where
  "show_int n = (if n < 0 then CHR ''-'' # dec_digits (nat (- n)) else dec_digits (nat n))"

text \<open>\<open>strings.Contains\<close>\<close>

fun contains :: "'a list \<Rightarrow> 'a list \<Rightarrow> bool" where
  "contains pat [] = (pat = [])"
| "contains pat (x # xs) = (take (length pat) (x # xs) = pat \<or> contains pat xs)"

text \<open>\<open>net.JoinHostPort\<close>: a host with a colon is put in brackets.\<close>

definition join_host_port :: "string \<Rightarrow> string \<Rightarrow> string" where
  "join_host_port host port =
     (if CHR '':'' \<in> set host then ''['' @ host @ '']:'' @ port else host @ '':'' @ port)"

definition crlf2 :: bytes where
  "crlf2 = [13, 10, 13, 10]"

section \<open>State\<close>

record Conn =
  cn_in :: bytes
  cn_out :: bytes
  cn_writes :: nat
  cn_fail :: "nat \<Rightarrow> bool"
  cn_closed :: bool
  cn_keep :: nat
  cn_local :: string

record ClientConfig =
  cc_Host :: string
  cc_Port :: int
  cc_WebSecurePort :: int
  cc_WebCookie :: string
  cc_KVMToken :: string
  cc_UseSSL :: bool

text \<open>The client; \<open>c_onVideoFrame\<close> and \<open>c_onCtrlMsg\<close> say whether the callback is set.\<close>

record Client =
  c_conn :: "Conn option"
  c_host :: string
  c_port :: int
  c_webSecurePort :: int
  c_webCookie :: string
  c_kvmToken :: string
  c_useSSL :: bool
  c_frameBuf :: bytes
  c_onVideoFrame :: bool
  c_onCtrlMsg :: bool
  c_stopCh_closed :: bool
  c_stopped :: bool

datatype client_error =
    EDial
  | EWrite string
  | ERead string
  | ERejected bytes
  | EResponseTooLong
  | EHeader decode_error
  | EPayloadTooLarge u32
  | EExpectedAccepted u16
  | EInvalidSession
  | EStoppedByBMC u16
  | EMaxSessions

definition NewClient :: "ClientConfig \<Rightarrow> Client" where
  "NewClient cfg = \<lparr>c_conn = None, c_host = cc_Host cfg, c_port = cc_Port cfg,
     c_webSecurePort = (if cc_WebSecurePort cfg = 0 then 443 else cc_WebSecurePort cfg),
     c_webCookie = cc_WebCookie cfg, c_kvmToken = cc_KVMToken cfg, c_useSSL = cc_UseSSL cfg,
     c_frameBuf = [], c_onVideoFrame = False, c_onCtrlMsg = False, c_stopCh_closed = False, c_stopped = False\<rparr>"

section \<open>Reading and writing\<close>

text \<open>\<open>c.conn.Write\<close>: whether it succeeded, and the client.\<close>

definition conn_write :: "bytes \<Rightarrow> Client \<Rightarrow> (bool \<times> Client) option" where
  "conn_write bs c =
     (case c_conn c of
        None \<Rightarrow> None
      | Some cn \<Rightarrow>
          (let bad = (cn_closed cn \<or> cn_fail cn (cn_writes cn));
               cn' = cn\<lparr>cn_writes := cn_writes cn + 1, cn_out := (if bad then cn_out cn else cn_out cn @ bs)\<rparr>
           in Some (\<not> bad, c\<lparr>c_conn := Some cn'\<rparr>)))"

definition conn_close :: "Client \<Rightarrow> Client" where
  "conn_close c = c\<lparr>c_conn := map_option (\<lambda>cn. cn\<lparr>cn_closed := True, cn_in := take (cn_keep cn) (cn_in cn)\<rparr>)
     (c_conn c)\<rparr>"

text \<open>\<open>io.ReadFull(c.reader, buf)\<close> for a buffer of \<open>n\<close> bytes: all of them, or an error that has consumed
  what there was.\<close>

definition read_full :: "nat \<Rightarrow> Client \<Rightarrow> (bytes option \<times> Client) option" where
  "read_full n c =
     (case c_conn c of
        None \<Rightarrow> None
      | Some cn \<Rightarrow>
          if length (cn_in cn) < n then Some (None, c\<lparr>c_conn := Some (cn\<lparr>cn_in := []\<rparr>)\<rparr>)
          else Some (Some (take n (cn_in cn)), c\<lparr>c_conn := Some (cn\<lparr>cn_in := drop n (cn_in cn)\<rparr>)\<rparr>))"

definition maxPayload :: nat where
  "maxPayload = 10 * 1024 * 1024"

definition readMessage :: "Client \<Rightarrow> ((client_error + IVTPHeader \<times> bytes) \<times> Client) option" where
  "readMessage c = do {
     (r, c) \<leftarrow> read_full (nat IVTPHeaderSize) c;
     case r of
       None \<Rightarrow> Some (Inl (ERead ''header''), c)
     | Some hdrBuf \<Rightarrow> do {
         h \<leftarrow> DecodeIVTPHeader hdrBuf;
         case h of
           Inl e \<Rightarrow> Some (Inl (EHeader e), c)
         | Inr hdr \<Rightarrow>
             if PktSize hdr > 0 then
               if unat (PktSize hdr) > maxPayload then Some (Inl (EPayloadTooLarge (PktSize hdr)), c)
               else do {
                 (p, c) \<leftarrow> read_full (unat (PktSize hdr)) c;
                 case p of
                   None \<Rightarrow> Some (Inl (ERead ''payload''), c)
                 | Some payload \<Rightarrow> Some (Inr (hdr, payload), c)
               }
             else Some (Inr (hdr, []), c)
       }
   }"

definition SendHeader :: "u16 \<Rightarrow> u32 \<Rightarrow> u16 \<Rightarrow> Client \<Rightarrow> (bool \<times> Client) option" where
  "SendHeader msgType pktSize status c =
     conn_write (Encode \<lparr>Type = msgType, PktSize = pktSize, Status = status\<rparr>) c"

definition SendMessageWithPayload :: "u16 \<Rightarrow> u16 \<Rightarrow> bytes \<Rightarrow> Client \<Rightarrow> (bool \<times> Client) option" where
  "SendMessageWithPayload msgType status payload c = do {
     (ok, c) \<leftarrow> conn_write (Encode \<lparr>Type = msgType, PktSize = of_nat (length payload), Status = status\<rparr>) c;
     if \<not> ok then Some (False, c)
     else if length payload > 0 then conn_write payload c
     else Some (True, c)
   }"

text \<open>The HID senders thread the sequence counter of \<open>hid.go\<close>.\<close>

definition SendKeyEvent :: "u8 \<Rightarrow> u8 \<Rightarrow> bool \<Rightarrow> u32 \<times> Client \<Rightarrow> (bool \<times> u32 \<times> Client) option" where
  "SendKeyEvent modifiers keycode pressed = (\<lambda>(seqNum, c). do {
     let (report, seqNum') = BuildKeyboardReport seqNum modifiers keycode pressed;
     (ok, c) \<leftarrow> conn_write report c;
     Some (ok, seqNum', c)
   })"

definition SendMouseEvent :: "u8 \<Rightarrow> u16 \<Rightarrow> u16 \<Rightarrow> u8 \<Rightarrow> u32 \<times> Client \<Rightarrow> (bool \<times> u32 \<times> Client) option" where
  "SendMouseEvent buttons x y wheel = (\<lambda>(seqNum, c). do {
     let (report, seqNum') = BuildAbsMouseReport seqNum buttons x y wheel;
     (ok, c) \<leftarrow> conn_write report c;
     Some (ok, seqNum', c)
   })"

section \<open>Connecting\<close>

text \<open>\<open>readTunnelResponse\<close>: \<open>acc\<close> is the text so far, \<open>trail\<close> the last four bytes, \<open>n\<close> the rounds left.
  The result is the error, if any, and the text.\<close>

fun tunnel_loop :: "nat \<Rightarrow> bytes \<Rightarrow> bytes \<Rightarrow> bytes \<Rightarrow> client_error option \<times> bytes \<times> bytes" where
  "tunnel_loop 0 trail acc inp = (Some EResponseTooLong, acc, inp)"
| "tunnel_loop (Suc n) trail acc [] = (Some (ERead ''tunnel''), acc, [])"
| "tunnel_loop (Suc n) trail acc (b # inp) =
     (let acc' = acc @ [b]; trail' = tl trail @ [b]
      in if trail' = crlf2 then (None, acc', inp) else tunnel_loop n trail' acc' inp)"

definition readTunnelResponse :: "Client \<Rightarrow> ((client_error option \<times> bytes) \<times> Client) option" where
  "readTunnelResponse c =
     (case c_conn c of
        None \<Rightarrow> None
      | Some cn \<Rightarrow>
          (case tunnel_loop 4096 [0, 0, 0, 0] [] (cn_in cn) of
             (e, resp, rest) \<Rightarrow> Some ((e, resp), c\<lparr>c_conn := Some (cn\<lparr>cn_in := rest\<rparr>)\<rparr>)))"

definition connectMsg :: "Client \<Rightarrow> bytes" where
  "connectMsg c = str_bytes (''CONNECT '' @ c_host c @ '':'' @ show_int (c_webSecurePort c) @ '' ''
     @ (if c_useSSL c then ''HTTPS/1.1'' else ''HTTP/1.1'') @ [CHR 0x0A] @ '' cookie '' @ c_webCookie c)
     @ crlf2"

definition serviceMsg :: "Client \<Rightarrow> bytes" where
  "serviceMsg c = str_bytes (''JVIEWER VIDEO cookie '' @ c_webCookie c) @ crlf2"

definition singlePortHandshake :: "Client \<Rightarrow> (client_error option \<times> Client) option" where
  "singlePortHandshake c = do {
     (ok, c) \<leftarrow> conn_write (connectMsg c) c;
     if \<not> ok then Some (Some (EWrite ''CONNECT''), c)
     else do {
       (ok, c) \<leftarrow> conn_write (serviceMsg c) c;
       if \<not> ok then Some (Some (EWrite ''JVIEWER VIDEO''), c)
       else do {
         (r, c) \<leftarrow> readTunnelResponse c;
         case r of
           (Some e, _) \<Rightarrow> Some (Some e, c)
         | (None, resp) \<Rightarrow>
             if contains (str_bytes ''ERROR'') resp then Some (Some (ERejected resp), c) else Some (None, c)
       }
     }
   }"

definition Connect :: "(string \<Rightarrow> Conn option) \<Rightarrow> Client \<Rightarrow> (client_error option \<times> Client) option" where
  "Connect dial c =
     (case dial (join_host_port (c_host c) (show_int (c_port c))) of
        None \<Rightarrow> Some (Some EDial, c)
      | Some cn \<Rightarrow> do {
          (e, c) \<leftarrow> singlePortHandshake (c\<lparr>c_conn := Some cn\<rparr>);
          case e of
            Some e \<Rightarrow> Some (Some e, conn_close c)
          | None \<Rightarrow> Some (None, c)
        })"

section \<open>The session\<close>

text \<open>\<open>handleVideoFragment\<close>: the client and, when \<open>OnVideoFrame\<close> is called, its arguments.\<close>

definition handleVideoFragment ::
  "bytes \<Rightarrow> Client \<Rightarrow> (Client \<times> (ASPEEDVideoHeader \<times> bytes) option) option" where
  "handleVideoFragment payload c =
     (if length payload < 2 then Some (c, None)
      else do {
        let fragNum = get_le16 (payload ! 0) (payload ! 1);
        let fragData = drop 2 payload;
        let isFirst = (fragNum AND 0x7FFF = 0);
        let isLast = (fragNum AND FragmentLastMask \<noteq> 0);
        let fb = (if isFirst then [] else c_frameBuf c) @ fragData;
        let c = c\<lparr>c_frameBuf := fb\<rparr>;
        if isLast \<and> c_onVideoFrame c \<and> int (length fb) \<ge> VideoHeaderSize then do {
          r \<leftarrow> DecodeASPEEDVideoHeader fb;
          (case r of
             Inr videoHdr \<Rightarrow> Some (c, Some (videoHdr, drop (nat VideoHeaderSize) fb))
           | Inl e \<Rightarrow> Some (c, None))
        }
        else Some (c, None)
      })"

text \<open>What one message does: the callbacks it calls, and the error with which \<open>readLoop\<close> returns, if it
  does.\<close>

datatype event =
    VideoFrame ASPEEDVideoHeader bytes
  | CtrlMsg IVTPHeader bytes

definition handleMessage ::
  "IVTPHeader \<Rightarrow> bytes \<Rightarrow> Client \<Rightarrow> (client_error option \<times> event list \<times> Client) option" where
  "handleMessage hdr payload c =
     (if Type hdr = IVTPVideoFragment then do {
        (c, f) \<leftarrow> handleVideoFragment payload c;
        Some (None, (case f of None \<Rightarrow> [] | Some (h, d) \<Rightarrow> [VideoFrame h d]), c)
      }
      else if Type hdr = IVTPValidateVideoSessionRsp then
        if length payload > 0 \<and> payload ! 0 = 0 then Some (Some EInvalidSession, [], c)
        else do {
          _ \<leftarrow> arr_get payload 0;
          (_, c) \<leftarrow> SendHeader IVTPPowerStatus 0 0 c;
          (_, c) \<leftarrow> SendMessageWithPayload IVTPDisplayLock 0 [DisplayQuery] c;
          (_, c) \<leftarrow> SendHeader IVTPGetUserMacro 0 0 c;
          Some (None, [], c)
        }
      else if Type hdr = IVTPStopSessionImmediate then Some (Some (EStoppedByBMC (Status hdr)), [], c)
      else if Type hdr = IVTPMaxSessionClosing then Some (Some EMaxSessions, [], c)
      else if Type hdr = IVTPGetActiveClients then do {
        (_, c) \<leftarrow> SendHeader IVTPGetFullScreen 0 0 c;
        Some (None, [], c)
      }
      else if Type hdr \<in> {IVTPBlankScreen, IVTPGetUSBMouseMode, IVTPGetKeybdLED, IVTPPowerStatus,
                 IVTPEncryptionStatus, IVTPInitialEncryptionStatus, IVTPBWDetectResp, IVTPKVMSharing,
                 IVTPSetNextMaster, IVTPSOCVideoEngConfig, IVTPConfServiceStatus, IVTPGetUserMacro,
                 IVTPMediaLicenseStatus, IVTPMediaFreeInstance}
      then Some (None, [], c)
      else if c_onCtrlMsg c then Some (None, [CtrlMsg hdr payload], c)
      else Some (None, [], c))"

text \<open>One iteration of \<open>readLoop\<close>: \<open>Inl\<close> returns from it.\<close>

definition loop_step ::
  "Client \<Rightarrow> ((client_error option \<times> event list \<times> Client) + (event list \<times> Client)) option" where
  "loop_step c =
     (if c_stopCh_closed c then Some (Inl (None, [], c))
      else do {
        (m, c) \<leftarrow> readMessage c;
        case m of
          Inl e \<Rightarrow> Some (Inl (if c_stopped c then None else Some e, [], c))
        | Inr (hdr, payload) \<Rightarrow> do {
            (e, evs, c) \<leftarrow> handleMessage hdr payload c;
            case e of
              Some e \<Rightarrow> Some (Inl (Some e, evs, c))
            | None \<Rightarrow> Some (Inr (evs, c))
          }
      })"

definition pending :: "Client \<Rightarrow> nat" where
  "pending c = (case c_conn c of None \<Rightarrow> 0 | Some cn \<Rightarrow> length (cn_in cn))"

text \<open>Reading does not touch what was written, writing does not touch what is to be read.\<close>

lemma conn_write_pending: "conn_write bs c = Some (ok, c') \<Longrightarrow> pending c' = pending c"
  by (auto simp: conn_write_def pending_def Let_def split: option.splits)

lemma sends_pending:
  "SendHeader t n s c = Some (ok, c') \<Longrightarrow> pending c' = pending c"
  "SendMessageWithPayload t s p c = Some (ok, c') \<Longrightarrow> pending c' = pending c"
  by (auto simp: SendHeader_def SendMessageWithPayload_def bind_eq_Some_conv dest!: conn_write_pending split: if_splits)

lemma handleVideoFragment_conn: "handleVideoFragment p c = Some (c', f) \<Longrightarrow> c_conn c' = c_conn c"
  by (auto simp: handleVideoFragment_def Let_def bind_eq_Some_conv split: if_splits sum.splits)

lemma handleMessage_pending: "handleMessage h p c = Some (e, evs, c') \<Longrightarrow> pending c' = pending c"
  unfolding handleMessage_def
  by (auto simp: bind_eq_Some_conv pending_def[of "_ :: Client"] dest: handleVideoFragment_conn
      dest!: sends_pending split: if_splits)

lemma read_full_pending:
  "read_full n c = Some (Some bs, c') \<Longrightarrow> pending c' + n = pending c \<and> length bs = n"
  by (auto simp: read_full_def pending_def split: option.splits if_splits)

lemma readMessage_pending: "readMessage c = Some (Inr m, c') \<Longrightarrow> pending c' < pending c"
  unfolding readMessage_def IVTPHeaderSize_def
  by (auto elim!: bind_SomeE dest!: read_full_pending
      split: option.split_asm sum.split_asm if_split_asm prod.split_asm)

lemma loop_step_pending: "loop_step c = Some (Inr (evs, c')) \<Longrightarrow> pending c' < pending c"
  unfolding loop_step_def
  by (auto elim!: bind_SomeE dest!: readMessage_pending handleMessage_pending
      split: option.split_asm sum.split_asm if_split_asm prod.split_asm)

text \<open>\<open>readLoop\<close> ends because every message it reads is taken from the input; the events are the callbacks
  in their order.\<close>

function readLoop :: "Client \<Rightarrow> (client_error option \<times> event list \<times> Client) option" where
  "readLoop c =
     (case loop_step c of
        None \<Rightarrow> None
      | Some (Inl r) \<Rightarrow> Some r
      | Some (Inr (evs, c')) \<Rightarrow> map_option (\<lambda>(e, evs', c''). (e, evs @ evs', c'')) (readLoop c'))"
  by pat_completeness auto
termination by (relation "measure pending") (auto intro: loop_step_pending)

declare readLoop.simps [simp del]

definition validPayload :: "string \<Rightarrow> string \<Rightarrow> bytes" where
  "validPayload kvmToken localAddr =
     [0] @ go_copy (replicate 129 0) (str_bytes kvmToken)
         @ go_copy (replicate 65 0) (str_bytes localAddr)
         @ go_copy (replicate 129 0) (str_bytes ''admin'')"

definition RunSession :: "Client \<Rightarrow> (client_error option \<times> event list \<times> Client) option" where
  "RunSession c = do {
     (m, c) \<leftarrow> readMessage c;
     case m of
       Inl e \<Rightarrow> Some (Some e, [], c)
     | Inr (hdr, payload) \<Rightarrow>
         if Type hdr \<noteq> IVTPSessionAccepted then Some (Some (EExpectedAccepted (Type hdr)), [], c)
         else do {
           (ok, c) \<leftarrow> SendMessageWithPayload IVTPGetWebToken 0 (str_bytes (c_webCookie c)) c;
           if \<not> ok then Some (Some (EWrite ''web token''), [], c)
           else do {
             cn \<leftarrow> c_conn c;
             (ok, c) \<leftarrow> SendMessageWithPayload IVTPValidateVideoSession 0 (validPayload (c_kvmToken c) (cn_local cn)) c;
             if \<not> ok then Some (Some (EWrite ''session validation''), [], c)
             else do {
               (ok, c) \<leftarrow> SendHeader IVTPResumeRedirection 0 0 c;
               if \<not> ok then Some (Some (EWrite ''resume redirection''), [], c)
               else readLoop c
             }
           }
         }
   }"

text \<open>\<open>Stop\<close>: closing a closed channel panics.\<close>

definition Stop :: "Client \<Rightarrow> Client option" where
  "Stop c =
     (if c_stopCh_closed c then None
      else (let c1 = c\<lparr>c_stopped := True, c_stopCh_closed := True\<rparr> in
        case c_conn c1 of
          None \<Rightarrow> Some c1
        | Some cn \<Rightarrow> do {
            (_, c2) \<leftarrow> conn_write (str_bytes (''JVIEWER DISCONNECT Cookie '' @ c_webCookie c1) @ crlf2) c1;
            Some (conn_close c2)
          }))"

section \<open>Messages\<close>

lemma conn_write_ok:
  "conn_write bs c = Some (True, c') \<longleftrightarrow>
     (\<exists>cn. c_conn c = Some cn \<and> \<not> cn_closed cn \<and> \<not> cn_fail cn (cn_writes cn)
        \<and> c' = c\<lparr>c_conn := Some (cn\<lparr>cn_writes := cn_writes cn + 1, cn_out := cn_out cn @ bs\<rparr>)\<rparr>)"
  by (auto simp: conn_write_def Let_def split: option.splits)

lemma send_output:
  assumes "SendMessageWithPayload t s p c = Some (True, c')" "c_conn c = Some cn"
  shows "\<exists>cn'. c_conn c' = Some cn'
    \<and> cn_out cn' = cn_out cn @ Encode \<lparr>Type = t, PktSize = of_nat (length p), Status = s\<rparr> @ p"
  using assms unfolding SendMessageWithPayload_def
  by (auto elim!: bind_SomeE simp: conn_write_ok split: if_splits)

lemma length_Encode [simp]: "length (Encode h) = 8"
  by (simp add: Encode_def)

lemma read_full_exact:
  "\<lbrakk>c_conn c = Some cn; cn_in cn = bs @ rest; length bs = n\<rbrakk>
     \<Longrightarrow> read_full n c = Some (Some bs, c\<lparr>c_conn := Some (cn\<lparr>cn_in := rest\<rparr>)\<rparr>)"
  by (auto simp: read_full_def)

lemma maxPayload_word: "maxPayload < 2 ^ 32"
  by (simp add: maxPayload_def)

lemma readMessage_sent:
  assumes "c_conn r = Some rn" "length p \<le> maxPayload"
    "cn_in rn = Encode \<lparr>Type = t, PktSize = of_nat (length p), Status = s\<rparr> @ p @ rest"
  shows "readMessage r = Some (Inr (\<lparr>Type = t, PktSize = of_nat (length p), Status = s\<rparr>, p),
    r\<lparr>c_conn := Some (rn\<lparr>cn_in := rest\<rparr>)\<rparr>)"
proof -
  let ?h = "\<lparr>Type = t, PktSize = of_nat (length p), Status = s\<rparr>"
  have n: "unat (of_nat (length p) :: u32) = length p"
    using assms(2) maxPayload_word by (simp add: unat_of_nat take_bit_nat_eq_self)
  have z: "(0 < (of_nat (length p) :: u32)) = (p \<noteq> [])"
    unfolding word_less_nat_alt n by simp
  have d: "DecodeIVTPHeader (Encode ?h) = Some (Inr ?h)"
    using reads_back(2)[of s "[]"] by (simp add: DecodeIVTPHeader_def Encode_def IVTPHeaderSize_def bytes_simps)
  have r1: "read_full 8 r = Some (Some (Encode ?h), r\<lparr>c_conn := Some (rn\<lparr>cn_in := p @ rest\<rparr>)\<rparr>)"
    using assms by (intro read_full_exact) simp_all
  have r2: "read_full (length p) (r\<lparr>c_conn := Some (rn\<lparr>cn_in := p @ rest\<rparr>)\<rparr>)
      = Some (Some p, r\<lparr>c_conn := Some (rn\<lparr>cn_in := rest\<rparr>)\<rparr>)"
    using read_full_exact[of "r\<lparr>c_conn := Some (rn\<lparr>cn_in := p @ rest\<rparr>)\<rparr>" "rn\<lparr>cn_in := p @ rest\<rparr>" p rest] by simp
  show ?thesis
    using assms(2) by (simp add: readMessage_def IVTPHeaderSize_def r1 r2 d z n)
qed

section \<open>Fragments\<close>

text \<open>A frame cut into chunks, as the BMC sends it: each chunk has its number in front and the last one
  has bit 15 set.\<close>

fun fragments :: "nat \<Rightarrow> bytes list \<Rightarrow> bytes list" where
  "fragments i [] = []"
| "fragments i (ch # chs) = (le16 (of_nat i OR (if chs = [] then FragmentLastMask else 0)) @ ch) # fragments (Suc i) chs"

fun deliver :: "bytes list \<Rightarrow> Client \<Rightarrow> (Client \<times> (ASPEEDVideoHeader \<times> bytes) list) option" where
  "deliver [] c = Some (c, [])"
| "deliver (p # ps) c = do {
     (c1, f) \<leftarrow> handleVideoFragment p c;
     (c2, fs) \<leftarrow> deliver ps c1;
     Some (c2, (case f of None \<Rightarrow> [] | Some x \<Rightarrow> [x]) @ fs)
   }"

lemma fragment_number_bits:
  assumes "i < 0x8000"
  shows "(of_nat i OR FragmentLastMask :: u16) AND FragmentLastMask \<noteq> 0"
    "(of_nat i :: u16) AND FragmentLastMask = 0"
    "(of_nat i OR FragmentLastMask :: u16) AND 0x7FFF = 0 \<longleftrightarrow> i = 0"
    "(of_nat i :: u16) AND 0x7FFF = 0 \<longleftrightarrow> i = 0"
proof -
  have m: "(0x7FFF :: u16) = mask 15"
    by (simp add: mask_eq_exp_minus_1)
  have last: "bit FragmentLastMask n \<longleftrightarrow> n = 15" for n
  proof -
    have "FragmentLastMask = 2 ^ 15" by (simp add: FragmentLastMask_def)
    then have "bit FragmentLastMask n \<longleftrightarrow> bit (2 ^ 15 :: u16) n" by (simp only:)
    also have "\<dots> \<longleftrightarrow> n = 15" by (auto simp only: bit_exp_iff possible_bit_word) simp
    finally show ?thesis .
  qed
  have bits: "bit (of_nat i :: u16) n \<longleftrightarrow> n < 15 \<and> bit i n" for n
  proof -
    have "\<not> bit i n" if "15 \<le> n"
      using assms that by (simp add: bit_iff_odd less_le_trans[OF _ power_increasing[of 15 n "2 :: nat"]] div_less)
    then show ?thesis by (cases "15 \<le> n") (auto simp: bit_of_nat_iff possible_bit_def)
  qed
  have i: "take_bit 15 i = i" using assms by (simp add: take_bit_nat_eq_self)
  have t: "(of_nat i :: u16) AND mask 15 = of_nat i"
    by (rule bit_word_eqI) (auto simp: bit_and_iff bits bit_mask_iff)
  have z: "(of_nat i :: u16) = 0 \<longleftrightarrow> i = 0"
  proof -
    have "unat (of_nat i :: u16) = i" using assms by (simp add: unat_of_nat take_bit_nat_eq_self)
    then show ?thesis using unat_eq_zero[of "of_nat i :: u16"] by simp
  qed
  show "(of_nat i OR FragmentLastMask :: u16) AND FragmentLastMask \<noteq> 0"
  proof -
    have "(of_nat i OR FragmentLastMask :: u16) AND FragmentLastMask = FragmentLastMask"
      by (rule bit_word_eqI) (auto simp: bit_and_iff bit_or_iff)
    then show ?thesis by (simp add: FragmentLastMask_def)
  qed
  show "(of_nat i :: u16) AND FragmentLastMask = 0"
    by (rule bit_word_eqI) (auto simp: bit_and_iff bits last)
  have "(of_nat i OR FragmentLastMask :: u16) AND mask 15 = of_nat i"
    by (rule bit_word_eqI) (auto simp: bit_and_iff bit_or_iff bits last bit_mask_iff)
  then show "(of_nat i OR FragmentLastMask :: u16) AND 0x7FFF = 0 \<longleftrightarrow> i = 0"
    "(of_nat i :: u16) AND 0x7FFF = 0 \<longleftrightarrow> i = 0"
    unfolding m using t z by simp_all
qed

lemma handle_le16:
  "handleVideoFragment (le16 w @ ch) c =
     (let fb = (if w AND 0x7FFF = 0 then [] else c_frameBuf c) @ ch
      in if w AND FragmentLastMask \<noteq> 0 \<and> c_onVideoFrame c \<and> 86 \<le> length fb
         then Option.bind (DecodeASPEEDVideoHeader fb) (\<lambda>r. Some (c\<lparr>c_frameBuf := fb\<rparr>,
                case r of Inr h \<Rightarrow> Some (h, drop 86 fb) | Inl e \<Rightarrow> None))
         else Some (c\<lparr>c_frameBuf := fb\<rparr>, None))"
proof -
  have n: "get_le16 ((le16 w @ ch) ! 0) ((le16 w @ ch) ! 1) = w" "drop 2 (le16 w @ ch) = ch" "\<not> length (le16 w @ ch) < 2"
    by (simp_all add: le16_def get_le16_le16)
  have b: "(86 \<le> int k) = (86 \<le> k)" for k by simp
  show ?thesis
    unfolding handleVideoFragment_def Let_def n VideoHeaderSize_def b
    by (auto simp: n(3) intro!: bind_option_cong split: sum.split)
qed

lemma handle_fragment:
  fixes ch :: bytes
  assumes "i < 0x8000" "c_onVideoFrame c" "fb = (if i = 0 then [] else c_frameBuf c) @ ch"
  shows "handleVideoFragment (le16 (of_nat i) @ ch) c = Some (c\<lparr>c_frameBuf := fb\<rparr>, None)"
    "86 \<le> length fb \<Longrightarrow> DecodeASPEEDVideoHeader fb = Some (Inr h) \<Longrightarrow>
       handleVideoFragment (le16 (of_nat i OR FragmentLastMask) @ ch) c = Some (c\<lparr>c_frameBuf := fb\<rparr>, Some (h, drop 86 fb))"
  unfolding handle_le16 fragment_number_bits[OF assms(1)] assms(3)[symmetric] Let_def
  using assms(2) fragment_number_bits(1)[OF assms(1)] by simp_all

lemma deliver_fragments:
  assumes "i + length chs \<le> 0x8000" "chs \<noteq> []" "c_onVideoFrame c"
    "86 \<le> length (pre @ concat chs)" "DecodeASPEEDVideoHeader (pre @ concat chs) = Some (Inr h)"
    "pre = (if i = 0 then [] else c_frameBuf c)"
  shows "deliver (fragments i chs) c
    = Some (c\<lparr>c_frameBuf := pre @ concat chs\<rparr>, [(h, drop 86 (pre @ concat chs))])"
  using assms
proof (induction chs arbitrary: i c pre)
  case (Cons ch chs)
  have i: "i < 0x8000" using Cons.prems(1) by simp
  show ?case
  proof (cases "chs = []")
    case True
    then show ?thesis
      using handle_fragment(2)[OF i Cons.prems(3) refl, of ch h] Cons.prems by simp
  next
    case False
    define d where "d = c\<lparr>c_frameBuf := pre @ ch\<rparr>"
    have "deliver (fragments (Suc i) chs) d
        = Some (d\<lparr>c_frameBuf := (pre @ ch) @ concat chs\<rparr>, [(h, drop 86 ((pre @ ch) @ concat chs))])"
      using Cons.prems False by (intro Cons.IH) (simp_all add: d_def)
    moreover have "handleVideoFragment (le16 (of_nat i) @ ch) c = Some (d, None)"
      using handle_fragment(1)[OF i Cons.prems(3) refl, of ch] Cons.prems(6) by (simp add: d_def)
    ultimately show ?thesis using False by (simp add: d_def)
  qed
qed simp

section \<open>The tunnel response\<close>

text \<open>The last four bytes seen, with zeros before the first byte.\<close>

definition last4 :: "bytes \<Rightarrow> bytes" where
  "last4 acc = drop (length acc) ([0, 0, 0, 0] @ acc)"

lemma last4_snoc: "last4 (acc @ [b]) = tl (last4 acc) @ [b]"
proof -
  have "tl (drop (length acc) ([0, 0, 0, 0] @ acc)) = drop (length acc) ([0, 0, 0] @ acc)"
    by (simp add: tl_drop)
  moreover have "drop (length (acc @ [b])) ([0, 0, 0, 0] @ acc @ [b]) = drop (length acc) (([0, 0, 0] @ acc) @ [b])"
    by simp
  moreover have "length acc \<le> length ([0, 0, 0 :: u8] @ acc)" by simp
  ultimately show ?thesis unfolding last4_def by (simp only: drop_append) simp
qed

lemma last4_suffix: "last4 acc = crlf2 \<longleftrightarrow> suffix crlf2 acc"
proof -
  have "suffix (last4 acc) ([0, 0, 0, 0] @ acc)" unfolding last4_def by (rule suffix_drop)
  moreover have "length (last4 acc) = length crlf2" by (simp add: last4_def crlf2_def)
  ultimately have "suffix crlf2 ([0, 0, 0, 0] @ acc) \<longleftrightarrow> last4 acc = crlf2"
    by (metis suffix_order.eq_iff suffix_length_suffix order_refl)
  moreover have "suffix crlf2 ([0, 0, 0, 0] @ acc) \<longleftrightarrow> suffix crlf2 acc"
    by (auto simp: crlf2_def suffix_Cons)
  ultimately show ?thesis by blast
qed

text \<open>The loop returns the shortest prefix of the input that ends the header block, if it is short
  enough.\<close>

definition header_block :: "nat \<Rightarrow> bytes \<Rightarrow> bytes \<Rightarrow> bytes \<Rightarrow> bool" where
  "header_block n acc resp inp \<longleftrightarrow> length resp \<le> n \<and> resp \<noteq> [] \<and> prefix resp inp \<and> suffix crlf2 (acc @ resp)
     \<and> (\<forall>q. q \<noteq> [] \<longrightarrow> strict_prefix q resp \<longrightarrow> \<not> suffix crlf2 (acc @ q))"

lemma header_block_Cons:
  "header_block (Suc n) acc resp (b # inp) \<longleftrightarrow>
     (if suffix crlf2 (acc @ [b]) then resp = [b]
      else \<exists>r. resp = b # r \<and> header_block n (acc @ [b]) r inp)"
proof (cases resp)
  case (Cons x r)
  have all: "(\<forall>q. q \<noteq> [] \<longrightarrow> strict_prefix q (b # r) \<longrightarrow> \<not> suffix crlf2 (acc @ q))
      \<longleftrightarrow> (r \<noteq> [] \<longrightarrow> \<not> suffix crlf2 (acc @ [b]))
        \<and> (\<forall>q. q \<noteq> [] \<longrightarrow> strict_prefix q r \<longrightarrow> \<not> suffix crlf2 (acc @ b # q))" (is "?L = ?R")
  proof
    assume L: ?L
    have "\<not> suffix crlf2 (acc @ [b])" if "r \<noteq> []"
      using L[rule_format, of "[b]"] that by (simp only: strict_prefix_def prefix_Cons) simp
    moreover have "\<not> suffix crlf2 (acc @ b # q)" if "strict_prefix q r" for q
      using L[rule_format, of "b # q"] that by (simp only: strict_prefix_def Cons_prefix_Cons) simp
    ultimately show ?R by blast
  next
    assume R: ?R
    show ?L
    proof (intro allI impI)
      fix q assume "q \<noteq> []" "strict_prefix q (b # r)"
      then obtain q' where q: "q = b # q'" "strict_prefix q' r"
        by (cases q) (auto simp: strict_prefix_def)
      then show "\<not> suffix crlf2 (acc @ q)" using R by (cases "q' = []") (auto simp: strict_prefix_def)
    qed
  qed
  show ?thesis
    unfolding header_block_def Cons using all by (cases "x = b"; cases "r = []") auto
qed (auto simp: header_block_def)

lemma tunnel_loop_acc: "tunnel_loop n tr acc inp = (e, t, rest) \<Longrightarrow> prefix acc t"
  by (induction n tr acc inp rule: tunnel_loop.induct) (auto simp: Let_def split: if_splits dest: append_prefixD)

lemma tunnel_loop_spec:
  "tunnel_loop n (last4 acc) acc inp = (None, acc @ resp, rest)
     \<longleftrightarrow> header_block n acc resp inp \<and> inp = resp @ rest"
proof (induction n arbitrary: acc inp resp)
  case 0
  then show ?case by (simp add: header_block_def)
next
  case (Suc n)
  show ?case
  proof (cases inp)
    case Nil
    then show ?thesis by (auto simp: header_block_def)
  next
    case (Cons b inp')
    show ?thesis
    proof (cases "suffix crlf2 (acc @ [b])")
      case True
      then show ?thesis unfolding Cons header_block_Cons
        by (auto simp: last4_snoc[symmetric] last4_suffix)
    next
      case False
      have "tunnel_loop (Suc n) (last4 acc) acc (b # inp') = tunnel_loop n (last4 (acc @ [b])) (acc @ [b]) inp'"
        using False unfolding tunnel_loop.simps Let_def last4_snoc[symmetric] last4_suffix by (simp only: if_False)
      moreover have "tunnel_loop n (last4 (acc @ [b])) (acc @ [b]) inp' = (None, acc @ resp, rest)
          \<longleftrightarrow> (\<exists>r. resp = b # r \<and> tunnel_loop n (last4 (acc @ [b])) (acc @ [b]) inp' = (None, (acc @ [b]) @ r, rest))"
        using tunnel_loop_acc[of n "last4 (acc @ [b])" "acc @ [b]" inp' None "acc @ resp" rest]
        by (auto simp: prefix_def)
      moreover have "(if suffix crlf2 (acc @ [b]) then resp = [b]
          else \<exists>r. resp = b # r \<and> header_block n (acc @ [b]) r inp')
          \<longleftrightarrow> (\<exists>r. resp = b # r \<and> header_block n (acc @ [b]) r inp')"
        using False by (simp only: if_False)
      ultimately show ?thesis unfolding Cons header_block_Cons Suc.IH by (auto simp del: suffix_snoc)
    qed
  qed
qed

section \<open>Panics of the message loop\<close>

lemma conn_write_total: "c_conn c \<noteq> None \<Longrightarrow> wp_opt (conn_write bs c) (\<lambda>(ok, c'). c_conn c' \<noteq> None)"
  by (auto simp: conn_write_def wp_opt_def Let_def split: option.splits)

lemma sends_total:
  "c_conn c \<noteq> None \<Longrightarrow> wp_opt (SendHeader t n s c) (\<lambda>(ok, c'). c_conn c' \<noteq> None)"
  "c_conn c \<noteq> None \<Longrightarrow> wp_opt (SendMessageWithPayload t s p c) (\<lambda>(ok, c'). c_conn c' \<noteq> None)"
  unfolding SendHeader_def SendMessageWithPayload_def
  by (auto simp: wp_simps intro!: conn_write_total wp_opt_mono[OF conn_write_total])

text \<open>A send on a live connection, followed by anything that is safe on a live connection.\<close>

lemma send_bind:
  assumes "c_conn c \<noteq> None" "\<And>ok d. c_conn d \<noteq> None \<Longrightarrow> wp_opt (f (ok, d)) Q"
  shows "wp_opt (Option.bind (SendHeader t n s c) f) Q"
    "wp_opt (Option.bind (SendMessageWithPayload t s p c) f) Q"
  using assms unfolding wp_opt_bind
  by (auto intro!: wp_opt_mono[OF sends_total(1)] wp_opt_mono[OF sends_total(2)])

lemma read_full_total: "c_conn c \<noteq> None \<Longrightarrow> wp_opt (read_full n c)
    (\<lambda>(r, c'). c_conn c' \<noteq> None \<and> (\<forall>bs. r = Some bs \<longrightarrow> length bs = n))"
  by (auto simp: read_full_def wp_opt_def split: option.splits)

lemma readMessage_total:
  assumes "c_conn c \<noteq> None"
  shows "wp_opt (readMessage c) (\<lambda>(m, c'). c_conn c' \<noteq> None)"
proof -
  have "wp_opt (case r of None \<Rightarrow> Some (Inl (ERead ''header''), d)
     | Some hdrBuf \<Rightarrow> do {
         h \<leftarrow> DecodeIVTPHeader hdrBuf;
         case h of
           Inl e \<Rightarrow> Some (Inl (EHeader e), d)
         | Inr hdr \<Rightarrow>
             if PktSize hdr > 0 then
               if unat (PktSize hdr) > maxPayload then Some (Inl (EPayloadTooLarge (PktSize hdr)), d)
               else do {
                 (p, d) \<leftarrow> read_full (unat (PktSize hdr)) d;
                 case p of
                   None \<Rightarrow> Some (Inl (ERead ''payload''), d)
                 | Some payload \<Rightarrow> Some (Inr (hdr, payload), d)
               }
             else Some (Inr (hdr, []), d)
       }) (\<lambda>(m, c'). c_conn c' \<noteq> None)"
    if d: "c_conn d \<noteq> None" "\<forall>bs. r = Some bs \<longrightarrow> length bs = 8" for r d
  proof (cases r)
    case (Some bs)
    then obtain h where "DecodeIVTPHeader bs = Some (Inr h)"
      using DecodeIVTPHeader_total[of bs] d by auto
    then show ?thesis
      using d Some by (auto simp: wp_simps intro!: wp_opt_mono[OF read_full_total[OF d(1)]] split: option.split)
  qed (use d in \<open>simp add: wp_simps\<close>)
  then show ?thesis
    unfolding readMessage_def IVTPHeaderSize_def
    by (auto simp: wp_opt_bind intro!: wp_opt_mono[OF read_full_total[OF assms]])
qed

lemma handleVideoFragment_total: "wp_opt (handleVideoFragment p c) (\<lambda>_. True)"
proof -
  have "wp_opt (DecodeASPEEDVideoHeader d) (\<lambda>r. wp_opt (case r of Inl e \<Rightarrow> Some k
      | Inr h \<Rightarrow> Some (f h)) (\<lambda>_. True))" if "86 \<le> length d"
    for d :: bytes and k :: "Client \<times> (ASPEEDVideoHeader \<times> bytes) option" and f
    using decode_video_header_explicit[OF that] by (auto simp: wp_opt_def)
  then show ?thesis
    unfolding handleVideoFragment_def VideoHeaderSize_def
    by (auto simp: Let_def wp_opt_bind wp_opt_Some)
qed

lemma handleMessage_panics:
  assumes "c_conn c \<noteq> None"
  shows "handleMessage hdr p c = None \<longleftrightarrow> Type hdr = IVTPValidateVideoSessionRsp \<and> p = []"
proof (cases "Type hdr = IVTPValidateVideoSessionRsp \<and> p = []")
  case True
  then show ?thesis
    by (simp add: handleMessage_def arr_get_def IVTPVideoFragment_def IVTPValidateVideoSessionRsp_def)
next
  case False
  have fin: "wp_opt (Some x) (\<lambda>_. True)" for x :: "client_error option \<times> event list \<times> Client"
    by (simp add: wp_opt_Some)
  have frag: "wp_opt (Option.bind (handleVideoFragment p c) f) (\<lambda>_. True)"
    if "\<And>d g. wp_opt (f (d, g)) (\<lambda>_. True)"
    for f :: "_ \<Rightarrow> (client_error option \<times> event list \<times> Client) option"
    unfolding wp_opt_bind using that by (auto intro!: wp_opt_mono[OF handleVideoFragment_total])
  have get: "wp_opt (Option.bind (arr_get p 0) f) (\<lambda>_. True)" if "p \<noteq> []" "\<And>x. wp_opt (f x) (\<lambda>_. True)"
    for f :: "_ \<Rightarrow> (client_error option \<times> event list \<times> Client) option"
    using that by (simp add: wp_simps)
  have "wp_opt (handleMessage hdr p c) (\<lambda>_. True)"
  proof (cases "Type hdr = IVTPValidateVideoSessionRsp")
    case True
    then have "p \<noteq> []" using False by simp
    with True assms show ?thesis
      unfolding handleMessage_def wp_opt_if if_bool_eq_conj prod.case
      by (intro conjI impI; (intro fin frag get send_bind | simp add: fin send_bind assms)+)
  next
    case other: False
    show ?thesis
      unfolding handleMessage_def wp_opt_if if_bool_eq_conj prod.case
      by (intro conjI impI; (intro fin frag send_bind | simp add: fin other assms)+)
  qed
  then show ?thesis using False by (auto simp: wp_opt_iff)
qed

lemma readMessage_empty:
  assumes "c_conn c = Some cn"
  shows "(\<exists>hdr c'. readMessage c = Some (Inr (hdr, []), c') \<and> Type hdr = t)
    \<longleftrightarrow> (\<exists>s. prefix (Encode \<lparr>Type = t, PktSize = 0, Status = s\<rparr>) (cn_in cn))"
proof
  assume "\<exists>hdr c'. readMessage c = Some (Inr (hdr, []), c') \<and> Type hdr = t"
  then obtain hdr c' where r: "readMessage c = Some (Inr (hdr, []), c')" and t: "Type hdr = t" by blast
  show "\<exists>s. prefix (Encode \<lparr>Type = t, PktSize = 0, Status = s\<rparr>) (cn_in cn)"
  proof -
    have l: "8 \<le> length (cn_in cn)"
      using r assms by (auto simp: readMessage_def read_full_def IVTPHeaderSize_def split: if_splits)
    obtain h where h: "DecodeIVTPHeader (take 8 (cn_in cn)) = Some (Inr h)" "Encode h = take 8 (cn_in cn)"
      using DecodeIVTPHeader_total[of "take 8 (cn_in cn)"] l by auto
    have "hdr = h \<and> \<not> 0 < PktSize h"
      using r assms l h(1) unfolding readMessage_def IVTPHeaderSize_def
      by (auto simp: read_full_def word_gt_0 unat_eq_zero split: if_splits)
    then have "Encode \<lparr>Type = t, PktSize = 0, Status = Status h\<rparr> = take 8 (cn_in cn)"
      using h(2) t by (cases h) (auto simp: word_gt_0)
    then show ?thesis by (metis take_is_prefix)
  qed
next
  assume "\<exists>s. prefix (Encode \<lparr>Type = t, PktSize = 0, Status = s\<rparr>) (cn_in cn)"
  then obtain s rest where "cn_in cn = Encode \<lparr>Type = t, PktSize = 0, Status = s\<rparr> @ rest"
    by (auto simp: prefix_def)
  then show "\<exists>hdr c'. readMessage c = Some (Inr (hdr, []), c') \<and> Type hdr = t"
    using readMessage_sent[OF assms, of "[]" t s rest] by auto
qed

text \<open>A connected client for the examples, with the given input still to be read.\<close>

definition live_client :: "bytes \<Rightarrow> Client" where
  "live_client inp = (NewClient \<lparr>cc_Host = ''10.0.0.1'', cc_Port = 443, cc_WebSecurePort = 0, cc_WebCookie = ''c'',
     cc_KVMToken = ''t'', cc_UseSSL = True\<rparr>)\<lparr>c_onVideoFrame := True, c_conn := Some \<lparr>cn_in = inp, cn_out = [],
     cn_writes = 0, cn_fail = (\<lambda>_. False), cn_closed = False, cn_keep = 0, cn_local = ''10.0.0.2''\<rparr>\<rparr>"

section \<open>Properties\<close>

text \<open>C22: a message that one side has sent in full, header and payload, is read back by the other side with its
  type, status and payload, and exactly its bytes are consumed.\<close>

theorem message_roundtrip:
  assumes "SendMessageWithPayload t s p c = Some (True, c')" "c_conn c = Some cn" "cn_out cn = []"
    and "c_conn c' = Some cn'" "c_conn r = Some rn" "cn_in rn = cn_out cn' @ rest" "length p \<le> maxPayload"
  shows "readMessage r = Some (Inr (\<lparr>Type = t, PktSize = of_nat (length p), Status = s\<rparr>, p),
    r\<lparr>c_conn := Some (rn\<lparr>cn_in := rest\<rparr>)\<rparr>)"
  using send_output[OF assms(1,2)] assms(3-7) by (intro readMessage_sent) auto

theorem message_roundtrip_witness:
  "readMessage (live_client (Encode \<lparr>Type = IVTPDisplayLock, PktSize = 1, Status = 0\<rparr> @ [7] @ [9]))
     = Some (Inr (\<lparr>Type = IVTPDisplayLock, PktSize = 1, Status = 0\<rparr>, [7]), live_client [9])"
proof -
  let ?cn = "the (c_conn (live_client []))"
  let ?bs = "Encode \<lparr>Type = IVTPDisplayLock, PktSize = 1, Status = 0\<rparr> @ [7]"
  let ?cn' = "?cn\<lparr>cn_writes := 2, cn_out := ?bs\<rparr>"
  have "SendMessageWithPayload IVTPDisplayLock 0 [7] (live_client []) = Some (True, (live_client [])\<lparr>c_conn := Some ?cn'\<rparr>)"
    by (simp add: SendMessageWithPayload_def conn_write_def live_client_def Let_def)
  from message_roundtrip[OF this, of ?cn ?cn' "live_client (?bs @ [9])" "the (c_conn (live_client (?bs @ [9])))" "[9]"]
  show ?thesis by (simp add: live_client_def maxPayload_def)
qed

text \<open>C20: a frame cut into at most \<open>2^15\<close> fragments is handed to \<open>OnVideoFrame\<close> exactly once, when the last
  fragment has arrived, as the header and the data after it, whatever the buffer held before.\<close>

theorem fragments_reassemble:
  assumes "length chs \<le> 0x8000" "c_onVideoFrame c" "86 \<le> length (concat chs)"
  shows "\<exists>h. DecodeASPEEDVideoHeader (concat chs) = Some (Inr h)
    \<and> deliver (fragments 0 chs) c = Some (c\<lparr>c_frameBuf := concat chs\<rparr>, [(h, drop 86 (concat chs))])"
proof -
  obtain h where h: "DecodeASPEEDVideoHeader (concat chs) = Some (Inr h)"
    using decode_video_header_explicit[OF assms(3)] by blast
  moreover have "chs \<noteq> []" using assms(3) by auto
  ultimately show ?thesis using deliver_fragments[of 0 chs c "[]" h] assms by simp
qed

theorem fragments_reassemble_witness:
  "\<exists>h. deliver (fragments 0 [replicate 50 1, replicate 40 0]) (live_client [])
     = Some ((live_client [])\<lparr>c_frameBuf := replicate 50 1 @ replicate 40 0\<rparr>, [(h, replicate 4 0)])"
  using fragments_reassemble[of "[replicate 50 1, replicate 40 0]" "live_client []"]
  by (auto simp: live_client_def drop_append)

text \<open>The tunnel response is read up to and including the first empty line and not a byte further, provided
  it ends within 4096 bytes.\<close>

theorem readTunnelResponse_spec:
  "readTunnelResponse c = Some ((None, resp), c') \<longleftrightarrow>
     (\<exists>cn rest. c_conn c = Some cn \<and> cn_in cn = resp @ rest \<and> c' = c\<lparr>c_conn := Some (cn\<lparr>cn_in := rest\<rparr>)\<rparr>
        \<and> length resp \<le> 4096 \<and> suffix crlf2 resp \<and> (\<forall>q. strict_prefix q resp \<longrightarrow> \<not> suffix crlf2 q))"
proof (cases "c_conn c")
  case (Some cn)
  have hb: "header_block 4096 [] resp (resp @ rest) \<longleftrightarrow>
      length resp \<le> 4096 \<and> suffix crlf2 resp \<and> (\<forall>q. strict_prefix q resp \<longrightarrow> \<not> suffix crlf2 q)" for rest
  proof -
    have "q \<noteq> []" if "suffix crlf2 q" for q using that by (auto simp: crlf2_def)
    then show ?thesis unfolding header_block_def by auto
  qed
  have l4: "last4 [] = [0, 0, 0, 0]" by (simp add: last4_def)
  have T: "tunnel_loop 4096 [0, 0, 0, 0] [] (cn_in cn) = (None, resp, rest)
      \<longleftrightarrow> header_block 4096 [] resp (cn_in cn) \<and> cn_in cn = resp @ rest" for rest
    using tunnel_loop_spec[of 4096 "[]" "cn_in cn" resp rest] by (simp only: l4 append_Nil)
  have R: "readTunnelResponse c = Some ((None, resp), c') \<longleftrightarrow>
      (\<exists>rest. tunnel_loop 4096 [0, 0, 0, 0] [] (cn_in cn) = (None, resp, rest) \<and> c' = c\<lparr>c_conn := Some (cn\<lparr>cn_in := rest\<rparr>)\<rparr>)"
    by (auto simp: readTunnelResponse_def Some split: prod.split)
  have "header_block 4096 [] resp (cn_in cn) \<and> cn_in cn = resp @ rest \<longleftrightarrow>
      cn_in cn = resp @ rest \<and> length resp \<le> 4096 \<and> suffix crlf2 resp
        \<and> (\<forall>q. strict_prefix q resp \<longrightarrow> \<not> suffix crlf2 q)" for rest
    using hb[of rest] by (cases "cn_in cn = resp @ rest") (simp_all only: simp_thms)
  then show ?thesis unfolding R T by (simp only: Some option.inject ex_simps simp_thms) blast
qed (simp add: readTunnelResponse_def)

theorem readTunnelResponse_spec_witness:
  "readTunnelResponse (live_client (str_bytes ''OK'' @ crlf2 @ [5])) = Some ((None, str_bytes ''OK'' @ crlf2), live_client [5])
     \<and> \<not> suffix crlf2 (str_bytes ''OK'' @ [13, 10, 13])"
proof -
  have e: "readTunnelResponse (live_client (str_bytes ''OK'' @ crlf2 @ [5]))
      = Some ((None, str_bytes ''OK'' @ crlf2), live_client [5])"
  proof -
    have "tunnel_loop 4096 [0, 0, 0, 0] [] (str_bytes ''OK'' @ crlf2 @ [5]) = (None, str_bytes ''OK'' @ crlf2, [5])"
      by code_simp
    then show ?thesis by (simp add: readTunnelResponse_def live_client_def)
  qed
  from readTunnelResponse_spec[THEN iffD1, OF e]
  have "\<not> suffix crlf2 (str_bytes ''OK'' @ [13, 10, 13])"
    by (auto simp: crlf2_def strict_prefix_def)
  with e show ?thesis by blast
qed

text \<open>C21: one round of the message loop panics in two cases only: there is no connection, or the BMC answers
  the session validation with an empty payload. Any other input, truncated, oversized or unknown, is an error
  value or is skipped.\<close>

theorem loop_step_panics:
  "loop_step c = None \<longleftrightarrow> \<not> c_stopCh_closed c \<and>
     (case c_conn c of None \<Rightarrow> True
      | Some cn \<Rightarrow> \<exists>s. prefix (Encode \<lparr>Type = IVTPValidateVideoSessionRsp, PktSize = 0, Status = s\<rparr>) (cn_in cn))"
proof (cases "c_conn c")
  case None
  then show ?thesis by (simp add: loop_step_def readMessage_def read_full_def)
next
  case (Some cn)
  obtain m c' where m: "readMessage c = Some (m, c')" "c_conn c' \<noteq> None"
    using readMessage_total[of c] Some by (auto simp: wp_opt_iff)
  have "loop_step c = None \<longleftrightarrow> \<not> c_stopCh_closed c \<and>
      (\<exists>hdr c'. readMessage c = Some (Inr (hdr, []), c') \<and> Type hdr = IVTPValidateVideoSessionRsp)"
  proof (cases m)
    case (Inr hp)
    obtain hdr p where hp: "hp = (hdr, p)" by (cases hp)
    show ?thesis
      using handleMessage_panics[OF m(2), of hdr p]
      by (cases "handleMessage hdr p c'") (auto simp: loop_step_def m Inr hp split: option.splits)
  qed (simp add: loop_step_def m)
  then show ?thesis unfolding readMessage_empty[OF Some] by (simp add: Some)
qed

end
