(* ===== verification/Bitstream.thy ===== *)
theory Bitstream
  imports Prelude
begin

text \<open>
  The bit reader of the video decoder, \<open>src/internal/ikvm/bitstream.go\<close>: \<open>makeIntArray\<close> and the
  two-register reader (\<open>reg0\<close> holds the next 32 bits, \<open>reg1\<close> the following \<open>newbits\<close> bits).

  The specification is a stream of bits, most significant first within each word, in which
  the last word repeats for ever; \<open>reader_at p rd\<close> says that the reader stands at bit \<open>p\<close>. The
  locale \<open>bit_source\<close> is the interface the block decoders use.
\<close>

section \<open>State\<close>

record bitreader =
  buf :: "u32 list"
  reg0 :: u32
  reg1 :: u32
  newbits :: int
  index :: int

section \<open>Operations\<close>

definition makeIntArray :: "bytes \<Rightarrow> u32 list" where
  "makeIntArray data =
     (let rem = length data mod 4;
          padded = (if rem \<noteq> 0 then go_copy (replicate (length data + 4 - rem) 0) data else data);
          n = length padded div 4
      in map (\<lambda>i. get_le32 (padded ! (i * 4)) (padded ! (i * 4 + 1)) (padded ! (i * 4 + 2))
                    (padded ! (i * 4 + 3))) [0..<n])"

text \<open>Shifts by a count that was converted to \<open>uint\<close>: a count outside the width gives zero.\<close>

definition shl :: "'a::len word \<Rightarrow> int \<Rightarrow> 'a word" where
  "shl w c = (if 0 \<le> c \<and> c < int LENGTH('a) then push_bit (nat c) w else 0)"

definition shr :: "'a::len word \<Rightarrow> int \<Rightarrow> 'a word" where
  "shr w c = (if 0 \<le> c \<and> c < int LENGTH('a) then drop_bit (nat c) w else 0)"

text \<open>A \<open>byte\<close> count \<open>k\<close> is a natural number below 256; \<open>32 - k\<close> wraps at 256.\<close>

definition lookKbits :: "nat \<Rightarrow> bitreader \<Rightarrow> i16" where
  "lookKbits k rd = (if k = 0 then 0 else ucast (shr (reg0 rd) ((32 - int k) mod 256)))"

definition skipKbits :: "nat \<Rightarrow> bitreader \<Rightarrow> bitreader option" where
  "skipKbits k rd =
     (let n = int k in
      if newbits rd - n \<le> 0 then do {
        let ix = (if index rd \<ge> int (length (buf rd)) then int (length (buf rd)) - 1 else index rd);
        nextWord \<leftarrow> arr_get (buf rd) ix;
        Some (rd\<lparr>index := ix + 1,
                 reg0 := shl (reg0 rd) n
                   OR ucast (shr (ucast (reg1 rd) OR shr (ucast nextWord :: u64) (newbits rd)) (32 - n)),
                 reg1 := shl nextWord (n - newbits rd),
                 newbits := 32 + newbits rd - n\<rparr>)
      }
      else Some (rd\<lparr>reg0 := shl (reg0 rd) n OR shr (reg1 rd) (32 - n),
                    reg1 := shl (reg1 rd) n,
                    newbits := newbits rd - n\<rparr>))"

definition getKbits :: "i16 list \<Rightarrow> nat \<Rightarrow> bitreader \<Rightarrow> (i16 \<times> bitreader) option" where
  "getKbits negPow2 k rd = do {
     let val = lookKbits k rd;
     val' \<leftarrow> (if shl (1 :: i16) ((int k - 1) mod 256) AND val = 0
              then map_option (\<lambda>np. val + np) (arr_get negPow2 (int k))
              else Some val);
     rd' \<leftarrow> skipKbits k rd;
     Some (val', rd')
   }"

definition updateReadBuf :: "int \<Rightarrow> bitreader \<Rightarrow> bitreader option" where
  "updateReadBuf n rd =
     (if newbits rd - n \<le> 0 then do {
        let ix = (if index rd \<ge> int (length (buf rd)) then int (length (buf rd)) - 1 else index rd);
        nextWord \<leftarrow> map_option (ucast :: u32 \<Rightarrow> u64) (arr_get (buf rd) ix);
        Some (rd\<lparr>index := ix + 1,
                 reg0 := ucast (shl (ucast (reg0 rd) :: u64) n)
                   OR ucast (shr (ucast (reg1 rd) OR shr nextWord (newbits rd)) (32 - n)),
                 reg1 := ucast (shl nextWord (n - newbits rd)),
                 newbits := 32 + newbits rd - n\<rparr>)
      }
      else Some (rd\<lparr>reg0 := ucast (shl (ucast (reg0 rd) :: u64) n)
                      OR ucast (shr (ucast (reg1 rd) :: u64) (32 - n)),
                    reg1 := ucast (shl (ucast (reg1 rd) :: u64) n),
                    newbits := newbits rd - n\<rparr>))"

text \<open>The initialisation in \<open>Decode\<close>, after the check that there are three words.\<close>

definition init_reader :: "u32 list \<Rightarrow> bitreader" where
  "init_reader ws = \<lparr>buf = ws, reg0 = ws ! 0, reg1 = ws ! 1, newbits = 32, index = 2\<rparr>"

text \<open>\<open>initNegPow2\<close>: entry \<open>i\<close> is \<open>1 - 2^i\<close> as an \<open>int16\<close>. Entry 16 does not fit an \<open>int16\<close> and Go
  leaves its conversion from \<open>float64\<close> to the implementation; here it is the truncation that
  amd64 computes, and no caller reads it, as every category is at most 15.\<close>

definition initNegPow2 :: "i16 list" where
  "initNegPow2 = 0 # map (\<lambda>i. word_of_int (1 - 2 ^ i)) [1..<17]"

section \<open>Specification\<close>

definition sbit :: "u32 list \<Rightarrow> nat \<Rightarrow> bool" where
  "sbit ws p = bit (ws ! min (p div 32) (length ws - 1)) (31 - p mod 32)"

definition sword :: "u32 list \<Rightarrow> nat \<Rightarrow> nat \<Rightarrow> nat" where
  "sword ws p k = horner_sum of_bool 2 (map (\<lambda>i. sbit ws (p + k - 1 - i)) [0..<k])"

definition reader_at :: "nat \<Rightarrow> bitreader \<Rightarrow> bool" where
  "reader_at p rd \<longleftrightarrow>
     2 \<le> length (buf rd) \<and> 0 < newbits rd \<and> newbits rd \<le> 32
     \<and> (\<forall>i<32. bit (reg0 rd) (31 - i) = sbit (buf rd) (p + i))
     \<and> (\<forall>i<32. bit (reg1 rd) (31 - i) = (i < nat (newbits rd) \<and> sbit (buf rd) (p + 32 + i)))
     \<and> (\<exists>q. p + 32 + nat (newbits rd) = 32 * q \<and> 2 \<le> q \<and> index rd = int (min q (length (buf rd))))"

text \<open>The \<open>EXTEND\<close> procedure of the JPEG standard (ITU-T T.81, F.2.2.1).\<close>

definition extend :: "nat \<Rightarrow> nat \<Rightarrow> int" where
  "extend k v = (if 2 ^ (k - 1) \<le> v then int v else int v - 2 ^ k + 1)"

section \<open>Lemmas on words\<close>

lemma bit_shl:
  "bit (shl (w :: 'a::len word) c) m \<longleftrightarrow> 0 \<le> c \<and> m < LENGTH('a) \<and> nat c \<le> m \<and> bit w (m - nat c)"
  by (auto simp: shl_def bit_push_bit_iff dest: bit_imp_le_length)

lemma bit_shr: "bit (shr (w :: 'a::len word) c) m \<longleftrightarrow> 0 \<le> c \<and> bit w (nat c + m)"
  by (auto simp: shr_def bit_drop_bit_eq dest: bit_imp_le_length)

lemma bit32_high [simp]: "32 \<le> n \<Longrightarrow> \<not> bit (w :: u32) n"
  using bit_imp_le_length[of w n] by auto

lemma bit_ucast64 [simp]: "bit (ucast (w :: u32) :: u64) m = bit w m"
  by (auto simp: bit_unsigned_iff dest: bit_imp_le_length)

lemma bit_ucast32: "j < 32 \<Longrightarrow> bit (ucast (x :: u64) :: u32) j = bit x j"
  by (simp add: bit_unsigned_iff)

lemma nat_32_minus: "nat (32 - int n) = 32 - n"
  by simp

text \<open>The refill branch and the plain branch as updates of the 64-bit window \<open>reg0:reg1\<close>.\<close>

lemma bit_refill_reg0:
  assumes n: "n \<le> 32" and j: "j < 32"
  shows "bit (shl r0 (int n) OR ucast (shr (ucast (r1 :: u32) OR shr (ucast (w :: u32) :: u64) (int b)) (32 - int n)) :: u32) j
    \<longleftrightarrow> (if n \<le> j then bit r0 (j - n) else bit r1 (32 + j - n) \<or> bit w (b + (32 + j - n)))"
proof -
  have m: "32 - n + j = 32 + j - n" using n by simp
  have "bit (ucast (shr (ucast (r1 :: u32) OR shr (ucast (w :: u32) :: u64) (int b)) (32 - int n)) :: u32) j
      \<longleftrightarrow> bit r1 (32 + j - n) \<or> bit w (b + (32 + j - n))"
    using j n by (simp add: bit_ucast32 bit_or_iff bit_shr nat_32_minus m)
  moreover have "bit (shl r0 (int n)) j \<longleftrightarrow> n \<le> j \<and> bit r0 (j - n)"
    using j by (simp add: bit_shl)
  moreover have "n \<le> j \<Longrightarrow> \<not> bit r1 (32 + j - n) \<and> \<not> bit w (b + (32 + j - n))"
    by simp
  ultimately show ?thesis by (auto simp only: bit_or_iff if_splits)
qed

lemma bit_plain_reg0:
  assumes n: "n \<le> 32" and j: "j < 32"
  shows "bit (shl r0 (int n) OR shr r1 (32 - int n) :: u32) j
    \<longleftrightarrow> (if n \<le> j then bit r0 (j - n) else bit r1 (32 + j - n))"
proof -
  have m: "32 - n + j = 32 + j - n" using n by simp
  have "bit (shr r1 (32 - int n)) j \<longleftrightarrow> bit r1 (32 + j - n)"
    using n by (simp add: bit_shr nat_32_minus m)
  moreover have "bit (shl r0 (int n)) j \<longleftrightarrow> n \<le> j \<and> bit r0 (j - n)"
    using j by (simp add: bit_shl)
  moreover have "n \<le> j \<Longrightarrow> \<not> bit r1 (32 + j - n)"
    by simp
  ultimately show ?thesis by (auto simp only: bit_or_iff if_splits)
qed

lemma shl_u64: "ucast (shl (ucast (w :: u32) :: u64) c) = shl w c"
  by (rule bit_word_eqI) (auto simp: bit_unsigned_iff bit_shl)

lemma shr_u64: "(ucast (shr (ucast (w :: u32) :: u64) c) :: u32) = shr w c"
  by (rule bit_word_eqI) (auto simp: bit_unsigned_iff bit_shr dest: bit_imp_le_length)

section \<open>The reader and the stream\<close>

lemma updateReadBuf_skipKbits: "updateReadBuf (int k) rd = skipKbits k rd"
proof -
  have "(ucast (shl (ucast w :: u64) c) :: u32) = shl w c" for w :: u32 and c by (rule shl_u64)
  then show ?thesis
    unfolding updateReadBuf_def skipKbits_def Let_def
    by (cases "arr_get (buf rd) (if index rd \<ge> int (length (buf rd)) then int (length (buf rd)) - 1 else index rd)")
       (simp_all add: shl_u64 shr_u64)
qed

lemma sbit_word:
  assumes "r < 32" shows "sbit ws (32 * q + r) = bit (ws ! min q (length ws - 1)) (31 - r)"
  using assms by (simp add: sbit_def)

text \<open>One step of the reader: it never panics and moves by exactly \<open>k\<close> bits.\<close>

lemma reader_skip:
  assumes at: "reader_at p rd" and k: "k \<le> 32"
  shows "\<exists>rd'. skipKbits k rd = Some rd' \<and> reader_at (p + k) rd' \<and> buf rd' = buf rd"
proof -
  define b where "b = nat (newbits rd)"
  have b: "newbits rd = int b" "0 < b" "b \<le> 32" using at by (auto simp: reader_at_def b_def)
  obtain q where q: "p + 32 + b = 32 * q" "2 \<le> q" "index rd = int (min q (length (buf rd)))"
    and len: "2 \<le> length (buf rd)"
    and r0: "\<And>i. i < 32 \<Longrightarrow> bit (reg0 rd) (31 - i) = sbit (buf rd) (p + i)"
    and r1: "\<And>i. i < 32 \<Longrightarrow> bit (reg1 rd) (31 - i) = (i < b \<and> sbit (buf rd) (p + 32 + i))"
    using at by (auto simp: reader_at_def b_def)
  show ?thesis
  proof (cases "b \<le> k")
    case True
    define m where "m = min q (length (buf rd) - 1)"
    have ix: "(if index rd \<ge> int (length (buf rd)) then int (length (buf rd)) - 1 else index rd) = int m"
      using len by (auto simp: q(3) m_def min_def)
    have m: "m < length (buf rd)" using len by (auto simp: m_def)
    define rd' where "rd' = rd\<lparr>index := int m + 1,
      reg0 := shl (reg0 rd) (int k)
        OR ucast (shr (ucast (reg1 rd) OR shr (ucast (buf rd ! m) :: u64) (int b)) (32 - int k)),
      reg1 := shl (buf rd ! m) (int k - int b), newbits := 32 + int b - int k\<rparr>"
    have eq: "skipKbits k rd = Some rd'"
      using True m unfolding skipKbits_def Let_def b(1) ix by (simp add: rd'_def)
    have w: "bit (buf rd ! m) (31 - r) = sbit (buf rd) (p + 32 + b + r)" if "r < 32" for r
      using sbit_word[OF that, of "buf rd" q] q(1) by (simp add: m_def)
    have "bit (reg0 rd') (31 - i) = sbit (buf rd) (p + k + i)" if i: "i < 32" for i
    proof (cases "i + k < 32")
      case True
      then have "k \<le> 31 - i" "31 - i - k = 31 - (k + i)" by auto
      then show ?thesis using r0[of "k + i"] True k i
        by (simp add: rd'_def bit_refill_reg0 add.assoc)
    next
      case False
      define t where "t = i + k - 32"
      have t: "t < 32" "32 + (31 - i) - k = 31 - t" "p + k + i = p + 32 + t" "\<not> k \<le> 31 - i"
        using False i k by (auto simp: t_def)
      have "bit (reg0 rd') (31 - i) \<longleftrightarrow> bit (reg1 rd) (31 - t) \<or> bit (buf rd ! m) (b + (31 - t))"
        using i k t by (simp add: rd'_def bit_refill_reg0)
      also have "bit (buf rd ! m) (b + (31 - t)) \<longleftrightarrow> b \<le> t \<and> sbit (buf rd) (p + 32 + t)"
      proof (cases "b \<le> t")
        case True
        then have "b + (31 - t) = 31 - (t - b)" using t(1) by simp
        then show ?thesis using w[of "t - b"] True t(1) by (simp add: add.assoc)
      qed (use t(1) in simp)
      finally show ?thesis
        unfolding t(3) using r1[OF t(1)] by (cases "b \<le> t") simp_all
    qed
    moreover have "bit (reg1 rd') (31 - i) = (i < nat (newbits rd') \<and> sbit (buf rd) (p + k + 32 + i))"
      if i: "i < 32" for i
    proof -
      have "bit (reg1 rd') (31 - i) \<longleftrightarrow> k - b \<le> 31 - i \<and> bit (buf rd ! m) (31 - i - (k - b))"
        using True i by (auto simp: rd'_def bit_shl nat_diff_distrib)
      also have "\<dots> \<longleftrightarrow> i < nat (newbits rd') \<and> sbit (buf rd) (p + k + 32 + i)"
      proof (cases "k - b \<le> 31 - i")
        case c: True
        define u where "u = i + (k - b)"
        have u: "31 - i - (k - b) = 31 - u" "u < 32" "p + k + 32 + i = p + 32 + b + u"
          "i < nat (newbits rd')"
          using c i k \<open>b \<le> k\<close> by (auto simp: u_def rd'_def)
        show ?thesis unfolding u(1,3) using w[OF u(2)] u(4) c by simp
      qed (use i k True in \<open>auto simp: rd'_def\<close>)
      finally show ?thesis .
    qed
    moreover have "p + k + 32 + nat (newbits rd') = 32 * (q + 1) \<and> 2 \<le> q + 1
        \<and> index rd' = int (min (q + 1) (length (buf rd)))"
      using q k True b len by (auto simp: rd'_def m_def min_def)
    moreover have "0 < newbits rd' \<and> newbits rd' \<le> 32" "buf rd' = buf rd"
      using b k True by (auto simp: rd'_def)
    ultimately show ?thesis
      using eq len unfolding reader_at_def by (intro exI[of _ rd']) (auto intro: exI[of _ "q + 1"])
  next
    case False
    define rd' where "rd' = rd\<lparr>reg0 := shl (reg0 rd) (int k) OR shr (reg1 rd) (32 - int k),
                    reg1 := shl (reg1 rd) (int k), newbits := int b - int k\<rparr>"
    have eq: "skipKbits k rd = Some rd'"
      using False unfolding skipKbits_def Let_def b(1) by (simp add: rd'_def)
    have "bit (reg0 rd') (31 - i) = sbit (buf rd) (p + k + i)" if i: "i < 32" for i
    proof (cases "i + k < 32")
      case True
      then have "k \<le> 31 - i" "31 - i - k = 31 - (k + i)" by auto
      then show ?thesis using r0[of "k + i"] True k i
        by (simp add: rd'_def bit_plain_reg0 add.assoc)
    next
      case c: False
      define t where "t = i + k - 32"
      have t: "t < 32" "32 + (31 - i) - k = 31 - t" "p + k + i = p + 32 + t" "\<not> k \<le> 31 - i" "t < b"
        using c False i k by (auto simp: t_def)
      show ?thesis
        unfolding t(3) using i k t(2,4,5) r1[OF t(1)] by (simp add: rd'_def bit_plain_reg0)
    qed
    moreover have "bit (reg1 rd') (31 - i) = (i < nat (newbits rd') \<and> sbit (buf rd) (p + k + 32 + i))"
      if i: "i < 32" for i
    proof (cases "k \<le> 31 - i")
      case True
      then have u: "31 - i - k = 31 - (i + k)" "i + k < 32" "p + k + 32 + i = p + 32 + (i + k)"
        "i + k < b \<longleftrightarrow> i < nat (newbits rd')" "31 - i < 32"
        using i False by (auto simp: rd'_def)
      show ?thesis
        unfolding u(3) using r1[OF u(2)] u(1,4,5) True by (simp add: rd'_def bit_shl del: diff_diff_left)
    qed (use i b False in \<open>auto simp: rd'_def bit_shl\<close>)
    moreover have "p + k + 32 + nat (newbits rd') = 32 * q \<and> 2 \<le> q
        \<and> index rd' = int (min q (length (buf rd)))"
      using q k False b len by (auto simp: rd'_def)
    moreover have "0 < newbits rd' \<and> newbits rd' \<le> 32" "buf rd' = buf rd"
      using b k False by (auto simp: rd'_def)
    ultimately show ?thesis
      using eq len unfolding reader_at_def by (intro exI[of _ rd']) (auto intro: exI[of _ q])
  qed
qed

lemma reader_init: "2 \<le> length ws \<Longrightarrow> reader_at 0 (init_reader ws)"
proof -
  assume len: "2 \<le> length ws"
  have "bit (ws ! 0) (31 - i) = sbit ws i" if "i < 32" for i
    using that len sbit_word[of i ws 0] by simp
  moreover have "bit (ws ! 1) (31 - i) = sbit ws (32 + i)" if "i < 32" for i
    using that len sbit_word[of i ws 1] by (simp add: min_def)
  ultimately show ?thesis
    using len by (auto simp: reader_at_def init_reader_def intro!: exI[of _ 2])
qed

lemma bit_of_nat_u32 [simp]: "bit (of_nat n :: u32) j \<longleftrightarrow> j < 32 \<and> bit n j"
  by (simp add: bit_of_nat_iff possible_bit_def)

lemma bit_sword: "bit (sword ws p k) j \<longleftrightarrow> j < k \<and> sbit ws (p + k - 1 - j)"
  by (auto simp: sword_def bit_horner_sum_bit_iff)

lemma sword_bound: "sword ws p k < 2 ^ k"
  using horner_sum_bound[of "map (\<lambda>i. sbit ws (p + k - 1 - i)) [0..<k]"] by (simp add: sword_def)

lemma reader_top_bits:
  assumes at: "reader_at p rd" and k: "0 < k" "k \<le> 32"
  shows "drop_bit (32 - k) (reg0 rd) = of_nat (sword (buf rd) p k)"
proof (rule bit_word_eqI)
  fix j assume "j < LENGTH(32)"
  then have j: "j < 32" by simp
  show "bit (drop_bit (32 - k) (reg0 rd)) j = bit (of_nat (sword (buf rd) p k) :: u32) j"
  proof (cases "j < k")
    case True
    define i where "i = k - 1 - j"
    have i: "i < 32" "32 - k + j = 31 - i" "p + k - Suc j = p + i" using True k by (auto simp: i_def)
    have "bit (reg0 rd) (31 - i) = sbit (buf rd) (p + i)"
      using at i(1) by (simp add: reader_at_def)
    then show ?thesis using True j by (simp add: bit_drop_bit_eq i bit_sword)
  next
    case False
    then have "32 \<le> 32 - k + j" using k by simp
    then show ?thesis using False j by (simp add: bit_drop_bit_eq bit_sword)
  qed
qed

lemma reader_look:
  assumes "reader_at p rd" and "k \<le> 16"
  shows "lookKbits k rd = of_nat (sword (buf rd) p k)"
proof (cases "k = 0")
  case False
  then have "shr (reg0 rd) ((32 - int k) mod 256) = of_nat (sword (buf rd) p k)"
    using assms reader_top_bits[OF assms(1), of k]
    by (simp add: shr_def nat_diff_distrib)
  moreover have "sword (buf rd) p k < 2 ^ 16"
    using sword_bound[of "buf rd" p k] assms(2) power_increasing[of k 16 "2::nat"] by linarith
  ultimately show ?thesis
    using False by (simp add: lookKbits_def word_eq_iff_unsigned unsigned_of_nat unsigned_ucast_eq take_bit_nat_eq_self)
qed (simp add: lookKbits_def sword_def)

text \<open>Where the word index stands when the reader is at bit \<open>p\<close>: the loop of \<open>Decode\<close> tests it.\<close>

lemma reader_index:
  assumes "reader_at p rd"
  shows "index rd \<le> int (length (buf rd)) \<and> int (min (p div 32 + 1) (length (buf rd))) \<le> index rd"
proof -
  obtain q where q: "p + 32 + nat (newbits rd) = 32 * q" "index rd = int (min q (length (buf rd)))"
    using assms by (auto simp: reader_at_def)
  have "p div 32 + 1 \<le> q" using q(1) by linarith
  then show ?thesis by (simp add: q(2) min_def)
qed

section \<open>The interface of the block decoders\<close>

locale bit_source =
  fixes src :: "'r \<Rightarrow> u32 list"
    and at_bit :: "nat \<Rightarrow> 'r \<Rightarrow> bool"
    and skip :: "nat \<Rightarrow> 'r \<Rightarrow> 'r option"
    and look :: "nat \<Rightarrow> 'r \<Rightarrow> i16"
  assumes skip_at: "\<lbrakk>at_bit p r; k \<le> 32\<rbrakk> \<Longrightarrow> \<exists>r'. skip k r = Some r' \<and> at_bit (p + k) r' \<and> src r' = src r"
    and look_at: "\<lbrakk>at_bit p r; k \<le> 16\<rbrakk> \<Longrightarrow> look k r = of_nat (sword (src r) p k)"
begin

lemma wp_skip:
  "\<lbrakk>at_bit p r; k \<le> 32; \<And>r'. \<lbrakk>at_bit (p + k) r'; src r' = src r\<rbrakk> \<Longrightarrow> Q r'\<rbrakk> \<Longrightarrow> wp_opt (skip k r) Q"
  using skip_at[of p r k] by (auto simp: wp_opt_iff)

text \<open>Reading a list of fields one after the other.\<close>

primrec read_fields :: "nat list \<Rightarrow> 'r \<Rightarrow> (i16 list \<times> 'r) option" where
  "read_fields [] r = Some ([], r)"
| "read_fields (k # ks) r = do {
     r1 \<leftarrow> skip k r;
     (vs, r2) \<leftarrow> read_fields ks r1;
     Some (look k r # vs, r2)
   }"

primrec field_values :: "u32 list \<Rightarrow> nat \<Rightarrow> nat list \<Rightarrow> i16 list" where
  "field_values ws p [] = []"
| "field_values ws p (k # ks) = of_nat (sword ws p k) # field_values ws (p + k) ks"

lemma read_fields_correct:
  assumes "at_bit p r" and "list_all (\<lambda>k. k \<le> 16) ks"
  shows "\<exists>r'. read_fields ks r = Some (field_values (src r) p ks, r') \<and> at_bit (p + sum_list ks) r'
           \<and> src r' = src r"
  using assms
proof (induction ks arbitrary: p r)
  case (Cons k ks)
  then have k: "k \<le> 16" and ks: "list_all (\<lambda>k. k \<le> 16) ks" by auto
  obtain r1 where r1: "skip k r = Some r1" "at_bit (p + k) r1" "src r1 = src r"
    using skip_at[OF Cons.prems(1), of k] k by auto
  from Cons.IH[OF r1(2) ks] look_at[OF Cons.prems(1) k] show ?case
    by (auto simp: r1 add.assoc)
qed simp

end

interpretation reader: bit_source buf reader_at skipKbits lookKbits
  by unfold_locales (auto simp: reader_look intro: reader_skip)

lemma wp_updateReadBuf:
  "\<lbrakk>reader_at p rd; n \<le> 32; \<And>rd'. \<lbrakk>reader_at (p + n) rd'; buf rd' = buf rd\<rbrakk> \<Longrightarrow> Q rd'\<rbrakk>
     \<Longrightarrow> wp_opt (updateReadBuf (int n) rd) Q"
  unfolding updateReadBuf_skipKbits by (rule reader.wp_skip)

section \<open>Signed coefficients\<close>

lemma top_bit_iff: "\<lbrakk>v < 2 ^ k; 0 < k\<rbrakk> \<Longrightarrow> bit v (k - 1) \<longleftrightarrow> 2 ^ (k - 1) \<le> (v :: nat)"
proof -
  assume v: "v < 2 ^ k" and k: "0 < k"
  then have "v < 2 * 2 ^ (k - 1)" by (simp flip: power_Suc)
  then have "v div 2 ^ (k - 1) < 2" by (rule less_mult_imp_div_less)
  then have "odd (v div 2 ^ (k - 1)) \<longleftrightarrow> v div 2 ^ (k - 1) \<noteq> 0"
    by (cases "v div 2 ^ (k - 1) = 0") (simp_all add: odd_iff_mod_2_eq_one)
  then show ?thesis
    by (simp add: bit_iff_odd div_eq_0_iff not_less)
qed

lemma sint_small: "\<lbrakk>- (2 ^ 15) \<le> x; x < 2 ^ 15\<rbrakk> \<Longrightarrow> sint (word_of_int x :: i16) = x"
  by (simp add: signed_of_int signed_take_bit_int_eq_self)

lemma length_initNegPow2 [simp]: "length initNegPow2 = 17"
  by (simp add: initNegPow2_def)

lemma initNegPow2_nth: "\<lbrakk>0 < k; k \<le> 16\<rbrakk> \<Longrightarrow> initNegPow2 ! k = word_of_int (1 - 2 ^ k)"
  by (simp add: initNegPow2_def nth_Cons')

lemma mask_top_zero: "0 < k \<Longrightarrow> k \<le> 16 \<Longrightarrow> shl (1 :: i16) ((int k - 1) mod 256) AND w = 0 \<longleftrightarrow> \<not> bit w (k - 1)"
proof -
  assume k: "0 < k" "k \<le> 16"
  have s: "shl (1 :: i16) ((int k - 1) mod 256) = push_bit (k - 1) 1"
    using k by (simp add: shl_def nat_diff_distrib)
  have "bit (shl (1 :: i16) ((int k - 1) mod 256) AND w) j \<longleftrightarrow> j = k - 1 \<and> bit w (k - 1)" for j
    using k unfolding s by (auto simp: bit_simps)
  note bits = this
  show ?thesis
  proof
    assume "shl (1 :: i16) ((int k - 1) mod 256) AND w = 0"
    then show "\<not> bit w (k - 1)" using bits[of "k - 1"] by simp
  next
    assume "\<not> bit w (k - 1)"
    then show "shl (1 :: i16) ((int k - 1) mod 256) AND w = 0"
      by (intro bit_word_eqI) (simp add: bits)
  qed
qed

lemma getKbits_extend:
  assumes at: "reader_at p rd" and k: "0 < k" "k \<le> 15"
  shows "\<exists>v rd'. getKbits initNegPow2 k rd = Some (v, rd') \<and> sint v = extend k (sword (buf rd) p k)
           \<and> reader_at (p + k) rd' \<and> buf rd' = buf rd"
proof -
  define n where "n = sword (buf rd) p k"
  have n: "n < 2 ^ k" unfolding n_def by (rule sword_bound)
  have p15: "(2 :: nat) ^ k \<le> 2 ^ 15" using k by (intro power_increasing) auto
  then have n15: "n < 32768" using n by simp
  have look: "lookKbits k rd = of_nat n" unfolding n_def using at k by (intro reader_look) auto
  obtain rd' where rd': "skipKbits k rd = Some rd'" "reader_at (p + k) rd'" "buf rd' = buf rd"
    using reader_skip[OF at, of k] k by auto
  have "bit (of_nat n :: i16) (k - 1) \<longleftrightarrow> 2 ^ (k - 1) \<le> n"
    using k top_bit_iff[OF n k(1)] by (auto simp: bit_of_nat_iff possible_bit_def)
  then have zero: "shl (1 :: i16) ((int k - 1) mod 256) AND of_nat n = 0 \<longleftrightarrow> \<not> 2 ^ (k - 1) \<le> n"
    using k mask_top_zero[of k "of_nat n"] by linarith
  show ?thesis
  proof (cases "2 ^ (k - 1) \<le> n")
    case True
    have "sint (of_nat n :: i16) = int n" using sint_small[of "int n"] n15 by simp
    then show ?thesis using True rd' zero
      by (auto simp: getKbits_def look extend_def n_def[symmetric])
  next
    case False
    have eq: "(of_nat n :: i16) + initNegPow2 ! k = word_of_int (int n + (1 - 2 ^ k))"
      using k by (simp add: initNegPow2_nth)
    have "int n < 2 ^ k" using n by (metis of_nat_less_iff of_nat_numeral of_nat_power)
    moreover have "(2::int) ^ k \<le> 2 ^ 15" using k by (intro power_increasing) auto
    ultimately have "sint (of_nat n + initNegPow2 ! k :: i16) = int n + (1 - 2 ^ k)"
      unfolding eq by (intro sint_small; linarith)
    then show ?thesis using False rd' zero k
      by (auto simp: getKbits_def look extend_def n_def[symmetric])
  qed
qed

text \<open>For the absence of panics any category the tables can hold will do.\<close>

lemma wp_getKbits:
  assumes "reader_at p rd" and "k \<le> 16" and "length np = 17"
    and "\<And>v rd'. \<lbrakk>reader_at (p + k) rd'; buf rd' = buf rd\<rbrakk> \<Longrightarrow> Q (v, rd')"
  shows "wp_opt (getKbits np k rd) Q"
proof -
  have "wp_opt (skipKbits k rd) (\<lambda>rd'. Q (v, rd'))" for v
    using assms by (intro reader.wp_skip[OF assms(1)]) auto
  then show ?thesis
    using assms(2,3) by (auto simp: getKbits_def Let_def arr_get_def wp_simps)
qed

section \<open>Words of the data\<close>

lemma concat_words:
  "4 * n \<le> length xs \<Longrightarrow>
     concat (map (\<lambda>i. le32 (get_le32 (xs ! (i * 4)) (xs ! (i * 4 + 1)) (xs ! (i * 4 + 2)) (xs ! (i * 4 + 3)))) [0..<n])
       = take (4 * n) xs"
proof (induction n)
  case (Suc n)
  then have "take (4 * n + 4) xs = take (4 * n) xs @ [xs ! (n * 4), xs ! (n * 4 + 1), xs ! (n * 4 + 2), xs ! (n * 4 + 3)]"
    by (simp add: take_Suc_conv_app_nth numeral_eq_Suc ac_simps)
  then show ?case using Suc by (simp add: bytes_simps ac_simps)
qed simp

lemma pad_arith:
  fixes n :: nat
  shows "(n + (4 - n mod 4) mod 4) mod 4 = 0" "(n + (4 - n mod 4) mod 4) div 4 = (n + 3) div 4"
proof -
  define k where "k = n div 4"
  define r where "r = n mod 4"
  have n: "n = 4 * k + r" "r < 4" by (simp_all add: k_def r_def)
  have "n + (4 - r) mod 4 = 4 * ((n + 3) div 4)"
  proof (cases "r = 0")
    case True
    then have "(n + 3) div 4 = k" using n by (intro div_nat_eqI) auto
    then show ?thesis using True n by simp
  next
    case False
    then have "(n + 3) div 4 = k + 1" using n by (intro div_nat_eqI) auto
    then show ?thesis using False n by simp
  qed
  then show "(n + (4 - n mod 4) mod 4) mod 4 = 0" "(n + (4 - n mod 4) mod 4) div 4 = (n + 3) div 4"
    unfolding r_def[symmetric] by simp_all
qed

lemma makeIntArray_padded:
  defines "pad data \<equiv> replicate ((4 - length data mod 4) mod 4) 0"
  shows "makeIntArray data = map (\<lambda>i. get_le32 ((data @ pad data) ! (i * 4)) ((data @ pad data) ! (i * 4 + 1))
      ((data @ pad data) ! (i * 4 + 2)) ((data @ pad data) ! (i * 4 + 3))) [0..<length (data @ pad data) div 4]
    \<and> length (data @ pad data) mod 4 = 0"
proof -
  define r where "r = length data mod 4"
  have r4: "r < 4" by (simp add: r_def)
  have "(if r \<noteq> 0 then go_copy (replicate (length data + 4 - r) 0) data else data) = data @ pad data"
  proof (cases "r = 0")
    case False
    have "length data + 4 - r - length data = 4 - r" using r4 by simp
    then show ?thesis using False r4 by (simp add: go_copy_def pad_def r_def[symmetric])
  qed (simp add: pad_def r_def[symmetric])
  moreover have "length (data @ pad data) mod 4 = 0" using pad_arith(1)[of "length data"] by (simp add: pad_def)
  ultimately show ?thesis unfolding makeIntArray_def Let_def r_def[symmetric] by simp
qed

lemma length_makeIntArray: "length (makeIntArray data) = (length data + 3) div 4"
  using makeIntArray_padded[of data] pad_arith(2)[of "length data"] by simp

section \<open>Properties\<close>

text \<open>C24: skipping \<open>k\<close> bits with the two registers refines moving by \<open>k\<close> in the bit stream: from a
  reader at bit \<open>p\<close> it never panics and gives a reader at bit \<open>p + k\<close> of the same data, for every
  fill level of the registers, also beyond the end of the data, where the last word repeats.\<close>

theorem skipKbits_refines_stream:
  assumes "reader_at p rd" and "k \<le> 32"
  shows "\<exists>rd'. skipKbits k rd = Some rd' \<and> reader_at (p + k) rd' \<and> buf rd' = buf rd"
  using assms by (rule reader_skip)

theorem skipKbits_refines_stream_witness:
  "\<exists>rd'. skipKbits 20 (init_reader [0x12345678, 0x9ABCDEF0, 0x0FEDCBA9]) = Some rd'
     \<and> reader_at (0 + 20) rd' \<and> buf rd' = buf (init_reader [0x12345678, 0x9ABCDEF0, 0x0FEDCBA9])"
  by (rule skipKbits_refines_stream) (rule reader_init, simp_all)

text \<open>\<open>updateReadBuf\<close>, which computes on 64-bit values, and \<open>skipKbits\<close> are the same function.\<close>

theorem updateReadBuf_eq_skipKbits: "updateReadBuf (int k) rd = skipKbits k rd"
  by (rule updateReadBuf_skipKbits)

text \<open>C25: \<open>getKbits\<close> returns the signed coefficient that the JPEG procedure \<open>EXTEND\<close> assigns to the next
  \<open>k\<close> bits of the stream and consumes exactly those bits, for every category from 1 to 15.\<close>

theorem getKbits_is_EXTEND:
  assumes "reader_at p rd" and "0 < k" and "k \<le> 15"
  shows "\<exists>v rd'. getKbits initNegPow2 k rd = Some (v, rd') \<and> sint v = extend k (sword (buf rd) p k)
           \<and> reader_at (p + k) rd' \<and> buf rd' = buf rd"
  using assms by (rule getKbits_extend)

theorem getKbits_is_EXTEND_witness:
  "\<exists>v rd'. getKbits initNegPow2 5 (init_reader [0x12345678, 0x9ABCDEF0, 0]) = Some (v, rd') \<and> sint v = - 29"
proof -
  have "sword [0x12345678, 0x9ABCDEF0, 0] 0 5 = 2"
    by code_simp
  then show ?thesis
    using getKbits_is_EXTEND[of 0 "init_reader [0x12345678, 0x9ABCDEF0, 0]" 5]
      reader_init[of "[0x12345678, 0x9ABCDEF0, 0]"]
    by (auto simp: extend_def init_reader_def)
qed

text \<open>\<open>makeIntArray\<close> loses nothing: written back as little-endian bytes, its words are the data, padded
  with fewer than four zero bytes to a whole number of words.\<close>

theorem makeIntArray_roundtrip:
  "concat (map le32 (makeIntArray data)) = data @ replicate ((4 - length data mod 4) mod 4) 0
   \<and> length (makeIntArray data) = (length data + 3) div 4"
proof
  define xs where "xs = data @ replicate ((4 - length data mod 4) mod 4) (0 :: u8)"
  have m: "makeIntArray data = map (\<lambda>i. get_le32 (xs ! (i * 4)) (xs ! (i * 4 + 1)) (xs ! (i * 4 + 2)) (xs ! (i * 4 + 3)))
      [0..<length xs div 4]" and l: "length xs mod 4 = 0"
    using makeIntArray_padded[of data] unfolding xs_def by blast+
  have "concat (map le32 (makeIntArray data)) = take (4 * (length xs div 4)) xs"
    unfolding m map_map o_def by (rule concat_words) simp
  also have "\<dots> = xs" using l by (simp add: minus_mod_eq_mult_div[symmetric])
  finally show "concat (map le32 (makeIntArray data)) = data @ replicate ((4 - length data mod 4) mod 4) 0"
    by (simp add: xs_def)
qed (rule length_makeIntArray)

end
