(* ===== verification/Tables.thy ===== *)
theory Tables
  imports Prelude
begin

text \<open>
  The constant tables of \<open>src/internal/ikvm/tables.go\<close>: scan orders, the standard JPEG Huffman
  tables with the fast-lookup boundaries, and the ASPEED quantisation tables.
\<close>

section \<open>Scan orders\<close>

definition zigzag :: "int list" where
  "zigzag =
    [0, 1, 5, 6, 14, 15, 27, 28, 2, 4, 7, 13, 16, 26, 29, 42, 3, 8, 12, 17, 25, 30, 41, 43, 9,
      11, 18, 24, 31, 40, 44, 53, 10, 19, 23, 32, 39, 45, 52, 54, 20, 22, 33, 38, 46, 51, 55, 60,
      21, 34, 37, 47, 50, 56, 59, 61, 35, 36, 48, 49, 57, 58, 62, 63]"

definition dezigzag :: "int list" where
  "dezigzag =
    [0, 1, 8, 16, 9, 2, 3, 10, 17, 24, 32, 25, 18, 11, 4, 5, 12, 19, 26, 33, 40, 48, 41, 34, 27,
      20, 13, 6, 7, 14, 21, 28, 35, 42, 49, 56, 57, 50, 43, 36, 29, 22, 15, 23, 30, 37, 44, 51,
      58, 59, 52, 45, 38, 31, 39, 46, 53, 60, 61, 54, 47, 55, 62, 63]"

section \<open>Huffman tables\<close>

definition stdDCLuminanceNRCodes :: "u8 list" where
  "stdDCLuminanceNRCodes =
    [0, 0, 1, 5, 1, 1, 1, 1, 1, 1, 0, 0, 0, 0, 0, 0, 0]"

definition stdDCLuminanceValues :: "i16 list" where
  "stdDCLuminanceValues =
    [0, 1, 2, 3, 4, 5, 6, 7, 8, 9, 10, 11]"

definition stdDCChrominanceNRCodes :: "u8 list" where
  "stdDCChrominanceNRCodes =
    [0, 0, 3, 1, 1, 1, 1, 1, 1, 1, 1, 1, 0, 0, 0, 0, 0]"

definition stdDCChrominanceValues :: "i16 list" where
  "stdDCChrominanceValues =
    [0, 1, 2, 3, 4, 5, 6, 7, 8, 9, 10, 11]"

definition stdACLuminanceNRCodes :: "u8 list" where
  "stdACLuminanceNRCodes =
    [0, 0, 2, 1, 3, 3, 2, 4, 3, 5, 5, 4, 4, 0, 0, 1, 0x7D]"

definition stdACLuminanceValues :: "i16 list" where
  "stdACLuminanceValues =
    [0x01, 0x02, 0x03, 0x00, 0x04, 0x11, 0x05, 0x12, 0x21, 0x31, 0x41, 0x06, 0x13, 0x51, 0x61,
      0x07, 0x22, 0x71, 0x14, 0x32, 0x81, 0x91, 0xA1, 0x08, 0x23, 0x42, 0xB1, 0xC1, 0x15, 0x52,
      0xD1, 0xF0, 0x24, 0x33, 0x62, 0x72, 0x82, 0x09, 0x0A, 0x16, 0x17, 0x18, 0x19, 0x1A, 0x25,
      0x26, 0x27, 0x28, 0x29, 0x2A, 0x34, 0x35, 0x36, 0x37, 0x38, 0x39, 0x3A, 0x43, 0x44, 0x45,
      0x46, 0x47, 0x48, 0x49, 0x4A, 0x53, 0x54, 0x55, 0x56, 0x57, 0x58, 0x59, 0x5A, 0x63, 0x64,
      0x65, 0x66, 0x67, 0x68, 0x69, 0x6A, 0x73, 0x74, 0x75, 0x76, 0x77, 0x78, 0x79, 0x7A, 0x83,
      0x84, 0x85, 0x86, 0x87, 0x88, 0x89, 0x8A, 0x92, 0x93, 0x94, 0x95, 0x96, 0x97, 0x98, 0x99,
      0x9A, 0xA2, 0xA3, 0xA4, 0xA5, 0xA6, 0xA7, 0xA8, 0xA9, 0xAA, 0xB2, 0xB3, 0xB4, 0xB5, 0xB6,
      0xB7, 0xB8, 0xB9, 0xBA, 0xC2, 0xC3, 0xC4, 0xC5, 0xC6, 0xC7, 0xC8, 0xC9, 0xCA, 0xD2, 0xD3,
      0xD4, 0xD5, 0xD6, 0xD7, 0xD8, 0xD9, 0xDA, 0xE1, 0xE2, 0xE3, 0xE4, 0xE5, 0xE6, 0xE7, 0xE8,
      0xE9, 0xEA, 0xF1, 0xF2, 0xF3, 0xF4, 0xF5, 0xF6, 0xF7, 0xF8, 0xF9, 0xFA]"

definition stdACChrominanceNRCodes :: "u8 list" where
  "stdACChrominanceNRCodes =
    [0, 0, 2, 1, 2, 4, 4, 3, 4, 7, 5, 4, 4, 0, 1, 2, 0x77]"

definition stdACChrominanceValues :: "i16 list" where
  "stdACChrominanceValues =
    [0x00, 0x01, 0x02, 0x03, 0x11, 0x04, 0x05, 0x21, 0x31, 0x06, 0x12, 0x41, 0x51, 0x07, 0x61,
      0x71, 0x13, 0x22, 0x32, 0x81, 0x08, 0x14, 0x42, 0x91, 0xA1, 0xB1, 0xC1, 0x09, 0x23, 0x33,
      0x52, 0xF0, 0x15, 0x62, 0x72, 0xD1, 0x0A, 0x16, 0x24, 0x34, 0xE1, 0x25, 0xF1, 0x17, 0x18,
      0x19, 0x1A, 0x26, 0x27, 0x28, 0x29, 0x2A, 0x35, 0x36, 0x37, 0x38, 0x39, 0x3A, 0x43, 0x44,
      0x45, 0x46, 0x47, 0x48, 0x49, 0x4A, 0x53, 0x54, 0x55, 0x56, 0x57, 0x58, 0x59, 0x5A, 0x63,
      0x64, 0x65, 0x66, 0x67, 0x68, 0x69, 0x6A, 0x73, 0x74, 0x75, 0x76, 0x77, 0x78, 0x79, 0x7A,
      0x82, 0x83, 0x84, 0x85, 0x86, 0x87, 0x88, 0x89, 0x8A, 0x92, 0x93, 0x94, 0x95, 0x96, 0x97,
      0x98, 0x99, 0x9A, 0xA2, 0xA3, 0xA4, 0xA5, 0xA6, 0xA7, 0xA8, 0xA9, 0xAA, 0xB2, 0xB3, 0xB4,
      0xB5, 0xB6, 0xB7, 0xB8, 0xB9, 0xBA, 0xC2, 0xC3, 0xC4, 0xC5, 0xC6, 0xC7, 0xC8, 0xC9, 0xCA,
      0xD2, 0xD3, 0xD4, 0xD5, 0xD6, 0xD7, 0xD8, 0xD9, 0xDA, 0xE2, 0xE3, 0xE4, 0xE5, 0xE6, 0xE7,
      0xE8, 0xE9, 0xEA, 0xF2, 0xF3, 0xF4, 0xF5, 0xF6, 0xF7, 0xF8, 0xF9, 0xFA]"

definition dcLuminanceHuffmanCode :: "int list" where
  "dcLuminanceHuffmanCode =
    [0, 0, 16384, 2, 24576, 3, 32768, 3, 40960, 3, 49152, 3, 57344, 3, 61440, 4, 63488, 5, 64512,
      6, 65024, 7, 65280, 8, 65535, 9]"

definition dcChrominanceHuffmanCode :: "int list" where
  "dcChrominanceHuffmanCode =
    [0, 0, 16384, 2, 32768, 2, 49152, 2, 57344, 3, 61440, 4, 63488, 5, 64512, 6, 65024, 7, 65280,
      8, 65408, 9, 65472, 10, 65535, 11]"

definition acLuminanceHuffmanCode :: "int list" where
  "acLuminanceHuffmanCode =
    [0, 0, 16384, 2, 32768, 2, 40960, 3, 45056, 4, 49152, 4, 53248, 4, 55296, 5, 57344, 5, 59392,
      5, 60416, 6, 61440, 6, 61952, 7, 62464, 7, 62976, 7, 63488, 7, 63744, 8, 64000, 8, 64256,
      8, 64384, 9, 64512, 9, 64640, 9, 64768, 9, 64896, 9, 64960, 10, 65024, 10, 65088, 10,
      65152, 10, 65216, 10, 65248, 11, 65280, 11, 65312, 11, 65344, 11, 65360, 12, 65376, 12,
      65392, 12, 65408, 12, 65410, 15, 65535, 16]"

definition acChrominanceHuffmanCode :: "int list" where
  "acChrominanceHuffmanCode =
    [0, 0, 16384, 2, 32768, 2, 40960, 3, 45056, 4, 49152, 4, 51200, 5, 53248, 5, 55296, 5, 57344,
      5, 58368, 6, 59392, 6, 60416, 6, 61440, 6, 61952, 7, 62464, 7, 62976, 7, 63232, 8, 63488,
      8, 63744, 8, 64000, 8, 64128, 9, 64256, 9, 64384, 9, 64512, 9, 64640, 9, 64768, 9, 64896,
      9, 64960, 10, 65024, 10, 65088, 10, 65152, 10, 65216, 10, 65248, 11, 65280, 11, 65312, 11,
      65344, 11, 65360, 12, 65376, 12, 65392, 12, 65408, 12, 65412, 14, 65414, 15, 65416, 15,
      65535, 16]"

section \<open>Quantisation tables\<close>

definition tbl000Y :: "u8 list" where
  "tbl000Y =
    [20, 13, 12, 20, 30, 50, 63, 76, 15, 15, 17, 23, 32, 72, 75, 68, 17, 16, 20, 30, 50, 71, 86,
      70, 17, 21, 27, 36, 63, 108, 100, 77, 22, 27, 46, 70, 85, 136, 128, 96, 30, 43, 68, 80,
      101, 130, 141, 115, 61, 80, 97, 108, 128, 151, 150, 126, 90, 115, 118, 122, 140, 125, 128,
      123]"

definition tbl014Y :: "u8 list" where
  "tbl014Y =
    [17, 12, 10, 17, 26, 43, 55, 66, 13, 13, 15, 20, 28, 63, 65, 60, 15, 14, 17, 26, 43, 62, 75,
      61, 15, 18, 24, 31, 55, 95, 87, 67, 19, 24, 40, 61, 74, 119, 112, 84, 26, 38, 60, 70, 88,
      113, 123, 100, 53, 70, 85, 95, 112, 132, 131, 110, 78, 100, 103, 107, 122, 109, 112, 108]"

definition tbl029Y :: "u8 list" where
  "tbl029Y =
    [14, 9, 9, 14, 21, 36, 46, 55, 10, 10, 12, 17, 23, 52, 54, 49, 12, 11, 14, 21, 36, 51, 62,
      50, 12, 15, 19, 26, 46, 78, 72, 56, 16, 19, 33, 50, 61, 98, 93, 69, 21, 31, 49, 58, 73, 94,
      102, 83, 44, 58, 70, 78, 93, 109, 108, 91, 65, 83, 86, 88, 101, 90, 93, 89]"

definition tbl043Y :: "u8 list" where
  "tbl043Y =
    [11, 7, 7, 11, 17, 28, 36, 43, 8, 8, 10, 13, 18, 41, 43, 39, 10, 9, 11, 17, 28, 40, 49, 40,
      10, 12, 15, 20, 36, 62, 57, 44, 12, 15, 26, 40, 48, 78, 74, 55, 17, 25, 39, 46, 58, 74, 81,
      66, 35, 46, 56, 62, 74, 86, 86, 72, 51, 66, 68, 70, 80, 71, 74, 71]"

definition tbl057Y :: "u8 list" where
  "tbl057Y =
    [9, 6, 5, 9, 13, 22, 28, 34, 6, 6, 7, 10, 14, 32, 33, 30, 7, 7, 9, 13, 22, 32, 38, 31, 7, 9,
      12, 16, 28, 48, 45, 34, 10, 12, 20, 31, 38, 61, 57, 43, 13, 19, 30, 36, 45, 58, 63, 51, 27,
      36, 43, 48, 57, 68, 67, 56, 40, 51, 53, 55, 63, 56, 57, 55]"

definition tbl071Y :: "u8 list" where
  "tbl071Y =
    [6, 4, 3, 6, 9, 15, 19, 22, 4, 4, 5, 7, 9, 21, 22, 20, 5, 4, 6, 9, 15, 21, 25, 21, 5, 6, 8,
      10, 19, 32, 30, 23, 6, 8, 13, 21, 25, 40, 38, 28, 9, 13, 20, 24, 30, 39, 42, 34, 18, 24,
      29, 32, 38, 45, 45, 37, 27, 34, 35, 36, 42, 37, 38, 37]"

definition tbl086Y :: "u8 list" where
  "tbl086Y =
    [3, 2, 1, 3, 4, 7, 9, 11, 2, 2, 2, 3, 4, 10, 11, 10, 2, 2, 3, 4, 7, 10, 12, 10, 2, 3, 4, 5,
      9, 16, 15, 11, 3, 4, 6, 10, 12, 20, 19, 14, 4, 6, 10, 12, 15, 19, 21, 17, 9, 12, 14, 16,
      19, 22, 22, 18, 13, 17, 17, 18, 21, 18, 19, 18]"

definition tbl100Y :: "u8 list" where
  "tbl100Y =
    [2, 1, 1, 2, 3, 5, 6, 7, 1, 1, 1, 2, 3, 7, 7, 6, 1, 1, 2, 3, 5, 7, 8, 7, 1, 2, 2, 3, 6, 10,
      10, 7, 2, 2, 4, 7, 8, 13, 12, 9, 3, 4, 6, 8, 10, 13, 14, 11, 6, 8, 9, 10, 12, 15, 15, 12,
      9, 11, 11, 12, 14, 12, 12, 12]"

definition tbl000UV :: "u8 list" where
  "tbl000UV =
    [31, 33, 45, 88, 185, 185, 185, 185, 33, 39, 48, 123, 185, 185, 185, 185, 45, 48, 105, 185,
      185, 185, 185, 185, 88, 123, 185, 185, 185, 185, 185, 185, 185, 185, 185, 185, 185, 185,
      185, 185, 185, 185, 185, 185, 185, 185, 185, 185, 185, 185, 185, 185, 185, 185, 185, 185,
      185, 185, 185, 185, 185, 185, 185, 185]"

definition tbl014UV :: "u8 list" where
  "tbl014UV =
    [27, 29, 39, 76, 160, 160, 160, 160, 29, 34, 42, 107, 160, 160, 160, 160, 39, 42, 91, 160,
      160, 160, 160, 160, 76, 107, 160, 160, 160, 160, 160, 160, 160, 160, 160, 160, 160, 160,
      160, 160, 160, 160, 160, 160, 160, 160, 160, 160, 160, 160, 160, 160, 160, 160, 160, 160,
      160, 160, 160, 160, 160, 160, 160, 160]"

definition tbl029UV :: "u8 list" where
  "tbl029UV =
    [22, 24, 32, 63, 133, 133, 133, 133, 24, 28, 34, 88, 133, 133, 133, 133, 32, 34, 75, 133,
      133, 133, 133, 133, 63, 88, 133, 133, 133, 133, 133, 133, 133, 133, 133, 133, 133, 133,
      133, 133, 133, 133, 133, 133, 133, 133, 133, 133, 133, 133, 133, 133, 133, 133, 133, 133,
      133, 133, 133, 133, 133, 133, 133, 133]"

definition tbl043UV :: "u8 list" where
  "tbl043UV =
    [18, 19, 26, 51, 108, 108, 108, 108, 19, 22, 28, 72, 108, 108, 108, 108, 26, 28, 61, 108,
      108, 108, 108, 108, 51, 72, 108, 108, 108, 108, 108, 108, 108, 108, 108, 108, 108, 108,
      108, 108, 108, 108, 108, 108, 108, 108, 108, 108, 108, 108, 108, 108, 108, 108, 108, 108,
      108, 108, 108, 108, 108, 108, 108, 108]"

definition tbl057UV :: "u8 list" where
  "tbl057UV =
    [13, 14, 19, 38, 80, 80, 80, 80, 14, 17, 21, 53, 80, 80, 80, 80, 19, 21, 45, 80, 80, 80, 80,
      80, 38, 53, 80, 80, 80, 80, 80, 80, 80, 80, 80, 80, 80, 80, 80, 80, 80, 80, 80, 80, 80, 80,
      80, 80, 80, 80, 80, 80, 80, 80, 80, 80, 80, 80, 80, 80, 80, 80, 80, 80]"

definition tbl071UV :: "u8 list" where
  "tbl071UV =
    [9, 10, 13, 26, 55, 55, 55, 55, 10, 11, 14, 37, 55, 55, 55, 55, 13, 14, 31, 55, 55, 55, 55,
      55, 26, 37, 55, 55, 55, 55, 55, 55, 55, 55, 55, 55, 55, 55, 55, 55, 55, 55, 55, 55, 55, 55,
      55, 55, 55, 55, 55, 55, 55, 55, 55, 55, 55, 55, 55, 55, 55, 55, 55, 55]"

definition tbl086UV :: "u8 list" where
  "tbl086UV =
    [4, 5, 6, 13, 27, 27, 27, 27, 5, 5, 7, 18, 27, 27, 27, 27, 6, 7, 15, 27, 27, 27, 27, 27, 13,
      18, 27, 27, 27, 27, 27, 27, 27, 27, 27, 27, 27, 27, 27, 27, 27, 27, 27, 27, 27, 27, 27, 27,
      27, 27, 27, 27, 27, 27, 27, 27, 27, 27, 27, 27, 27, 27, 27, 27]"

definition tbl100UV :: "u8 list" where
  "tbl100UV =
    [3, 3, 4, 8, 18, 18, 18, 18, 3, 3, 4, 12, 18, 18, 18, 18, 4, 4, 10, 18, 18, 18, 18, 18, 8,
      12, 18, 18, 18, 18, 18, 18, 18, 18, 18, 18, 18, 18, 18, 18, 18, 18, 18, 18, 18, 18, 18, 18,
      18, 18, 18, 18, 18, 18, 18, 18, 18, 18, 18, 18, 18, 18, 18, 18]"

lemmas quant_tables =
  tbl000Y_def tbl014Y_def tbl029Y_def tbl043Y_def tbl057Y_def tbl071Y_def tbl086Y_def tbl100Y_def
  tbl000UV_def tbl014UV_def tbl029UV_def tbl043UV_def tbl057UV_def tbl071UV_def tbl086UV_def tbl100UV_def

section \<open>Facts\<close>

lemma length_scan [simp]: "length zigzag = 64" "length dezigzag = 64"
  by (simp_all add: zigzag_def dezigzag_def)

lemma length_quant_tables [simp]:
  "length tbl000Y = 64" "length tbl014Y = 64" "length tbl029Y = 64" "length tbl043Y = 64"
  "length tbl057Y = 64" "length tbl071Y = 64" "length tbl086Y = 64" "length tbl100Y = 64"
  "length tbl000UV = 64" "length tbl014UV = 64" "length tbl029UV = 64" "length tbl043UV = 64"
  "length tbl057UV = 64" "length tbl071UV = 64" "length tbl086UV = 64" "length tbl100UV = 64"
  by (simp_all add: quant_tables)

lemma scan_range: "list_all (\<lambda>i. 0 \<le> i \<and> i < 64) zigzag" "list_all (\<lambda>i. 0 \<le> i \<and> i < 64) dezigzag"
  by (simp_all add: zigzag_def dezigzag_def)

lemma scan_nth_range:
  "i < 64 \<Longrightarrow> 0 \<le> zigzag ! i \<and> zigzag ! i < 64" "i < 64 \<Longrightarrow> 0 \<le> dezigzag ! i \<and> dezigzag ! i < 64"
  using scan_range by (auto simp: list_all_length)

lemma distinct_zigzag: "distinct zigzag"
  by (simp add: zigzag_def)

lemma scan_inverse_all: "list_all (\<lambda>i. dezigzag ! nat (zigzag ! i) = int i \<and> zigzag ! nat (dezigzag ! i) = int i) [0..<64]"
  by code_simp

section \<open>Properties\<close>

text \<open>The two scan orders are inverse permutations of the 64 coefficient positions.\<close>

theorem scan_orders_inverse:
  assumes "i < 64"
  shows "dezigzag ! nat (zigzag ! i) = int i \<and> zigzag ! nat (dezigzag ! i) = int i"
  using scan_inverse_all assms by (simp add: list_all_iff)

theorem scan_orders_inverse_witness: "dezigzag ! nat (zigzag ! 10) = int 10"
  using scan_orders_inverse[of 10] by simp

end
