(* ===== verification/Huffman.thy ===== *)
theory Huffman
  imports Bitstream Tables "HOL-Library.Code_Target_Nat"
begin

text \<open>
  Huffman tables of the video decoder: the struct \<open>huffmanTable\<close>, \<open>loadHuffmanTable\<close> and
  \<open>initHuffmanTables\<close> of \<open>src/internal/ikvm/decoder.go\<close>, and the symbol step that
  \<open>decodeHuffmanDataUnit\<close> (\<open>decompress.go\<close>) repeats for the DC and every AC coefficient.

  The arrays of 65536 entries are functions on naturals that are only read and written below
  65536. The specification is the canonical code of the JPEG standard: \<open>canonical\<close> lists for
  every code its length, the code word and the symbol.
\<close>

section \<open>State\<close>

record huffmanTable =
  ht_length :: "u8 list"
  ht_v :: "nat \<Rightarrow> i16"
  ht_minorCode :: "i16 list"
  ht_majorCode :: "i16 list"
  ht_len :: "nat \<Rightarrow> u8"

definition empty_table :: huffmanTable where
  "empty_table = \<lparr>ht_length = replicate 17 0, ht_v = (\<lambda>_. 0), ht_minorCode = replicate 17 0,
     ht_majorCode = replicate 17 0, ht_len = (\<lambda>_. 0)\<rparr>"

definition big_get :: "(nat \<Rightarrow> 'a) \<Rightarrow> int \<Rightarrow> 'a option" where
  "big_get f i = (if 0 \<le> i \<and> i < 65536 then Some (f (nat i)) else None)"

section \<open>Loading a table\<close>

text \<open>The four loops of \<open>loadHuffmanTable\<close>, one definition each.\<close>

definition load_lengths :: "u8 list \<Rightarrow> u8 list \<Rightarrow> u8 list option" where
  "load_lengths nrcodes len0 =
     foldM (\<lambda>i len. do { c \<leftarrow> arr_get nrcodes (int i); arr_set len (int i) c }) [1..<17] len0"

definition load_values :: "u8 list \<Rightarrow> i16 list \<Rightarrow> (nat \<Rightarrow> i16) \<Rightarrow> ((nat \<Rightarrow> i16) \<times> nat) option" where
  "load_values len values v0 =
     foldM (\<lambda>i st.
       foldM (\<lambda>j (v, n). do {
           let idx = i * 256 + j;
           if idx < 65536
           then do { x \<leftarrow> arr_get values (int n); Some (v(idx := x), n + 1) }
           else Some (v, n + 1)
         }) [0..<unat (len ! i)] st) [1..<17] (v0, 0)"

definition load_codes ::
  "u8 list \<Rightarrow> i16 list \<Rightarrow> i16 list \<Rightarrow> (i16 list \<times> i16 list \<times> int) option" where
  "load_codes len minor0 major0 =
     foldM (\<lambda>i (minor, major, code). do {
         minor \<leftarrow> arr_set minor (int i) (word_of_int code);
         let code = code + int (unat (len ! i));
         major \<leftarrow> arr_set major (int i) (word_of_int (code - 1));
         let code = code * 2;
         (if len ! i = 0
          then do {
            minor \<leftarrow> arr_set minor (int i) (- 1);
            major \<leftarrow> arr_set major (int i) 0;
            Some (minor, major, code)
          }
          else Some (minor, major, code))
       }) [1..<17] (minor0, major0, 0)"

definition fast_step :: "int list \<Rightarrow> nat \<Rightarrow> (nat \<Rightarrow> u8) \<times> int \<Rightarrow> ((nat \<Rightarrow> u8) \<times> int) option" where
  "fast_step huffCode i = (\<lambda>(len, ci). do {
     b \<leftarrow> arr_get huffCode ci;
     if int i < b
     then do { l \<leftarrow> arr_get huffCode (ci + 1); Some (len(i := word_of_int l), ci) }
     else (let ci = ci + 2 in
           if ci + 1 < int (length huffCode)
           then do { l \<leftarrow> arr_get huffCode (ci + 1); Some (len(i := word_of_int l), ci) }
           else Some (len, ci))
   })"

definition load_fast :: "int list \<Rightarrow> (nat \<Rightarrow> u8) \<Rightarrow> ((nat \<Rightarrow> u8) \<times> int) option" where
  "load_fast huffCode len0 = foldM (fast_step huffCode) [1..<65535] (len0(0 := 2), 2)"

definition loadHuffmanTable ::
  "u8 list \<Rightarrow> i16 list \<Rightarrow> int list \<Rightarrow> huffmanTable \<Rightarrow> huffmanTable option" where
  "loadHuffmanTable nrcodes values huffCode ht = do {
     lens \<leftarrow> load_lengths nrcodes (ht_length ht);
     (v, n) \<leftarrow> load_values lens values (ht_v ht);
     (minor, major, code) \<leftarrow> load_codes lens (ht_minorCode ht) (ht_majorCode ht);
     (len, ci) \<leftarrow> load_fast huffCode (ht_len ht);
     Some \<lparr>ht_length = lens, ht_v = v, ht_minorCode = minor, ht_majorCode = major, ht_len = len\<rparr>
   }"

text \<open>\<open>initHuffmanTables\<close>: tables 2 and 3 of each kind stay empty.\<close>

definition initHuffmanTables :: "(huffmanTable list \<times> huffmanTable list) option" where
  "initHuffmanTables = do {
     dc0 \<leftarrow> loadHuffmanTable stdDCLuminanceNRCodes stdDCLuminanceValues dcLuminanceHuffmanCode empty_table;
     ac0 \<leftarrow> loadHuffmanTable stdACLuminanceNRCodes stdACLuminanceValues acLuminanceHuffmanCode empty_table;
     dc1 \<leftarrow> loadHuffmanTable stdDCChrominanceNRCodes stdDCChrominanceValues dcChrominanceHuffmanCode empty_table;
     ac1 \<leftarrow> loadHuffmanTable stdACChrominanceNRCodes stdACChrominanceValues acChrominanceHuffmanCode empty_table;
     Some ([dc0, dc1, empty_table, empty_table], [ac0, ac1, empty_table, empty_table])
   }"

section \<open>Decoding one symbol\<close>

text \<open>The lines that decode the DC category and every AC symbol:
  \<open>lookup\<close>, \<open>codeLen\<close>, \<open>lookKbits\<close>, \<open>skipKbits\<close> and the index into \<open>v\<close>.\<close>

definition huff_symbol :: "huffmanTable \<Rightarrow> bitreader \<Rightarrow> (u8 \<times> bitreader) option" where
  "huff_symbol ht rd = do {
     let lookup = uint (drop_bit 16 (reg0 rd) AND 0xFFFF);
     l \<leftarrow> big_get (ht_len ht) lookup;
     let codeLen = (if l = 0 then 1 else l);
     let code = lookKbits (unat codeLen) rd;
     rd \<leftarrow> skipKbits (unat codeLen) rd;
     m \<leftarrow> arr_get (ht_minorCode ht) (uint codeLen);
     let idx = uint codeLen * 256 + uint (ucast (code - m) :: u8);
     s \<leftarrow> big_get (ht_v ht) idx;
     Some (ucast s, rd)
   }"

section \<open>Specification\<close>

text \<open>The canonical code (ITU-T T.81, C.2): code words of one length are consecutive, the first one
  of the next length is twice the number after the last, and the symbols are listed in the
  order of the codes. \<open>nr ! l\<close> is the number of codes of length \<open>l\<close>.\<close>

primrec first_code :: "u8 list \<Rightarrow> nat \<Rightarrow> nat" where
  "first_code nr 0 = 0"
| "first_code nr (Suc l) = 2 * (first_code nr l + unat (nr ! l))"

primrec first_value :: "u8 list \<Rightarrow> nat \<Rightarrow> nat" where
  "first_value nr 0 = 0"
| "first_value nr (Suc l) = first_value nr l + unat (nr ! l)"

definition canonical_code :: "u8 list \<Rightarrow> i16 list \<Rightarrow> nat \<Rightarrow> nat \<Rightarrow> i16 \<Rightarrow> bool" where
  "canonical_code nr values l c x \<longleftrightarrow>
     1 \<le> l \<and> l \<le> 16 \<and> first_code nr l \<le> c \<and> c < first_code nr l + unat (nr ! l)
     \<and> x = values ! (first_value nr l + (c - first_code nr l))"

text \<open>The fast-lookup array as a function of the boundary pairs.\<close>

fun first_len :: "int list \<Rightarrow> int \<Rightarrow> int" where
  "first_len (b # l # hc) i = (if i < b then l else first_len hc i)"
| "first_len _ i = 0"

fun increasing_bounds :: "int list \<Rightarrow> bool" where
  "increasing_bounds (b # l # b' # l' # hc) \<longleftrightarrow> b < b' \<and> increasing_bounds (b' # l' # hc)"
| "increasing_bounds [b, l] \<longleftrightarrow> 65534 < b"
| "increasing_bounds _ \<longleftrightarrow> False"

text \<open>All words from \<open>lo\<close> to \<open>hi\<close> have the length \<open>len\<close>.\<close>

fun region_len :: "int list \<Rightarrow> int \<Rightarrow> int \<Rightarrow> int \<Rightarrow> bool" where
  "region_len (b # l # hc) lo hi len \<longleftrightarrow>
     (if hi < b then l = len else if lo < b then l = len \<and> region_len hc lo hi len
      else region_len hc lo hi len)"
| "region_len _ lo hi len \<longleftrightarrow> False"

fun odd_entries :: "'a list \<Rightarrow> 'a list" where
  "odd_entries (b # l # hc) = l # odd_entries hc"
| "odd_entries _ = []"

text \<open>A check that computes: the boundaries increase, and the words that start with a code of
  length \<open>l\<close> form one region of that length.\<close>

definition region_ok :: "u8 list \<Rightarrow> int list \<Rightarrow> nat \<Rightarrow> bool" where
  "region_ok nr hc l \<longleftrightarrow> nr ! l = 0 \<or>
     (let lo = first_code nr l; n = unat (nr ! l); w = 2 ^ (16 - l) in
      (lo = 0 \<longrightarrow> l = 2) \<and> (lo + n) * w \<le> 65535
      \<and> region_len (drop 2 hc) (int (lo * w)) (int ((lo + n) * w) - 1) (int l))"

definition table_check :: "u8 list \<Rightarrow> i16 list \<Rightarrow> int list \<Rightarrow> bool" where
  "table_check nr values hc \<longleftrightarrow>
     length nr = 17 \<and> nr ! 0 = 0 \<and> first_value nr 17 \<le> length values
     \<and> increasing_bounds (drop 2 hc) \<and> 0 < hc ! 2
     \<and> list_all (\<lambda>l. 0 \<le> l \<and> l \<le> 16) (odd_entries (drop 2 hc))
     \<and> list_all (region_ok nr hc) [1..<17]"

section \<open>The fast-lookup array\<close>

lemma drop_pair:
  assumes "drop n hc = b # l # r"
  shows "arr_get hc (int n) = Some b" "arr_get hc (int n + 1) = Some l" "drop (n + 2) hc = r"
    "int n + 1 < int (length hc)"
proof -
  have len: "n + 1 < length hc" using arg_cong[OF assms, of length] by simp
  have "hc ! n = b" using assms len by (metis Cons_nth_drop_Suc Suc_lessD Suc_eq_plus1 list.inject)
  moreover have "hc ! (n + 1) = l"
    using arg_cong[OF assms, of "\<lambda>xs. xs ! 1"] len by simp
  moreover have "drop (n + 2) hc = r"
    using arg_cong[OF assms, of "drop 2"] by (simp add: add.commute)
  moreover have "int n + 1 = int (n + 1)" by simp
  ultimately show "arr_get hc (int n) = Some b" "arr_get hc (int n + 1) = Some l" "drop (n + 2) hc = r"
    "int n + 1 < int (length hc)"
    using len by (simp_all only: arr_get_int)
qed

definition fast_inv :: "int list \<Rightarrow> (nat \<Rightarrow> u8) \<Rightarrow> nat \<Rightarrow> (nat \<Rightarrow> u8) \<times> int \<Rightarrow> bool" where
  "fast_inv hc len0 i = (\<lambda>(len, ci). \<exists>n b l r.
     ci = int n \<and> drop n hc = b # l # r \<and> increasing_bounds (b # l # r) \<and> int i - 1 < b
     \<and> (\<forall>x \<ge> int i - 1. first_len (b # l # r) x = first_len (drop 2 hc) x)
     \<and> (\<forall>j. len j = (if j = 0 then 2 else if j < i then word_of_int (first_len (drop 2 hc) (int j)) else len0 j)))"

lemma fast_invI:
  assumes "ci = int n" "drop n hc = b # l # r" "increasing_bounds (b # l # r)" "int i - 1 < b"
    "\<And>x. x \<ge> int i - 1 \<Longrightarrow> first_len (b # l # r) x = first_len (drop 2 hc) x"
    "\<And>j. len j = (if j = 0 then 2 else if j < i then word_of_int (first_len (drop 2 hc) (int j)) else len0 j)"
  shows "fast_inv hc len0 i (len, ci)"
  unfolding fast_inv_def split_conv using assms by blast

lemma fast_step_inv:
  assumes inv: "fast_inv hc len0 i s" and i: "1 \<le> i" "i < 65535"
  shows "wp_opt (fast_step hc i s) (fast_inv hc len0 (Suc i))"
proof -
  obtain len ci where s: "s = (len, ci)" by (cases s)
  obtain n b l r where n: "ci = int n" "drop n hc = b # l # r" "increasing_bounds (b # l # r)"
    "int i - 1 < b"
    and fl: "\<And>x. x \<ge> int i - 1 \<Longrightarrow> first_len (b # l # r) x = first_len (drop 2 hc) x"
    and len: "\<And>j. len j = (if j = 0 then 2 else if j < i then word_of_int (first_len (drop 2 hc) (int j)) else len0 j)"
    using inv unfolding fast_inv_def s by clarsimp
  note d = drop_pair[OF n(2)]
  show ?thesis
  proof (cases "int i < b")
    case True
    have li: "first_len (drop 2 hc) (int i) = l" using fl[of "int i"] True by simp
    have "fast_inv hc len0 (Suc i) (len(i := word_of_int l), ci)"
      by (rule fast_invI[OF n(1,2,3)])
         (use True i in \<open>auto simp: len li simp del: first_len.simps intro!: fl\<close>)
    then show ?thesis using True by (simp add: fast_step_def s n(1) d wp_simps)
  next
    case False
    then have bi: "b = int i" using n(4) by simp
    obtain b' l' r' where r: "r = b' # l' # r'"
      using n(3) bi i by (cases "b # l # r" rule: increasing_bounds.cases) auto
    have n': "increasing_bounds (b' # l' # r')" "b < b'" using n(3) by (auto simp: r)
    have d': "drop (n + 2) hc = b' # l' # r'" using d(3) by (simp add: r)
    note e = drop_pair[OF d']
    have fl': "first_len (b' # l' # r') x = first_len (drop 2 hc) x" if "x \<ge> int i" for x
      using fl[of x] that bi by (simp add: r del: first_len.simps(1)) (simp add: r bi)
    have li: "first_len (drop 2 hc) (int i) = l'" using fl'[of "int i"] n'(2) bi by simp
    have "fast_inv hc len0 (Suc i) (len(i := word_of_int l'), int n + 2)"
      by (rule fast_invI[OF _ d' n'(1)])
         (use n'(2) bi i in \<open>auto simp: len li simp del: first_len.simps intro!: fl'\<close>)
    moreover have "int n + 2 + 1 < int (length hc)" "arr_get hc (int n + 2 + 1) = Some l'"
      using e by (simp_all add: algebra_simps)
    ultimately show ?thesis using False
      by (simp add: fast_step_def s n(1) d Let_def wp_simps)
  qed
qed

lemma load_fast_spec:
  assumes "increasing_bounds (drop 2 hc)" and "0 < hc ! 2"
  shows "\<exists>len ci. load_fast hc len0 = Some (len, ci) \<and>
    (\<forall>j. len j = (if j = 0 then 2 else if j < 65535 then word_of_int (first_len (drop 2 hc) (int j)) else len0 j))"
proof -
  obtain b l r where blr: "drop 2 hc = b # l # r"
    using assms(1) by (cases "drop 2 hc" rule: increasing_bounds.cases) auto
  have "0 < b" using assms(2) drop_pair(1)[OF blr] by (simp add: arr_get_def split: if_splits)
  then have "fast_inv hc len0 1 (len0(0 := 2), 2)"
    by (intro fast_invI[OF _ blr]) (use assms(1) blr in auto)
  then have "wp_opt (load_fast hc len0) (fast_inv hc len0 65535)"
    unfolding load_fast_def by (intro wp_foldM_upt) (auto intro: fast_step_inv)
  then show ?thesis by (auto simp: wp_opt_iff fast_inv_def)
qed


section \<open>Loading the other arrays\<close>

lemma load_lengths_spec:
  assumes "length nr = 17" "nr ! 0 = 0"
  shows "load_lengths nr (replicate 17 0) = Some nr"
proof -
  have "wp_opt (load_lengths nr (replicate 17 0))
      (\<lambda>len. length len = 17 \<and> (\<forall>t<17. len ! t = nr ! t))"
    unfolding load_lengths_def
    by (rule wp_foldM_upt[where I = "\<lambda>i len. length len = 17 \<and> (\<forall>t<i. len ! t = nr ! t)"])
       (use assms in \<open>auto simp: wp_simps less_Suc_eq nth_list_update\<close>)
  then show ?thesis
    using assms by (auto simp: wp_opt_iff intro!: nth_equalityI)
qed

lemma first_value_mono: "l \<le> m \<Longrightarrow> first_value nr l \<le> first_value nr m"
  by (induction m) (auto simp: le_Suc_eq)

definition values_inv :: "u8 list \<Rightarrow> i16 list \<Rightarrow> nat \<Rightarrow> nat \<Rightarrow> (nat \<Rightarrow> i16) \<times> nat \<Rightarrow> bool" where
  "values_inv nr values i k = (\<lambda>(v, n). n = first_value nr i + k
     \<and> (\<forall>l j. 1 \<le> l \<longrightarrow> (l < i \<and> j < unat (nr ! l) \<or> l = i \<and> j < k)
              \<longrightarrow> v (l * 256 + j) = values ! (first_value nr l + j))
     \<and> (\<forall>x. v x \<in> insert 0 (set values)))"

lemma u8_bound: "unat (b :: u8) < 256"
  using unsigned_less[of b] by simp

lemma values_index_inj:
  assumes "j < 256" "j' < 256" "l * 256 + j = l' * 256 + (j' :: nat)"
  shows "l = l' \<and> j = j'"
proof -
  have "l = (l * 256 + j) div 256" "l' = (l' * 256 + j') div 256" using assms(1,2) by simp_all
  then show ?thesis using assms(3) by simp
qed

lemma values_inv_step:
  assumes inv: "values_inv nr values i k (v, n)" and i: "1 \<le> i" "i < 17" and k: "k < unat (nr ! i)"
    and total: "first_value nr 17 \<le> length values"
  shows "n < length values \<and> values_inv nr values i (Suc k) (v(i * 256 + k := values ! n), n + 1)"
proof -
  have n: "n = first_value nr i + k" using inv by (simp add: values_inv_def)
  also have "\<dots> < first_value nr (Suc i)" using k by simp
  also have "\<dots> \<le> length values" using first_value_mono[of "Suc i" 17 nr] i total by simp
  finally have len: "n < length values" .
  have k256: "k < 256" using k u8_bound[of "nr ! i"] by simp
  have new: "(v(i * 256 + k := values ! n)) (l * 256 + j) = values ! (first_value nr l + j)"
    if "1 \<le> l" "l < i \<and> j < unat (nr ! l) \<or> l = i \<and> j < Suc k" for l j
  proof (cases "l = i \<and> j = k")
    case False
    have j: "j < 256" using that(2) u8_bound[of "nr ! l"] k256 by auto
    have "l * 256 + j \<noteq> i * 256 + k" using values_index_inj[OF j k256] False by blast
    moreover have "l < i \<and> j < unat (nr ! l) \<or> l = i \<and> j < k" using that(2) False by auto
    ultimately show ?thesis using inv that(1) by (auto simp: values_inv_def)
  qed (simp add: n)
  have "values_inv nr values i (Suc k) (v(i * 256 + k := values ! n), n + 1)"
    unfolding values_inv_def split_conv
  proof (intro conjI allI impI)
    show "n + 1 = first_value nr i + Suc k" by (simp add: n)
    show "(v(i * 256 + k := values ! n)) x \<in> insert 0 (set values)" for x
      using inv len by (auto simp: values_inv_def)
  qed (rule new)
  then show ?thesis using len by simp
qed

lemma load_values_spec:
  assumes "first_value nr 17 \<le> length values" "nr ! 0 = 0"
  shows "wp_opt (load_values nr values (\<lambda>_. 0)) (values_inv nr values 17 0)"
  unfolding load_values_def
proof (rule wp_foldM_upt)
  show "values_inv nr values 1 0 (\<lambda>_. 0, 0)" using assms(2) by (simp add: values_inv_def)
next
  fix i s
  assume i: "1 \<le> i" "i < 17" and inv: "values_inv nr values i 0 s"
  have "wp_opt (foldM (\<lambda>j (v, n). do {
           let idx = i * 256 + j;
           if idx < 65536
           then do { x \<leftarrow> arr_get values (int n); Some (v(idx := x), n + 1) }
           else Some (v, n + 1)
         }) [0..<unat (nr ! i)] s) (values_inv nr values i (unat (nr ! i)))"
  proof (rule wp_foldM_upt[where I = "values_inv nr values i"], rule inv, simp)
    fix k s assume k: "k < unat (nr ! i)" and inv: "values_inv nr values i k s"
    obtain v n where s: "s = (v, n)" by (cases s)
    have "i * 256 + k < 65536" using i k u8_bound[of "nr ! i"] by simp
    then show "wp_opt (case s of (v, n) \<Rightarrow> do {
           let idx = i * 256 + k;
           if idx < 65536
           then do { x \<leftarrow> arr_get values (int n); Some (v(idx := x), n + 1) }
           else Some (v, n + 1)
         }) (values_inv nr values i (Suc k))"
      using values_inv_step[OF inv[unfolded s] i k assms(1)] by (simp add: s wp_simps)
  qed
  then show "wp_opt (foldM (\<lambda>j (v, n). do {
           let idx = i * 256 + j;
           if idx < 65536
           then do { x \<leftarrow> arr_get values (int n); Some (v(idx := x), n + 1) }
           else Some (v, n + 1)
         }) [0..<unat (nr ! i)] s) (values_inv nr values (Suc i) 0)"
    by (rule wp_opt_mono) (auto simp: values_inv_def less_Suc_eq)
qed simp

definition codes_inv :: "u8 list \<Rightarrow> nat \<Rightarrow> i16 list \<times> i16 list \<times> int \<Rightarrow> bool" where
  "codes_inv nr i = (\<lambda>(minor, major, code). length minor = 17 \<and> length major = 17
     \<and> code = int (first_code nr i)
     \<and> (\<forall>l<i. 1 \<le> l \<longrightarrow> nr ! l \<noteq> 0 \<longrightarrow> minor ! l = of_nat (first_code nr l)))"

lemma load_codes_spec:
  assumes "nr ! 0 = 0"
  shows "wp_opt (load_codes nr (replicate 17 0) (replicate 17 0)) (codes_inv nr 17)"
  unfolding load_codes_def
proof (rule wp_foldM_upt)
  show "codes_inv nr 1 (replicate 17 0, replicate 17 0, 0)"
    using assms by (simp add: codes_inv_def)
next
  fix i s
  assume i: "1 \<le> i" "i < 17" and inv: "codes_inv nr i s"
  obtain minor major code where s: "s = (minor, major, code)" by (cases s)
  show "wp_opt (case s of (minor, major, code) \<Rightarrow> do {
         minor \<leftarrow> arr_set minor (int i) (word_of_int code);
         let code = code + int (unat (nr ! i));
         major \<leftarrow> arr_set major (int i) (word_of_int (code - 1));
         let code = code * 2;
         (if nr ! i = 0
          then do {
            minor \<leftarrow> arr_set minor (int i) (- 1);
            major \<leftarrow> arr_set major (int i) 0;
            Some (minor, major, code)
          }
          else Some (minor, major, code))
       }) (codes_inv nr (Suc i))"
    using inv i by (auto simp: s codes_inv_def wp_simps Let_def less_Suc_eq nth_list_update)
qed simp

definition table_spec :: "u8 list \<Rightarrow> i16 list \<Rightarrow> int list \<Rightarrow> huffmanTable \<Rightarrow> bool" where
  "table_spec nr values hc ht \<longleftrightarrow>
     length (ht_minorCode ht) = 17
     \<and> (\<forall>l. 1 \<le> l \<longrightarrow> l \<le> 16 \<longrightarrow> nr ! l \<noteq> 0 \<longrightarrow> ht_minorCode ht ! l = of_nat (first_code nr l))
     \<and> (\<forall>l j. 1 \<le> l \<longrightarrow> l \<le> 16 \<longrightarrow> j < unat (nr ! l)
           \<longrightarrow> ht_v ht (l * 256 + j) = values ! (first_value nr l + j))
     \<and> (\<forall>x. ht_v ht x \<in> insert 0 (set values))
     \<and> (\<forall>j. ht_len ht j =
           (if j = 0 then 2 else if j < 65535 then word_of_int (first_len (drop 2 hc) (int j)) else 0))"

lemma loadHuffmanTable_spec:
  assumes "table_check nr values hc"
  shows "\<exists>ht. loadHuffmanTable nr values hc empty_table = Some ht \<and> table_spec nr values hc ht"
proof -
  have c: "length nr = 17" "nr ! 0 = 0" "first_value nr 17 \<le> length values"
    "increasing_bounds (drop 2 hc)" "0 < hc ! 2"
    using assms by (auto simp: table_check_def)
  obtain v n where v: "load_values nr values (\<lambda>_. 0) = Some (v, n)" "values_inv nr values 17 0 (v, n)"
    using load_values_spec[OF c(3,2)] by (auto simp: wp_opt_iff)
  obtain minor major code where m: "load_codes nr (replicate 17 0) (replicate 17 0) = Some (minor, major, code)"
    "codes_inv nr 17 (minor, major, code)"
    using load_codes_spec[OF c(2)] by (auto simp: wp_opt_iff)
  obtain len ci where f: "load_fast hc (\<lambda>_. 0) = Some (len, ci)"
    "\<And>j. len j = (if j = 0 then 2 else if j < 65535 then word_of_int (first_len (drop 2 hc) (int j)) else 0)"
    using load_fast_spec[OF c(4,5), of "\<lambda>_. 0"] by auto
  define ht where "ht = \<lparr>ht_length = nr, ht_v = v, ht_minorCode = minor, ht_majorCode = major, ht_len = len\<rparr>"
  have "loadHuffmanTable nr values hc empty_table = Some ht"
    by (simp add: loadHuffmanTable_def empty_table_def load_lengths_spec c v m f ht_def)
  moreover have "table_spec nr values hc ht"
    using v(2) m(2) f(2) by (auto simp: table_spec_def ht_def values_inv_def codes_inv_def)
  ultimately show ?thesis by blast
qed

lemma check_std:
  "table_check stdDCLuminanceNRCodes stdDCLuminanceValues dcLuminanceHuffmanCode"
  "table_check stdACLuminanceNRCodes stdACLuminanceValues acLuminanceHuffmanCode"
  "table_check stdDCChrominanceNRCodes stdDCChrominanceValues dcChrominanceHuffmanCode"
  "table_check stdACChrominanceNRCodes stdACChrominanceValues acChrominanceHuffmanCode"
  by code_simp+

section \<open>Decoding a symbol\<close>

lemma region_len_first: "\<lbrakk>region_len hc lo hi len; lo \<le> x; x \<le> hi\<rbrakk> \<Longrightarrow> first_len hc x = len"
  by (induction hc x rule: first_len.induct) (auto split: if_splits)

lemma first_len_range: "first_len hc x \<in> insert 0 (set (odd_entries hc))"
  by (induction hc x rule: first_len.induct) auto

lemma sword_prefix:
  assumes "l \<le> m" shows "sword ws p m div 2 ^ (m - l) = sword ws p l"
proof -
  have "bit (drop_bit (m - l) (sword ws p m)) j = bit (sword ws p l) j" for j
  proof (cases "j < l")
    case True
    then have "p + m - 1 - (m - l + j) = p + l - 1 - j" "m - l + j < m" using assms by auto
    then show ?thesis using True assms by (auto simp: bit_drop_bit_eq bit_sword)
  qed (use assms in \<open>auto simp: bit_drop_bit_eq bit_sword\<close>)
  then show ?thesis by (simp add: bit_eq_iff flip: drop_bit_eq_div)
qed

lemma sword16_bound: "sword ws p 16 < 65536"
  using sword_bound[of ws p 16] by simp

lemma lookup_word:
  assumes "reader_at p rd"
  shows "uint (drop_bit 16 (reg0 rd) AND 0xFFFF) = int (sword (buf rd) p 16)"
proof -
  have "drop_bit 16 (reg0 rd) = of_nat (sword (buf rd) p 16)"
    using reader_top_bits[OF assms, of 16] by simp
  moreover have "int (sword (buf rd) p 16) AND 0xFFFF = int (sword (buf rd) p 16)"
    using take_bit_int_eq_self[of "int (sword (buf rd) p 16)" 16] sword16_bound[of "buf rd" p]
    by (simp add: take_bit_eq_mask mask_eq_exp_minus_1)
  ultimately show ?thesis
    using sword16_bound[of "buf rd" p]
    by (simp add: unsigned_and_eq unsigned_of_nat take_bit_nat_eq_self)
qed

definition wf_ht :: "huffmanTable \<Rightarrow> bool" where
  "wf_ht ht \<longleftrightarrow> length (ht_minorCode ht) = 17 \<and> (\<forall>j. unat (ht_len ht j) \<le> 16)"

lemma code_len_range:
  assumes "unat (l :: u8) \<le> 16"
  shows "1 \<le> unat (if l = 0 then 1 else l) \<and> unat (if l = 0 then 1 else l) \<le> 16"
proof (cases "l = 0")
  case False
  then have "unat l \<noteq> 0" by (simp only: unsigned_eq_0_iff not_False_eq_True)
  then have "1 \<le> unat l" by linarith
  then show ?thesis unfolding if_not_P[OF False] using assms by blast
qed simp

lemma wp_huff_symbol:
  assumes at: "reader_at p rd" and ht: "wf_ht ht"
    and Q: "\<And>s k rd'. \<lbrakk>1 \<le> k; k \<le> 16; reader_at (p + k) rd'; buf rd' = buf rd; s \<in> range (\<lambda>i. ucast (ht_v ht i))\<rbrakk>
              \<Longrightarrow> Q (s, rd')"
  shows "wp_opt (huff_symbol ht rd) Q"
proof -
  define l where "l = ht_len ht (sword (buf rd) p 16)"
  define k where "k = (if l = 0 then 1 else l)"
  have l16: "unat l \<le> 16" using ht unfolding wf_ht_def l_def by blast
  have k: "1 \<le> unat k" "unat k \<le> 16"
    using code_len_range[OF l16] unfolding k_def by blast+
  have big: "big_get (ht_len ht) (int (sword (buf rd) p 16)) = Some l"
    using sword16_bound[of "buf rd" p] by (simp add: big_get_def l_def)
  have ki: "uint k < 17" unfolding uint_nat using k(2) by linarith
  have m: "arr_get (ht_minorCode ht) (uint k) = Some (ht_minorCode ht ! nat (uint k))"
    using ht ki by (intro arr_get_in) (auto simp: wf_ht_def)
  have "uint k * 256 + uint (b :: u8) < 65536" for b
    using ki uint_lt2p[of b] unsigned_less[of b] by simp
  then have v: "big_get (ht_v ht) (uint k * 256 + uint (b :: u8)) = Some (ht_v ht (nat (uint k * 256 + uint b)))" for b
    by (simp add: big_get_def)
  show ?thesis
    unfolding huff_symbol_def lookup_word[OF at] Let_def big
    by (simp add: k_def[symmetric] wp_simps m v, rule reader.wp_skip[OF at])
       (use k Q in \<open>auto simp: wp_simps\<close>)
qed

lemma lookup_length:
  assumes chk: "table_check nr values hc" and spec: "table_spec nr values hc ht"
    and c: "canonical_code nr values l c x" and w: "w div 2 ^ (16 - l) = c"
  shows "ht_len ht w = of_nat l"
proof -
  define W where "W = (2 :: nat) ^ (16 - l)"
  define lo where "lo = first_code nr l"
  define n where "n = unat (nr ! l)"
  have l: "1 \<le> l" "l \<le> 16" and cb: "lo \<le> c" "c < lo + n"
    using c by (auto simp: canonical_code_def lo_def n_def)
  have W: "0 < W" by (simp add: W_def)
  have "c * W \<le> w" using w unfolding W_def by (metis div_times_less_eq_dividend)
  moreover have "w < (c + 1) * W" using w W dividend_less_div_times[of W w] by (simp add: W_def)
  moreover have "lo * W \<le> c * W" "(c + 1) * W \<le> (lo + n) * W" using cb by (intro mult_right_mono; simp)+
  ultimately have range: "lo * W \<le> w" "w < (lo + n) * W" by linarith+
  have "nr ! l \<noteq> 0" using cb by (auto simp: n_def)
  moreover have "region_ok nr hc l" using chk l by (auto simp: table_check_def list_all_iff)
  ultimately have r: "lo = 0 \<Longrightarrow> l = 2" "(lo + n) * W \<le> 65535"
    "region_len (drop 2 hc) (int (lo * W)) (int ((lo + n) * W) - 1) (int l)"
    by (simp_all add: region_ok_def Let_def lo_def n_def W_def)
  show ?thesis
  proof (cases "w = 0")
    case True
    then have "lo = 0" using range(1) W by simp
    then show ?thesis using r(1) spec True by (simp add: table_spec_def)
  next
    case False
    have "first_len (drop 2 hc) (int w) = int l"
      using region_len_first[OF r(3), of "int w"] range by linarith
    then show ?thesis using spec False range(2) r(2) by (simp add: table_spec_def)
  qed
qed

lemma huff_symbol_spec:
  assumes at: "reader_at p rd" and chk: "table_check nr values hc" and spec: "table_spec nr values hc ht"
    and c: "canonical_code nr values l (sword (buf rd) p l) x"
  shows "\<exists>rd'. huff_symbol ht rd = Some (ucast x, rd') \<and> reader_at (p + l) rd' \<and> buf rd' = buf rd"
proof -
  define j where "j = sword (buf rd) p l - first_code nr l"
  have l: "1 \<le> l" "l \<le> 16" and fc: "first_code nr l \<le> sword (buf rd) p l" and jn: "j < unat (nr ! l)"
    and x: "x = values ! (first_value nr l + j)"
    using c by (auto simp: canonical_code_def j_def)
  have j: "j < 256" using jn u8_bound[of "nr ! l"] by simp
  have nz: "nr ! l \<noteq> 0" using jn by auto
  have ul2: "uint (of_nat l :: u8) = int l" "unat (of_nat l :: u8) = l"
    using l by (simp_all add: unsigned_of_nat take_bit_nat_eq_self)
  have "(of_nat l :: u8) \<noteq> 0"
  proof
    assume "(of_nat l :: u8) = 0"
    then have "unat (of_nat l :: u8) = 0" by (simp only: unsigned_0)
    then show False using ul2(2) l by simp
  qed
  note ul = ul2 this
  have "big_get (ht_len ht) (int (sword (buf rd) p 16)) = Some (of_nat l)"
    using lookup_length[OF chk spec c sword_prefix[OF l(2)]] sword16_bound[of "buf rd" p]
    by (simp add: big_get_def)
  moreover have "arr_get (ht_minorCode ht) (int l) = Some (of_nat (first_code nr l))"
    using spec l nz by (simp add: table_spec_def)
  moreover have "lookKbits l rd - of_nat (first_code nr l) = of_nat j"
    using reader_look[OF at l(2)] fc by (simp add: j_def)
  moreover have "uint (ucast (of_nat j :: i16) :: u8) = int j"
    using j by (simp add: unsigned_of_nat unsigned_ucast_eq take_bit_nat_eq_self)
  moreover have "big_get (ht_v ht) (int l * 256 + int j) = Some x"
    using spec l jn j by (simp add: table_spec_def big_get_def x nat_add_distrib nat_mult_distrib)
  moreover obtain rd' where "skipKbits l rd = Some rd'" "reader_at (p + l) rd'" "buf rd' = buf rd"
    using reader_skip[OF at, of l] l by auto
  ultimately show ?thesis
    by (simp add: huff_symbol_def lookup_word[OF at] Let_def ul)
qed

lemma table_spec_wf: "\<lbrakk>table_check nr values hc; table_spec nr values hc ht\<rbrakk> \<Longrightarrow> wf_ht ht"
proof -
  assume chk: "table_check nr values hc" and spec: "table_spec nr values hc ht"
  have "unat (word_of_int (first_len (drop 2 hc) i) :: u8) \<le> 16" for i
  proof -
    have "0 \<le> first_len (drop 2 hc) i \<and> first_len (drop 2 hc) i \<le> 16"
      using first_len_range[of "drop 2 hc" i] chk by (auto simp: table_check_def list_all_iff)
    then show ?thesis by (simp add: unsigned_of_int take_bit_int_eq_self nat_le_iff)
  qed
  then show ?thesis using spec by (auto simp: wf_ht_def table_spec_def)
qed

section \<open>The decoder's tables\<close>

lemma wf_empty_table: "wf_ht empty_table"
  by (simp add: wf_ht_def empty_table_def)

lemma dc_values_small:
  "list_all (\<lambda>x. unat (ucast x :: u8) \<le> 11) stdDCLuminanceValues"
  "list_all (\<lambda>x. unat (ucast x :: u8) \<le> 11) stdDCChrominanceValues"
  by (simp_all add: stdDCLuminanceValues_def stdDCChrominanceValues_def)

text \<open>What the coefficient decoder needs: well-formed tables, and DC categories of at most 11.\<close>

definition wf_tables :: "huffmanTable list \<times> huffmanTable list \<Rightarrow> bool" where
  "wf_tables = (\<lambda>(dcs, acs). length dcs = 4 \<and> length acs = 4
     \<and> list_all wf_ht dcs \<and> list_all wf_ht acs
     \<and> list_all (\<lambda>ht. \<forall>i. unat (ucast (ht_v ht i) :: u8) \<le> 11) dcs)"

lemma small_values:
  "\<lbrakk>table_spec nr values hc ht; list_all (\<lambda>x. unat (ucast x :: u8) \<le> 11) values\<rbrakk>
     \<Longrightarrow> unat (ucast (ht_v ht i) :: u8) \<le> 11"
  by (auto simp: table_spec_def list_all_iff dest!: spec[of _ i])

lemma initHuffmanTables_wf: "\<exists>ts. initHuffmanTables = Some ts \<and> wf_tables ts"
proof -
  obtain dc0 where dc0: "loadHuffmanTable stdDCLuminanceNRCodes stdDCLuminanceValues dcLuminanceHuffmanCode empty_table = Some dc0"
    "table_spec stdDCLuminanceNRCodes stdDCLuminanceValues dcLuminanceHuffmanCode dc0"
    using loadHuffmanTable_spec[OF check_std(1)] by blast
  obtain ac0 where ac0: "loadHuffmanTable stdACLuminanceNRCodes stdACLuminanceValues acLuminanceHuffmanCode empty_table = Some ac0"
    "table_spec stdACLuminanceNRCodes stdACLuminanceValues acLuminanceHuffmanCode ac0"
    using loadHuffmanTable_spec[OF check_std(2)] by blast
  obtain dc1 where dc1: "loadHuffmanTable stdDCChrominanceNRCodes stdDCChrominanceValues dcChrominanceHuffmanCode empty_table = Some dc1"
    "table_spec stdDCChrominanceNRCodes stdDCChrominanceValues dcChrominanceHuffmanCode dc1"
    using loadHuffmanTable_spec[OF check_std(3)] by blast
  obtain ac1 where ac1: "loadHuffmanTable stdACChrominanceNRCodes stdACChrominanceValues acChrominanceHuffmanCode empty_table = Some ac1"
    "table_spec stdACChrominanceNRCodes stdACChrominanceValues acChrominanceHuffmanCode ac1"
    using loadHuffmanTable_spec[OF check_std(4)] by blast
  have "unat (ucast (ht_v empty_table i) :: u8) \<le> 11" for i by (simp add: empty_table_def)
  then show ?thesis
    by (simp add: initHuffmanTables_def dc0(1) dc1(1) ac0(1) ac1(1) wf_tables_def wf_empty_table
        table_spec_wf[OF check_std(1) dc0(2)] table_spec_wf[OF check_std(2) ac0(2)]
        table_spec_wf[OF check_std(3) dc1(2)] table_spec_wf[OF check_std(4) ac1(2)]
        small_values[OF dc0(2) dc_values_small(1)] small_values[OF dc1(2) dc_values_small(2)])
qed

section \<open>Properties\<close>

text \<open>The four tables of the decoder.\<close>

definition std_tables :: "(u8 list \<times> i16 list \<times> int list) list" where
  "std_tables =
     [(stdDCLuminanceNRCodes, stdDCLuminanceValues, dcLuminanceHuffmanCode),
      (stdACLuminanceNRCodes, stdACLuminanceValues, acLuminanceHuffmanCode),
      (stdDCChrominanceNRCodes, stdDCChrominanceValues, dcChrominanceHuffmanCode),
      (stdACChrominanceNRCodes, stdACChrominanceValues, acChrominanceHuffmanCode)]"

text \<open>C23: with each of the four standard tables, the fast symbol decoder decodes the canonical
  JPEG Huffman code: when the stream continues with a code word of the table, the step
  returns its symbol and consumes exactly the bits of that code word.\<close>

theorem huffman_decodes_canonical:
  assumes "(nr, values, hc) \<in> set std_tables" and "loadHuffmanTable nr values hc empty_table = Some ht"
    and "reader_at p rd" and "canonical_code nr values l (sword (buf rd) p l) x"
  shows "\<exists>rd'. huff_symbol ht rd = Some (ucast x, rd') \<and> reader_at (p + l) rd' \<and> buf rd' = buf rd"
proof -
  have "table_check nr values hc" using assms(1) check_std by (auto simp: std_tables_def)
  moreover from loadHuffmanTable_spec[OF this] assms(2) have "table_spec nr values hc ht" by simp
  ultimately show ?thesis using huff_symbol_spec assms(3,4) by blast
qed

text \<open>The stream starts with \<open>1010\<close>, the end-of-block code of the luminance AC table.\<close>

theorem huffman_decodes_canonical_witness:
  "\<exists>ht rd'. huff_symbol ht (init_reader [0xA0000000, 0, 0]) = Some (ucast (0 :: i16), rd') \<and> reader_at 4 rd'"
proof -
  obtain ht where ht: "loadHuffmanTable stdACLuminanceNRCodes stdACLuminanceValues acLuminanceHuffmanCode empty_table = Some ht"
    using loadHuffmanTable_spec[OF check_std(2)] by blast
  have s: "sword (buf (init_reader [0xA0000000, 0, 0])) 0 4 = 10" by code_simp
  have c: "canonical_code stdACLuminanceNRCodes stdACLuminanceValues 4 10 0" by code_simp
  have "(stdACLuminanceNRCodes, stdACLuminanceValues, acLuminanceHuffmanCode) \<in> set std_tables"
    by (simp add: std_tables_def)
  from huffman_decodes_canonical[OF this ht reader_init, of "[0xA0000000, 0, 0]" 4 0]
  show ?thesis using s c by auto
qed

end
