(* ===== verification/Quant.thy ===== *)
theory Quant
  imports Tables
begin

text \<open>
  Quantisation tables: the first half of \<open>src/internal/ikvm/decompress.go\<close>
  (\<open>setQuantizationTable\<close>, \<open>buildQT\<close>, the table selection).

  \<open>buildQT\<close> computes with \<open>float32\<close>. The scale factors are the exact values of the \<open>float32\<close>
  constants in units of \<open>2^-25\<close>, and a product is rounded to 24 significant bits, ties to even,
  as IEEE 754 prescribes; the model is exact, not an approximation.
\<close>

section \<open>Arithmetic\<close>

text \<open>Go's integer division truncates towards zero.\<close>

definition go_div :: "int \<Rightarrow> int \<Rightarrow> int" where
  "go_div a b = sgn a * sgn b * (\<bar>a\<bar> div \<bar>b\<bar>)"

fun bit_length :: "nat \<Rightarrow> nat" where
  "bit_length n = (if n = 0 then 0 else Suc (bit_length (n div 2)))"

declare bit_length.simps [simp del]

text \<open>Rounding a non-negative integer to 24 significant bits, ties to even.\<close>

definition round24 :: "nat \<Rightarrow> nat" where
  "round24 x =
     (let b = bit_length x in
      if b \<le> 24 then x
      else (let s = 2 ^ (b - 24); q = x div s; r = x mod s
            in if s < 2 * r \<or> (s = 2 * r \<and> odd q) then (q + 1) * s else q * s))"

text \<open>\<open>aanScales\<close> in units of \<open>2^-25\<close>.\<close>

definition aanScales :: "nat list" where
  "aanScales = [33554432, 46541336, 43840980, 39455836, 33554432, 26363548, 18159528, 9257647]"

section \<open>Operations\<close>

definition setQuantizationTable :: "u8 list \<Rightarrow> int \<Rightarrow> u8 list option" where
  "setQuantizationTable srcTable scaleFactor =
     foldM (\<lambda>i out. do {
         s \<leftarrow> arr_get srcTable (int i);
         v \<leftarrow> (if scaleFactor = 0 then None else Some (go_div (sint s * 16) scaleFactor));
         let v = (if v \<le> 0 then 1 else v);
         let v = (if v > 255 then 255 else v);
         z \<leftarrow> arr_get zigzag (int i);
         arr_set out z (word_of_int v)
       }) [0..<64] (replicate 64 0)"

text \<open>\<open>int(float32(qt[n]) * (aanScales[row] * aanScales[col]))\<close>; both products are rounded.\<close>

definition scale_coeff :: "nat \<Rightarrow> nat \<Rightarrow> nat \<Rightarrow> nat" where
  "scale_coeff q row col = round24 (q * round24 (aanScales ! row * aanScales ! col)) div 2 ^ 50"

definition buildQT :: "int list \<Rightarrow> u8 list \<Rightarrow> int \<Rightarrow> int list option" where
  "buildQT qt0 table scaleFactor = do {
     scaled \<leftarrow> setQuantizationTable table scaleFactor;
     qt1 \<leftarrow> foldM (\<lambda>i qt. do {
         z \<leftarrow> arr_get zigzag (int i);
         s \<leftarrow> arr_get scaled z;
         arr_set qt (int i) (uint s)
       }) [0..<64] qt0;
     foldM (\<lambda>n qt. do {
         q \<leftarrow> arr_get qt (int n);
         arr_set qt (int n) (int (scale_coeff (nat q) (n div 8) (n mod 8)) * 65536)
       }) [0..<64] qt1
   }"

definition selectLuminanceTable :: "int \<Rightarrow> u8 list" where
  "selectLuminanceTable sel =
     (if sel = 0 then tbl000Y else if sel = 1 then tbl014Y else if sel = 2 then tbl029Y
      else if sel = 3 then tbl043Y else if sel = 4 then tbl057Y else if sel = 5 then tbl071Y
      else if sel = 6 then tbl086Y else if sel = 7 then tbl100Y else tbl000Y)"

definition selectChrominanceTable :: "int \<Rightarrow> int \<Rightarrow> u8 list" where
  "selectChrominanceTable sel mapping =
     (if mapping = 1 then selectLuminanceTable sel
      else if sel = 0 then tbl000UV else if sel = 1 then tbl014UV else if sel = 2 then tbl029UV
      else if sel = 3 then tbl043UV else if sel = 4 then tbl057UV else if sel = 5 then tbl071UV
      else if sel = 6 then tbl086UV else if sel = 7 then tbl100UV else tbl000UV)"

section \<open>Specification\<close>

text \<open>One entry of the table as the code means it: the signed byte, at least 1 and at most 255.\<close>

definition quant_entry :: "u8 \<Rightarrow> int \<Rightarrow> int" where
  "quant_entry s scaleFactor = min 255 (max 1 (go_div (sint s * 16) scaleFactor))"

section \<open>Lemmas\<close>

lemma round24_bound: "round24 x \<le> 2 * x"
proof -
  define s where "s = (2 :: nat) ^ (bit_length x - 24)"
  define q where "q = x div s * s"
  have x: "q + x mod s = x" by (simp add: q_def)
  have "(x div s + 1) * s = q + s" by (simp add: q_def)
  then have "round24 x \<in> {x, q} \<or> round24 x = q + s \<and> s \<le> 2 * (x mod s)"
    by (auto simp: round24_def Let_def s_def[symmetric] q_def)
  then show ?thesis using x by auto
qed

lemma length_aanScales [simp]: "length aanScales = 8"
  by (simp add: aanScales_def)

lemma aanScales_bound: "i < 8 \<Longrightarrow> aanScales ! i \<le> 2 ^ 26"
proof -
  have "list_all (\<lambda>a. a \<le> 2 ^ 26) aanScales" by (simp add: aanScales_def)
  then show "i < 8 \<Longrightarrow> aanScales ! i \<le> 2 ^ 26" by (simp add: list_all_length)
qed

lemma scale_coeff_bound:
  assumes "q \<le> 255" "row < 8" "col < 8"
  shows "scale_coeff q row col \<le> 4080"
proof -
  have "aanScales ! row * aanScales ! col \<le> 2 ^ 26 * 2 ^ 26"
    using assms by (intro mult_mono aanScales_bound) auto
  then have "round24 (aanScales ! row * aanScales ! col) \<le> 2 ^ 53"
    using round24_bound[of "aanScales ! row * aanScales ! col"] by simp
  then have "q * round24 (aanScales ! row * aanScales ! col) \<le> 255 * 2 ^ 53"
    using assms(1) by (intro mult_mono) auto
  then have "round24 (q * round24 (aanScales ! row * aanScales ! col)) \<le> 4080 * 2 ^ 50"
    using round24_bound[of "q * round24 (aanScales ! row * aanScales ! col)"] by simp
  then show ?thesis
    unfolding scale_coeff_def using div_le_mono[of _ "4080 * 2 ^ 50" "2 ^ 50"] by fastforce
qed

lemma quant_entry_range: "1 \<le> quant_entry s f \<and> quant_entry s f \<le> 255"
  by (simp add: quant_entry_def)

lemma clamp_quant:
  "(if 255 < (if v \<le> 0 then 1 else v) then 255 else if v \<le> 0 then 1 else v) = min 255 (max 1 (v :: int))"
  by simp

lemma zigzag_nat: "i < 64 \<Longrightarrow> arr_get zigzag (int i) = Some (zigzag ! i) \<and> 0 \<le> zigzag ! i \<and> zigzag ! i < 64"
  using scan_nth_range(1)[of i] by simp

lemma zigzag_inj: "\<lbrakk>i < 64; j < 64; nat (zigzag ! i) = nat (zigzag ! j)\<rbrakk> \<Longrightarrow> i = j"
  using distinct_zigzag scan_nth_range(1)[of i] scan_nth_range(1)[of j]
  by (metis eq_nat_nat_iff length_scan(1) nth_eq_iff_index_eq)

text \<open>The scatter of \<open>setQuantizationTable\<close> through \<open>zigzag\<close>.\<close>

lemma setQuantizationTable_spec:
  assumes "64 \<le> length src" "f \<noteq> 0"
  shows "wp_opt (setQuantizationTable src f)
    (\<lambda>out. length out = 64 \<and> (\<forall>t<64. out ! nat (zigzag ! t) = word_of_int (quant_entry (src ! t) f)))"
  unfolding setQuantizationTable_def
proof (rule wp_foldM_upt[where I = "\<lambda>i out. length out = 64
    \<and> (\<forall>t<i. out ! nat (zigzag ! t) = word_of_int (quant_entry (src ! t) f))"])
  fix i and out :: "u8 list"
  assume i: "0 \<le> i" "i < (64 :: nat)"
    and inv: "length out = 64 \<and> (\<forall>t<i. out ! nat (zigzag ! t) = word_of_int (quant_entry (src ! t) f))"
  have z: "arr_get zigzag (int i) = Some (zigzag ! i)" "0 \<le> zigzag ! i" "zigzag ! i < 64"
    using zigzag_nat[OF i(2)] by auto
  have ne: "nat (zigzag ! t) \<noteq> nat (zigzag ! i)" if "t < i" for t
    using zigzag_inj[of t i] that i by auto
  show "wp_opt (do {
         s \<leftarrow> arr_get src (int i);
         v \<leftarrow> (if f = 0 then None else Some (go_div (sint s * 16) f));
         let v = (if v \<le> 0 then 1 else v);
         let v = (if v > 255 then 255 else v);
         z \<leftarrow> arr_get zigzag (int i);
         arr_set out z (word_of_int v)
       }) (\<lambda>out. length out = 64
         \<and> (\<forall>t<Suc i. out ! nat (zigzag ! t) = word_of_int (quant_entry (src ! t) f)))"
    unfolding Let_def clamp_quant
    using assms i inv z ne ne[symmetric]
    by (auto simp: wp_simps less_Suc_eq nth_list_update quant_entry_def)
qed auto

text \<open>\<open>buildQT\<close> gathers through the same permutation, so entry \<open>n\<close> comes from entry \<open>n\<close> of the source.\<close>

definition qt_spec :: "u8 list \<Rightarrow> int \<Rightarrow> int list \<Rightarrow> bool" where
  "qt_spec table f qt \<longleftrightarrow> length qt = 64
     \<and> (\<forall>n<64. qt ! n = int (scale_coeff (nat (quant_entry (table ! n) f)) (n div 8) (n mod 8)) * 65536)"

lemma buildQT_spec:
  assumes "64 \<le> length table" "f \<noteq> 0" "length qt0 = 64"
  shows "wp_opt (buildQT qt0 table f) (qt_spec table f)"
  unfolding buildQT_def wp_opt_bind
proof (rule wp_opt_mono[OF setQuantizationTable_spec[OF assms(1,2)]])
  fix scaled :: "u8 list"
  assume sc: "length scaled = 64
    \<and> (\<forall>t<64. scaled ! nat (zigzag ! t) = word_of_int (quant_entry (table ! t) f))"
  have gather: "wp_opt (foldM (\<lambda>i qt. do {
         z \<leftarrow> arr_get zigzag (int i);
         s \<leftarrow> arr_get scaled z;
         arr_set qt (int i) (uint s)
       }) [0..<64] qt0) (\<lambda>qt. length qt = 64 \<and> (\<forall>t<64. qt ! t = quant_entry (table ! t) f))"
  proof (rule wp_foldM_upt[where I = "\<lambda>i qt. length qt = 64 \<and> (\<forall>t<i. qt ! t = quant_entry (table ! t) f)"])
    fix i and qt :: "int list"
    assume i: "0 \<le> i" "i < (64 :: nat)"
      and inv: "length qt = 64 \<and> (\<forall>t<i. qt ! t = quant_entry (table ! t) f)"
    have "uint (word_of_int (quant_entry (table ! i) f) :: u8) = quant_entry (table ! i) f"
      using quant_entry_range[of "table ! i" f] by (simp add: uint_word_of_int)
    then show "wp_opt (do { z \<leftarrow> arr_get zigzag (int i); s \<leftarrow> arr_get scaled z; arr_set qt (int i) (uint s) })
        (\<lambda>qt. length qt = 64 \<and> (\<forall>t<Suc i. qt ! t = quant_entry (table ! t) f))"
      using i inv sc zigzag_nat[OF i(2)] by (auto simp: wp_simps less_Suc_eq nth_list_update)
  qed (use assms in auto)
  show "wp_opt (foldM (\<lambda>i qt. do {
         z \<leftarrow> arr_get zigzag (int i);
         s \<leftarrow> arr_get scaled z;
         arr_set qt (int i) (uint s)
       }) [0..<64] qt0) (\<lambda>qt1. wp_opt (foldM (\<lambda>n qt. do {
         q \<leftarrow> arr_get qt (int n);
         arr_set qt (int n) (int (scale_coeff (nat q) (n div 8) (n mod 8)) * 65536)
       }) [0..<64] qt1) (qt_spec table f))"
  proof (rule wp_opt_mono[OF gather])
    fix qt1 :: "int list"
    assume q1: "length qt1 = 64 \<and> (\<forall>t<64. qt1 ! t = quant_entry (table ! t) f)"
    let ?sc = "\<lambda>t. int (scale_coeff (nat (quant_entry (table ! t) f)) (t div 8) (t mod 8)) * 65536"
    have "wp_opt (foldM (\<lambda>n qt. do {
         q \<leftarrow> arr_get qt (int n);
         arr_set qt (int n) (int (scale_coeff (nat q) (n div 8) (n mod 8)) * 65536)
       }) [0..<64] qt1) (\<lambda>qt. length qt = 64
         \<and> (\<forall>t<64. qt ! t = (if t < 64 then ?sc t else quant_entry (table ! t) f)))"
      by (rule wp_foldM_upt[where I = "\<lambda>i qt. length qt = 64
            \<and> (\<forall>t<64. qt ! t = (if t < i then ?sc t else quant_entry (table ! t) f))"])
         (use q1 in \<open>auto simp: wp_simps nth_list_update\<close>)
    then show "wp_opt (foldM (\<lambda>n qt. do {
         q \<leftarrow> arr_get qt (int n);
         arr_set qt (int n) (int (scale_coeff (nat q) (n div 8) (n mod 8)) * 65536)
       }) [0..<64] qt1) (qt_spec table f)"
      by (rule wp_opt_mono) (auto simp: qt_spec_def)
  qed
qed

lemma qt_spec_bound: "\<lbrakk>qt_spec table f qt; n < 64\<rbrakk> \<Longrightarrow> 0 \<le> qt ! n \<and> qt ! n \<le> 4080 * 65536"
proof -
  assume qt: "qt_spec table f qt" and n: "n < 64"
  have "scale_coeff (nat (quant_entry (table ! n) f)) (n div 8) (n mod 8) \<le> 4080"
    using quant_entry_range[of "table ! n" f] n by (intro scale_coeff_bound) auto
  then show ?thesis using qt n by (simp add: qt_spec_def)
qed

lemma length_select [simp]: "length (selectLuminanceTable sel) = 64" "length (selectChrominanceTable sel m) = 64"
  by (simp_all add: selectLuminanceTable_def selectChrominanceTable_def)

section \<open>Properties\<close>

text \<open>With every table the header can select, \<open>buildQT\<close> succeeds and gives 64 entries, each a multiple of
  65536 between 0 and \<open>4080 * 65536\<close>, so that the product with a coefficient stays far below the
  range of an \<open>int64\<close>; entry \<open>n\<close> is the scaled entry \<open>n\<close> of the selected table, as scattering and
  gathering through \<open>zigzag\<close> cancel.\<close>

theorem buildQT_correct:
  assumes "table = selectLuminanceTable sel \<or> table = selectChrominanceTable sel mapping"
    and "length qt0 = 64"
  shows "\<exists>qt. buildQT qt0 table 16 = Some qt \<and> length qt = 64
    \<and> (\<forall>n<64. qt ! n = int (scale_coeff (nat (quant_entry (table ! n) 16)) (n div 8) (n mod 8)) * 65536
             \<and> 0 \<le> qt ! n \<and> qt ! n \<le> 4080 * 65536)"
proof -
  have "64 \<le> length table" using assms(1) by auto
  then obtain qt where "buildQT qt0 table 16 = Some qt" "qt_spec table 16 qt"
    using buildQT_spec[of table 16 qt0] assms(2) by (auto simp: wp_opt_iff)
  then show ?thesis
    using qt_spec_bound[of table 16 qt] by (intro exI[of _ qt]) (auto simp: qt_spec_def)
qed

theorem buildQT_correct_witness:
  "\<exists>qt. buildQT (replicate 64 0) (selectChrominanceTable 3 0) 16 = Some qt \<and> length qt = 64"
  using buildQT_correct[of "selectChrominanceTable 3 0" 3 0 "replicate 64 0"] by auto

end
