(* ===== verification/Idct.thy ===== *)
theory Idct
  imports Prelude "HOL-Library.Code_Target_Nat"
begin

text \<open>
  The arithmetic of the picture: the clamping table and the colour tables of
  \<open>src/internal/ikvm/decoder.go\<close> (\<open>initRangeLimitTable\<close>, \<open>initColorTable\<close>), and from
  \<open>decompress.go\<close> the inverse DCT and the conversion of one sample triple to a pixel.
\<close>

section \<open>Tables\<close>

text \<open>The five loops of \<open>initRangeLimitTable\<close> fill five ranges of the table.\<close>

definition initRangeLimitTable :: "i16 list" where
  "initRangeLimitTable =
     map (\<lambda>i. if i < 256 then 0 else if i < 512 then of_nat (i - 256) else if i < 895 then 255
              else if i < 1280 then 0 else of_nat i AND 0xFF) [0..<1408]"

text \<open>\<open>fixG(v) = int(v*65536.0 + 0.5)\<close> for a constant \<open>v\<close> given in millionths.\<close>

definition fixG :: "int \<Rightarrow> int" where
  "fixG v = (v * 65536 + 500000) div 1000000"

definition color_entry :: "int \<Rightarrow> int \<Rightarrow> int" where
  "color_entry c x = drop_bit 16 (c * x + 32768)"

definition crToR_table :: "int list" where
  "crToR_table = map (\<lambda>i. color_entry (fixG 1597656) (int i - 128)) [0..<256]"

definition cbToB_table :: "int list" where
  "cbToB_table = map (\<lambda>i. color_entry (fixG 2015625) (int i - 128)) [0..<256]"

definition crToG_table :: "int list" where
  "crToG_table = map (\<lambda>i. color_entry (- fixG 812500) (int i - 128)) [0..<256]"

definition cbToG_table :: "int list" where
  "cbToG_table = map (\<lambda>i. color_entry (- fixG 390625) (int i - 128)) [0..<256]"

definition yTable_table :: "int list" where
  "yTable_table = map (\<lambda>i. color_entry (fixG 1164000) (int i - 16)) [0..<256]"

section \<open>One pixel\<close>

definition clamp255 :: "int \<Rightarrow> int" where
  "clamp255 v = (if v < 0 then 0 else if v > 255 then 255 else v)"

text \<open>\<open>if b >= 0 { b += 256 } else { b = 0 }\<close>, then \<open>byte(d.rangeLimit[b])\<close>.\<close>

definition limit_channel :: "i16 list \<Rightarrow> int \<Rightarrow> u8 option" where
  "limit_channel rangeLimit b =
     map_option (\<lambda>x. ucast x) (arr_get rangeLimit (if b \<ge> 0 then b + 256 else 0))"

record color_tables =
  yTable :: "int list"
  crToR :: "int list"
  cbToB :: "int list"
  crToG :: "int list"
  cbToG :: "int list"
  rangeLimit :: "i16 list"

definition initColorTable :: color_tables where
  "initColorTable = \<lparr>yTable = yTable_table, crToR = crToR_table, cbToB = cbToB_table,
     crToG = crToG_table, cbToG = cbToG_table, rangeLimit = initRangeLimitTable\<rparr>"

text \<open>The pixel computation that the three conversion loops of \<open>decompress.go\<close> share: clamp the
  samples, look the colours up, clamp the channels; blue, green, red, alpha.\<close>

definition yuv_pixel :: "color_tables \<Rightarrow> int \<Rightarrow> int \<Rightarrow> int \<Rightarrow> u8 list option" where
  "yuv_pixel ct yVal cbVal crVal = do {
     y \<leftarrow> arr_get (yTable ct) (clamp255 yVal);
     cbB \<leftarrow> arr_get (cbToB ct) (clamp255 cbVal);
     cbG \<leftarrow> arr_get (cbToG ct) (clamp255 cbVal);
     crG \<leftarrow> arr_get (crToG ct) (clamp255 crVal);
     crR \<leftarrow> arr_get (crToR ct) (clamp255 crVal);
     b \<leftarrow> limit_channel (rangeLimit ct) (y + cbB);
     g \<leftarrow> limit_channel (rangeLimit ct) (y + cbG + crG);
     r \<leftarrow> limit_channel (rangeLimit ct) (y + crR);
     Some [b, g, r, 255]
   }"

section \<open>The inverse DCT\<close>

definition fix1_082392200 :: int where "fix1_082392200 = 277"
definition fix1_414213562 :: int where "fix1_414213562 = 362"
definition fix1_847759065 :: int where "fix1_847759065 = 473"
definition fix2_613125930 :: int where "fix2_613125930 = 669"

definition idctMultiply :: "int \<Rightarrow> int \<Rightarrow> int" where
  "idctMultiply a b = drop_bit 8 (a * b)"

text \<open>The butterfly of eight values: the column pass applies it to dequantised coefficients, the row
  pass to a row of the workspace. The result lists positions 0 to 7.\<close>

definition idct8 :: "int \<Rightarrow> int \<Rightarrow> int \<Rightarrow> int \<Rightarrow> int \<Rightarrow> int \<Rightarrow> int \<Rightarrow> int \<Rightarrow> int list" where
  "idct8 i0 i1 i2 i3 i4 i5 i6 i7 =
     (let tmp10 = i0 + i4;
          tmp11 = i0 - i4;
          tmp12 = i2 + i6;
          tmp13 = idctMultiply (i2 - i6) fix1_414213562 - tmp12;
          tmp0 = tmp10 + tmp12;
          tmp3 = tmp10 - tmp12;
          tmp1 = tmp11 + tmp13;
          tmp2 = tmp11 - tmp13;
          z13 = i5 + i3;
          z10 = i5 - i3;
          z11 = i1 + i7;
          z12 = i1 - i7;
          tmp7 = z11 + z13;
          tmp11 = idctMultiply (z11 - z13) fix1_414213562;
          z5 = idctMultiply (z10 + z12) fix1_847759065;
          tmp10 = idctMultiply z12 fix1_082392200 - z5;
          tmp12 = idctMultiply z10 (- fix2_613125930) + z5;
          tmp6 = tmp12 - tmp7;
          tmp5 = tmp11 - tmp6;
          tmp4 = tmp10 + tmp5
      in [tmp0 + tmp7, tmp1 + tmp6, tmp2 + tmp5, tmp3 - tmp4,
          tmp3 + tmp4, tmp2 - tmp5, tmp1 - tmp6, tmp0 - tmp7])"

text \<open>Reading and writing eight entries with a stride.\<close>

definition get8 :: "int list \<Rightarrow> int \<Rightarrow> int \<Rightarrow> int list option" where
  "get8 xs base stride = do {
     a0 \<leftarrow> arr_get xs base;
     a1 \<leftarrow> arr_get xs (base + stride);
     a2 \<leftarrow> arr_get xs (base + 2 * stride);
     a3 \<leftarrow> arr_get xs (base + 3 * stride);
     a4 \<leftarrow> arr_get xs (base + 4 * stride);
     a5 \<leftarrow> arr_get xs (base + 5 * stride);
     a6 \<leftarrow> arr_get xs (base + 6 * stride);
     a7 \<leftarrow> arr_get xs (base + 7 * stride);
     Some [a0, a1, a2, a3, a4, a5, a6, a7]
   }"

definition set8 :: "int list \<Rightarrow> int \<Rightarrow> int \<Rightarrow> int list \<Rightarrow> int list option" where
  "set8 xs base stride vs = foldM (\<lambda>k xs. arr_set xs (base + int k * stride) (vs ! k)) [0..<8] xs"

definition idct_column :: "int list \<Rightarrow> int list \<Rightarrow> int \<Rightarrow> nat \<Rightarrow> int list \<Rightarrow> int list option" where
  "idct_column dctCoeff qtab offset col workspace = do {
     c \<leftarrow> get8 dctCoeff (offset + int col) 8;
     q \<leftarrow> get8 qtab (int col) 8;
     if (c ! 1 OR c ! 2 OR c ! 3 OR c ! 4 OR c ! 5 OR c ! 6 OR c ! 7) = 0
     then (let dc = drop_bit 16 (c ! 0 * q ! 0) in set8 workspace (int col) 8 (replicate 8 dc))
     else (let t = (\<lambda>k. drop_bit 16 (c ! k * q ! k))
           in set8 workspace (int col) 8 (idct8 (t 0) (t 1) (t 2) (t 3) (t 4) (t 5) (t 6) (t 7)))
   }"

text \<open>\<open>val := 128 + (x >> 3 & 0x3FF)\<close>, then \<open>rangeLimit[val+256]\<close>.\<close>

definition idct_sample :: "i16 list \<Rightarrow> int \<Rightarrow> int option" where
  "idct_sample rl x = map_option sint (arr_get rl (128 + (drop_bit 3 x AND 0x3FF) + 256))"

definition idct_row :: "i16 list \<Rightarrow> int list \<Rightarrow> int \<Rightarrow> nat \<Rightarrow> int list \<Rightarrow> int list option" where
  "idct_row rl workspace offset row yuvTile = do {
     w \<leftarrow> get8 workspace (int row * 8) 1;
     let o8 = idct8 (w ! 0) (w ! 1) (w ! 2) (w ! 3) (w ! 4) (w ! 5) (w ! 6) (w ! 7);
     foldM (\<lambda>k tile. do {
         s \<leftarrow> idct_sample rl (o8 ! k);
         arr_set tile (offset + int row * 8 + int k) s
       }) [0..<8] yuvTile
   }"

text \<open>\<open>inverseDCT(offset, qtIdx)\<close> on the arrays it touches.\<close>

definition inverse_dct ::
  "i16 list \<Rightarrow> int list \<Rightarrow> int list \<Rightarrow> int \<Rightarrow> int list \<Rightarrow> int list \<Rightarrow> (int list \<times> int list) option" where
  "inverse_dct rl dctCoeff qtab offset workspace yuvTile = do {
     ws \<leftarrow> foldM (idct_column dctCoeff qtab offset) [0..<8] workspace;
     yt \<leftarrow> foldM (idct_row rl ws offset) [0..<8] yuvTile;
     Some (ws, yt)
   }"

section \<open>The clamping table\<close>

lemma length_rangeLimit [simp]: "length initRangeLimitTable = 1408"
  by (simp add: initRangeLimitTable_def)

lemma rangeLimit_nth:
  assumes "i < 1408"
  shows "initRangeLimitTable ! i =
    (if i < 256 then 0 else if i < 512 then of_nat (i - 256) else if i < 895 then 255
     else if i < 1280 then 0 else of_nat i AND 0xFF)"
  using assms by (simp add: initRangeLimitTable_def)

lemma and_FF: "1280 \<le> i \<Longrightarrow> i < 1408 \<Longrightarrow> (of_nat i AND 0xFF :: i16) = of_nat (i - 1280)"
proof -
  assume i: "1280 \<le> i" "i < 1408"
  have "i mod 256 = i - 1280"
  proof -
    have "i = i - 1280 + 5 * 256" using i by simp
    then have "i mod 256 = (i - 1280) mod 256" by (metis mod_mult_self1)
    then show ?thesis using i by simp
  qed
  moreover have "(of_nat i AND 0xFF :: i16) = of_nat (i mod 256)"
    using take_bit_eq_mask[of 8 "of_nat i :: i16"] take_bit_of_nat[of 8 i, where 'a = "16 word"]
    by (simp add: take_bit_eq_mod mask_eq_exp_minus_1)
  ultimately show ?thesis by simp
qed

text \<open>The table as a function of the signed index the two users form.\<close>

lemma rangeLimit_channel:
  assumes "b \<le> 638"
  shows "limit_channel initRangeLimitTable b = Some (word_of_int (clamp255 b))"
proof (cases "b < 0")
  case False
  then have i: "nat (b + 256) < 1408" "nat (b + 256) = nat b + 256" using assms by auto
  have "initRangeLimitTable ! nat (b + 256) = (if b < 256 then of_nat (nat b) else 255)"
    unfolding rangeLimit_nth[OF i(1)] using i(2) False assms by auto
  moreover have "(ucast (of_nat (nat b) :: i16) :: u8) = word_of_int b" if "b < 256"
    using that False by (simp add: unsigned_of_int take_bit_int_eq_self)
  ultimately show ?thesis using False assms by (auto simp: limit_channel_def arr_get_def clamp255_def)
qed (simp add: limit_channel_def arr_get_def clamp255_def rangeLimit_nth)

lemma sint_of_nat_small: "n < 32768 \<Longrightarrow> sint (of_nat n :: i16) = int n"
  by (simp add: signed_of_nat signed_take_bit_int_eq_self)

lemma and_3FF: "x AND 0x3FF = x mod (1024 :: int)"
  using take_bit_eq_mask[of 10 x] by (simp add: take_bit_eq_mod mask_eq_exp_minus_1)

lemma idct_sample_index: "0 \<le> drop_bit 3 x AND 0x3FF \<and> drop_bit 3 x AND 0x3FF < (1024 :: int)"
  by (simp add: and_3FF)

lemma idct_sample_range: "\<exists>v. idct_sample initRangeLimitTable x = Some v \<and> 0 \<le> v \<and> v \<le> 255"
proof -
  define i where "i = 384 + nat (drop_bit 3 x AND 0x3FF)"
  have i: "i < 1408" "128 + (drop_bit 3 x AND 0x3FF) + 256 = int i"
    using idct_sample_index[of x] by (auto simp: i_def nat_less_iff)
  have "initRangeLimitTable ! i = of_nat (if i < 512 then i - 256 else if i < 895 then 255
      else if i < 1280 then 0 else i - 1280)"
    using i and_FF[of i] by (simp add: rangeLimit_nth i_def)
  moreover have "sint (of_nat n :: i16) = int n" if "n \<le> 255" for n
    using that by (simp add: sint_of_nat_small)
  moreover have "(if i < 512 then i - 256 else if i < 895 then 255 else if i < 1280 then 0 else i - 1280) \<le> 255"
    using i(1) by auto
  ultimately have "sint (initRangeLimitTable ! i) \<in> {0..255}"
    by (metis atLeastAtMost_iff of_nat_0_le_iff of_nat_le_iff of_nat_numeral)
  then show ?thesis using i by (simp add: idct_sample_def)
qed

lemma idct_sample_clamp:
  assumes "- 513 \<le> drop_bit 3 x" "drop_bit 3 x \<le> 510"
  shows "idct_sample initRangeLimitTable x = Some (clamp255 (128 + drop_bit 3 x))"
proof -
  define y where "y = drop_bit 3 x"
  have y: "- 513 \<le> y" "y \<le> 510" using assms by (auto simp: y_def)
  define i where "i = nat (384 + y mod 1024)"
  have m: "0 \<le> y mod 1024" "y mod 1024 < 1024" by simp_all
  have i: "i < 1408" "128 + (y AND 0x3FF) + 256 = int i"
    using m by (auto simp: i_def and_3FF)
  have "sint (initRangeLimitTable ! i) = clamp255 (128 + y)"
  proof (cases "0 \<le> y")
    case True
    then have iy: "i = nat y + 384" using y by (simp add: i_def nat_add_distrib)
    have "initRangeLimitTable ! i = of_nat (if nat y < 128 then nat y + 128 else 255)"
      unfolding rangeLimit_nth[OF i(1)] using iy y by simp
    then show ?thesis using True by (simp add: sint_of_nat_small clamp255_def nat_less_iff)
  next
    case False
    then have "(y + 1024) mod 1024 = y + 1024" using y by (intro mod_pos_pos_trivial) auto
    then have "y mod 1024 = y + 1024" by simp
    then have iy: "int i = y + 1408" using y by (simp add: i_def)
    show ?thesis
    proof (cases "i < 1280")
      case True
      then have "initRangeLimitTable ! i = 0" using iy y unfolding rangeLimit_nth[OF i(1)] by auto
      then show ?thesis using True iy False by (simp add: clamp255_def)
    next
      case c: False
      then have "initRangeLimitTable ! i = of_nat (i - 1280)"
        using i and_FF[of i] by (simp add: rangeLimit_nth)
      moreover have "sint (of_nat (i - 1280) :: i16) = int (i - 1280)"
        using i(1) by (intro sint_of_nat_small) simp
      ultimately have "sint (initRangeLimitTable ! i) = int (i - 1280)" by (simp only:)
      then show ?thesis using c iy False i(1) by (simp add: clamp255_def of_nat_diff)
    qed
  qed
  then show ?thesis using i by (simp add: idct_sample_def y_def[symmetric])
qed

section \<open>Colour conversion\<close>

lemma length_color_tables [simp]:
  "length yTable_table = 256" "length crToR_table = 256" "length cbToB_table = 256"
  "length crToG_table = 256" "length cbToG_table = 256"
  by (simp_all add: yTable_table_def crToR_table_def cbToB_table_def crToG_table_def cbToG_table_def)

lemma clamp255_range [simp]: "0 \<le> clamp255 v" "clamp255 v \<le> 255" "clamp255 v < 256"
  by (simp_all add: clamp255_def)

lemma nat_clamp255 [simp]: "nat (clamp255 v) < 256"
  by (simp add: nat_less_iff)

lemma color_entry_mono: "0 \<le> c \<Longrightarrow> x \<le> y \<Longrightarrow> color_entry c x \<le> color_entry c y"
  by (auto simp: color_entry_def drop_bit_eq_div intro!: div_le_mono mult_left_mono zdiv_mono1)

lemma color_entry_anti: "c \<le> 0 \<Longrightarrow> x \<le> y \<Longrightarrow> color_entry c y \<le> color_entry c x"
  by (auto simp: color_entry_def drop_bit_eq_div intro!: zdiv_mono1 mult_left_mono_neg)

text \<open>The integer BT.601 conversion, channels clamped to a byte.\<close>

definition pixel_spec :: "int \<Rightarrow> int \<Rightarrow> int \<Rightarrow> u8 list" where
  "pixel_spec yVal cbVal crVal =
     (let y = color_entry (fixG 1164000) (clamp255 yVal - 16);
          cb = clamp255 cbVal - 128; cr = clamp255 crVal - 128
      in [word_of_int (clamp255 (y + color_entry (fixG 2015625) cb)),
          word_of_int (clamp255 (y + color_entry (- fixG 390625) cb + color_entry (- fixG 812500) cr)),
          word_of_int (clamp255 (y + color_entry (fixG 1597656) cr)),
          255])"

lemma color_max:
  "y \<le> 239 \<Longrightarrow> color_entry (fixG 1164000) y \<le> 278"
  "x \<le> 127 \<Longrightarrow> color_entry (fixG 2015625) x \<le> 256"
  "x \<le> 127 \<Longrightarrow> color_entry (fixG 1597656) x \<le> 203"
  "- 128 \<le> x \<Longrightarrow> color_entry (- fixG 390625) x \<le> 50"
  "- 128 \<le> x \<Longrightarrow> color_entry (- fixG 812500) x \<le> 104"
  using color_entry_mono[of "fixG 1164000" y 239] color_entry_mono[of "fixG 2015625" x 127]
    color_entry_mono[of "fixG 1597656" x 127] color_entry_anti[of "- fixG 390625" "- 128" x]
    color_entry_anti[of "- fixG 812500" "- 128" x]
  by (simp_all add: color_entry_def fixG_def drop_bit_eq_div)

lemma color_bounds:
  "\<lbrakk>y \<le> 239; x \<le> 127\<rbrakk> \<Longrightarrow> color_entry (fixG 1164000) y + color_entry (fixG 2015625) x \<le> 638"
  "\<lbrakk>y \<le> 239; x \<le> 127\<rbrakk> \<Longrightarrow> color_entry (fixG 1164000) y + color_entry (fixG 1597656) x \<le> 638"
  "\<lbrakk>y \<le> 239; - 128 \<le> x; - 128 \<le> z\<rbrakk> \<Longrightarrow>
     color_entry (fixG 1164000) y + color_entry (- fixG 390625) x + color_entry (- fixG 812500) z \<le> 638"
  using color_max(1)[of y] color_max(2)[of x] color_max(3)[of x] color_max(4)[of x] color_max(5)[of z]
  by linarith+

lemma yuv_pixel_spec: "yuv_pixel initColorTable y cb cr = Some (pixel_spec y cb cr)"
proof -
  have c: "clamp255 v \<le> 255" "0 \<le> clamp255 v" for v by simp_all
  have "rangeLimit initColorTable = initRangeLimitTable" by (simp add: initColorTable_def)
  moreover have
    "arr_get (yTable initColorTable) (clamp255 y) = Some (color_entry (fixG 1164000) (clamp255 y - 16))"
    "arr_get (cbToB initColorTable) (clamp255 cb) = Some (color_entry (fixG 2015625) (clamp255 cb - 128))"
    "arr_get (cbToG initColorTable) (clamp255 cb) = Some (color_entry (- fixG 390625) (clamp255 cb - 128))"
    "arr_get (crToG initColorTable) (clamp255 cr) = Some (color_entry (- fixG 812500) (clamp255 cr - 128))"
    "arr_get (crToR initColorTable) (clamp255 cr) = Some (color_entry (fixG 1597656) (clamp255 cr - 128))"
    by (simp_all add: initColorTable_def yTable_table_def cbToB_table_def cbToG_table_def
        crToG_table_def crToR_table_def arr_get_def)
  ultimately show ?thesis
    using c[of y] c[of cb] c[of cr]
    by (simp add: yuv_pixel_def pixel_spec_def Let_def rangeLimit_channel color_bounds)
qed

lemma length_pixel_spec [simp]: "length (pixel_spec y cb cr) = 4"
  by (simp add: pixel_spec_def Let_def)

section \<open>The inverse DCT is total\<close>

lemma get8_spec:
  assumes "0 \<le> base" "0 \<le> stride" "base + 7 * stride < int (length xs)"
  shows "get8 xs base stride = Some (map (\<lambda>k. xs ! nat (base + int k * stride)) [0..<8])"
proof -
  have "arr_get xs (base + int k * stride) = Some (xs ! nat (base + int k * stride))" if "k < 8" for k
  proof (rule arr_get_in)
    have "int k * stride \<le> 7 * stride" using that assms(2) by (intro mult_right_mono) auto
    then show "base + int k * stride < int (length xs)" using assms(3) by simp
    show "0 \<le> base + int k * stride" using assms(1,2) by simp
  qed
  from this[of 0] this[of 1] this[of 2] this[of 3] this[of 4] this[of 5] this[of 6] this[of 7]
  show ?thesis by (simp add: get8_def upt_conv_Cons eval_nat_numeral)
qed

lemma length_idct8 [simp]: "length (idct8 a b c d e f g h) = 8"
  by (simp add: idct8_def Let_def)

lemma set8_spec:
  assumes "0 \<le> base" "0 < stride" "base + 7 * stride < int (length xs)"
  shows "\<exists>ys. set8 xs base stride vs = Some ys \<and> length ys = length xs
    \<and> (\<forall>k<8. ys ! nat (base + int k * stride) = vs ! k)
    \<and> (\<forall>t. (\<forall>k<8. t \<noteq> nat (base + int k * stride)) \<longrightarrow> ys ! t = xs ! t)"
proof -
  have inj: "nat (base + int k * stride) = nat (base + int l * stride) \<longleftrightarrow> k = l" for k l
    using assms(1,2) by (simp add: nat_eq_iff2) (auto simp: add_nonneg_nonneg)
  have "wp_opt (set8 xs base stride vs) (\<lambda>ys. length ys = length xs
      \<and> (\<forall>k<8. ys ! nat (base + int k * stride) = vs ! k)
      \<and> (\<forall>t. (\<forall>k<8. t \<noteq> nat (base + int k * stride)) \<longrightarrow> ys ! t = xs ! t))"
    unfolding set8_def
  proof (rule wp_foldM_upt[where I = "\<lambda>i ys. length ys = length xs
      \<and> (\<forall>k<i. ys ! nat (base + int k * stride) = vs ! k)
      \<and> (\<forall>t. (\<forall>k<i. t \<noteq> nat (base + int k * stride)) \<longrightarrow> ys ! t = xs ! t)"])
    fix i ys
    assume i: "0 \<le> i" "i < (8 :: nat)" and inv: "length ys = length xs
      \<and> (\<forall>k<i. ys ! nat (base + int k * stride) = vs ! k)
      \<and> (\<forall>t. (\<forall>k<i. t \<noteq> nat (base + int k * stride)) \<longrightarrow> ys ! t = xs ! t)"
    have "int i * stride \<le> 7 * stride" using i assms(2) by (intro mult_right_mono) auto
    moreover have "int (length ys) = int (length xs)" using inv by simp
    moreover have "0 \<le> int i * stride" using assms(2) by simp
    ultimately have ix: "0 \<le> base + int i * stride" "base + int i * stride < int (length ys)"
      using assms by linarith+
    then have "nat (base + int i * stride) < length ys" by linarith
    then show "wp_opt (arr_set ys (base + int i * stride) (vs ! i)) (\<lambda>ys. length ys = length xs
        \<and> (\<forall>k<Suc i. ys ! nat (base + int k * stride) = vs ! k)
        \<and> (\<forall>t. (\<forall>k<Suc i. t \<noteq> nat (base + int k * stride)) \<longrightarrow> ys ! t = xs ! t))"
      using inv ix by (auto simp: wp_simps less_Suc_eq nth_list_update inj)
  qed auto
  then show ?thesis by (simp add: wp_opt_iff)
qed

section \<open>The inverse DCT as a separable transform\<close>

definition col_out :: "int list \<Rightarrow> int list \<Rightarrow> nat \<Rightarrow> nat \<Rightarrow> int list" where
  "col_out dct qtab off c =
     (let t = (\<lambda>k. drop_bit 16 (dct ! (off + c + 8 * k) * qtab ! (c + 8 * k)))
      in if (\<forall>k\<in>{1..<8}. dct ! (off + c + 8 * k) = 0) then replicate 8 (t 0)
         else idct8 (t 0) (t 1) (t 2) (t 3) (t 4) (t 5) (t 6) (t 7))"

definition sample_value :: "int \<Rightarrow> int" where
  "sample_value x = the (idct_sample initRangeLimitTable x)"

definition idct_ref :: "int list \<Rightarrow> int list \<Rightarrow> nat \<Rightarrow> nat \<Rightarrow> nat \<Rightarrow> int" where
  "idct_ref dct qtab off r k =
     (let w = (\<lambda>c. col_out dct qtab off c ! r)
      in sample_value (idct8 (w 0) (w 1) (w 2) (w 3) (w 4) (w 5) (w 6) (w 7) ! k))"

lemma sample_value: "idct_sample initRangeLimitTable x = Some (sample_value x)"
  "0 \<le> sample_value x" "sample_value x \<le> 255"
  using idct_sample_range[of x] by (auto simp: sample_value_def)

lemma or_eq_0_int: "(a OR b = (0 :: int)) \<longleftrightarrow> a = 0 \<and> b = 0"
  by (simp add: or_eq_0_iff)

lemma map_upt8: "map f [0..<8] = [f 0, f 1, f 2, f 3, f 4, f 5, f 6, f 7]"
  by (simp add: upt_conv_Cons eval_nat_numeral)

lemma all_upt8: "(\<forall>k\<in>{1..<8}. P k) \<longleftrightarrow> P 1 \<and> P 2 \<and> P 3 \<and> P 4 \<and> P 5 \<and> P 6 \<and> P (7 :: nat)"
proof -
  have "{1..<8} = {1, 2, 3, 4, 5, 6, 7 :: nat}" by auto
  then show ?thesis by simp
qed

lemma idct_column_eq:
  assumes "off + 64 \<le> length dct" "length qtab = 64" "c < 8"
  shows "idct_column dct qtab (int off) c ws = set8 ws (int c) 8 (col_out dct qtab off c)"
proof -
  have n: "nat (int off + int c + int k * 8) = off + c + 8 * k" "nat (int c + int k * 8) = c + 8 * k" for k
    by simp_all
  have g: "get8 dct (int off + int c) 8 = Some (map (\<lambda>k. dct ! (off + c + 8 * k)) [0..<8])"
    "get8 qtab (int c) 8 = Some (map (\<lambda>k. qtab ! (c + 8 * k)) [0..<8])"
    using assms by (simp_all add: get8_spec n)
  show ?thesis
    unfolding idct_column_def g col_out_def Let_def all_upt8 bind.bind_lunit
    by (simp add: map_upt8 or_eq_0_int)
qed

lemma div_mod_8: "r < 8 \<Longrightarrow> c < 8 \<Longrightarrow> (8 * r + c) div 8 = r \<and> (8 * r + c) mod 8 = (c :: nat)"
  by simp

lemma column_pass:
  assumes "off + 64 \<le> length dct" "length qtab = 64" "length ws = 64"
  shows "wp_opt (foldM (idct_column dct qtab (int off)) [0..<8] ws)
    (\<lambda>ws'. length ws' = 64 \<and> (\<forall>c<8. \<forall>r<8. ws' ! (c + 8 * r) = col_out dct qtab off c ! r))"
proof (rule wp_foldM_upt[where I = "\<lambda>i ws'. length ws' = 64
    \<and> (\<forall>c<i. \<forall>r<8. ws' ! (c + 8 * r) = col_out dct qtab off c ! r)"])
  fix i ws'
  assume i: "0 \<le> i" "i < (8 :: nat)" and inv: "length ws' = 64
    \<and> (\<forall>c<i. \<forall>r<8. ws' ! (c + 8 * r) = col_out dct qtab off c ! r)"
  have n: "nat (int i + int k * 8) = i + 8 * k" for k by simp
  obtain ys where ys: "set8 ws' (int i) 8 (col_out dct qtab off i) = Some ys" "length ys = 64"
    "\<And>k. k < 8 \<Longrightarrow> ys ! (i + 8 * k) = col_out dct qtab off i ! k"
    "\<And>t. (\<And>k. k < 8 \<Longrightarrow> t \<noteq> i + 8 * k) \<Longrightarrow> ys ! t = ws' ! t"
    using set8_spec[of "int i" 8 ws' "col_out dct qtab off i"] i inv by (auto simp: n)
  have "ys ! (c + 8 * r) = col_out dct qtab off c ! r" if "c < Suc i" "r < 8" for c r
  proof (cases "c = i")
    case False
    then have "c < i" using that by simp
    moreover have "c + 8 * r \<noteq> i + 8 * k" for k
      using \<open>c < i\<close> i by (metis add.commute div_mod_8 less_trans mod_less mod_mult_self2 nat_neq_iff)
    ultimately show ?thesis using ys(4)[of "c + 8 * r"] inv that by simp
  qed (use ys(3) that in simp)
  then show "wp_opt (idct_column dct qtab (int off) i ws') (\<lambda>ws'. length ws' = 64
      \<and> (\<forall>c<Suc i. \<forall>r<8. ws' ! (c + 8 * r) = col_out dct qtab off c ! r))"
    using ys(2) by (simp add: idct_column_eq[OF assms(1,2) i(2)] ys(1) wp_simps)
qed (use assms in auto)

text \<open>The tile after the rows before \<open>r\<close> and the first \<open>k\<close> samples of row \<open>r\<close> are done.\<close>

definition tile_upto :: "(nat \<Rightarrow> nat \<Rightarrow> int) \<Rightarrow> nat \<Rightarrow> int list \<Rightarrow> nat \<Rightarrow> int list \<Rightarrow> bool" where
  "tile_upto f off t0 n t \<longleftrightarrow> length t = length t0
     \<and> (\<forall>i < length t0. t ! i = (if off \<le> i \<and> i < off + n then f ((i - off) div 8) ((i - off) mod 8) else t0 ! i))"

lemma tile_upto_step:
  assumes "tile_upto f off t0 (8 * r + k) t" "k < 8" "off + 8 * r + k < length t0"
  shows "tile_upto f off t0 (8 * r + Suc k) (t[off + 8 * r + k := f r k])"
  using assms
  by (auto simp: tile_upto_def nth_list_update less_Suc_eq)

lemma idct_row_spec:
  assumes "length ws = 64" "r < 8" "off + 64 \<le> length t0" "tile_upto f off t0 (8 * r) t"
    and "\<And>k. k < 8 \<Longrightarrow> f r k = sample_value (idct8 (ws ! (8 * r)) (ws ! (8 * r + 1)) (ws ! (8 * r + 2))
          (ws ! (8 * r + 3)) (ws ! (8 * r + 4)) (ws ! (8 * r + 5)) (ws ! (8 * r + 6)) (ws ! (8 * r + 7)) ! k)"
  shows "wp_opt (idct_row initRangeLimitTable ws (int off) r t) (tile_upto f off t0 (8 * Suc r))"
proof -
  have n: "nat (int r * 8 + int k) = 8 * r + k" for k by simp
  have g: "get8 ws (int r * 8) 1 = Some (map (\<lambda>k. ws ! (8 * r + k)) [0..<8])"
    using assms(1,2) by (simp add: get8_spec n)
  have m: "map (\<lambda>k. ws ! (8 * r + k)) [0..<8] ! j = ws ! (8 * r + j)" if "j < 8" for j using that by simp
  show ?thesis
    unfolding idct_row_def g bind.bind_lunit Let_def
  proof (rule wp_opt_mono[OF wp_foldM_upt[where I = "\<lambda>k t. tile_upto f off t0 (8 * r + k) t"]])
    fix k t assume k: "0 \<le> k" "k < (8 :: nat)" and inv: "tile_upto f off t0 (8 * r + k) t"
    have ix: "int off + int r * 8 + int k = int (off + 8 * r + k)" by simp
    have len: "off + 8 * r + k < length t0" "length t = length t0"
      using assms(2,3) k inv by (auto simp: tile_upto_def)
    show "wp_opt (do {
         s \<leftarrow> idct_sample initRangeLimitTable (idct8 (map (\<lambda>k. ws ! (8 * r + k)) [0..<8] ! 0)
           (map (\<lambda>k. ws ! (8 * r + k)) [0..<8] ! 1) (map (\<lambda>k. ws ! (8 * r + k)) [0..<8] ! 2)
           (map (\<lambda>k. ws ! (8 * r + k)) [0..<8] ! 3) (map (\<lambda>k. ws ! (8 * r + k)) [0..<8] ! 4)
           (map (\<lambda>k. ws ! (8 * r + k)) [0..<8] ! 5) (map (\<lambda>k. ws ! (8 * r + k)) [0..<8] ! 6)
           (map (\<lambda>k. ws ! (8 * r + k)) [0..<8] ! 7) ! k);
         arr_set t (int off + int r * 8 + int k) s
       }) (tile_upto f off t0 (8 * r + Suc k))"
      using tile_upto_step[OF inv k(2) len(1)] len
      by (simp add: m sample_value ix assms(5)[OF k(2)] wp_simps del: of_nat_add)
  qed (use assms(4) in \<open>auto simp: add.commute\<close>)
qed

lemma inverse_dct_spec:
  assumes "off + 64 \<le> length dct" "length qtab = 64" "length ws = 64" "off + 64 \<le> length t0"
  shows "wp_opt (inverse_dct initRangeLimitTable dct qtab (int off) ws t0)
    (\<lambda>(ws', t). length ws' = 64 \<and> tile_upto (idct_ref dct qtab off) off t0 64 t)"
  unfolding inverse_dct_def wp_opt_bind
proof (rule wp_opt_mono[OF column_pass[OF assms(1-3)]])
  fix ws' assume ws': "length ws' = 64 \<and> (\<forall>c<8. \<forall>r<8. ws' ! (c + 8 * r) = col_out dct qtab off c ! r)"
  have "wp_opt (foldM (idct_row initRangeLimitTable ws' (int off)) [0..<8] t0)
      (tile_upto (idct_ref dct qtab off) off t0 (8 * 8))"
  proof (rule wp_foldM_upt[where I = "\<lambda>r t. tile_upto (idct_ref dct qtab off) off t0 (8 * r) t"])
    fix r t assume r: "0 \<le> r" "r < (8 :: nat)" and inv: "tile_upto (idct_ref dct qtab off) off t0 (8 * r) t"
    have w: "ws' ! (8 * r + c) = col_out dct qtab off c ! r" if "c < 8" for c
      using ws' r that by (simp add: add.commute)
    have w0: "ws' ! (8 * r) = col_out dct qtab off 0 ! r" using w[of 0] by simp
    show "wp_opt (idct_row initRangeLimitTable ws' (int off) r t)
        (tile_upto (idct_ref dct qtab off) off t0 (8 * Suc r))"
      by (rule idct_row_spec[OF _ r(2) assms(4) inv]) (use ws' in \<open>simp_all add: w w0 w[of 1, simplified] w[of 2, simplified] idct_ref_def Let_def\<close>)
  qed (simp_all add: tile_upto_def)
  then show "wp_opt (foldM (idct_row initRangeLimitTable ws' (int off)) [0..<8] t0)
      (\<lambda>yt. wp_opt (Some (ws', yt)) (\<lambda>(ws', t). length ws' = 64 \<and> tile_upto (idct_ref dct qtab off) off t0 64 t))"
    by (rule wp_opt_mono) (simp add: wp_simps ws')
qed

text \<open>A block with only a DC coefficient is flat.\<close>

lemma idct8_flat: "idct8 a 0 0 0 0 0 0 0 = replicate 8 a"
  by (simp add: idct8_def idctMultiply_def Let_def eval_nat_numeral)

lemma idct_ref_dc:
  assumes "\<And>t. 0 < t \<Longrightarrow> t < 64 \<Longrightarrow> dct ! (off + t) = 0" "r < 8" "k < 8"
  shows "idct_ref dct qtab off r k = sample_value (drop_bit 16 (dct ! off * qtab ! 0))"
proof -
  have z: "\<forall>j\<in>{1..<8}. dct ! (off + c + 8 * j) = 0" if "c < 8" for c
    using assms(1) that by (auto simp: add.assoc)
  have c0: "col_out dct qtab off 0 ! r = drop_bit 16 (dct ! off * qtab ! 0)"
    using z[of 0] assms(2) by (simp add: col_out_def)
  have "col_out dct qtab off c ! r = 0" if "0 < c" "c < 8" for c
    using z[OF that(2)] that assms(1)[of c] assms(2) by (simp add: col_out_def)
  then show ?thesis using assms(3) by (simp add: idct_ref_def Let_def c0 idct8_flat)
qed

section \<open>Properties\<close>



text \<open>A block whose only coefficient is the DC coefficient decodes to a flat block, and as long as the
  dequantised value stays in the range of the clamping table, to the clamped level around 128;
  in particular a block of zeros decodes to 128 everywhere, the value that
  \<open>isNeutralBlock\<close> looks for.\<close>

theorem dc_only_block_is_flat:
  assumes "\<And>t. 0 < t \<Longrightarrow> t < 64 \<Longrightarrow> dct ! (off + t) = 0" "r < 8" "k < 8"
    and "- 513 * 8 * 65536 \<le> dct ! off * qtab ! 0" "dct ! off * qtab ! 0 < 511 * 8 * 65536"
  shows "idct_ref dct qtab off r k = clamp255 (128 + drop_bit 19 (dct ! off * qtab ! 0))"
proof -
  define v where "v = dct ! off * qtab ! 0"
  have d: "drop_bit 3 (drop_bit 16 v) = drop_bit 19 v" by simp
  have "- 513 \<le> drop_bit 19 v" "drop_bit 19 v \<le> 510"
    using assms(4,5) unfolding v_def[symmetric] by (simp_all add: drop_bit_eq_div)
  then have "sample_value (drop_bit 16 v) = clamp255 (128 + drop_bit 19 v)"
    using idct_sample_clamp[of "drop_bit 16 v"] by (simp add: sample_value_def d)
  then show ?thesis using idct_ref_dc[OF assms(1-3)] by (simp add: v_def)
qed

theorem dc_only_block_is_flat_witness: "idct_ref (replicate 384 0) (replicate 64 (20 * 65536)) 64 3 5 = 128"
proof -
  have "idct_ref (replicate 384 0) (replicate 64 (20 * 65536)) 64 3 5
      = clamp255 (128 + drop_bit 19 ((replicate 384 0 :: int list) ! 64 * (replicate 64 (20 * 65536)) ! 0))"
    by (rule dc_only_block_is_flat) simp_all
  then show ?thesis by (simp add: clamp255_def)
qed

text \<open>The table-driven colour conversion never indexes outside its tables and equals the integer BT.601
  formula with every channel clamped to a byte: the gap of the clamping table from 895 on is
  never reached.\<close>

theorem yuv_pixel_correct: "yuv_pixel initColorTable y cb cr = Some (pixel_spec y cb cr)"
  by (rule yuv_pixel_spec)

end
