(* ===== verification/Decompress.thy ===== *)
theory Decompress
  imports Huffman Quant Idct
begin

text \<open>
  The block decoders of the video decoder: the struct \<open>Decoder\<close> (\<open>src/internal/ikvm/decoder.go\<close>) and
  the methods of \<open>decompress.go\<close> that decode one macroblock into the framebuffer.

  Every method is a function from decoder to decoder in the option monad: \<^term>\<open>None\<close> is a Go run-time
  panic (an index out of range). A loop with a \<open>break\<close> at its head runs over the prefix of its
  range for which the condition does not hold.
\<close>

section \<open>State\<close>

text \<open>The decoder, with the fields of the struct; \<open>rdr\<close> groups the bitstream reader
  state, \<open>colors\<close> the constant clamping and colour tables. A \<open>nil\<close> framebuffer is the empty
  list: an allocated one is never empty.\<close>

record Decoder =
  Width :: u16
  Height :: u16
  Framebuffer :: bytes
  padWidth :: int
  padHeight :: int
  realWidth :: int
  realHeight :: int
  gridWidth :: int
  gridHeight :: int
  txb :: int
  tyb :: int
  mode420 :: u8
  rdr :: bitreader
  htDC :: "huffmanTable list"
  htAC :: "huffmanTable list"
  qt :: "int list list"
  dctCoeff :: "int list"
  yuvTile :: "int list"
  workspace :: "int list"
  dcY :: i16
  dcCb :: i16
  dcCr :: i16
  previousYUV :: "int list"
  colors :: color_tables
  vqColor :: "u32 list"
  vqIndex :: "int list"
  vqBitmapBits :: nat
  yTile420 :: "int list list"
  cbTile :: "int list"
  crTile :: "int list"
  negPow2 :: "i16 list"
  selector :: int
  advanceSelector :: int
  mapping :: int
  scaleFactor :: int
  scaleFactorUV :: int
  advScaleFactor :: int
  advScaleFactorUV :: int

section \<open>Quantisation tables\<close>

definition load_qt :: "u8 list \<Rightarrow> int \<Rightarrow> int \<Rightarrow> Decoder \<Rightarrow> Decoder option" where
  "load_qt tbl factor qtIdx d = do {
     q \<leftarrow> arr_get (qt d) qtIdx;
     q' \<leftarrow> buildQT q tbl factor;
     qts \<leftarrow> arr_set (qt d) qtIdx q';
     Some (d\<lparr>qt := qts\<rparr>)
   }"

definition loadLuminanceQT :: "int \<Rightarrow> Decoder \<Rightarrow> Decoder option" where
  "loadLuminanceQT qtIdx d = load_qt (selectLuminanceTable (selector d)) (scaleFactor d) qtIdx d"

definition loadChrominanceQT :: "int \<Rightarrow> Decoder \<Rightarrow> Decoder option" where
  "loadChrominanceQT qtIdx d =
     load_qt (selectChrominanceTable (selector d) (mapping d)) (scaleFactorUV d) qtIdx d"

definition loadPass2LuminanceQT :: "int \<Rightarrow> Decoder \<Rightarrow> Decoder option" where
  "loadPass2LuminanceQT qtIdx d =
     load_qt (selectLuminanceTable (advanceSelector d)) (advScaleFactor d) qtIdx d"

definition loadPass2ChrominanceQT :: "int \<Rightarrow> Decoder \<Rightarrow> Decoder option" where
  "loadPass2ChrominanceQT qtIdx d =
     load_qt (selectChrominanceTable (advanceSelector d) (mapping d)) (advScaleFactorUV d) qtIdx d"

section \<open>Coefficients\<close>

text \<open>The loop over the AC coefficients of \<open>decodeHuffmanDataUnit\<close>.\<close>

function decode_ac ::
  "huffmanTable \<Rightarrow> i16 list \<Rightarrow> int \<Rightarrow> nat \<Rightarrow> int list \<Rightarrow> bitreader \<Rightarrow> (int list \<times> bitreader) option" where
  "decode_ac ht np off k dct rd =
     (if k < 64 then do {
        (sym, rd) \<leftarrow> huff_symbol ht rd;
        let size = unat (sym AND 0x0F);
        let run = unat (drop_bit 4 sym AND 0x0F);
        if size = 0 then (if run \<noteq> 15 then Some (dct, rd) else decode_ac ht np off (k + 16) dct rd)
        else if k + run < 64 then do {
          (v, rd) \<leftarrow> getKbits np size rd;
          z \<leftarrow> arr_get dezigzag (int (k + run));
          dct \<leftarrow> arr_set dct (off + z) (sint v);
          decode_ac ht np off (k + run + 1) dct rd
        }
        else decode_ac ht np off (k + run + 1) dct rd
      }
      else Some (dct, rd))"
  by pat_completeness auto
termination by (relation "measure (\<lambda>(ht, np, off, k, dct, rd). 64 - k)") auto

declare decode_ac.simps [simp del]

definition decodeHuffmanDataUnit ::
  "int \<Rightarrow> int \<Rightarrow> i16 \<Rightarrow> int \<Rightarrow> Decoder \<Rightarrow> (i16 \<times> Decoder) option" where
  "decodeHuffmanDataUnit dcTableIdx acTableIdx dcPred coeffOffset d = do {
     dct \<leftarrow> foldM (\<lambda>i dct. arr_set dct (coeffOffset + int i) 0) [0..<64] (dctCoeff d);
     dcT \<leftarrow> arr_get (htDC d) dcTableIdx;
     (category, rd) \<leftarrow> huff_symbol dcT (rdr d);
     (dct, dcPred, rd) \<leftarrow>
       (if category = 0 then do {
          dct \<leftarrow> arr_set dct coeffOffset (sint dcPred);
          Some (dct, dcPred, rd)
        }
        else do {
          (diff, rd) \<leftarrow> getKbits (negPow2 d) (unat category) rd;
          let dc = sint dcPred + sint diff;
          dct \<leftarrow> arr_set dct coeffOffset dc;
          Some (dct, word_of_int dc, rd)
        });
     acT \<leftarrow> arr_get (htAC d) acTableIdx;
     (dct, rd) \<leftarrow> decode_ac acT (negPow2 d) coeffOffset 1 dct rd;
     Some (dcPred, d\<lparr>dctCoeff := dct, rdr := rd\<rparr>)
   }"

definition inverseDCT :: "int \<Rightarrow> int \<Rightarrow> Decoder \<Rightarrow> Decoder option" where
  "inverseDCT offset qtIdx d = do {
     q \<leftarrow> arr_get (qt d) qtIdx;
     (ws, yt) \<leftarrow> inverse_dct (rangeLimit (colors d)) (dctCoeff d) q offset (workspace d) (yuvTile d);
     Some (d\<lparr>workspace := ws, yuvTile := yt\<rparr>)
   }"

section \<open>Block helpers\<close>

text \<open>\<open>yuvTile\<close> has 768 entries, so the reads of this loop are in range.\<close>

definition isNeutralBlock :: "Decoder \<Rightarrow> bool" where
  "isNeutralBlock d =
     (let count = (if mode420 d = 1 then 384 else 192)
      in list_all (\<lambda>i. yuvTile d ! i = 128) [0..<count])"

text \<open>Storing a sample triple at a pixel, when it is inside the array.\<close>

definition put_previous :: "int list \<Rightarrow> int \<Rightarrow> int list \<Rightarrow> int list option" where
  "put_previous prev yuvIdx vs = (if yuvIdx + 2 < int (length prev) then set_run prev yuvIdx vs else Some prev)"

definition put_pixel :: "bytes \<Rightarrow> int \<Rightarrow> u8 list \<Rightarrow> bytes option" where
  "put_pixel fb fbIdx px = (if fbIdx + 3 < int (length fb) then set_run fb fbIdx px else Some fb)"

text \<open>The three samples of a 4:4:4 tile at one position.\<close>

definition tile_samples :: "int list \<Rightarrow> int \<Rightarrow> int list option" where
  "tile_samples tile tileIdx = do {
     y \<leftarrow> arr_get tile tileIdx;
     cb \<leftarrow> arr_get tile (64 + tileIdx);
     cr \<leftarrow> arr_get tile (128 + tileIdx);
     Some [y, cb, cr]
   }"

definition updatePreviousYUV :: "int \<Rightarrow> int \<Rightarrow> Decoder \<Rightarrow> Decoder option" where
  "updatePreviousYUV tileX tileY d =
     (if mode420 d = 0 then do {
        let pixX = tileX * 8;
        let pixY = tileY * 8;
        prev \<leftarrow> foldM (\<lambda>row prev.
          foldM (\<lambda>col prev. do {
              let py = pixY + int row;
              let px = pixX + int col;
              let tileIdx = int row * 8 + int col;
              let yuvIdx = (py * realWidth d + px) * 3;
              s \<leftarrow> tile_samples (yuvTile d) tileIdx;
              put_previous prev yuvIdx s
            }) (takeWhile (\<lambda>col. pixX + int col < realWidth d) [0..<8]) prev)
          (takeWhile (\<lambda>row. pixY + int row < realHeight d) [0..<8]) (previousYUV d);
        Some (d\<lparr>previousYUV := prev\<rparr>)
      }
      else Some d)"

section \<open>Colour conversion\<close>

text \<open>One pixel of the 4:4:4 loop of \<open>convertYUVtoRGB\<close>; the state is framebuffer and previous samples.\<close>

definition convert_pixel444 ::
  "Decoder \<Rightarrow> int \<Rightarrow> int \<Rightarrow> nat \<Rightarrow> nat \<Rightarrow> bytes \<times> int list \<Rightarrow> (bytes \<times> int list) option" where
  "convert_pixel444 d pixX pixY row col = (\<lambda>(fb, prev). do {
     let py = pixY + int row;
     let px = pixX + int col;
     let tileIdx = int row * 8 + int col;
     s \<leftarrow> tile_samples (yuvTile d) tileIdx;
     let yuvIdx = (py * realWidth d + px) * 3;
     prev \<leftarrow> put_previous prev yuvIdx s;
     pix \<leftarrow> yuv_pixel (colors d) (s ! 0) (s ! 1) (s ! 2);
     let fbIdx = (py * uint (Width d) + px) * 4;
     fb \<leftarrow> put_pixel fb fbIdx pix;
     Some (fb, prev)
   })"

text \<open>\<open>maxCol\<close>: the columns of the tile that are inside the frame.\<close>

definition max_col :: "int \<Rightarrow> int \<Rightarrow> nat" where
  "max_col fbW pixX = (if fbW - pixX < 8 \<and> fbW - pixX > 0 then nat (fbW - pixX) else 8)"

definition convert444 :: "int \<Rightarrow> int \<Rightarrow> Decoder \<Rightarrow> Decoder option" where
  "convert444 tileX tileY d = do {
     let pixX = tileX * 8;
     let pixY = tileY * 8;
     let fbW = uint (Width d);
     let fbH = uint (Height d);
     (fb, prev) \<leftarrow> foldM (\<lambda>row.
         foldM (convert_pixel444 d pixX pixY row)
           (takeWhile (\<lambda>col. pixX + int col < fbW) [0..<max_col fbW pixX]))
       (takeWhile (\<lambda>row. pixY + int row < fbH) [0..<8]) (Framebuffer d, previousYUV d);
     Some (d\<lparr>Framebuffer := fb, previousYUV := prev\<rparr>)
   }"

text \<open>One pixel of the 4:2:0 loop; the state is framebuffer and \<open>yBlockIdx\<close>.\<close>

definition convert_pixel420 ::
  "Decoder \<Rightarrow> int \<Rightarrow> int \<Rightarrow> nat \<Rightarrow> nat \<Rightarrow> bytes \<times> int list \<Rightarrow> (bytes \<times> int list) option" where
  "convert_pixel420 d pixX pixY row col = (\<lambda>(fb, yBlockIdx). do {
     let blockRow = (row div 8) * 2;
     let chromaRow = (row div 2) * 8;
     let blockIdx = int (blockRow + col div 8);
     yIdx \<leftarrow> arr_get yBlockIdx blockIdx;
     yBlockIdx \<leftarrow> arr_set yBlockIdx blockIdx (yIdx + 1);
     let py = pixY + int row;
     let px = pixX + int col;
     if py \<ge> uint (Height d) \<or> px \<ge> uint (Width d) then Some (fb, yBlockIdx)
     else do {
       tile \<leftarrow> arr_get (yTile420 d) blockIdx;
       yVal \<leftarrow> arr_get tile yIdx;
       let chromaIdx = int (chromaRow + col div 2);
       cbVal \<leftarrow> arr_get (cbTile d) chromaIdx;
       crVal \<leftarrow> arr_get (crTile d) chromaIdx;
       pix \<leftarrow> yuv_pixel (colors d) yVal cbVal crVal;
       let fbIdx = (py * uint (Width d) + px) * 4;
       fb \<leftarrow> put_pixel fb fbIdx pix;
       Some (fb, yBlockIdx)
     }
   })"

text \<open>The copies from \<open>yuvTile\<close> at the head of the 4:2:0 branch.\<close>

definition split_tile420 :: "Decoder \<Rightarrow> Decoder" where
  "split_tile420 d = d\<lparr>yTile420 := map (\<lambda>blk. take 64 (drop (64 * blk) (yuvTile d))) [0..<4],
     cbTile := take 64 (drop 256 (yuvTile d)), crTile := take 64 (drop 320 (yuvTile d))\<rparr>"

definition convert420 :: "int \<Rightarrow> int \<Rightarrow> Decoder \<Rightarrow> Decoder option" where
  "convert420 tileX tileY d0 = do {
     let d = split_tile420 d0;
     let pixX = tileX * 16;
     let pixY = tileY * 16;
     let maxRow = (if padHeight d = 608 \<and> tileY = 37 then 8 else 16);
     (fb, _) \<leftarrow> foldM (\<lambda>row. foldM (convert_pixel420 d pixX pixY row) [0..<16])
       [0..<maxRow] (Framebuffer d, [0, 0, 0, 0]);
     Some (d\<lparr>Framebuffer := fb\<rparr>)
   }"

definition convertYUVtoRGB :: "int \<Rightarrow> int \<Rightarrow> Decoder \<Rightarrow> Decoder option" where
  "convertYUVtoRGB tileX tileY d =
     (if mode420 d = 0 then convert444 tileX tileY d else convert420 tileX tileY d)"

definition convert_pixel_pass2 ::
  "Decoder \<Rightarrow> int \<Rightarrow> int \<Rightarrow> nat \<Rightarrow> nat \<Rightarrow> bytes \<Rightarrow> bytes option" where
  "convert_pixel_pass2 d pixX pixY row col fb = do {
     let py = pixY + int row;
     let px = pixX + int col;
     let tileIdx = int row * 8 + int col;
     let yuvIdx = (py * realWidth d + px) * 3;
     v \<leftarrow> (if yuvIdx + 2 < int (length (previousYUV d)) then do {
            s \<leftarrow> tile_samples (yuvTile d) tileIdx;
            p0 \<leftarrow> arr_get (previousYUV d) yuvIdx;
            p1 \<leftarrow> arr_get (previousYUV d) (yuvIdx + 1);
            p2 \<leftarrow> arr_get (previousYUV d) (yuvIdx + 2);
            Some [p0 + (s ! 0 - 128), p1 + (s ! 1 - 128), p2 + (s ! 2 - 128)]
          }
          else Some [0, 0, 0]);
     pix \<leftarrow> yuv_pixel (colors d) (v ! 0) (v ! 1) (v ! 2);
     let fbIdx = (py * uint (Width d) + px) * 4;
     put_pixel fb fbIdx pix
   }"

definition convertYUVtoRGBPass2 :: "int \<Rightarrow> int \<Rightarrow> Decoder \<Rightarrow> Decoder option" where
  "convertYUVtoRGBPass2 tileX tileY d =
     (if mode420 d \<noteq> 0 then Some d
      else do {
        let pixX = tileX * 8;
        let pixY = tileY * 8;
        let fbW = uint (Width d);
        let fbH = uint (Height d);
        fb \<leftarrow> foldM (\<lambda>row.
            foldM (convert_pixel_pass2 d pixX pixY row)
              (takeWhile (\<lambda>col. pixX + int col < fbW) [0..<max_col fbW pixX]))
          (takeWhile (\<lambda>row. pixY + int row < fbH) [0..<8]) (Framebuffer d);
        Some (d\<lparr>Framebuffer := fb\<rparr>)
      })"

section \<open>Decompression of one block\<close>

definition decode_Y :: "int \<Rightarrow> int \<Rightarrow> Decoder \<Rightarrow> Decoder option" where
  "decode_Y offset qtIdx d = do {
     (p, d) \<leftarrow> decodeHuffmanDataUnit 0 0 (dcY d) offset d;
     inverseDCT offset qtIdx (d\<lparr>dcY := p\<rparr>)
   }"

definition decode_Cb :: "int \<Rightarrow> int \<Rightarrow> Decoder \<Rightarrow> Decoder option" where
  "decode_Cb offset qtIdx d = do {
     (p, d) \<leftarrow> decodeHuffmanDataUnit 1 1 (dcCb d) offset d;
     inverseDCT offset qtIdx (d\<lparr>dcCb := p\<rparr>)
   }"

definition decode_Cr :: "int \<Rightarrow> int \<Rightarrow> Decoder \<Rightarrow> Decoder option" where
  "decode_Cr offset qtIdx d = do {
     (p, d) \<leftarrow> decodeHuffmanDataUnit 1 1 (dcCr d) offset d;
     inverseDCT offset qtIdx (d\<lparr>dcCr := p\<rparr>)
   }"

definition decompressJPEG :: "int \<Rightarrow> int \<Rightarrow> int \<Rightarrow> Decoder \<Rightarrow> Decoder option" where
  "decompressJPEG tileX tileY qtOffset d = do {
     d \<leftarrow> decode_Y 0 qtOffset d;
     d \<leftarrow> (if mode420 d = 1 then do {
            d \<leftarrow> decode_Y 64 qtOffset d;
            d \<leftarrow> decode_Y 128 qtOffset d;
            d \<leftarrow> decode_Y 192 qtOffset d;
            d \<leftarrow> decode_Cb 256 (qtOffset + 1) d;
            decode_Cr 320 (qtOffset + 1) d
          }
          else do {
            d \<leftarrow> decode_Cb 64 (qtOffset + 1) d;
            decode_Cr 128 (qtOffset + 1) d
          });
     if isNeutralBlock d then updatePreviousYUV tileX tileY d
     else convertYUVtoRGB tileX tileY d
   }"

definition decompressJPEGPass2 :: "int \<Rightarrow> int \<Rightarrow> int \<Rightarrow> Decoder \<Rightarrow> Decoder option" where
  "decompressJPEGPass2 tileX tileY qtOffset d = do {
     d \<leftarrow> decode_Y 0 qtOffset d;
     d \<leftarrow> decode_Cb 64 (qtOffset + 1) d;
     d \<leftarrow> decode_Cr 128 (qtOffset + 1) d;
     if isNeutralBlock d then updatePreviousYUV tileX tileY d
     else convertYUVtoRGBPass2 tileX tileY d
   }"

definition vq_header_step :: "nat \<Rightarrow> Decoder \<Rightarrow> Decoder option" where
  "vq_header_step i d = do {
     let r = reg0 (rdr d);
     let ix = uint (drop_bit 29 r AND 3);
     vi \<leftarrow> arr_set (vqIndex d) (int i) ix;
     if drop_bit 31 r AND 1 = 0 then do {
       rd \<leftarrow> updateReadBuf 3 (rdr d);
       Some (d\<lparr>vqIndex := vi, rdr := rd\<rparr>)
     }
     else do {
       j \<leftarrow> arr_get vi (int i);
       vc \<leftarrow> arr_set (vqColor d) j (drop_bit 5 r AND 0xFFFFFF);
       rd \<leftarrow> updateReadBuf 27 (rdr d);
       Some (d\<lparr>vqIndex := vi, vqColor := vc, rdr := rd\<rparr>)
     }
   }"

definition decodeVQHeader :: "nat \<Rightarrow> Decoder \<Rightarrow> Decoder option" where
  "decodeVQHeader numColors d = foldM vq_header_step [0..<numColors] d"

text \<open>One position of a VQ block: the colour becomes the three samples at \<open>n\<close>, \<open>n+64\<close>, \<open>n+128\<close>.\<close>

definition put_samples :: "u32 \<Rightarrow> nat \<Rightarrow> int list \<Rightarrow> int list option" where
  "put_samples color n tile = do {
     tile \<leftarrow> arr_set tile (int n) (uint (drop_bit 16 color AND 0xFF));
     tile \<leftarrow> arr_set tile (int n + 64) (uint (drop_bit 8 color AND 0xFF));
     arr_set tile (int n + 128) (uint (color AND 0xFF))
   }"

definition vq_sample_step :: "nat \<Rightarrow> Decoder \<Rightarrow> Decoder option" where
  "vq_sample_step n d = do {
     let sel = sint (lookKbits (vqBitmapBits d) (rdr d));
     ix \<leftarrow> arr_get (vqIndex d) sel;
     color \<leftarrow> arr_get (vqColor d) ix;
     tile \<leftarrow> put_samples color n (yuvTile d);
     rd \<leftarrow> skipKbits (vqBitmapBits d) (rdr d);
     Some (d\<lparr>yuvTile := tile, rdr := rd\<rparr>)
   }"

definition decompressVQ :: "int \<Rightarrow> int \<Rightarrow> Decoder \<Rightarrow> Decoder option" where
  "decompressVQ tileX tileY d = do {
     d \<leftarrow> (if vqBitmapBits d = 0 then do {
            ix \<leftarrow> arr_get (vqIndex d) 0;
            color \<leftarrow> arr_get (vqColor d) ix;
            tile \<leftarrow> foldM (put_samples color) [0..<64] (yuvTile d);
            Some (d\<lparr>yuvTile := tile\<rparr>)
          }
          else foldM vq_sample_step [0..<64] d);
     if isNeutralBlock d then updatePreviousYUV tileX tileY d
     else convertYUVtoRGB tileX tileY d
   }"

section \<open>Block index\<close>

definition at_least_1 :: "int \<Rightarrow> int" where
  "at_least_1 n = (if n \<le> 0 then 1 else n)"

definition moveBlockIndex :: "Decoder \<Rightarrow> Decoder" where
  "moveBlockIndex d =
     (let size = (if mode420 d = 0 then 8 else 16);
          d1 = d\<lparr>txb := txb d + 1\<rparr>;
          blocksPerRow = at_least_1 (gridWidth d div size)
      in if txb d1 \<ge> blocksPerRow
         then (let blocksPerCol = at_least_1 (gridHeight d div size);
                   ty = tyb d + 1
               in d1\<lparr>tyb := (if ty \<ge> blocksPerCol then 0 else ty), txb := 0\<rparr>)
         else d1)"

end
