(* ===== verification/Blocks.thy ===== *)
theory Blocks
  imports Decompress
begin

text \<open>
  The invariant \<open>wf_dec\<close> of the decoder, and the first half of the safety of the block decoders:
  decoding the coefficients and the inverse DCT never panic on a well-formed decoder, keep the
  invariant and the geometry, and never move the bit reader backwards. \<open>painted\<close> says what a
  framebuffer holds after some of its pixels were written.
\<close>

section \<open>The reader\<close>

text \<open>The reader stands at bit \<open>p\<close> or later of the data \<open>ws\<close>.\<close>

definition reader_from :: "nat \<Rightarrow> u32 list \<Rightarrow> bitreader \<Rightarrow> bool" where
  "reader_from p ws rd \<longleftrightarrow> buf rd = ws \<and> (\<exists>q \<ge> p. reader_at q rd)"

lemma reader_from_mono: "\<lbrakk>reader_from q ws rd; p \<le> q\<rbrakk> \<Longrightarrow> reader_from p ws rd"
  by (auto simp: reader_from_def intro: order.trans)

lemma wp_skip_from:
  assumes "reader_from p ws rd" "k \<le> 32" "\<And>rd'. reader_from (p + k) ws rd' \<Longrightarrow> Q rd'"
  shows "wp_opt (skipKbits k rd) Q"
proof -
  obtain q where q: "p \<le> q" "reader_at q rd" "buf rd = ws" using assms(1) by (auto simp: reader_from_def)
  show ?thesis
  proof (rule reader.wp_skip[OF q(2) assms(2)])
    fix rd' assume "reader_at (q + k) rd'" "buf rd' = buf rd"
    then have "reader_from (p + k) ws rd'" using q by (auto simp: reader_from_def intro!: exI[of _ "q + k"])
    then show "Q rd'" by (rule assms(3))
  qed
qed

lemma wp_update_from:
  assumes "reader_from p ws rd" "k \<le> 32" "\<And>rd'. reader_from (p + k) ws rd' \<Longrightarrow> Q rd'"
  shows "wp_opt (updateReadBuf (int k) rd) Q"
  unfolding updateReadBuf_skipKbits using assms by (rule wp_skip_from)

lemma wp_get_from:
  assumes "reader_from p ws rd" "k \<le> 16" "length np = 17" "\<And>v rd'. reader_from p ws rd' \<Longrightarrow> Q (v, rd')"
  shows "wp_opt (getKbits np k rd) Q"
proof -
  obtain q where q: "p \<le> q" "reader_at q rd" "buf rd = ws" using assms(1) by (auto simp: reader_from_def)
  show ?thesis
  proof (rule wp_getKbits[OF q(2) assms(2,3)])
    fix v rd' assume "reader_at (q + k) rd'" "buf rd' = buf rd"
    then have "reader_from p ws rd'" using q by (auto simp: reader_from_def intro!: exI[of _ "q + k"])
    then show "Q (v, rd')" by (rule assms(4))
  qed
qed

lemma wp_huff_from:
  assumes "reader_from p ws rd" "wf_ht ht"
    and "\<And>s rd'. \<lbrakk>reader_from p ws rd'; s \<in> range (\<lambda>i. ucast (ht_v ht i))\<rbrakk> \<Longrightarrow> Q (s, rd')"
  shows "wp_opt (huff_symbol ht rd) Q"
proof -
  obtain q where q: "p \<le> q" "reader_at q rd" "buf rd = ws" using assms(1) by (auto simp: reader_from_def)
  show ?thesis
  proof (rule wp_huff_symbol[OF q(2) assms(2)])
    fix s :: u8 and k rd' assume "reader_at (q + k) rd'" "buf rd' = buf rd" "s \<in> range (\<lambda>i. ucast (ht_v ht i))"
    moreover from this have "reader_from p ws rd'" using q by (auto simp: reader_from_def intro!: exI[of _ "q + k"])
    ultimately show "Q (s, rd')" by (intro assms(3))
  qed
qed

section \<open>Invariant\<close>

definition wf_arrays :: "Decoder \<Rightarrow> bool" where
  "wf_arrays d \<longleftrightarrow>
     wf_tables (htDC d, htAC d) \<and> length (negPow2 d) = 17 \<and> colors d = initColorTable
     \<and> length (qt d) = 4 \<and> list_all (\<lambda>q. length q = 64) (qt d)
     \<and> length (dctCoeff d) = 384 \<and> length (yuvTile d) = 768 \<and> length (workspace d) = 64
     \<and> length (vqColor d) = 4 \<and> length (vqIndex d) = 4 \<and> list_all (\<lambda>i. 0 \<le> i \<and> i < 4) (vqIndex d)
     \<and> vqBitmapBits d \<le> 2"

definition wf_frame :: "Decoder \<Rightarrow> bool" where
  "wf_frame d \<longleftrightarrow> 0 < uint (Width d) \<and> 0 < uint (Height d)
     \<and> int (length (Framebuffer d)) = uint (Width d) * uint (Height d) * 4
     \<and> 0 \<le> realWidth d"

definition wf_dec :: "Decoder \<Rightarrow> bool" where
  "wf_dec d \<longleftrightarrow> wf_arrays d \<and> wf_frame d"

text \<open>What the block decoders leave alone.\<close>

definition geometry :: "Decoder \<Rightarrow> u16 \<times> u16 \<times> int list \<times> u8 \<times> int \<times> int" where
  "geometry d = (Width d, Height d,
     [padWidth d, padHeight d, realWidth d, realHeight d, gridWidth d, gridHeight d], mode420 d, txb d, tyb d)"

text \<open>A well-formed decoder whose reader stands at bit \<open>p\<close> or later of the data \<open>ws\<close>.\<close>

definition dec_from :: "nat \<Rightarrow> u32 list \<Rightarrow> Decoder \<Rightarrow> bool" where
  "dec_from p ws d \<longleftrightarrow> wf_dec d \<and> reader_from p ws (rdr d)"

definition block_ok :: "nat \<Rightarrow> u32 list \<Rightarrow> Decoder \<Rightarrow> Decoder \<Rightarrow> bool" where
  "block_ok p ws d d' \<longleftrightarrow> dec_from p ws d' \<and> geometry d' = geometry d"

lemma block_ok_trans: "\<lbrakk>block_ok p ws d d'; block_ok p ws d' d''\<rbrakk> \<Longrightarrow> block_ok p ws d d''"
  by (simp add: block_ok_def)

text \<open>Sequencing two steps that keep the invariant.\<close>

lemma wp_block_seq:
  assumes "wp_opt (f d) (block_ok p ws d)"
    and "\<And>d'. \<lbrakk>dec_from p ws d'; geometry d' = geometry d\<rbrakk> \<Longrightarrow> wp_opt (g d') (block_ok p ws d')"
  shows "wp_opt (Option.bind (f d) g) (block_ok p ws d)"
  unfolding wp_opt_bind
proof (rule wp_opt_mono[OF assms(1)])
  fix d' assume "block_ok p ws d d'"
  then show "wp_opt (g d') (block_ok p ws d)"
    using assms(2)[of d'] by (auto simp: block_ok_def elim: wp_opt_mono)
qed

section \<open>Coefficients\<close>

lemma nibble_bound: "unat (s AND 0x0F :: u8) \<le> 15"
proof -
  have "s AND 0x0F = take_bit 4 s" by (simp add: take_bit_eq_mask mask_eq_exp_minus_1)
  then have "unat (s AND 0x0F) = take_bit 4 (unat s)" by (simp add: unsigned_take_bit_eq)
  then show ?thesis using take_bit_nat_less_exp[of 4 "unat s"] by simp
qed

definition coeffs_ok :: "nat \<Rightarrow> u32 list \<Rightarrow> int list \<times> bitreader \<Rightarrow> bool" where
  "coeffs_ok p ws r \<longleftrightarrow> length (fst r) = 384 \<and> reader_from p ws (snd r)"

lemma decode_ac_safe:
  assumes "wf_ht ht" "length np = 17" "0 \<le> off" "off + 64 \<le> 384"
    and "length dct = 384" "reader_from p ws rd"
  shows "wp_opt (decode_ac ht np off k dct rd) (coeffs_ok p ws)"
  using assms(5,6)
proof (induction "64 - k" arbitrary: k dct rd rule: less_induct)
  case less
  have IH: "wp_opt (decode_ac ht np off k' dct' rd') (coeffs_ok p ws)"
    if "k < k'" "k < 64" "length dct' = 384" "reader_from p ws rd'" for k' dct' rd'
    using that by (intro less.hyps) auto
  show ?case
  proof (cases "k < 64")
    case False
    then show ?thesis using less.prems by (subst decode_ac.simps) (simp add: wp_simps coeffs_ok_def)
  next
    case True
    show ?thesis
      unfolding decode_ac.simps[of ht np off k] if_P[OF True] wp_opt_bind
    proof (rule wp_huff_from[OF less.prems(2) assms(1)])
      fix sym rd' assume rd': "reader_from p ws rd'"
      define size where "size = unat (sym AND 0x0F :: u8)"
      define run where "run = unat (drop_bit 4 sym AND 0x0F :: u8)"
      have size: "size \<le> 16" using nibble_bound[of sym] by (simp add: size_def)
      have z: "wp_opt (getKbits np size rd') (\<lambda>(v, rd). wp_opt (arr_get dezigzag (int (k + run))) (\<lambda>z.
          wp_opt (arr_set dct (off + z) (sint v)) (\<lambda>dct. wp_opt (decode_ac ht np off (k + run + 1) dct rd) (coeffs_ok p ws))))"
        if r: "k + run < 64"
      proof (rule wp_get_from[OF rd' size assms(2)])
        fix v rd'' assume "reader_from p ws rd''"
        then show "case (v, rd'') of (v, rd) \<Rightarrow> wp_opt (arr_get dezigzag (int (k + run))) (\<lambda>z.
          wp_opt (arr_set dct (off + z) (sint v)) (\<lambda>dct. wp_opt (decode_ac ht np off (k + run + 1) dct rd) (coeffs_ok p ws)))"
          using r scan_nth_range(2)[OF r] assms(3,4) less.prems(1) True by (auto simp: wp_simps nat_add_distrib intro!: IH)
      qed
      show "wp_opt (case (sym, rd') of (sym, rd) \<Rightarrow>
          let size = unat (sym AND 0x0F); run = unat (drop_bit 4 sym AND 0x0F)
          in if size = 0 then (if run \<noteq> 15 then Some (dct, rd) else decode_ac ht np off (k + 16) dct rd)
             else if k + run < 64 then do {
               (v, rd) \<leftarrow> getKbits np size rd;
               z \<leftarrow> arr_get dezigzag (int (k + run));
               dct \<leftarrow> arr_set dct (off + z) (sint v);
               decode_ac ht np off (k + run + 1) dct rd }
             else decode_ac ht np off (k + run + 1) dct rd) (coeffs_ok p ws)"
        unfolding Let_def prod.case size_def[symmetric] run_def[symmetric] wp_opt_if wp_opt_bind wp_opt_Some wp_opt_case_prod
        using z IH[of "k + 16" dct rd'] IH[of "k + run + 1" dct rd'] less.prems(1) rd' True
        by (simp add: coeffs_ok_def)
    qed
  qed
qed

text \<open>The result of a data unit: only coefficients and reader change.\<close>

definition unit_ok :: "nat \<Rightarrow> u32 list \<Rightarrow> Decoder \<Rightarrow> i16 \<times> Decoder \<Rightarrow> bool" where
  "unit_ok p ws d r \<longleftrightarrow> (\<exists>dct rd. snd r = d\<lparr>dctCoeff := dct, rdr := rd\<rparr> \<and> coeffs_ok p ws (dct, rd))"

lemma huffman_unit_safe:
  assumes wf: "dec_from p ws d" and off: "0 \<le> off" "off + 64 \<le> 384"
    and ix: "0 \<le> dcI" "dcI < 4" "0 \<le> acI" "acI < 4"
  shows "wp_opt (decodeHuffmanDataUnit dcI acI pred off d) (unit_ok p ws d)"
proof -
  have rd: "reader_from p ws (rdr d)" and arr: "wf_arrays d"
    using wf by (auto simp: dec_from_def wf_dec_def)
  have np: "length (negPow2 d) = 17" using arr by (simp add: wf_arrays_def)
  define dcT where "dcT = htDC d ! nat dcI"
  define acT where "acT = htAC d ! nat acI"
  have len: "length (htDC d) = 4" "length (htAC d) = 4" "length (dctCoeff d) = 384"
    using arr by (auto simp: wf_arrays_def wf_tables_def)
  have get: "arr_get (htDC d) dcI = Some dcT" "arr_get (htAC d) acI = Some acT"
    using ix len by (simp_all add: arr_get_in dcT_def acT_def)
  have ht: "wf_ht dcT" "wf_ht acT" "\<And>i. unat (ucast (ht_v dcT i) :: u8) \<le> 11"
    using arr ix len by (auto simp: wf_arrays_def wf_tables_def list_all_length dcT_def acT_def)
  have clear: "wp_opt (foldM (\<lambda>i dct. arr_set dct (off + int i) 0) [0..<64] (dctCoeff d)) (\<lambda>dct. length dct = 384)"
    by (rule wp_foldM_inv) (use len off in \<open>auto simp: wp_simps\<close>)
  have ac: "wp_opt (decode_ac acT (negPow2 d) off 1 dct rd)
      (\<lambda>(dct, rd). unit_ok p ws d (pr, d\<lparr>dctCoeff := dct, rdr := rd\<rparr>))"
    if "length dct = 384" "reader_from p ws rd" for dct rd and pr :: i16
    by (rule wp_opt_mono[OF decode_ac_safe[OF ht(2) np off that]]) (auto simp: unit_ok_def)
  show ?thesis
    unfolding decodeHuffmanDataUnit_def get bind.bind_lunit wp_opt_bind
  proof (rule wp_opt_mono[OF clear], rule wp_huff_from[OF rd ht(1)])
    fix dct :: "int list" and category rd
    assume dct: "length dct = 384" and rd: "reader_from p ws rd"
      and cat: "category \<in> range (\<lambda>i. ucast (ht_v dcT i) :: u8)"
    obtain i where "category = ucast (ht_v dcT i)" using cat by auto
    then have c16: "unat category \<le> 16" using ht(3)[of i] by simp
    have cat_step: "wp_opt (getKbits (negPow2 d) (unat category) rd) (\<lambda>(diff, rd).
        wp_opt (arr_set dct off (sint pred + sint diff)) (\<lambda>dct.
        wp_opt (decode_ac acT (negPow2 d) off 1 dct rd)
          (\<lambda>(dct, rd). unit_ok p ws d (word_of_int (sint pred + sint diff), d\<lparr>dctCoeff := dct, rdr := rd\<rparr>))))"
      by (rule wp_get_from[OF rd c16 np]) (use off dct ac in \<open>auto simp: wp_simps\<close>)
    have dc0: "wp_opt (arr_set dct off (sint pred)) (\<lambda>dct. wp_opt (decode_ac acT (negPow2 d) off 1 dct rd)
          (\<lambda>(dct, rd). unit_ok p ws d (pred, d\<lparr>dctCoeff := dct, rdr := rd\<rparr>)))"
      using off dct ac rd by (auto simp: wp_simps)
    show "wp_opt (case (category, rd) of (category, rd) \<Rightarrow> do {
       (dct, dcPred, rd) \<leftarrow>
         (if category = 0 then do {
            dct \<leftarrow> arr_set dct off (sint pred);
            Some (dct, pred, rd)
          }
          else do {
            (diff, rd) \<leftarrow> getKbits (negPow2 d) (unat category) rd;
            let dc = sint pred + sint diff;
            dct \<leftarrow> arr_set dct off dc;
            Some (dct, word_of_int dc, rd)
          });
       (dct, rd) \<leftarrow> decode_ac acT (negPow2 d) off 1 dct rd;
       Some (dcPred, d\<lparr>dctCoeff := dct, rdr := rd\<rparr>)
     }) (unit_ok p ws d)"
      unfolding prod.case wp_opt_bind wp_opt_if Let_def wp_opt_case_prod wp_opt_Some
      using cat_step dc0 by simp
  qed
qed

lemmas wf_defs = dec_from_def wf_dec_def wf_arrays_def wf_frame_def geometry_def block_ok_def

lemma inverseDCT_safe:
  assumes wf: "dec_from p ws d" and off: "n + 64 \<le> 384" and qi: "0 \<le> qi" "qi < 4"
  shows "wp_opt (inverseDCT (int n) qi d) (block_ok p ws d)"
proof -
  have arr: "wf_arrays d" using wf by (simp add: dec_from_def wf_dec_def)
  define q where "q = qt d ! nat qi"
  have q: "arr_get (qt d) qi = Some q" "length q = 64"
    using arr qi by (auto simp: wf_arrays_def arr_get_in q_def list_all_length)
  have len: "length (dctCoeff d) = 384" "length (workspace d) = 64" "length (yuvTile d) = 768"
    "rangeLimit (colors d) = initRangeLimitTable"
    using arr by (auto simp: wf_arrays_def initColorTable_def)
  have "wp_opt (inverse_dct initRangeLimitTable (dctCoeff d) q (int n) (workspace d) (yuvTile d))
      (\<lambda>(ws', t). length ws' = 64 \<and> tile_upto (idct_ref (dctCoeff d) q n) n (yuvTile d) 64 t)"
    using off len q by (intro inverse_dct_spec) auto
  then have "wp_opt (inverse_dct initRangeLimitTable (dctCoeff d) q (int n) (workspace d) (yuvTile d))
      (\<lambda>(ws', t). block_ok p ws d (d\<lparr>workspace := ws', yuvTile := t\<rparr>))"
    by (rule wp_opt_mono) (use wf in \<open>auto simp: wf_defs tile_upto_def\<close>)
  then show ?thesis
    unfolding inverseDCT_def q(1) len(4) by (simp add: wp_simps)
qed

lemma unit_then_idct:
  assumes wf: "dec_from p ws d" and off: "n + 64 \<le> 384" and qi: "0 \<le> qi" "qi < 4"
    and ix: "0 \<le> t" "t < 4"
    and upd: "\<And>v e. dec_from p ws e \<Longrightarrow> block_ok p ws e (upd v e)"
  shows "wp_opt (do { (v, d) \<leftarrow> decodeHuffmanDataUnit t t pred (int n) d; inverseDCT (int n) qi (upd v d) })
    (block_ok p ws d)"
  unfolding wp_opt_bind
proof (rule wp_opt_mono)
  show "wp_opt (decodeHuffmanDataUnit t t pred (int n) d) (unit_ok p ws d)"
    using assms by (intro huffman_unit_safe) auto
next
  fix r assume "unit_ok p ws d r"
  then obtain v dct rd where r: "r = (v, d\<lparr>dctCoeff := dct, rdr := rd\<rparr>)" and c: "coeffs_ok p ws (dct, rd)"
    by (cases r) (auto simp: unit_ok_def)
  have e: "block_ok p ws d (d\<lparr>dctCoeff := dct, rdr := rd\<rparr>)"
    using wf c by (auto simp: wf_defs coeffs_ok_def)
  then have u: "block_ok p ws d (upd v (d\<lparr>dctCoeff := dct, rdr := rd\<rparr>))"
    using upd block_ok_trans by (auto simp: block_ok_def)
  then have "wp_opt (inverseDCT (int n) qi (upd v (d\<lparr>dctCoeff := dct, rdr := rd\<rparr>)))
      (block_ok p ws (upd v (d\<lparr>dctCoeff := dct, rdr := rd\<rparr>)))"
    using off qi by (intro inverseDCT_safe) (auto simp: block_ok_def)
  then show "wp_opt (case r of (v, d) \<Rightarrow> inverseDCT (int n) qi (upd v d)) (block_ok p ws d)"
    unfolding r prod.case by (rule wp_opt_mono) (rule block_ok_trans[OF u])
qed

lemma decode_units_safe:
  assumes "dec_from p ws d" "n + 64 \<le> 384" "0 \<le> qi" "qi < 4"
  shows "wp_opt (decode_Y (int n) qi d) (block_ok p ws d)"
    "wp_opt (decode_Cb (int n) qi d) (block_ok p ws d)"
    "wp_opt (decode_Cr (int n) qi d) (block_ok p ws d)"
  unfolding decode_Y_def decode_Cb_def decode_Cr_def
  by (rule unit_then_idct[OF assms]; simp add: wf_defs)+

section \<open>Writing pixels\<close>

lemma put_pixel_safe:
  "\<lbrakk>0 \<le> i; length px = 4\<rbrakk> \<Longrightarrow> wp_opt (put_pixel fb i px) (\<lambda>fb'. length fb' = length fb)"
  using set_run_spec[of i px fb] by (auto simp: put_pixel_def wp_simps wp_opt_iff)

lemma put_previous_safe:
  "\<lbrakk>0 \<le> i; length s = 3\<rbrakk> \<Longrightarrow> wp_opt (put_previous prev i s) (\<lambda>p'. length p' = length prev)"
  using set_run_spec[of i s prev] by (auto simp: put_previous_def wp_simps wp_opt_iff)

lemma put_previous_total:
  "\<lbrakk>0 \<le> i; length s = 3\<rbrakk> \<Longrightarrow> wp_opt (put_previous prev i s) (\<lambda>_. True)"
  by (rule wp_opt_mono[OF put_previous_safe]) auto

lemma tile_samples_spec:
  "\<lbrakk>0 \<le> i; i < 64; length tile = 768\<rbrakk> \<Longrightarrow>
     tile_samples tile i = Some [tile ! nat i, tile ! nat (64 + i), tile ! nat (128 + i)]"
  by (simp add: tile_samples_def arr_get_in)

lemma updatePreviousYUV_safe:
  assumes wf: "dec_from p ws d" and tile: "0 \<le> tx" "0 \<le> ty"
  shows "wp_opt (updatePreviousYUV tx ty d) (block_ok p ws d)"
proof -
  have len: "length (yuvTile d) = 768" and rw: "0 \<le> realWidth d" using wf by (auto simp: wf_defs)
  have "wp_opt (foldM (\<lambda>row prev.
          foldM (\<lambda>col prev. do {
              let py = ty * 8 + int row;
              let px = tx * 8 + int col;
              let tileIdx = int row * 8 + int col;
              let yuvIdx = (py * realWidth d + px) * 3;
              s \<leftarrow> tile_samples (yuvTile d) tileIdx;
              put_previous prev yuvIdx s
            }) (takeWhile (\<lambda>col. tx * 8 + int col < realWidth d) [0..<8]) prev)
          (takeWhile (\<lambda>row. ty * 8 + int row < realHeight d) [0..<8]) (previousYUV d)) (\<lambda>prev. True)"
  proof (rule wp_foldM_inv, simp, rule wp_foldM_inv, simp)
    fix row col and prev :: "int list"
    assume "row \<in> set (takeWhile (\<lambda>row. ty * 8 + int row < realHeight d) [0..<8])"
      and "col \<in> set (takeWhile (\<lambda>col. tx * 8 + int col < realWidth d) [0..<8])"
    then have rc: "row < 8" "col < 8" by (auto dest!: set_takeWhileD)
    have "0 \<le> ((ty * 8 + int row) * realWidth d + (tx * 8 + int col)) * 3" using tile rw by simp
    then show "wp_opt (let py = ty * 8 + int row; px = tx * 8 + int col; tileIdx = int row * 8 + int col;
              yuvIdx = (py * realWidth d + px) * 3
          in do { s \<leftarrow> tile_samples (yuvTile d) tileIdx; put_previous prev yuvIdx s }) (\<lambda>prev. True)"
      using rc len by (simp add: Let_def tile_samples_spec wp_simps put_previous_total)
  qed
  then show ?thesis
    unfolding updatePreviousYUV_def Let_def
    using wf by (auto simp: wp_simps wp_opt_iff wf_defs)
qed

section \<open>Painting\<close>

text \<open>A framebuffer after the pixels in \<open>D\<close> have been painted: pixel \<open>(x, y)\<close> has the colour \<open>f x y\<close>.\<close>

definition painted ::
  "nat \<Rightarrow> nat \<Rightarrow> (nat \<Rightarrow> nat \<Rightarrow> u8 list) \<Rightarrow> bytes \<Rightarrow> (nat \<times> nat) set \<Rightarrow> bytes \<Rightarrow> bool" where
  "painted W H f fb0 D fb \<longleftrightarrow> length fb = length fb0
     \<and> (\<forall>x y b. x < W \<longrightarrow> y < H \<longrightarrow> b < 4 \<longrightarrow>
          fb ! ((y * W + x) * 4 + b) = (if (x, y) \<in> D then f x y ! b else fb0 ! ((y * W + x) * 4 + b)))"

lemma pixel_index_bound: "\<lbrakk>x < W; y < H; b < 4\<rbrakk> \<Longrightarrow> (y * W + x) * 4 + b < W * H * (4 :: nat)"
proof -
  assume "x < W" "y < H" "b < 4"
  then have "y * W + x < W * H"
    using mult_le_mono1[of "Suc y" H W] by (simp add: mult.commute)
  then show ?thesis using \<open>b < 4\<close> by simp
qed

lemma pixel_index_inj:
  assumes "x < W" "x' < W" "b < 4" "b' < (4 :: nat)" "(y * W + x) * 4 + b = (y' * W + x') * 4 + b'"
  shows "x = x' \<and> y = y' \<and> b = b'"
proof -
  have "(y * W + x) * 4 + b = b + 4 * (y * W + x)" "(y' * W + x') * 4 + b' = b' + 4 * (y' * W + x')" by simp_all
  then have "b = b'" "y * W + x = y' * W + x'"
    using assms(3-5) by (metis mod_less mod_mult_self2, metis add_diff_cancel_left' assms(3-5) mod_less mod_mult_self2 mult_cancel1 zero_neq_numeral)
  moreover from this(2) have "x = x'" using assms(1,2) by (metis mod_less mod_mult_self3)
  ultimately show ?thesis using assms(1) by simp
qed

lemma set_run_nat:
  assumes "n + length vs \<le> length xs"
  shows "\<exists>ys. set_run xs (int n) vs = Some ys \<and> length ys = length xs
    \<and> (\<forall>t<length xs. ys ! t = (if n \<le> t \<and> t < n + length vs then vs ! (t - n) else xs ! t))"
proof -
  have "0 \<le> int n" "int n + int (length vs) \<le> int (length xs)" using assms by simp_all
  from set_run_spec[OF this] show ?thesis unfolding nat_int .
qed

lemma painted_step:
  assumes "painted W H f fb0 D fb" "length fb0 = W * H * 4" "x < W" "y < H" "length (f x y) = 4"
  shows "wp_opt (put_pixel fb (int ((y * W + x) * 4)) (f x y)) (painted W H f fb0 (insert (x, y) D))"
proof -
  define i where "i = (y * W + x) * 4"
  have len: "length fb = W * H * 4" using assms(1,2) by (simp add: painted_def)
  have bnd: "i + 3 < length fb" using pixel_index_bound[OF assms(3,4), of 3] len by (simp add: i_def)
  obtain ys where ys: "set_run fb (int i) (f x y) = Some ys" "length ys = length fb"
    "\<And>t. t < length fb \<Longrightarrow> ys ! t = (if i \<le> t \<and> t < i + 4 then f x y ! (t - i) else fb ! t)"
    using set_run_nat[of i "f x y" fb] bnd assms(5) by auto
  have "ys ! ((y' * W + x') * 4 + b) = (if (x', y') \<in> insert (x, y) D then f x' y' ! b else fb0 ! ((y' * W + x') * 4 + b))"
    if p: "x' < W" "y' < H" "b < 4" for x' y' b
  proof -
    define t where "t = (y' * W + x') * 4 + b"
    have t: "t < length fb" using pixel_index_bound[OF p] len by (simp add: t_def)
    show ?thesis
    proof (cases "(x', y') = (x, y)")
      case True
      then have "t = i + b" by (simp add: t_def i_def)
      then show ?thesis unfolding t_def[symmetric] using ys(3)[OF t] p(3) True by simp
    next
      case False
      have "\<not> (i \<le> t \<and> t < i + 4)"
      proof
        assume a: "i \<le> t \<and> t < i + 4"
        then have "(y' * W + x') * 4 + b = (y * W + x) * 4 + (t - i)" "t - i < 4"
          by (auto simp: t_def i_def)
        then show False using pixel_index_inj[OF p(1) assms(3) p(3), of "t - i" y' y] False by auto
      qed
      then have "ys ! t = fb ! t" using ys(3)[OF t] by (simp only: if_False)
      then show ?thesis using assms(1) p False by (auto simp: painted_def t_def)
    qed
  qed
  then have "painted W H f fb0 (insert (x, y) D) ys"
    using ys(2) len assms(2) by (simp add: painted_def)
  moreover have "int i + 3 < int (length fb)" using bnd by linarith
  ultimately show ?thesis
    unfolding put_pixel_def i_def[symmetric] by (simp only: if_True ys(1) wp_opt_Some)
qed

lemma takeWhile_upt: "takeWhile (\<lambda>k. a + int k < b) [0..<n] = [0..<min n (nat (b - a))]"
proof (induction n)
  case (Suc n)
  show ?case
  proof (cases "a + int n < b")
    case True
    then have "\<forall>k\<in>set [0..<n]. a + int k < b" by auto
    then have "takeWhile (\<lambda>k. a + int k < b) ([0..<n] @ [n]) = [0..<n] @ [n]"
      using True by (simp add: takeWhile_append2)
    moreover have "min (Suc n) (nat (b - a)) = Suc n" using True by auto
    ultimately show ?thesis by simp
  next
    case False
    have "takeWhile (\<lambda>k. a + int k < b) ([0..<n] @ [n]) = takeWhile (\<lambda>k. a + int k < b) [0..<n]"
      using False by (simp add: takeWhile_tail)
    moreover have "min (Suc n) (nat (b - a)) = min n (nat (b - a))" using False by auto
    ultimately show ?thesis using Suc.IH by simp
  qed
qed simp

end
