(* ===== verification/Tiles.thy ===== *)
theory Tiles
  imports Blocks
begin

text \<open>
  The second half of \<open>decompress.go\<close>: the colour conversions paint exactly the pixels of their
  tile, and every block decoder (\<open>decompressJPEG\<close>, \<open>decompressJPEGPass2\<close>, \<open>decodeVQHeader\<close>,
  \<open>decompressVQ\<close>) never panics and keeps the invariant; \<open>moveBlockIndex\<close> stays in the grid.
\<close>

section \<open>Conversion of a 4:4:4 tile\<close>

text \<open>The colour of pixel \<open>(x, y)\<close> when its tile holds the samples \<open>tile\<close>.\<close>

definition color444 :: "int list \<Rightarrow> nat \<Rightarrow> nat \<Rightarrow> u8 list" where
  "color444 tile x y =
     (let i = (y mod 8) * 8 + x mod 8 in pixel_spec (tile ! i) (tile ! (64 + i)) (tile ! (128 + i)))"

lemma length_color444 [simp]: "length (color444 tile x y) = 4"
  by (simp add: color444_def Let_def)

definition W_of :: "Decoder \<Rightarrow> nat" where "W_of d = unat (Width d)"
definition H_of :: "Decoder \<Rightarrow> nat" where "H_of d = unat (Height d)"

lemma uint_frame: "uint (Width d) = int (W_of d)" "uint (Height d) = int (H_of d)"
  unfolding W_of_def H_of_def by (rule uint_nat)+

lemma wf_frame_len: "wf_dec d \<Longrightarrow> length (Framebuffer d) = W_of d * H_of d * 4"
proof -
  assume "wf_dec d"
  then have "int (length (Framebuffer d)) = int (W_of d * H_of d * 4)"
    by (simp add: wf_dec_def wf_frame_def uint_frame)
  then show ?thesis by (simp only: of_nat_eq_iff)
qed

lemma convert_pixel444_step:
  assumes wf: "wf_dec d" and rc: "row < 8" "col < 8"
    and xy: "X * 8 + col < W_of d" "Y * 8 + row < H_of d"
    and p: "painted (W_of d) (H_of d) (color444 (yuvTile d)) (Framebuffer d) D (fst s)"
  shows "wp_opt (convert_pixel444 d (int X * 8) (int Y * 8) row col s)
    (\<lambda>s'. painted (W_of d) (H_of d) (color444 (yuvTile d)) (Framebuffer d) (insert (X * 8 + col, Y * 8 + row) D) (fst s'))"
proof -
  obtain fb prev where s: "s = (fb, prev)" by (cases s)
  have len: "length (yuvTile d) = 768" "colors d = initColorTable" "0 \<le> realWidth d"
    using wf by (auto simp: wf_dec_def wf_arrays_def wf_frame_def)
  define i where "i = row * 8 + col"
  have i: "int row * 8 + int col = int i" "i < 64" using rc by (auto simp: i_def)
  have smp: "tile_samples (yuvTile d) (int i)
      = Some [yuvTile d ! i, yuvTile d ! (64 + i), yuvTile d ! (128 + i)]"
    using i len by (simp add: tile_samples_spec nat_add_distrib)
  have c: "pixel_spec (yuvTile d ! i) (yuvTile d ! (64 + i)) (yuvTile d ! (128 + i))
      = color444 (yuvTile d) (X * 8 + col) (Y * 8 + row)"
    using rc by (simp add: color444_def Let_def i_def)
  have ix: "((int Y * 8 + int row) * uint (Width d) + (int X * 8 + int col)) * 4
      = int (((Y * 8 + row) * W_of d + (X * 8 + col)) * 4)"
    by (simp add: uint_frame)
  have paint: "wp_opt (put_pixel fb (int (((Y * 8 + row) * W_of d + (X * 8 + col)) * 4))
      (color444 (yuvTile d) (X * 8 + col) (Y * 8 + row)))
      (painted (W_of d) (H_of d) (color444 (yuvTile d)) (Framebuffer d) (insert (X * 8 + col, Y * 8 + row) D))"
    using p s by (intro painted_step wf_frame_len[OF wf] xy) simp_all
  have nn: "0 \<le> ((int Y * 8 + int row) * realWidth d + (int X * 8 + int col)) * 3" using len by simp
  show ?thesis
    unfolding convert_pixel444_def s prod.case Let_def i(1) smp bind.bind_lunit wp_opt_bind ix
  proof (rule wp_opt_mono[OF put_previous_total[OF nn]])
    fix prev'
    show "wp_opt (yuv_pixel (colors d) ([yuvTile d ! i, yuvTile d ! (64 + i), yuvTile d ! (128 + i)] ! 0)
           ([yuvTile d ! i, yuvTile d ! (64 + i), yuvTile d ! (128 + i)] ! 1)
           ([yuvTile d ! i, yuvTile d ! (64 + i), yuvTile d ! (128 + i)] ! 2))
       (\<lambda>pix. wp_opt (put_pixel fb (int (((Y * 8 + row) * W_of d + (X * 8 + col)) * 4)) pix)
         (\<lambda>fb. wp_opt (Some (fb, prev')) (\<lambda>s'. painted (W_of d) (H_of d) (color444 (yuvTile d)) (Framebuffer d)
            (insert (X * 8 + col, Y * 8 + row) D) (fst s'))))"
      using paint by (simp add: len yuv_pixel_spec wp_opt_Some c)
  qed simp
qed


lemma painted_cong:
  assumes "painted W H f fb0 D fb" "\<And>x y. x < W \<Longrightarrow> y < H \<Longrightarrow> (x, y) \<in> D \<longleftrightarrow> (x, y) \<in> D'"
  shows "painted W H f fb0 D' fb"
  using assms by (simp add: painted_def)

definition tile_rows :: "nat \<Rightarrow> nat \<Rightarrow> nat \<Rightarrow> nat \<Rightarrow> (nat \<times> nat) set" where
  "tile_rows S X Y r = {(x, y). x div S = X \<and> y div S = Y \<and> y mod S < r}"

definition tile_part :: "nat \<Rightarrow> nat \<Rightarrow> nat \<Rightarrow> nat \<Rightarrow> nat \<Rightarrow> (nat \<times> nat) set" where
  "tile_part S X Y r k = tile_rows S X Y r \<union> {(x, y). x div S = X \<and> x mod S < k \<and> y = Y * S + r}"

lemma div_mod_eq: "0 < S \<Longrightarrow> x div S = X \<and> x mod S = k \<longleftrightarrow> k < S \<and> x = X * S + (k :: nat)"
proof
  assume "0 < S" and h: "x div S = X \<and> x mod S = k"
  then have "x = X * S + k" using div_mult_mod_eq[of x S] by simp
  then show "k < S \<and> x = X * S + k" using h mod_less_divisor[OF \<open>0 < S\<close>, of x] by simp
qed auto

lemma mod_in: "\<lbrakk>x < W; x div S = X\<rbrakk> \<Longrightarrow> x mod S < W - X * (S :: nat)"
proof -
  assume "x < W" "x div S = X"
  then have "X * S + x mod S < W" using div_mult_mod_eq[of x S] by simp
  then show ?thesis by simp
qed

lemma nat_sub8: "nat (int a - int b * 8) = a - b * 8"
  by arith

lemma tile_part_insert:
  "k < S \<Longrightarrow> insert (X * S + k, Y * S + r) (tile_part S X Y r k) = tile_part S X Y r (Suc k)"
  using div_mod_eq[of S _ X k] by (auto simp: tile_part_def less_Suc_eq)

lemma tile_part_0: "tile_part S X Y r 0 = tile_rows S X Y r"
  by (auto simp: tile_part_def)

lemma tile_part_row:
  assumes "r < S" "x div S = X \<Longrightarrow> x mod S < nc"
  shows "(x, y) \<in> tile_part S X Y r nc \<longleftrightarrow> (x, y) \<in> tile_rows S X Y (Suc r)"
proof -
  have "y div S = Y \<and> y mod S = r \<longleftrightarrow> y = Y * S + r" using div_mod_eq[of S y Y r] assms(1) by simp
  then show ?thesis using assms(2) by (auto simp: tile_part_def tile_rows_def less_Suc_eq)
qed

text \<open>The nested loops of the conversions, over any state that contains a framebuffer; \<open>J\<close> is what
  else the loops maintain.\<close>

lemma paint_tile:
  fixes step :: "nat \<Rightarrow> nat \<Rightarrow> 's \<Rightarrow> 's option" and fbof :: "'s \<Rightarrow> bytes"
  assumes step: "\<And>row col s D. \<lbrakk>row < nr; col < nc; J row col s; painted W H f fb0 D (fbof s)\<rbrakk>
      \<Longrightarrow> wp_opt (step row col s)
            (\<lambda>s'. J row (Suc col) s' \<and> painted W H f fb0 (insert (X * S + col, Y * S + row) D) (fbof s'))"
    and J: "J 0 0 s0" "\<And>r s. r < nr \<Longrightarrow> J r nc s \<Longrightarrow> J (Suc r) 0 s"
    and S: "nr \<le> S" "nc \<le> S" "\<And>x. \<lbrakk>x < W; x div S = X\<rbrakk> \<Longrightarrow> x mod S < nc"
    and init: "fbof s0 = fb0"
  shows "wp_opt (foldM (\<lambda>row. foldM (step row) [0..<nc]) [0..<nr] s0)
    (\<lambda>s. painted W H f fb0 (tile_rows S X Y nr) (fbof s))"
proof -
  have "wp_opt (foldM (\<lambda>row. foldM (step row) [0..<nc]) [0..<nr] s0)
      (\<lambda>s. J nr 0 s \<and> painted W H f fb0 (tile_rows S X Y nr) (fbof s))"
  proof (rule wp_foldM_upt[where I = "\<lambda>r s. J r 0 s \<and> painted W H f fb0 (tile_rows S X Y r) (fbof s)"])
    show "J 0 0 s0 \<and> painted W H f fb0 (tile_rows S X Y 0) (fbof s0)"
      using J by (simp add: painted_def tile_rows_def init)
  next
    fix r s assume r: "0 \<le> r" "r < nr" and inv: "J r 0 s \<and> painted W H f fb0 (tile_rows S X Y r) (fbof s)"
    have rS: "r < S" using r S by simp
    have "wp_opt (foldM (step r) [0..<nc] s) (\<lambda>s. J r nc s \<and> painted W H f fb0 (tile_part S X Y r nc) (fbof s))"
    proof (rule wp_foldM_upt[where I = "\<lambda>k s. J r k s \<and> painted W H f fb0 (tile_part S X Y r k) (fbof s)"])
      show "J r 0 s \<and> painted W H f fb0 (tile_part S X Y r 0) (fbof s)" using inv by (simp add: tile_part_0)
    next
      fix k s' assume k: "0 \<le> k" "k < nc" and i: "J r k s' \<and> painted W H f fb0 (tile_part S X Y r k) (fbof s')"
      have kS: "k < S" using k S by simp
      show "wp_opt (step r k s') (\<lambda>s. J r (Suc k) s \<and> painted W H f fb0 (tile_part S X Y r (Suc k)) (fbof s))"
        using step[OF r(2) k(2)] i by (simp add: tile_part_insert[OF kS, symmetric])
    qed simp
    then show "wp_opt (foldM (step r) [0..<nc] s) (\<lambda>s. J (Suc r) 0 s \<and> painted W H f fb0 (tile_rows S X Y (Suc r)) (fbof s))"
    proof (rule wp_opt_mono)
      fix s assume a: "J r nc s \<and> painted W H f fb0 (tile_part S X Y r nc) (fbof s)"
      then have "painted W H f fb0 (tile_rows S X Y (Suc r)) (fbof s)"
        using tile_part_row[OF rS S(3)] by (auto elim!: painted_cong)
      then show "J (Suc r) 0 s \<and> painted W H f fb0 (tile_rows S X Y (Suc r)) (fbof s)" using a J(2)[OF r(2)] by simp
    qed
  qed simp
  then show ?thesis by (rule wp_opt_mono) simp
qed

text \<open>The 4:4:4 loops cover the tile.\<close>

lemma paint_tile8:
  fixes step :: "nat \<Rightarrow> nat \<Rightarrow> 's \<Rightarrow> 's option" and fbof :: "'s \<Rightarrow> bytes"
  assumes step: "\<And>row col s D. \<lbrakk>row < 8; col < 8; X * 8 + col < W; Y * 8 + row < H; painted W H f fb0 D (fbof s)\<rbrakk>
      \<Longrightarrow> wp_opt (step row col s) (\<lambda>s'. painted W H f fb0 (insert (X * 8 + col, Y * 8 + row) D) (fbof s'))"
    and init: "fbof s0 = fb0"
  shows "wp_opt (foldM (\<lambda>row. foldM (step row) [0..<min 8 (W - X * 8)]) [0..<min 8 (H - Y * 8)] s0)
    (\<lambda>s. painted W H f fb0 {(x, y). x div 8 = X \<and> y div 8 = Y} (fbof s))"
proof -
  have "wp_opt (foldM (\<lambda>row. foldM (step row) [0..<min 8 (W - X * 8)]) [0..<min 8 (H - Y * 8)] s0)
    (\<lambda>s. painted W H f fb0 (tile_rows 8 X Y (min 8 (H - Y * 8))) (fbof s))"
    by (rule paint_tile[where J = "\<lambda>_ _ _. True"]) (use mod_in[of _ W 8 X] in \<open>auto intro: step simp: init\<close>)
  then show ?thesis
    by (rule wp_opt_mono) (erule painted_cong, use mod_in[of _ H 8 Y] in \<open>auto simp: tile_rows_def\<close>)
qed

lemma convert_cols:
  "takeWhile (\<lambda>col. int X * 8 + int col < uint (Width d)) [0..<max_col (uint (Width d)) (int X * 8)]
     = [0..<min 8 (W_of d - X * 8)]"
  unfolding takeWhile_upt uint_frame max_col_def nat_sub8 by (auto simp: min_def)

lemma convert_rows:
  "takeWhile (\<lambda>row. int Y * 8 + int row < uint (Height d)) [0..<8] = [0..<min 8 (H_of d - Y * 8)]"
  unfolding takeWhile_upt uint_frame nat_sub8 by (rule refl)

lemma convert444_spec:
  assumes wf: "wf_dec d"
  shows "wp_opt (convert444 (int X) (int Y) d) (\<lambda>d'. \<exists>fb prev. d' = d\<lparr>Framebuffer := fb, previousYUV := prev\<rparr>
    \<and> painted (W_of d) (H_of d) (color444 (yuvTile d)) (Framebuffer d) {(x, y). x div 8 = X \<and> y div 8 = Y} fb)"
proof -
  have "wp_opt (foldM (\<lambda>row. foldM (convert_pixel444 d (int X * 8) (int Y * 8) row) [0..<min 8 (W_of d - X * 8)])
      [0..<min 8 (H_of d - Y * 8)] (Framebuffer d, previousYUV d))
    (\<lambda>s. painted (W_of d) (H_of d) (color444 (yuvTile d)) (Framebuffer d) {(x, y). x div 8 = X \<and> y div 8 = Y} (fst s))"
    by (rule paint_tile8) (auto intro: convert_pixel444_step[OF wf])
  then show ?thesis
    unfolding convert444_def Let_def convert_cols convert_rows wp_opt_bind wp_opt_case_prod wp_opt_Some
    by (rule wp_opt_mono) auto
qed


section \<open>Conversion of a differential tile\<close>

definition color_pass2 :: "Decoder \<Rightarrow> nat \<Rightarrow> nat \<Rightarrow> u8 list" where
  "color_pass2 d x y =
     (let i = (y mod 8) * 8 + x mod 8; j = (y * nat (realWidth d) + x) * 3; t = yuvTile d; p = previousYUV d
      in if j + 2 < length p
         then pixel_spec (p ! j + (t ! i - 128)) (p ! (j + 1) + (t ! (64 + i) - 128)) (p ! (j + 2) + (t ! (128 + i) - 128))
         else pixel_spec 0 0 0)"

lemma length_color_pass2 [simp]: "length (color_pass2 d x y) = 4"
  by (simp add: color_pass2_def Let_def)

lemma convert_pixel_pass2_step:
  assumes wf: "wf_dec d" and rc: "row < 8" "col < 8"
    and xy: "X * 8 + col < W_of d" "Y * 8 + row < H_of d"
    and p: "painted (W_of d) (H_of d) (color_pass2 d) (Framebuffer d) D fb"
  shows "wp_opt (convert_pixel_pass2 d (int X * 8) (int Y * 8) row col fb)
    (painted (W_of d) (H_of d) (color_pass2 d) (Framebuffer d) (insert (X * 8 + col, Y * 8 + row) D))"
proof -
  have len: "length (yuvTile d) = 768" "colors d = initColorTable" "0 \<le> realWidth d"
    using wf by (auto simp: wf_dec_def wf_arrays_def wf_frame_def)
  define i where "i = row * 8 + col"
  define j where "j = ((Y * 8 + row) * nat (realWidth d) + (X * 8 + col)) * 3"
  have i: "int row * 8 + int col = int i" "i < 64" using rc by (auto simp: i_def)
  have j: "((int Y * 8 + int row) * realWidth d + (int X * 8 + int col)) * 3 = int j"
    using len(3) by (simp add: j_def)
  have smp: "tile_samples (yuvTile d) (int i)
      = Some [yuvTile d ! i, yuvTile d ! (64 + i), yuvTile d ! (128 + i)]"
    using i len by (simp add: tile_samples_spec nat_add_distrib)
  have prev: "arr_get (previousYUV d) (int j) = Some (previousYUV d ! j)"
    "arr_get (previousYUV d) (int j + 1) = Some (previousYUV d ! (j + 1))"
    "arr_get (previousYUV d) (int j + 2) = Some (previousYUV d ! (j + 2))" if "j + 2 < length (previousYUV d)"
    using that by (simp_all add: arr_get_def nat_add_distrib)
  have c: "color_pass2 d (X * 8 + col) (Y * 8 + row) =
     (if j + 2 < length (previousYUV d)
      then pixel_spec (previousYUV d ! j + (yuvTile d ! i - 128)) (previousYUV d ! (j + 1) + (yuvTile d ! (64 + i) - 128))
             (previousYUV d ! (j + 2) + (yuvTile d ! (128 + i) - 128))
      else pixel_spec 0 0 0)"
    using rc by (simp add: color_pass2_def Let_def i_def j_def)
  have ix: "((int Y * 8 + int row) * uint (Width d) + (int X * 8 + int col)) * 4
      = int (((Y * 8 + row) * W_of d + (X * 8 + col)) * 4)"
    by (simp add: uint_frame)
  have paint: "wp_opt (put_pixel fb (int (((Y * 8 + row) * W_of d + (X * 8 + col)) * 4))
      (color_pass2 d (X * 8 + col) (Y * 8 + row)))
      (painted (W_of d) (H_of d) (color_pass2 d) (Framebuffer d) (insert (X * 8 + col, Y * 8 + row) D))"
    using p by (intro painted_step wf_frame_len[OF wf] xy) simp_all
  have lt: "int j + 2 < int (length (previousYUV d)) \<longleftrightarrow> j + 2 < length (previousYUV d)" by linarith
  show ?thesis
    unfolding convert_pixel_pass2_def Let_def i(1) j smp ix lt
    using paint by (cases "j + 2 < length (previousYUV d)")
      (simp_all add: prev len yuv_pixel_spec c wp_simps del: of_nat_mult of_nat_add)
qed

lemma convertPass2_spec:
  assumes wf: "wf_dec d" and m: "mode420 d = 0"
  shows "wp_opt (convertYUVtoRGBPass2 (int X) (int Y) d) (\<lambda>d'. \<exists>fb. d' = d\<lparr>Framebuffer := fb\<rparr>
    \<and> painted (W_of d) (H_of d) (color_pass2 d) (Framebuffer d) {(x, y). x div 8 = X \<and> y div 8 = Y} fb)"
proof -
  have "wp_opt (foldM (\<lambda>row. foldM (convert_pixel_pass2 d (int X * 8) (int Y * 8) row) [0..<min 8 (W_of d - X * 8)])
      [0..<min 8 (H_of d - Y * 8)] (Framebuffer d))
    (\<lambda>s. painted (W_of d) (H_of d) (color_pass2 d) (Framebuffer d) {(x, y). x div 8 = X \<and> y div 8 = Y} s)"
    by (rule paint_tile8) (auto intro: convert_pixel_pass2_step[OF wf])
  then show ?thesis
    unfolding convertYUVtoRGBPass2_def Let_def convert_cols convert_rows wp_opt_bind
    using m by (auto simp: wp_simps elim!: wp_opt_mono)
qed

section \<open>Conversion of a 4:2:0 tile\<close>

definition color420 :: "int list \<Rightarrow> nat \<Rightarrow> nat \<Rightarrow> u8 list" where
  "color420 tile x y =
     (let r = y mod 16; c = x mod 16; blk = (r div 8) * 2 + c div 8; ch = (r div 2) * 8 + c div 2
      in pixel_spec (tile ! (64 * blk + (r mod 8) * 8 + c mod 8)) (tile ! (256 + ch)) (tile ! (320 + ch)))"

lemma length_color420 [simp]: "length (color420 tile x y) = 4"
  by (simp add: color420_def Let_def)

text \<open>How often each luma block has been read before column \<open>c\<close> of row \<open>r\<close>.\<close>

definition block_count :: "nat \<Rightarrow> nat \<Rightarrow> nat \<Rightarrow> nat" where
  "block_count r c blk =
     (if blk div 2 < r div 8 then 64
      else if blk div 2 = r div 8 then (r mod 8) * 8 + (if blk mod 2 = 0 then min c 8 else c - 8)
      else 0)"

definition counts :: "nat \<Rightarrow> nat \<Rightarrow> bytes \<times> int list \<Rightarrow> bool" where
  "counts r c s \<longleftrightarrow> length (snd s) = 4 \<and> (\<forall>b<4. snd s ! b = int (block_count r c b))"

lemma less_4_cases: "(b :: nat) < 4 \<Longrightarrow> b = 0 \<or> b = 1 \<or> b = 2 \<or> b = 3"
  by arith

lemma counts_start: "counts 0 0 (fb, [0, 0, 0, 0])"
  unfolding counts_def by (auto simp: block_count_def dest!: less_4_cases)

lemma block_count_row:
  assumes "r < 16" "b < 4"
  shows "block_count (Suc r) 0 b = block_count r 16 b"
proof -
  consider "r mod 8 = 7" "Suc r mod 8 = 0" "Suc r div 8 = Suc (r div 8)"
    | "Suc r mod 8 = Suc (r mod 8)" "Suc r div 8 = r div 8"
    using mod_Suc[of r 8] div_Suc[of r 8] by (cases "Suc (r mod 8) = 8") auto
  then show ?thesis by cases (use assms in \<open>auto simp: block_count_def\<close>)
qed

lemma counts_row: "\<lbrakk>r < 16; counts r 16 s\<rbrakk> \<Longrightarrow> counts (Suc r) 0 s"
  by (simp add: counts_def block_count_row)

lemma block_count_here:
  assumes "r < 16" "c < 16"
  shows "block_count r c (r div 8 * 2 + c div 8) = (r mod 8) * 8 + c mod 8"
proof -
  have c: "c div 8 = 0 \<and> c mod 8 = c \<and> c < 8 \<or> c div 8 = 1 \<and> c mod 8 = c - 8 \<and> 8 \<le> c"
    using assms(2) by arith
  then have "(r div 8 * 2 + c div 8) div 2 = r div 8" "(r div 8 * 2 + c div 8) mod 2 = c div 8" by auto
  then show ?thesis using c by (auto simp: block_count_def)
qed

lemma count_step:
  fixes q R m k u v u' v' w :: nat
  assumes "m < 2" "k = 0 \<and> u' = Suc u \<and> v' = v \<or> k = 1 \<and> u' = u \<and> v' = Suc v"
  shows "(if q < R then 64 else if q = R then w + (if m = 0 then u' else v') else 0)
    = (if q = R \<and> m = k then Suc (if q < R then 64 else if q = R then w + (if m = 0 then u else v) else 0)
       else if q < R then 64 else if q = R then w + (if m = 0 then u else v) else 0)"
  using assms by (cases "m = 0"; cases "q = R") auto

lemma block_count_Suc:
  assumes "r < 16" "c < 16" "b < 4"
  shows "block_count r (Suc c) b
    = (if b = r div 8 * 2 + c div 8 then Suc (block_count r c b) else block_count r c b)"
proof -
  have c: "c div 8 = 0 \<and> c < 8 \<or> c div 8 = 1 \<and> 8 \<le> c" using assms(2) by arith
  have eq: "b = r div 8 * 2 + c div 8 \<longleftrightarrow> b div 2 = r div 8 \<and> b mod 2 = c div 8"
    using div_mod_eq[of 2 b "r div 8" "c div 8"] c by auto
  have "c div 8 = 0 \<and> min (Suc c) 8 = Suc (min c 8) \<and> Suc c - 8 = c - 8
      \<or> c div 8 = 1 \<and> min (Suc c) 8 = min c 8 \<and> Suc c - 8 = Suc (c - 8)"
    using c by auto
  then show ?thesis unfolding eq block_count_def by (intro count_step) simp_all
qed

lemma counts_col:
  assumes "r < 16" "c < 16" "counts r c (fb, ix)"
  shows "counts r (Suc c) (fb', ix[r div 8 * 2 + c div 8 := int (Suc (block_count r c (r div 8 * 2 + c div 8)))])"
  using assms by (auto simp: counts_def block_count_Suc nth_list_update)

lemma split_tile420_wf: "wf_dec d \<Longrightarrow> wf_dec (split_tile420 d)"
  by (simp add: split_tile420_def wf_defs)

lemma convert_pixel420_step:
  assumes wf: "wf_dec d0" and d: "d = split_tile420 d0" and rc: "row < 16" "col < 16"
    and cnt: "counts row col s"
    and p: "painted (W_of d) (H_of d) (color420 (yuvTile d)) (Framebuffer d) D (fst s)"
  shows "wp_opt (convert_pixel420 d (int X * 16) (int Y * 16) row col s)
    (\<lambda>s'. counts row (Suc col) s'
        \<and> painted (W_of d) (H_of d) (color420 (yuvTile d)) (Framebuffer d) (insert (X * 16 + col, Y * 16 + row) D) (fst s'))"
proof -
  obtain fb ix where s: "s = (fb, ix)" by (cases s)
  have wfd: "wf_dec d" using split_tile420_wf[OF wf] d by simp
  have len: "length (yuvTile d) = 768" "colors d = initColorTable" "length ix = 4"
    using wfd cnt by (auto simp: wf_dec_def wf_arrays_def counts_def s)
  define blk where "blk = row div 8 * 2 + col div 8"
  define yi where "yi = (row mod 8) * 8 + col mod 8"
  define ch where "ch = row div 2 * 8 + col div 2"
  have bounds: "blk < 4" "yi < 64" "ch < 64" using rc unfolding blk_def yi_def ch_def by arith+
  have ixb: "ix ! blk = int yi" and cb: "block_count row col blk = yi"
    using cnt bounds block_count_here[OF rc] by (auto simp: counts_def s blk_def yi_def)
  have cnt': "counts row (Suc col) (fb', ix[blk := int yi + 1])" for fb'
    using counts_col[OF rc, of fb ix fb'] cnt cb by (simp add: s blk_def ac_simps)
  have tl: "yTile420 d ! blk = take 64 (drop (64 * blk) (yuvTile d))" "length (yTile420 d) = 4"
    "cbTile d = take 64 (drop 256 (yuvTile d))" "crTile d = take 64 (drop 320 (yuvTile d))"
    using bounds by (simp_all add: d split_tile420_def del: upt_Suc)
  have get: "arr_get (yTile420 d) (int blk) = Some (take 64 (drop (64 * blk) (yuvTile d)))"
    "arr_get (take 64 (drop (64 * blk) (yuvTile d))) (int yi) = Some (yuvTile d ! (64 * blk + yi))"
    "arr_get (cbTile d) (int ch) = Some (yuvTile d ! (256 + ch))"
    "arr_get (crTile d) (int ch) = Some (yuvTile d ! (320 + ch))"
    using bounds len tl by simp_all
  have inside: "int Y * 16 + int row \<ge> int (H_of d) \<or> int X * 16 + int col \<ge> int (W_of d)
      \<longleftrightarrow> \<not> (X * 16 + col < W_of d \<and> Y * 16 + row < H_of d)" by linarith
  have c: "color420 (yuvTile d) (X * 16 + col) (Y * 16 + row)
      = pixel_spec (yuvTile d ! (64 * blk + yi)) (yuvTile d ! (256 + ch)) (yuvTile d ! (320 + ch))"
    using rc by (simp add: color420_def Let_def blk_def yi_def ch_def add.assoc)
  have fi: "((int Y * 16 + int row) * int (W_of d) + (int X * 16 + int col)) * 4
      = int (((Y * 16 + row) * W_of d + (X * 16 + col)) * 4)" by simp
  show ?thesis
  proof (cases "X * 16 + col < W_of d \<and> Y * 16 + row < H_of d")
    case False
    have "painted (W_of d) (H_of d) (color420 (yuvTile d)) (Framebuffer d) (insert (X * 16 + col, Y * 16 + row) D) fb"
      using p False by (auto simp: s elim!: painted_cong)
    then show ?thesis
      using bounds len cnt' False unfolding convert_pixel420_def s prod.case Let_def blk_def[symmetric] uint_frame inside
      by (simp add: wp_simps ixb)
  next
    case True
    have "wp_opt (put_pixel fb (int (((Y * 16 + row) * W_of d + (X * 16 + col)) * 4))
      (color420 (yuvTile d) (X * 16 + col) (Y * 16 + row)))
      (painted (W_of d) (H_of d) (color420 (yuvTile d)) (Framebuffer d) (insert (X * 16 + col, Y * 16 + row) D))"
      using p s True by (intro painted_step wf_frame_len[OF wfd]) simp_all
    then show ?thesis
      unfolding convert_pixel420_def s prod.case Let_def blk_def[symmetric] ch_def[symmetric] uint_frame inside fi c
      using bounds len True cnt' get
      by (simp add: wp_simps ixb yuv_pixel_spec del: of_nat_mult of_nat_add)
  qed
qed

lemma convert420_spec:
  assumes wf: "wf_dec d"
  shows "wp_opt (convert420 (int X) (int Y) d) (\<lambda>d'. \<exists>fb. d' = split_tile420 d\<lparr>Framebuffer := fb\<rparr>
    \<and> painted (W_of d) (H_of d) (color420 (yuvTile d)) (Framebuffer d)
        (tile_rows 16 X Y (if padHeight d = 608 \<and> Y = 37 then 8 else 16)) fb)"
proof -
  define e where "e = split_tile420 d"
  define n where "n = (if padHeight e = 608 \<and> int Y = 37 then 8 else 16 :: nat)"
  have e: "W_of e = W_of d" "H_of e = H_of d" "yuvTile e = yuvTile d" "Framebuffer e = Framebuffer d"
    "n = (if padHeight d = 608 \<and> Y = 37 then 8 else 16 :: nat)"
    by (auto simp: e_def n_def split_tile420_def W_of_def H_of_def)
  have "wp_opt (foldM (\<lambda>row. foldM (convert_pixel420 e (int X * 16) (int Y * 16) row) [0..<16]) [0..<n]
       (Framebuffer e, [0, 0, 0, 0]))
     (\<lambda>s. painted (W_of e) (H_of e) (color420 (yuvTile e)) (Framebuffer e) (tile_rows 16 X Y n) (fst s))"
  proof (rule paint_tile[where J = counts])
    have "n \<le> 16" by (simp add: n_def)
    then show "\<And>row col s D. \<lbrakk>row < n; col < 16; counts row col s;
        painted (W_of e) (H_of e) (color420 (yuvTile e)) (Framebuffer e) D (fst s)\<rbrakk> \<Longrightarrow>
      wp_opt (convert_pixel420 e (int X * 16) (int Y * 16) row col s)
        (\<lambda>s'. counts row (Suc col) s' \<and> painted (W_of e) (H_of e) (color420 (yuvTile e)) (Framebuffer e)
           (insert (X * 16 + col, Y * 16 + row) D) (fst s'))"
      "\<And>r s. \<lbrakk>r < n; counts r 16 s\<rbrakk> \<Longrightarrow> counts (Suc r) 0 s"
      by (auto intro: convert_pixel420_step[OF wf e_def] counts_row)
  qed (auto intro: counts_start simp: n_def)
  then show ?thesis
    unfolding convert420_def Let_def e_def[symmetric] n_def[symmetric] wp_opt_bind wp_opt_case_prod wp_opt_Some e
    by (rule wp_opt_mono) auto
qed

section \<open>Block decoders\<close>

lemma painted_length: "painted W H f fb0 D fb \<Longrightarrow> length fb = length fb0"
  by (simp add: painted_def)

lemma convertYUVtoRGB_safe:
  assumes wf: "dec_from p ws d" and tile: "0 \<le> tx" "0 \<le> ty"
  shows "wp_opt (convertYUVtoRGB tx ty d) (block_ok p ws d)"
proof -
  obtain X Y where XY: "tx = int X" "ty = int Y" using tile by (metis nonneg_int_cases)
  have d: "wf_dec d" using wf by (simp add: dec_from_def)
  have "wp_opt (convert444 tx ty d) (block_ok p ws d)"
    unfolding XY by (rule wp_opt_mono[OF convert444_spec[OF d]])
      (use wf in \<open>auto simp: wf_defs dest!: painted_length\<close>)
  moreover have "wp_opt (convert420 tx ty d) (block_ok p ws d)"
    unfolding XY by (rule wp_opt_mono[OF convert420_spec[OF d]])
      (use wf in \<open>auto simp: wf_defs split_tile420_def dest!: painted_length\<close>)
  ultimately show ?thesis by (simp add: convertYUVtoRGB_def)
qed

lemma convertPass2_safe:
  assumes wf: "dec_from p ws d" and tile: "0 \<le> tx" "0 \<le> ty"
  shows "wp_opt (convertYUVtoRGBPass2 tx ty d) (block_ok p ws d)"
proof (cases "mode420 d = 0")
  case True
  obtain X Y where XY: "tx = int X" "ty = int Y" using tile by (metis nonneg_int_cases)
  have d: "wf_dec d" using wf by (simp add: dec_from_def)
  show ?thesis
    unfolding XY by (rule wp_opt_mono[OF convertPass2_spec[OF d True]])
      (use wf in \<open>auto simp: wf_defs dest!: painted_length\<close>)
qed (use wf in \<open>simp add: convertYUVtoRGBPass2_def wp_simps block_ok_def\<close>)

text \<open>What every block decoder does at its end.\<close>

lemma finish_block_safe:
  assumes wf: "dec_from p ws d" and tile: "0 \<le> tx" "0 \<le> ty"
  shows "wp_opt (if isNeutralBlock d then updatePreviousYUV tx ty d else convertYUVtoRGB tx ty d) (block_ok p ws d)"
    "wp_opt (if isNeutralBlock d then updatePreviousYUV tx ty d else convertYUVtoRGBPass2 tx ty d) (block_ok p ws d)"
  using assms by (simp_all add: updatePreviousYUV_safe convertYUVtoRGB_safe convertPass2_safe)

lemma decode_units_at:
  assumes "dec_from p ws d" "0 \<le> qi" "qi < 4"
  shows "wp_opt (decode_Y 0 qi d) (block_ok p ws d)"
    "wp_opt (decode_Y 64 qi d) (block_ok p ws d)"
    "wp_opt (decode_Y 128 qi d) (block_ok p ws d)"
    "wp_opt (decode_Y 192 qi d) (block_ok p ws d)"
    "wp_opt (decode_Cb 64 qi d) (block_ok p ws d)"
    "wp_opt (decode_Cb 256 qi d) (block_ok p ws d)"
    "wp_opt (decode_Cr 128 qi d) (block_ok p ws d)"
    "wp_opt (decode_Cr 320 qi d) (block_ok p ws d)"
  using decode_units_safe[OF assms(1) _ assms(2,3), of 0] decode_units_safe[OF assms(1) _ assms(2,3), of 64]
    decode_units_safe[OF assms(1) _ assms(2,3), of 128] decode_units_safe[OF assms(1) _ assms(2,3), of 192]
    decode_units_safe[OF assms(1) _ assms(2,3), of 256] decode_units_safe[OF assms(1) _ assms(2,3), of 320]
  by simp_all

lemma decompressJPEG_safe:
  assumes "dec_from p ws d" "0 \<le> tx" "0 \<le> ty" "0 \<le> q" "q < 3"
  shows "wp_opt (decompressJPEG tx ty q d) (block_ok p ws d)"
  unfolding decompressJPEG_def
  by (intro wp_block_seq decode_units_at finish_block_safe assms | simp add: assms)+
    (use assms in \<open>auto intro!: wp_block_seq decode_units_at\<close>)

lemma decompressJPEGPass2_safe:
  assumes "dec_from p ws d" "0 \<le> tx" "0 \<le> ty" "0 \<le> q" "q < 3"
  shows "wp_opt (decompressJPEGPass2 tx ty q d) (block_ok p ws d)"
  unfolding decompressJPEGPass2_def
  by (intro wp_block_seq decode_units_at finish_block_safe) (use assms in auto)

section \<open>Vector quantisation\<close>

lemma drop_bit_lt4: "30 \<le> n \<Longrightarrow> unat (drop_bit n (w :: u32)) < 4"
proof -
  assume n: "30 \<le> n"
  have "unat w < 2 ^ 32" using unsigned_less[of w] by simp
  then have "unat w div 2 ^ n < 4"
  proof -
    have "(2 :: nat) ^ 30 \<le> 2 ^ n" using n by (rule power_increasing) simp
    then have "unat w div 2 ^ n \<le> unat w div 2 ^ 30" by (intro div_le_mono2) simp_all
    also have "\<dots> < 4" using \<open>unat w < 2 ^ 32\<close> by (simp add: less_mult_imp_div_less)
    finally show ?thesis .
  qed
  moreover have "unat (drop_bit n w) = unat w div 2 ^ n"
    unfolding unsigned_drop_bit_eq using \<open>unat w < 2 ^ 32\<close>
    by (simp add: take_bit_nat_eq_self drop_bit_eq_div[where 'a = nat])
  ultimately show ?thesis by simp
qed

lemma sint_small4: "n < 4 \<Longrightarrow> sint (of_nat n :: i16) = int n"
  by (drule less_4_cases) (elim disjE; simp)

lemma lookKbits_small:
  assumes "k \<le> 2"
  shows "0 \<le> sint (lookKbits k rd) \<and> sint (lookKbits k rd) < 4"
proof (cases "k = 0")
  case False
  define v where "v = unat (drop_bit (32 - k) (reg0 rd))"
  have "v < 4" using assms by (simp add: v_def drop_bit_lt4)
  have "shr (reg0 rd) ((32 - int k) mod 256) = drop_bit (32 - k) (reg0 rd)"
    using assms False by (simp add: shr_def nat_diff_distrib)
  then have "lookKbits k rd = of_nat v" using False by (simp add: lookKbits_def v_def of_nat_unat)
  then show ?thesis using \<open>v < 4\<close> by (simp add: sint_small4)
qed (simp add: lookKbits_def)

lemma and3_range: "0 \<le> uint ((w :: u32) AND 3) \<and> uint (w AND 3) < 4"
proof -
  have "w AND 3 = take_bit 2 w" by (simp add: take_bit_eq_mask mask_eq_exp_minus_1)
  then have "uint (w AND 3) = take_bit 2 (uint w)" by (simp add: unsigned_take_bit_eq)
  then show ?thesis using take_bit_int_less_exp[of 2 "uint w"] by simp
qed

lemma vq_header_step_safe:
  assumes wf: "dec_from p ws d" and i: "i < 4"
  shows "wp_opt (vq_header_step i d) (block_ok p ws d)"
proof -
  define v where "v = uint (drop_bit 29 (reg0 (rdr d)) AND 3)"
  have v: "0 \<le> v" "v < 4" using and3_range by (auto simp: v_def)
  have len: "length (vqIndex d) = 4" "length (vqColor d) = 4" and rd: "reader_from p ws (rdr d)"
    and ok: "list_all (\<lambda>i. 0 \<le> i \<and> i < 4) (vqIndex d)"
    using wf by (auto simp: wf_defs)
  have ok': "list_all (\<lambda>i. 0 \<le> i \<and> i < 4) ((vqIndex d)[i := v])"
    using ok v len i by (auto simp: list_all_length nth_list_update)
  have fin: "block_ok p ws d (d\<lparr>vqIndex := (vqIndex d)[i := v], vqColor := vc, rdr := rd'\<rparr>)"
    if "length vc = 4" "reader_from (p + k) ws rd'" for vc rd' k
    using wf ok' that reader_from_mono[OF that(2), of p] by (auto simp: wf_defs)
  have fin0: "block_ok p ws d (d\<lparr>vqIndex := (vqIndex d)[i := v], rdr := rd'\<rparr>)"
    if "reader_from (p + k) ws rd'" for rd' k
    using fin[OF len(2) that] by simp
  have upd: "wp_opt (updateReadBuf (int k) (rdr d)) (\<lambda>rd'. reader_from (p + k) ws rd')" if "k \<le> 32" for k
    by (rule wp_update_from[OF rd that])
  show ?thesis
    using upd[of 3] upd[of 27] i v len unfolding vq_header_step_def Let_def v_def[symmetric]
    by (auto simp: wp_simps intro: fin fin0 elim!: wp_opt_mono)
qed

lemma wp_foldM_block:
  assumes "dec_from p ws d" "\<And>x d. \<lbrakk>x \<in> set xs; dec_from p ws d\<rbrakk> \<Longrightarrow> wp_opt (f x d) (block_ok p ws d)"
  shows "wp_opt (foldM f xs d) (block_ok p ws d)"
proof (rule wp_foldM_inv)
  fix x e assume x: "x \<in> set xs" and e: "block_ok p ws d e"
  then have "wp_opt (f x e) (block_ok p ws e)" by (intro assms(2)) (simp_all add: block_ok_def)
  then show "wp_opt (f x e) (block_ok p ws d)" by (rule wp_opt_mono) (rule block_ok_trans[OF e])
qed (use assms(1) in \<open>simp add: block_ok_def\<close>)

lemma decodeVQHeader_safe:
  "\<lbrakk>dec_from p ws d; n \<le> 4\<rbrakk> \<Longrightarrow> wp_opt (decodeVQHeader n d) (block_ok p ws d)"
  unfolding decodeVQHeader_def by (rule wp_foldM_block) (auto intro: vq_header_step_safe)

lemma put_samples_safe:
  "\<lbrakk>n < 64; length tile = 768\<rbrakk> \<Longrightarrow> wp_opt (put_samples c n tile) (\<lambda>t. length t = 768)"
  by (simp add: put_samples_def wp_simps)

lemma vq_color_get:
  assumes "wf_dec d" "0 \<le> sel" "sel < 4"
  obtains ix color where "arr_get (vqIndex d) sel = Some ix" "arr_get (vqColor d) ix = Some color"
proof -
  have "length (vqIndex d) = 4" "length (vqColor d) = 4" "list_all (\<lambda>i. 0 \<le> i \<and> i < 4) (vqIndex d)"
    using assms by (auto simp: wf_defs)
  then show ?thesis using assms(2,3)
    by (intro that[of "vqIndex d ! nat sel" "vqColor d ! nat (vqIndex d ! nat sel)"])
      (auto simp: arr_get_in list_all_length)
qed

lemma vq_sample_step_safe:
  assumes wf: "dec_from p ws d" and n: "n < 64"
  shows "wp_opt (vq_sample_step n d) (block_ok p ws d)"
proof -
  have d: "wf_dec d" "reader_from p ws (rdr d)" using wf by (auto simp: dec_from_def)
  have b: "vqBitmapBits d \<le> 2" "length (yuvTile d) = 768" using d by (auto simp: wf_defs)
  obtain ix color where g: "arr_get (vqIndex d) (sint (lookKbits (vqBitmapBits d) (rdr d))) = Some ix"
    "arr_get (vqColor d) ix = Some color"
    using vq_color_get[OF d(1)] lookKbits_small[OF b(1)] by blast
  have skip: "wp_opt (skipKbits (vqBitmapBits d) (rdr d)) (\<lambda>rd. block_ok p ws d (d\<lparr>yuvTile := t, rdr := rd\<rparr>))"
    if "length t = 768" for t
  proof (rule wp_skip_from[OF d(2)])
    fix rd' assume "reader_from (p + vqBitmapBits d) ws rd'"
    then have "reader_from p ws rd'" by (rule reader_from_mono) simp
    then show "block_ok p ws d (d\<lparr>yuvTile := t, rdr := rd'\<rparr>)" using wf that by (auto simp: wf_defs)
  qed (use b in simp)
  show ?thesis
    unfolding vq_sample_step_def Let_def g bind.bind_lunit wp_opt_bind wp_opt_Some
    by (rule wp_opt_mono[OF put_samples_safe[OF n b(2)] skip])
qed

lemma decompressVQ_safe:
  assumes wf: "dec_from p ws d" and tile: "0 \<le> tx" "0 \<le> ty"
  shows "wp_opt (decompressVQ tx ty d) (block_ok p ws d)"
  unfolding decompressVQ_def
proof (rule wp_block_seq)
  obtain ix color where g: "arr_get (vqIndex d) 0 = Some ix" "arr_get (vqColor d) ix = Some color"
    using vq_color_get[of d 0] wf by (auto simp: dec_from_def)
  have "wp_opt (foldM (put_samples color) [0..<64] (yuvTile d)) (\<lambda>t. length t = 768)"
    by (rule wp_foldM_inv) (use wf in \<open>auto simp: wf_defs intro: put_samples_safe\<close>)
  then have "wp_opt (foldM (put_samples color) [0..<64] (yuvTile d)) (\<lambda>t. block_ok p ws d (d\<lparr>yuvTile := t\<rparr>))"
    by (rule wp_opt_mono) (use wf in \<open>auto simp: wf_defs\<close>)
  moreover have "wp_opt (foldM vq_sample_step [0..<64] d) (block_ok p ws d)"
    by (rule wp_foldM_block[OF wf]) (auto intro: vq_sample_step_safe)
  ultimately show "wp_opt (if vqBitmapBits d = 0 then do {
            ix \<leftarrow> arr_get (vqIndex d) 0;
            color \<leftarrow> arr_get (vqColor d) ix;
            tile \<leftarrow> foldM (put_samples color) [0..<64] (yuvTile d);
            Some (d\<lparr>yuvTile := tile\<rparr>)
          }
          else foldM vq_sample_step [0..<64] d) (block_ok p ws d)"
    unfolding g bind.bind_lunit wp_opt_if wp_opt_bind wp_opt_Some by simp
qed (rule finish_block_safe(1)[OF _ tile])

section \<open>Block index\<close>

definition block_size :: "Decoder \<Rightarrow> int" where
  "block_size d = (if mode420 d = 0 then 8 else 16)"

text \<open>The blocks in raster order: \<open>tile_index\<close> numbers them.\<close>

definition cols_of :: "Decoder \<Rightarrow> int" where "cols_of d = max 1 (gridWidth d div block_size d)"
definition rows_of :: "Decoder \<Rightarrow> int" where "rows_of d = max 1 (gridHeight d div block_size d)"

definition in_grid :: "Decoder \<Rightarrow> bool" where
  "in_grid d \<longleftrightarrow> 0 \<le> txb d \<and> txb d < cols_of d \<and> 0 \<le> tyb d \<and> tyb d < rows_of d"

definition tile_index :: "Decoder \<Rightarrow> int" where
  "tile_index d = tyb d * cols_of d + txb d"

lemma grid_index_upd:
  "cols_of (d\<lparr>txb := x\<rparr>) = cols_of d" "cols_of (d\<lparr>txb := x, tyb := y\<rparr>) = cols_of d"
  "rows_of (d\<lparr>txb := x\<rparr>) = rows_of d" "rows_of (d\<lparr>txb := x, tyb := y\<rparr>) = rows_of d"
  unfolding cols_of_def rows_of_def block_size_def by simp_all

lemma at_least_1_max: "at_least_1 n = max 1 n"
  by (simp add: at_least_1_def max_def)

lemma moveBlockIndex_cases:
  "moveBlockIndex d =
     (if txb d + 1 < cols_of d then d\<lparr>txb := txb d + 1\<rparr>
      else d\<lparr>txb := 0, tyb := (if tyb d + 1 < rows_of d then tyb d + 1 else 0)\<rparr>)"
proof -
  have c: "at_least_1 (gridWidth d div (if mode420 d = 0 then 8 else 16)) = cols_of d"
    "at_least_1 (gridHeight d div (if mode420 d = 0 then 8 else 16)) = rows_of d"
    unfolding at_least_1_max cols_of_def rows_of_def block_size_def by (rule refl)+
  show ?thesis unfolding moveBlockIndex_def Let_def c by auto
qed

text \<open>From anywhere in the grid the index moves to the next block in raster order, and from the last
  block to the first.\<close>

lemma moveBlockIndex_next:
  assumes "in_grid d"
  shows "in_grid (moveBlockIndex d)
    \<and> tile_index (moveBlockIndex d) = (tile_index d + 1) mod (cols_of d * rows_of d)"
proof -
  have c: "0 < cols_of d" "0 < rows_of d" by (simp_all add: cols_of_def rows_of_def)
  have keep: "cols_of (moveBlockIndex d) = cols_of d" "rows_of (moveBlockIndex d) = rows_of d"
    unfolding moveBlockIndex_cases by (simp_all only: if_distrib[of cols_of] if_distrib[of rows_of] grid_index_upd if_cancel)
  have mv: "txb (moveBlockIndex d) = (if txb d + 1 < cols_of d then txb d + 1 else 0)"
    "tyb (moveBlockIndex d) = (if txb d + 1 < cols_of d then tyb d else if tyb d + 1 < rows_of d then tyb d + 1 else 0)"
    unfolding moveBlockIndex_cases by simp_all
  have g: "0 \<le> txb d" "txb d < cols_of d" "0 \<le> tyb d" "tyb d < rows_of d" using assms by (auto simp: in_grid_def)
  have le: "(tyb d + 1) * cols_of d \<le> cols_of d * rows_of d"
    using g c mult_right_mono[of "tyb d + 1" "rows_of d" "cols_of d"] by (simp add: mult.commute)
  have pos: "0 \<le> tyb d * cols_of d" using g c by simp
  consider "txb d + 1 < cols_of d" | "txb d + 1 = cols_of d" "tyb d + 1 < rows_of d"
    | "txb d + 1 = cols_of d" "tyb d + 1 = rows_of d" using g by linarith
  then show ?thesis
  proof cases
    case 1
    then have "(tile_index d + 1) mod (cols_of d * rows_of d) = tile_index d + 1"
      using le g pos by (intro mod_pos_pos_trivial) (auto simp: tile_index_def algebra_simps)
    then show ?thesis using 1 g by (simp add: in_grid_def tile_index_def mv keep)
  next
    case 2
    have "(tyb d + 1 + 1) * cols_of d \<le> cols_of d * rows_of d"
      using 2 c mult_right_mono[of "tyb d + 1 + 1" "rows_of d" "cols_of d"] by (simp add: mult.commute)
    then have "(tile_index d + 1) mod (cols_of d * rows_of d) = (tyb d + 1) * cols_of d"
      using g pos 2 c by (subst mod_pos_pos_trivial) (auto simp: tile_index_def algebra_simps)
    then show ?thesis using 2 g c by (simp add: in_grid_def tile_index_def mv keep)
  next
    case 3
    have "tile_index d + 1 = tyb d * cols_of d + (txb d + 1)" by (simp add: tile_index_def)
    also have "\<dots> = (tyb d + 1) * cols_of d" unfolding 3(1) by (simp add: distrib_right)
    finally have "tile_index d + 1 = cols_of d * rows_of d" unfolding 3(2) by (simp add: mult.commute)
    then show ?thesis using 3 g c by (simp add: in_grid_def tile_index_def mv keep)
  qed
qed

end
