(* ===== verification/Decoder.thy ===== *)
theory Decoder
  imports Tiles Protocol
begin

text \<open>
  The frame decoder, \<open>src/internal/ikvm/decoder.go\<close>: \<open>NewDecoder\<close> and \<open>Decode\<close>, with the loop over
  the macroblocks and the \<open>saveBlock\<close>/\<open>restoreBlocks\<close> pair that undoes a partly decoded frame.

  The loop is a \<open>partial_function\<close>: the value \<^term>\<open>None\<close> of \<open>Decode\<close> means that the call does not
  return. A panic in the loop is caught by the deferred \<open>recover\<close> of \<open>Decode\<close> and is the result
  \<open>ErrPanic\<close>; what a panicking method has already written is not modelled, and the theorems show
  that no method panics. The mutex serialises the calls.
\<close>

section \<open>State and results\<close>

text \<open>The zero value of the struct.\<close>

definition zero_decoder :: Decoder where
  "zero_decoder = \<lparr>Width = 0, Height = 0, Framebuffer = [], padWidth = 0, padHeight = 0, realWidth = 0,
     realHeight = 0, gridWidth = 0, gridHeight = 0, txb = 0, tyb = 0, mode420 = 0,
     rdr = \<lparr>buf = [], reg0 = 0, reg1 = 0, newbits = 0, index = 0\<rparr>,
     htDC = replicate 4 empty_table, htAC = replicate 4 empty_table, qt = replicate 4 (replicate 64 0),
     dctCoeff = replicate 384 0, yuvTile = replicate 768 0, workspace = replicate 64 0,
     dcY = 0, dcCb = 0, dcCr = 0, previousYUV = [],
     colors = \<lparr>yTable = replicate 256 0, crToR = replicate 256 0, cbToB = replicate 256 0,
       crToG = replicate 256 0, cbToG = replicate 256 0, rangeLimit = replicate 1408 0\<rparr>,
     vqColor = replicate 4 0, vqIndex = replicate 4 0, vqBitmapBits = 0,
     yTile420 = replicate 4 (replicate 64 0), cbTile = replicate 64 0, crTile = replicate 64 0,
     negPow2 = replicate 17 0, selector = 0, advanceSelector = 0, mapping = 0,
     scaleFactor = 0, scaleFactorUV = 0, advScaleFactor = 0, advScaleFactorUV = 0\<rparr>"

definition NewDecoder :: "Decoder option" where
  "NewDecoder = do {
     let d = zero_decoder\<lparr>negPow2 := initNegPow2, colors := initColorTable\<rparr>;
     (dc, ac) \<leftarrow> initHuffmanTables;
     Some (d\<lparr>htDC := dc, htAC := ac\<rparr>)
   }"

datatype decode_result =
    DecodeOK
  | ErrResolution
  | ErrTooShort
  | ErrAdvance u32
  | ErrUnknown u32
  | ErrPanic

section \<open>Set-up of a frame\<close>

definition pad_to :: "int \<Rightarrow> int \<Rightarrow> int" where
  "pad_to n m = (if m mod n \<noteq> 0 then m + n - m mod n else m)"

text \<open>Resolution, padding and grid; \<open>w\<close> and \<open>h\<close> are positive here.\<close>

definition setup_frame :: "ASPEEDVideoHeader \<Rightarrow> Decoder \<Rightarrow> Decoder" where
  "setup_frame header d =
     (let w = uint (DstX header);
          h = uint (DstY header);
          srcW = (if uint (SrcX header) \<le> 0 then w else uint (SrcX header));
          srcH = (if uint (SrcY header) \<le> 0 then h else uint (SrcY header));
          needRealloc = (Width d \<noteq> word_of_int w \<or> Height d \<noteq> word_of_int h \<or> Framebuffer d = []);
          d = d\<lparr>mode420 := Mode420 header\<rparr>;
          d = (if needRealloc
               then d\<lparr>Width := word_of_int w, Height := word_of_int h,
                      Framebuffer := go_make (w * h * 4) 0, previousYUV := go_make (w * h * 3) 0\<rparr>
               else d);
          n = (if Mode420 header = 1 then 16 else 8)
      in d\<lparr>realWidth := srcW, realHeight := srcH, padWidth := pad_to n srcW, padHeight := pad_to n srcH,
           gridWidth := pad_to n w, gridHeight := pad_to n h\<rparr>)"

text \<open>The colour cache and the quantisation tables.\<close>

definition setup_tables :: "ASPEEDVideoHeader \<Rightarrow> Decoder \<Rightarrow> Decoder option" where
  "setup_tables header d0 = do {
     let d = d0\<lparr>vqIndex := [0, 1, 2, 3], vqColor := [0x008080, 0xFF8080, 0x808080, 0xC08080],
               scaleFactor := 16, scaleFactorUV := 16, advScaleFactor := 16, advScaleFactorUV := 16,
               selector := uint (JPEGTableSelector header), advanceSelector := uint (AdvTableSelector header),
               mapping := uint (JPEGYUVTableMapping header)\<rparr>;
     d \<leftarrow> loadLuminanceQT 0 d;
     d \<leftarrow> loadChrominanceQT 1 d;
     d \<leftarrow> loadPass2LuminanceQT 2 d;
     loadPass2ChrominanceQT 3 d
   }"

section \<open>Saved blocks\<close>

record savedBlock =
  offset :: int
  pixels :: bytes

text \<open>The loops visit the 64 pixels of a block row by row.\<close>

definition saveBlock :: "int \<Rightarrow> int \<Rightarrow> Decoder \<Rightarrow> savedBlock option" where
  "saveBlock tileX tileY d = do {
     let blockSize = 8;
     let pixX = tileX * blockSize;
     let pixY = tileY * blockSize;
     let fbW = uint (Width d);
     px \<leftarrow> foldM (\<lambda>row. foldM (\<lambda>col px. do {
          let idx = ((pixY + int row) * fbW + pixX + int col) * 4;
          let bIdx = (int row * blockSize + int col) * 4;
          if idx + 3 < int (length (Framebuffer d)) then do {
            src \<leftarrow> go_slice (Framebuffer d) idx (idx + 4);
            set_run px bIdx src
          }
          else Some px
        }) [0..<8]) [0..<8] (replicate 256 0);
     Some \<lparr>offset = (pixY * fbW + pixX) * 4, pixels = px\<rparr>
   }"

definition restoreBlock :: "Decoder \<Rightarrow> savedBlock \<Rightarrow> bytes \<Rightarrow> bytes option" where
  "restoreBlock d sb fb =
     (let blockSize = 8;
          fbW = uint (Width d);
          pixX = (offset sb div 4) mod fbW;
          pixY = (offset sb div 4) div fbW
      in if fbW = 0 then None
         else foldM (\<lambda>row. foldM (\<lambda>col fb. do {
             let idx = ((pixY + int row) * fbW + pixX + int col) * 4;
             let bIdx = (int row * blockSize + int col) * 4;
             if idx + 3 < int (length fb) then do {
               src \<leftarrow> go_slice (pixels sb) bIdx (bIdx + 4);
               set_run fb idx src
             }
             else Some fb
           }) [0..<8]) [0..<8] fb)"

definition restoreBlocks :: "savedBlock list \<Rightarrow> Decoder \<Rightarrow> Decoder option" where
  "restoreBlocks savedBlocks d = do {
     fb \<leftarrow> foldM (restoreBlock d) savedBlocks (Framebuffer d);
     Some (d\<lparr>Framebuffer := fb\<rparr>)
   }"

section \<open>The block loop\<close>

definition blockJPEGNoSkip :: u32 where "blockJPEGNoSkip = 0x0"
definition blockJPEGAdvNoSkip :: u32 where "blockJPEGAdvNoSkip = 0x1"
definition blockJPEGPass2NoSkip :: u32 where "blockJPEGPass2NoSkip = 0x2"
definition blockJPEGPass2AdvNoSkip :: u32 where "blockJPEGPass2AdvNoSkip = 0x3"
definition blockLowJPEGNoSkip :: u32 where "blockLowJPEGNoSkip = 0x4"
definition blockVQ1ColorNoSkip :: u32 where "blockVQ1ColorNoSkip = 0x5"
definition blockVQ2ColorNoSkip :: u32 where "blockVQ2ColorNoSkip = 0x6"
definition blockVQ4ColorNoSkip :: u32 where "blockVQ4ColorNoSkip = 0x7"
definition blockJPEGSkip :: u32 where "blockJPEGSkip = 0x8"
definition blockFrameEnd :: u32 where "blockFrameEnd = 0x9"
definition blockJPEGPass2Skip :: u32 where "blockJPEGPass2Skip = 0xA"
definition blockJPEGPass2AdvSkip :: u32 where "blockJPEGPass2AdvSkip = 0xB"
definition blockLowJPEGSkip :: u32 where "blockLowJPEGSkip = 0xC"
definition blockVQ1ColorSkip :: u32 where "blockVQ1ColorSkip = 0xD"
definition blockVQ2ColorSkip :: u32 where "blockVQ2ColorSkip = 0xE"
definition blockVQ4ColorSkip :: u32 where "blockVQ4ColorSkip = 0xF"

lemmas block_types = blockJPEGNoSkip_def blockJPEGAdvNoSkip_def blockJPEGPass2NoSkip_def
  blockJPEGPass2AdvNoSkip_def blockLowJPEGNoSkip_def blockVQ1ColorNoSkip_def blockVQ2ColorNoSkip_def
  blockVQ4ColorNoSkip_def blockJPEGSkip_def blockFrameEnd_def blockJPEGPass2Skip_def
  blockJPEGPass2AdvSkip_def blockLowJPEGSkip_def blockVQ1ColorSkip_def blockVQ2ColorSkip_def
  blockVQ4ColorSkip_def

text \<open>The explicit block position of the \<open>Skip\<close> types.\<close>

definition skip_position :: "Decoder \<Rightarrow> Decoder" where
  "skip_position d = d\<lparr>txb := uint (drop_bit 20 (reg0 (rdr d) AND 0x0FF00000)),
                       tyb := uint (drop_bit 12 (reg0 (rdr d) AND 0x000FF000))\<rparr>"

text \<open>The frame common to the cases that decode a block: save the block, skip the header bits, decode,
  move on.\<close>

definition run_block ::
  "nat \<Rightarrow> (Decoder \<Rightarrow> Decoder option) \<Rightarrow> savedBlock list \<Rightarrow> Decoder \<Rightarrow> (savedBlock list \<times> Decoder) option" where
  "run_block bits body savedBlocks d = do {
     sb \<leftarrow> saveBlock (txb d) (tyb d) d;
     rd \<leftarrow> updateReadBuf (int bits) (rdr d);
     d \<leftarrow> body (d\<lparr>rdr := rd\<rparr>);
     Some (savedBlocks @ [sb], moveBlockIndex d)
   }"

definition jpeg_block :: "int \<Rightarrow> Decoder \<Rightarrow> Decoder option" where
  "jpeg_block q d = decompressJPEG (txb d) (tyb d) q d"

definition pass2_block :: "int \<Rightarrow> Decoder \<Rightarrow> Decoder option" where
  "pass2_block q d = decompressJPEGPass2 (txb d) (tyb d) q d"

definition vq_block :: "nat \<Rightarrow> nat \<Rightarrow> Decoder \<Rightarrow> Decoder option" where
  "vq_block bits numColors d = do {
     d \<leftarrow> decodeVQHeader numColors (d\<lparr>vqBitmapBits := bits\<rparr>);
     decompressVQ (txb d) (tyb d) d
   }"

text \<open>One iteration: \<open>Inl\<close> returns from \<open>Decode\<close>, \<open>Inr\<close> goes on.\<close>

definition decode_step ::
  "savedBlock list \<Rightarrow> Decoder \<Rightarrow> ((Decoder \<times> decode_result) + (savedBlock list \<times> Decoder)) option" where
  "decode_step sbs d =
     (let blockType = drop_bit 28 (reg0 (rdr d)) in
      if blockType = blockJPEGNoSkip then map_option Inr (run_block 4 (jpeg_block 0) sbs d)
      else if blockType = blockJPEGAdvNoSkip \<or> blockType = blockJPEGPass2AdvNoSkip
              \<or> blockType = blockJPEGPass2AdvSkip
      then map_option (\<lambda>d. Inl (d, ErrAdvance blockType)) (restoreBlocks sbs d)
      else if blockType = blockJPEGSkip then map_option Inr (run_block 20 (jpeg_block 0) sbs (skip_position d))
      else if blockType = blockJPEGPass2NoSkip then map_option Inr (run_block 4 (pass2_block 2) sbs d)
      else if blockType = blockJPEGPass2Skip then map_option Inr (run_block 20 (pass2_block 2) sbs (skip_position d))
      else if blockType = blockLowJPEGNoSkip then map_option Inr (run_block 4 (jpeg_block 2) sbs d)
      else if blockType = blockLowJPEGSkip then map_option Inr (run_block 20 (jpeg_block 2) sbs (skip_position d))
      else if blockType = blockVQ1ColorNoSkip then map_option Inr (run_block 4 (vq_block 0 1) sbs d)
      else if blockType = blockVQ1ColorSkip then map_option Inr (run_block 20 (vq_block 0 1) sbs (skip_position d))
      else if blockType = blockVQ2ColorNoSkip then map_option Inr (run_block 4 (vq_block 1 2) sbs d)
      else if blockType = blockVQ2ColorSkip then map_option Inr (run_block 20 (vq_block 1 2) sbs (skip_position d))
      else if blockType = blockVQ4ColorNoSkip then map_option Inr (run_block 4 (vq_block 2 4) sbs d)
      else if blockType = blockVQ4ColorSkip then map_option Inr (run_block 20 (vq_block 2 4) sbs (skip_position d))
      else if blockType = blockFrameEnd then Some (Inl (d, DecodeOK))
      else Some (Inl (d, ErrUnknown blockType)))"

text \<open>The loop also returns the saved blocks, so that the theorems can speak of them.\<close>

partial_function (option) decode_loop ::
  "int \<Rightarrow> savedBlock list \<Rightarrow> Decoder \<Rightarrow> (savedBlock list \<times> Decoder \<times> decode_result) option" where
  "decode_loop compressWords sbs d =
     (if index (rdr d) < compressWords
      then (case decode_step sbs d of
              None \<Rightarrow> Some (sbs, d, ErrPanic)
            | Some (Inl r) \<Rightarrow> Some (sbs, r)
            | Some (Inr s) \<Rightarrow> decode_loop compressWords (fst s) (snd s))
      else Some (sbs, d, DecodeOK))"

text \<open>The state in which the loop starts.\<close>

definition start_frame :: "u32 list \<Rightarrow> Decoder \<Rightarrow> Decoder" where
  "start_frame ws d = d\<lparr>rdr := init_reader ws, txb := 0, tyb := 0, dcY := 0, dcCb := 0, dcCr := 0\<rparr>"

definition Decode :: "ASPEEDVideoHeader \<Rightarrow> bytes \<Rightarrow> Decoder \<Rightarrow> (Decoder \<times> decode_result) option" where
  "Decode header compressedData d0 =
     (if uint (DstX header) \<le> 0 \<or> uint (DstY header) \<le> 0 then Some (d0, ErrResolution)
      else (case setup_tables header (setup_frame header d0) of
              None \<Rightarrow> Some (d0, ErrPanic)
            | Some d1 \<Rightarrow>
                (let ws = makeIntArray compressedData in
                 if length ws < 3 then Some (d1\<lparr>rdr := (rdr d1)\<lparr>buf := ws\<rparr>\<rparr>, ErrTooShort)
                 else map_option snd (decode_loop (uint (CompressSize header) div 4) [] (start_frame ws d1)))))"

section \<open>Between frames\<close>

text \<open>What holds of a decoder between two calls: the arrays have their sizes, and a framebuffer fits
  the resolution.\<close>

definition wf_ready :: "Decoder \<Rightarrow> bool" where
  "wf_ready d \<longleftrightarrow> wf_arrays d
     \<and> (Framebuffer d = [] \<or> int (length (Framebuffer d)) = uint (Width d) * uint (Height d) * 4)"

lemma wf_dec_ready: "wf_dec d \<Longrightarrow> wf_ready d"
  by (simp add: wf_ready_def wf_dec_def wf_frame_def)

lemma NewDecoder_ready: "\<exists>d. NewDecoder = Some d \<and> wf_ready d"
proof -
  obtain dc ac where t: "initHuffmanTables = Some (dc, ac)" "wf_tables (dc, ac)"
    using initHuffmanTables_wf by auto
  define d where "d = zero_decoder\<lparr>negPow2 := initNegPow2, colors := initColorTable, htDC := dc, htAC := ac\<rparr>"
  have "NewDecoder = Some d" unfolding NewDecoder_def Let_def t(1) bind.bind_lunit d_def by simp
  moreover have "wf_ready d"
    using t(2) by (simp add: d_def zero_decoder_def wf_ready_def wf_arrays_def list_all_iff)
  ultimately show ?thesis by blast
qed

lemma pad_to_bounds: "\<lbrakk>0 < n; 0 < m\<rbrakk> \<Longrightarrow> m \<le> pad_to n m \<and> pad_to n m < m + n \<and> pad_to n m mod n = 0"
proof -
  assume a: "0 < n" "0 < m"
  have "(m + n - m mod n) mod n = 0"
    by (metis add_diff_eq diff_add_cancel minus_mod_eq_mult_div mod_add_self2 mod_mult_self1_is_0 add.commute add_diff_cancel_left')
  then show ?thesis using a pos_mod_bound[of n m] pos_mod_sign[of n m] by (auto simp: pad_to_def less_le)
qed

lemma setup_frame_wf:
  assumes "wf_ready d" "0 < uint (DstX h)" "0 < uint (DstY h)"
  shows "wf_dec (setup_frame h d) \<and> Width (setup_frame h d) = DstX h \<and> Height (setup_frame h d) = DstY h"
  using assms by (auto simp: setup_frame_def Let_def wf_ready_def wf_dec_def wf_arrays_def wf_frame_def)

lemma load_qt_safe:
  assumes "wf_dec d" "length tbl = 64" "0 \<le> i" "i < 4"
  shows "wp_opt (load_qt tbl 16 i d) (\<lambda>d'. wf_dec d' \<and> (\<exists>q. d' = d\<lparr>qt := q\<rparr>))"
proof -
  have q: "length (qt d) = 4" "length (qt d ! nat i) = 64"
    using assms by (auto simp: wf_dec_def wf_arrays_def list_all_length)
  have "wp_opt (buildQT (qt d ! nat i) tbl 16) (\<lambda>q. length q = 64)"
    using buildQT_spec[of tbl 16 "qt d ! nat i"] assms(2) q by (auto simp: qt_spec_def elim: wp_opt_mono)
  moreover have "wf_dec (d\<lparr>qt := (qt d)[nat i := x]\<rparr>)" if "length x = 64" for x
  proof -
    have "list_all (\<lambda>q. length q = 64) ((qt d)[nat i := x])"
      using assms(1) that set_update_subset_insert[of "qt d" "nat i" x]
      by (auto simp: wf_dec_def wf_arrays_def list_all_iff)
    then show ?thesis using assms(1) by (simp add: wf_dec_def wf_arrays_def wf_frame_def)
  qed
  moreover have "arr_get (qt d) i = Some (qt d ! nat i)" "arr_set (qt d) i x = Some ((qt d)[nat i := x])" for x
    using q assms(3,4) by (simp_all add: arr_get_in arr_set_in)
  ultimately show ?thesis
    unfolding load_qt_def by (auto simp: wp_opt_bind wp_opt_Some elim!: wp_opt_mono)
qed

text \<open>The set-up changes quantisation and colour cache only.\<close>

lemma setup_tables_safe:
  assumes "wf_dec d"
  shows "wp_opt (setup_tables h d) (\<lambda>d'. wf_dec d' \<and> geometry d' = geometry d \<and> Framebuffer d' = Framebuffer d
    \<and> previousYUV d' = previousYUV d)"
proof -
  define e where "e = d\<lparr>vqIndex := [0, 1, 2, 3], vqColor := [0x008080, 0xFF8080, 0x808080, 0xC08080],
               scaleFactor := 16, scaleFactorUV := 16, advScaleFactor := 16, advScaleFactorUV := 16,
               selector := uint (JPEGTableSelector h), advanceSelector := uint (AdvTableSelector h),
               mapping := uint (JPEGYUVTableMapping h)\<rparr>"
  have e: "wf_dec e" "scaleFactor e = 16" "scaleFactorUV e = 16" "advScaleFactor e = 16" "advScaleFactorUV e = 16"
    "geometry e = geometry d" "Framebuffer e = Framebuffer d" "previousYUV e = previousYUV d"
    using assms by (auto simp: e_def wf_dec_def wf_arrays_def wf_frame_def geometry_def)
  define P where "P d' \<longleftrightarrow> wf_dec d' \<and> (\<exists>q. d' = e\<lparr>qt := q\<rparr>)" for d'
  have step: "wp_opt (load_qt tbl 16 i x) P" if "P x" "length tbl = 64" "0 \<le> i" "i < 4" for tbl i x
    using load_qt_safe[of x tbl i] that by (auto simp: P_def elim!: wp_opt_mono)
  have sc: "scaleFactor x = 16" "scaleFactorUV x = 16" "advScaleFactor x = 16" "advScaleFactorUV x = 16" if "P x" for x
    using that e by (auto simp: P_def)
  have "P e" using e by (auto simp: P_def intro!: exI[of _ "qt e"])
  have "wp_opt (setup_tables h d) P"
    unfolding setup_tables_def Let_def e_def[symmetric] wp_opt_bind loadLuminanceQT_def loadChrominanceQT_def
      loadPass2LuminanceQT_def loadPass2ChrominanceQT_def
    by (rule wp_opt_mono, simp only: sc[OF \<open>P e\<close>], rule step[OF \<open>P e\<close>]; simp?)
       (rule wp_opt_mono, simp only: sc, rule step; simp?)+
  then show ?thesis
    by (rule wp_opt_mono) (use e in \<open>auto simp: P_def geometry_def\<close>)
qed

section \<open>Saving and restoring\<close>

lemma set_run_length:
  "\<lbrakk>0 \<le> i; i + int (length vs) \<le> int (length xs)\<rbrakk> \<Longrightarrow> wp_opt (set_run xs i vs) (\<lambda>ys. length ys = length xs)"
  using set_run_spec[of i vs xs] by (auto simp: wp_opt_iff)

lemma wp_loops8:
  assumes "I s" "\<And>(row :: nat) (col :: nat) s. \<lbrakk>row < 8; col < 8; I s\<rbrakk> \<Longrightarrow> wp_opt (f row col s) I"
  shows "wp_opt (foldM (\<lambda>row. foldM (f row) [0..<8]) [0..<8] s) I"
  by (rule wp_foldM_inv, rule assms(1), rule wp_foldM_inv) (auto intro: assms(2))

lemma saveBlock_safe:
  assumes "0 \<le> tx" "0 \<le> ty"
  shows "wp_opt (saveBlock tx ty d)
    (\<lambda>sb. length (pixels sb) = 256 \<and> offset sb = (ty * 8 * uint (Width d) + tx * 8) * 4)"
  unfolding saveBlock_def Let_def wp_opt_bind
proof (rule wp_opt_mono, rule wp_loops8[where I = "\<lambda>px. length px = 256"])
  fix row col :: nat and px :: bytes assume rc: "row < 8" "col < 8" "length px = 256"
  define i where "i = ((ty * 8 + int row) * uint (Width d) + tx * 8 + int col) * 4"
  have "0 \<le> i" using assms by (simp add: i_def)
  have b: "0 \<le> (int row * 8 + int col) * 4" "(int row * 8 + int col) * 4 + 4 \<le> 256" using rc by auto
  have "wp_opt (set_run px ((int row * 8 + int col) * 4) (take 4 (drop (nat i) (Framebuffer d)))) (\<lambda>px. length px = 256)"
    using set_run_length[of "(int row * 8 + int col) * 4" "take 4 (drop (nat i) (Framebuffer d))" px] b rc(3) by auto
  then show "wp_opt (if i + 3 < int (length (Framebuffer d))
      then go_slice (Framebuffer d) i (i + 4) \<bind> set_run px ((int row * 8 + int col) * 4) else Some px)
      (\<lambda>px. length px = 256)"
    using rc(3) \<open>0 \<le> i\<close> by (simp add: wp_simps)
qed (simp_all add: wp_simps)

lemma restoreBlock_safe:
  assumes "0 < uint (Width d)" "0 \<le> offset sb" "length (pixels sb) = 256"
  shows "wp_opt (restoreBlock d sb fb) (\<lambda>fb'. length fb' = length fb)"
proof -
  define pX where "pX = (offset sb div 4) mod uint (Width d)"
  define pY where "pY = (offset sb div 4) div uint (Width d)"
  have nn: "0 \<le> pX" "0 \<le> pY" using assms by (simp_all add: pX_def pY_def pos_imp_zdiv_nonneg_iff)
  have "wp_opt (foldM (\<lambda>row. foldM (\<lambda>col fb.
             if ((pY + int row) * uint (Width d) + pX + int col) * 4 + 3 < int (length fb)
             then go_slice (pixels sb) ((int row * 8 + int col) * 4) ((int row * 8 + int col) * 4 + 4)
                  \<bind> set_run fb (((pY + int row) * uint (Width d) + pX + int col) * 4)
             else Some fb) [0..<8]) [0..<8] fb) (\<lambda>fb'. length fb' = length fb)"
  proof (rule wp_loops8, rule refl)
    fix row col :: nat and fb' :: bytes assume rc: "row < 8" "col < 8" "length fb' = length fb"
    define i where "i = ((pY + int row) * uint (Width d) + pX + int col) * 4"
    have "0 \<le> i" using nn by (simp add: i_def)
    have b: "0 \<le> (int row * 8 + int col) * 4" "(int row * 8 + int col) * 4 + 4 \<le> 256" using rc by auto
    have "wp_opt (set_run fb' i (take 4 (drop (nat ((int row * 8 + int col) * 4)) (pixels sb)))) (\<lambda>x. length x = length fb)"
      if "i + 3 < int (length fb')"
      using set_run_length[of i "take 4 (drop (nat ((int row * 8 + int col) * 4)) (pixels sb))" fb'] that \<open>0 \<le> i\<close> rc(3) by auto
    then show "wp_opt (if i + 3 < int (length fb')
             then go_slice (pixels sb) ((int row * 8 + int col) * 4) ((int row * 8 + int col) * 4 + 4) \<bind> set_run fb' i
             else Some fb') (\<lambda>x. length x = length fb)"
      using rc(3) b assms(3) by (simp add: wp_simps)
  qed
  then show ?thesis unfolding restoreBlock_def Let_def pX_def pY_def using assms(1) by simp
qed

definition saved_ok :: "savedBlock list \<Rightarrow> bool" where
  "saved_ok sbs \<longleftrightarrow> list_all (\<lambda>sb. length (pixels sb) = 256 \<and> 0 \<le> offset sb) sbs"

lemma restoreBlocks_safe:
  assumes wf: "dec_from p ws d" and sbs: "saved_ok sbs"
  shows "wp_opt (restoreBlocks sbs d) (block_ok p ws d)"
proof -
  have "wp_opt (foldM (restoreBlock d) sbs (Framebuffer d)) (\<lambda>fb. length fb = length (Framebuffer d))"
  proof (rule wp_foldM_inv, rule refl)
    fix sb and fb :: bytes assume "sb \<in> set sbs" and fb: "length fb = length (Framebuffer d)"
    then have "length (pixels sb) = 256" "0 \<le> offset sb" using sbs by (auto simp: saved_ok_def list_all_iff)
    then show "wp_opt (restoreBlock d sb fb) (\<lambda>fb. length fb = length (Framebuffer d))"
      using restoreBlock_safe[of d sb fb] wf fb by (auto simp: wf_defs)
  qed
  then show ?thesis
    unfolding restoreBlocks_def wp_opt_bind wp_opt_Some by (rule wp_opt_mono) (use wf in \<open>auto simp: wf_defs\<close>)
qed

section \<open>One block\<close>

text \<open>A decoder inside the loop: well-formed, at bit \<open>p\<close> or later, with a block position that is not
  negative.\<close>

definition loop_inv :: "nat \<Rightarrow> u32 list \<Rightarrow> Decoder \<Rightarrow> bool" where
  "loop_inv p ws d \<longleftrightarrow> dec_from p ws d \<and> 0 \<le> txb d \<and> 0 \<le> tyb d"

lemma geometry_pos: "geometry d = geometry e \<Longrightarrow> txb d = txb e \<and> tyb d = tyb e"
  by (simp add: geometry_def)

lemma bodies_safe:
  assumes inv: "loop_inv p ws d"
  shows "q \<in> {0, 2} \<Longrightarrow> wp_opt (jpeg_block q d) (block_ok p ws d)"
    "q \<in> {0, 2} \<Longrightarrow> wp_opt (pass2_block q d) (block_ok p ws d)"
    "\<lbrakk>bits \<le> 2; n \<le> 4\<rbrakk> \<Longrightarrow> wp_opt (vq_block bits n d) (block_ok p ws d)"
proof -
  show "wp_opt (jpeg_block q d) (block_ok p ws d)" "wp_opt (pass2_block q d) (block_ok p ws d)" if "q \<in> {0, 2}"
    using inv that unfolding jpeg_block_def pass2_block_def
    by (auto simp: loop_inv_def intro: decompressJPEG_safe decompressJPEGPass2_safe)
  show "wp_opt (vq_block bits n d) (block_ok p ws d)" if "bits \<le> 2" "n \<le> 4"
    unfolding vq_block_def
  proof (rule wp_block_seq)
    define e where "e = d\<lparr>vqBitmapBits := bits\<rparr>"
    have e: "dec_from p ws e" "geometry e = geometry d"
      using inv that by (simp_all add: loop_inv_def wf_defs e_def)
    have "wp_opt (decodeVQHeader n e) (block_ok p ws e)" using decodeVQHeader_safe[OF e(1) that(2)] .
    then show "wp_opt (decodeVQHeader n (d\<lparr>vqBitmapBits := bits\<rparr>)) (block_ok p ws d)"
      unfolding e_def[symmetric] by (rule wp_opt_mono) (use e(2) in \<open>simp add: block_ok_def\<close>)
    show "wp_opt (decompressVQ (txb d') (tyb d') d') (block_ok p ws d')"
      if "dec_from p ws d'" "geometry d' = geometry d" for d'
      using inv that geometry_pos[OF that(2)] by (intro decompressVQ_safe) (simp_all add: loop_inv_def)
  qed
qed

lemma moveBlockIndex_loop: "loop_inv p ws d \<Longrightarrow> loop_inv p ws (moveBlockIndex d)"
  unfolding moveBlockIndex_cases loop_inv_def by (simp add: wf_defs)

definition frame_of :: "Decoder \<Rightarrow> u16 \<times> u16 \<times> u8 \<times> int" where
  "frame_of d = (Width d, Height d, mode420 d, padHeight d)"

lemma frame_of_geometry: "geometry d = geometry e \<Longrightarrow> frame_of d = frame_of e"
  by (simp add: geometry_def frame_of_def)

lemma frame_of_upd [simp]: "frame_of (moveBlockIndex d) = frame_of d" "frame_of (d\<lparr>rdr := r\<rparr>) = frame_of d"
    "frame_of (skip_position d) = frame_of d"
  unfolding moveBlockIndex_cases by (simp_all add: frame_of_def skip_position_def)

definition continues :: "nat \<Rightarrow> u32 list \<Rightarrow> Decoder \<Rightarrow> savedBlock list \<times> Decoder \<Rightarrow> bool" where
  "continues p ws d s \<longleftrightarrow> saved_ok (fst s) \<and> loop_inv p ws (snd s) \<and> frame_of (snd s) = frame_of d"

lemma run_block_safe:
  assumes inv: "loop_inv p ws d" and sbs: "saved_ok sbs" and k: "4 \<le> k" "k \<le> 32"
    and body: "\<And>e. loop_inv (p + 4) ws e \<Longrightarrow> wp_opt (body e) (block_ok (p + 4) ws e)"
  shows "wp_opt (run_block k body sbs d) (continues (p + 4) ws d)"
  unfolding run_block_def wp_opt_bind wp_opt_Some
proof (rule wp_opt_mono)
  show "wp_opt (saveBlock (txb d) (tyb d) d) (\<lambda>sb. length (pixels sb) = 256 \<and> 0 \<le> offset sb)"
    by (rule wp_opt_mono[OF saveBlock_safe]) (use inv in \<open>auto simp: loop_inv_def\<close>)
next
  fix sb :: savedBlock assume sb: "length (pixels sb) = 256 \<and> 0 \<le> offset sb"
  have rd: "reader_from p ws (rdr d)" using inv by (simp add: loop_inv_def dec_from_def)
  show "wp_opt (updateReadBuf (int k) (rdr d)) (\<lambda>rd. wp_opt (body (d\<lparr>rdr := rd\<rparr>))
      (\<lambda>d'. continues (p + 4) ws d (sbs @ [sb], moveBlockIndex d')))"
  proof (rule wp_update_from[OF rd k(2)])
    fix rd' assume "reader_from (p + k) ws rd'"
    then have "reader_from (p + 4) ws rd'" by (rule reader_from_mono) (use k in simp)
    then have i: "loop_inv (p + 4) ws (d\<lparr>rdr := rd'\<rparr>)" using inv by (simp add: loop_inv_def wf_defs)
    then show "wp_opt (body (d\<lparr>rdr := rd'\<rparr>)) (\<lambda>d'. continues (p + 4) ws d (sbs @ [sb], moveBlockIndex d'))"
    proof (rule wp_opt_mono[OF body])
      fix e assume e: "block_ok (p + 4) ws (d\<lparr>rdr := rd'\<rparr>) e"
      then have "loop_inv (p + 4) ws e" using i geometry_pos[of e "d\<lparr>rdr := rd'\<rparr>"] by (auto simp: block_ok_def loop_inv_def)
      moreover have "frame_of e = frame_of d" using e frame_of_geometry[of e "d\<lparr>rdr := rd'\<rparr>"] by (simp add: block_ok_def)
      ultimately show "continues (p + 4) ws d (sbs @ [sb], moveBlockIndex e)"
        using sbs sb by (auto simp: continues_def saved_ok_def intro: moveBlockIndex_loop)
    qed
  qed
qed

lemma skip_position_loop: "loop_inv p ws d \<Longrightarrow> loop_inv p ws (skip_position d)"
  by (simp add: loop_inv_def skip_position_def wf_defs)

section \<open>The loop\<close>

text \<open>The four type bits have sixteen values, and the switch handles each of them.\<close>

lemma block_type_cases:
  fixes r :: u32
  defines "t \<equiv> drop_bit 28 r"
  shows "t \<in> {0, 1, 2, 3, 4, 5, 6, 7, 8, 9, 10, 11, 12, 13, 14, 15}"
proof -
  have "unat r < 16 * 2 ^ 28" using unsigned_less[of r] by simp
  then have "unat r div 2 ^ 28 < 16" by (rule less_mult_imp_div_less)
  moreover have "unat t = unat r div 2 ^ 28"
    unfolding t_def unsigned_drop_bit_eq using \<open>unat r < 16 * 2 ^ 28\<close>
    by (simp add: take_bit_nat_eq_self drop_bit_eq_div[where 'a = nat])
  ultimately have "unat t \<in> set [0..<16]" by simp
  then have "of_nat (unat t) \<in> (of_nat :: nat \<Rightarrow> u32) ` set [0..<16]" by blast
  then show ?thesis by (simp add: upt_conv_Cons)
qed

definition step_ok ::
  "nat \<Rightarrow> u32 list \<Rightarrow> Decoder \<Rightarrow> (Decoder \<times> decode_result) + (savedBlock list \<times> Decoder) \<Rightarrow> bool" where
  "step_ok p ws d r =
     (case r of
        Inl (d', res) \<Rightarrow> dec_from p ws d' \<and> frame_of d' = frame_of d
                         \<and> (res = DecodeOK \<or> (\<exists>b. res = ErrAdvance b \<and> b \<in> {1, 3, 11}))
      | Inr s \<Rightarrow> continues (p + 4) ws d s)"

lemma wp_opt_map_option: "wp_opt (map_option f m) P = wp_opt m (\<lambda>x. P (f x))"
  by (cases m) (simp_all add: wp_simps)

lemma decode_step_safe:
  assumes inv: "loop_inv p ws d" and sbs: "saved_ok sbs"
  shows "wp_opt (decode_step sbs d) (step_ok p ws d)"
proof -
  have run: "wp_opt (map_option Inr (run_block k body sbs e)) (step_ok p ws d)"
    if "e = d \<or> e = skip_position d" "k = 4 \<or> k = 20"
      "\<And>e. loop_inv (p + 4) ws e \<Longrightarrow> wp_opt (body e) (block_ok (p + 4) ws e)" for k body e
  proof -
    have "loop_inv p ws e" "frame_of e = frame_of d" using that(1) inv skip_position_loop by auto
    then have "wp_opt (run_block k body sbs e) (continues (p + 4) ws e)"
      using that(2) by (intro run_block_safe sbs that(3)) auto
    then show ?thesis
      unfolding wp_opt_map_option by (rule wp_opt_mono)
        (use \<open>frame_of e = frame_of d\<close> in \<open>auto simp: step_ok_def continues_def\<close>)
  qed
  have adv: "wp_opt (map_option (\<lambda>e. Inl (e, ErrAdvance b)) (restoreBlocks sbs d)) (step_ok p ws d)"
    if "b \<in> {1, 3, 11}" for b
    unfolding wp_opt_map_option
  proof (rule wp_opt_mono[OF restoreBlocks_safe[OF _ sbs]])
    show "dec_from p ws d" using inv by (simp add: loop_inv_def)
    fix e assume "block_ok p ws d e"
    then show "step_ok p ws d (Inl (e, ErrAdvance b))"
      using that frame_of_geometry[of e d] by (simp add: step_ok_def block_ok_def)
  qed
  have fin: "step_ok p ws d (Inl (d, DecodeOK))" using inv by (simp add: step_ok_def loop_inv_def)
  define t where "t = drop_bit 28 (reg0 (rdr d))"
  have "t \<in> {0, 1, 2, 3, 4, 5, 6, 7, 8, 9, 10, 11, 12, 13, 14, 15}"
    unfolding t_def by (rule block_type_cases)
  then show ?thesis
    unfolding decode_step_def Let_def t_def[symmetric] block_types
    by (elim insertE emptyE) (simp_all add: run adv fin bodies_safe wp_opt_Some)
qed

text \<open>A property that every iteration hands on to the end, by induction on a returning run.\<close>

lemma decode_loop_partial:
  assumes "decode_loop cw sbs d = Some r" "loop_inv p ws d" "saved_ok sbs"
  shows "dec_from p ws (fst (snd r)) \<and> frame_of (fst (snd r)) = frame_of d
    \<and> (snd (snd r) = DecodeOK \<or> (\<exists>b. snd (snd r) = ErrAdvance b \<and> b \<in> {1, 3, 11}))"
  using assms
proof (induction arbitrary: p rule: decode_loop.raw_induct[rotated 1, consumes 1, case_names step])
  case (step loop cw sbs d r)
  have dec: "dec_from p ws d" using step.prems by (simp add: loop_inv_def)
  show ?case
  proof (cases "index (rdr d) < cw")
    case True
    obtain o1 where o1: "decode_step sbs d = Some o1" "step_ok p ws d o1"
      using decode_step_safe[OF step.prems] by (auto simp: wp_opt_iff)
    show ?thesis
    proof (cases o1)
      case (Inl x)
      then show ?thesis using step.hyps True o1 by (auto simp: step_ok_def)
    next
      case (Inr s)
      then have s: "loop_inv (p + 4) ws (snd s)" "saved_ok (fst s)" "frame_of (snd s) = frame_of d"
        using o1(2) by (auto simp: step_ok_def continues_def)
      have "loop cw (fst s) (snd s) = Some r" using step.hyps True o1 Inr by simp
      from step.IH[OF this s(1,2)] s(3) show ?thesis
        by (auto simp: dec_from_def intro: reader_from_mono)
    qed
  next
    case False
    then show ?thesis using step.hyps dec by auto
  qed
qed

lemma decode_loop_terminates:
  assumes "cw \<le> int (length ws)" "loop_inv p ws d" "saved_ok sbs"
  shows "\<exists>r. decode_loop cw sbs d = Some r"
  using assms(2,3)
proof (induction "32 * length ws - p" arbitrary: p sbs d rule: less_induct)
  case less
  show ?case
  proof (cases "index (rdr d) < cw")
    case True
    obtain o1 where o1: "decode_step sbs d = Some o1" "step_ok p ws d o1"
      using decode_step_safe[OF less.prems] by (auto simp: wp_opt_iff)
    show ?thesis
    proof (cases o1)
      case (Inl x)
      then show ?thesis using True o1 by (subst decode_loop.simps) auto
    next
      case (Inr s)
      then have s: "loop_inv (p + 4) ws (snd s)" "saved_ok (fst s)"
        using o1(2) by (auto simp: step_ok_def continues_def)
      obtain q where q: "p \<le> q" "reader_at q (rdr d)" "buf (rdr d) = ws"
        using less.prems(1) by (auto simp: loop_inv_def dec_from_def reader_from_def)
      have "int (min (q div 32 + 1) (length ws)) < int (length ws)"
        using conjunct2[OF reader_index[OF q(2)]] True assms(1) unfolding q(3) by linarith
      then have "q div 32 < length ws" by (simp split: if_splits add: min_def)
      then have "p < 32 * length ws" using q(1) by linarith
      then have "32 * length ws - (p + 4) < 32 * length ws - p" by simp
      then obtain r where "decode_loop cw (fst s) (snd s) = Some r" using less.hyps[OF _ s] by blast
      then show ?thesis using True o1 Inr by (intro exI[of _ r]) (subst decode_loop.simps, simp)
    qed
  next
    case False
    then show ?thesis by (subst decode_loop.simps) auto
  qed
qed

text \<open>On zero data every block is a JPEG block and the loop condition stays true.\<close>

lemma zero_reader:
  assumes "reader_from p ws rd" "list_all (\<lambda>w. w = 0) ws" "ws \<noteq> []"
  shows "reg0 rd = 0"
proof (rule bit_word_eqI)
  fix n :: nat assume "n < LENGTH(32)"
  then have n: "n < 32" by simp
  obtain q where q: "reader_at q rd" "buf rd = ws" using assms(1) by (auto simp: reader_from_def)
  have "\<forall>i<32. bit (reg0 rd) (31 - i) = sbit ws (q + i)" using q unfolding reader_at_def by simp
  then have "bit (reg0 rd) (31 - (31 - n)) = sbit ws (q + (31 - n))" by (rule allE[of _ "31 - n"]) simp
  moreover have "\<not> sbit ws k" for k
  proof -
    have "min (k div 32) (length ws - 1) < length ws" using assms(3) by (simp add: min_less_iff_disj)
    then have "ws ! min (k div 32) (length ws - 1) = 0" using assms(2) by (simp add: list_all_length)
    then show ?thesis by (simp add: sbit_def)
  qed
  ultimately show "bit (reg0 rd) n = bit 0 n" using n by simp
qed

lemma zero_data_diverges:
  assumes "decode_loop cw sbs d = Some r" "loop_inv p ws d" "saved_ok sbs"
    "list_all (\<lambda>w. w = 0) ws" "ws \<noteq> []" "int (length ws) < cw"
  shows False
  using assms
proof (induction arbitrary: p rule: decode_loop.raw_induct[rotated 1, consumes 1, case_names step])
  case (step loop cw sbs d r)
  have rd: "reader_from p ws (rdr d)" using step.prems by (simp add: loop_inv_def dec_from_def)
  then obtain q where q: "reader_at q (rdr d)" "buf (rdr d) = ws" by (auto simp: reader_from_def)
  have run: "index (rdr d) < cw" using conjunct1[OF reader_index[OF q(1)]] step.prems(5) unfolding q(2) by linarith
  obtain o1 where o1: "decode_step sbs d = Some o1" "step_ok p ws d o1"
    using decode_step_safe[OF step.prems(1,2)] by (auto simp: wp_opt_iff)
  have "reg0 (rdr d) = 0" by (rule zero_reader[OF rd step.prems(3,4)])
  then have "decode_step sbs d = map_option Inr (run_block 4 (jpeg_block 0) sbs d)"
    by (simp add: decode_step_def blockJPEGNoSkip_def)
  then have "map_option Inr (run_block 4 (jpeg_block 0) sbs d) = Some o1" using o1(1) by simp
  then obtain s where s: "o1 = Inr s" unfolding map_option_eq_Some by blast
  then have "loop_inv (p + 4) ws (snd s)" "saved_ok (fst s)"
    using o1(2) by (auto simp: step_ok_def continues_def)
  moreover have "loop cw (fst s) (snd s) = Some r" using step.hyps run o1 s by simp
  ultimately show False using step.IH step.prems by blast
qed

section \<open>A frame\<close>

text \<open>The decoders that occur: a new one, what a returning call of \<open>Decode\<close> makes of one, and what the bridge
  makes of one when it blanks the framebuffer during a change of resolution.\<close>

definition blank_frame :: "Decoder \<Rightarrow> Decoder" where
  "blank_frame d = d\<lparr>Framebuffer := map (\<lambda>_. 0) (Framebuffer d)\<rparr>"

inductive decoder_state :: "Decoder \<Rightarrow> bool" where
  fresh: "NewDecoder = Some d \<Longrightarrow> decoder_state d"
| frame: "\<lbrakk>decoder_state d; Decode header data d = Some (d', r)\<rbrakk> \<Longrightarrow> decoder_state d'"
| blank: "decoder_state d \<Longrightarrow> decoder_state (blank_frame d)"

lemma setup_frame_state:
  assumes "wf_ready d" "0 < uint (DstX h)" "0 < uint (DstY h)"
  obtains d1 where "setup_tables h (setup_frame h d) = Some d1" "wf_dec d1"
    "frame_of d1 = (DstX h, DstY h, Mode420 h, padHeight (setup_frame h d))"
    "Framebuffer d1 = Framebuffer (setup_frame h d)"
proof -
  define e where "e = setup_frame h d"
  have e: "wf_dec e" "Width e = DstX h" "Height e = DstY h" "mode420 e = Mode420 h"
    using setup_frame_wf[OF assms] by (auto simp: e_def setup_frame_def Let_def)
  obtain d1 where d1: "setup_tables h e = Some d1" "wf_dec d1" "geometry d1 = geometry e" "Framebuffer d1 = Framebuffer e"
    using setup_tables_safe[OF e(1), of h] by (auto simp: wp_opt_iff)
  then have "frame_of d1 = frame_of e" by (intro frame_of_geometry)
  then show ?thesis using d1 e by (intro that[of d1]) (simp_all add: frame_of_def e_def[symmetric])
qed

lemma start_frame_inv:
  assumes "wf_dec d" "2 \<le> length ws"
  shows "loop_inv 0 ws (start_frame ws d) \<and> frame_of (start_frame ws d) = frame_of d"
  using assms reader_init[OF assms(2)]
  by (auto simp: start_frame_def loop_inv_def wf_defs frame_of_def reader_from_def init_reader_def)

text \<open>What a call of \<open>Decode\<close> is, when the header has a resolution.\<close>

lemma Decode_loop:
  assumes "wf_ready d" "0 < uint (DstX h)" "0 < uint (DstY h)" "3 \<le> length (makeIntArray data)"
  obtains d1 where "Decode h data d = map_option snd (decode_loop (uint (CompressSize h) div 4) [] d1)"
    "loop_inv 0 (makeIntArray data) d1" "frame_of d1 = (DstX h, DstY h, Mode420 h, padHeight (setup_frame h d))"
proof -
  obtain d1 where d1: "setup_tables h (setup_frame h d) = Some d1" "wf_dec d1"
    "frame_of d1 = (DstX h, DstY h, Mode420 h, padHeight (setup_frame h d))"
    using setup_frame_state[OF assms(1-3)] by blast
  show ?thesis
    using start_frame_inv[OF d1(2), of "makeIntArray data"] assms d1
    by (intro that[of "start_frame (makeIntArray data) d1"]) (simp_all add: Decode_def Let_def)
qed

lemma Decode_cases:
  assumes ready: "wf_ready d" and dec: "Decode h data d = Some (d', r)"
  shows "DstX h = 0 \<or> DstY h = 0 \<Longrightarrow> d' = d \<and> r = ErrResolution"
    "\<lbrakk>DstX h \<noteq> 0; DstY h \<noteq> 0\<rbrakk> \<Longrightarrow> wf_dec d' \<and> Width d' = DstX h \<and> Height d' = DstY h
       \<and> (if length (makeIntArray data) < 3 then r = ErrTooShort
          else r = DecodeOK \<or> (\<exists>b\<in>{1, 3, 11}. r = ErrAdvance b))"
proof -
  show "d' = d \<and> r = ErrResolution" if "DstX h = 0 \<or> DstY h = 0"
    using dec that by (auto simp: Decode_def)
  assume "DstX h \<noteq> 0" "DstY h \<noteq> 0"
  then have wh: "0 < uint (DstX h)" "0 < uint (DstY h)" by (simp_all add: word_neq_0_conv word_less_def)
  show "wf_dec d' \<and> Width d' = DstX h \<and> Height d' = DstY h
       \<and> (if length (makeIntArray data) < 3 then r = ErrTooShort
          else r = DecodeOK \<or> (\<exists>b\<in>{1, 3, 11}. r = ErrAdvance b))"
  proof (cases "length (makeIntArray data) < 3")
    case True
    obtain d1 where d1: "setup_tables h (setup_frame h d) = Some d1" "wf_dec d1"
      "frame_of d1 = (DstX h, DstY h, Mode420 h, padHeight (setup_frame h d))"
      using setup_frame_state[OF ready wh] by blast
    then show ?thesis using dec True wh
      by (auto simp: Decode_def Let_def wf_dec_def wf_arrays_def wf_frame_def frame_of_def)
  next
    case False
    then obtain d1 where d1: "Decode h data d = map_option snd (decode_loop (uint (CompressSize h) div 4) [] d1)"
      "loop_inv 0 (makeIntArray data) d1" "frame_of d1 = (DstX h, DstY h, Mode420 h, padHeight (setup_frame h d))"
      using Decode_loop[OF ready wh, of data] by auto
    obtain sbs where "decode_loop (uint (CompressSize h) div 4) [] d1 = Some (sbs, d', r)"
      using dec d1(1) by auto
    from decode_loop_partial[OF this d1(2)] have "dec_from 0 (makeIntArray data) d'" "frame_of d' = frame_of d1"
      "r = DecodeOK \<or> (\<exists>b\<in>{1, 3, 11}. r = ErrAdvance b)" by (auto simp: saved_ok_def)
    then show ?thesis using False d1(3) by (simp add: frame_of_def dec_from_def)
  qed
qed

lemma decoder_state_ready: "decoder_state d \<Longrightarrow> wf_ready d"
proof (induction rule: decoder_state.induct)
  case (fresh d)
  then show ?case using NewDecoder_ready by (metis option.inject)
next
  case (frame d h data d' r)
  then show ?case using Decode_cases[OF frame.IH frame.hyps(2)] wf_dec_ready by blast
next
  case (blank d)
  then show ?case by (simp add: wf_ready_def blank_frame_def wf_arrays_def)
qed

lemma Decode_returns:
  assumes ready: "wf_ready d" and size: "uint (CompressSize header) div 4 \<le> int (length (makeIntArray data))"
  shows "\<exists>d' r. Decode header data d = Some (d', r)"
proof (cases "DstX header = 0 \<or> DstY header = 0")
  case True
  then show ?thesis by (auto simp: Decode_def)
next
  case False
  then have wh: "0 < uint (DstX header)" "0 < uint (DstY header)" by (simp_all add: word_neq_0_conv word_less_def)
  show ?thesis
  proof (cases "length (makeIntArray data) < 3")
    case True
    obtain d1 where "setup_tables header (setup_frame header d) = Some d1" using setup_frame_state[OF ready wh] by blast
    then show ?thesis using True wh by (simp add: Decode_def Let_def)
  next
    case False
    then obtain d1 where d1: "Decode header data d = map_option snd (decode_loop (uint (CompressSize header) div 4) [] d1)"
      "loop_inv 0 (makeIntArray data) d1"
      using Decode_loop[OF ready wh, of data] by auto
    obtain x where "decode_loop (uint (CompressSize header) div 4) [] d1 = Some x"
      using decode_loop_terminates[OF size d1(2), of "[]"] by (auto simp: saved_ok_def)
    then show ?thesis using d1(1) by (cases x) auto
  qed
qed

text \<open>A header for the examples: resolution, mode and \<open>CompressSize\<close>, everything else zero.\<close>

definition sample_header :: "u16 \<Rightarrow> u16 \<Rightarrow> u8 \<Rightarrow> u32 \<Rightarrow> ASPEEDVideoHeader" where
  "sample_header w h m cs = \<lparr>EngVersion = 0, HeaderLen = 0, SrcX = w, SrcY = h,
     SrcColorDepth = 0, SrcRefreshRate = 0, SrcModeIndex = 0, DstX = w,
     DstY = h, DstColorDepth = 0, DstRefreshRate = 0, DstModeIndex = 0,
     FrameStartCode = 0, FrameNumber = 0, HSize = 0, VSize = 0,
     Reserved = replicate 8 0, CompressionMode = 0, JPEGScaleFactor = 0, JPEGTableSelector = 0,
     JPEGYUVTableMapping = 0, SharpModeSelection = 0, AdvTableSelector = 0, AdvScaleFactor = 0,
     NumberOfMB = 0, RC4Enable = 0, RC4Reset = 0, Mode420 = m,
     DownScalingMethod = 0, DiffSetting = 0, AnalogDiffThresh = 0, DigitalDiffThresh = 0,
     ExtSignalEnable = 0, AutoMode = 0, VQMode = 0, SrcFrameSize = 0,
     CompressSize = cs, HDebug = 0, VDebug = 0, InputSignal = 0,
     CursorXPos = 0, CursorYPos = 0\<rparr>"

lemma new_decoder_state: "decoder_state (the NewDecoder)"
  using NewDecoder_ready by (metis decoder_state.fresh option.sel)

lemma makeIntArray_zeros: "makeIntArray (replicate 12 0) = [0, 0, 0]"
  by (simp add: makeIntArray_def upt_rec get_le32_def)

lemma sample_wf: "\<exists>d. setup_tables (sample_header w h m 0) (setup_frame (sample_header w h m 0) (the NewDecoder)) = Some d
    \<and> wf_dec d \<and> mode420 d = m" if "w \<noteq> 0" "h \<noteq> 0"
proof -
  have "0 < uint w" "0 < uint h" using that by (simp_all add: word_neq_0_conv word_less_def)
  then show ?thesis
    using setup_frame_state[OF decoder_state_ready[OF new_decoder_state], of "sample_header w h m 0"]
    by (auto simp: sample_header_def frame_of_def)
qed

definition sample_decoder :: "u8 \<Rightarrow> Decoder" where
  "sample_decoder m = the (setup_tables (sample_header 20 20 m 0) (setup_frame (sample_header 20 20 m 0) (the NewDecoder)))"

lemma sample_decoder_wf: "wf_dec (sample_decoder m) \<and> mode420 (sample_decoder m) = m"
  using sample_wf[of 20 20 m] by (auto simp: sample_decoder_def)

section \<open>Properties\<close>

text \<open>C1: for every decoder that can occur, every header and every byte sequence, a call of \<open>Decode\<close>
  that returns did not panic and did not meet an unknown block type; it fails for the resolution exactly
  when a dimension is zero, for the length exactly when there are at most eight bytes, and
  otherwise it succeeds or stops at an advance block. The framebuffer then has the resolution of the
  header, four bytes per pixel.\<close>

theorem Decode_safe:
  assumes "decoder_state d" and "Decode header data d = Some (d', r)"
  shows "(if DstX header = 0 \<or> DstY header = 0 then r = ErrResolution \<and> d' = d
          else Width d' = DstX header \<and> Height d' = DstY header
               \<and> length (Framebuffer d') = unat (DstX header) * unat (DstY header) * 4
               \<and> (if length data \<le> 8 then r = ErrTooShort else r = DecodeOK \<or> r \<in> ErrAdvance ` {1, 3, 11}))"
proof -
  have short: "length (makeIntArray data) < 3 \<longleftrightarrow> length data \<le> 8" unfolding length_makeIntArray by linarith
  show ?thesis
    using Decode_cases[OF decoder_state_ready[OF assms(1)] assms(2)] wf_frame_len[of d'] unfolding short
    by (auto simp: W_of_def H_of_def)
qed

theorem Decode_safe_witness:
  "\<exists>d'. Decode (sample_header 16 8 0 0) (replicate 12 0) (the NewDecoder) = Some (d', DecodeOK)
     \<and> length (Framebuffer d') = 512"
proof -
  let ?h = "sample_header 16 8 0 0"
  obtain d1 where d1: "Decode ?h (replicate 12 0) (the NewDecoder) = map_option snd (decode_loop 0 [] d1)"
    "loop_inv 0 (makeIntArray (replicate 12 0)) d1"
    using Decode_loop[OF decoder_state_ready[OF new_decoder_state], of ?h "replicate 12 0"]
    by (auto simp: sample_header_def makeIntArray_zeros)
  obtain q where q: "reader_at q (rdr d1)" using d1(2) by (auto simp: loop_inv_def dec_from_def reader_from_def)
  have "\<not> index (rdr d1) < 0" using conjunct2[OF reader_index[OF q]] by linarith
  then have "Decode ?h (replicate 12 0) (the NewDecoder) = Some (d1, DecodeOK)"
    unfolding d1(1) by (subst decode_loop.simps) simp
  moreover from Decode_safe[OF new_decoder_state this] have "length (Framebuffer d1) = 512"
    by (simp add: sample_header_def split: if_splits)
  ultimately show ?thesis by blast
qed

text \<open>C9: \<open>Decode\<close> returns whenever the header does not announce more words than there are; every block
  consumes at least the four bits of its type.\<close>

theorem Decode_terminates:
  assumes "decoder_state d" and "uint (CompressSize header) div 4 \<le> int (length (makeIntArray data))"
  shows "\<exists>d' r. Decode header data d = Some (d', r)"
  using assms by (intro Decode_returns decoder_state_ready)

theorem Decode_terminates_witness:
  "\<exists>d' r. Decode (sample_header 640 480 0 12) (replicate 12 0) (the NewDecoder) = Some (d', r)"
  by (rule Decode_terminates[OF new_decoder_state]) (simp add: sample_header_def makeIntArray_zeros)

text \<open>That bound is needed: on data that is all zero, with a header that announces more words
  than were received, \<open>Decode\<close> never returns. The reader repeats the last word for ever while
  \<open>index\<close> stays at the number of words.\<close>

theorem Decode_diverges:
  assumes "decoder_state d" and "DstX header \<noteq> 0" and "DstY header \<noteq> 0"
    and "3 \<le> length (makeIntArray data)" and "list_all (\<lambda>w. w = 0) (makeIntArray data)"
    and "int (length (makeIntArray data)) < uint (CompressSize header) div 4"
  shows "Decode header data d = None"
proof -
  have wh: "0 < uint (DstX header)" "0 < uint (DstY header)"
    using assms(2,3) by (simp_all add: word_neq_0_conv word_less_def)
  obtain d1 where d1: "Decode header data d = map_option snd (decode_loop (uint (CompressSize header) div 4) [] d1)"
    "loop_inv 0 (makeIntArray data) d1"
    using Decode_loop[OF decoder_state_ready[OF assms(1)] wh assms(4)] by blast
  have "makeIntArray data \<noteq> []" using assms(4) by auto
  then have "\<nexists>x. decode_loop (uint (CompressSize header) div 4) [] d1 = Some x"
    using zero_data_diverges[OF _ d1(2) _ assms(5) _ assms(6), of "[]"] by (auto simp: saved_ok_def)
  then have "decode_loop (uint (CompressSize header) div 4) [] d1 = None" by (simp only: not_ex not_Some_eq)
  then show ?thesis unfolding d1(1) by simp
qed

theorem Decode_diverges_witness:
  "Decode (sample_header 640 480 0 16) (replicate 12 0) (the NewDecoder) = None"
  by (rule Decode_diverges[OF new_decoder_state]) (simp_all add: sample_header_def makeIntArray_zeros)

text \<open>The 4:4:4 conversion writes every pixel of its tile that lies in the frame with the colour of its
  samples, and no other pixel.\<close>

theorem convert444_paints_tile:
  assumes "wf_dec d" and "mode420 d = 0"
  shows "\<exists>d'. convertYUVtoRGB (int X) (int Y) d = Some d'
    \<and> painted (W_of d) (H_of d) (color444 (yuvTile d)) (Framebuffer d) {(x, y). x div 8 = X \<and> y div 8 = Y} (Framebuffer d')"
  using convert444_spec[OF assms(1), of X Y] assms(2) by (auto simp: convertYUVtoRGB_def wp_opt_iff)

theorem convert444_paints_tile_witness: "convertYUVtoRGB (int 2) (int 1) (sample_decoder 0) \<noteq> None"
  using convert444_paints_tile[of "sample_decoder 0" 2 1] sample_decoder_wf[of 0] by auto

text \<open>The 4:2:0 conversion writes the pixels of its 16 by 16 tile with the luma sample of the right
  block and the chroma sample shared by four pixels; the running counters \<open>yBlockIdx\<close> always equal
  the position inside the luma block. For a padded height of 608 the last row of tiles is cut to
  eight lines.\<close>

theorem convert420_paints_tile:
  assumes "wf_dec d" and "mode420 d \<noteq> 0"
  shows "\<exists>d'. convertYUVtoRGB (int X) (int Y) d = Some d'
    \<and> painted (W_of d) (H_of d) (color420 (yuvTile d)) (Framebuffer d)
        {(x, y). x div 16 = X \<and> y div 16 = Y \<and> y mod 16 < (if padHeight d = 608 \<and> Y = 37 then 8 else 16)}
        (Framebuffer d')"
  using convert420_spec[OF assms(1), of X Y] assms(2) by (auto simp: convertYUVtoRGB_def wp_opt_iff tile_rows_def)

theorem convert420_paints_tile_witness: "convertYUVtoRGB (int 1) (int 1) (sample_decoder 1) \<noteq> None"
  using convert420_paints_tile[of "sample_decoder 1" 1 1] sample_decoder_wf[of 1] by auto

text \<open>From a position in the grid \<open>moveBlockIndex\<close> goes to the next block in raster order, and from the
  last block back to the first.\<close>

theorem moveBlockIndex_raster:
  assumes "in_grid d"
  shows "in_grid (moveBlockIndex d)
    \<and> tile_index (moveBlockIndex d) = (tile_index d + 1) mod (cols_of d * rows_of d)"
  using assms by (rule moveBlockIndex_next)

theorem moveBlockIndex_raster_witness:
  "tile_index (moveBlockIndex (zero_decoder\<lparr>gridWidth := 24, gridHeight := 16, txb := 2, tyb := 1\<rparr>)) = 0"
  using moveBlockIndex_raster[of "zero_decoder\<lparr>gridWidth := 24, gridHeight := 16, txb := 2, tyb := 1\<rparr>"]
  by (simp add: in_grid_def tile_index_def cols_of_def rows_of_def block_size_def zero_decoder_def)

end
