(* ===== verification/Bridge.thy ===== *)
theory Bridge
  imports Client Decoder
begin

text \<open>
  The iKVM bridge, \<open>src/internal/ikvm/bridge.go\<close>: it owns the IVTP client and the decoder, takes each video
  frame into the framebuffer, wakes the attached viewers and carries commands to the BMC.

  The operations run one at a time, as the mutexes make them; a goroutine that only sends a header is
  kept in \<open>b_go\<close> until \<open>run_go\<close> runs it. A channel of empty structs is the number of signals it holds and
  whether it is closed. \<^term>\<open>None\<close> is a panic, or a call of \<open>Decode\<close> that does not return.
\<close>

section \<open>State\<close>

record chan =
  ch_len :: nat
  ch_cap :: nat
  ch_closed :: bool

definition make_chan :: "nat \<Rightarrow> chan" where
  "make_chan n = \<lparr>ch_len = 0, ch_cap = n, ch_closed = False\<rparr>"

text \<open>\<open>select { case ch <- struct{}{}: default: }\<close>\<close>

definition try_send :: "chan \<Rightarrow> chan option" where
  "try_send ch =
     (if ch_closed ch then None
      else if ch_len ch < ch_cap ch then Some (ch\<lparr>ch_len := ch_len ch + 1\<rparr>)
      else Some ch)"

definition close_chan :: "chan \<Rightarrow> chan option" where
  "close_chan ch = (if ch_closed ch then None else Some (ch\<lparr>ch_closed := True\<rparr>))"

text \<open>The bridge. The channels of the viewers live in the store \<open>b_chans\<close>; \<open>b_frameSubs\<close> lists the
  subscribed ones in the order in which the range over the map meets them. \<open>b_ctx\<close> is the context, \<open>Some
  done\<close> after \<open>Start\<close>. \<open>b_goroutines\<close> says whether the session and the refresh ticker run. \<open>b_seq\<close> is the
  sequence counter of \<open>hid.go\<close>.\<close>

record Bridge =
  b_cfg :: ClientConfig
  b_client :: "Client option"
  b_decoder :: Decoder
  b_width :: u16
  b_height :: u16
  b_fbDirty :: bool
  b_frameReady :: chan
  b_frameSubs :: "nat list"
  b_chans :: "chan list"
  b_kbdModifiers :: u8
  b_resChangeCountdown :: int
  b_frameCount :: int
  b_ctx :: "bool option"
  b_running :: bool
  b_ready :: chan
  b_goroutines :: bool
  b_go :: "u16 list"
  b_seq :: u32

definition NewBridge :: "ClientConfig \<Rightarrow> Bridge option" where
  "NewBridge cfg = do {
     dec \<leftarrow> NewDecoder;
     Some \<lparr>b_cfg = cfg, b_client = None, b_decoder = dec, b_width = 800, b_height = 600, b_fbDirty = False,
       b_frameReady = make_chan 4, b_frameSubs = [], b_chans = [], b_kbdModifiers = 0,
       b_resChangeCountdown = 0, b_frameCount = 0, b_ctx = None, b_running = False, b_ready = make_chan 0,
       b_goroutines = False, b_go = [], b_seq = 0\<rparr>
   }"

datatype bridge_error =
    ENotConnected
  | ESend string
  | EConnect client_error
  | ENotRunning
  | EStoppedBeforeReady
  | EHandshake string
  | EWebSocket string
  | ECancelled

section \<open>Commands\<close>

text \<open>A command is refused without a client; otherwise it is a send on the client.\<close>

definition with_client :: "(Client \<Rightarrow> (bool \<times> Client) option) \<Rightarrow> Bridge \<Rightarrow> (bridge_error option \<times> Bridge) option" where
  "with_client send b =
     (case b_client b of
        None \<Rightarrow> Some (Some ENotConnected, b)
      | Some c \<Rightarrow> do {
          (ok, c) \<leftarrow> send c;
          Some (if ok then None else Some (ESend ''''), b\<lparr>b_client := Some c\<rparr>)
        })"

definition SendPowerCommand :: "u8 \<Rightarrow> Bridge \<Rightarrow> (bridge_error option \<times> Bridge) option" where
  "SendPowerCommand action = with_client (SendHeader IVTPPowerControlReq 0 (ucast action))"

definition SendDisplayLock :: "bool \<Rightarrow> Bridge \<Rightarrow> (bridge_error option \<times> Bridge) option" where
  "SendDisplayLock lock =
     with_client (SendMessageWithPayload IVTPDisplayLock 0 [if lock then DisplayLock else DisplayUnlock])"

definition ResetVideo :: "Bridge \<Rightarrow> (bridge_error option \<times> Bridge) option" where
  "ResetVideo b =
     (case b_client b of
        None \<Rightarrow> Some (Some ENotConnected, b)
      | Some c \<Rightarrow> do {
          (ok, c) \<leftarrow> SendHeader IVTPPauseRedirection 0 0 c;
          if \<not> ok then Some (Some (ESend ''pause''), b\<lparr>b_client := Some c\<rparr>)
          else do {
            (ok, c) \<leftarrow> SendHeader IVTPResumeRedirection 0 0 c;
            if \<not> ok then Some (Some (ESend ''resume''), b\<lparr>b_client := Some c\<rparr>)
            else do {
              (_, c) \<leftarrow> SendHeader IVTPRefreshVideoScreen 0 0 c;
              Some (None, b\<lparr>b_client := Some c\<rparr>)
            }
          }
        })"

definition SetMouseMode :: "u8 \<Rightarrow> Bridge \<Rightarrow> (bridge_error option \<times> Bridge) option" where
  "SetMouseMode mode = with_client (SendHeader IVTPSetMouseMode 0 (ucast mode))"

definition SetKeyboardLayout :: "string \<Rightarrow> Bridge \<Rightarrow> (bridge_error option \<times> Bridge) option" where
  "SetKeyboardLayout layout = with_client (SendMessageWithPayload IVTPSetKbdLang 0 (str_bytes layout))"

definition SendIPMICommand :: "bytes \<Rightarrow> Bridge \<Rightarrow> (bridge_error option \<times> Bridge) option" where
  "SendIPMICommand data = with_client (SendMessageWithPayload IVTPIPMIRequestPkt 0 data)"

section \<open>Subscriptions\<close>

definition SubscribeFrames :: "Bridge \<Rightarrow> nat \<times> Bridge" where
  "SubscribeFrames b =
     (length (b_chans b),
      b\<lparr>b_chans := b_chans b @ [make_chan 1], b_frameSubs := b_frameSubs b @ [length (b_chans b)]\<rparr>)"

text \<open>\<open>close\<close> panics on a channel that is closed already.\<close>

definition UnsubscribeFrames :: "nat \<Rightarrow> Bridge \<Rightarrow> Bridge option" where
  "UnsubscribeFrames ch b = do {
     let b = b\<lparr>b_frameSubs := filter (\<lambda>i. i \<noteq> ch) (b_frameSubs b)\<rparr>;
     c \<leftarrow> arr_get (b_chans b) (int ch);
     c' \<leftarrow> close_chan c;
     cs \<leftarrow> arr_set (b_chans b) (int ch) c';
     Some (b\<lparr>b_chans := cs\<rparr>)
   }"

definition notify :: "nat \<Rightarrow> chan list \<Rightarrow> chan list option" where
  "notify i cs = do {
     c \<leftarrow> arr_get cs (int i);
     c' \<leftarrow> try_send c;
     arr_set cs (int i) c'
   }"

section \<open>Frames\<close>

text \<open>\<open>go b.client.SendHeader(IVTPRefreshVideoScreen, 0, 0)\<close>, when there is a client; and the goroutine.\<close>

definition spawn_refresh :: "Bridge \<Rightarrow> Bridge" where
  "spawn_refresh b = (if b_client b = None then b else b\<lparr>b_go := b_go b @ [IVTPRefreshVideoScreen]\<rparr>)"

definition run_go :: "Bridge \<Rightarrow> Bridge option" where
  "run_go b =
     (case (b_go b, b_client b) of
        (t # ts, Some c) \<Rightarrow> do {
          (_, c) \<leftarrow> SendHeader t 0 0 c;
          Some (b\<lparr>b_go := ts, b_client := Some c\<rparr>)
        }
      | _ \<Rightarrow> Some b)"

definition close_ready :: "Bridge \<Rightarrow> Bridge option" where
  "close_ready b =
     (if ch_closed (b_ready b) then Some b
      else do {
        r \<leftarrow> close_chan (b_ready b);
        Some (b\<lparr>b_ready := r\<rparr>)
      })"

definition onVideoFrame :: "ASPEEDVideoHeader \<Rightarrow> bytes \<Rightarrow> Bridge \<Rightarrow> Bridge option" where
  "onVideoFrame header data b = do {
     let b = b\<lparr>b_frameCount := b_frameCount b + 1\<rparr>;
     let prevW = b_width b;
     let prevH = b_height b;
     (dec, r) \<leftarrow> Decode header data (b_decoder b);
     let b = b\<lparr>b_decoder := dec\<rparr>;
     if r \<noteq> DecodeOK then Some (spawn_refresh b)
     else do {
       let b = b\<lparr>b_width := Width dec, b_height := Height dec\<rparr>;
       let b = (if b_width b \<noteq> prevW \<or> b_height b \<noteq> prevH
                then spawn_refresh (if b_frameCount b > 1 then b\<lparr>b_resChangeCountdown := 3\<rparr> else b)
                else b);
       let b = (if b_resChangeCountdown b > 0
                then b\<lparr>b_decoder := blank_frame (b_decoder b), b_resChangeCountdown := b_resChangeCountdown b - 1\<rparr>
                else b);
       fr \<leftarrow> try_send (b_frameReady b);
       cs \<leftarrow> foldM notify (b_frameSubs b) (b_chans b);
       close_ready (b\<lparr>b_fbDirty := True, b_frameReady := fr, b_chans := cs\<rparr>)
     }
   }"

section \<open>Lifecycle\<close>

definition Running :: "Bridge \<Rightarrow> bool" where
  "Running b = b_running b"

text \<open>\<open>Start\<close>; the two goroutines it starts are \<open>run_session\<close> and \<open>refresh_tick\<close>. Sends that still wait belong
  to the client that is replaced, and go with it.\<close>

definition Start :: "(string \<Rightarrow> Conn option) \<Rightarrow> Bridge \<Rightarrow> (bridge_error option \<times> Bridge) option" where
  "Start dial b =
     (if b_running b then Some (None, b)
      else do {
        let b = b\<lparr>b_ctx := Some False\<rparr>;
        (e, c) \<leftarrow> Connect dial ((NewClient (b_cfg b))\<lparr>c_onVideoFrame := True\<rparr>);
        let b = b\<lparr>b_client := Some c, b_go := []\<rparr>;
        case e of
          Some e \<Rightarrow> Some (Some (EConnect e), b)
        | None \<Rightarrow> Some (None, b\<lparr>b_running := True, b_goroutines := True\<rparr>)
      })"

text \<open>The events of a session in their order: only video frames have a callback set.\<close>

fun on_event :: "event \<Rightarrow> Bridge \<Rightarrow> Bridge option" where
  "on_event (VideoFrame h d) b = onVideoFrame h d b"
| "on_event (CtrlMsg h p) b = Some b"

text \<open>The session goroutine: \<open>RunSession\<close>, whose callbacks touch nothing that it reads, then the
  cancellation.\<close>

definition run_session :: "Bridge \<Rightarrow> Bridge option" where
  "run_session b = do {
     c \<leftarrow> b_client b;
     (e, evs, c') \<leftarrow> RunSession c;
     b \<leftarrow> foldM on_event evs (b\<lparr>b_client := Some c'\<rparr>);
     Some (b\<lparr>b_ctx := Some True\<rparr>)
   }"

definition refresh_tick :: "Bridge \<Rightarrow> Bridge option" where
  "refresh_tick b =
     (if b_ctx b = Some False then
        (case b_client b of
           None \<Rightarrow> Some b
         | Some c \<Rightarrow> do {
             (_, c) \<leftarrow> SendHeader IVTPRefreshVideoScreen 0 0 c;
             Some (b\<lparr>b_client := Some c\<rparr>)
           })
      else Some b)"

text \<open>\<open>Stop\<close>: after the cancellation the goroutines end and \<open>Wait\<close> returns.\<close>

definition stop_bridge :: "Bridge \<Rightarrow> Bridge option" where
  "stop_bridge b =
     (if \<not> b_running b then Some b
      else do {
        let b = b\<lparr>b_ctx := Some True\<rparr>;
        b \<leftarrow> (case b_client b of
                None \<Rightarrow> Some b
              | Some c \<Rightarrow> do {
                  c \<leftarrow> Stop c;
                  Some (b\<lparr>b_client := Some c\<rparr>)
                });
        Some (b\<lparr>b_goroutines := False, b_running := False, b_ready := make_chan 0\<rparr>)
      })"

section \<open>Pixels\<close>

text \<open>The framebuffer is usable: it has a size and the bytes of all its pixels.\<close>

definition has_frame :: "Decoder \<Rightarrow> bool" where
  "has_frame d \<longleftrightarrow> \<not> (Width d = 0 \<or> Height d = 0
     \<or> int (length (Framebuffer d)) < uint (Width d) * uint (Height d) * 4)"

text \<open>The decoder writes BGRA, the viewers and PNG want RGBA. \<open>swap_pixels\<close> is the copy loop of the VNC
  frames, \<open>i\<close> its byte offset; \<open>shot_pixels\<close> that of the screenshot, which makes every pixel opaque.\<close>

definition swap_pixel :: "bytes \<Rightarrow> nat \<Rightarrow> bytes \<Rightarrow> bytes option" where
  "swap_pixel fb i px = do {
     r \<leftarrow> arr_get fb (int i + 2);
     px \<leftarrow> arr_set px (int i) r;
     g \<leftarrow> arr_get fb (int i + 1);
     px \<leftarrow> arr_set px (int i + 1) g;
     bl \<leftarrow> arr_get fb (int i);
     px \<leftarrow> arr_set px (int i + 2) bl;
     a \<leftarrow> arr_get fb (int i + 3);
     arr_set px (int i + 3) a
   }"

definition frame_pixels :: "Decoder \<Rightarrow> bytes option" where
  "frame_pixels d =
     (let n = unat (Width d) * unat (Height d)
      in foldM (\<lambda>k. swap_pixel (Framebuffer d) (4 * k)) [0..<n] (replicate (4 * n) 0))"

definition shot_pixel :: "bytes \<Rightarrow> int \<Rightarrow> bytes \<Rightarrow> bytes option" where
  "shot_pixel fb off px = do {
     r \<leftarrow> arr_get fb (off + 2);
     px \<leftarrow> arr_set px (off + 0) r;
     g \<leftarrow> arr_get fb (off + 1);
     px \<leftarrow> arr_set px (off + 1) g;
     bl \<leftarrow> arr_get fb (off + 0);
     px \<leftarrow> arr_set px (off + 2) bl;
     arr_set px (off + 3) 255
   }"

text \<open>\<open>Screenshot\<close>, up to the PNG encoder of the standard library, which is a parameter.\<close>

definition Screenshot :: "(nat \<Rightarrow> nat \<Rightarrow> bytes \<Rightarrow> bytes) \<Rightarrow> Bridge \<Rightarrow> bytes option option" where
  "Screenshot png_encode b =
     (let d = b_decoder b; w = unat (Width d); h = unat (Height d) in
      if w = 0 \<or> h = 0 \<or> length (Framebuffer d) < w * h * 4 then Some None
      else do {
        px \<leftarrow> foldM (\<lambda>y. foldM (\<lambda>x. shot_pixel (Framebuffer d) (int ((y * w + x) * 4))) [0..<w]) [0..<h]
               (replicate (w * h * 4) 0);
        Some (Some (png_encode w h px))
      })"

section \<open>Invariant\<close>

text \<open>What holds between two operations: the decoder is one that occurs, the size is never zero, the blanking
  counter is between 0 and 3, subscribed channels are open and no channel holds more than one signal, and
  while the bridge runs it has a connected client that was not stopped.\<close>

definition chans_inv :: "Bridge \<Rightarrow> bool" where
  "chans_inv b \<longleftrightarrow> distinct (b_frameSubs b)
     \<and> (\<forall>i\<in>set (b_frameSubs b). i < length (b_chans b) \<and> \<not> ch_closed (b_chans b ! i))
     \<and> (\<forall>c\<in>set (b_chans b). ch_cap c = 1 \<and> ch_len c \<le> 1)
     \<and> \<not> ch_closed (b_frameReady b) \<and> ch_cap (b_frameReady b) = 4 \<and> ch_len (b_frameReady b) \<le> 4"

definition live :: "Client \<Rightarrow> bool" where
  "live c \<longleftrightarrow> c_conn c \<noteq> None \<and> \<not> c_stopCh_closed c"

definition bridge_inv :: "Bridge \<Rightarrow> bool" where
  "bridge_inv b \<longleftrightarrow> decoder_state (b_decoder b) \<and> b_width b \<noteq> 0 \<and> b_height b \<noteq> 0
     \<and> 0 \<le> b_resChangeCountdown b \<and> b_resChangeCountdown b \<le> 3 \<and> 0 \<le> b_frameCount b
     \<and> chans_inv b
     \<and> (b_running b \<longrightarrow> b_ctx b \<noteq> None \<and> (\<exists>c. b_client b = Some c \<and> live c))"

lemma NewBridge_inv: "wp_opt (NewBridge cfg) bridge_inv"
proof -
  have "wp_opt NewDecoder decoder_state"
    using NewDecoder_ready by (auto simp: wp_opt_iff intro: decoder_state.fresh)
  then show ?thesis
    by (simp add: NewBridge_def wp_simps bridge_inv_def chans_inv_def make_chan_def)
qed

text \<open>Notifying the subscribers: every one of them has a signal afterwards, nothing else changes.\<close>

lemma notify_spec:
  assumes "i < length cs" "\<not> ch_closed (cs ! i)"
  shows "notify i cs = Some (cs[i := (cs ! i)\<lparr>ch_len := (if ch_len (cs ! i) < ch_cap (cs ! i)
           then ch_len (cs ! i) + 1 else ch_len (cs ! i))\<rparr>])"
  using assms by (simp add: notify_def try_send_def list_update_id)

lemma notify_all:
  assumes "distinct is" "\<forall>i\<in>set is. i < length cs \<and> \<not> ch_closed (cs ! i)" "\<forall>c\<in>set cs. ch_cap c = 1 \<and> ch_len c \<le> 1"
  shows "foldM notify is cs = Some (map (\<lambda>i. if i \<in> set is then (cs ! i)\<lparr>ch_len := 1\<rparr> else cs ! i) [0..<length cs])"
  using assms
proof (induction "is" arbitrary: cs)
  case Nil
  then show ?case by (simp add: map_nth)
next
  case (Cons i "is")
  define cs' where "cs' = cs[i := (cs ! i)\<lparr>ch_len := 1\<rparr>]"
  have i: "i < length cs" "\<not> ch_closed (cs ! i)" "ch_cap (cs ! i) = 1" "ch_len (cs ! i) \<le> 1"
    using Cons.prems by auto
  have "notify i cs = Some cs'"
    using notify_spec[OF i(1,2)] i(3,4) by (cases "ch_len (cs ! i)") (auto simp: cs'_def)
  moreover have "foldM notify is cs' = Some (map (\<lambda>j. if j \<in> set is then (cs' ! j)\<lparr>ch_len := 1\<rparr> else cs' ! j) [0..<length cs'])"
    using Cons.prems i by (intro Cons.IH) (auto simp: cs'_def nth_list_update set_update_subset_insert[THEN subsetD] dest!: set_update_subset_insert[THEN subsetD])
  moreover have "map (\<lambda>j. if j \<in> set is then (cs' ! j)\<lparr>ch_len := 1\<rparr> else cs' ! j) [0..<length cs']
      = map (\<lambda>j. if j \<in> set (i # is) then (cs ! j)\<lparr>ch_len := 1\<rparr> else cs ! j) [0..<length cs]"
    using i by (auto simp: cs'_def nth_list_update)
  ultimately show ?case by simp
qed

lemma spawn_refresh_fields [simp]:
  "b_decoder (spawn_refresh b) = b_decoder b" "b_width (spawn_refresh b) = b_width b"
  "b_height (spawn_refresh b) = b_height b" "b_resChangeCountdown (spawn_refresh b) = b_resChangeCountdown b"
  "b_frameCount (spawn_refresh b) = b_frameCount b" "b_frameSubs (spawn_refresh b) = b_frameSubs b"
  "b_chans (spawn_refresh b) = b_chans b" "b_frameReady (spawn_refresh b) = b_frameReady b"
  "b_running (spawn_refresh b) = b_running b" "b_ctx (spawn_refresh b) = b_ctx b"
  "b_client (spawn_refresh b) = b_client b" "b_ready (spawn_refresh b) = b_ready b"
  "b_kbdModifiers (spawn_refresh b) = b_kbdModifiers b" "b_seq (spawn_refresh b) = b_seq b"
  by (simp_all add: spawn_refresh_def)

text \<open>What a frame does to a bridge, when \<open>Decode\<close> returns.\<close>

definition new_countdown :: "Bridge \<Rightarrow> Decoder \<Rightarrow> int" where
  "new_countdown b dec =
     (if (b_width b \<noteq> Width dec \<or> b_height b \<noteq> Height dec) \<and> 0 < b_frameCount b then 3 else b_resChangeCountdown b)"

lemma onVideoFrame_effect:
  assumes "chans_inv b" "Decode h data (b_decoder b) = Some (dec, r)"
  shows "wp_opt (onVideoFrame h data b) (\<lambda>b'. b_frameCount b' = b_frameCount b + 1
     \<and> b_client b' = b_client b \<and> b_running b' = b_running b \<and> b_ctx b' = b_ctx b \<and> b_frameSubs b' = b_frameSubs b
     \<and> (if r = DecodeOK
        then b_width b' = Width dec \<and> b_height b' = Height dec
          \<and> b_decoder b' = (if 0 < new_countdown b dec then blank_frame dec else dec)
          \<and> b_resChangeCountdown b' = (if 0 < new_countdown b dec then new_countdown b dec - 1 else new_countdown b dec)
          \<and> b_chans b' = map (\<lambda>i. if i \<in> set (b_frameSubs b) then (b_chans b ! i)\<lparr>ch_len := 1\<rparr> else b_chans b ! i) [0..<length (b_chans b)]
          \<and> b_frameReady b' = (b_frameReady b)\<lparr>ch_len := min 4 (ch_len (b_frameReady b) + 1)\<rparr>
          \<and> ch_closed (b_ready b') \<and> b_fbDirty b'
        else b_width b' = b_width b \<and> b_height b' = b_height b \<and> b_decoder b' = dec
          \<and> b_resChangeCountdown b' = b_resChangeCountdown b \<and> b_chans b' = b_chans b
          \<and> b_frameReady b' = b_frameReady b \<and> b_ready b' = b_ready b))"
proof -
  have n: "foldM notify (b_frameSubs b) (b_chans b)
      = Some (map (\<lambda>i. if i \<in> set (b_frameSubs b) then (b_chans b ! i)\<lparr>ch_len := 1\<rparr> else b_chans b ! i) [0..<length (b_chans b)])"
    using assms(1) unfolding chans_inv_def by (intro notify_all) auto
  have t: "try_send (b_frameReady b) = Some ((b_frameReady b)\<lparr>ch_len := min 4 (ch_len (b_frameReady b) + 1)\<rparr>)"
    using assms(1) by (auto simp: try_send_def chans_inv_def min_def)
  have c: "wp_opt (close_ready e) (\<lambda>e'. e' = e\<lparr>b_ready := (b_ready e)\<lparr>ch_closed := True\<rparr>\<rparr>)" for e
    by (simp add: close_ready_def wp_opt_def close_chan_def)
  show ?thesis
    unfolding onVideoFrame_def Let_def
    by (simp add: assms(2) n t wp_simps new_countdown_def del: not_None_eq)
       (auto intro!: wp_opt_mono[OF c])
qed


lemma chans_inv_cong:
  "\<lbrakk>b_frameSubs b' = b_frameSubs b; b_chans b' = b_chans b; b_frameReady b' = b_frameReady b\<rbrakk>
     \<Longrightarrow> chans_inv b' = chans_inv b"
  by (simp add: chans_inv_def)

lemma onVideoFrame_inv:
  assumes "bridge_inv b" "onVideoFrame h data b = Some b'"
  shows "bridge_inv b'"
proof -
  obtain dec r where dec: "Decode h data (b_decoder b) = Some (dec, r)"
    using assms(2) by (auto simp: onVideoFrame_def Let_def elim!: bind_SomeE)
  have st: "decoder_state (b_decoder b)" "chans_inv b" using assms(1) by (auto simp: bridge_inv_def)
  then have ds: "decoder_state dec" using dec by (auto intro: decoder_state.frame)
  note eff = onVideoFrame_effect[OF st(2) dec, unfolded assms(2) wp_opt_Some]
  then have same: "b_frameCount b' = b_frameCount b + 1" "b_client b' = b_client b" "b_running b' = b_running b"
    "b_ctx b' = b_ctx b" by simp_all
  show ?thesis
  proof (cases "r = DecodeOK")
    case True
    then have wh: "Width dec \<noteq> 0" "Height dec \<noteq> 0"
      using Decode_cases[OF decoder_state_ready[OF st(1)] dec] by (cases "DstX h = 0 \<or> DstY h = 0"; simp)+
    have "ch_cap (b_chans b ! i) = 1 \<and> ch_len (b_chans b ! i) \<le> 1" if "i < length (b_chans b)" for i
      using st(2) that by (simp add: chans_inv_def)
    then have "chans_inv b'" using st(2) eff True by (auto simp: chans_inv_def min_def)
    moreover have "decoder_state (b_decoder b')"
      using eff True ds decoder_state.blank[OF ds] by simp
    moreover have "0 \<le> b_resChangeCountdown b' \<and> b_resChangeCountdown b' \<le> 3"
    proof -
      have "0 \<le> new_countdown b dec \<and> new_countdown b dec \<le> 3"
        using assms(1) by (simp add: bridge_inv_def new_countdown_def)
      then show ?thesis using eff True by simp
    qed
    moreover have "b_width b' \<noteq> 0" "b_height b' \<noteq> 0" using eff True wh by simp_all
    ultimately show ?thesis using assms(1) same by (simp add: bridge_inv_def)
  next
    case False
    then have "chans_inv b'" using st(2) eff chans_inv_cong[of b' b] by simp
    moreover have "b_decoder b' = dec" "b_width b' = b_width b" "b_height b' = b_height b"
      "b_resChangeCountdown b' = b_resChangeCountdown b" using eff False by simp_all
    ultimately show ?thesis using assms(1) same ds by (simp add: bridge_inv_def)
  qed
qed

lemma onVideoFrame_returns:
  assumes "bridge_inv b" "uint (CompressSize h) div 4 \<le> int (length (makeIntArray data))"
  shows "\<exists>b'. onVideoFrame h data b = Some b'"
proof -
  have st: "decoder_state (b_decoder b)" "chans_inv b" using assms(1) by (auto simp: bridge_inv_def)
  obtain dec r where "Decode h data (b_decoder b) = Some (dec, r)"
    using Decode_returns[OF decoder_state_ready[OF st(1)] assms(2)] by blast
  from onVideoFrame_effect[OF st(2) this] show ?thesis by (auto simp: wp_opt_iff)
qed

section \<open>The client stays live\<close>

lemma conn_write_live: "conn_write bs c = Some (ok, c') \<Longrightarrow> live c \<Longrightarrow> live c'"
  by (auto simp: conn_write_def live_def Let_def split: option.splits)

lemma sends_live:
  "SendHeader t n s c = Some (ok, c') \<Longrightarrow> live c \<Longrightarrow> live c'"
  "SendMessageWithPayload t s p c = Some (ok, c') \<Longrightarrow> live c \<Longrightarrow> live c'"
  by (auto simp: SendHeader_def SendMessageWithPayload_def elim!: bind_SomeE split: if_splits dest!: conn_write_live)

lemma read_full_live: "read_full n c = Some (r, c') \<Longrightarrow> live c \<Longrightarrow> live c'"
  by (auto simp: read_full_def live_def split: option.splits if_splits)

lemma readMessage_live: "readMessage c = Some (m, c') \<Longrightarrow> live c \<Longrightarrow> live c'"
  unfolding readMessage_def
  by (auto elim!: bind_SomeE dest!: read_full_live split: option.split_asm sum.split_asm if_split_asm prod.split_asm)

lemma handleVideoFragment_live: "handleVideoFragment p c = Some (c', f) \<Longrightarrow> live c \<Longrightarrow> live c'"
  by (auto simp: handleVideoFragment_def live_def Let_def elim!: bind_SomeE split: if_splits sum.splits)

lemma handleMessage_live: "handleMessage h p c = Some (e, evs, c') \<Longrightarrow> live c \<Longrightarrow> live c'"
  unfolding handleMessage_def
  by (auto elim!: bind_SomeE dest!: sends_live handleVideoFragment_live split: if_split_asm)

lemma loop_step_live:
  "loop_step c = Some (Inl (e, evs, c')) \<Longrightarrow> live c \<Longrightarrow> live c'"
  "loop_step c = Some (Inr (evs, c')) \<Longrightarrow> live c \<Longrightarrow> live c'"
  unfolding loop_step_def
  by (auto elim!: bind_SomeE dest!: readMessage_live handleMessage_live split: option.split_asm sum.split_asm if_split_asm)

lemma readLoop_live: "readLoop c = Some (e, evs, c') \<Longrightarrow> live c \<Longrightarrow> live c'"
proof (induction c arbitrary: e evs c' rule: readLoop.induct)
  case (1 c)
  then show ?case
    by (subst (asm) readLoop.simps)
       (auto split: option.split_asm sum.split_asm dest!: loop_step_live)
qed

lemma RunSession_live: "RunSession c = Some (e, evs, c') \<Longrightarrow> live c \<Longrightarrow> live c'"
  unfolding RunSession_def
  by (auto elim!: bind_SomeE dest!: readMessage_live sends_live readLoop_live
      split: option.split_asm sum.split_asm if_split_asm)

section \<open>Every operation keeps the invariant\<close>

lemma readTunnelResponse_live: "readTunnelResponse c = Some (r, c') \<Longrightarrow> live c \<Longrightarrow> live c'"
  by (auto simp: readTunnelResponse_def live_def split: option.splits prod.splits)

lemma singlePortHandshake_live: "singlePortHandshake c = Some (e, c') \<Longrightarrow> live c \<Longrightarrow> live c'"
  unfolding singlePortHandshake_def
  by (auto elim!: bind_SomeE dest!: conn_write_live readTunnelResponse_live
      split: option.split_asm if_split_asm prod.split_asm)

lemma Connect_live: "\<lbrakk>Connect dial c = Some (None, c'); \<not> c_stopCh_closed c\<rbrakk> \<Longrightarrow> live c'"
  unfolding Connect_def
  by (auto elim!: bind_SomeE dest!: singlePortHandshake_live split: option.split_asm) (auto simp: live_def)

lemma client_inv:
  "\<lbrakk>bridge_inv b; b_client b = Some c; live c \<Longrightarrow> live c'\<rbrakk> \<Longrightarrow> bridge_inv (b\<lparr>b_client := Some c'\<rparr>)"
  by (auto simp: bridge_inv_def chans_inv_def)

lemma with_client_inv:
  assumes "\<And>c ok c'. send c = Some (ok, c') \<Longrightarrow> live c \<Longrightarrow> live c'" "bridge_inv b" "with_client send b = Some (e, b')"
  shows "bridge_inv b'"
  using assms(2,3) unfolding with_client_def
  by (auto elim!: bind_SomeE intro: client_inv dest: assms(1) split: option.split_asm)

lemma commands_inv:
  assumes "bridge_inv b"
  shows "SendPowerCommand a b = Some (e, b') \<Longrightarrow> bridge_inv b'"
    "SendDisplayLock l b = Some (e, b') \<Longrightarrow> bridge_inv b'"
    "SetMouseMode m b = Some (e, b') \<Longrightarrow> bridge_inv b'"
    "SetKeyboardLayout s b = Some (e, b') \<Longrightarrow> bridge_inv b'"
    "SendIPMICommand d b = Some (e, b') \<Longrightarrow> bridge_inv b'"
  using assms
  unfolding SendPowerCommand_def SendDisplayLock_def SetMouseMode_def SetKeyboardLayout_def SendIPMICommand_def
  by (auto elim!: with_client_inv[rotated -1] intro: sends_live)

lemma ResetVideo_inv: "\<lbrakk>bridge_inv b; ResetVideo b = Some (e, b')\<rbrakk> \<Longrightarrow> bridge_inv b'"
  unfolding ResetVideo_def
  by (auto elim!: bind_SomeE dest!: sends_live intro!: client_inv split: option.split_asm if_split_asm)

lemma SubscribeFrames_inv: "bridge_inv b \<Longrightarrow> bridge_inv (snd (SubscribeFrames b))"
  by (auto simp: bridge_inv_def chans_inv_def SubscribeFrames_def make_chan_def nth_append)

lemma UnsubscribeFrames_inv:
  assumes "bridge_inv b" "UnsubscribeFrames ch b = Some b'"
  shows "bridge_inv b'"
proof -
  from assms(2) have ch: "ch < length (b_chans b)" "\<not> ch_closed (b_chans b ! ch)"
    and b': "b' = b\<lparr>b_frameSubs := filter (\<lambda>i. i \<noteq> ch) (b_frameSubs b),
      b_chans := (b_chans b)[ch := (b_chans b ! ch)\<lparr>ch_closed := True\<rparr>]\<rparr>"
    by (auto simp: UnsubscribeFrames_def Let_def close_chan_def arr_get_def elim!: bind_SomeE split: if_splits)
  have "\<forall>c\<in>set ((b_chans b)[ch := (b_chans b ! ch)\<lparr>ch_closed := True\<rparr>]). ch_cap c = 1 \<and> ch_len c \<le> 1"
    using assms(1) ch(1) unfolding bridge_inv_def chans_inv_def
    by (auto dest!: set_update_subset_insert[THEN subsetD])
  then have "chans_inv b'"
    using assms(1) unfolding b' bridge_inv_def chans_inv_def by auto
  then show ?thesis using assms(1) unfolding b' bridge_inv_def by simp
qed

lemma run_go_inv: "\<lbrakk>bridge_inv b; run_go b = Some b'\<rbrakk> \<Longrightarrow> bridge_inv b'"
  unfolding run_go_def
  by (auto elim!: bind_SomeE dest!: sends_live split: list.split_asm option.split_asm)
     (auto simp: bridge_inv_def chans_inv_def dest: sends_live)

lemma refresh_tick_inv: "\<lbrakk>bridge_inv b; refresh_tick b = Some b'\<rbrakk> \<Longrightarrow> bridge_inv b'"
  unfolding refresh_tick_def
  by (auto elim!: bind_SomeE intro: client_inv dest: sends_live split: option.split_asm if_split_asm)

lemma Start_inv:
  assumes "bridge_inv b" "Start dial b = Some (e, b')"
  shows "bridge_inv b'"
  using assms unfolding Start_def
  by (auto elim!: bind_SomeE split: if_split_asm option.split_asm simp: Let_def)
     (auto simp: bridge_inv_def chans_inv_def NewClient_def dest!: Connect_live)

lemma foldM_inv:
  "\<lbrakk>foldM f xs s = Some s'; I s; \<And>x s s'. \<lbrakk>f x s = Some s'; I s\<rbrakk> \<Longrightarrow> I s'\<rbrakk> \<Longrightarrow> I s'"
  by (induction xs arbitrary: s) (auto elim!: bind_SomeE)

lemma on_event_inv: "\<lbrakk>on_event ev b = Some b'; bridge_inv b\<rbrakk> \<Longrightarrow> bridge_inv b'"
  by (cases ev) (auto intro: onVideoFrame_inv)

lemma run_session_inv:
  assumes "bridge_inv b" "run_session b = Some b'"
  shows "bridge_inv b'"
proof -
  obtain c e evs c' b1 where r: "b_client b = Some c" "RunSession c = Some (e, evs, c')"
    "foldM on_event evs (b\<lparr>b_client := Some c'\<rparr>) = Some b1" "b' = b1\<lparr>b_ctx := Some True\<rparr>"
    using assms(2) unfolding run_session_def by (auto elim!: bind_SomeE)
  have "bridge_inv (b\<lparr>b_client := Some c'\<rparr>)"
    using client_inv[OF assms(1) r(1)] RunSession_live[OF r(2)] by blast
  then have "bridge_inv b1" using foldM_inv[OF r(3), of bridge_inv] on_event_inv by blast
  then show ?thesis unfolding r(4) by (auto simp: bridge_inv_def chans_inv_def)
qed

lemma stop_bridge_inv:
  assumes "bridge_inv b" "stop_bridge b = Some b'"
  shows "bridge_inv b' \<and> \<not> b_running b'"
  using assms unfolding stop_bridge_def
  by (auto elim!: bind_SomeE split: if_split_asm option.split_asm simp: Let_def bridge_inv_def chans_inv_def)

text \<open>A running bridge can be stopped: no channel is closed twice.\<close>

lemma Stop_live: "live c \<Longrightarrow> \<exists>c'. Stop c = Some c'"
  by (auto simp: live_def Stop_def Let_def conn_write_def)

lemma stop_bridge_returns:
  assumes "bridge_inv b"
  shows "\<exists>b'. stop_bridge b = Some b'"
proof (cases "b_running b")
  case True
  then obtain c where c: "b_client b = Some c" "live c" using assms by (auto simp: bridge_inv_def)
  then obtain c' where "Stop c = Some c'" using Stop_live by blast
  with c show ?thesis using True by (simp add: stop_bridge_def)
qed (simp add: stop_bridge_def)

section \<open>Blanking\<close>

text \<open>A sequence of frames, and that all of them decode and have the given resolution.\<close>

definition frames :: "(ASPEEDVideoHeader \<times> bytes) list \<Rightarrow> Bridge \<Rightarrow> Bridge option" where
  "frames = foldM (\<lambda>(hr, data). onVideoFrame hr data)"

fun frames_decode :: "u16 \<Rightarrow> u16 \<Rightarrow> (ASPEEDVideoHeader \<times> bytes) list \<Rightarrow> Bridge \<Rightarrow> bool" where
  "frames_decode w h [] b = True"
| "frames_decode w h ((hr, data) # fs) b =
     (DstX hr = w \<and> DstY hr = h
      \<and> (case (Decode hr data (b_decoder b), onVideoFrame hr data b) of
           (Some (dec, r), Some b') \<Rightarrow> r = DecodeOK \<and> frames_decode w h fs b'
         | _ \<Rightarrow> False))"

lemma frames_simps [simp]:
  "frames [] b = Some b"
  "frames ((hr, data) # fs) b = Option.bind (onVideoFrame hr data b) (frames fs)"
  by (simp_all add: frames_def)

lemma frames_decode_append:
  "frames_decode w h (fs @ gs) b \<longleftrightarrow> frames_decode w h fs b \<and> (case frames fs b of None \<Rightarrow> False | Some b1 \<Rightarrow> frames_decode w h gs b1)"
  if "fs \<noteq> [] \<or> gs \<noteq> []"
proof (induction fs arbitrary: b)
  case (Cons f fs)
  then show ?case by (cases f) (auto split: option.splits)
qed simp

text \<open>One frame that decodes.\<close>

lemma frame_step:
  assumes "bridge_inv b" "frames_decode w h [(hr, data)] b" "onVideoFrame hr data b = Some b'"
  obtains dec where "Decode hr data (b_decoder b) = Some (dec, DecodeOK)" "bridge_inv b'"
    "b_width b' = w" "b_height b' = h"
    "b_decoder b' = (if 0 < new_countdown b dec then blank_frame dec else dec)"
    "b_resChangeCountdown b' = (if 0 < new_countdown b dec then new_countdown b dec - 1 else new_countdown b dec)"
    "new_countdown b dec = (if (b_width b \<noteq> w \<or> b_height b \<noteq> h) \<and> 0 < b_frameCount b then 3 else b_resChangeCountdown b)"
proof -
  obtain dec where dec: "Decode hr data (b_decoder b) = Some (dec, DecodeOK)" "DstX hr = w" "DstY hr = h"
    using assms(2) by (auto split: option.splits)
  have st: "decoder_state (b_decoder b)" "chans_inv b" using assms(1) by (auto simp: bridge_inv_def)
  have wh: "Width dec = w" "Height dec = h"
    using Decode_cases[OF decoder_state_ready[OF st(1)] dec(1)] dec by (cases "w = 0 \<or> h = 0"; simp)+
  show ?thesis
    using onVideoFrame_effect[OF st(2) dec(1), unfolded assms(3) wp_opt_Some] wh onVideoFrame_inv[OF assms(1,3)]
    by (intro that[of dec]) (simp_all add: dec new_countdown_def)
qed

lemma frames_countdown:
  assumes "bridge_inv b" "frames_decode w h fs b" "frames fs b = Some b'" "b_width b = w" "b_height b = h"
  shows "bridge_inv b' \<and> b_width b' = w \<and> b_height b' = h
    \<and> b_resChangeCountdown b' = max 0 (b_resChangeCountdown b - int (length fs))"
  using assms
proof (induction fs arbitrary: b)
  case Nil
  then show ?case by (simp add: bridge_inv_def)
next
  case (Cons f fs)
  obtain hr data where f: "f = (hr, data)" by (cases f)
  obtain b1 where b1: "onVideoFrame hr data b = Some b1" "frames fs b1 = Some b'"
    using Cons.prems(3) by (auto simp: f elim!: bind_SomeE)
  have "frames_decode w h [(hr, data)] b" "frames_decode w h fs b1"
    using Cons.prems(2) b1(1) by (auto simp: f split: option.splits)
  moreover obtain dec where "bridge_inv b1" "b_width b1 = w" "b_height b1 = h"
    "b_resChangeCountdown b1 = (if 0 < new_countdown b dec then new_countdown b dec - 1 else new_countdown b dec)"
    "new_countdown b dec = b_resChangeCountdown b"
    using frame_step[OF Cons.prems(1) calculation(1) b1(1)] Cons.prems(4,5) by auto
  moreover have "0 \<le> b_resChangeCountdown b" using Cons.prems(1) by (simp add: bridge_inv_def)
  ultimately show ?case using Cons.IH[of b1] b1(2) by (auto simp: max_def)
qed

lemma blank_frame_zero: "list_all (\<lambda>x. x = 0) (Framebuffer (blank_frame d))"
  by (simp add: blank_frame_def list_all_iff)

lemma frames_blank:
  assumes "bridge_inv b" "0 < b_frameCount b" "b_width b \<noteq> w \<or> b_height b \<noteq> h"
    and "frames_decode w h (fs @ [(hr, data)]) b" "frames fs b = Some b1" "onVideoFrame hr data b1 = Some b'"
  shows "if length fs < 3 then list_all (\<lambda>x. x = 0) (Framebuffer (b_decoder b'))
    else Decode hr data (b_decoder b1) = Some (b_decoder b', DecodeOK)"
proof -
  have last: "frames_decode w h [(hr, data)] b1"
    using assms(4,5) by (simp add: frames_decode_append)
  show ?thesis
  proof (cases fs)
    case Nil
    then have b: "b1 = b" using assms(5) by simp
    obtain dec where "b_decoder b' = blank_frame dec"
      by (rule frame_step[OF assms(1) last[unfolded b] assms(6)[unfolded b]]) (use assms(2,3) in auto)
    then show ?thesis using Nil blank_frame_zero by simp
  next
    case (Cons g gs)
    obtain gh gd where g: "g = (gh, gd)" by (cases g)
    obtain c where c: "onVideoFrame gh gd b = Some c" "frames gs c = Some b1"
      using assms(5) by (auto simp: Cons g elim!: bind_SomeE)
    have fd: "frames_decode w h [(gh, gd)] b" "frames_decode w h gs c"
      using assms(4) c by (auto simp: Cons g frames_decode_append split: option.splits)
    obtain dec where "bridge_inv c" "b_width c = w" "b_height c = h" "b_resChangeCountdown c = 2"
      using frame_step[OF assms(1) fd(1) c(1)] assms(2,3) by auto
    then have b1: "bridge_inv b1" "b_width b1 = w" "b_height b1 = h"
      "b_resChangeCountdown b1 = max 0 (2 - int (length gs))"
      using frames_countdown[OF _ fd(2) c(2)] by auto
    obtain dec where "Decode hr data (b_decoder b1) = Some (dec, DecodeOK)"
      "b_decoder b' = (if 0 < b_resChangeCountdown b1 then blank_frame dec else dec)"
      using frame_step[OF b1(1) last assms(6)] b1(2,3) by auto
    then show ?thesis using b1(4) blank_frame_zero by (auto simp: Cons)
  qed
qed

section \<open>Pixels\<close>

lemma swap_pixel_spec:
  assumes "i + 3 < length fb" "i + 3 < length px"
  shows "swap_pixel fb i px = Some (px[i := fb ! (i + 2), i + 1 := fb ! (i + 1), i + 2 := fb ! i, i + 3 := fb ! (i + 3)])"
proof -
  have n: "nat (int i + 1) = i + 1" "nat (int i + 2) = i + 2" "nat (int i + 3) = i + 3" by simp_all
  show ?thesis using assms unfolding swap_pixel_def by (simp add: arr_get_def arr_set_def n)
qed

text \<open>The pixels sent to a viewer: red and blue swapped.\<close>

definition rgba_of :: "bytes \<Rightarrow> nat \<Rightarrow> bytes" where
  "rgba_of fb k = [fb ! (4 * k + 2), fb ! (4 * k + 1), fb ! (4 * k), fb ! (4 * k + 3)]"

definition pixel :: "bytes \<Rightarrow> nat \<Rightarrow> bytes" where
  "pixel px k = [px ! (4 * k), px ! (4 * k + 1), px ! (4 * k + 2), px ! (4 * k + 3)]"

lemma pixel_set:
  assumes "4 * k + 3 < length px"
  shows "pixel (px[4 * k := a, 4 * k + 1 := b, 4 * k + 2 := c, 4 * k + 3 := e]) j = (if j = k then [a, b, c, e] else pixel px j)"
proof (cases "j = k")
  case True
  then show ?thesis using assms by (simp add: pixel_def nth_list_update)
next
  case False
  have "4 * k + s \<noteq> 4 * j + t" if "s < 4" "t < 4" for s t :: nat using False that by presburger
  from this[of 0] this[of 1] this[of 2] this[of 3] False show ?thesis by (simp add: pixel_def numeral_3_eq_3)
qed

lemma frame_pixels_spec:
  assumes "4 * (unat (Width d) * unat (Height d)) \<le> length (Framebuffer d)"
  shows "wp_opt (frame_pixels d) (\<lambda>px. length px = 4 * (unat (Width d) * unat (Height d))
    \<and> (\<forall>k < unat (Width d) * unat (Height d). pixel px k = rgba_of (Framebuffer d) k))"
proof -
  define n where "n = unat (Width d) * unat (Height d)"
  let ?I = "\<lambda>k px. length px = 4 * n \<and> (\<forall>j<k. pixel px j = rgba_of (Framebuffer d) j)"
  have "wp_opt (foldM (\<lambda>k. swap_pixel (Framebuffer d) (4 * k)) [0..<n] (replicate (4 * n) 0)) (?I n)"
  proof (rule wp_foldM_upt[where I = ?I])
    fix k px assume k: "k < n" and I: "?I k px"
    have l: "4 * k + 3 < length (Framebuffer d)" "4 * k + 3 < length px" using k I assms by (auto simp: n_def[symmetric])
    show "wp_opt (swap_pixel (Framebuffer d) (4 * k) px) (?I (Suc k))"
      unfolding swap_pixel_spec[OF l] wp_opt_Some pixel_set[OF l(2)] using I by (simp add: rgba_of_def)
  qed simp_all
  then show ?thesis by (simp add: frame_pixels_def n_def Let_def)
qed

text \<open>The pixels of a screenshot: the same, made opaque.\<close>

definition opaque_of :: "bytes \<Rightarrow> nat \<Rightarrow> bytes" where
  "opaque_of fb k = [fb ! (4 * k + 2), fb ! (4 * k + 1), fb ! (4 * k), 255]"

lemma shot_pixel_spec:
  assumes "i + 3 < length fb" "i + 3 < length px"
  shows "shot_pixel fb (int i) px = Some (px[i := fb ! (i + 2), i + 1 := fb ! (i + 1), i + 2 := fb ! i, i + 3 := 255])"
proof -
  have n: "nat (int i + 1) = i + 1" "nat (int i + 2) = i + 2" "nat (int i + 3) = i + 3" by simp_all
  show ?thesis using assms unfolding shot_pixel_def by (simp add: arr_get_def arr_set_def n)
qed

lemma shot_pixels_spec:
  assumes "w * h * 4 \<le> length fb"
  shows "wp_opt (foldM (\<lambda>y. foldM (\<lambda>x. shot_pixel fb (int ((y * w + x) * 4))) [0..<w]) [0..<h] (replicate (w * h * 4) 0))
    (\<lambda>px. length px = w * h * 4 \<and> (\<forall>k < w * h. pixel px k = opaque_of fb k))"
proof -
  let ?I = "\<lambda>n px. length px = w * h * 4 \<and> (\<forall>j<n. pixel px j = opaque_of fb j)"
  have row: "wp_opt (foldM (\<lambda>x. shot_pixel fb (int ((y * w + x) * 4))) [0..<w] px) (?I (y * w + w))"
    if y: "y < h" and I: "?I (y * w) px" for y px
  proof (rule wp_foldM_upt[where I = "\<lambda>x. ?I (y * w + x)"])
    fix x px assume x: "x < w" and I: "?I (y * w + x) px"
    define k where "k = y * w + x"
    have "y * w + x < w * h"
    proof -
      have "Suc y * w \<le> h * w" using y by (intro mult_right_mono) simp_all
      then show ?thesis using x by (simp add: mult.commute)
    qed
    then have l: "4 * k + 3 < length fb" "4 * k + 3 < length px" using I assms by (auto simp: k_def)
    have "wp_opt (shot_pixel fb (int (4 * k)) px) (?I (Suc k))"
      unfolding shot_pixel_spec[OF l] wp_opt_Some pixel_set[OF l(2)] using I by (simp add: opaque_of_def k_def)
    then show "wp_opt (shot_pixel fb (int ((y * w + x) * 4)) px) (?I (y * w + Suc x))"
      by (simp add: k_def mult.commute)
  qed (use I in simp_all)
  have "wp_opt (foldM (\<lambda>y. foldM (\<lambda>x. shot_pixel fb (int ((y * w + x) * 4))) [0..<w]) [0..<h] (replicate (w * h * 4) 0)) (?I (h * w))"
    by (rule wp_foldM_upt[where I = "\<lambda>y. ?I (y * w)"]) (use row in \<open>simp_all add: add.commute\<close>)
  then show ?thesis by (simp add: mult.commute)
qed

end
