(* ===== verification/Oidc.thy ===== *)
theory Oidc
  imports Models
begin

text \<open>
  OIDC login and authorisation, \<open>src/internal/oidc/oidc.go\<close>: the login redirect with its state cookie, the
  callback that opens a server-side session, logout, the middleware in front of the API, and the
  role mapping.

  The exchange of the code and the verification of the ID token are calls of third-party packages and are
  arguments; so are the random bytes. A handler returns its response, the cookies it sets and the
  provider. \<^term>\<open>None\<close> is a panic.
\<close>

section \<open>Requests and responses\<close>

text \<open>A request: its cookies, the \<open>state\<close> and \<open>code\<close> parameters (empty when absent) and the address.\<close>

record request =
  rq_cookie :: "string \<Rightarrow> string option"
  rq_state :: string
  rq_code :: string
  rq_ip :: string

record cookie =
  ck_Name :: string
  ck_Value :: string
  ck_MaxAge :: int

datatype response =
    HttpError nat string
  | RedirectAuth string
  | RedirectHome
  | NotAuthenticated
  | AuthenticatedAs UserInfo
  | NextHandler UserInfo

definition sessionCookieName :: string where "sessionCookieName = ''kvm_session''"
definition stateCookieName :: string where "stateCookieName = ''kvm_oauth_state''"

record Provider =
  p_config :: OIDCConfig
  p_sessions :: "string \<rightharpoonup> UserSession"
  p_audit :: "AuditEntry list option"

text \<open>A JSON value, as far as the code looks into it.\<close>

datatype claim = CString string | CList "claim list" | COther

record oauth_token =
  tk_id_token :: "claim option"
  tk_RefreshToken :: string
  tk_Expiry :: int

section \<open>Helpers\<close>

definition hex_digit :: "u8 \<Rightarrow> char" where
  "hex_digit d = (''0123456789abcdef'' ! unat d)"

text \<open>\<open>hex.EncodeToString\<close>\<close>

definition hex_encode :: "bytes \<Rightarrow> string" where
  "hex_encode bs = concat (map (\<lambda>b. [hex_digit (drop_bit 4 b), hex_digit (b AND 15)]) bs)"

text \<open>\<open>randomString(n)\<close>, where \<open>rd n\<close> is what \<open>rand.Read\<close> fills a buffer of \<open>n\<close> bytes with, or an error.\<close>

definition randomString :: "(nat \<Rightarrow> bytes option) \<Rightarrow> nat \<Rightarrow> string option" where
  "randomString rd n = map_option hex_encode (rd n)"

definition stringClaim :: "(string \<rightharpoonup> claim) \<Rightarrow> string \<Rightarrow> string" where
  "stringClaim claims key =
     (case claims key of
        Some (CString s) \<Rightarrow> s
      | _ \<Rightarrow> '''')"

fun string_of_claim :: "claim \<Rightarrow> string option" where
  "string_of_claim (CString s) = Some s"
| "string_of_claim _ = None"

definition extractRoles :: "Provider \<Rightarrow> (string \<rightharpoonup> claim) \<Rightarrow> string list" where
  "extractRoles p claims =
     (let claimKey = (if oc_RoleClaim (p_config p) = '''' then ''groups'' else oc_RoleClaim (p_config p))
      in case claims claimKey of
           None \<Rightarrow> []
         | Some (CList v) \<Rightarrow> List.map_filter string_of_claim v
         | Some (CString s) \<Rightarrow> [s]
         | Some COther \<Rightarrow> [])"

definition p_log :: "AuditEntry \<Rightarrow> Provider \<Rightarrow> Provider" where
  "p_log e p = p\<lparr>p_audit := map_option (\<lambda>es. es @ [e]) (p_audit p)\<rparr>"

section \<open>Handlers\<close>

definition HandleLogin :: "(nat \<Rightarrow> bytes option) \<Rightarrow> response \<times> cookie list" where
  "HandleLogin rd =
     (case randomString rd 32 of
        None \<Rightarrow> (HttpError 500 ''internal error'', [])
      | Some state \<Rightarrow>
          (RedirectAuth state, [\<lparr>ck_Name = stateCookieName, ck_Value = state, ck_MaxAge = 300\<rparr>]))"

definition clear_state :: cookie where
  "clear_state = \<lparr>ck_Name = stateCookieName, ck_Value = '''', ck_MaxAge = -1\<rparr>"

text \<open>\<open>verify\<close> gives \<^term>\<open>None\<close> for an invalid token and \<^term>\<open>Some None\<close> when the claims cannot be read.\<close>

definition HandleCallback ::
  "(nat \<Rightarrow> bytes option) \<Rightarrow> (string \<Rightarrow> oauth_token option) \<Rightarrow> (string \<Rightarrow> (string \<rightharpoonup> claim) option option)
     \<Rightarrow> request \<Rightarrow> Provider \<Rightarrow> response \<times> cookie list \<times> Provider" where
  "HandleCallback rd exchange verify r p =
     (case rq_cookie r stateCookieName of
        None \<Rightarrow> (HttpError 400 ''missing state cookie'', [], p)
      | Some stateCookie \<Rightarrow>
          if stateCookie = '''' then (HttpError 400 ''missing state cookie'', [], p)
          else if rq_state r \<noteq> stateCookie then (HttpError 400 ''state mismatch'', [], p)
          else (case exchange (rq_code r) of
             None \<Rightarrow> (HttpError 401 ''authentication failed'', [clear_state], p)
           | Some oauth2Token \<Rightarrow>
               (case Option.bind (tk_id_token oauth2Token) string_of_claim of
                  None \<Rightarrow> (HttpError 401 ''missing id_token'', [clear_state], p)
                | Some rawIDToken \<Rightarrow>
                    (case verify rawIDToken of
                       None \<Rightarrow> (HttpError 401 ''invalid token'', [clear_state], p)
                     | Some None \<Rightarrow> (HttpError 500 ''failed to read claims'', [clear_state], p)
                     | Some (Some claims) \<Rightarrow>
                         (let user = \<lparr>ui_Email = stringClaim claims ''email'', ui_Name = stringClaim claims ''name'',
                                ui_Roles = extractRoles p claims\<rparr>;
                              p1 = (case rq_cookie r sessionCookieName of
                                      None \<Rightarrow> p
                                    | Some old \<Rightarrow>
                                        if old = '''' then p else p\<lparr>p_sessions := (p_sessions p)(old := None)\<rparr>)
                          in case randomString rd 32 of
                               None \<Rightarrow> (HttpError 500 ''internal error'', [clear_state], p1)
                             | Some sessionID \<Rightarrow>
                                 (let session = \<lparr>us_ID = sessionID, us_User = user, us_IDToken = rawIDToken,
                                        us_RefreshToken = tk_RefreshToken oauth2Token,
                                        us_ExpiresAt = tk_Expiry oauth2Token\<rparr>;
                                      p2 = p1\<lparr>p_sessions := (p_sessions p1)(sessionID \<mapsto> session)\<rparr>;
                                      p3 = p_log \<lparr>ae_EventType = ''auth_login'', ae_UserEmail = ui_Email user,
                                        ae_ServerName = '''', ae_SessionID = '''', ae_RemoteAddr = rq_ip r\<rparr> p2
                                  in (RedirectHome,
                                      [clear_state, \<lparr>ck_Name = sessionCookieName, ck_Value = sessionID, ck_MaxAge = 86400\<rparr>],
                                      p3)))))))"

definition HandleLogout :: "request \<Rightarrow> Provider \<Rightarrow> response \<times> cookie list \<times> Provider" where
  "HandleLogout r p =
     (let (userEmail, p) =
            (case rq_cookie r sessionCookieName of
               None \<Rightarrow> ('''', p)
             | Some c \<Rightarrow>
                 (case p_sessions p c of None \<Rightarrow> '''' | Some sess \<Rightarrow> ui_Email (us_User sess),
                  p\<lparr>p_sessions := (p_sessions p)(c := None)\<rparr>));
          p = p_log \<lparr>ae_EventType = ''auth_logout'', ae_UserEmail = userEmail, ae_ServerName = '''', ae_SessionID = '''',
                ae_RemoteAddr = rq_ip r\<rparr> p
      in (RedirectHome, [\<lparr>ck_Name = sessionCookieName, ck_Value = '''', ck_MaxAge = -1\<rparr>], p))"

definition HandleMe :: "request \<Rightarrow> Provider \<Rightarrow> response" where
  "HandleMe r p =
     (case rq_cookie r sessionCookieName of
        None \<Rightarrow> NotAuthenticated
      | Some c \<Rightarrow>
          if c = '''' then NotAuthenticated
          else (case p_sessions p c of
                  None \<Rightarrow> NotAuthenticated
                | Some session \<Rightarrow> AuthenticatedAs (us_User session)))"

text \<open>The middleware: refused, or the next handler with the user in its context.\<close>

definition Middleware :: "request \<Rightarrow> Provider \<Rightarrow> response" where
  "Middleware r p =
     (case rq_cookie r sessionCookieName of
        None \<Rightarrow> HttpError 401 ''authentication required''
      | Some c \<Rightarrow>
          if c = '''' then HttpError 401 ''authentication required''
          else (case p_sessions p c of
                  None \<Rightarrow> HttpError 401 ''session expired''
                | Some session \<Rightarrow> NextHandler (us_User session)))"

text \<open>\<open>UserFromContext\<close>: the user a handler behind the middleware finds.\<close>

definition UserFromContext :: "response \<Rightarrow> UserInfo option" where
  "UserFromContext ctx = (case ctx of NextHandler u \<Rightarrow> Some u | _ \<Rightarrow> None)"

section \<open>Authorisation\<close>

fun any_server :: "string list \<Rightarrow> string \<Rightarrow> bool" where
  "any_server [] serverName = False"
| "any_server (s # ss) serverName = (s = ''*'' \<or> s = serverName \<or> any_server ss serverName)"

text \<open>The loop over the roles; a mapping that is \<open>nil\<close> panics.\<close>

fun roles_grant :: "OIDCConfig \<Rightarrow> string list \<Rightarrow> string \<Rightarrow> bool option" where
  "roles_grant cfg [] serverName = Some False"
| "roles_grant cfg (role # roles) serverName =
     (case map_of (oc_RoleMappings cfg) role of
        None \<Rightarrow> roles_grant cfg roles serverName
      | Some None \<Rightarrow> None
      | Some (Some mapping) \<Rightarrow>
          if any_server (rm_Servers mapping) serverName then Some True else roles_grant cfg roles serverName)"

definition UserCanAccessServer :: "OIDCConfig \<Rightarrow> UserInfo option \<Rightarrow> string \<Rightarrow> bool option" where
  "UserCanAccessServer cfg user serverName =
     (case user of
        None \<Rightarrow> Some False
      | Some u \<Rightarrow> roles_grant cfg (ui_Roles u) serverName)"

section \<open>Authorisation is by role\<close>

lemma any_server_iff: "any_server ss name \<longleftrightarrow> ''*'' \<in> set ss \<or> name \<in> set ss"
  by (induction ss) auto

lemma roles_grant_iff:
  assumes "None \<notin> snd ` set (oc_RoleMappings cfg)"
  shows "roles_grant cfg roles name = Some (\<exists>role\<in>set roles. \<exists>m. map_of (oc_RoleMappings cfg) role = Some (Some m)
    \<and> (''*'' \<in> set (rm_Servers m) \<or> name \<in> set (rm_Servers m)))"
proof (induction roles)
  case (Cons role roles)
  have "map_of (oc_RoleMappings cfg) role \<noteq> Some None"
    using assms map_of_SomeD by (metis image_eqI snd_conv)
  then show ?case using Cons by (auto simp: any_server_iff split: option.splits)
qed simp

section \<open>Sessions come from logins\<close>

datatype auth_op =
    OCallback "nat \<Rightarrow> bytes option" "string \<Rightarrow> oauth_token option" "string \<Rightarrow> (string \<rightharpoonup> claim) option option" request
  | OLogout request

fun auth_next :: "Provider \<Rightarrow> auth_op \<Rightarrow> Provider" where
  "auth_next p (OCallback rd exchange verify r) = snd (snd (HandleCallback rd exchange verify r p))"
| "auth_next p (OLogout r) = snd (snd (HandleLogout r p))"

text \<open>An operation opens the session \<open>c\<close> for the user \<open>u\<close>: the state matches its cookie, the code was exchanged
  for a token and the token was verified.\<close>

definition user_of :: "OIDCConfig \<Rightarrow> (string \<rightharpoonup> claim) \<Rightarrow> UserInfo" where
  "user_of cfg claims = \<lparr>ui_Email = stringClaim claims ''email'', ui_Name = stringClaim claims ''name'',
     ui_Roles = extractRoles \<lparr>p_config = cfg, p_sessions = Map.empty, p_audit = None\<rparr> claims\<rparr>"

fun opens :: "OIDCConfig \<Rightarrow> auth_op \<Rightarrow> string \<Rightarrow> UserInfo \<Rightarrow> bool" where
  "opens cfg (OCallback rd exchange verify r) c u \<longleftrightarrow>
     rq_state r \<noteq> '''' \<and> rq_cookie r stateCookieName = Some (rq_state r)
     \<and> (\<exists>tok raw claims. exchange (rq_code r) = Some tok \<and> tk_id_token tok = Some (CString raw)
          \<and> verify raw = Some (Some claims) \<and> randomString rd 32 = Some c \<and> u = user_of cfg claims)"
| "opens cfg (OLogout r) c u \<longleftrightarrow> False"

text \<open>An operation ends the session \<open>c\<close>: a logout with that cookie.\<close>

fun ends :: "string \<Rightarrow> auth_op \<Rightarrow> bool" where
  "ends c (OLogout r) \<longleftrightarrow> rq_cookie r sessionCookieName = Some c"
| "ends c (OCallback rd exchange verify r) \<longleftrightarrow> False"

lemma string_of_claim_Some [simp]: "string_of_claim x = Some s \<longleftrightarrow> x = CString s"
  by (cases x) auto

lemma p_log_fields [simp]: "p_sessions (p_log e p) = p_sessions p" "p_config (p_log e p) = p_config p"
  by (simp_all add: p_log_def)

lemma user_of_session:
  "\<lparr>ui_Email = stringClaim claims ''email'', ui_Name = stringClaim claims ''name'', ui_Roles = extractRoles p claims\<rparr>
     = user_of (p_config p) claims"
  by (simp add: user_of_def extractRoles_def)

text \<open>A session in the provider after an operation was there before and was not ended, or the operation opened
  it.\<close>

lemma callback_session:
  assumes "p_sessions (auth_next p (OCallback rd ex ver r)) c = Some s"
  shows "opens (p_config p) (OCallback rd ex ver r) c (us_User s) \<or> p_sessions p c = Some s"
  using assms unfolding auth_next.simps HandleCallback_def Let_def user_of_session
  by (auto split: option.split_asm if_split_asm simp: bind_eq_Some_conv split del: if_split)

lemma auth_session:
  assumes "p_sessions (auth_next p op) c = Some s"
  shows "opens (p_config p) op c (us_User s) \<or> p_sessions p c = Some s \<and> \<not> ends c op"
proof (cases op)
  case (OCallback rd ex ver r)
  then show ?thesis using callback_session[of p rd ex ver r c s] assms by auto
next
  case (OLogout r)
  then show ?thesis using assms by (auto simp: HandleLogout_def Let_def split: option.splits if_splits)
qed

lemma auth_config: "p_config (auth_next p op) = p_config p"
  by (cases op) (auto simp: HandleCallback_def HandleLogout_def Let_def split: option.splits)

lemma auth_run_config: "p_config (run_ops auth_next p ops) = p_config p"
  by (induction ops arbitrary: p) (auto simp: auth_config)

lemma auth_history:
  assumes "p_sessions (run_ops auth_next p ops) c = Some s" "p_sessions p = Map.empty"
  shows "\<exists>pre op post. ops = pre @ op # post \<and> opens (p_config p) op c (us_User s) \<and> (\<forall>o'\<in>set post. \<not> ends c o')"
  using assms(1)
proof (induction ops rule: rev_induct)
  case Nil
  then show ?case using assms(2) by simp
next
  case (snoc op ops)
  let ?q = "run_ops auth_next p ops"
  have "p_sessions (auth_next ?q op) c = Some s" using snoc.prems by (simp add: run_ops_append)
  from auth_session[OF this] consider "opens (p_config p) op c (us_User s)" | "p_sessions ?q c = Some s" "\<not> ends c op"
    by (auto simp: auth_run_config)
  then show ?case
  proof cases
    case 1
    then show ?thesis by (intro exI[of _ ops] exI[of _ op] exI[of _ "[]"]) simp
  next
    case 2
    then obtain pre o1 post where "ops = pre @ o1 # post" "opens (p_config p) o1 c (us_User s)" "\<forall>o'\<in>set post. \<not> ends c o'"
      using snoc.IH by blast
    then show ?thesis using 2 by (intro exI[of _ pre] exI[of _ o1] exI[of _ "post @ [op]"]) auto
  qed
qed

section \<open>Properties\<close>

text \<open>The middleware lets a request through only for the user of a login: some earlier callback, whose state
  matched its cookie and whose ID token was verified, opened the session of the request's cookie, and no logout
  has ended it since.\<close>

theorem Middleware_authentic:
  assumes "p_sessions p = Map.empty" "Middleware r (run_ops auth_next p ops) = NextHandler u"
  shows "\<exists>c pre op post. rq_cookie r sessionCookieName = Some c \<and> ops = pre @ op # post
    \<and> opens (p_config p) op c u \<and> (\<forall>o'\<in>set post. \<not> ends c o')"
proof -
  obtain c s where "rq_cookie r sessionCookieName = Some c" "p_sessions (run_ops auth_next p ops) c = Some s" "u = us_User s"
    using assms(2) by (auto simp: Middleware_def split: option.splits if_splits)
  with auth_history[OF this(2) assms(1)] show ?thesis by blast
qed

text \<open>A user may use a server exactly when one of its roles is mapped to that server or to all servers; a
  request without a user may use none.\<close>

theorem UserCanAccessServer_iff:
  assumes "None \<notin> snd ` set (oc_RoleMappings cfg)"
  shows "UserCanAccessServer cfg user name = Some (\<exists>u role m. user = Some u \<and> role \<in> set (ui_Roles u)
    \<and> map_of (oc_RoleMappings cfg) role = Some (Some m) \<and> (''*'' \<in> set (rm_Servers m) \<or> name \<in> set (rm_Servers m)))"
  by (cases user) (auto simp: UserCanAccessServer_def roles_grant_iff[OF assms])

text \<open>The expiry of the token is stored and never looked at: the middleware answers the same for
  any expiry times of the sessions.\<close>

theorem Middleware_ignores_expiry:
  "Middleware r (p\<lparr>p_sessions := (\<lambda>c. map_option (\<lambda>s. s\<lparr>us_ExpiresAt := f c\<rparr>) (p_sessions p c))\<rparr>) = Middleware r p"
  by (auto simp: Middleware_def split: option.splits)

section \<open>Examples\<close>

definition sample_oidc :: OIDCConfig where
  "sample_oidc = \<lparr>oc_Enabled = True, oc_IssuerURL = ''i'', oc_ClientID = ''c'', oc_ClientSecretEnv = ''E'',
     oc_RedirectURL = ''r'', oc_Scopes = [], oc_RoleClaim = '''', oc_RoleMappings = [(''ops'', Some \<lparr>rm_Servers = [''web1'']\<rparr>)]\<rparr>"

definition sample_provider :: Provider where
  "sample_provider = \<lparr>p_config = sample_oidc, p_sessions = Map.empty, p_audit = None\<rparr>"

definition sample_callback :: auth_op where
  "sample_callback = OCallback (\<lambda>n. Some [0x1F]) (\<lambda>code. Some \<lparr>tk_id_token = Some (CString ''jwt''), tk_RefreshToken = '''', tk_Expiry = 0\<rparr>)
     (\<lambda>raw. Some (Some [''email'' \<mapsto> CString ''a@b'', ''groups'' \<mapsto> CList [CString ''ops'']]))
     \<lparr>rq_cookie = [stateCookieName \<mapsto> ''s''], rq_state = ''s'', rq_code = ''x'', rq_ip = ''1.2.3.4''\<rparr>"

definition sample_request :: request where
  "sample_request = \<lparr>rq_cookie = [sessionCookieName \<mapsto> ''1f''], rq_state = '''', rq_code = '''', rq_ip = ''1.2.3.4''\<rparr>"

theorem Middleware_authentic_witness:
  "\<exists>c. rq_cookie sample_request sessionCookieName = Some c
     \<and> opens sample_oidc sample_callback c \<lparr>ui_Email = ''a@b'', ui_Name = '''', ui_Roles = [''ops'']\<rparr>"
proof -
  have "drop_bit 4 (0x1F :: u8) = 1" "(0x1F :: u8) AND 15 = 15" by simp_all
  then have x: "hex_encode [0x1F] = ''1f''" by (simp add: hex_encode_def hex_digit_def)
  have "Middleware sample_request (run_ops auth_next sample_provider [sample_callback])
      = NextHandler \<lparr>ui_Email = ''a@b'', ui_Name = '''', ui_Roles = [''ops'']\<rparr>"
    by (simp add: Middleware_def sample_request_def sample_provider_def sample_callback_def HandleCallback_def x
        sessionCookieName_def stateCookieName_def randomString_def stringClaim_def extractRoles_def sample_oidc_def
        p_log_def Let_def map_filter_def)
  from Middleware_authentic[OF _ this] show ?thesis
    by (auto simp: sample_provider_def Cons_eq_append_conv)
qed

theorem UserCanAccessServer_iff_witness:
  "UserCanAccessServer sample_oidc (Some \<lparr>ui_Email = '''', ui_Name = '''', ui_Roles = [''ops'']\<rparr>) ''web1'' = Some True"
  using UserCanAccessServer_iff[of sample_oidc "Some \<lparr>ui_Email = '''', ui_Name = '''', ui_Roles = [''ops'']\<rparr>" "''web1''"]
  by (simp add: sample_oidc_def)

end
