(* ===== verification/Viewers.thy ===== *)
theory Viewers
  imports Models
begin

text \<open>
  The viewer registry of one KVM session, \<open>src/internal/api/viewers.go\<close>: who watches, who
  holds input control, and the pending request to take control over.

  Every method holds the registry's mutex for its whole body, so each call is one atomic
  operation on the record below, and an execution is a sequence of operations. The timer of
  \<open>RequestControl\<close> belongs to the Go runtime: an armed timer may fire at any time after its
  deadline, which starts a goroutine that waits for the mutex (\<open>in_flight\<close>); \<open>Stop\<close> disarms a
  timer but does not recall a callback that is already in flight.
\<close>

section \<open>State\<close>

record ControlRequest =
  RequesterID :: string
  RequesterName :: string
  RequestedAt :: int
  TimeoutSec :: int

record timer =
  tm_requester :: string
  tm_deadline :: int

record ViewerRegistry =
  viewers :: "string \<rightharpoonup> Viewer"
  controller :: string
  order :: "string list"
  pendingRequest :: "ControlRequest option"
  requestTimer :: "nat option"
  armed :: "nat \<rightharpoonup> timer"
  in_flight :: "string list"
  next_timer :: nat

section \<open>Operations\<close>

definition NewViewerRegistry :: ViewerRegistry where
  "NewViewerRegistry = \<lparr>viewers = Map.empty, controller = '''', order = [], pendingRequest = None,
     requestTimer = None, armed = Map.empty, in_flight = [], next_timer = 0\<rparr>"

definition Add :: "int \<Rightarrow> string \<Rightarrow> string \<Rightarrow> string \<Rightarrow> ViewerRegistry \<Rightarrow> ViewerRegistry" where
  "Add now i displayName ip vr =
     vr\<lparr>viewers := (viewers vr)(i \<mapsto> \<lparr>v_ID = i, v_DisplayName = displayName, v_IP = ip,
                                      v_HasControl = False, v_ConnectedAt = now\<rparr>),
        order := order vr @ [i],
        controller := (if controller vr = '''' then i else controller vr)\<rparr>"

definition Remove :: "string \<Rightarrow> ViewerRegistry \<Rightarrow> ViewerRegistry" where
  "Remove i vr =
     (let vr1 = vr\<lparr>viewers := (viewers vr)(i := None), order := remove1 i (order vr)\<rparr>
      in if controller vr1 = i
         then vr1\<lparr>controller := (case order vr1 of [] \<Rightarrow> '''' | vid # _ \<Rightarrow> vid)\<rparr>
         else vr1)"

definition List_viewers :: "ViewerRegistry \<Rightarrow> Viewer list" where
  "List_viewers vr =
     List.map_filter
       (\<lambda>i. map_option (\<lambda>v. v\<lparr>v_HasControl := (i = controller vr)\<rparr>) (viewers vr i))
       (order vr)"

text \<open>\<open>requestTimer.Stop()\<close>, and \<open>time.AfterFunc\<close> which arms a new timer.\<close>

definition stop_timer :: "ViewerRegistry \<Rightarrow> ViewerRegistry" where
  "stop_timer vr = (case requestTimer vr of
      None \<Rightarrow> vr | Some t \<Rightarrow> vr\<lparr>armed := (armed vr)(t := None)\<rparr>)"

definition RequestControl :: "int \<Rightarrow> string \<Rightarrow> int \<Rightarrow> ViewerRegistry \<Rightarrow> ViewerRegistry \<times> bool" where
  "RequestControl now i timeoutSec vr =
     (case viewers vr i of
        None \<Rightarrow> (vr, False)
      | Some v \<Rightarrow>
          if controller vr = i then (vr, False)
          else
            (let vr1 = (stop_timer vr)\<lparr>pendingRequest := Some \<lparr>RequesterID = i,
                          RequesterName = v_DisplayName v, RequestedAt = now, TimeoutSec = timeoutSec\<rparr>\<rparr>;
                 t = next_timer vr1
             in (vr1\<lparr>armed := (armed vr1)(t \<mapsto> \<lparr>tm_requester = i,
                                   tm_deadline = now + timeoutSec * 1000000000\<rparr>),
                     requestTimer := Some t, next_timer := t + 1\<rparr>, True)))"

text \<open>The timer's callback, once it has the mutex.\<close>

definition timeout_callback :: "string \<Rightarrow> ViewerRegistry \<Rightarrow> ViewerRegistry" where
  "timeout_callback i vr =
     (case pendingRequest vr of
        None \<Rightarrow> vr
      | Some r \<Rightarrow>
          if RequesterID r = i
          then (if viewers vr i \<noteq> None then vr\<lparr>controller := i\<rparr> else vr)\<lparr>pendingRequest := None\<rparr>
          else vr)"

definition AcceptControlRequest :: "ViewerRegistry \<Rightarrow> ViewerRegistry \<times> bool" where
  "AcceptControlRequest vr =
     (case pendingRequest vr of
        None \<Rightarrow> (vr, False)
      | Some r \<Rightarrow>
          if viewers vr (RequesterID r) = None then (vr\<lparr>pendingRequest := None\<rparr>, False)
          else ((stop_timer (vr\<lparr>controller := RequesterID r, pendingRequest := None\<rparr>))
                  \<lparr>requestTimer := None\<rparr>, True))"

definition DenyControlRequest :: "ViewerRegistry \<Rightarrow> ViewerRegistry" where
  "DenyControlRequest vr = (stop_timer (vr\<lparr>pendingRequest := None\<rparr>))\<lparr>requestTimer := None\<rparr>"

definition PendingRequest :: "ViewerRegistry \<Rightarrow> ControlRequest option" where
  "PendingRequest vr = pendingRequest vr"

definition ReleaseControl :: "string \<Rightarrow> ViewerRegistry \<Rightarrow> ViewerRegistry" where
  "ReleaseControl i vr =
     (if controller vr \<noteq> i then vr
      else vr\<lparr>controller := (case List.find (\<lambda>vid. vid \<noteq> i) (order vr) of
                               None \<Rightarrow> '''' | Some vid \<Rightarrow> vid)\<rparr>)"

definition HasControl :: "string \<Rightarrow> ViewerRegistry \<Rightarrow> bool" where
  "HasControl i vr \<longleftrightarrow> controller vr = i"

definition Count :: "ViewerRegistry \<Rightarrow> nat" where
  "Count vr = card (dom (viewers vr))"

section \<open>Executions\<close>

datatype vop =
    OAdd int string string string
  | ORemove string
  | ORequest int string int
  | OAccept
  | ODeny
  | ORelease string
  | OFire int nat
  | OCallback string

fun vr_next :: "ViewerRegistry \<Rightarrow> vop \<Rightarrow> ViewerRegistry" where
  "vr_next vr (OAdd now i name ip) = Add now i name ip vr"
| "vr_next vr (ORemove i) = Remove i vr"
| "vr_next vr (ORequest now i timeoutSec) = fst (RequestControl now i timeoutSec vr)"
| "vr_next vr OAccept = fst (AcceptControlRequest vr)"
| "vr_next vr ODeny = DenyControlRequest vr"
| "vr_next vr (ORelease i) = ReleaseControl i vr"
| "vr_next vr (OFire now t) =
     (case armed vr t of
        None \<Rightarrow> vr
      | Some tm \<Rightarrow> vr\<lparr>armed := (armed vr)(t := None), in_flight := tm_requester tm # in_flight vr\<rparr>)"
| "vr_next vr (OCallback i) = (timeout_callback i vr)\<lparr>in_flight := remove1 i (in_flight vr)\<rparr>"

text \<open>What the runtime may do, and that a viewer connects under an id of its own.\<close>

fun vr_ok :: "ViewerRegistry \<Rightarrow> vop \<Rightarrow> bool" where
  "vr_ok vr (OAdd now i name ip) \<longleftrightarrow> i \<noteq> '''' \<and> i \<notin> dom (viewers vr)"
| "vr_ok vr (OFire now t) \<longleftrightarrow> (case armed vr t of None \<Rightarrow> False | Some tm \<Rightarrow> tm_deadline tm \<le> now)"
| "vr_ok vr (OCallback i) \<longleftrightarrow> i \<in> set (in_flight vr)"
| "vr_ok vr _ \<longleftrightarrow> True"

definition vr_inv :: "ViewerRegistry \<Rightarrow> bool" where
  "vr_inv vr \<longleftrightarrow>
     distinct (order vr) \<and> set (order vr) = dom (viewers vr) \<and> '''' \<notin> dom (viewers vr)
     \<and> (controller vr = '''' \<or> controller vr \<in> dom (viewers vr))
     \<and> (controller vr = '''' \<longrightarrow> length (order vr) \<le> 1)"

section \<open>Lemmas\<close>

lemma stop_timer_fields [simp]:
  "viewers (stop_timer vr) = viewers vr" "controller (stop_timer vr) = controller vr"
  "order (stop_timer vr) = order vr" "pendingRequest (stop_timer vr) = pendingRequest vr"
  "in_flight (stop_timer vr) = in_flight vr" "next_timer (stop_timer vr) = next_timer vr"
  by (auto simp: stop_timer_def split: option.split)

lemma vr_inv_transfer:
  "\<lbrakk>vr_inv vr; viewers vr' = viewers vr; order vr' = order vr;
    controller vr' = controller vr \<or> controller vr' \<in> dom (viewers vr)\<rbrakk> \<Longrightarrow> vr_inv vr'"
  by (auto simp: vr_inv_def)

lemma find_other:
  assumes "distinct xs" "List.find (\<lambda>x. x \<noteq> i) xs = None" shows "length xs \<le> 1"
proof -
  have "set xs \<subseteq> {i}" using assms(2) by (auto simp: find_None_iff)
  then have "card (set xs) \<le> 1" using card_mono[of "{i}" "set xs"] by simp
  then show ?thesis using assms(1) by (simp add: distinct_card)
qed

lemma vr_inv_Add: "\<lbrakk>vr_inv vr; i \<noteq> ''''; i \<notin> dom (viewers vr)\<rbrakk> \<Longrightarrow> vr_inv (Add now i name ip vr)"
  by (auto simp: vr_inv_def Add_def)

lemma vr_inv_Remove: "vr_inv vr \<Longrightarrow> vr_inv (Remove i vr)"
proof -
  assume inv: "vr_inv vr"
  define os where "os = remove1 i (order vr)"
  have os: "distinct os" "set os = dom (viewers vr) - {i}" "length os \<le> length (order vr)"
    using inv by (simp_all add: os_def vr_inv_def length_remove1)
  show ?thesis
  proof (cases "controller vr = i")
    case True
    then show ?thesis using inv os
      by (cases os) (auto simp: vr_inv_def Remove_def Let_def os_def[symmetric])
  next
    case False
    then show ?thesis using inv os
      by (auto simp: vr_inv_def Remove_def Let_def os_def[symmetric])
  qed
qed

lemma vr_inv_Release: "vr_inv vr \<Longrightarrow> vr_inv (ReleaseControl i vr)"
  using find_other[of "order vr" i]
  by (auto simp: vr_inv_def ReleaseControl_def dest!: find_SomeD split: option.split)

lemma vr_inv_timeout: "vr_inv vr \<Longrightarrow> vr_inv (timeout_callback i vr)"
  by (erule vr_inv_transfer) (auto simp: timeout_callback_def split: option.split)

lemma vr_inv_Accept: "vr_inv vr \<Longrightarrow> vr_inv (fst (AcceptControlRequest vr))"
  by (erule vr_inv_transfer) (auto simp: AcceptControlRequest_def split: option.split)

lemma vr_inv_Request: "vr_inv vr \<Longrightarrow> vr_inv (fst (RequestControl now i n vr))"
  by (erule vr_inv_transfer) (auto simp: RequestControl_def Let_def split: option.split)

lemma vr_inv_Deny: "vr_inv vr \<Longrightarrow> vr_inv (DenyControlRequest vr)"
  by (erule vr_inv_transfer) (auto simp: DenyControlRequest_def)

lemma vr_inv_next: "\<lbrakk>vr_inv vr; vr_ok vr l\<rbrakk> \<Longrightarrow> vr_inv (vr_next vr l)"
proof (cases l)
  case (OCallback i)
  assume "vr_inv vr"
  from vr_inv_timeout[OF this, of i] show ?thesis
    by (simp add: OCallback) (erule vr_inv_transfer, auto)
qed (auto simp: vr_inv_Add vr_inv_Remove vr_inv_Request vr_inv_Accept vr_inv_Deny vr_inv_Release
       elim: vr_inv_transfer split: option.split)

interpretation registry: machine NewViewerRegistry vr_ok vr_next vr_inv
  by unfold_locales (simp add: NewViewerRegistry_def vr_inv_def, rule vr_inv_next)

lemma List_viewers_ids:
  assumes "set (order vr) \<subseteq> dom (viewers vr)"
  shows "map v_HasControl (List_viewers vr) = map (\<lambda>i. i = controller vr) (order vr)"
proof -
  have "filter (\<lambda>i. \<exists>v. viewers vr i = Some v) (order vr) = order vr"
    using assms by (auto simp: filter_id_conv)
  then show ?thesis using assms
    by (auto simp: List_viewers_def map_filter_def comp_def)
qed

lemma vr_inv_List:
  assumes "vr_inv vr"
  shows "length (filter v_HasControl (List_viewers vr)) = (if controller vr = '''' then 0 else 1)
    \<and> length (List_viewers vr) = Count vr"
proof -
  have bools: "map v_HasControl (List_viewers vr) = map (\<lambda>i. i = controller vr) (order vr)"
    using assms by (intro List_viewers_ids) (simp add: vr_inv_def)
  have "length (filter v_HasControl (List_viewers vr)) = length (filter id (map v_HasControl (List_viewers vr)))"
    by (simp add: filter_map comp_def)
  also have "\<dots> = length (filter (\<lambda>i. i = controller vr) (order vr))"
    by (simp add: bools filter_map comp_def)
  also have "\<dots> = (if controller vr \<in> set (order vr) then 1 else 0)"
    using assms by (auto simp: vr_inv_def distinct_length_filter)
  finally have "length (filter v_HasControl (List_viewers vr)) = (if controller vr = '''' then 0 else 1)"
    using assms by (auto simp: vr_inv_def)
  moreover have "length (List_viewers vr) = length (order vr)"
    using arg_cong[OF bools, of length] by simp
  ultimately show ?thesis
    using assms by (auto simp: vr_inv_def Count_def distinct_card[symmetric])
qed

section \<open>Properties\<close>

text \<open>C18: in every execution of a registry, with any interleaving of connections, requests,
  replies, releases and timers, at most one listed viewer has control, exactly one does as
  soon as two viewers are connected, the listing shows every connected viewer once, and
  control is never held by somebody who is not connected.\<close>

theorem single_controller:
  assumes "ops_ok vr_ok vr_next NewViewerRegistry ops"
  defines "vr \<equiv> run_ops vr_next NewViewerRegistry ops"
  shows "length (filter v_HasControl (List_viewers vr)) \<le> 1
    \<and> (2 \<le> Count vr \<longrightarrow> length (filter v_HasControl (List_viewers vr)) = 1)
    \<and> length (List_viewers vr) = Count vr
    \<and> (controller vr = '''' \<or> controller vr \<in> dom (viewers vr))"
proof -
  have inv: "vr_inv vr" unfolding vr_def by (rule registry.inv_run[OF assms(1)])
  then have "controller vr = '''' \<Longrightarrow> Count vr \<le> 1"
    by (auto simp: vr_inv_def Count_def distinct_card[symmetric])
  then show ?thesis using vr_inv_List[OF inv] inv by (auto simp: vr_inv_def)
qed

theorem single_controller_witness:
  "length (filter v_HasControl (List_viewers (run_ops vr_next NewViewerRegistry
     [OAdd 0 ''a'' ''A'' ''x'', OAdd 1 ''b'' ''B'' ''y'', ORequest 2 ''b'' 30, ORemove ''a'', OFire (10 ^ 12) 0,
      OCallback ''b'', OAdd 3 ''c'' ''C'' ''z'']))) \<le> 1"
  by (rule single_controller[THEN conjunct1])
     (simp add: NewViewerRegistry_def Add_def RequestControl_def Remove_def Let_def stop_timer_def
       timeout_callback_def)

text \<open>One operation takes control away from a viewer only when that viewer leaves or
  releases it, or when the pending request of another connected viewer is accepted or times
  out; then control goes to that requester. Requesting or denying never moves control.\<close>

theorem control_transfer:
  assumes "controller vr = c" and "c \<noteq> ''''" and "controller (vr_next vr l) = d" and "c \<noteq> d"
  shows "l = ORemove c \<or> l = ORelease c
    \<or> (\<exists>r. pendingRequest vr = Some r \<and> RequesterID r = d \<and> viewers vr d \<noteq> None
          \<and> (l = OAccept \<or> l = OCallback d))"
  using assms
  by (cases l)
     (auto simp: Add_def Remove_def RequestControl_def AcceptControlRequest_def DenyControlRequest_def
       ReleaseControl_def timeout_callback_def Let_def split: if_splits option.splits)

definition sample_registry :: ViewerRegistry where
  "sample_registry = run_ops vr_next NewViewerRegistry
     [OAdd 0 ''a'' ''A'' ''x'', OAdd 1 ''b'' ''B'' ''y'', ORequest 2 ''b'' 30]"

theorem control_transfer_witness:
  "OAccept = ORemove ''a'' \<or> OAccept = ORelease ''a''
    \<or> (\<exists>r. pendingRequest sample_registry = Some r \<and> RequesterID r = ''b''
        \<and> viewers sample_registry ''b'' \<noteq> None \<and> (OAccept = OAccept \<or> OAccept = OCallback ''b''))"
  by (rule control_transfer)
     (simp_all add: sample_registry_def Add_def RequestControl_def AcceptControlRequest_def
       stop_timer_def NewViewerRegistry_def Let_def)

text \<open>A viewer that reconnects under the id it already has, and whose first connection
  then ends, leaves the registry with nobody connected and that id still in control; the
  next viewer does not get control although it is the only one.\<close>

theorem reconnect_leaves_stale_controller:
  "let vr = run_ops vr_next NewViewerRegistry [OAdd t1 ''a'' n ip, OAdd t2 ''a'' n ip, ORemove ''a'', OAdd t3 ''b'' m ip']
   in controller vr = ''a'' \<and> dom (viewers vr) = {''b''} \<and> filter v_HasControl (List_viewers vr) = []"
  by (simp add: NewViewerRegistry_def Add_def Remove_def Let_def List_viewers_def map_filter_def)

text \<open>\<open>Stop\<close> does not recall a callback that already waits for the mutex: a request that is
  denied just as its timer fires, and is then made again, is granted at once by the stale
  callback, thirty seconds before its own deadline.\<close>

theorem stale_timer_grants_early:
  "let ops = [OAdd 0 ''a'' n ip, OAdd 0 ''b'' n ip, ORequest 0 ''b'' 30, OFire 30000000000 0, ODeny,
              ORequest 30000000001 ''b'' 30, OCallback ''b''];
       vr = run_ops vr_next NewViewerRegistry ops
   in ops_ok vr_ok vr_next NewViewerRegistry ops \<and> controller vr = ''b''
      \<and> armed vr 1 = Some \<lparr>tm_requester = ''b'', tm_deadline = 60000000001\<rparr>"
  by (simp add: NewViewerRegistry_def Add_def RequestControl_def DenyControlRequest_def stop_timer_def
      timeout_callback_def Let_def)

end
