(* ===== verification/Vnc.thy ===== *)
theory Vnc
  imports Bridge Viewers
begin

text \<open>
  The VNC server side of the bridge, \<open>src/internal/ikvm/vnc.go\<close> and \<open>ServeWebSocketWithControl\<close> of
  \<open>bridge.go\<close>: the RFB handshake, the viewer's keyboard and pointer events on their way to the BMC, and the
  framebuffer updates on their way to the viewer.

  A WebSocket is the messages it will still deliver, those it was given, and the writes that fail. While a
  viewer is attached, its input, its wake-ups and the frames of the BMC interleave: \<open>viewer_step\<close> is one of
  them.
\<close>

section \<open>Big-endian fields\<close>

definition be16 :: "u16 \<Rightarrow> bytes" where
  "be16 w = [ucast (drop_bit 8 w), ucast w]"

definition be32 :: "u32 \<Rightarrow> bytes" where
  "be32 w = [ucast (drop_bit 24 w), ucast (drop_bit 16 w), ucast (drop_bit 8 w), ucast w]"

definition get_be16 :: "u8 \<Rightarrow> u8 \<Rightarrow> u16" where
  "get_be16 b0 b1 = get_le16 b1 b0"

definition get_be32 :: "u8 \<Rightarrow> u8 \<Rightarrow> u8 \<Rightarrow> u8 \<Rightarrow> u32" where
  "get_be32 b0 b1 b2 b3 = get_le32 b3 b2 b1 b0"

section \<open>The connection\<close>

record WsConn =
  ws_in :: "bytes list"
  ws_out :: "bytes list"
  ws_writes :: nat
  ws_fail :: "nat \<Rightarrow> bool"

definition WriteMessage :: "bytes \<Rightarrow> WsConn \<Rightarrow> bool \<times> WsConn" where
  "WriteMessage m ws =
     (if ws_fail ws (ws_writes ws) then (False, ws\<lparr>ws_writes := ws_writes ws + 1\<rparr>)
      else (True, ws\<lparr>ws_writes := ws_writes ws + 1, ws_out := ws_out ws @ [m]\<rparr>))"

definition ReadMessage :: "WsConn \<Rightarrow> bytes option \<times> WsConn" where
  "ReadMessage ws =
     (case ws_in ws of
        [] \<Rightarrow> (None, ws)
      | m # ms \<Rightarrow> (Some m, ws\<lparr>ws_in := ms\<rparr>))"

section \<open>Handshake\<close>

definition buildServerInit :: "Bridge \<Rightarrow> bytes" where
  "buildServerInit b =
     (let name = str_bytes ''iKVM'' in
      be16 (b_width b) @ be16 (b_height b) @ [32, 24, 0, 1] @ be16 255 @ be16 255 @ be16 255
        @ [0, 8, 16, 0, 0, 0] @ be32 (of_nat (length name)) @ name)"

text \<open>A round of the handshake: write, then read one message.\<close>

definition hs_round :: "bytes \<Rightarrow> string \<Rightarrow> string \<Rightarrow> WsConn \<Rightarrow> bridge_error option \<times> WsConn" where
  "hs_round m wr rd ws =
     (let (ok, ws) = WriteMessage m ws in
      if \<not> ok then (Some (EHandshake wr), ws)
      else (case ReadMessage ws of
              (None, ws) \<Rightarrow> (Some (EHandshake rd), ws)
            | (Some _, ws) \<Rightarrow> (None, ws)))"

definition vncHandshake :: "Bridge \<Rightarrow> WsConn \<Rightarrow> bridge_error option \<times> WsConn" where
  "vncHandshake b ws =
     (case hs_round (str_bytes (''RFB 003.008'' @ [CHR 0x0A])) ''sending version'' ''reading client version'' ws of
        (Some e, ws) \<Rightarrow> (Some e, ws)
      | (None, ws) \<Rightarrow>
          (case hs_round [1, 1] ''sending security types'' ''reading security selection'' ws of
             (Some e, ws) \<Rightarrow> (Some e, ws)
           | (None, ws) \<Rightarrow>
               (case hs_round (replicate 4 0) ''sending security result'' ''reading ClientInit'' ws of
                  (Some e, ws) \<Rightarrow> (Some e, ws)
                | (None, ws) \<Rightarrow>
                    (let (ok, ws) = WriteMessage (buildServerInit b) ws in
                     if ok then (None, ws) else (Some (EHandshake ''sending ServerInit''), ws)))))"

section \<open>Keyboard and pointer\<close>

text \<open>The keysym as HID key code and modifier bits.\<close>

definition keysymToUSBHID :: "u32 \<Rightarrow> u8 \<times> u8" where
  "keysymToUSBHID keysym =
     (if keysym \<in> {0xffe1, 0xffe2} then (0, 0x02)
      else if keysym \<in> {0xffe3, 0xffe4} then (0, 0x01)
      else if keysym \<in> {0xffe9, 0xffea} then (0, 0x04)
      else if keysym \<in> {0xffeb, 0xffec} then (0, 0x08)
      else if 0xffbe \<le> keysym \<and> keysym \<le> 0xffc9 then (ucast (0x3A + (keysym - 0xffbe)), 0)
      else if keysym = 0xff0d then (0x28, 0)
      else if keysym = 0xff1b then (0x29, 0)
      else if keysym = 0xff08 then (0x2A, 0)
      else if keysym = 0xff09 then (0x2B, 0)
      else if keysym = 0x0020 then (0x2C, 0)
      else if keysym = 0xff50 then (0x4A, 0)
      else if keysym = 0xff51 then (0x50, 0)
      else if keysym = 0xff52 then (0x52, 0)
      else if keysym = 0xff53 then (0x4F, 0)
      else if keysym = 0xff54 then (0x51, 0)
      else if keysym = 0xff55 then (0x4B, 0)
      else if keysym = 0xff56 then (0x4E, 0)
      else if keysym = 0xff57 then (0x4D, 0)
      else if keysym = 0xffff then (0x4C, 0)
      else if keysym = 0xff63 then (0x49, 0)
      else if keysym = 0xff14 then (0x47, 0)
      else if keysym = 0xff7f then (0x48, 0)
      else if keysym = 0xff61 then (0x46, 0)
      else if 0x61 \<le> keysym \<and> keysym \<le> 0x7a then (ucast (0x04 + (keysym - 0x61)), 0)
      else if 0x41 \<le> keysym \<and> keysym \<le> 0x5a then (ucast (0x04 + (keysym - 0x41)), 0x02)
      else if 0x31 \<le> keysym \<and> keysym \<le> 0x39 then (ucast (0x1E + (keysym - 0x31)), 0)
      else if keysym = 0x30 then (0x27, 0)
      else if keysym = 0x2d then (0x2D, 0)
      else if keysym = 0x3d then (0x2E, 0)
      else if keysym = 0x5b then (0x2F, 0)
      else if keysym = 0x5d then (0x30, 0)
      else if keysym = 0x5c then (0x31, 0)
      else if keysym = 0x3b then (0x33, 0)
      else if keysym = 0x27 then (0x34, 0)
      else if keysym = 0x60 then (0x35, 0)
      else if keysym = 0x2c then (0x36, 0)
      else if keysym = 0x2e then (0x37, 0)
      else if keysym = 0x2f then (0x38, 0)
      else (0, 0))"

text \<open>The HID sends of the client, with the shared sequence counter; their errors are dropped.\<close>

definition send_key :: "u8 \<Rightarrow> u8 \<Rightarrow> bool \<Rightarrow> Client \<Rightarrow> Bridge \<Rightarrow> Bridge option" where
  "send_key mods key pressed c b = do {
     (_, n, c) \<leftarrow> SendKeyEvent mods key pressed (b_seq b, c);
     Some (b\<lparr>b_seq := n, b_client := Some c\<rparr>)
   }"

definition handleKeyEvent :: "bytes \<Rightarrow> Bridge \<Rightarrow> Bridge option" where
  "handleKeyEvent data b =
     (case b_client b of
        None \<Rightarrow> Some b
      | Some c \<Rightarrow> do {
          d1 \<leftarrow> arr_get data 1;
          let pressed = (d1 \<noteq> 0);
          k \<leftarrow> go_slice data 4 8;
          let keysym = get_be32 (k ! 0) (k ! 1) (k ! 2) (k ! 3);
          let (keycode, modBit) = keysymToUSBHID keysym;
          if modBit \<noteq> 0 \<and> keycode = 0 then do {
            let b = b\<lparr>b_kbdModifiers := (if pressed then b_kbdModifiers b OR modBit
                                          else b_kbdModifiers b AND NOT modBit)\<rparr>;
            send_key (b_kbdModifiers b) 0 pressed c b
          }
          else if keycode = 0 then Some b
          else if pressed then send_key (b_kbdModifiers b) keycode True c b
          else send_key (b_kbdModifiers b) 0 False c b
        })"

text \<open>\<open>uint16(uint32(x) * 32767 / uint32(w))\<close>\<close>

definition abs_coord :: "u16 \<Rightarrow> u16 \<Rightarrow> u16" where
  "abs_coord x w = ucast ((ucast x :: u32) * 32767 div ucast w)"

definition usb_buttons :: "u8 \<Rightarrow> u8" where
  "usb_buttons buttons =
     (if buttons AND 1 \<noteq> 0 then 1 else 0) OR (if buttons AND 2 \<noteq> 0 then 4 else 0)
     OR (if buttons AND 4 \<noteq> 0 then 2 else 0)"

definition wheel_of :: "u8 \<Rightarrow> u8" where
  "wheel_of buttons = (if buttons AND 16 \<noteq> 0 then -1 else if buttons AND 8 \<noteq> 0 then 1 else 0)"

definition handlePointerEvent :: "bytes \<Rightarrow> Bridge \<Rightarrow> Bridge option" where
  "handlePointerEvent data b =
     (case b_client b of
        None \<Rightarrow> Some b
      | Some c \<Rightarrow> do {
          buttons \<leftarrow> arr_get data 1;
          px \<leftarrow> go_slice data 2 4;
          py \<leftarrow> go_slice data 4 6;
          let x = get_be16 (px ! 0) (px ! 1);
          let y = get_be16 (py ! 0) (py ! 1);
          let w = b_width b;
          let h = b_height b;
          if w = 0 \<or> h = 0 then Some b
          else do {
            (_, n, c) \<leftarrow> SendMouseEvent (usb_buttons buttons) (abs_coord x w) (abs_coord y h) (wheel_of buttons) (b_seq b, c);
            Some (b\<lparr>b_seq := n, b_client := Some c\<rparr>)
          }
        })"

text \<open>The body of \<open>readVNCInput\<close> for one message; \<open>allowed\<close> is what \<open>inputAllowed\<close> would answer now, and is
  always true without that function.\<close>

definition handleInput :: "bool \<Rightarrow> bytes \<Rightarrow> Bridge \<Rightarrow> Bridge option" where
  "handleInput allowed data b =
     (if data = [] then Some b
      else if data ! 0 = 4 then
        if length data \<ge> 8 \<and> allowed then handleKeyEvent data b else Some b
      else if data ! 0 = 5 then
        if length data \<ge> 6 \<and> allowed then handlePointerEvent data b else Some b
      else Some b)"

text \<open>\<open>readVNCInput\<close> on its own: each message with the answer of \<open>inputAllowed\<close> at its time, until the
  context is done or the connection fails.\<close>

fun readVNCInput :: "(bytes \<times> bool) list \<Rightarrow> Bridge \<Rightarrow> (bridge_error \<times> Bridge) option" where
  "readVNCInput [] b = Some (if b_ctx b = Some True then ECancelled else EWebSocket ''read'', b)"
| "readVNCInput ((data, allowed) # ms) b =
     (if b_ctx b = Some True then Some (ECancelled, b)
      else Option.bind (handleInput allowed data b) (readVNCInput ms))"

section \<open>Framebuffer updates\<close>

definition buildFramebufferUpdate :: "u16 \<Rightarrow> u16 \<Rightarrow> u16 \<Rightarrow> u16 \<Rightarrow> bytes \<Rightarrow> bytes" where
  "buildFramebufferUpdate x y w h px =
     [0, 0] @ be16 1 @ be16 x @ be16 y @ be16 w @ be16 h @ be32 0 @ px"

definition buildDesktopResize :: "u16 \<Rightarrow> u16 \<Rightarrow> bytes" where
  "buildDesktopResize w h = [0, 0] @ be16 1 @ [0, 0, 0, 0] @ be16 w @ be16 h @ be32 0xFFFFFF21"

text \<open>One round of \<open>sendVNCFrames\<close>, after the burst has settled: \<open>(lastW, lastH)\<close> is the size the viewer
  knows.\<close>

definition send_frame ::
  "u16 \<times> u16 \<Rightarrow> WsConn \<Rightarrow> Bridge \<Rightarrow> (bridge_error option \<times> (u16 \<times> u16) \<times> WsConn \<times> Bridge) option" where
  "send_frame lastWH ws b =
     (let d = b_decoder b; w = Width d; h = Height d in
      if \<not> has_frame d then Some (None, lastWH, ws, b)
      else do {
        let resChanged = (w \<noteq> fst lastWH \<or> h \<noteq> snd lastWH);
        let lastWH = (if resChanged then (w, h) else lastWH);
        let b = (if resChanged then spawn_refresh b else b);
        pixelData \<leftarrow> frame_pixels d;
        if resChanged then do {
          let (ok, ws) = WriteMessage (buildDesktopResize w h) ws;
          Some (if ok then None else Some (EWebSocket ''write resize''), lastWH, ws, b)
        }
        else do {
          let (ok, ws) = WriteMessage (buildFramebufferUpdate 0 0 w h pixelData) ws;
          Some (if ok then None else Some (EWebSocket ''write frame''), lastWH, ws, b)
        }
      })"

section \<open>An attached viewer\<close>

text \<open>How the wait for the first frame ends. The context may be done and the channel closed at once, and then
  the scheduler chooses.\<close>

datatype ready_wait = WReady | WDone | WTimeout

definition wait_possible :: "ready_wait \<Rightarrow> Bridge \<Rightarrow> bool" where
  "wait_possible r b = (case r of
     WReady \<Rightarrow> ch_closed (b_ready b) | WDone \<Rightarrow> b_ctx b = Some True | WTimeout \<Rightarrow> True)"

text \<open>\<open>ServeWebSocketWithControl\<close> up to the start of the two goroutines: the error with which it
  returns, or the subscription and the size \<open>sendVNCFrames\<close> starts from.\<close>

definition serve_start ::
  "ready_wait \<Rightarrow> WsConn \<Rightarrow> Bridge \<Rightarrow> ((bridge_error + nat \<times> u16 \<times> u16) \<times> WsConn \<times> Bridge) option" where
  "serve_start wait ws b =
     (if \<not> Running b then Some (Inl ENotRunning, ws, b)
      else do {
        let (ch, b) = SubscribeFrames b;
        if wait = WDone then do {
          b \<leftarrow> UnsubscribeFrames ch b;
          Some (Inl EStoppedBeforeReady, ws, b)
        }
        else case vncHandshake b ws of
          (Some e, ws) \<Rightarrow> do {
            b \<leftarrow> UnsubscribeFrames ch b;
            Some (Inl e, ws, b)
          }
        | (None, ws) \<Rightarrow> do {
            ws \<leftarrow> (if has_frame (b_decoder b) then do {
                      px \<leftarrow> frame_pixels (b_decoder b);
                      let (_, ws) = WriteMessage (buildFramebufferUpdate 0 0 (Width (b_decoder b)) (Height (b_decoder b)) px) ws;
                      Some ws
                    }
                    else Some ws);
            Some (Inr (ch, b_width b, b_height b), ws, b)
          }
      })"

text \<open>The deferred calls when a goroutine has ended.\<close>

definition serve_end :: "nat \<Rightarrow> Bridge \<Rightarrow> Bridge option" where
  "serve_end ch b = UnsubscribeFrames ch b"

text \<open>\<open>sendVNCFrames\<close>: the states of the bridge that the wake-ups find, until a write fails or the context is
  done.\<close>

fun sendVNCFrames ::
  "Bridge list \<Rightarrow> u16 \<times> u16 \<Rightarrow> WsConn \<Rightarrow> (bridge_error \<times> (u16 \<times> u16) \<times> WsConn) option" where
  "sendVNCFrames [] lastWH ws = Some (ECancelled, lastWH, ws)"
| "sendVNCFrames (b # bs) lastWH ws = do {
     (e, lastWH, ws, b') \<leftarrow> send_frame lastWH ws b;
     case e of
       Some e \<Rightarrow> Some (e, lastWH, ws)
     | None \<Rightarrow> sendVNCFrames bs lastWH ws
   }"

section \<open>States of a bridge\<close>

text \<open>The states that occur: a new bridge, and what an operation that returns makes of one.\<close>

inductive bridge_state :: "Bridge \<Rightarrow> bool" where
  new: "NewBridge cfg = Some b \<Longrightarrow> bridge_state b"
| start: "\<lbrakk>bridge_state b; Start dial b = Some (e, b')\<rbrakk> \<Longrightarrow> bridge_state b'"
| stop: "\<lbrakk>bridge_state b; stop_bridge b = Some b'\<rbrakk> \<Longrightarrow> bridge_state b'"
| session: "\<lbrakk>bridge_state b; run_session b = Some b'\<rbrakk> \<Longrightarrow> bridge_state b'"
| frame: "\<lbrakk>bridge_state b; onVideoFrame h d b = Some b'\<rbrakk> \<Longrightarrow> bridge_state b'"
| tick: "\<lbrakk>bridge_state b; refresh_tick b = Some b'\<rbrakk> \<Longrightarrow> bridge_state b'"
| go: "\<lbrakk>bridge_state b; run_go b = Some b'\<rbrakk> \<Longrightarrow> bridge_state b'"
| subscribe: "bridge_state b \<Longrightarrow> bridge_state (snd (SubscribeFrames b))"
| unsubscribe: "\<lbrakk>bridge_state b; UnsubscribeFrames ch b = Some b'\<rbrakk> \<Longrightarrow> bridge_state b'"
| power: "\<lbrakk>bridge_state b; SendPowerCommand a b = Some (e, b')\<rbrakk> \<Longrightarrow> bridge_state b'"
| lock: "\<lbrakk>bridge_state b; SendDisplayLock l b = Some (e, b')\<rbrakk> \<Longrightarrow> bridge_state b'"
| reset: "\<lbrakk>bridge_state b; ResetVideo b = Some (e, b')\<rbrakk> \<Longrightarrow> bridge_state b'"
| mouse: "\<lbrakk>bridge_state b; SetMouseMode m b = Some (e, b')\<rbrakk> \<Longrightarrow> bridge_state b'"
| layout: "\<lbrakk>bridge_state b; SetKeyboardLayout s b = Some (e, b')\<rbrakk> \<Longrightarrow> bridge_state b'"
| ipmi: "\<lbrakk>bridge_state b; SendIPMICommand i b = Some (e, b')\<rbrakk> \<Longrightarrow> bridge_state b'"
| input: "\<lbrakk>bridge_state b; handleInput allowed m b = Some b'\<rbrakk> \<Longrightarrow> bridge_state b'"
| update: "\<lbrakk>bridge_state b; send_frame wh ws b = Some (e, wh', ws', b')\<rbrakk> \<Longrightarrow> bridge_state b'"
| serve: "\<lbrakk>bridge_state b; wait_possible wt b; serve_start wt ws b = Some (r, ws', b')\<rbrakk> \<Longrightarrow> bridge_state b'"

lemma hid_sends_live:
  "SendKeyEvent m k p (n, c) = Some (ok, n', c') \<Longrightarrow> live c \<Longrightarrow> live c'"
  "SendMouseEvent bs x y z (n, c) = Some (ok, n', c') \<Longrightarrow> live c \<Longrightarrow> live c'"
  by (auto simp: SendKeyEvent_def SendMouseEvent_def Let_def elim!: bind_SomeE dest!: conn_write_live split: prod.splits)

text \<open>Input touches the client, the sequence counter and the modifiers only.\<close>

definition same_but_input :: "Bridge \<Rightarrow> Bridge \<Rightarrow> bool" where
  "same_but_input b b' \<longleftrightarrow> (\<exists>c n m. b' = b\<lparr>b_client := c, b_seq := n, b_kbdModifiers := m\<rparr>
     \<and> (c = None \<longleftrightarrow> b_client b = None) \<and> (\<forall>d e. b_client b = Some d \<longrightarrow> live d \<longrightarrow> c = Some e \<longrightarrow> live e))"

lemma same_but_input_refl: "same_but_input b b"
  unfolding same_but_input_def
  by (intro exI[of _ "b_client b"] exI[of _ "b_seq b"] exI[of _ "b_kbdModifiers b"]) auto

lemma same_but_inputI:
  assumes "b_client b = Some c" "live c \<Longrightarrow> live c'"
  shows "same_but_input b (b\<lparr>b_kbdModifiers := m, b_seq := n, b_client := Some c'\<rparr>)"
    "same_but_input b (b\<lparr>b_seq := n, b_client := Some c'\<rparr>)"
proof -
  show k: "same_but_input b (b\<lparr>b_kbdModifiers := m, b_seq := n, b_client := Some c'\<rparr>)" for m
    unfolding same_but_input_def using assms
    by (intro exI[of _ "Some c'"] exI[of _ n] exI[of _ m]) auto
  show "same_but_input b (b\<lparr>b_seq := n, b_client := Some c'\<rparr>)"
    using k[of "b_kbdModifiers b"] by simp
qed

lemma send_key_same:
  assumes "b_client b = Some c"
  shows "send_key mods key pressed c b = Some b' \<Longrightarrow> same_but_input b b'"
    "send_key mods key pressed c (b\<lparr>b_kbdModifiers := m\<rparr>) = Some b' \<Longrightarrow> same_but_input b b'"
  using assms unfolding send_key_def
  by (auto elim!: bind_SomeE intro!: same_but_inputI dest: hid_sends_live)

lemma handleKeyEvent_same: "handleKeyEvent data b = Some b' \<Longrightarrow> same_but_input b b'"
  unfolding handleKeyEvent_def Let_def
  by (auto elim!: bind_SomeE intro!: same_but_input_refl dest: send_key_same
      split: option.split_asm prod.split_asm if_split_asm)

lemma handlePointerEvent_same: "handlePointerEvent data b = Some b' \<Longrightarrow> same_but_input b b'"
  unfolding handlePointerEvent_def Let_def
  by (auto elim!: bind_SomeE intro!: same_but_input_refl same_but_inputI(2)
      dest: hid_sends_live split: option.split_asm prod.split_asm if_split_asm)

lemma handleInput_same: "handleInput allowed data b = Some b' \<Longrightarrow> same_but_input b b'"
  unfolding handleInput_def
  by (auto split: if_split_asm intro: handleKeyEvent_same handlePointerEvent_same same_but_input_refl)

lemma same_but_input_inv: "\<lbrakk>bridge_inv b; same_but_input b b'\<rbrakk> \<Longrightarrow> bridge_inv b'"
  unfolding same_but_input_def bridge_inv_def chans_inv_def by auto

section \<open>Frames\<close>

lemma has_frame_pixels:
  assumes "has_frame d"
  obtains px where "frame_pixels d = Some px" "length px = 4 * (unat (Width d) * unat (Height d))"
    "\<And>k. k < unat (Width d) * unat (Height d) \<Longrightarrow> pixel px k = rgba_of (Framebuffer d) k"
proof -
  have "4 * (unat (Width d) * unat (Height d)) \<le> length (Framebuffer d)"
  proof -
    have "uint (Width d) * uint (Height d) = int (unat (Width d) * unat (Height d))" by simp
    then show ?thesis using assms unfolding has_frame_def by linarith
  qed
  then show ?thesis using frame_pixels_spec[of d] that by (auto simp: wp_opt_iff)
qed

lemma spawn_refresh_inv: "bridge_inv b \<Longrightarrow> bridge_inv (spawn_refresh b)"
  by (simp add: bridge_inv_def chans_inv_def)

lemma send_frame_inv: "\<lbrakk>bridge_inv b; send_frame wh ws b = Some (e, wh', ws', b')\<rbrakk> \<Longrightarrow> bridge_inv b'"
  by (auto simp: send_frame_def Let_def elim!: bind_SomeE split: if_split_asm prod.split_asm intro: spawn_refresh_inv)

lemma serve_start_inv:
  assumes "bridge_inv b" "serve_start wt ws b = Some (r, ws', b')"
  shows "bridge_inv b'"
proof -
  obtain ch b1 where s: "SubscribeFrames b = (ch, b1)" by (cases "SubscribeFrames b")
  then have "bridge_inv b1" using SubscribeFrames_inv[OF assms(1)] by simp
  then show ?thesis
    using assms unfolding serve_start_def
    by (auto simp: s elim!: bind_SomeE split: if_split_asm prod.split_asm option.split_asm intro: UnsubscribeFrames_inv)
qed

lemma bridge_state_inv: "bridge_state b \<Longrightarrow> bridge_inv b"
proof (induction rule: bridge_state.induct)
  case (new cfg b)
  then show ?case using NewBridge_inv[of cfg] by (simp add: wp_opt_def)
qed (auto intro: Start_inv run_session_inv onVideoFrame_inv refresh_tick_inv run_go_inv SubscribeFrames_inv
    UnsubscribeFrames_inv commands_inv ResetVideo_inv send_frame_inv serve_start_inv
    dest: stop_bridge_inv same_but_input_inv handleInput_same)

section \<open>The stream to a viewer\<close>

text \<open>A sequence of updates as a viewer of the size \<open>(w, h)\<close> expects it: a frame has that size and all its
  pixels, a resize changes it.\<close>

inductive rfb_stream :: "u16 \<times> u16 \<Rightarrow> bytes list \<Rightarrow> u16 \<times> u16 \<Rightarrow> bool" where
  none: "rfb_stream wh [] wh"
| frame: "\<lbrakk>length px = 4 * (unat w * unat h); rfb_stream (w, h) ms wh\<rbrakk>
    \<Longrightarrow> rfb_stream (w, h) (buildFramebufferUpdate 0 0 w h px # ms) wh"
| resize: "rfb_stream (w, h) ms wh \<Longrightarrow> rfb_stream wh0 (buildDesktopResize w h # ms) wh"

lemma send_frame_stream:
  "\<exists>e wh' ws' b' ms. send_frame wh ws b = Some (e, wh', ws', b') \<and> ws_out ws' = ws_out ws @ ms
     \<and> (rfb_stream wh ms wh' \<or> e \<noteq> None \<and> ms = [])"
proof (cases "has_frame (b_decoder b)")
  case True
  obtain px where px: "frame_pixels (b_decoder b) = Some px"
    "length px = 4 * (unat (Width (b_decoder b)) * unat (Height (b_decoder b)))"
    using has_frame_pixels[OF True] by blast
  have f: "rfb_stream (w, h) [buildFramebufferUpdate 0 0 w h px] (w, h)" if "length px = 4 * (unat w * unat h)" for w h
    using that by (intro rfb_stream.intros)
  have r: "rfb_stream wh [buildDesktopResize w h] (w, h)" for w h by (intro rfb_stream.intros)
  show ?thesis
    using True px f r by (cases wh) (auto simp: send_frame_def Let_def WriteMessage_def)
qed (auto simp: send_frame_def Let_def intro: rfb_stream.none)

lemma rfb_stream_append: "rfb_stream wh ms wh1 \<Longrightarrow> rfb_stream wh1 ms' wh2 \<Longrightarrow> rfb_stream wh (ms @ ms') wh2"
  by (induction rule: rfb_stream.induct) (auto intro: rfb_stream.intros)

section \<open>Input\<close>

lemma handleInput_blocked: "handleInput False data b = Some b"
  by (simp add: handleInput_def)

lemma handleInput_ctx: "handleInput allowed data b = Some b' \<Longrightarrow> b_ctx b' = b_ctx b"
  using handleInput_same by (fastforce simp: same_but_input_def)

lemma readVNCInput_done: "b_ctx b = Some True \<Longrightarrow> readVNCInput ms b = Some (ECancelled, b)"
  by (cases ms) auto

text \<open>The keys with a key code: single keys, then the four ranges.\<close>

definition single_keys :: "u32 list" where
  "single_keys =
    [0xff0d, 0xff1b, 0xff08, 0xff09, 0x20, 0xff50, 0xff51, 0xff52, 0xff53, 0xff54, 0xff55, 0xff56, 0xff57, 0xffff,
     0xff63, 0xff14, 0xff7f, 0xff61, 0x30, 0x2d, 0x3d, 0x5b, 0x5d, 0x5c, 0x3b, 0x27, 0x60, 0x2c,
     0x2e, 0x2f]"

definition range_keys :: "u32 list" where
  "range_keys = map (\<lambda>i. 0xffbe + of_nat i) [0..<12] @ map (\<lambda>i. 0x61 + of_nat i) [0..<26]
     @ map (\<lambda>i. 0x41 + of_nat i) [0..<26] @ map (\<lambda>i. 0x31 + of_nat i) [0..<9]"

lemma word_range_nat:
  assumes "(a :: u32) \<le> k" "k \<le> a + of_nat n" "unat a + n < 2 ^ 32"
  shows "k \<in> (\<lambda>i. a + of_nat i) ` set [0..<Suc n]"
proof -
  have "unat (a + of_nat n) = unat a + n"
    using assms(3) by (simp add: unat_word_ariths unat_of_nat)
  then have "unat k - unat a \<le> n" "unat a \<le> unat k" using assms(1,2) by (simp_all add: word_le_nat_alt)
  moreover have "k = a + of_nat (unat k - unat a)"
    using \<open>unat a \<le> unat k\<close> by (simp add: of_nat_diff)
  ultimately show ?thesis by (intro image_eqI[of _ _ "unat k - unat a"]) auto
qed

lemma keysym_supported:
  assumes "fst (keysymToUSBHID k) \<noteq> 0"
  shows "k \<in> set (single_keys @ range_keys)"
proof -
  have n: "[0..<12] = [0..<Suc 11]" "[0..<26] = [0..<Suc 25]" "[0..<9] = [0..<Suc 8]" by simp_all
  have "k \<in> (\<lambda>i. 0xffbe + of_nat i) ` set [0..<12]" if "0xffbe \<le> k" "k \<le> 0xffc9"
    using word_range_nat[of "0xffbe" k 11] that unfolding n by simp
  moreover have "k \<in> (\<lambda>i. 0x61 + of_nat i) ` set [0..<26]" if "0x61 \<le> k" "k \<le> 0x7a"
    using word_range_nat[of "0x61" k 25] that unfolding n by simp
  moreover have "k \<in> (\<lambda>i. 0x41 + of_nat i) ` set [0..<26]" if "0x41 \<le> k" "k \<le> 0x5a"
    using word_range_nat[of "0x41" k 25] that unfolding n by simp
  moreover have "k \<in> (\<lambda>i. 0x31 + of_nat i) ` set [0..<9]" if "0x31 \<le> k" "k \<le> 0x39"
    using word_range_nat[of "0x31" k 8] that unfolding n by simp
  moreover have "k \<in> set single_keys \<or> 0xffbe \<le> k \<and> k \<le> 0xffc9 \<or> 0x61 \<le> k \<and> k \<le> 0x7a
      \<or> 0x41 \<le> k \<and> k \<le> 0x5a \<or> 0x31 \<le> k \<and> k \<le> 0x39"
    using assms by (simp add: keysymToUSBHID_def single_keys_def split: if_splits)
  ultimately show ?thesis
    unfolding range_keys_def set_append set_map by blast
qed

text \<open>Their HID codes, as numbers.\<close>

definition hid_number :: "u32 \<Rightarrow> nat" where
  "hid_number k = (case keysymToUSBHID k of (c, m) \<Rightarrow> unat c + 256 * unat m)"

lemma single_keys_hid: "map hid_number single_keys =
  [40, 41, 42, 43, 44, 74, 80, 82, 79, 81, 75, 78, 77, 76, 73, 71, 72, 70, 39, 45,
   46, 47, 48, 49, 51, 52, 53, 54, 55, 56]"
  by (simp add: single_keys_def hid_number_def keysymToUSBHID_def)

lemma range_keys_hid: "map hid_number range_keys =
  [58, 59, 60, 61, 62, 63, 64, 65, 66, 67, 68, 69, 4, 5, 6, 7, 8, 9, 10, 11,
   12, 13, 14, 15, 16, 17, 18, 19, 20, 21, 22, 23, 24, 25, 26, 27, 28, 29, 516, 517,
   518, 519, 520, 521, 522, 523, 524, 525, 526, 527, 528, 529, 530, 531, 532, 533, 534, 535, 536, 537,
   538, 539, 540, 541, 30, 31, 32, 33, 34, 35, 36, 37, 38]"
  by (simp add: range_keys_def upt_rec hid_number_def keysymToUSBHID_def)

lemma keysym_table: "inj_on hid_number (set (single_keys @ range_keys))"
proof -
  have "distinct (map hid_number (single_keys @ range_keys))"
    unfolding map_append single_keys_hid range_keys_hid by simp
  then show ?thesis by (simp only: distinct_map)
qed

section \<open>The stream\<close>

lemma sendVNCFrames_stream_ex:
  "\<exists>e wh' ws' ms. sendVNCFrames bs wh ws = Some (e, wh', ws') \<and> ws_out ws' = ws_out ws @ ms \<and> (\<exists>cur. rfb_stream wh ms cur)"
proof (induction bs arbitrary: wh ws)
  case Nil
  then show ?case by (auto simp del: split_paired_Ex intro: rfb_stream.none)
next
  case (Cons b bs)
  obtain e wh1 ws1 b1 ms1 where s: "send_frame wh ws b = Some (e, wh1, ws1, b1)" "ws_out ws1 = ws_out ws @ ms1"
    "rfb_stream wh ms1 wh1 \<or> e \<noteq> None \<and> ms1 = []"
    using send_frame_stream[of wh ws b] by blast
  show ?case
  proof (cases e)
    case None
    obtain e2 wh2 ws2 ms2 cur where r: "sendVNCFrames bs wh1 ws1 = Some (e2, wh2, ws2)" "ws_out ws2 = ws_out ws1 @ ms2"
      "rfb_stream wh1 ms2 cur" using Cons.IH[of wh1 ws1] by blast
    have "rfb_stream wh (ms1 @ ms2) cur" using rfb_stream_append[OF _ r(3)] s(3) None by blast
    then show ?thesis using r s(1,2) None by (simp del: split_paired_Ex) blast
  next
    case (Some x)
    then have "\<exists>cur. rfb_stream wh ms1 cur" using s(3) rfb_stream.none by blast
    then show ?thesis using s(1,2) Some by (simp del: split_paired_Ex)
  qed
qed

section \<open>Properties\<close>

text \<open>A viewer without control reaches nothing: the messages it sends while \<open>inputAllowed\<close> says no can be
  left out of its input, whatever they contain.\<close>

theorem readVNCInput_gated:
  "readVNCInput ms b = readVNCInput (filter snd ms) b"
proof (induction ms arbitrary: b)
  case (Cons m ms)
  obtain data allowed where m: "m = (data, allowed)" by (cases m)
  show ?case
  proof (cases "b_ctx b = Some True")
    case True
    then show ?thesis by (simp add: readVNCInput_done)
  next
    case False
    have "readVNCInput ms = readVNCInput (filter snd ms)" using Cons.IH by (rule ext)
    then show ?thesis using False by (cases allowed) (simp_all add: m handleInput_blocked)
  qed
qed simp

text \<open>A pointer inside the picture is mapped to the absolute range of the HID report without wrap-around:
  the product fits 32 bits, the quotient 15, the right edge is the end of the range and the order of
  positions is kept.\<close>

theorem abs_coord_range:
  assumes "w \<noteq> 0" "x \<le> w"
  shows "unat (abs_coord x w) = unat x * 32767 div unat w \<and> abs_coord x w \<le> 32767 \<and> abs_coord w w = 32767
    \<and> (\<forall>y\<le>x. abs_coord y w \<le> abs_coord x w)"
proof -
  have w: "0 < unat w" using assms(1) by (simp add: unat_gt_0)
  have val: "unat (abs_coord y w) = unat y * 32767 div unat w" if "y \<le> w" for y
  proof -
    have y: "unat y \<le> unat w" "unat y < 2 ^ 16" using that unsigned_less[of y] by (simp_all add: word_le_nat_alt)
    have u: "unat (ucast z :: u32) = unat z" for z :: u16
    proof -
      have "unat z < 65536" using unsigned_less[of z] by simp
      then show ?thesis by (simp add: unsigned_ucast_eq take_bit_nat_eq_self)
    qed
    have "unat ((ucast y :: u32) * 32767) = unat y * 32767"
      using y(2) by (simp add: unat_word_ariths u)
    then have "unat ((ucast y :: u32) * 32767 div ucast w) = unat y * 32767 div unat w"
      by (simp add: unat_div u)
    moreover have "unat y * 32767 div unat w \<le> 32767"
      using y(1) w by (metis div_le_mono mult_le_mono1 nonzero_mult_div_cancel_left less_numeral_extra(3))
    ultimately show ?thesis unfolding abs_coord_def by (simp add: unsigned_ucast_eq take_bit_nat_eq_self)
  qed
  have le: "unat y * 32767 div unat w \<le> unat z * 32767 div unat w" if "y \<le> z" for y z :: u16
    using that by (intro div_le_mono mult_le_mono1) (simp add: word_le_nat_alt)
  have top: "unat w * 32767 div unat w = 32767" using w by simp
  have "abs_coord w w = 32767" using val[of w] top by (simp add: word_unat_eq_iff)
  moreover have "abs_coord y w \<le> abs_coord x w" if "y \<le> x" for y
    using val[of y] val[of x] le[OF that] that assms(2) by (simp add: word_le_nat_alt)
  moreover have "abs_coord x w \<le> 32767" using val[OF assms(2)] le[OF assms(2)] top by (simp add: word_le_nat_alt)
  ultimately show ?thesis using val[OF assms(2)] by blast
qed

theorem abs_coord_range_witness: "unat (abs_coord 400 800) = 16383"
  using abs_coord_range[of 800 400] by simp

text \<open>Two keysyms with the same key code and modifier are the same key: no two keys of the table are
  confused on their way to the BMC.\<close>

theorem keysymToUSBHID_inj:
  assumes "keysymToUSBHID k = (c, m)" "keysymToUSBHID k' = (c, m)" "c \<noteq> 0"
  shows "k = k'"
  using inj_onD[OF keysym_table, of k k'] keysym_supported[of k] keysym_supported[of k'] assms
  by (simp add: hid_number_def)

theorem keysymToUSBHID_inj_witness: "{k. keysymToUSBHID k = (4, 0)} = {0x61}"
proof -
  have a: "keysymToUSBHID 0x61 = (4, 0)" by (simp add: keysymToUSBHID_def)
  have "k = 0x61" if "keysymToUSBHID k = (4, 0)" for k
    by (rule keysymToUSBHID_inj[OF that a]) simp
  then show ?thesis using a by blast
qed


text \<open>C8: in every state a bridge can be in, the size announced to viewers is not zero, a running bridge can be
  stopped without a panic, and a frame whose header does not announce more data than there is is taken in,
  its signal to the subscribers included, without a panic.\<close>

theorem bridge_safe:
  assumes "bridge_state b"
  shows "b_width b \<noteq> 0 \<and> b_height b \<noteq> 0 \<and> (\<exists>b'. stop_bridge b = Some b' \<and> \<not> b_running b')
    \<and> (uint (CompressSize h) div 4 \<le> int (length (makeIntArray data)) \<longrightarrow>
        (\<exists>b'. onVideoFrame h data b = Some b' \<and> b_frameSubs b' = b_frameSubs b
          \<and> (\<forall>i\<in>set (b_frameSubs b'). \<not> ch_closed (b_chans b' ! i) \<and> ch_len (b_chans b' ! i) \<le> 1)))"
proof -
  have inv: "bridge_inv b" by (rule bridge_state_inv[OF assms])
  obtain b' where "stop_bridge b = Some b'" using stop_bridge_returns[OF inv] by blast
  moreover have "\<not> b_running b'" using stop_bridge_inv[OF inv calculation] by simp
  moreover have "\<exists>b'. onVideoFrame h data b = Some b' \<and> b_frameSubs b' = b_frameSubs b
          \<and> (\<forall>i\<in>set (b_frameSubs b'). \<not> ch_closed (b_chans b' ! i) \<and> ch_len (b_chans b' ! i) \<le> 1)"
    if size: "uint (CompressSize h) div 4 \<le> int (length (makeIntArray data))"
  proof -
    obtain b1 where b1: "onVideoFrame h data b = Some b1" using onVideoFrame_returns[OF inv size] by blast
    then obtain dec r where "Decode h data (b_decoder b) = Some (dec, r)"
      by (auto simp: onVideoFrame_def Let_def elim!: bind_SomeE)
    then have "b_frameSubs b1 = b_frameSubs b"
      using onVideoFrame_effect[of b h data dec r] inv b1 by (auto simp: wp_opt_Some bridge_inv_def)
    moreover have "chans_inv b1" using onVideoFrame_inv[OF inv b1] by (simp add: bridge_inv_def)
    ultimately show ?thesis using b1 by (auto simp: chans_inv_def)
  qed
  ultimately show ?thesis using inv unfolding bridge_inv_def by blast
qed

text \<open>For the examples: a header that announces no data, so that the frame changes the resolution only.\<close>

lemma Decode_empty:
  assumes "decoder_state d" "w \<noteq> 0" "h \<noteq> 0"
  shows "\<exists>d'. Decode (sample_header w h 0 0) (replicate 12 0) d = Some (d', DecodeOK)"
proof -
  have wh: "0 < uint w" "0 < uint h" using assms by (simp_all add: word_neq_0_conv word_less_def)
  let ?hd = "sample_header w h 0 0"
  have f: "DstX ?hd = w" "DstY ?hd = h" "CompressSize ?hd = 0" by (simp_all add: sample_header_def)
  obtain d1 where d1: "Decode ?hd (replicate 12 0) d = map_option snd (decode_loop 0 [] d1)"
    "loop_inv 0 (makeIntArray (replicate 12 0)) d1"
    using Decode_loop[OF decoder_state_ready[OF assms(1)], of ?hd "replicate 12 0"] wh
    by (auto simp: f makeIntArray_zeros)
  obtain q where q: "reader_at q (rdr d1)" using d1(2) by (auto simp: loop_inv_def dec_from_def reader_from_def)
  have "\<not> index (rdr d1) < 0" using conjunct2[OF reader_index[OF q]] by linarith
  then show ?thesis unfolding d1(1) by (subst decode_loop.simps) simp
qed

definition sample_bridge :: Bridge where
  "sample_bridge = the (NewBridge \<lparr>cc_Host = ''10.0.0.1'', cc_Port = 443, cc_WebSecurePort = 0, cc_WebCookie = ''c'',
     cc_KVMToken = ''t'', cc_UseSSL = True\<rparr>)"

lemma sample_bridge_state: "bridge_state sample_bridge"
  using NewBridge_inv[of "\<lparr>cc_Host = ''10.0.0.1'', cc_Port = 443, cc_WebSecurePort = 0, cc_WebCookie = ''c'',
     cc_KVMToken = ''t'', cc_UseSSL = True\<rparr>"]
  by (auto simp: wp_opt_iff sample_bridge_def intro: bridge_state.new)

lemma sample_bridge_fields: "b_width sample_bridge = 800 \<and> b_height sample_bridge = 600 \<and> b_frameCount sample_bridge = 0
    \<and> Framebuffer (b_decoder sample_bridge) = [] \<and> \<not> b_running sample_bridge"
proof -
  obtain dc ac where t: "initHuffmanTables = Some (dc, ac)" using initHuffmanTables_wf by auto
  show ?thesis
    unfolding sample_bridge_def NewBridge_def NewDecoder_def Let_def t(1) by (simp add: zero_decoder_def)
qed

lemma sample_frame:
  assumes "bridge_inv b" "w \<noteq> 0" "h \<noteq> 0"
  obtains b' where "onVideoFrame (sample_header w h 0 0) (replicate 12 0) b = Some b'" "bridge_inv b'"
    "b_width b' = w" "b_height b' = h" "b_frameCount b' = b_frameCount b + 1"
    "frames_decode w h [(sample_header w h 0 0, replicate 12 0)] b"
proof -
  have st: "decoder_state (b_decoder b)" "chans_inv b" using assms(1) by (auto simp: bridge_inv_def)
  let ?hd = "sample_header w h 0 0"
  have f: "DstX ?hd = w" "DstY ?hd = h" by (simp_all add: sample_header_def)
  obtain dec where dec: "Decode ?hd (replicate 12 0) (b_decoder b) = Some (dec, DecodeOK)"
    using Decode_empty[OF st(1) assms(2,3)] by blast
  obtain b' where b': "onVideoFrame ?hd (replicate 12 0) b = Some b'" "b_frameCount b' = b_frameCount b + 1"
    using onVideoFrame_effect[OF st(2) dec] by (auto simp: wp_opt_iff)
  have fd: "frames_decode w h [(?hd, replicate 12 0)] b" using dec b'(1) f by simp
  show ?thesis
    by (rule frame_step[OF assms(1) fd b'(1)], rule that[OF b'(1)]) (use b' fd in simp_all)
qed

theorem bridge_safe_witness:
  "\<exists>b'. onVideoFrame (sample_header 640 480 0 0) (replicate 12 0) sample_bridge = Some b'"
  using bridge_safe[OF sample_bridge_state, of "sample_header 640 480 0 0" "replicate 12 0"]
  by (auto simp: sample_header_def)

text \<open>Once a bridge has had a frame, a change of resolution blanks the picture for that frame and the two
  after it; from the fourth frame on the picture is what the decoder made, with the decoder's own state kept up
  all the time.\<close>

theorem transitional_frames_blank:
  assumes "bridge_state b" "0 < b_frameCount b" "b_width b \<noteq> w \<or> b_height b \<noteq> h"
    and "frames_decode w h (fs @ [(hr, data)]) b" "frames fs b = Some b1" "onVideoFrame hr data b1 = Some b'"
  shows "if length fs < 3 then list_all (\<lambda>x. x = 0) (Framebuffer (b_decoder b'))
    else Decode hr data (b_decoder b1) = Some (b_decoder b', DecodeOK)"
  using bridge_state_inv[OF assms(1)] assms(2-6) by (rule frames_blank)

theorem transitional_frames_blank_witness:
  "\<exists>b b'. bridge_state b \<and> onVideoFrame (sample_header 640 480 0 0) (replicate 12 0) b = Some b'
     \<and> list_all (\<lambda>x. x = 0) (Framebuffer (b_decoder b'))"
proof -
  have inv: "bridge_inv sample_bridge" by (rule bridge_state_inv[OF sample_bridge_state])
  obtain b where b: "onVideoFrame (sample_header 800 600 0 0) (replicate 12 0) sample_bridge = Some b" "bridge_inv b"
    "b_width b = 800" "b_frameCount b = b_frameCount sample_bridge + 1"
    by (rule sample_frame[OF inv, of 800 600]) auto
  have st: "bridge_state b" by (rule bridge_state.frame[OF sample_bridge_state b(1)])
  obtain b' where b': "onVideoFrame (sample_header 640 480 0 0) (replicate 12 0) b = Some b'"
    "frames_decode 640 480 [(sample_header 640 480 0 0, replicate 12 0)] b"
    by (rule sample_frame[OF b(2), of 640 480]) auto
  have "list_all (\<lambda>x. x = 0) (Framebuffer (b_decoder b'))"
    using transitional_frames_blank[OF st, of 640 480 "[]" "sample_header 640 480 0 0" "replicate 12 0" b b'] b b'
      sample_bridge_fields by simp
  then show ?thesis using st b'(1) by blast
qed

text \<open>A screenshot never panics: before the first frame there is none, afterwards it has every pixel of the
  picture, red and blue exchanged, and opaque.\<close>

theorem Screenshot_spec:
  assumes "bridge_state b" "d = b_decoder b"
  shows "if Framebuffer d = [] then Screenshot enc b = Some None
    else \<exists>px. Screenshot enc b = Some (Some (enc (unat (Width d)) (unat (Height d)) px))
      \<and> length px = unat (Width d) * unat (Height d) * 4
      \<and> (\<forall>k < unat (Width d) * unat (Height d). pixel px k = opaque_of (Framebuffer d) k)"
proof -
  let ?w = "unat (Width d)" and ?h = "unat (Height d)"
  have "wf_ready d" using bridge_state_inv[OF assms(1)] decoder_state_ready assms(2) by (simp add: bridge_inv_def)
  then have len: "Framebuffer d = [] \<or> length (Framebuffer d) = ?w * ?h * 4"
  proof -
    have "uint (Width d) * uint (Height d) * 4 = int (?w * ?h * 4)" by simp
    then show ?thesis using \<open>wf_ready d\<close> unfolding wf_ready_def by linarith
  qed
  show ?thesis
  proof (cases "Framebuffer d = []")
    case True
    then show ?thesis by (auto simp: Screenshot_def Let_def assms(2)[symmetric])
  next
    case False
    then have l: "length (Framebuffer d) = ?w * ?h * 4" using len by blast
    then have "?w * ?h \<noteq> 0" using False by (metis length_0_conv mult_0)
    then have "?w \<noteq> 0" "?h \<noteq> 0" by (metis mult_0, metis mult_0_right)
    note l = l this
    show ?thesis
      using l False shot_pixels_spec[of ?w ?h "Framebuffer d"]
      by (auto simp: Screenshot_def Let_def assms(2)[symmetric] wp_opt_iff)
  qed
qed

theorem Screenshot_spec_witness: "Screenshot (\<lambda>w h px. px) sample_bridge = Some None"
  using Screenshot_spec[OF sample_bridge_state refl, of "\<lambda>w h px. px"] sample_bridge_fields by simp

end
