(* ===== verification/Des.thy ===== *)
theory Des
  imports Prelude
begin

text \<open>
  The block cipher of \<open>crypto/des\<close>, which \<open>vncEncrypt\<close> of \<open>src/internal/vnc/bridge.go\<close> calls on the
  challenge of a VNC server. The cipher is the DES of the standard (FIPS 46-3): a key and a block are 64
  bits, most significant bit first; the tables number the bits from 1.
\<close>

section \<open>Bits\<close>

definition byte_bits :: "u8 \<Rightarrow> bool list" where
  "byte_bits b = map (\<lambda>i. bit b (7 - i)) [0..<8]"

definition bits_byte :: "bool list \<Rightarrow> u8" where
  "bits_byte bs = horner_sum of_bool 2 (rev bs)"

definition to_bits :: "bytes \<Rightarrow> bool list" where
  "to_bits xs = concat (map byte_bits xs)"

fun chunks :: "nat \<Rightarrow> 'a list \<Rightarrow> 'a list list" where
  "chunks n [] = []"
| "chunks n xs = (if n = 0 then [] else take n xs # chunks n (drop n xs))"

definition of_bits :: "bool list \<Rightarrow> bytes" where
  "of_bits bs = map bits_byte (chunks 8 bs)"

definition permute :: "nat list \<Rightarrow> bool list \<Rightarrow> bool list" where
  "permute tab xs = map (\<lambda>i. xs ! (i - 1)) tab"

definition xor_bits :: "bool list \<Rightarrow> bool list \<Rightarrow> bool list" where
  "xor_bits xs ys = map2 (\<noteq>) xs ys"

section \<open>Tables\<close>

definition initial_perm :: "nat list" where
  "initial_perm =
     [58, 50, 42, 34, 26, 18, 10, 2, 60, 52, 44, 36, 28, 20, 12, 4,
      62, 54, 46, 38, 30, 22, 14, 6, 64, 56, 48, 40, 32, 24, 16, 8,
      57, 49, 41, 33, 25, 17, 9, 1, 59, 51, 43, 35, 27, 19, 11, 3,
      61, 53, 45, 37, 29, 21, 13, 5, 63, 55, 47, 39, 31, 23, 15, 7]"

definition final_perm :: "nat list" where
  "final_perm =
     [40, 8, 48, 16, 56, 24, 64, 32, 39, 7, 47, 15, 55, 23, 63, 31,
      38, 6, 46, 14, 54, 22, 62, 30, 37, 5, 45, 13, 53, 21, 61, 29,
      36, 4, 44, 12, 52, 20, 60, 28, 35, 3, 43, 11, 51, 19, 59, 27,
      34, 2, 42, 10, 50, 18, 58, 26, 33, 1, 41, 9, 49, 17, 57, 25]"

definition expansion :: "nat list" where
  "expansion =
     [32, 1, 2, 3, 4, 5, 4, 5, 6, 7, 8, 9, 8, 9, 10, 11, 12, 13, 12, 13, 14, 15, 16, 17,
      16, 17, 18, 19, 20, 21, 20, 21, 22, 23, 24, 25, 24, 25, 26, 27, 28, 29, 28, 29, 30, 31, 32, 1]"

definition round_perm :: "nat list" where
  "round_perm =
     [16, 7, 20, 21, 29, 12, 28, 17, 1, 15, 23, 26, 5, 18, 31, 10,
      2, 8, 24, 14, 32, 27, 3, 9, 19, 13, 30, 6, 22, 11, 4, 25]"

definition key_perm1 :: "nat list" where
  "key_perm1 =
     [57, 49, 41, 33, 25, 17, 9, 1, 58, 50, 42, 34, 26, 18, 10, 2, 59, 51, 43, 35, 27, 19, 11, 3, 60, 52, 44, 36,
      63, 55, 47, 39, 31, 23, 15, 7, 62, 54, 46, 38, 30, 22, 14, 6, 61, 53, 45, 37, 29, 21, 13, 5, 28, 20, 12, 4]"

definition key_perm2 :: "nat list" where
  "key_perm2 =
     [14, 17, 11, 24, 1, 5, 3, 28, 15, 6, 21, 10, 23, 19, 12, 4, 26, 8, 16, 7, 27, 20, 13, 2,
      41, 52, 31, 37, 47, 55, 30, 40, 51, 45, 33, 48, 44, 49, 39, 56, 34, 53, 46, 42, 50, 36, 29, 32]"

definition key_shifts :: "nat list" where
  "key_shifts = [1, 1, 2, 2, 2, 2, 2, 2, 1, 2, 2, 2, 2, 2, 2, 1]"

definition sboxes :: "nat list list" where
  "sboxes = [
     [14, 4, 13, 1, 2, 15, 11, 8, 3, 10, 6, 12, 5, 9, 0, 7, 0, 15, 7, 4, 14, 2, 13, 1, 10, 6, 12, 11, 9, 5, 3, 8,
      4, 1, 14, 8, 13, 6, 2, 11, 15, 12, 9, 7, 3, 10, 5, 0, 15, 12, 8, 2, 4, 9, 1, 7, 5, 11, 3, 14, 10, 0, 6, 13],
     [15, 1, 8, 14, 6, 11, 3, 4, 9, 7, 2, 13, 12, 0, 5, 10, 3, 13, 4, 7, 15, 2, 8, 14, 12, 0, 1, 10, 6, 9, 11, 5,
      0, 14, 7, 11, 10, 4, 13, 1, 5, 8, 12, 6, 9, 3, 2, 15, 13, 8, 10, 1, 3, 15, 4, 2, 11, 6, 7, 12, 0, 5, 14, 9],
     [10, 0, 9, 14, 6, 3, 15, 5, 1, 13, 12, 7, 11, 4, 2, 8, 13, 7, 0, 9, 3, 4, 6, 10, 2, 8, 5, 14, 12, 11, 15, 1,
      13, 6, 4, 9, 8, 15, 3, 0, 11, 1, 2, 12, 5, 10, 14, 7, 1, 10, 13, 0, 6, 9, 8, 7, 4, 15, 14, 3, 11, 5, 2, 12],
     [7, 13, 14, 3, 0, 6, 9, 10, 1, 2, 8, 5, 11, 12, 4, 15, 13, 8, 11, 5, 6, 15, 0, 3, 4, 7, 2, 12, 1, 10, 14, 9,
      10, 6, 9, 0, 12, 11, 7, 13, 15, 1, 3, 14, 5, 2, 8, 4, 3, 15, 0, 6, 10, 1, 13, 8, 9, 4, 5, 11, 12, 7, 2, 14],
     [2, 12, 4, 1, 7, 10, 11, 6, 8, 5, 3, 15, 13, 0, 14, 9, 14, 11, 2, 12, 4, 7, 13, 1, 5, 0, 15, 10, 3, 9, 8, 6,
      4, 2, 1, 11, 10, 13, 7, 8, 15, 9, 12, 5, 6, 3, 0, 14, 11, 8, 12, 7, 1, 14, 2, 13, 6, 15, 0, 9, 10, 4, 5, 3],
     [12, 1, 10, 15, 9, 2, 6, 8, 0, 13, 3, 4, 14, 7, 5, 11, 10, 15, 4, 2, 7, 12, 9, 5, 6, 1, 13, 14, 0, 11, 3, 8,
      9, 14, 15, 5, 2, 8, 12, 3, 7, 0, 4, 10, 1, 13, 11, 6, 4, 3, 2, 12, 9, 5, 15, 10, 11, 14, 1, 7, 6, 0, 8, 13],
     [4, 11, 2, 14, 15, 0, 8, 13, 3, 12, 9, 7, 5, 10, 6, 1, 13, 0, 11, 7, 4, 9, 1, 10, 14, 3, 5, 12, 2, 15, 8, 6,
      1, 4, 11, 13, 12, 3, 7, 14, 10, 15, 6, 8, 0, 5, 9, 2, 6, 11, 13, 8, 1, 4, 10, 7, 9, 5, 0, 15, 14, 2, 3, 12],
     [13, 2, 8, 4, 6, 15, 11, 1, 10, 9, 3, 14, 5, 0, 12, 7, 1, 15, 13, 8, 10, 3, 7, 4, 12, 5, 6, 11, 0, 14, 9, 2,
      7, 11, 4, 1, 9, 12, 14, 2, 0, 6, 10, 13, 15, 3, 5, 8, 2, 1, 14, 7, 4, 10, 8, 13, 15, 12, 9, 0, 3, 5, 6, 11]]"

section \<open>Cipher\<close>

definition bits_nat :: "bool list \<Rightarrow> nat" where
  "bits_nat bs = foldl (\<lambda>n b. 2 * n + (if b then 1 else 0)) 0 bs"

definition nibble :: "nat \<Rightarrow> bool list" where
  "nibble n = [n div 8 mod 2 = 1, n div 4 mod 2 = 1, n div 2 mod 2 = 1, n mod 2 = 1]"

text \<open>Six bits through a box: the outer two are the row.\<close>

definition sbox :: "nat list \<Rightarrow> bool list \<Rightarrow> bool list" where
  "sbox box bs = nibble (box ! (16 * bits_nat [bs ! 0, bs ! 5] + bits_nat (take 4 (drop 1 bs))))"

definition des_f :: "bool list \<Rightarrow> bool list \<Rightarrow> bool list" where
  "des_f r k = permute round_perm (concat (map2 sbox sboxes (chunks 6 (xor_bits (permute expansion r) k))))"

fun subkeys :: "nat list \<Rightarrow> bool list \<Rightarrow> bool list \<Rightarrow> bool list list" where
  "subkeys [] c d = []"
| "subkeys (n # ns) c d = permute key_perm2 (rotate n c @ rotate n d) # subkeys ns (rotate n c) (rotate n d)"

definition des_keys :: "bool list \<Rightarrow> bool list list" where
  "des_keys key = (let k = permute key_perm1 key in subkeys key_shifts (take 28 k) (drop 28 k))"

fun feistel :: "bool list list \<Rightarrow> bool list \<times> bool list \<Rightarrow> bool list \<times> bool list" where
  "feistel [] lr = lr"
| "feistel (k # ks) lr = feistel ks (snd lr, xor_bits (fst lr) (des_f (snd lr) k))"

definition des_crypt :: "bool list list \<Rightarrow> bool list \<Rightarrow> bool list" where
  "des_crypt ks block =
     (let p = permute initial_perm block; (l, r) = feistel ks (take 32 p, drop 32 p)
      in permute final_perm (r @ l))"

text \<open>\<open>block.Encrypt\<close> and \<open>block.Decrypt\<close> of \<open>des.NewCipher(key)\<close>\<close>

definition des_encrypt :: "bytes \<Rightarrow> bytes \<Rightarrow> bytes" where
  "des_encrypt key block = of_bits (des_crypt (des_keys (to_bits key)) (to_bits block))"

definition des_decrypt :: "bytes \<Rightarrow> bytes \<Rightarrow> bytes" where
  "des_decrypt key block = of_bits (des_crypt (rev (des_keys (to_bits key))) (to_bits block))"

lemma des_vector:
  "des_encrypt [0x13, 0x34, 0x57, 0x79, 0x9B, 0xBC, 0xDF, 0xF1] [0x01, 0x23, 0x45, 0x67, 0x89, 0xAB, 0xCD, 0xEF]
     = [0x85, 0xE8, 0x13, 0x54, 0x0F, 0x0A, 0xB4, 0x05]"
  by code_simp

section \<open>Decryption inverts encryption\<close>

lemma length_permute [simp]: "length (permute tab xs) = length tab"
  by (simp add: permute_def)

lemma length_perms [simp]:
  "length initial_perm = 64" "length final_perm = 64" "length round_perm = 32"
  by (simp_all add: initial_perm_def final_perm_def round_perm_def)

lemma length_des_f [simp]: "length (des_f r k) = 32"
  by (simp add: des_f_def)

lemma length_xor_bits [simp]: "length (xor_bits xs ys) = min (length xs) (length ys)"
  by (simp add: xor_bits_def)

lemma xor_bits_cancel: "length xs = length ys \<Longrightarrow> xor_bits (xor_bits xs ys) ys = xs"
  by (induction xs ys rule: list_induct2) (auto simp: xor_bits_def)

lemma permute_inverse:
  assumes "length xs = 64"
  shows "permute final_perm (permute initial_perm xs) = xs" "permute initial_perm (permute final_perm xs) = xs"
proof -
  have *: "permute t (permute u xs) = xs"
    if "map (\<lambda>i. u ! (i - 1) - 1) t = [0..<64]" "\<forall>i\<in>set t. i - 1 < length u" for t u
  proof -
    have "permute t (permute u xs) = map (\<lambda>i. xs ! (u ! (i - 1) - 1)) t"
      using that(2) by (auto simp: permute_def)
    also have "\<dots> = map ((!) xs) (map (\<lambda>i. u ! (i - 1) - 1) t)" by simp
    also have "\<dots> = xs" unfolding that(1) using assms by (metis map_nth)
    finally show ?thesis .
  qed
  show "permute final_perm (permute initial_perm xs) = xs"
    by (rule *) (simp_all add: initial_perm_def final_perm_def upt_rec)
  show "permute initial_perm (permute final_perm xs) = xs"
    by (rule *) (simp_all add: initial_perm_def final_perm_def upt_rec)
qed

lemma feistel_append: "feistel (ks @ ls) lr = feistel ls (feistel ks lr)"
  by (induction ks arbitrary: lr) auto

lemma length_feistel:
  "\<lbrakk>length l = 32; length r = 32; feistel ks (l, r) = (l', r')\<rbrakk> \<Longrightarrow> length l' = 32 \<and> length r' = 32"
proof (induction ks arbitrary: l r)
  case (Cons k ks)
  show ?case by (rule Cons.IH[of r "xor_bits l (des_f r k)"]) (use Cons.prems in simp_all)
qed auto

lemma feistel_rev:
  "\<lbrakk>length l = 32; length r = 32; feistel ks (l, r) = (l', r')\<rbrakk> \<Longrightarrow> feistel (rev ks) (r', l') = (r, l)"
proof (induction ks arbitrary: l r)
  case (Cons k ks)
  have "feistel (rev ks) (r', l') = (xor_bits l (des_f r k), r)"
    using Cons.prems by (intro Cons.IH) simp_all
  then show ?case using Cons.prems(1) by (simp add: feistel_append xor_bits_cancel)
qed simp

lemma length_des_crypt [simp]: "length (des_crypt ks b) = 64"
  by (simp add: des_crypt_def Let_def split: prod.split)

lemma des_crypt_inverse:
  assumes "length b = 64"
  shows "des_crypt (rev ks) (des_crypt ks b) = b"
proof -
  define p where "p = permute initial_perm b"
  obtain l r where f: "feistel ks (take 32 p, drop 32 p) = (l, r)" by force
  have len: "length p = 64" by (simp add: p_def)
  have lr: "length l = 32" "length r = 32" using length_feistel[OF _ _ f] len by simp_all
  have "des_crypt ks b = permute final_perm (r @ l)" using f by (simp add: des_crypt_def p_def)
  moreover have "feistel (rev ks) (r, l) = (drop 32 p, take 32 p)"
    using f len by (intro feistel_rev) simp_all
  ultimately show ?thesis
    using lr permute_inverse(1)[OF assms] by (simp add: des_crypt_def permute_inverse(2) p_def)
qed

lemma length_to_bits [simp]: "length (to_bits xs) = 8 * length xs"
  by (induction xs) (simp_all add: to_bits_def byte_bits_def)

lemma nth_byte_bits: "i < 8 \<Longrightarrow> byte_bits b ! i = bit b (7 - i)"
  by (simp add: byte_bits_def)

lemma length_byte_bits [simp]: "length (byte_bits b) = 8"
  by (simp add: byte_bits_def)

lemma bit_bits_byte: "\<lbrakk>length bs = 8; i < 8\<rbrakk> \<Longrightarrow> bit (bits_byte bs) i = bs ! (7 - i)"
  by (auto simp: bits_byte_def bit_horner_sum_bit_iff rev_nth)

lemma bits_byte_bits: "bits_byte (byte_bits b) = b"
  by (rule bit_word_eqI) (simp add: bit_bits_byte nth_byte_bits)

lemma byte_bits_byte: "length bs = 8 \<Longrightarrow> byte_bits (bits_byte bs) = bs"
  by (rule nth_equalityI) (simp_all add: nth_byte_bits bit_bits_byte)

lemma chunks_append: "\<lbrakk>length xs = n; 0 < n\<rbrakk> \<Longrightarrow> chunks n (xs @ ys) = xs # chunks n ys"
  by (cases xs) auto

lemma of_to_bits: "of_bits (to_bits xs) = xs"
proof (induction xs)
  case (Cons x xs)
  then show ?case by (simp add: of_bits_def to_bits_def chunks_append bits_byte_bits)
qed (simp add: of_bits_def to_bits_def)

lemma to_of_bits: "length bs = 8 * n \<Longrightarrow> to_bits (of_bits bs) = bs \<and> length (of_bits bs) = n"
proof (induction n arbitrary: bs)
  case (Suc n)
  obtain xs ys where bs: "bs = xs @ ys" "length xs = 8" "length ys = 8 * n"
    using Suc.prems that[of "take 8 bs" "drop 8 bs"] by simp
  then show ?case using Suc.IH[of ys]
    by (simp add: of_bits_def to_bits_def chunks_append byte_bits_byte)
qed (simp add: of_bits_def to_bits_def)

lemma length_des_encrypt [simp]: "length (des_encrypt key block) = 8"
  using to_of_bits[of "des_crypt (des_keys (to_bits key)) (to_bits block)" 8] by (simp add: des_encrypt_def)

lemma des_decrypt_encrypt: "length block = 8 \<Longrightarrow> des_decrypt key (des_encrypt key block) = block"
  by (simp add: des_decrypt_def des_encrypt_def to_of_bits[where n = 8, THEN conjunct1] des_crypt_inverse of_to_bits)

end
