(* ===== verification/Rfb.thy ===== *)
theory Rfb
  imports Vnc Des
begin

text \<open>
  The VNC bridge, \<open>src/internal/vnc/bridge.go\<close>: one TCP connection to the VNC server of a BMC, shared by
  the WebSocket viewers of a session.

  The TCP connection is a \<open>Conn\<close> and a viewer's WebSocket a \<open>WsConn\<close>, as in the iKVM client and server; the
  bridge carries the sockets of its viewers, which \<open>clients\<close> names by number. The function \<open>hasCtrl\<close> that the
  Go map keeps beside a socket is never called, so the keys are the map. Dialling is a parameter. The reading
  loop of a viewer, the broadcast loop and the handlers interleave; one iteration of a loop is one step.
  \<^term>\<open>None\<close> is a panic. Deadlines on the writes to viewers are part of the outcome of a write; log output is
  left out.
\<close>

section \<open>The TCP connection\<close>

definition tcp_write :: "bytes \<Rightarrow> Conn \<Rightarrow> bool \<times> Conn" where
  "tcp_write bs cn =
     (let bad = (cn_closed cn \<or> cn_fail cn (cn_writes cn))
      in (\<not> bad, cn\<lparr>cn_writes := cn_writes cn + 1, cn_out := (if bad then cn_out cn else cn_out cn @ bs)\<rparr>))"

text \<open>\<open>io.ReadFull\<close> into a fresh buffer of \<open>n\<close> bytes: with its error looked at, and with its error dropped, when
  the buffer keeps its zeros where nothing was read.\<close>

definition tcp_full :: "nat \<Rightarrow> Conn \<Rightarrow> bytes option \<times> Conn" where
  "tcp_full n cn =
     (if length (cn_in cn) < n then None else Some (take n (cn_in cn)), cn\<lparr>cn_in := drop n (cn_in cn)\<rparr>)"

definition tcp_fill :: "nat \<Rightarrow> Conn \<Rightarrow> bytes \<times> Conn" where
  "tcp_fill n cn =
     (take n (cn_in cn) @ replicate (n - length (cn_in cn)) 0, cn\<lparr>cn_in := drop n (cn_in cn)\<rparr>)"

definition tcp_close :: "Conn \<Rightarrow> Conn" where
  "tcp_close cn = cn\<lparr>cn_closed := True, cn_in := []\<rparr>"

text \<open>\<open>ws.Close\<close>: nothing more is delivered and every write fails.\<close>

definition ws_close :: "WsConn \<Rightarrow> WsConn" where
  "ws_close ws = ws\<lparr>ws_in := [], ws_fail := (\<lambda>_. True)\<rparr>"

section \<open>State\<close>

record VBridge =
  vb_target :: string
  vb_password :: string
  vb_conn :: "Conn option"
  vb_serverInit :: bytes
  vb_FilterEncodings :: bool
  vb_RewriteName :: bool
  vb_running :: bool
  vb_broadcasting :: bool
  vb_clients :: "nat list"
  vb_ws :: "nat \<Rightarrow> WsConn"

datatype vnc_error =
    VDial
  | VRead string
  | VWrite string
  | VRejected bytes
  | VNoAuthType
  | VAuthFailed u32
  | VHandshake vnc_error
  | VReconnect vnc_error
  | VNotRunning
  | VClientHandshake

definition NewVNCBridge :: "string \<Rightarrow> string \<Rightarrow> (nat \<Rightarrow> WsConn) \<Rightarrow> VBridge" where
  "NewVNCBridge target password ws = \<lparr>vb_target = target, vb_password = password, vb_conn = None,
     vb_serverInit = [], vb_FilterEncodings = False, vb_RewriteName = False, vb_running = False,
     vb_broadcasting = False, vb_clients = [], vb_ws = ws\<rparr>"

section \<open>Authentication\<close>

definition reverseBits :: "u8 \<Rightarrow> u8" where
  "reverseBits b = fst (fold (\<lambda>_ (r, b). (push_bit 1 r OR (b AND 1), drop_bit 1 b)) [0..<8::nat] (0, b))"

definition vncEncrypt :: "bytes \<Rightarrow> string \<Rightarrow> bytes option" where
  "vncEncrypt challenge password = do {
     let key = map reverseBits (go_copy (replicate 8 0) (str_bytes password));
     a \<leftarrow> go_slice challenge 0 8;
     b \<leftarrow> go_slice challenge 8 16;
     Some (des_encrypt key a @ des_encrypt key b)
   }"

definition rfb_version :: bytes where
  "rfb_version = str_bytes (''RFB 003.008'' @ [CHR 0x0A])"

text \<open>The loop over the offered types: VNC authentication if it is offered, else no authentication.\<close>

fun choose_type :: "bytes \<Rightarrow> u8 \<Rightarrow> u8" where
  "choose_type [] chosen = chosen"
| "choose_type (t # ts) chosen = (if t = 2 then 2 else choose_type ts (if t = 1 then 1 else chosen))"

text \<open>\<open>binary.BigEndian.Uint32(xs[i:i+4])\<close>\<close>

definition be32_at :: "nat \<Rightarrow> bytes \<Rightarrow> u32" where
  "be32_at i xs = get_be32 (xs ! i) (xs ! (i + 1)) (xs ! (i + 2)) (xs ! (i + 3))"

text \<open>The end of \<open>bmcHandshake\<close>. The length \<open>24+nameLen\<close> is a sum of \<open>uint32\<close>; \<open>b.serverInit[24:]\<close> panics when it has
  wrapped.\<close>

definition read_server_init :: "Conn \<Rightarrow> (bytes \<times> Conn) option" where
  "read_server_init cn = do {
     let (header, cn) = tcp_fill 24 cn;
     let nameLen = be32_at 20 header;
     let (name, cn) = (if nameLen > 0 then tcp_fill (unat nameLen) cn else ([], cn));
     let si = go_copy (replicate (unat (24 + nameLen)) 0) header;
     tl \<leftarrow> go_slice si 24 (int (length si));
     Some (take 24 si @ go_copy tl name, cn)
   }"

definition bmcHandshake :: "string \<Rightarrow> Conn \<Rightarrow> ((vnc_error + bytes) \<times> Conn) option" where
  "bmcHandshake password cn =
     (case tcp_full 12 cn of
        (None, cn) \<Rightarrow> Some (Inl (VRead ''version''), cn)
      | (Some ver, cn) \<Rightarrow>
     (case tcp_write rfb_version cn of
        (False, cn) \<Rightarrow> Some (Inl (VWrite ''version''), cn)
      | (True, cn) \<Rightarrow>
     (case tcp_full 1 cn of
        (None, cn) \<Rightarrow> Some (Inl (VRead ''types''), cn)
      | (Some numTypes, cn) \<Rightarrow>
          if numTypes ! 0 = 0 then
            (let (lenBuf, cn) = tcp_fill 4 cn;
                 (reason, cn) = tcp_fill (unat (be32_at 0 lenBuf)) cn
             in Some (Inl (VRejected reason), cn))
          else do {
            let (types, cn) = tcp_fill (unat (numTypes ! 0)) cn;
            let chosen = choose_type types 0;
            if chosen = 0 then Some (Inl VNoAuthType, cn)
            else do {
              let (_, cn) = tcp_write [chosen] cn;
              cn \<leftarrow> (if chosen = 2 then do {
                       let (challenge, cn) = tcp_fill 16 cn;
                       resp \<leftarrow> vncEncrypt challenge password;
                       Some (snd (tcp_write resp cn))
                     } else Some cn);
              let (result, cn) = tcp_fill 4 cn;
              if be32_at 0 result \<noteq> 0 then Some (Inl (VAuthFailed (be32_at 0 result)), cn)
              else do {
                let (_, cn) = tcp_write [1] cn;
                (si, cn) \<leftarrow> read_server_init cn;
                Some (Inr si, cn)
              }
            }
          })))"

section \<open>The bridge\<close>

definition vb_Start :: "(string \<Rightarrow> Conn option) \<Rightarrow> VBridge \<Rightarrow> (vnc_error option \<times> VBridge) option" where
  "vb_Start dial b =
     (if vb_running b then Some (None, b)
      else case dial (vb_target b) of
        None \<Rightarrow> Some (Some VDial, b)
      | Some cn \<Rightarrow> do {
          (r, cn) \<leftarrow> bmcHandshake (vb_password b) cn;
          case r of
            Inl e \<Rightarrow> Some (Some (VHandshake e), b)
          | Inr si \<Rightarrow> Some (None, b\<lparr>vb_serverInit := si, vb_conn := Some cn, vb_running := True\<rparr>)
        })"

definition vb_Stop :: "VBridge \<Rightarrow> VBridge" where
  "vb_Stop b =
     (if \<not> vb_running b then b
      else b\<lparr>vb_running := False, vb_conn := map_option tcp_close (vb_conn b),
             vb_ws := (\<lambda>i. if i \<in> set (vb_clients b) then ws_close (vb_ws b i) else vb_ws b i),
             vb_clients := []\<rparr>)"

definition vb_clientCount :: "VBridge \<Rightarrow> nat" where
  "vb_clientCount b = length (vb_clients b)"

definition amt_name :: bytes where
  "amt_name = str_bytes ''Intel(r) AMT KVM''"

text \<open>The \<open>ServerInit\<close> for a viewer.\<close>

definition client_server_init :: "VBridge \<Rightarrow> bytes option" where
  "client_server_init b =
     (if vb_RewriteName b then do {
        h \<leftarrow> go_slice (vb_serverInit b) 0 24;
        Some (take 20 h @ be32 (of_nat (length amt_name)) @ amt_name)
      }
      else Some (vb_serverInit b))"

text \<open>A round of the handshake: the error of the write is dropped.\<close>

definition ch_round :: "bytes \<Rightarrow> WsConn \<Rightarrow> bool \<times> WsConn" where
  "ch_round m ws = (case ReadMessage (snd (WriteMessage m ws)) of (r, ws) \<Rightarrow> (r \<noteq> None, ws))"

definition clientHandshake :: "VBridge \<Rightarrow> WsConn \<Rightarrow> (bool \<times> WsConn) option" where
  "clientHandshake b ws =
     (case ch_round rfb_version ws of
        (False, ws) \<Rightarrow> Some (False, ws)
      | (True, ws) \<Rightarrow>
     (case ch_round [1, 1] ws of
        (False, ws) \<Rightarrow> Some (False, ws)
      | (True, ws) \<Rightarrow>
     (case ch_round [0, 0, 0, 0] ws of
        (False, ws) \<Rightarrow> Some (False, ws)
      | (True, ws) \<Rightarrow> do {
          si \<leftarrow> client_server_init b;
          Some (True, snd (WriteMessage si ws))
        })))"

text \<open>The liveness probe, a read of one byte within a millisecond: nothing arrives, a byte is read (and dropped) or
  the connection is lost. The deadline also ends a read of the broadcast loop that is under way (\<open>hit\<close>), and
  the loop with it.\<close>

datatype probe = ProbeTimeout bool | ProbeByte | ProbeLost

definition probe_possible :: "probe \<Rightarrow> VBridge \<Rightarrow> bool" where
  "probe_possible p b =
     (case vb_conn b of
        None \<Rightarrow> True
      | Some cn \<Rightarrow> (case p of ProbeTimeout _ \<Rightarrow> True | ProbeByte \<Rightarrow> cn_in cn \<noteq> [] | ProbeLost \<Rightarrow> cn_in cn = []))"

definition probe_bmc :: "probe \<Rightarrow> (string \<Rightarrow> Conn option) \<Rightarrow> VBridge \<Rightarrow> (vnc_error option \<times> VBridge) option" where
  "probe_bmc p dial b =
     (case vb_conn b of
        None \<Rightarrow> None
      | Some cn \<Rightarrow>
          (case p of
             ProbeTimeout hit \<Rightarrow> Some (None, b\<lparr>vb_broadcasting := vb_broadcasting b \<and> \<not> hit\<rparr>)
           | ProbeByte \<Rightarrow> Some (None, b\<lparr>vb_conn := Some (cn\<lparr>cn_in := drop 1 (cn_in cn)\<rparr>)\<rparr>)
           | ProbeLost \<Rightarrow> do {
               (e, b) \<leftarrow> vb_Start dial (b\<lparr>vb_conn := Some (tcp_close cn), vb_running := False\<rparr>);
               Some (map_option VReconnect e, b)
             }))"

definition ensureBroadcast :: "VBridge \<Rightarrow> VBridge" where
  "ensureBroadcast b = b\<lparr>vb_broadcasting := True\<rparr>"

text \<open>\<open>ServeWebSocketWithControl\<close> for the viewer on socket \<open>i\<close>, up to the loop that reads its input. \<open>vb_leave\<close> is the
  deferred end.\<close>

definition vb_serve ::
  "probe \<Rightarrow> (string \<Rightarrow> Conn option) \<Rightarrow> nat \<Rightarrow> VBridge \<Rightarrow> (vnc_error option \<times> VBridge) option" where
  "vb_serve p dial i b =
     (if \<not> vb_running b then Some (Some VNotRunning, b)
      else do {
        (e, b) \<leftarrow> (if vb_clientCount b = 0 then probe_bmc p dial b else Some (None, b));
        case e of
          Some e \<Rightarrow> Some (Some e, b)
        | None \<Rightarrow> do {
            (ok, ws) \<leftarrow> clientHandshake b (vb_ws b i);
            let b = b\<lparr>vb_ws := (vb_ws b)(i := ws)\<rparr>;
            if \<not> ok then Some (Some VClientHandshake, b)
            else Some (None, ensureBroadcast (b\<lparr>vb_clients := List.insert i (vb_clients b)\<rparr>))
          }
      })"

definition vb_leave :: "nat \<Rightarrow> VBridge \<Rightarrow> VBridge" where
  "vb_leave i b = b\<lparr>vb_clients := remove1 i (vb_clients b)\<rparr>"

definition broadcastToAll :: "bytes \<Rightarrow> VBridge \<Rightarrow> VBridge" where
  "broadcastToAll data b =
     b\<lparr>vb_ws := (\<lambda>i. if i \<in> set (vb_clients b) then snd (WriteMessage data (vb_ws b i)) else vb_ws b i)\<rparr>"

text \<open>One iteration of \<open>runBroadcast\<close> when \<open>Read\<close> returns at most \<open>k\<close> bytes. When the loop ends, \<open>broadcasting\<close> is
  reset, and the error it returns is dropped.\<close>

definition broadcast_round :: "nat \<Rightarrow> VBridge \<Rightarrow> VBridge option" where
  "broadcast_round k b =
     (if \<not> vb_running b then Some (b\<lparr>vb_broadcasting := False\<rparr>)
      else case vb_conn b of
        None \<Rightarrow> None
      | Some cn \<Rightarrow>
          if cn_in cn = [] then Some (b\<lparr>vb_broadcasting := False\<rparr>)
          else (let n = min (max 1 k) 262144 in
                Some (broadcastToAll (take n (cn_in cn)) (b\<lparr>vb_conn := Some (cn\<lparr>cn_in := drop n (cn_in cn)\<rparr>)\<rparr>))))"

section \<open>Input\<close>

definition supported_encodings :: "u32 list" where
  "supported_encodings = [0, 1, - 223]"

definition rewriteSetEncodings :: bytes where
  "rewriteSetEncodings =
     [2, 0] @ be16 (of_nat (length supported_encodings)) @ concat (map be32 supported_encodings)"

text \<open>What is written to the BMC for a message: \<open>allowed\<close> is the answer of \<open>inputAllowed\<close>, true without that
  function.\<close>

definition input_gate :: "bool \<Rightarrow> bool \<Rightarrow> bytes \<Rightarrow> bytes option" where
  "input_gate filterEncodings allowed data =
     (if data = [] then None
      else if (data ! 0 = 4 \<or> data ! 0 = 5) \<and> \<not> allowed then None
      else if filterEncodings \<and> data ! 0 = 2 \<and> length data \<ge> 4 then Some rewriteSetEncodings
      else Some data)"

text \<open>One iteration of \<open>readClientInput\<close>, with the error it returns, if it does.\<close>

definition client_input :: "bool \<Rightarrow> nat \<Rightarrow> VBridge \<Rightarrow> (vnc_error option \<times> VBridge) option" where
  "client_input allowed i b =
     (case ReadMessage (vb_ws b i) of
        (None, ws) \<Rightarrow> Some (Some (VRead ''WS''), vb_leave i (b\<lparr>vb_ws := (vb_ws b)(i := ws)\<rparr>))
      | (Some data, ws) \<Rightarrow>
          (let b = b\<lparr>vb_ws := (vb_ws b)(i := ws)\<rparr> in
           case input_gate (vb_FilterEncodings b) allowed data of
             None \<Rightarrow> Some (None, b)
           | Some data \<Rightarrow>
               (case vb_conn b of
                  None \<Rightarrow> None
                | Some cn \<Rightarrow>
                    (let (ok, cn) = tcp_write data cn; b = b\<lparr>vb_conn := Some cn\<rparr>
                     in Some (if ok then (None, b) else (Some (VWrite ''BMC''), vb_leave i b))))))"

text \<open>\<open>readClientInput\<close> on its own: each message with the answer of \<open>inputAllowed\<close> at its time.\<close>

fun readClientInput :: "bool \<Rightarrow> (bytes \<times> bool) list \<Rightarrow> Conn \<Rightarrow> vnc_error \<times> Conn" where
  "readClientInput flt [] cn = (VRead ''WS'', cn)"
| "readClientInput flt ((data, allowed) # ms) cn =
     (case input_gate flt allowed data of
        None \<Rightarrow> readClientInput flt ms cn
      | Some data \<Rightarrow>
          (case tcp_write data cn of
             (True, cn) \<Rightarrow> readClientInput flt ms cn
           | (False, cn) \<Rightarrow> (VWrite ''BMC'', cn)))"

section \<open>States of a bridge\<close>

inductive vbridge_state :: "VBridge \<Rightarrow> bool" where
  new: "vbridge_state ((NewVNCBridge t p ws)\<lparr>vb_FilterEncodings := f, vb_RewriteName := r\<rparr>)"
| start: "\<lbrakk>vbridge_state b; vb_Start dial b = Some (e, b')\<rbrakk> \<Longrightarrow> vbridge_state b'"
| serve: "\<lbrakk>vbridge_state b; probe_possible p b; vb_serve p dial i b = Some (e, b')\<rbrakk> \<Longrightarrow> vbridge_state b'"
| input: "\<lbrakk>vbridge_state b; i \<in> set (vb_clients b); client_input a i b = Some (e, b')\<rbrakk> \<Longrightarrow> vbridge_state b'"
| broadcast: "\<lbrakk>vbridge_state b; vb_broadcasting b; broadcast_round k b = Some b'\<rbrakk> \<Longrightarrow> vbridge_state b'"
| stop: "vbridge_state b \<Longrightarrow> vbridge_state (vb_Stop b)"

section \<open>The key of VNC authentication\<close>

lemma bit_shift_in: "bit (push_bit 1 r OR (c AND 1) :: u8) i \<longleftrightarrow> (if i = 0 then bit c 0 else i < 8 \<and> bit r (i - 1))"
  by (cases i) (auto simp: bit_or_iff bit_and_iff bit_push_bit_iff bit_1_iff possible_bit_def simp del: push_bit_of_Suc_0 One_nat_def
      dest: bit_imp_le_length)

lemma fold_reverse:
  fixes b :: u8
  shows "case fold (\<lambda>_ (r, b). (push_bit 1 r OR (b AND 1), drop_bit 1 b)) [0..<n] (0, b) of
           (r, c) \<Rightarrow> c = drop_bit n b \<and> (\<forall>i<8. bit r i \<longleftrightarrow> i < n \<and> bit b (n - 1 - i))"
proof (induction n)
  case (Suc n)
  obtain r c where f: "fold (\<lambda>_ (r, b). (push_bit 1 r OR (b AND 1), drop_bit 1 b)) [0..<n] (0, b) = (r, c)" by force
  then have IH: "c = drop_bit n b" "\<forall>i<8. bit r i \<longleftrightarrow> i < n \<and> bit b (n - 1 - i)" using Suc.IH by auto
  have "bit (push_bit 1 r OR (c AND 1)) i \<longleftrightarrow> i < Suc n \<and> bit b (Suc n - 1 - i)" if "i < 8" for i
    unfolding bit_shift_in using that IH by (cases i) (auto simp: bit_drop_bit_eq)
  then show ?case using f IH by (simp add: drop_bit_drop_bit del: push_bit_of_Suc_0 One_nat_def) (simp add: drop_bit_Suc)
qed simp

lemma bit_reverseBits: "bit (reverseBits b) i \<longleftrightarrow> i < 8 \<and> bit b (7 - i)"
proof (cases "i < 8")
  case True
  then show ?thesis using fold_reverse[where n = 8 and b = b] by (auto simp: reverseBits_def split: prod.split_asm)
qed (simp add: bit_byte_high)

lemma reverseBits_reverseBits: "reverseBits (reverseBits b) = b"
  by (rule bit_word_eqI) (auto simp: bit_reverseBits)

lemma vncEncrypt_defined:
  assumes "length challenge = 16"
  obtains resp where "vncEncrypt challenge password = Some resp" "length resp = 16"
  using assms by (auto simp: vncEncrypt_def go_slice_def Let_def)

text \<open>Only the first eight characters of a password count.\<close>

lemma vncEncrypt_take: "vncEncrypt challenge (take 8 password) = vncEncrypt challenge password"
  by (simp add: vncEncrypt_def go_copy_def str_bytes_def take_map min_def)

text \<open>The response to a VNC challenge is the DES encryption of its two halves under the mirrored password: who
  knows the password can decrypt the response and finds the challenge.\<close>

theorem vnc_response_decrypts:
  assumes "vncEncrypt challenge password = Some resp" "length challenge = 16"
  defines "key \<equiv> map reverseBits (take 8 (str_bytes password @ replicate 8 0))"
  shows "des_decrypt key (take 8 resp) @ des_decrypt key (drop 8 resp) = challenge
     \<and> (\<forall>b i. bit (reverseBits b) i \<longleftrightarrow> i < 8 \<and> bit b (7 - i))"
proof -
  have key: "map reverseBits (go_copy (replicate 8 0) (str_bytes password)) = key"
    by (simp add: key_def go_copy_def take_replicate min_def)
  have "resp = des_encrypt key (take 8 challenge) @ des_encrypt key (drop 8 challenge)"
    using assms(1,2) unfolding vncEncrypt_def key by (auto simp: go_slice_def)
  then show ?thesis using assms(2) by (simp add: des_decrypt_encrypt bit_reverseBits)
qed

section \<open>Connecting\<close>

lemma choose_type_eq: "choose_type ts c = (if 2 \<in> set ts then 2 else if 1 \<in> set ts then 1 else c)"
  by (induction ts c rule: choose_type.induct) auto

lemma tcp_fill_whole: "\<lbrakk>cn_in cn = xs @ ys; length xs = n\<rbrakk> \<Longrightarrow> tcp_fill n cn = (xs, cn\<lparr>cn_in := ys\<rparr>)"
  by (simp add: tcp_fill_def)

lemma tcp_full_whole: "\<lbrakk>cn_in cn = xs @ ys; length xs = n\<rbrakk> \<Longrightarrow> tcp_full n cn = (Some xs, cn\<lparr>cn_in := ys\<rparr>)"
  by (simp add: tcp_full_def)

lemma tcp_full_one: "cn_in cn = x # ys \<Longrightarrow> tcp_full (Suc 0) cn = (Some [x], cn\<lparr>cn_in := ys\<rparr>)"
  by (simp add: tcp_full_def)

lemma tcp_fill_four: "cn_in cn = a # b # c # d # ys \<Longrightarrow> tcp_fill 4 cn = ([a, b, c, d], cn\<lparr>cn_in := ys\<rparr>)"
  by (simp add: tcp_fill_def)

lemma tcp_fill_length: "tcp_fill n cn = (xs, cn') \<Longrightarrow> length xs = n"
  by (auto simp: tcp_fill_def)

text \<open>A connection whose writes succeed.\<close>

definition tcp_ok :: "Conn \<Rightarrow> bool" where
  "tcp_ok cn \<longleftrightarrow> \<not> cn_closed cn \<and> (\<forall>k. \<not> cn_fail cn k)"

lemma tcp_ok_write: "tcp_ok cn \<Longrightarrow> tcp_write bs cn = (True, cn\<lparr>cn_writes := cn_writes cn + 1, cn_out := cn_out cn @ bs\<rparr>)"
  by (simp add: tcp_ok_def tcp_write_def)

lemma tcp_ok_update [simp]:
  "tcp_ok (cn\<lparr>cn_in := x\<rparr>) = tcp_ok cn" "tcp_ok (cn\<lparr>cn_out := x\<rparr>) = tcp_ok cn" "tcp_ok (cn\<lparr>cn_writes := n\<rparr>) = tcp_ok cn"
  by (simp_all add: tcp_ok_def)

text \<open>Reading \<open>ServerInit\<close>, by the length of the name that it announces.\<close>

lemma unat_u32_less: "unat (w :: u32) < 4294967296"
  using unsigned_less[of w] by simp

lemma name_length_wraps: "unat (24 + w :: u32) = (if unat w < 2 ^ 32 - 24 then 24 + unat w else 24 + unat w - 2 ^ 32)"
  using unat_u32_less[of w] by (auto simp: unat_word_ariths mod_if)

lemma read_server_init_ok:
  assumes "cn_in cn = hdr @ name @ rest" "length hdr = 24" "unat (be32_at 20 hdr) = length name"
    "length name < 2 ^ 32 - 24"
  shows "read_server_init cn = Some (hdr @ name, cn\<lparr>cn_in := rest\<rparr>)"
proof -
  have n: "(if be32_at 20 hdr > 0 then tcp_fill (unat (be32_at 20 hdr)) (cn\<lparr>cn_in := name @ rest\<rparr>) else ([], cn\<lparr>cn_in := name @ rest\<rparr>))
      = (name, cn\<lparr>cn_in := rest\<rparr>)"
  proof (cases "be32_at 20 hdr > 0")
    case True
    then show ?thesis using assms(3) by (simp add: tcp_fill_whole)
  next
    case False
    then have "be32_at 20 hdr = 0" by (simp add: word_gt_0)
    then show ?thesis using assms(3) by simp
  qed
  have h: "tcp_fill 24 cn = (hdr, cn\<lparr>cn_in := name @ rest\<rparr>)" using assms(1,2) by (simp add: tcp_fill_whole)
  have l: "unat (24 + be32_at 20 hdr) = 24 + length name" using assms(3,4) by (simp add: name_length_wraps)
  have c: "go_copy (replicate (24 + length name) 0) hdr = hdr @ replicate (length name) 0"
    using assms(2) by (simp add: go_copy_def)
  have c2: "go_copy (replicate (length name) 0) name = name" for z :: u8 by (simp add: go_copy_def)
  show ?thesis
    unfolding read_server_init_def Let_def h prod.case n l c
    using assms(2) by (simp add: go_slice_def c2)
qed

lemma read_server_init_panics:
  assumes "length hdr = 24" "tcp_fill 24 cn = (hdr, cn')" "2 ^ 32 - 24 \<le> unat (be32_at 20 hdr)"
  shows "read_server_init cn = None"
proof -
  have "unat (24 + be32_at 20 hdr) < 24" using assms(3) unat_u32_less[of "be32_at 20 hdr"] by (simp add: name_length_wraps)
  then have "int (unat (24 + be32_at 20 hdr)) < 24" by (simp only: of_nat_less_numeral_iff)
  then have "uint (24 + be32_at 20 hdr) < 24" by simp
  then show ?thesis
    unfolding read_server_init_def assms(2) Let_def prod.case
    by (simp add: go_slice_def split: prod.split)
qed

lemma read_server_init_length:
  assumes "read_server_init cn = Some (si, cn')"
  shows "24 \<le> length si"
  using assms unfolding read_server_init_def
  by (auto simp: go_slice_def Let_def elim!: bind_SomeE split: prod.split_asm if_split_asm)

text \<open>The types that lead to a handshake, and what is read and written for them.\<close>

definition auth_in :: "bytes \<Rightarrow> bytes \<Rightarrow> bytes" where
  "auth_in types challenge = (if 2 \<in> set types then challenge else [])"

definition auth_out :: "bytes \<Rightarrow> bytes \<Rightarrow> string \<Rightarrow> bytes" where
  "auth_out types challenge password =
     (if 2 \<in> set types then 2 # the (vncEncrypt challenge password) else [1])"

text \<open>C17: against a VNC server that follows the protocol, the bridge takes VNC authentication when it is offered
  and no authentication otherwise, sends exactly the version, the choice, the response to the challenge and
  the shared flag, and keeps the server's \<open>ServerInit\<close>; what the server sends after it stays to be read.\<close>

theorem bmcHandshake_ok:
  assumes "cn_in cn = ver @ [n] @ types @ auth_in types challenge @ [0, 0, 0, 0] @ hdr @ name @ rest"
    and "length ver = 12" "length types = unat n" "n \<noteq> 0" "1 \<in> set types \<or> 2 \<in> set types" "length challenge = 16"
    and "length hdr = 24" "unat (be32_at 20 hdr) = length name" "length name < 2 ^ 32 - 24" "tcp_ok cn"
  shows "\<exists>cn'. bmcHandshake password cn = Some (Inr (hdr @ name), cn') \<and> cn_in cn' = rest \<and> tcp_ok cn'
     \<and> cn_out cn' = cn_out cn @ rfb_version @ auth_out types challenge password @ [1]"
proof -
  obtain resp where resp: "vncEncrypt challenge password = Some resp" using vncEncrypt_defined[OF assms(6)] by blast
  have z: "be32_at 0 [0, 0, 0, 0] = 0" by (simp add: be32_at_def get_be32_def get_le32_def)
  note step = tcp_full_one tcp_fill_four tcp_full_whole tcp_fill_whole tcp_ok_write tcp_ok_update
  show ?thesis
    using assms resp z
    by (auto simp: bmcHandshake_def Let_def step choose_type_eq auth_in_def auth_out_def
        read_server_init_ok[of _ hdr name rest])
qed

lemma tcp_write_in [simp]: "cn_in (snd (tcp_write bs cn)) = cn_in cn"
  by (simp add: tcp_write_def Let_def)

lemma tcp_fill_end: "cn_in cn = [] \<Longrightarrow> tcp_fill n cn = (replicate n 0, cn)"
  by (cases cn) (simp add: tcp_fill_def)

lemma be32_at_zeros: "i + 3 < n \<Longrightarrow> be32_at i (replicate n 0) = 0"
  by (simp add: be32_at_def get_be32_def get_le32_def)

lemma read_server_init_end: "cn_in cn = [] \<Longrightarrow> \<exists>cn'. read_server_init cn = Some (replicate 24 0, cn')"
  by (auto simp: read_server_init_def Let_def tcp_fill_end be32_at_zeros go_slice_def go_copy_def)

text \<open>Most read errors of the handshake are dropped. A server that sends its version and its list of types and
  then hangs up passes for one that accepts: the bridge starts without having seen a challenge or a result,
  and \<open>ServerInit\<close> is 24 zero bytes, a screen of no size.\<close>

theorem truncated_handshake_accepted:
  assumes "dial (vb_target b) = Some cn" "\<not> vb_running b"
    and "cn_in cn = ver @ n # types" "length ver = 12" "n \<noteq> 0" "length types \<le> unat n" "1 \<in> set types \<or> 2 \<in> set types"
    and "\<not> cn_closed cn" "\<not> cn_fail cn (cn_writes cn)"
  shows "\<exists>b'. vb_Start dial b = Some (None, b') \<and> vb_running b' \<and> vb_serverInit b' = replicate 24 0"
proof -
  have w: "tcp_write rfb_version c = (True, c\<lparr>cn_writes := cn_writes c + 1, cn_out := cn_out c @ rfb_version\<rparr>)"
    if "cn_closed c = cn_closed cn" "cn_fail c = cn_fail cn" "cn_writes c = cn_writes cn" for c
    using assms(8,9) that by (simp add: tcp_write_def)
  have f: "tcp_fill (unat n) c = (types @ replicate (unat n - length types) 0, c\<lparr>cn_in := []\<rparr>)" if "cn_in c = types" for c
    using that assms(6) by (simp add: tcp_fill_def)
  have ch: "choose_type (types @ replicate k 0) 0 \<noteq> 0" for k
    using assms(7) by (auto simp: choose_type_eq)
  have *: "\<exists>cn'. (do {
              cn \<leftarrow> (if chosen = 2 then do {
                       let (challenge, cn) = tcp_fill 16 c;
                       resp \<leftarrow> vncEncrypt challenge (vb_password b);
                       Some (snd (tcp_write resp cn))
                     } else Some c);
              let (result, cn) = tcp_fill 4 cn;
              if be32_at 0 result \<noteq> 0 then Some (Inl (VAuthFailed (be32_at 0 result)), cn)
              else do {
                let (_, cn) = tcp_write [1] cn;
                (si, cn) \<leftarrow> read_server_init cn;
                Some (Inr si, cn)
              }
            }) = Some (Inr (replicate 24 0), cn')" if c: "cn_in c = []" for c and chosen :: u8
  proof -
    obtain resp where r: "vncEncrypt (replicate 16 0) (vb_password b) = Some resp"
      using vncEncrypt_defined[of "replicate 16 0"] by auto
    show ?thesis
    proof (cases "chosen = 2")
      case True
      then show ?thesis
        using c r read_server_init_end[of "snd (tcp_write [1] (snd (tcp_write resp c)))"]
        by (auto simp: tcp_fill_end be32_at_zeros Let_def case_prod_unfold)
    next
      case False
      then show ?thesis
        using c read_server_init_end[of "snd (tcp_write [1] c)"]
        by (auto simp: tcp_fill_end be32_at_zeros Let_def case_prod_unfold)
    qed
  qed
  have "\<exists>cn'. bmcHandshake (vb_password b) cn = Some (Inr (replicate 24 0), cn')"
    using assms(3-5) ch *[of "snd (tcp_write [c] d)" for c d]
    by (auto simp: bmcHandshake_def tcp_full_whole tcp_full_one w f Let_def case_prod_unfold)
  then show ?thesis using assms(1,2) by (auto simp: vb_Start_def)
qed

section \<open>Invariant\<close>

text \<open>A running bridge has a connection and a \<open>ServerInit\<close> to replay; a broadcast loop has a connection to read.\<close>

definition vb_wf :: "VBridge \<Rightarrow> bool" where
  "vb_wf b \<longleftrightarrow> distinct (vb_clients b)
     \<and> (vb_running b \<longrightarrow> vb_conn b \<noteq> None \<and> 24 \<le> length (vb_serverInit b))
     \<and> (vb_clients b \<noteq> [] \<longrightarrow> vb_running b)
     \<and> (\<not> vb_running b \<longrightarrow> (\<forall>cn. vb_conn b = Some cn \<longrightarrow> cn_closed cn \<and> cn_in cn = []))"

lemma bmcHandshake_length: "bmcHandshake pw cn = Some (Inr si, cn') \<Longrightarrow> 24 \<le> length si"
  unfolding bmcHandshake_def
  by (auto simp: Let_def elim!: bind_SomeE dest!: read_server_init_length
      split: prod.split_asm option.split_asm if_split_asm bool.split_asm)

lemma vb_Start_wf: "\<lbrakk>vb_Start dial b = Some (e, b'); vb_wf b\<rbrakk> \<Longrightarrow> vb_wf b'"
  unfolding vb_Start_def
  by (auto simp: vb_wf_def elim!: bind_SomeE dest!: bmcHandshake_length split: if_split_asm option.split_asm sum.split_asm)

lemma vb_Stop_wf: "vb_wf b \<Longrightarrow> vb_wf (vb_Stop b)"
  by (auto simp: vb_Stop_def vb_wf_def tcp_close_def)

lemma probe_bmc_wf:
  assumes "probe_bmc p dial b = Some (e, b')" "vb_wf b" "vb_clients b = []" "vb_running b"
  shows "vb_wf b'" "e = None \<Longrightarrow> vb_running b'"
proof -
  have st: "vb_Start dial c = Some (x, c') \<Longrightarrow> x = None \<Longrightarrow> vb_running c'" for c x c'
    by (auto simp: vb_Start_def elim!: bind_SomeE split: if_split_asm option.split_asm sum.split_asm)
  have lost: "vb_wf (b\<lparr>vb_conn := Some (tcp_close cn), vb_running := False\<rparr>)" for cn
    using assms(2,3) by (auto simp: vb_wf_def tcp_close_def)
  show "vb_wf b'" using assms vb_Start_wf[OF _ lost]
    by (auto simp: probe_bmc_def vb_wf_def elim!: bind_SomeE split: option.split_asm probe.split_asm)
  show "vb_running b'" if "e = None" using assms st that
    by (auto simp: probe_bmc_def elim!: bind_SomeE split: option.split_asm probe.split_asm)
qed

lemma vb_serve_wf:
  assumes "vb_serve p dial i b = Some (e, b')" "vb_wf b"
  shows "vb_wf b'"
proof (cases "vb_running b")
  case True
  obtain e1 b1 where 1: "(if vb_clientCount b = 0 then probe_bmc p dial b else Some (None, b)) = Some (e1, b1)"
    using assms(1) True by (auto simp: vb_serve_def elim!: bind_SomeE)
  have wf: "vb_wf b1 \<and> (e1 = None \<longrightarrow> vb_running b1)"
    using 1 assms(2) True probe_bmc_wf by (auto simp: vb_clientCount_def split: if_split_asm)
  then show ?thesis
    using assms(1) True 1
    by (auto simp: vb_serve_def vb_wf_def ensureBroadcast_def Let_def elim!: bind_SomeE
        split: option.split_asm if_split_asm)
qed (use assms in \<open>auto simp: vb_serve_def\<close>)

lemma vb_leave_wf: "vb_wf b \<Longrightarrow> vb_wf (vb_leave i b)"
  by (cases "remove1 i (vb_clients b) = []") (auto simp: vb_leave_def vb_wf_def)

lemma vb_ws_wf [simp]: "vb_wf (b\<lparr>vb_ws := w\<rparr>) = vb_wf b"
  by (simp add: vb_wf_def)

lemma vb_conn_wf: "\<lbrakk>vb_wf b; vb_running b\<rbrakk> \<Longrightarrow> vb_wf (b\<lparr>vb_conn := Some cn\<rparr>)"
  by (simp add: vb_wf_def)

lemma client_input_wf:
  assumes "client_input a i b = Some (e, b')" "vb_wf b" "i \<in> set (vb_clients b)"
  shows "vb_wf b'"
proof -
  have "vb_running b" using assms(2,3) by (auto simp: vb_wf_def)
  then show ?thesis
    using assms(1,2)
    by (auto simp: client_input_def Let_def intro!: vb_leave_wf vb_conn_wf
        split: prod.split_asm option.split_asm if_split_asm)
qed

lemma broadcast_round_wf: "\<lbrakk>broadcast_round k b = Some b'; vb_wf b\<rbrakk> \<Longrightarrow> vb_wf b'"
  by (auto simp: broadcast_round_def broadcastToAll_def vb_wf_def Let_def split: if_split_asm option.split_asm)

lemma vbridge_state_wf: "vbridge_state b \<Longrightarrow> vb_wf b"
proof (induction rule: vbridge_state.induct)
  case (new t p ws f r)
  then show ?case by (simp add: vb_wf_def NewVNCBridge_def)
qed (blast intro: vb_Start_wf vb_serve_wf client_input_wf broadcast_round_wf vb_Stop_wf)+


lemma client_server_init_defined: "24 \<le> length (vb_serverInit b) \<Longrightarrow> client_server_init b \<noteq> None"
  by (simp add: client_server_init_def go_slice_def)

lemma clientHandshake_defined:
  assumes "24 \<le> length (vb_serverInit b)"
  shows "clientHandshake b ws \<noteq> None"
  using client_server_init_defined[OF assms] unfolding clientHandshake_def
  by (auto split: prod.split bool.split)

text \<open>The loops of the bridge do not panic, and a new viewer does not make it panic unless the bridge has to
  reconnect for it.\<close>

theorem vbridge_no_panic:
  assumes "vbridge_state b"
  shows "broadcast_round k b \<noteq> None \<and> (i \<in> set (vb_clients b) \<longrightarrow> client_input a i b \<noteq> None)
     \<and> (p \<noteq> ProbeLost \<or> vb_clients b \<noteq> [] \<longrightarrow> vb_serve p dial i b \<noteq> None)"
proof -
  have wf: "vb_wf b" by (rule vbridge_state_wf[OF assms])
  have 1: "broadcast_round k b \<noteq> None"
    using wf by (auto simp: broadcast_round_def vb_wf_def Let_def split: if_split_asm)
  have 2: "client_input a i b \<noteq> None" if "i \<in> set (vb_clients b)"
  proof -
    have "vb_clients b \<noteq> []" using that by auto
    then obtain cn where "vb_conn b = Some cn" using wf by (auto simp: vb_wf_def)
    then show ?thesis by (auto simp: client_input_def Let_def split: prod.split option.split)
  qed
  have 3: "vb_serve p dial i b \<noteq> None" if p: "p \<noteq> ProbeLost \<or> vb_clients b \<noteq> []"
  proof (cases "vb_running b")
    case True
    then obtain cn where cn: "vb_conn b = Some cn" "24 \<le> length (vb_serverInit b)" using wf by (auto simp: vb_wf_def)
    obtain b1 where "(if vb_clientCount b = 0 then probe_bmc p dial b else Some (None, b)) = Some (None, b1)"
      "vb_serverInit b1 = vb_serverInit b"
      using p cn by (cases "vb_clients b = []"; cases p) (simp_all add: probe_bmc_def vb_clientCount_def)
    then show ?thesis
      using True clientHandshake_defined[of b1 "vb_ws b1 i"] cn(2) by (auto simp: vb_serve_def Let_def split: prod.split)
  qed (simp add: vb_serve_def)
  show ?thesis using 1 2 3 by blast
qed

section \<open>Broadcast\<close>

lemma WriteMessage_out: "\<not> ws_fail ws (ws_writes ws) \<Longrightarrow> ws_out (snd (WriteMessage m ws)) = ws_out ws @ [m]"
  by (simp add: WriteMessage_def)

lemma WriteMessage_fail [simp]: "ws_fail (snd (WriteMessage m ws)) = ws_fail ws"
  by (simp add: WriteMessage_def)

lemma broadcast_rounds:
  assumes "foldM broadcast_round ks b = Some b'" "vb_conn b = Some cn"
    and "\<forall>i\<in>set (vb_clients b). \<forall>n. \<not> ws_fail (vb_ws b i) n"
  shows "\<exists>cs cn'. vb_conn b' = Some cn' \<and> cn_in cn = concat cs @ cn_in cn' \<and> vb_clients b' = vb_clients b
     \<and> (\<forall>i\<in>set (vb_clients b). ws_out (vb_ws b' i) = ws_out (vb_ws b i) @ cs)"
  using assms
proof (induction ks arbitrary: b cn)
  case Nil
  then show ?case by (auto intro: exI[of _ "[]"])
next
  case (Cons k ks)
  obtain b1 where 1: "broadcast_round k b = Some b1" "foldM broadcast_round ks b1 = Some b'"
    using Cons.prems(1) by (auto elim: bind_SomeE)
  show ?case
  proof (cases "vb_running b \<and> cn_in cn \<noteq> []")
    case False
    then have b1: "b1 = b\<lparr>vb_broadcasting := False\<rparr>" using 1(1) Cons.prems(2) by (auto simp: broadcast_round_def split: if_split_asm)
    show ?thesis using Cons.IH[OF 1(2), of cn] Cons.prems(2,3) by (simp add: b1)
  next
    case True
    define n where "n = min (max 1 k) 262144"
    define m where "m = take n (cn_in cn)"
    have b1: "b1 = broadcastToAll m (b\<lparr>vb_conn := Some (cn\<lparr>cn_in := drop n (cn_in cn)\<rparr>)\<rparr>)"
      using 1(1) Cons.prems(2) True by (auto simp: broadcast_round_def n_def m_def Let_def)
    have out: "ws_out (vb_ws b1 i) = ws_out (vb_ws b i) @ [m]" if "i \<in> set (vb_clients b)" for i
      using that Cons.prems(3) by (simp add: b1 broadcastToAll_def WriteMessage_out)
    have "vb_conn b1 = Some (cn\<lparr>cn_in := drop n (cn_in cn)\<rparr>)" "vb_clients b1 = vb_clients b"
      "\<forall>i\<in>set (vb_clients b1). \<forall>n. \<not> ws_fail (vb_ws b1 i) n"
      using Cons.prems(3) by (auto simp: b1 broadcastToAll_def)
    from Cons.IH[OF 1(2) this(1,3)] this(2) obtain cs cn' where IH:
      "vb_conn b' = Some cn'" "drop n (cn_in cn) = concat cs @ cn_in cn'" "vb_clients b' = vb_clients b"
      "\<forall>i\<in>set (vb_clients b). ws_out (vb_ws b' i) = ws_out (vb_ws b1 i) @ cs" by auto
    have "cn_in cn = m @ drop n (cn_in cn)" by (simp add: m_def)
    then show ?thesis using IH out by (intro exI[of _ "m # cs"] exI[of _ cn']) auto
  qed
qed


text \<open>A bridge whose BMC connection is lost while viewers are attached does not notice: the broadcast loop ends
  but the bridge counts as running, and whoever joins is served from the saved \<open>ServerInit\<close>, without a probe,
  and gets nothing: the loop that is started for them ends at once.\<close>

theorem lost_bmc_unnoticed:
  assumes "vb_running b" "vb_conn b = Some cn" "cn_in cn = []" "vb_clients b \<noteq> []"
  shows "\<exists>b1. broadcast_round k b = Some b1 \<and> vb_running b1 \<and> \<not> vb_broadcasting b1 \<and> vb_clients b1 = vb_clients b
     \<and> (\<forall>p dial i b2. vb_serve p dial i b1 = Some (None, b2) \<longrightarrow>
          vb_running b2 \<and> i \<in> set (vb_clients b2) \<and> vb_conn b2 = vb_conn b
          \<and> broadcast_round k b2 = Some (b2\<lparr>vb_broadcasting := False\<rparr>))"
  using assms
  by (auto simp: broadcast_round_def vb_serve_def vb_clientCount_def ensureBroadcast_def Let_def
      elim!: bind_SomeE split: if_split_asm)

text \<open>After \<open>Stop\<close> no viewer of the bridge gets or sends another message, and the connection to the BMC is
  closed.\<close>

theorem vb_Stop_closes:
  assumes "vbridge_state b"
  shows "vb_clients (vb_Stop b) = [] \<and> \<not> vb_running (vb_Stop b)
     \<and> (\<forall>i\<in>set (vb_clients b). ws_in (vb_ws (vb_Stop b) i) = [] \<and> \<not> fst (WriteMessage m (vb_ws (vb_Stop b) i)))
     \<and> (\<forall>cn. vb_conn (vb_Stop b) = Some cn \<longrightarrow> cn_in cn = [] \<and> \<not> fst (tcp_write m cn))"
  using vbridge_state_wf[OF assms]
  by (auto simp: vb_Stop_def vb_wf_def ws_close_def WriteMessage_def tcp_write_def tcp_close_def Let_def)

section \<open>Input of the viewers\<close>

text \<open>The messages a VNC client sends (RFC 6143, 7.5), by their lengths, and a stream cut into them.\<close>

definition rfb_len :: "bytes \<Rightarrow> nat option" where
  "rfb_len m =
     (if m = [] then None
      else if m ! 0 = 0 then Some 20
      else if m ! 0 = 2 then (if length m < 4 then None else Some (4 + 4 * unat (get_be16 (m ! 2) (m ! 3))))
      else if m ! 0 = 3 then Some 10
      else if m ! 0 = 4 then Some 8
      else if m ! 0 = 5 then Some 6
      else if m ! 0 = 6 then (if length m < 8 then None else Some (8 + unat (be32_at 4 m)))
      else None)"

definition is_rfb :: "bytes \<Rightarrow> bool" where
  "is_rfb m \<longleftrightarrow> rfb_len m = Some (length m)"

definition is_input :: "bytes \<Rightarrow> bool" where
  "is_input m \<longleftrightarrow> m \<noteq> [] \<and> (m ! 0 = 4 \<or> m ! 0 = 5)"

function rfb_split :: "bytes \<Rightarrow> bytes list" where
  "rfb_split xs =
     (case rfb_len xs of
        None \<Rightarrow> []
      | Some n \<Rightarrow> if n = 0 \<or> length xs < n then [] else take n xs # rfb_split (drop n xs))"
  by pat_completeness auto
termination
  by (relation "measure length") auto

declare rfb_split.simps [simp del]

lemma rfb_split_Nil [simp]: "rfb_split [] = []"
  by (simp add: rfb_split.simps[of "[]"] rfb_len_def)

lemma rfb_split_append: "is_rfb m \<Longrightarrow> rfb_split (m @ ys) = m # rfb_split ys"
proof -
  assume m: "is_rfb m"
  have ne: "m \<noteq> []" using m by (auto simp: is_rfb_def rfb_len_def)
  have "rfb_len (m @ ys) = Some (length m)"
    using m by (auto simp: is_rfb_def rfb_len_def be32_at_def nth_append split: if_split_asm)
  then show ?thesis using ne by (subst rfb_split.simps) simp
qed

lemma rfb_split_concat: "\<forall>m\<in>set ms. is_rfb m \<Longrightarrow> rfb_split (concat ms) = ms"
  by (induction ms) (simp_all add: rfb_split_append)

lemma is_rfb_rewrite: "is_rfb rewriteSetEncodings" "\<not> is_input rewriteSetEncodings"
  by (simp_all add: is_rfb_def is_input_def rfb_len_def rewriteSetEncodings_def supported_encodings_def
      be16_def be32_def get_be16_def get_le16_def)

text \<open>The gate on one message of the protocol.\<close>

lemma input_gate_rfb:
  assumes "is_rfb m"
  shows "case input_gate flt allowed m of
       None \<Rightarrow> is_input m \<and> \<not> allowed
     | Some d \<Rightarrow> is_rfb d \<and> (is_input m \<longrightarrow> allowed) \<and> is_input d = is_input m \<and> (\<not> flt \<or> is_input m \<longrightarrow> d = m)"
  using assms is_rfb_rewrite
  by (auto simp: input_gate_def is_input_def is_rfb_def rfb_len_def split: if_split_asm)

lemma readClientInput_stream:
  assumes "tcp_ok cn" "\<forall>(m, a)\<in>set ms. is_rfb m"
  shows "\<exists>ds. cn_out (snd (readClientInput flt ms cn)) = cn_out cn @ concat ds \<and> (\<forall>d\<in>set ds. is_rfb d)
     \<and> filter is_input ds = map fst (filter (\<lambda>(m, a). a \<and> is_input m) ms)
     \<and> (\<not> flt \<longrightarrow> ds = map fst (filter (\<lambda>(m, a). a \<or> \<not> is_input m) ms))"
  using assms
proof (induction ms arbitrary: cn)
  case (Cons ma ms)
  obtain m a where ma: "ma = (m, a)" by force
  have g: "case input_gate flt a m of
       None \<Rightarrow> is_input m \<and> \<not> a
     | Some d \<Rightarrow> is_rfb d \<and> (is_input m \<longrightarrow> a) \<and> is_input d = is_input m \<and> (\<not> flt \<or> is_input m \<longrightarrow> d = m)"
    using Cons.prems(2) by (intro input_gate_rfb) (simp add: ma)
  show ?case
  proof (cases "input_gate flt a m")
    case None
    then show ?thesis using Cons.IH[of cn] Cons.prems g by (auto simp: ma)
  next
    case (Some d)
    define cn1 where "cn1 = cn\<lparr>cn_writes := cn_writes cn + 1, cn_out := cn_out cn @ d\<rparr>"
    obtain ds where ds: "cn_out (snd (readClientInput flt ms cn1)) = cn_out cn1 @ concat ds" "\<forall>d\<in>set ds. is_rfb d"
      "filter is_input ds = map fst (filter (\<lambda>(m, a). a \<and> is_input m) ms)"
      "\<not> flt \<longrightarrow> ds = map fst (filter (\<lambda>(m, a). a \<or> \<not> is_input m) ms)"
      using Cons.IH[of cn1] Cons.prems by (auto simp: cn1_def)
    have w: "tcp_write d cn = (True, cn1)" "cn_out cn1 = cn_out cn @ d"
      using Cons.prems(1) by (simp_all add: cn1_def tcp_ok_write)
    show ?thesis
      using ds g Some by (intro exI[of _ "d # ds"]) (auto simp: ma w)
  qed
qed (auto intro: exI[of _ "[]"])

text \<open>C16: for a viewer that sends one protocol message per WebSocket message, the gate is exact: the key and
  pointer events in the stream that the BMC gets are those the viewer sent while it was allowed to, in order;
  without the encoding filter everything else passes unchanged.\<close>

theorem vnc_input_gated:
  assumes "tcp_ok cn" "\<forall>(m, a)\<in>set ms. is_rfb m"
  shows "\<exists>out. cn_out (snd (readClientInput flt ms cn)) = cn_out cn @ out
     \<and> filter is_input (rfb_split out) = map fst (filter (\<lambda>(m, a). a \<and> is_input m) ms)
     \<and> (\<not> flt \<longrightarrow> rfb_split out = map fst (filter (\<lambda>(m, a). a \<or> \<not> is_input m) ms))"
proof -
  obtain ds where "cn_out (snd (readClientInput flt ms cn)) = cn_out cn @ concat ds" "\<forall>d\<in>set ds. is_rfb d"
     "filter is_input ds = map fst (filter (\<lambda>(m, a). a \<and> is_input m) ms)"
     "\<not> flt \<longrightarrow> ds = map fst (filter (\<lambda>(m, a). a \<or> \<not> is_input m) ms)"
    using readClientInput_stream[OF assms] by blast
  then show ?thesis by (intro exI[of _ "concat ds"]) (simp add: rfb_split_concat)
qed

text \<open>The gate looks at the first byte of a WebSocket message only. A viewer without control that puts a key or
  pointer event behind another message, say a request for an update, in one WebSocket message gets the event
  through to the BMC.\<close>

theorem vnc_gate_bypassed:
  assumes "tcp_ok cn" "is_rfb m" "\<not> is_input m" "m ! 0 \<noteq> 2" "is_rfb key" "is_input key"
  shows "\<exists>out. cn_out (snd (readClientInput flt [(m @ key, False)] cn)) = cn_out cn @ out \<and> rfb_split out = [m, key]"
proof -
  have ne: "m \<noteq> []" using assms(2) by (auto simp: is_rfb_def rfb_len_def)
  have "input_gate flt False (m @ key) = Some (m @ key)"
    using assms(3,4) ne by (auto simp: input_gate_def is_input_def nth_append)
  moreover have "rfb_split (m @ key) = [m, key]"
    using rfb_split_append[OF assms(2), of key] rfb_split_append[OF assms(5), of "[]"] by simp
  ultimately show ?thesis using assms(1) by (intro exI[of _ "m @ key"]) (simp add: tcp_ok_write)
qed

section \<open>Witnesses\<close>

definition sample_conn :: "bytes \<Rightarrow> Conn" where
  "sample_conn inp = \<lparr>cn_in = inp, cn_out = [], cn_writes = 0, cn_fail = (\<lambda>_. False), cn_closed = False,
     cn_keep = 0, cn_local = ''10.0.0.1''\<rparr>"

definition sample_ws :: "bytes list \<Rightarrow> WsConn" where
  "sample_ws ms = \<lparr>ws_in = ms, ws_out = [], ws_writes = 0, ws_fail = (\<lambda>_. False)\<rparr>"

definition sample_vnc :: VBridge where
  "sample_vnc = NewVNCBridge ''10.0.0.2:5900'' ''calvin'' (\<lambda>_. sample_ws [])"

lemma sample_conn_ok [simp]: "tcp_ok (sample_conn inp)"
  by (simp add: tcp_ok_def sample_conn_def)

lemma sample_conn_fields [simp]: "cn_in (sample_conn inp) = inp" "cn_out (sample_conn inp) = []"
  by (simp_all add: sample_conn_def)

lemma sample_vnc_state: "vbridge_state sample_vnc"
  using vbridge_state.new[where t = "''10.0.0.2:5900''" and p = "''calvin''" and ws = "\<lambda>_. sample_ws []" and f = False and r = False]
  by (simp add: sample_vnc_def NewVNCBridge_def)

theorem vnc_response_decrypts_witness:
  "\<exists>resp. vncEncrypt (replicate 16 7) ''calvin'' = Some resp
     \<and> des_decrypt (map reverseBits (take 8 (str_bytes ''calvin'' @ replicate 8 0))) (take 8 resp)
       @ des_decrypt (map reverseBits (take 8 (str_bytes ''calvin'' @ replicate 8 0))) (drop 8 resp) = replicate 16 7"
proof -
  obtain resp where r: "vncEncrypt (replicate 16 7) ''calvin'' = Some resp"
    using vncEncrypt_defined[of "replicate 16 7"] by auto
  show ?thesis using vnc_response_decrypts[OF r] r by auto
qed

definition sample_server :: bytes where
  "sample_server = replicate 12 82 @ [1, 2] @ replicate 16 9 @ [0, 0, 0, 0] @ (replicate 23 0 @ [2]) @ [65, 66] @ [0]"

theorem bmcHandshake_ok_witness:
  "\<exists>cn'. bmcHandshake ''pw'' (sample_conn sample_server) = Some (Inr ((replicate 23 0 @ [2]) @ [65, 66]), cn') \<and> cn_in cn' = [0]"
proof -
  have n: "replicate 23 (0::u8) = [0,0,0,0,0,0,0,0,0,0,0,0,0,0,0,0,0,0,0,0,0,0,0]"
    by (simp add: numeral_eq_Suc)
  have "be32_at 20 (replicate 23 0 @ [2]) = 2"
    unfolding n by (simp add: be32_at_def get_be32_def get_le32_def)
  then show ?thesis
    using bmcHandshake_ok[of "sample_conn sample_server" "replicate 12 82" 1 "[2]" "replicate 16 9"
        "replicate 23 0 @ [2]" "[65, 66]" "[0]" "''pw''"]
    by (auto simp: sample_server_def auth_in_def)
qed

theorem truncated_handshake_accepted_witness:
  "\<exists>b'. vb_Start (\<lambda>_. Some (sample_conn (replicate 12 82 @ [1, 2]))) sample_vnc = Some (None, b')
     \<and> vb_running b' \<and> vb_serverInit b' = replicate 24 0"
  by (rule truncated_handshake_accepted[of _ _ "sample_conn (replicate 12 82 @ [1, 2])" "replicate 12 82" 1 "[2]"])
    (simp_all add: sample_vnc_def NewVNCBridge_def, simp_all add: sample_conn_def)


theorem vbridge_no_panic_witness: "broadcast_round 5 sample_vnc \<noteq> None"
  using vbridge_no_panic[OF sample_vnc_state, of 5 0 False "ProbeTimeout False" "\<lambda>_. None"] by blast

text \<open>A running bridge with two viewers.\<close>

definition sample_shared :: "bytes \<Rightarrow> VBridge" where
  "sample_shared inp = sample_vnc\<lparr>vb_conn := Some (sample_conn inp), vb_running := True, vb_broadcasting := True,
     vb_serverInit := replicate 24 0, vb_clients := [1, 2]\<rparr>"


theorem lost_bmc_unnoticed_witness: "\<exists>b1. broadcast_round 1 (sample_shared []) = Some b1 \<and> vb_running b1 \<and> \<not> vb_broadcasting b1"
  using lost_bmc_unnoticed[of "sample_shared []" "sample_conn []" 1] by (auto simp: sample_shared_def)

theorem vb_Stop_closes_witness: "vb_clients (vb_Stop sample_vnc) = []"
  using vb_Stop_closes[OF sample_vnc_state] by blast

definition sample_key :: bytes where
  "sample_key = [4, 1, 0, 0, 0, 0, 0, 97]"

definition sample_update_request :: bytes where
  "sample_update_request = [3, 1, 0, 0, 0, 0, 0, 0, 0, 0]"

lemma sample_messages [simp]:
  "is_rfb sample_key" "is_input sample_key" "is_rfb sample_update_request" "\<not> is_input sample_update_request" "sample_update_request ! 0 \<noteq> 2"
  by (simp_all add: is_rfb_def rfb_len_def is_input_def sample_key_def sample_update_request_def)

theorem vnc_input_gated_witness:
  "\<exists>out. cn_out (snd (readClientInput False [(sample_update_request, False), (sample_key, False), (sample_key, True)] (sample_conn [])))
       = [] @ out \<and> rfb_split out = [sample_update_request, sample_key]"
  using vnc_input_gated[of "sample_conn []" "[(sample_update_request, False), (sample_key, False), (sample_key, True)]" False]
  by auto

theorem vnc_gate_bypassed_witness:
  "\<exists>out. cn_out (snd (readClientInput True [(sample_update_request @ sample_key, False)] (sample_conn []))) = [] @ out
     \<and> rfb_split out = [sample_update_request, sample_key]"
  using vnc_gate_bypassed[of "sample_conn []" sample_update_request sample_key True] by simp

end
