(* ===== verification/Wss.thy ===== *)
theory Wss
  imports Rfb
begin

text \<open>
  The parts of \<open>src/internal/api/websocket.go\<close> that copy between sockets: the WebSocket proxy of an iDRAC9
  (\<open>wssProxy\<close>: one backend connection, many viewers), the rewriting of VNC messages for an iDRAC8, and the
  handshake relay \<open>vncHandshake\<close>, which no caller uses any more.

  A WebSocket message has a type and a payload. The loops of the proxy (one that reads the backend, one per viewer)
  interleave; an iteration of a loop is a step.
\<close>

section \<open>WebSocket connections\<close>

type_synonym ws_message = "int \<times> bytes"

record WssConn =
  wc_in :: "ws_message list"
  wc_out :: "ws_message list"
  wc_writes :: nat
  wc_fail :: "nat \<Rightarrow> bool"
  wc_closed :: bool

definition wss_write :: "ws_message \<Rightarrow> WssConn \<Rightarrow> bool \<times> WssConn" where
  "wss_write m c =
     (let bad = (wc_closed c \<or> wc_fail c (wc_writes c))
      in (\<not> bad, c\<lparr>wc_writes := wc_writes c + 1, wc_out := (if bad then wc_out c else wc_out c @ [m])\<rparr>))"

definition wss_read :: "WssConn \<Rightarrow> ws_message option \<times> WssConn" where
  "wss_read c = (case wc_in c of [] \<Rightarrow> (None, c) | m # ms \<Rightarrow> (Some m, c\<lparr>wc_in := ms\<rparr>))"

definition wss_close :: "WssConn \<Rightarrow> WssConn" where
  "wss_close c = c\<lparr>wc_closed := True, wc_in := []\<rparr>"

section \<open>The shared proxy\<close>

text \<open>\<open>wp_done\<close> says that the channel \<open>done\<close> is closed. As in the VNC bridge, the proxy carries the sockets of its
  viewers, named by number.\<close>

record wssProxy =
  wp_backend :: "WssConn option"
  wp_clients :: "nat list"
  wp_ws :: "nat \<Rightarrow> WssConn"
  wp_done :: bool

definition new_proxy :: "WssConn \<Rightarrow> (nat \<Rightarrow> WssConn) \<Rightarrow> wssProxy" where
  "new_proxy backend ws = \<lparr>wp_backend = Some backend, wp_clients = [], wp_ws = ws, wp_done = False\<rparr>"

text \<open>The fan-out of one message. A viewer that cannot be written is closed and removed.\<close>

definition fan_out :: "ws_message \<Rightarrow> wssProxy \<Rightarrow> wssProxy" where
  "fan_out m p =
     p\<lparr>wp_ws := (\<lambda>i. if i \<in> set (wp_clients p)
                    then (case wss_write m (wp_ws p i) of (ok, c) \<Rightarrow> if ok then c else wss_close c)
                    else wp_ws p i),
       wp_clients := filter (\<lambda>i. fst (wss_write m (wp_ws p i))) (wp_clients p)\<rparr>"

text \<open>One iteration of \<open>wssBroadcastLoop\<close>.\<close>

definition wssBroadcastLoop :: "wssProxy \<Rightarrow> wssProxy option" where
  "wssBroadcastLoop p =
     (case wp_backend p of
        None \<Rightarrow> None
      | Some be \<Rightarrow>
          (case wss_read be of
             (None, be) \<Rightarrow> Some (p\<lparr>wp_backend := Some be, wp_done := True\<rparr>)
           | (Some m, be) \<Rightarrow> Some (fan_out m (p\<lparr>wp_backend := Some be\<rparr>))))"

definition join_proxy :: "nat \<Rightarrow> wssProxy \<Rightarrow> wssProxy" where
  "join_proxy i p = p\<lparr>wp_clients := List.insert i (wp_clients p)\<rparr>"

definition leave_proxy :: "nat \<Rightarrow> wssProxy \<Rightarrow> wssProxy" where
  "leave_proxy i p = p\<lparr>wp_clients := remove1 i (wp_clients p)\<rparr>"

text \<open>One iteration of the loop of \<open>proxyWSS\<close> for the viewer on socket \<open>i\<close>: whether it goes on. \<open>allowed\<close> is the answer
  of \<open>HasControl\<close>.\<close>

definition wss_client_input :: "bool \<Rightarrow> nat \<Rightarrow> wssProxy \<Rightarrow> bool \<times> wssProxy" where
  "wss_client_input allowed i p =
     (if wp_done p then (False, p)
      else case wss_read (wp_ws p i) of
        (None, c) \<Rightarrow> (False, p\<lparr>wp_ws := (wp_ws p)(i := c)\<rparr>)
      | (Some m, c) \<Rightarrow>
          (let p = p\<lparr>wp_ws := (wp_ws p)(i := c)\<rparr> in
           if \<not> allowed then (True, p)
           else case wp_backend p of
             None \<Rightarrow> (False, p)
           | Some be \<Rightarrow> (case wss_write m be of (ok, be) \<Rightarrow> (ok, p\<lparr>wp_backend := Some be\<rparr>))))"

text \<open>\<open>StopWSSProxy\<close> on the proxy.\<close>

definition close_proxy :: "wssProxy \<Rightarrow> wssProxy" where
  "close_proxy p =
     p\<lparr>wp_backend := map_option wss_close (wp_backend p),
       wp_ws := (\<lambda>i. if i \<in> set (wp_clients p) then wss_close (wp_ws p i) else wp_ws p i),
       wp_clients := []\<rparr>"

section \<open>Rewriting for iDRAC8\<close>

definition rewriteVNCClientMessage :: "bytes \<Rightarrow> bytes" where
  "rewriteVNCClientMessage data =
     (if length data = 0 then data
      else if data ! 0 = 2 \<and> length data \<ge> 4 then
        [2, 0] @ be16 (of_nat (length [0, 1, - 223 :: u32])) @ concat (map be32 [0, 1, - 223])
      else data)"

definition rewriteVNCServerInit :: "bytes \<Rightarrow> bytes option" where
  "rewriteVNCServerInit data =
     (if length data < 24 then Some data
      else do {
        let nameLen = be32_at 20 data;
        if of_nat (length data) < 24 + nameLen then Some data
        else do {
          _ \<leftarrow> go_slice data 24 (uint (24 + nameLen));
          let newName = str_bytes ''Intel(r) AMT KVM'';
          Some (take 20 data @ be32 (of_nat (length newName)) @ newName)
        }
      })"

section \<open>The handshake relay\<close>

text \<open>The exchanges of \<open>vncHandshake\<close>, each with the error it returns on failure: reading \<open>n\<close> bytes from the server,
  sending to the viewer, receiving from the viewer and writing to the server.\<close>

type_synonym relay = "WsConn \<times> Conn \<Rightarrow> (string option \<times> WsConn \<times> Conn) option"

definition from_server :: "nat \<Rightarrow> string \<Rightarrow> (bytes \<Rightarrow> relay) \<Rightarrow> relay" where
  "from_server n e k = (\<lambda>(ws, cn).
     case tcp_full n cn of (None, cn) \<Rightarrow> Some (Some e, ws, cn) | (Some x, cn) \<Rightarrow> k x (ws, cn))"

definition to_viewer :: "bytes \<Rightarrow> string \<Rightarrow> relay \<Rightarrow> relay" where
  "to_viewer m e k = (\<lambda>(ws, cn).
     case WriteMessage m ws of (False, ws) \<Rightarrow> Some (Some e, ws, cn) | (True, ws) \<Rightarrow> k (ws, cn))"

definition viewer_to_server :: "string \<Rightarrow> string \<Rightarrow> (bytes \<Rightarrow> relay) \<Rightarrow> relay" where
  "viewer_to_server e1 e2 k = (\<lambda>(ws, cn).
     case ReadMessage ws of
       (None, ws) \<Rightarrow> Some (Some e1, ws, cn)
     | (Some m, ws) \<Rightarrow>
         (case tcp_write m cn of (False, cn) \<Rightarrow> Some (Some e2, ws, cn) | (True, cn) \<Rightarrow> k m (ws, cn)))"

definition relay_fail :: "string \<Rightarrow> relay" where
  "relay_fail e = (\<lambda>(ws, cn). Some (Some e, ws, cn))"

text \<open>From the security result on.\<close>

definition relay_finish :: relay where
  "relay_finish =
     from_server 4 ''reading security result'' (\<lambda>secResult.
     to_viewer secResult ''forwarding security result'' (
     if be32_at 0 secResult \<noteq> 0 then relay_fail ''VNC authentication failed''
     else viewer_to_server ''reading ClientInit'' ''forwarding ClientInit'' (\<lambda>_.
       from_server 24 ''reading ServerInit header'' (\<lambda>hdr.
         if be32_at 20 hdr > 4096 then relay_fail ''ServerInit name too large''
         else from_server (unat (be32_at 20 hdr)) ''reading ServerInit name'' (\<lambda>name st. do {
           serverInit \<leftarrow> rewriteVNCServerInit (hdr @ name);
           to_viewer serverInit ''forwarding ServerInit'' (\<lambda>(ws, cn). Some (None, ws, cn)) st
         })))))"

definition relayHandshake :: relay where
  "relayHandshake =
     from_server 12 ''reading server version'' (\<lambda>version.
     to_viewer version ''forwarding server version'' (
     viewer_to_server ''reading client version'' ''forwarding client version'' (\<lambda>_.
     from_server 1 ''reading security type count'' (\<lambda>numTypes.
     if numTypes ! 0 = 0 then
       from_server 4 ''reading error reason length'' (\<lambda>reasonLen.
       from_server (unat (be32_at 0 reasonLen)) ''reading error reason'' (\<lambda>reason (ws, cn).
         Some (Some ''server rejected connection'', snd (WriteMessage (numTypes @ reasonLen @ reason) ws), cn)))
     else
       from_server (unat (numTypes ! 0)) ''reading security types'' (\<lambda>secTypes.
       to_viewer (numTypes @ secTypes) ''forwarding security types'' (
       viewer_to_server ''reading security type selection'' ''forwarding security type selection'' (\<lambda>choice st. do {
         secType \<leftarrow> arr_get choice 0;
         (if secType = 1 then relay_finish
          else if secType = 2 then
            from_server 16 ''reading VNC auth challenge'' (\<lambda>challenge.
            to_viewer challenge ''forwarding VNC auth challenge'' (
            viewer_to_server ''reading VNC auth response'' ''forwarding VNC auth response'' (\<lambda>_. relay_finish)))
          else relay_fail ''unsupported VNC security type'') st
       })))))))"

section \<open>Copying\<close>

text \<open>\<open>proxyWebSocket\<close>: whole messages from one connection to the other until an operation fails.\<close>

fun copy_messages :: "ws_message list \<Rightarrow> WssConn \<Rightarrow> ws_message list \<times> WssConn" where
  "copy_messages [] dst = ([], dst)"
| "copy_messages (m # ms) dst =
     (case wss_write m dst of (True, dst) \<Rightarrow> copy_messages ms dst | (False, dst) \<Rightarrow> (ms, dst))"

definition proxyWebSocket :: "WssConn \<Rightarrow> WssConn \<Rightarrow> WssConn \<times> WssConn" where
  "proxyWebSocket src dst =
     (case copy_messages (wc_in src) dst of (ms, dst) \<Rightarrow> (src\<lparr>wc_in := ms\<rparr>, dst))"

section \<open>Rewriting\<close>

lemma rewrite_message_gate:
  "rewriteVNCClientMessage data = (case input_gate True True data of None \<Rightarrow> data | Some d \<Rightarrow> d)"
  by (simp add: rewriteVNCClientMessage_def input_gate_def rewriteSetEncodings_def supported_encodings_def)

text \<open>The two copies of the iDRAC8 workaround agree: \<open>rewriteVNCClientMessage\<close> does to a message what the
  encoding filter of the VNC bridge does, and on the \<open>ServerInit\<close> of a server that states its name's length
  right, \<open>rewriteVNCServerInit\<close> gives what the bridge sends to its viewers.\<close>

theorem rewriting_agrees:
  "rewriteVNCClientMessage data = (case input_gate True True data of None \<Rightarrow> data | Some d \<Rightarrow> d)
   \<and> (length hdr = 24 \<and> unat (be32_at 20 hdr) = length name \<and> length name < 2 ^ 32 - 24 \<longrightarrow>
        rewriteVNCServerInit (hdr @ name) = client_server_init (b\<lparr>vb_serverInit := hdr @ name, vb_RewriteName := True\<rparr>))"
proof -
  have "rewriteVNCServerInit (hdr @ name) = client_server_init (b\<lparr>vb_serverInit := hdr @ name, vb_RewriteName := True\<rparr>)"
    if h: "length hdr = 24" "unat (be32_at 20 hdr) = length name" "length name < 2 ^ 32 - 24"
  proof -
    have at: "be32_at 20 (hdr @ name) = be32_at 20 hdr" using h(1) by (simp add: be32_at_def nth_append)
    have l: "unat (24 + be32_at 20 hdr) = 24 + length name" using h(2,3) by (simp add: name_length_wraps)
    have "24 + be32_at 20 hdr = of_nat (24 + length name)" unfolding l[symmetric] by simp
    moreover have "uint (24 + be32_at 20 hdr) = int (24 + length name)" unfolding l[symmetric] by simp
    ultimately show ?thesis
      using h(1) at by (simp add: rewriteVNCServerInit_def client_server_init_def go_slice_def amt_name_def Let_def)
  qed
  then show ?thesis using rewrite_message_gate by blast
qed

text \<open>A name length that wraps the sum \<open>24+nameLen\<close> makes \<open>rewriteVNCServerInit\<close> panic; the handshake relay, its
  only caller, has refused such a length before.\<close>

lemma rewriteVNCServerInit_panics:
  assumes "24 \<le> length data" "length data < 2 ^ 32" "2 ^ 32 - 24 \<le> unat (be32_at 20 data)"
  shows "rewriteVNCServerInit data = None"
proof -
  have small: "unat (24 + be32_at 20 data) < 24"
    using assms(3) unat_u32_less[of "be32_at 20 data"] by (simp add: name_length_wraps)
  have "unat (of_nat (length data) :: u32) = length data"
    using assms(2) by (simp add: unat_of_nat)
  then have "\<not> of_nat (length data) < 24 + be32_at 20 data" using small assms(1) by (simp add: word_less_nat_alt)
  moreover have "int (unat (24 + be32_at 20 data)) < 24" using small by (simp only: of_nat_less_numeral_iff)
  ultimately show ?thesis using assms(1) by (simp add: rewriteVNCServerInit_def go_slice_def)
qed

section \<open>The relay\<close>

text \<open>What a relay computation sends upstream is what it takes from the viewer.\<close>

definition upstream :: "relay \<Rightarrow> bool" where
  "upstream k \<longleftrightarrow> (\<forall>ws cn e ws' cn'. tcp_ok cn \<longrightarrow> k (ws, cn) = Some (e, ws', cn') \<longrightarrow>
     (\<exists>ms. ws_in ws = ms @ ws_in ws' \<and> cn_out cn' = cn_out cn @ concat ms))"

lemma upstreamI:
  "(\<And>ws cn e ws' cn'. \<lbrakk>tcp_ok cn; k (ws, cn) = Some (e, ws', cn')\<rbrakk>
     \<Longrightarrow> \<exists>ms. ws_in ws = ms @ ws_in ws' \<and> cn_out cn' = cn_out cn @ concat ms) \<Longrightarrow> upstream k"
  by (simp add: upstream_def)

lemma upstreamD:
  "\<lbrakk>upstream k; tcp_ok cn; k (ws, cn) = Some (e, ws', cn')\<rbrakk>
     \<Longrightarrow> \<exists>ms. ws_in ws = ms @ ws_in ws' \<and> cn_out cn' = cn_out cn @ concat ms"
  by (auto simp: upstream_def)

lemma upstream_from_server: "(\<And>x. upstream (k x)) \<Longrightarrow> upstream (from_server n e k)"
  by (rule upstreamI) (auto simp: from_server_def tcp_full_def split: if_split_asm
      dest!: upstreamD[rotated 2, where k = "k _"])

lemma upstream_to_viewer: "upstream k \<Longrightarrow> upstream (to_viewer m e k)"
  by (rule upstreamI) (auto simp: to_viewer_def WriteMessage_def split: if_split_asm dest!: upstreamD[rotated 2, where k = k])

lemma upstream_viewer_to_server:
  assumes "\<And>m. upstream (k m)"
  shows "upstream (viewer_to_server e1 e2 k)"
proof (rule upstreamI)
  fix ws cn e ws' cn'
  assume ok: "tcp_ok cn" and r: "viewer_to_server e1 e2 k (ws, cn) = Some (e, ws', cn')"
  show "\<exists>ms. ws_in ws = ms @ ws_in ws' \<and> cn_out cn' = cn_out cn @ concat ms"
  proof (cases "ws_in ws")
    case Nil
    then show ?thesis using r by (auto simp: viewer_to_server_def ReadMessage_def)
  next
    case (Cons m ms)
    define cn1 where "cn1 = cn\<lparr>cn_writes := cn_writes cn + 1, cn_out := cn_out cn @ m\<rparr>"
    have tk: "tcp_ok cn1" using ok by (simp add: cn1_def)
    have "k m (ws\<lparr>ws_in := ms\<rparr>, cn1) = Some (e, ws', cn')"
      using r Cons ok by (simp add: viewer_to_server_def ReadMessage_def tcp_ok_write cn1_def)
    then obtain ns where "ms = ns @ ws_in ws'" "cn_out cn' = cn_out cn1 @ concat ns"
      using upstreamD[OF assms tk] by fastforce
    then show ?thesis using Cons by (intro exI[of _ "m # ns"]) (simp add: cn1_def)
  qed
qed

lemma upstream_fail: "upstream (relay_fail e)"
  by (rule upstreamI) (auto simp: relay_fail_def)

lemma upstream_if: "\<lbrakk>b \<Longrightarrow> upstream k; \<not> b \<Longrightarrow> upstream l\<rbrakk> \<Longrightarrow> upstream (if b then k else l)"
  by simp

lemma upstream_bind: "(\<And>x. m = Some x \<Longrightarrow> upstream (k x)) \<Longrightarrow> upstream (\<lambda>st. Option.bind m (\<lambda>x. k x st))"
  by (cases m) (auto simp: upstream_def)

lemmas upstream_intros = upstream_from_server upstream_to_viewer upstream_viewer_to_server upstream_fail upstream_if
  upstream_bind

lemma upstream_finish: "upstream relay_finish"
  unfolding relay_finish_def
  by (intro upstream_intros) (auto simp: upstream_def)

text \<open>The handshake relay, whatever it returns, has written to the VNC server exactly the messages that it took
  from the viewer, in order.\<close>

theorem relay_upstream:
  assumes "tcp_ok cn" "relayHandshake (ws, cn) = Some (e, ws', cn')"
  shows "\<exists>ms. ws_in ws = ms @ ws_in ws' \<and> cn_out cn' = cn_out cn @ concat ms"
proof -
  have rej: "upstream (\<lambda>(ws, cn). Some (Some x, snd (WriteMessage m ws), cn))" for x m
    by (auto simp: upstream_def WriteMessage_def)
  have "upstream relayHandshake"
    unfolding relayHandshake_def
    by (intro upstream_intros upstream_finish rej)
  then show ?thesis using upstreamD assms by blast
qed

section \<open>The proxy\<close>

lemma wss_write_open:
  "\<lbrakk>\<not> wc_closed c; \<forall>k. \<not> wc_fail c k\<rbrakk> \<Longrightarrow>
     wss_write m c = (True, c\<lparr>wc_writes := wc_writes c + 1, wc_out := wc_out c @ [m]\<rparr>)"
  by (simp add: wss_write_def)

text \<open>The loop of \<open>wssBroadcastLoop\<close>, at most \<open>n\<close> rounds of it, and the loop of one viewer with the answers of
  \<open>HasControl\<close>.\<close>

fun wss_rounds :: "nat \<Rightarrow> wssProxy \<Rightarrow> wssProxy option" where
  "wss_rounds 0 p = Some p"
| "wss_rounds (Suc n) p = (if wp_done p then Some p else Option.bind (wssBroadcastLoop p) (wss_rounds n))"

fun wss_inputs :: "nat \<Rightarrow> bool list \<Rightarrow> wssProxy \<Rightarrow> wssProxy" where
  "wss_inputs i [] p = p"
| "wss_inputs i (a # as) p = (case wss_client_input a i p of (True, p) \<Rightarrow> wss_inputs i as p | (False, p) \<Rightarrow> p)"

text \<open>The fan-out of the WebSocket proxy: after \<open>n\<close> rounds a viewer whose writes succeed is still attached and has
  got the first \<open>n\<close> messages of the BMC, unchanged and in order; the loop ends, and closes \<open>done\<close>, exactly
  when the messages of the BMC are used up.\<close>

theorem wss_fan_out:
  assumes "wp_backend p = Some be" "\<not> wp_done p" "i \<in> set (wp_clients p)"
    and "\<not> wc_closed (wp_ws p i)" "\<forall>k. \<not> wc_fail (wp_ws p i) k"
  shows "\<exists>p'. wss_rounds n p = Some p' \<and> i \<in> set (wp_clients p')
     \<and> wc_out (wp_ws p' i) = wc_out (wp_ws p i) @ take n (wc_in be) \<and> (wp_done p' \<longleftrightarrow> length (wc_in be) < n)"
  using assms
proof (induction n arbitrary: p be)
  case (Suc n)
  show ?case
  proof (cases "wc_in be")
    case Nil
    define q where "q = p\<lparr>wp_backend := Some be, wp_done := True\<rparr>"
    have "wssBroadcastLoop p = Some q" using Suc.prems(1) Nil by (simp add: wssBroadcastLoop_def wss_read_def q_def)
    moreover have "wss_rounds n q = Some q" by (cases n) (simp_all add: q_def)
    ultimately show ?thesis using Suc.prems Nil by (auto simp: q_def)
  next
    case (Cons m ms)
    define q where "q = fan_out m (p\<lparr>wp_backend := Some (be\<lparr>wc_in := ms\<rparr>)\<rparr>)"
    note w = wss_write_open[OF Suc.prems(4,5), of m]
    have q: "wssBroadcastLoop p = Some q"
      using Suc.prems(1) Cons by (simp add: wssBroadcastLoop_def wss_read_def q_def)
    have "\<exists>p'. wss_rounds n q = Some p' \<and> i \<in> set (wp_clients p')
        \<and> wc_out (wp_ws p' i) = wc_out (wp_ws q i) @ take n (wc_in (be\<lparr>wc_in := ms\<rparr>))
        \<and> (wp_done p' \<longleftrightarrow> length (wc_in (be\<lparr>wc_in := ms\<rparr>)) < n)"
      by (rule Suc.IH) (use Suc.prems(2-5) w in \<open>simp_all add: q_def fan_out_def\<close>)
    moreover have "wc_out (wp_ws q i) = wc_out (wp_ws p i) @ [m]"
      using Suc.prems(3) w by (simp add: q_def fan_out_def)
    ultimately show ?thesis using q Cons Suc.prems(2) by auto
  qed
qed auto

text \<open>Of the messages of a viewer, the proxy passes on to the BMC exactly those that it reads while the viewer has
  control, whatever their type, and drops the others.\<close>

theorem wss_input_gated:
  assumes "wp_backend p = Some be" "\<not> wp_done p" "\<not> wc_closed be" "\<forall>k. \<not> wc_fail be k"
  shows "\<exists>be'. wp_backend (wss_inputs i as p) = Some be'
     \<and> wc_out be' = wc_out be @ map fst (filter snd (zip (wc_in (wp_ws p i)) as))"
  using assms
proof (induction as arbitrary: p be)
  case (Cons a as)
  show ?case
  proof (cases "wc_in (wp_ws p i)")
    case Nil
    then show ?thesis using Cons.prems by (simp add: wss_client_input_def wss_read_def)
  next
    case (Cons m ms)
    define q where "q = p\<lparr>wp_ws := (wp_ws p)(i := (wp_ws p i)\<lparr>wc_in := ms\<rparr>)\<rparr>"
    define be1 where "be1 = be\<lparr>wc_writes := wc_writes be + 1, wc_out := wc_out be @ [m]\<rparr>"
    have in_q: "wc_in (wp_ws q i) = ms" "wp_backend q = Some be" "\<not> wp_done q"
      using Cons.prems(1,2) by (simp_all add: q_def)
    show ?thesis
    proof (cases a)
      case True
      have "wss_client_input a i p = (True, q\<lparr>wp_backend := Some be1\<rparr>)"
        using Cons Cons.prems(1,2) True wss_write_open[OF Cons.prems(3,4), of m]
        by (simp add: wss_client_input_def wss_read_def q_def be1_def Let_def)
      moreover have "\<exists>be'. wp_backend (wss_inputs i as (q\<lparr>wp_backend := Some be1\<rparr>)) = Some be' \<and>
          wc_out be' = wc_out be1 @ map fst (filter snd (zip (wc_in (wp_ws (q\<lparr>wp_backend := Some be1\<rparr>) i)) as))"
        by (rule Cons.IH) (use Cons.prems in_q in \<open>simp_all add: be1_def\<close>)
      ultimately show ?thesis using Cons True in_q(1) by (simp add: be1_def)
    next
      case False
      have "wss_client_input a i p = (True, q)"
        using Cons Cons.prems(1,2) False by (simp add: wss_client_input_def wss_read_def q_def Let_def)
      then show ?thesis using Cons.IH[OF in_q(2,3) Cons.prems(3,4)] Cons False in_q(1) by simp
    qed
  qed
qed simp

section \<open>Witnesses\<close>

definition sample_wss :: "ws_message list \<Rightarrow> WssConn" where
  "sample_wss ms = \<lparr>wc_in = ms, wc_out = [], wc_writes = 0, wc_fail = (\<lambda>_. False), wc_closed = False\<rparr>"

theorem rewriting_agrees_witness:
  "rewriteVNCServerInit ((replicate 23 0 @ [2]) @ [65, 66])
     = client_server_init (sample_vnc\<lparr>vb_serverInit := (replicate 23 0 @ [2]) @ [65, 66], vb_RewriteName := True\<rparr>)"
proof -
  have "be32_at 20 (replicate 23 0 @ [2]) = 2"
    by (simp add: be32_at_def get_be32_def get_le32_def nth_append)
  then show ?thesis
    using rewriting_agrees[where hdr = "replicate 23 0 @ [2]" and name = "[65, 66]" and b = sample_vnc and data = "[]"] by simp
qed

theorem relay_upstream_witness:
  "\<exists>e ws' cn' ms. relayHandshake (sample_ws [[1]], sample_conn (replicate 12 82)) = Some (e, ws', cn')
     \<and> [[1]] = ms @ ws_in ws' \<and> cn_out cn' = concat ms"
proof -
  obtain e ws' cn' where r: "relayHandshake (sample_ws [[1]], sample_conn (replicate 12 82)) = Some (e, ws', cn')"
    by (simp add: relayHandshake_def from_server_def to_viewer_def viewer_to_server_def tcp_full_def sample_ws_def
        sample_conn_def WriteMessage_def ReadMessage_def tcp_write_def)
  show ?thesis using relay_upstream[OF sample_conn_ok r] r by (auto simp: sample_ws_def)
qed

definition sample_proxy :: wssProxy where
  "sample_proxy = join_proxy 1 (new_proxy (sample_wss [(2, [7]), (1, [8])]) (\<lambda>_. sample_wss [(2, [5]), (2, [6])]))"

lemma sample_proxy_fields:
  "wp_backend sample_proxy = Some (sample_wss [(2, [7]), (1, [8])])" "\<not> wp_done sample_proxy" "1 \<in> set (wp_clients sample_proxy)"
  "wp_ws sample_proxy i = sample_wss [(2, [5]), (2, [6])]"
  by (simp_all add: sample_proxy_def join_proxy_def new_proxy_def)

theorem wss_fan_out_witness:
  "\<exists>p'. wss_rounds 3 sample_proxy = Some p' \<and> wc_out (wp_ws p' 1) = [(2, [7]), (1, [8])] \<and> wp_done p'"
  using wss_fan_out[OF sample_proxy_fields(1-3), of 3] sample_proxy_fields(4) by (auto simp: sample_wss_def)

theorem wss_input_gated_witness:
  "\<exists>be'. wp_backend (wss_inputs 1 [False, True] sample_proxy) = Some be' \<and> wc_out be' = [(2, [6])]"
  using wss_input_gated[OF sample_proxy_fields(1,2), of 1 "[False, True]"] sample_proxy_fields(4)
  by (auto simp: sample_wss_def)

end
