(* ===== verification/Sessions.thy ===== *)
theory Sessions
  imports Bridge Oidc Viewers Config Wss
begin

text \<open>
  The lifecycle of KVM sessions: the session handlers of \<open>src/internal/api/handlers.go\<close>, the bridge
  bookkeeping of \<open>websocket.go\<close>, the cached BMC logins of \<open>proxy.go\<close> and the cleanup loop of
  \<open>src/cmd/server/main.go\<close>.

  A session is a struct that its handlers and its start-up goroutine share by pointer, so the server has
  a heap of sessions (theory \<open>Models\<close>). A handler runs as one step; the goroutine that \<open>CreateSession\<close>
  starts is a task that runs as a later step, after any number of others. Talking to a BMC is a
  parameter, as are the clock and the fresh ids. \<^term>\<open>None\<close> is a panic. Log output is left out, and times
  are unbounded integers. Both session stores of the program keep pointers, so the store is that of \<open>Models\<close>;
  the copy that the SQLite store writes to its database is left out.
\<close>

section \<open>State\<close>

text \<open>An entry of \<open>bmcProxies\<close>, without the reverse proxy itself.\<close>

record bmcProxyEntry =
  pe_bmcCreds :: "BMCCredentials option"
  pe_kvmActive :: bool

text \<open>The server. VNC bridges and WebSocket proxies are pointers, kept under the id of their session: a viewer goes on
  using the one it was given when the map forgets it, so they live in the heaps \<open>sv_vnc\<close> and \<open>sv_wss\<close>, below
  \<open>sv_next_conn\<close>. \<open>sv_tasks\<close> holds the start-up goroutines that have not run yet, \<open>sv_logouts\<close> the logouts sent to
  BMCs.\<close>

record Server =
  sv_Config :: AppConfig
  sv_heap :: session_heap
  sv_next :: session_ref
  sv_Sessions :: SessionStore
  sv_BMCCreds :: "string \<rightharpoonup> BMCCredEntry"
  sv_Bridges :: "string \<rightharpoonup> Bridge"
  sv_VNCBridges :: "string \<rightharpoonup> nat"
  sv_WSSProxies :: "string \<rightharpoonup> nat"
  sv_vnc :: "nat \<Rightarrow> VBridge"
  sv_wss :: "nat \<Rightarrow> wssProxy"
  sv_next_conn :: nat
  sv_ViewerRegistries :: "string \<rightharpoonup> ViewerRegistry"
  sv_proxies :: "string \<rightharpoonup> bmcProxyEntry"
  sv_audit :: "AuditEntry list option"
  sv_tasks :: "(session_ref \<times> ServerConfig) list"
  sv_logouts :: "(string \<times> BMCCredentials) list"

definition newServerCore :: "AppConfig \<Rightarrow> Server" where
  "newServerCore cfg = \<lparr>sv_Config = cfg, sv_heap = (\<lambda>_. undefined), sv_next = 0, sv_Sessions = NewSessionStore,
     sv_BMCCreds = Map.empty, sv_Bridges = Map.empty, sv_VNCBridges = Map.empty, sv_WSSProxies = Map.empty,
     sv_vnc = (\<lambda>_. undefined), sv_wss = (\<lambda>_. undefined), sv_next_conn = 0,
     sv_ViewerRegistries = Map.empty, sv_proxies = Map.empty, sv_audit = None, sv_tasks = [], sv_logouts = []\<rparr>"

datatype api_response =
    ApiError nat string
  | ApiBridgeError bridge_error
  | ApiSession nat KVMSession
  | ApiMap "(string \<times> string) list"
  | ApiPNG bytes

abbreviation ApiOk :: api_response where
  "ApiOk \<equiv> ApiMap [(''status'', ''ok'')]"

text \<open>Who asks: the user the OIDC middleware found, if any, and the remote address with and without its port.\<close>

record caller =
  cl_user :: "UserInfo option"
  cl_ip :: string
  cl_addr :: string

section \<open>Helpers\<close>

definition find_server :: "AppConfig \<Rightarrow> string \<Rightarrow> ServerConfig option" where
  "find_server cfg name = List.find (\<lambda>c. sc_Name c = name) (ac_Servers cfg)"

definition email_of :: "caller \<Rightarrow> string" where
  "email_of c = (case cl_user c of None \<Rightarrow> '''' | Some u \<Rightarrow> ui_Email u)"

definition logAudit :: "string \<Rightarrow> string \<Rightarrow> string \<Rightarrow> string \<Rightarrow> string \<Rightarrow> Server \<Rightarrow> Server" where
  "logAudit eventType userEmail serverName sessionID remoteAddr s =
     s\<lparr>sv_audit := map_option (\<lambda>es. es @ [\<lparr>ae_EventType = eventType, ae_UserEmail = userEmail,
        ae_ServerName = serverName, ae_SessionID = sessionID, ae_RemoteAddr = remoteAddr\<rparr>]) (sv_audit s)\<rparr>"

definition getOrCreateProxy :: "string \<Rightarrow> Server \<Rightarrow> bmcProxyEntry \<times> Server" where
  "getOrCreateProxy name s =
     (case sv_proxies s name of
        Some e \<Rightarrow> (e, s)
      | None \<Rightarrow> (let e = \<lparr>pe_bmcCreds = None, pe_kvmActive = False\<rparr> in (e, s\<lparr>sv_proxies := (sv_proxies s)(name \<mapsto> e)\<rparr>)))"

definition set_proxy :: "string \<Rightarrow> (bmcProxyEntry \<Rightarrow> bmcProxyEntry) \<Rightarrow> Server \<Rightarrow> Server" where
  "set_proxy name f s = (case getOrCreateProxy name s of (e, s) \<Rightarrow> s\<lparr>sv_proxies := (sv_proxies s)(name \<mapsto> f e)\<rparr>)"

text \<open>Writes through a session pointer, and \<open>s.Sessions.Set\<close>.\<close>

definition write_session :: "session_ref \<Rightarrow> (KVMSession \<Rightarrow> KVMSession) \<Rightarrow> Server \<Rightarrow> Server" where
  "write_session r f s = s\<lparr>sv_heap := (sv_heap s)(r := f (sv_heap s r))\<rparr>"

definition set_session :: "session_ref \<Rightarrow> Server \<Rightarrow> Server" where
  "set_session r s = s\<lparr>sv_Sessions := store_Set (sv_heap s) (sv_Sessions s) r\<rparr>"

definition update_session :: "session_ref \<Rightarrow> (KVMSession \<Rightarrow> KVMSession) \<Rightarrow> Server \<Rightarrow> Server" where
  "update_session r f s = set_session r (write_session r f s)"

definition fail_session :: "session_ref \<Rightarrow> string \<Rightarrow> Server \<Rightarrow> Server" where
  "fail_session r msg = update_session r (\<lambda>k. k\<lparr>ks_Status := SessionError, ks_Error := msg\<rparr>)"

text \<open>\<open>strings.ToLower\<close> on ASCII\<close>

definition to_lower :: "string \<Rightarrow> string" where
  "to_lower = map (\<lambda>c. let n = of_char c :: nat in if 65 \<le> n \<and> n \<le> 90 then char_of (n + 32) else c)"

definition transientIndicators :: "string list" where
  "transientIndicators = [''connection refused'', ''timeout'', ''deadline exceeded'', ''503'', ''502'', ''504'',
     ''connection reset'', ''no such host'', ''temporary failure'', ''i/o timeout'']"

definition isTransientError :: "string option \<Rightarrow> bool" where
  "isTransientError err =
     (case err of
        None \<Rightarrow> False
      | Some e \<Rightarrow> list_ex (\<lambda>ind. contains ind (to_lower e)) transientIndicators)"

definition bmcRetryAttempts :: nat where "bmcRetryAttempts = 3"

text \<open>The retry loop: \<open>f k\<close> is the outcome of attempt \<open>k\<close>. The error written when the context expires during the
  pause is overwritten by the next attempt.\<close>

fun retry :: "nat \<Rightarrow> (nat \<Rightarrow> string + 'a) \<Rightarrow> nat \<Rightarrow> string + 'a" where
  "retry 0 f k = Inl ''''"
| "retry (Suc n) f k =
     (case f k of
        Inr x \<Rightarrow> Inr x
      | Inl e \<Rightarrow> if isTransientError (Some e) \<and> 0 < n then retry n f (Suc k) else Inl e)"

section \<open>Creating a session\<close>

text \<open>\<open>req\<close> is the server name of the decoded body, \<open>visit\<close> the order in which \<open>range\<close> meets the sessions, \<open>uid\<close> the
  fresh id.\<close>

definition active :: "KVMSession \<Rightarrow> bool" where
  "active k \<longleftrightarrow> ks_Status k = SessionStarting \<or> ks_Status k = SessionConnected"

definition new_session :: "string \<Rightarrow> string \<Rightarrow> ServerConfig \<Rightarrow> int \<Rightarrow> KVMSession" where
  "new_session uid name cfg now = \<lparr>ks_ID = uid, ks_ServerName = name, ks_BMCIP = sc_BMCIP cfg,
     ks_Status = SessionStarting, ks_ConnMode = None, ks_KVMTarget = '''', ks_KVMPassword = '''', ks_IKVMArgs = None,
     ks_CreatedAt = now, ks_LastActivity = now, ks_Error = ''''\<rparr>"

definition CreateSession ::
  "string option \<Rightarrow> caller \<Rightarrow> string list \<Rightarrow> int \<Rightarrow> string \<Rightarrow> Server \<Rightarrow> (api_response \<times> Server) option" where
  "CreateSession req cl visit now uid s =
     (case req of
        None \<Rightarrow> Some (ApiError 400 ''invalid request body'', s)
      | Some name \<Rightarrow>
          (case find_server (sv_Config s) name of
             None \<Rightarrow> Some (ApiError 404 ''server not found'', s)
           | Some cfg \<Rightarrow> do {
               let oidc = ac_OIDC (sv_Config s);
               may \<leftarrow> (if oc_Enabled oidc then UserCanAccessServer oidc (cl_user cl) name else Some True);
               if \<not> may then Some (ApiError 403 ''access denied to this server'', s)
               else (case store_FindByServer visit (sv_heap s) (sv_Sessions s) name of
                  Some r \<Rightarrow> Some (ApiSession 200 (sv_heap s r), s)
                | None \<Rightarrow>
                    let activeCount = length (filter (\<lambda>r. active (sv_heap s r)) (store_List visit (sv_Sessions s))) in
                    if int activeCount \<ge> st_MaxConcurrentSessions (ac_Settings (sv_Config s))
                    then Some (ApiError 429 ''maximum concurrent sessions reached'', s)
                    else do {
                      let r = sv_next s;
                      let k = new_session uid name cfg now;
                      let s = set_session r (s\<lparr>sv_heap := (sv_heap s)(r := k), sv_next := r + 1\<rparr>);
                      let s = s\<lparr>sv_tasks := sv_tasks s @ [(r, cfg)]\<rparr>;
                      Some (ApiSession 202 k, logAudit ''session_create'' (email_of cl) name uid (cl_ip cl) s)
                    })
             }))"

section \<open>The start-up goroutine\<close>

text \<open>What the goroutine meets: the environment variables, the registered authenticators and the outcomes of
  their calls. \<open>Authenticate\<close> may return no connection info.\<close>

record bmc_env =
  be_getenv :: "string \<Rightarrow> string"
  be_registered :: "string \<Rightarrow> bool"
  be_is_megarac :: "string \<Rightarrow> bool"
  be_Authenticate :: "nat \<Rightarrow> string + (BMCCredentials \<times> KVMConnectInfo option)"
  be_CreateWebSession :: "nat \<Rightarrow> string + BMCCredentials"
  be_getJNLP :: "BMCCredentials \<Rightarrow> string + JViewerArgs"

text \<open>\<open>FetchKVMToken\<close> also writes the tokens into the credentials it was given.\<close>

definition FetchKVMToken :: "bmc_env \<Rightarrow> BMCCredentials \<Rightarrow> string + (BMCCredentials \<times> KVMConnectInfo)" where
  "FetchKVMToken be creds =
     (case be_getJNLP be creds of
        Inl e \<Rightarrow> Inl e
      | Inr args \<Rightarrow> Inr (creds\<lparr>bc_KVMToken := jv_KVMToken args, bc_WebCookie := jv_WebCookie args\<rparr>,
          \<lparr>ci_Mode = KVMModeIKVM, ci_IKVMArgs = Some args, ci_TargetURL = '''', ci_TargetAddr = '''', ci_VNCPassword = ''''\<rparr>))"

definition startIKVMSession :: "int \<Rightarrow> session_ref \<Rightarrow> Server \<Rightarrow> Server" where
  "startIKVMSession now r = update_session r (\<lambda>k. k\<lparr>ks_Status := SessionConnected, ks_LastActivity := now\<rparr>)"

definition startDirectSession :: "int \<Rightarrow> session_ref \<Rightarrow> KVMConnectInfo \<Rightarrow> Server \<Rightarrow> Server" where
  "startDirectSession now r ci s =
     update_session r (\<lambda>k. k\<lparr>ks_Status := SessionConnected, ks_LastActivity := now\<rparr>)
       (write_session r (\<lambda>k.
          if ci_Mode ci = KVMModeWebSocket then k\<lparr>ks_KVMTarget := ci_TargetURL ci\<rparr>
          else if ci_Mode ci = KVMModeVNC then k\<lparr>ks_KVMTarget := ci_TargetAddr ci, ks_KVMPassword := ci_VNCPassword ci\<rparr>
          else k) s)"

definition start_megarac :: "bmc_env \<Rightarrow> int \<Rightarrow> session_ref \<Rightarrow> ServerConfig \<Rightarrow> Server \<Rightarrow> Server" where
  "start_megarac be now r cfg s =
     (let (entry, s) = getOrCreateProxy (sc_Name cfg) s;
          usable = (case pe_bmcCreds entry of None \<Rightarrow> False | Some c \<Rightarrow> bc_SessionCookie c \<noteq> '''')
      in case (if usable then Inr (the (pe_bmcCreds entry)) else retry bmcRetryAttempts (be_CreateWebSession be) 1) of
           Inl e \<Rightarrow> fail_session r ''BMC authentication failed'' s
         | Inr creds \<Rightarrow>
             (let s = set_proxy (sc_Name cfg) (\<lambda>e. e\<lparr>pe_bmcCreds := Some creds\<rparr>) s
              in case FetchKVMToken be creds of
                   Inl e \<Rightarrow> fail_session r ''KVM token fetch failed'' s
                 | Inr (creds', ci) \<Rightarrow>
                     startIKVMSession now r
                       (write_session r (\<lambda>k. k\<lparr>ks_ConnMode := Some KVMModeIKVM, ks_IKVMArgs := ci_IKVMArgs ci\<rparr>)
                          (set_proxy (sc_Name cfg) (\<lambda>e. e\<lparr>pe_bmcCreds := Some creds'\<rparr>) s))))"

text \<open>The connection mode is one of the three constants, so the default branch is not reached.\<close>

definition startSession :: "bmc_env \<Rightarrow> int \<Rightarrow> session_ref \<Rightarrow> ServerConfig \<Rightarrow> Server \<Rightarrow> Server option" where
  "startSession be now r cfg s =
     (case GetPassword (be_getenv be) cfg of
        None \<Rightarrow> Some (fail_session r ''BMC password not configured'' s)
      | Some password \<Rightarrow>
          if \<not> be_registered be (sc_BoardType cfg)
          then Some (fail_session r (''unsupported board type: '' @ sc_BoardType cfg) s)
          else if sc_BoardType cfg = ''ami_megarac'' then
            if \<not> be_is_megarac be (sc_BoardType cfg) then Some (fail_session r ''authenticator type mismatch'' s)
            else Some (start_megarac be now r cfg s)
          else (case retry bmcRetryAttempts (be_Authenticate be) 1 of
             Inl e \<Rightarrow> Some (fail_session r ''BMC authentication failed'' s)
           | Inr (creds, info) \<Rightarrow> do {
               let s = s\<lparr>sv_BMCCreds := (sv_BMCCreds s)(ks_ID (sv_heap s r) \<mapsto> \<lparr>ce_Creds = creds, ce_CreatedAt = now\<rparr>)\<rparr>;
               ci \<leftarrow> info;
               let s = write_session r (\<lambda>k. k\<lparr>ks_ConnMode := Some (ci_Mode ci)\<rparr>) s;
               if ci_Mode ci = KVMModeWebSocket \<or> ci_Mode ci = KVMModeVNC then Some (startDirectSession now r ci s)
               else Some (startIKVMSession now r (write_session r (\<lambda>k. k\<lparr>ks_IKVMArgs := ci_IKVMArgs ci\<rparr>) s))
             }))"

definition run_task :: "bmc_env \<Rightarrow> int \<Rightarrow> Server \<Rightarrow> Server option" where
  "run_task be now s =
     (case sv_tasks s of
        [] \<Rightarrow> Some s
      | (r, cfg) # ts \<Rightarrow> startSession be now r cfg (s\<lparr>sv_tasks := ts\<rparr>))"

section \<open>Other session handlers\<close>

definition KeepAliveSession :: "string \<Rightarrow> int \<Rightarrow> Server \<Rightarrow> api_response \<times> Server" where
  "KeepAliveSession i now s =
     (case store_Get (sv_Sessions s) i of
        None \<Rightarrow> (ApiError 404 ''session not found'', s)
      | Some r \<Rightarrow> (ApiOk, update_session r (\<lambda>k. k\<lparr>ks_LastActivity := now\<rparr>) s))"

text \<open>The idle time left, in nanoseconds, of a connected session.\<close>

definition idle_remaining :: "int \<Rightarrow> Server \<Rightarrow> KVMSession \<Rightarrow> int option" where
  "idle_remaining now s k =
     (if ks_Status k = SessionConnected
      then (let remaining = st_IdleTimeoutMinutes (ac_Settings (sv_Config s)) * 60000000000 - (now - ks_LastActivity k)
            in Some (if remaining < 0 then 0 else remaining))
      else None)"

record sessionResponse =
  sr_KVMSession :: KVMSession
  sr_IdleTimeoutRemaining :: "int option"
  sr_Viewers :: "Viewer list"
  sr_ViewerCount :: nat
  sr_PendingControlReq :: "ControlRequest option"

definition GetSession :: "string \<Rightarrow> int \<Rightarrow> Server \<Rightarrow> string + sessionResponse" where
  "GetSession i now s =
     (case store_Get (sv_Sessions s) i of
        None \<Rightarrow> Inl ''session not found''
      | Some r \<Rightarrow>
          (let k = sv_heap s r;
               resp = \<lparr>sr_KVMSession = k, sr_IdleTimeoutRemaining = idle_remaining now s k, sr_Viewers = [],
                 sr_ViewerCount = 0, sr_PendingControlReq = None\<rparr>
           in Inr (case sv_ViewerRegistries s i of
                None \<Rightarrow> resp
              | Some reg \<Rightarrow> resp\<lparr>sr_Viewers := List_viewers reg, sr_ViewerCount := Count reg,
                  sr_PendingControlReq := PendingRequest reg\<rparr>)))"

definition ListSessions :: "string list \<Rightarrow> Server \<Rightarrow> KVMSession list" where
  "ListSessions visit s = map (sv_heap s) (store_List visit (sv_Sessions s))"

text \<open>\<open>ServerInfo\<close> of each server the caller may see: its configuration and its active session, if any.\<close>

definition ListServers :: "caller \<Rightarrow> string list \<Rightarrow> Server \<Rightarrow> (ServerConfig \<times> string option) list option" where
  "ListServers cl visit s =
     (let oidc = ac_OIDC (sv_Config s) in
      foldM (\<lambda>srv acc. do {
          may \<leftarrow> (if oc_Enabled oidc then UserCanAccessServer oidc (cl_user cl) (sc_Name srv) else Some True);
          if \<not> may then Some acc
          else Some (acc @ [(srv, map_option (\<lambda>r. ks_ID (sv_heap s r))
                 (store_FindByServer visit (sv_heap s) (sv_Sessions s) (sc_Name srv)))])
        }) (ac_Servers (sv_Config s)) [])"

definition StopIKVMBridge :: "string \<Rightarrow> Server \<Rightarrow> Server option" where
  "StopIKVMBridge i s =
     (case sv_Bridges s i of
        None \<Rightarrow> Some s
      | Some b \<Rightarrow> do {
          _ \<leftarrow> stop_bridge b;
          let s = s\<lparr>sv_Bridges := (sv_Bridges s)(i := None)\<rparr>;
          Some (case store_Get (sv_Sessions s) i of
             None \<Rightarrow> s
           | Some r \<Rightarrow>
               (case find_server (sv_Config s) (ks_ServerName (sv_heap s r)) of
                  None \<Rightarrow> s
                | Some cfg \<Rightarrow> set_proxy (sc_Name cfg) (\<lambda>e. e\<lparr>pe_kvmActive := False\<rparr>) s))
        })"

definition StopVNCBridge :: "string \<Rightarrow> Server \<Rightarrow> Server" where
  "StopVNCBridge i s =
     (case sv_VNCBridges s i of
        None \<Rightarrow> s
      | Some r \<Rightarrow> s\<lparr>sv_VNCBridges := (sv_VNCBridges s)(i := None), sv_vnc := (sv_vnc s)(r := vb_Stop (sv_vnc s r))\<rparr>)"

definition StopWSSProxy :: "string \<Rightarrow> Server \<Rightarrow> Server" where
  "StopWSSProxy i s =
     (case sv_WSSProxies s i of
        None \<Rightarrow> s
      | Some r \<Rightarrow> s\<lparr>sv_WSSProxies := (sv_WSSProxies s)(i := None), sv_wss := (sv_wss s)(r := close_proxy (sv_wss s r))\<rparr>)"

text \<open>The logout of stored credentials, if the server is configured and its board type is known to \<open>reg\<close>.\<close>

definition bmc_logout :: "(string \<Rightarrow> bool) \<Rightarrow> string \<Rightarrow> BMCCredentials \<Rightarrow> Server \<Rightarrow> Server" where
  "bmc_logout reg name creds s =
     (case find_server (sv_Config s) name of
        None \<Rightarrow> s
      | Some cfg \<Rightarrow> if reg (sc_BoardType cfg) then s\<lparr>sv_logouts := sv_logouts s @ [(name, creds)]\<rparr> else s)"

definition DeleteSession ::
  "(string \<Rightarrow> bool) \<Rightarrow> string \<Rightarrow> caller \<Rightarrow> Server \<Rightarrow> (api_response \<times> Server) option" where
  "DeleteSession reg i cl s =
     (case store_Get (sv_Sessions s) i of
        None \<Rightarrow> Some (ApiError 404 ''session not found'', s)
      | Some r \<Rightarrow> do {
          let s = (case sv_BMCCreds s i of
                     None \<Rightarrow> s
                   | Some e \<Rightarrow> bmc_logout reg (ks_ServerName (sv_heap s r)) (ce_Creds e)
                       (s\<lparr>sv_BMCCreds := (sv_BMCCreds s)(i := None)\<rparr>));
          s \<leftarrow> StopIKVMBridge i s;
          let s = StopWSSProxy i (StopVNCBridge i s);
          let s = update_session r (\<lambda>k. k\<lparr>ks_Status := SessionDisconnected\<rparr>) s;
          let s = logAudit ''session_delete'' (email_of cl) (ks_ServerName (sv_heap s r)) i (cl_ip cl) s;
          Some (ApiSession 200 (sv_heap s r), s)
        })"

section \<open>Cleanup\<close>

definition cleanup_idle :: "int \<Rightarrow> session_ref \<Rightarrow> Server \<Rightarrow> Server option" where
  "cleanup_idle threshold r s =
     (let k = sv_heap s r in
      if ks_Status k = SessionConnected \<and> ks_LastActivity k < threshold then do {
        s \<leftarrow> StopIKVMBridge (ks_ID k) s;
        Some (update_session r (\<lambda>k. k\<lparr>ks_Status := SessionDisconnected\<rparr>) s)
      }
      else Some s)"

text \<open>\<open>visit\<close> is the order in which the range over the credentials meets them.\<close>

definition stale_cred :: "int \<Rightarrow> Server \<Rightarrow> string \<Rightarrow> bool" where
  "stale_cred threshold s i =
     (case sv_BMCCreds s i of
        None \<Rightarrow> False
      | Some e \<Rightarrow> ce_CreatedAt e < threshold
          \<and> (case store_Get (sv_Sessions s) i of
               None \<Rightarrow> True
             | Some r \<Rightarrow> ks_Status (sv_heap s r) = SessionDisconnected \<or> ks_Status (sv_heap s r) = SessionError))"

definition CleanupStaleBMCCreds :: "(string \<Rightarrow> bool) \<Rightarrow> string list \<Rightarrow> int \<Rightarrow> int \<Rightarrow> Server \<Rightarrow> Server" where
  "CleanupStaleBMCCreds reg visit ttlMinutes now s =
     (let threshold = now - ttlMinutes * 60000000000;
          stale = filter (stale_cred threshold s) visit;
          toLogout = List.map_filter (\<lambda>i. case (sv_BMCCreds s i, store_Get (sv_Sessions s) i) of
              (Some e, Some r) \<Rightarrow> Some (ks_ServerName (sv_heap s r), ce_Creds e)
            | _ \<Rightarrow> None) stale;
          s = s\<lparr>sv_BMCCreds := (\<lambda>i. if i \<in> set stale then None else sv_BMCCreds s i)\<rparr>
      in fold (\<lambda>(name, creds). bmc_logout reg name creds) toLogout s)"

text \<open>One tick of \<open>sessionCleanup\<close>, without the purge of the audit log.\<close>

definition sessionCleanup ::
  "(string \<Rightarrow> bool) \<Rightarrow> string list \<Rightarrow> string list \<Rightarrow> int \<Rightarrow> Server \<Rightarrow> Server option" where
  "sessionCleanup reg visit visit_creds now s = do {
     let st = ac_Settings (sv_Config s);
     s \<leftarrow> foldM (cleanup_idle (now - st_IdleTimeoutMinutes st * 60000000000)) (store_List visit (sv_Sessions s)) s;
     Some (CleanupStaleBMCCreds reg visit_creds (st_BMCCredsTTLMinutes st) now s)
   }"

section \<open>Executions\<close>

datatype server_op =
    OCreate "string option" caller "string list" int string
  | OTask bmc_env int
  | OKeepAlive string int
  | ODelete "string \<Rightarrow> bool" string caller
  | OCleanup "string \<Rightarrow> bool" "string list" "string list" int

fun server_next :: "server_op \<Rightarrow> Server \<Rightarrow> Server option" where
  "server_next (OCreate req cl visit now uid) s = map_option snd (CreateSession req cl visit now uid s)"
| "server_next (OTask be now) s = run_task be now s"
| "server_next (OKeepAlive i now) s = Some (snd (KeepAliveSession i now s))"
| "server_next (ODelete reg i cl) s = map_option snd (DeleteSession reg i cl s)"
| "server_next (OCleanup reg visit visit_creds now) s = sessionCleanup reg visit visit_creds now s"

text \<open>What the environment provides: \<open>range\<close> meets every session once, new ids are fresh, and, which the code
  does not ensure, no session is deleted while its start-up task is still to run.\<close>

fun server_ok :: "Server \<Rightarrow> server_op \<Rightarrow> bool" where
  "server_ok s (OCreate req cl visit now uid) \<longleftrightarrow> enumerates visit (sv_Sessions s) \<and> sv_Sessions s uid = None"
| "server_ok s (ODelete reg i cl) \<longleftrightarrow> (\<forall>r. sv_Sessions s i = Some r \<longrightarrow> r \<notin> fst ` set (sv_tasks s))"
| "server_ok s (OCleanup reg visit visit_creds now) \<longleftrightarrow> enumerates visit (sv_Sessions s)"
| "server_ok s (OTask be now) \<longleftrightarrow> True"
| "server_ok s (OKeepAlive i now) \<longleftrightarrow> True"

inductive server_state :: "AppConfig \<Rightarrow> Server \<Rightarrow> bool" for cfg where
  start: "server_state cfg (newServerCore cfg)"
| step: "\<lbrakk>server_state cfg s; server_ok s op; server_next op s = Some s'\<rbrakk> \<Longrightarrow> server_state cfg s'"

section \<open>Invariant\<close>

definition active_ids :: "Server \<Rightarrow> string set" where
  "active_ids s = {i. \<exists>r. sv_Sessions s i = Some r \<and> active (sv_heap s r)}"

definition stored :: "Server \<Rightarrow> session_ref \<Rightarrow> bool" where
  "stored s r \<longleftrightarrow> sv_Sessions s (ks_ID (sv_heap s r)) = Some r"

definition store_inv :: "Server \<Rightarrow> bool" where
  "store_inv s \<longleftrightarrow> finite (dom (sv_Sessions s))
     \<and> (\<forall>i r. sv_Sessions s i = Some r \<longrightarrow> r < sv_next s \<and> ks_ID (sv_heap s r) = i)
     \<and> (\<forall>i j r q. sv_Sessions s i = Some r \<longrightarrow> sv_Sessions s j = Some q \<longrightarrow> active (sv_heap s r) \<longrightarrow> active (sv_heap s q)
          \<longrightarrow> ks_ServerName (sv_heap s r) = ks_ServerName (sv_heap s q) \<longrightarrow> i = j)
     \<and> int (card (active_ids s)) \<le> max 0 (st_MaxConcurrentSessions (ac_Settings (sv_Config s)))"

definition tasks_inv :: "Server \<Rightarrow> bool" where
  "tasks_inv s \<longleftrightarrow> distinct (map fst (sv_tasks s))
     \<and> (\<forall>(r, cfg)\<in>set (sv_tasks s). stored s r \<and> ks_Status (sv_heap s r) = SessionStarting)"

text \<open>Every operation but \<open>CreateSession\<close> keeps the stored sessions, their ids and names, and makes none
  active.\<close>

definition shrinks :: "Server \<Rightarrow> Server \<Rightarrow> bool" where
  "shrinks s s' \<longleftrightarrow> sv_Sessions s' = sv_Sessions s \<and> sv_next s' = sv_next s \<and> sv_Config s' = sv_Config s
     \<and> (\<forall>r. ks_ID (sv_heap s' r) = ks_ID (sv_heap s r) \<and> ks_ServerName (sv_heap s' r) = ks_ServerName (sv_heap s r)
          \<and> (active (sv_heap s' r) \<longrightarrow> active (sv_heap s r)))"

lemma shrinks_refl [simp]: "shrinks s s"
  by (simp add: shrinks_def)

lemma shrinks_trans: "shrinks s t \<Longrightarrow> shrinks t u \<Longrightarrow> shrinks s u"
  unfolding shrinks_def by simp

lemma shrinks_stored: "shrinks s s' \<Longrightarrow> stored s' r = stored s r"
  by (simp add: shrinks_def stored_def)

lemma shrinks_store_inv:
  assumes "shrinks s s'" "store_inv s"
  shows "store_inv s'"
proof -
  have sub: "active_ids s' \<subseteq> active_ids s" "active_ids s \<subseteq> dom (sv_Sessions s)"
    using assms(1) by (auto simp: active_ids_def shrinks_def)
  have "card (active_ids s') \<le> card (active_ids s)"
    using sub assms(2) by (intro card_mono) (auto simp: store_inv_def intro: finite_subset)
  then have "int (card (active_ids s')) \<le> max 0 (st_MaxConcurrentSessions (ac_Settings (sv_Config s)))"
    using assms(2) unfolding store_inv_def by linarith
  then show ?thesis
    using assms unfolding store_inv_def shrinks_def by simp
qed

text \<open>The building blocks.\<close>

lemma write_session_shrinks:
  assumes "\<And>k. ks_ID (f k) = ks_ID k \<and> ks_ServerName (f k) = ks_ServerName k" "active (f (sv_heap s r)) \<Longrightarrow> active (sv_heap s r)"
  shows "shrinks s (write_session r f s)"
  using assms by (simp add: shrinks_def write_session_def)

lemma set_session_stored: "stored s r \<Longrightarrow> set_session r s = s"
  by (simp add: set_session_def stored_def store_Set_def map_upd_triv)

lemma update_session_shrinks:
  assumes "stored s r" "\<And>k. ks_ID (f k) = ks_ID k \<and> ks_ServerName (f k) = ks_ServerName k"
    "active (f (sv_heap s r)) \<Longrightarrow> active (sv_heap s r)"
  shows "shrinks s (update_session r f s)" "update_session r f s = write_session r f s"
proof -
  have sh: "shrinks s (write_session r f s)" by (rule write_session_shrinks[OF assms(2,3)])
  then have "stored (write_session r f s) r" using shrinks_stored assms(1) by blast
  then show "update_session r f s = write_session r f s" by (simp add: update_session_def set_session_stored)
  with sh show "shrinks s (update_session r f s)" by simp
qed

lemma write_session_fields [simp]:
  "sv_tasks (write_session r f s) = sv_tasks s" "sv_VNCBridges (write_session r f s) = sv_VNCBridges s"
  "sv_heap (write_session r f s) = (sv_heap s)(r := f (sv_heap s r))" "sv_BMCCreds (write_session r f s) = sv_BMCCreds s"
  "sv_Sessions (write_session r f s) = sv_Sessions s"
  by (simp_all add: write_session_def)

lemma update_session_fields [simp]:
  "sv_tasks (update_session r f s) = sv_tasks s" "sv_VNCBridges (update_session r f s) = sv_VNCBridges s"
  "sv_heap (update_session r f s) = (sv_heap s)(r := f (sv_heap s r))" "sv_BMCCreds (update_session r f s) = sv_BMCCreds s"
  by (simp_all add: update_session_def set_session_def)

text \<open>Operations on the other parts of the server.\<close>

definition same_sessions :: "Server \<Rightarrow> Server \<Rightarrow> bool" where
  "same_sessions s s' \<longleftrightarrow> sv_Sessions s' = sv_Sessions s \<and> sv_next s' = sv_next s \<and> sv_Config s' = sv_Config s
     \<and> sv_heap s' = sv_heap s \<and> sv_tasks s' = sv_tasks s"

lemma same_sessions_simps [simp]:
  "same_sessions s s" "same_sessions s (logAudit a b c d e s)" "same_sessions s (snd (getOrCreateProxy n s))"
  "same_sessions s (set_proxy n g s)" "same_sessions s (bmc_logout reg n creds s)"
  "same_sessions s (StopVNCBridge i s)" "same_sessions s (StopWSSProxy i s)" "same_sessions s (s\<lparr>sv_BMCCreds := h\<rparr>)"
  by (auto simp: same_sessions_def logAudit_def getOrCreateProxy_def set_proxy_def bmc_logout_def StopVNCBridge_def StopWSSProxy_def Let_def split: option.splits)

lemma same_sessions_trans: "same_sessions s t \<Longrightarrow> same_sessions t u \<Longrightarrow> same_sessions s u"
  by (simp add: same_sessions_def)

lemma StopIKVMBridge_same: "StopIKVMBridge i s = Some s' \<Longrightarrow> same_sessions s s'"
proof -
  assume a: "StopIKVMBridge i s = Some s'"
  have "same_sessions s (s\<lparr>sv_Bridges := f\<rparr>)" for f by (simp add: same_sessions_def)
  then show ?thesis
    using a unfolding StopIKVMBridge_def
    by (auto simp: Let_def elim!: bind_SomeE intro: same_sessions_trans[OF _ same_sessions_simps(4)] split: option.splits)
qed

lemma same_sessions_shrinks: "same_sessions s s' \<Longrightarrow> shrinks s s'"
  by (simp add: same_sessions_def shrinks_def)

lemma cleanup_creds_same: "same_sessions s (CleanupStaleBMCCreds reg visit ttl now s)"
proof -
  have f: "same_sessions s (fold (\<lambda>(name, creds). bmc_logout reg name creds) xs s)" for s xs
    by (induction xs arbitrary: s) (auto intro: same_sessions_trans[OF same_sessions_simps(5)])
  have "same_sessions s (s\<lparr>sv_BMCCreds := g\<rparr>)" for g by (simp add: same_sessions_def)
  then show ?thesis unfolding CleanupStaleBMCCreds_def Let_def by (rule same_sessions_trans[OF _ f])
qed

text \<open>The start-up task makes a starting session connected or failed and touches no other.\<close>

definition starts :: "session_ref \<Rightarrow> Server \<Rightarrow> Server \<Rightarrow> bool" where
  "starts r s s' \<longleftrightarrow> shrinks s s' \<and> sv_tasks s' = sv_tasks s \<and> (\<forall>q. q \<noteq> r \<longrightarrow> sv_heap s' q = sv_heap s q)"

lemma starts_same: "same_sessions s s' \<Longrightarrow> starts r s s'"
  by (simp add: starts_def same_sessions_shrinks) (simp add: same_sessions_def)

lemma starts_trans: "starts r s t \<Longrightarrow> starts r t u \<Longrightarrow> starts r s u"
  by (simp add: starts_def shrinks_trans[of s t u])

lemma starts_update:
  assumes "stored s r" "\<And>k. ks_ID (f k) = ks_ID k \<and> ks_ServerName (f k) = ks_ServerName k" "active (sv_heap s r)"
  shows "starts r s (update_session r f s)"
  using update_session_shrinks(1)[OF assms(1,2)] assms(3) by (simp add: starts_def)

lemma starts_write:
  assumes "\<And>k. ks_ID (f k) = ks_ID k \<and> ks_ServerName (f k) = ks_ServerName k" "active (sv_heap s r)"
  shows "starts r s (write_session r f s)"
  using write_session_shrinks[of f s r, OF assms(1)] assms(2) by (simp add: starts_def)

text \<open>A chain of such updates, as long as the session stays active in between.\<close>

definition live_ref :: "session_ref \<Rightarrow> Server \<Rightarrow> bool" where
  "live_ref r s \<longleftrightarrow> stored s r \<and> active (sv_heap s r)"

lemma fail_session_starts: "live_ref r s \<Longrightarrow> starts r s (fail_session r msg s)"
  unfolding fail_session_def live_ref_def by (intro starts_update) auto

lemma live_same: "same_sessions s s' \<Longrightarrow> live_ref r s' = live_ref r s"
  by (simp add: live_ref_def same_sessions_def stored_def)

lemma live_write:
  assumes "\<And>k. ks_ID (f k) = ks_ID k \<and> ks_ServerName (f k) = ks_ServerName k \<and> (active k \<longrightarrow> active (f k))" "live_ref r s"
  shows "starts r s (write_session r f s) \<and> live_ref r (write_session r f s)"
proof -
  have "starts r s (write_session r f s)" using assms by (intro starts_write) (auto simp: live_ref_def)
  then show ?thesis using assms shrinks_stored by (auto simp: starts_def live_ref_def)
qed

lemma startIKVMSession_starts: "live_ref r s \<Longrightarrow> starts r s (startIKVMSession now r s)"
  unfolding startIKVMSession_def live_ref_def by (intro starts_update) auto

lemma startDirectSession_starts:
  assumes "live_ref r s"
  shows "starts r s (startDirectSession now r ci s)"
proof -
  let ?f = "\<lambda>k. if ci_Mode ci = KVMModeWebSocket then k\<lparr>ks_KVMTarget := ci_TargetURL ci\<rparr>
          else if ci_Mode ci = KVMModeVNC then k\<lparr>ks_KVMTarget := ci_TargetAddr ci, ks_KVMPassword := ci_VNCPassword ci\<rparr>
          else k"
  have w: "starts r s (write_session r ?f s) \<and> live_ref r (write_session r ?f s)"
    using assms by (intro live_write) (auto simp: active_def)
  then have "starts r (write_session r ?f s) (startDirectSession now r ci s)"
    unfolding startDirectSession_def live_ref_def by (intro starts_update) auto
  with w starts_trans show ?thesis by blast
qed

lemma start_megarac_starts:
  assumes "live_ref r s"
  shows "starts r s (start_megarac be now r cfg s)"
proof -
  obtain entry s1 where e: "getOrCreateProxy (sc_Name cfg) s = (entry, s1)" by (cases "getOrCreateProxy (sc_Name cfg) s")
  have s1: "same_sessions s s1" using same_sessions_simps(3)[of s "sc_Name cfg"] by (simp add: e)
  let ?f = "\<lambda>ci k. k\<lparr>ks_ConnMode := Some KVMModeIKVM, ks_IKVMArgs := ci_IKVMArgs ci\<rparr>"
  have fails: "starts r s (fail_session r m u)" if "same_sessions s u" for m u
    using starts_trans[OF starts_same[OF that] fail_session_starts] assms live_same[OF that] by blast
  have conn: "starts r s (startIKVMSession now r (write_session r (?f ci) u))" if "same_sessions s u" for ci u
  proof -
    have "live_ref r u" using assms live_same[OF that] by blast
    then have "starts r u (write_session r (?f ci) u) \<and> live_ref r (write_session r (?f ci) u)"
      by (intro live_write) (auto simp: active_def)
    then show ?thesis using startIKVMSession_starts starts_trans starts_same[OF that] by blast
  qed
  have p: "same_sessions s (set_proxy n g s1)" "same_sessions s (set_proxy n' g' (set_proxy n g s1))" for n n' g g'
    using s1 same_sessions_trans same_sessions_simps(4) by blast+
  show ?thesis
    unfolding start_megarac_def e Let_def prod.case
    by (auto split: sum.split intro!: fails conn s1 p)
qed

lemma startSession_starts:
  assumes "live_ref r s" "startSession be now r cfg s = Some s'"
  shows "starts r s s'"
proof -
  let ?c = "\<lambda>creds. s\<lparr>sv_BMCCreds := (sv_BMCCreds s)(ks_ID (sv_heap s r) \<mapsto> creds)\<rparr>"
  have c: "same_sessions s (?c creds)" for creds by (simp add: same_sessions_def)
  have direct: "starts r s (startDirectSession now r ci (write_session r f (?c creds)))"
    "starts r s (startIKVMSession now r (write_session r g (write_session r f (?c creds))))"
    if fg: "\<And>k. ks_ID (f k) = ks_ID k \<and> ks_ServerName (f k) = ks_ServerName k \<and> (active k \<longrightarrow> active (f k))"
      "\<And>k. ks_ID (g k) = ks_ID k \<and> ks_ServerName (g k) = ks_ServerName k \<and> (active k \<longrightarrow> active (g k))"
    for ci f g creds
  proof -
    have l: "live_ref r (?c creds)" using live_same[OF c] assms(1) by blast
    note w = live_write[of f, OF fg(1) l] 
    note w2 = live_write[of g, OF fg(2) conjunct2[OF w]]
    have s: "starts r s (write_session r f (?c creds))" using starts_trans[OF starts_same[OF c] conjunct1[OF w]] .
    show "starts r s (startDirectSession now r ci (write_session r f (?c creds)))"
      using starts_trans[OF s startDirectSession_starts[OF conjunct2[OF w]]] .
    show "starts r s (startIKVMSession now r (write_session r g (write_session r f (?c creds))))"
      using starts_trans[OF starts_trans[OF s conjunct1[OF w2]] startIKVMSession_starts[OF conjunct2[OF w2]]] .
  qed
  show ?thesis
    using assms unfolding startSession_def Let_def
    by (auto elim!: bind_SomeE intro!: direct split: option.split_asm if_split_asm sum.split_asm
        intro: fail_session_starts start_megarac_starts) (auto simp: active_def)
qed

section \<open>Every operation keeps the invariant\<close>

lemma tasks_live: "tasks_inv s \<Longrightarrow> (r, cfg) \<in> set (sv_tasks s) \<Longrightarrow> live_ref r s"
  by (auto simp: tasks_inv_def live_ref_def active_def)

text \<open>Tasks survive an operation that leaves their sessions alone.\<close>

lemma tasks_keep:
  assumes "tasks_inv s" "shrinks s s'" "set (sv_tasks s') \<subseteq> set (sv_tasks s)" "distinct (map fst (sv_tasks s'))"
    "\<And>r cfg. (r, cfg) \<in> set (sv_tasks s') \<Longrightarrow> ks_Status (sv_heap s' r) = ks_Status (sv_heap s r)"
  shows "tasks_inv s'"
  using assms unfolding tasks_inv_def by (fastforce simp: shrinks_stored)

lemma run_task_inv:
  assumes "store_inv s" "tasks_inv s" "run_task be now s = Some s'"
  shows "store_inv s' \<and> tasks_inv s'"
proof (cases "sv_tasks s")
  case Nil
  then show ?thesis using assms by (simp add: run_task_def)
next
  case (Cons t ts)
  obtain r cfg where t: "t = (r, cfg)" by (cases t)
  let ?s = "s\<lparr>sv_tasks := ts\<rparr>"
  have "live_ref r s" using tasks_live[OF assms(2), of r cfg] Cons t by simp
  then have "live_ref r ?s" by (simp add: live_ref_def stored_def)
  then have st: "starts r ?s s'" using startSession_starts assms(3) Cons t by (simp add: run_task_def)
  have sh: "shrinks s s'" using st by (simp add: starts_def shrinks_def)
  have "r \<notin> fst ` set ts" using assms(2) by (simp add: tasks_inv_def Cons t)
  then have "sv_heap s' q = sv_heap s q" if "(q, c) \<in> set ts" for q c
    using st that by (force simp: starts_def)
  then have "tasks_inv s'"
    using assms(2) st Cons by (intro tasks_keep[OF assms(2) sh]) (auto simp: tasks_inv_def starts_def)
  then show ?thesis using shrinks_store_inv[OF sh assms(1)] by simp
qed

lemma stored_get: "store_inv s \<Longrightarrow> store_Get (sv_Sessions s) i = Some r \<Longrightarrow> stored s r \<and> ks_ID (sv_heap s r) = i"
  by (simp add: store_inv_def stored_def store_Get_def)

lemma KeepAlive_inv:
  assumes "store_inv s" "tasks_inv s"
  shows "store_inv (snd (KeepAliveSession i now s)) \<and> tasks_inv (snd (KeepAliveSession i now s))"
proof (cases "store_Get (sv_Sessions s) i")
  case (Some r)
  let ?f = "\<lambda>k. k\<lparr>ks_LastActivity := now\<rparr>"
  have sh: "shrinks s (update_session r ?f s)"
    using stored_get[OF assms(1) Some] by (intro update_session_shrinks(1)) (auto simp: active_def)
  have "tasks_inv (update_session r ?f s)"
    using assms(2) by (intro tasks_keep[OF assms(2) sh]) (auto simp: tasks_inv_def)
  then show ?thesis using shrinks_store_inv[OF sh assms(1)] Some by (simp add: KeepAliveSession_def)
qed (use assms in \<open>simp add: KeepAliveSession_def\<close>)

lemma disconnect_inv:
  assumes "store_inv s" "tasks_inv s" "stored s r" "r \<notin> fst ` set (sv_tasks s)"
  shows "store_inv (update_session r (\<lambda>k. k\<lparr>ks_Status := SessionDisconnected\<rparr>) s)
    \<and> tasks_inv (update_session r (\<lambda>k. k\<lparr>ks_Status := SessionDisconnected\<rparr>) s)"
proof -
  let ?f = "\<lambda>k. k\<lparr>ks_Status := SessionDisconnected\<rparr>"
  have sh: "shrinks s (update_session r ?f s)"
    using assms(3) by (intro update_session_shrinks(1)) (auto simp: active_def)
  have "tasks_inv (update_session r ?f s)"
    using assms(2,4) by (intro tasks_keep[OF assms(2) sh]) (auto simp: tasks_inv_def image_iff)
  then show ?thesis using shrinks_store_inv[OF sh assms(1)] by simp
qed

lemma same_inv: "same_sessions s s' \<Longrightarrow> store_inv s' = store_inv s \<and> tasks_inv s' = tasks_inv s"
  by (simp add: same_sessions_def store_inv_def tasks_inv_def active_ids_def stored_def)

text \<open>What \<open>DeleteSession\<close> does before it marks the session touches no session.\<close>

lemma Delete_steps:
  assumes "store_Get (sv_Sessions s) i = Some r" "DeleteSession reg i cl s = Some (resp, s')"
  obtains s2 where "same_sessions s s2"
    "s' = logAudit ''session_delete'' (email_of cl) (ks_ServerName (sv_heap s r)) i (cl_ip cl)
       (update_session r (\<lambda>k. k\<lparr>ks_Status := SessionDisconnected\<rparr>) s2)"
proof -
  define s0 where "s0 = (case sv_BMCCreds s i of
                     None \<Rightarrow> s
                   | Some e \<Rightarrow> bmc_logout reg (ks_ServerName (sv_heap s r)) (ce_Creds e)
                       (s\<lparr>sv_BMCCreds := (sv_BMCCreds s)(i := None)\<rparr>))"
  have 0: "same_sessions s s0"
    unfolding s0_def by (auto intro: same_sessions_trans[OF same_sessions_simps(8) same_sessions_simps(5)] split: option.split)
  obtain s1 where s1: "StopIKVMBridge i s0 = Some s1"
    using assms unfolding DeleteSession_def Let_def assms(1) option.case(2) s0_def[symmetric]
    by (cases "StopIKVMBridge i s0") auto
  have 1: "same_sessions s (StopWSSProxy i (StopVNCBridge i s1))"
    by (rule same_sessions_trans[OF same_sessions_trans[OF same_sessions_trans[OF 0 StopIKVMBridge_same[OF s1]]
          same_sessions_simps(6)] same_sessions_simps(7)])
  then have "sv_heap (StopWSSProxy i (StopVNCBridge i s1)) r = sv_heap s r" by (simp add: same_sessions_def)
  then show ?thesis
    using assms s1 unfolding DeleteSession_def Let_def assms(1) option.case(2) s0_def[symmetric]
    by (intro that[OF 1]) auto
qed

lemma Delete_inv:
  assumes "store_inv s" "tasks_inv s" "server_ok s (ODelete reg i cl)" "DeleteSession reg i cl s = Some (resp, s')"
  shows "store_inv s' \<and> tasks_inv s'"
proof (cases "store_Get (sv_Sessions s) i")
  case (Some r)
  obtain s2 where 2: "same_sessions s s2"
    "s' = logAudit ''session_delete'' (email_of cl) (ks_ServerName (sv_heap s r)) i (cl_ip cl)
       (update_session r (\<lambda>k. k\<lparr>ks_Status := SessionDisconnected\<rparr>) s2)"
    by (rule Delete_steps[OF Some assms(4)])
  have "store_inv s2" "tasks_inv s2" "stored s2 r" "r \<notin> fst ` set (sv_tasks s2)"
    using same_inv[OF 2(1)] 2(1) assms(1-3) stored_get[OF assms(1) Some] Some
    by (auto simp: same_sessions_def stored_def store_Get_def)
  from disconnect_inv[OF this] show ?thesis
    unfolding 2(2) using same_inv[OF same_sessions_simps(2)] by blast
qed (use assms in \<open>simp add: DeleteSession_def\<close>)

lemma cleanup_idle_inv:
  assumes "store_inv s" "tasks_inv s" "stored s r" "cleanup_idle th r s = Some s'"
  shows "store_inv s' \<and> tasks_inv s' \<and> shrinks s s'"
proof (cases "ks_Status (sv_heap s r) = SessionConnected \<and> ks_LastActivity (sv_heap s r) < th")
  case True
  obtain s1 where s1: "StopIKVMBridge (ks_ID (sv_heap s r)) s = Some s1"
    "s' = update_session r (\<lambda>k. k\<lparr>ks_Status := SessionDisconnected\<rparr>) s1"
    using assms(4) True by (auto simp: cleanup_idle_def Let_def elim!: bind_SomeE)
  have 1: "same_sessions s s1" by (rule StopIKVMBridge_same[OF s1(1)])
  have "r \<notin> fst ` set (sv_tasks s)" using assms(2) True by (auto simp: tasks_inv_def)
  then have r: "store_inv s1" "tasks_inv s1" "stored s1 r" "r \<notin> fst ` set (sv_tasks s1)"
    using same_inv[OF 1] 1 assms(1-3) by (auto simp: same_sessions_def stored_def)
  have "shrinks s1 s'" unfolding s1(2) using r(3) by (intro update_session_shrinks(1)) (auto simp: active_def)
  then show ?thesis
    using disconnect_inv[OF r] s1(2) shrinks_trans[OF same_sessions_shrinks[OF 1]] by blast
next
  case False
  then have "s' = s" using assms(4) by (auto simp: cleanup_idle_def Let_def)
  then show ?thesis using assms(1,2) by simp
qed

lemma cleanup_all_inv:
  assumes "store_inv s" "tasks_inv s" "\<forall>r\<in>set rs. stored s r" "foldM (cleanup_idle th) rs s = Some s'"
  shows "store_inv s' \<and> tasks_inv s' \<and> shrinks s s'"
  using assms
proof (induction rs arbitrary: s)
  case (Cons r rs)
  obtain s1 where s1: "cleanup_idle th r s = Some s1" "foldM (cleanup_idle th) rs s1 = Some s'"
    using Cons.prems(4) by (auto elim!: bind_SomeE)
  have 1: "store_inv s1 \<and> tasks_inv s1 \<and> shrinks s s1"
    using cleanup_idle_inv[OF Cons.prems(1,2) _ s1(1)] Cons.prems(3) by simp
  then have "\<forall>r\<in>set rs. stored s1 r" using Cons.prems(3) shrinks_stored by auto
  then show ?case using Cons.IH[OF _ _ _ s1(2)] 1 shrinks_trans by blast
qed simp

lemma listed_stored: "store_inv s \<Longrightarrow> r \<in> set (store_List visit (sv_Sessions s)) \<Longrightarrow> stored s r"
  by (auto simp: store_List_def map_filter_def store_inv_def stored_def)

lemma cleanup_inv:
  assumes "store_inv s" "tasks_inv s" "sessionCleanup reg visit visit_creds now s = Some s'"
  shows "store_inv s' \<and> tasks_inv s'"
proof -
  obtain s1 ttl where s1: "foldM (cleanup_idle (now - st_IdleTimeoutMinutes (ac_Settings (sv_Config s)) * 60000000000))
      (store_List visit (sv_Sessions s)) s = Some s1" "s' = CleanupStaleBMCCreds reg visit_creds ttl now s1"
    using assms(3) by (auto simp: sessionCleanup_def Let_def elim!: bind_SomeE)
  have "store_inv s1 \<and> tasks_inv s1"
    using cleanup_all_inv[OF assms(1,2) _ s1(1)] listed_stored[OF assms(1)] by blast
  then show ?thesis unfolding s1(2) using same_inv[OF cleanup_creds_same] by blast
qed

text \<open>\<open>CreateSession\<close> adds a session only below the limit and only for a server without an active one.\<close>

lemma enumerated_list:
  assumes "enumerates visit st" "inj_on st (dom st)"
  shows "distinct (store_List visit st)" "set (store_List visit st) = ran st"
proof -
  have all: "filter (\<lambda>i. st i \<noteq> None) visit = visit"
    using assms(1) by (auto simp: enumerates_def filter_id_conv dom_def)
  then have l: "store_List visit st = map (the \<circ> st) visit"
    by (simp add: store_List_def map_filter_def)
  have "inj_on (the \<circ> st) (set visit)"
    using assms by (auto simp: inj_on_def enumerates_def dom_def)
  then show "distinct (store_List visit st)" using assms(1) by (simp add: l distinct_map enumerates_def)
  show "set (store_List visit st) = ran st"
    using assms(1) unfolding l by (force simp: enumerates_def dom_def ran_def)
qed

lemma count_active:
  assumes "store_inv s" "enumerates visit (sv_Sessions s)"
  shows "length (filter (\<lambda>r. active (sv_heap s r)) (store_List visit (sv_Sessions s))) = card (active_ids s)"
proof -
  have inj: "inj_on (sv_Sessions s) (dom (sv_Sessions s))"
    using assms(1) by (auto simp: inj_on_def store_inv_def) (metis option.inject)
  let ?rs = "filter (\<lambda>r. active (sv_heap s r)) (store_List visit (sv_Sessions s))"
  have "bij_betw (\<lambda>r. ks_ID (sv_heap s r)) (set ?rs) (active_ids s)"
    unfolding bij_betw_def
  proof
    show "inj_on (\<lambda>r. ks_ID (sv_heap s r)) (set ?rs)"
      using assms(1) by (auto simp: inj_on_def enumerated_list[OF assms(2) inj] ran_def store_inv_def)
    show "(\<lambda>r. ks_ID (sv_heap s r)) ` set ?rs = active_ids s"
      using assms(1) by (auto simp: enumerated_list[OF assms(2) inj] ran_def active_ids_def store_inv_def image_iff)
  qed
  then have "card (set ?rs) = card (active_ids s)" by (rule bij_betw_same_card)
  moreover have "distinct ?rs" using enumerated_list(1)[OF assms(2) inj] by simp
  ultimately show ?thesis by (simp only: distinct_card)
qed

lemma Create_cases:
  assumes "CreateSession req cl visit now uid s = Some (resp, s')"
  shows "s' = s \<or> (\<exists>name cfg. store_FindByServer visit (sv_heap s) (sv_Sessions s) name = None
      \<and> int (length (filter (\<lambda>r. active (sv_heap s r)) (store_List visit (sv_Sessions s))))
         < st_MaxConcurrentSessions (ac_Settings (sv_Config s))
      \<and> same_sessions (s\<lparr>sv_heap := (sv_heap s)(sv_next s := new_session uid name cfg now), sv_next := sv_next s + 1,
           sv_Sessions := (sv_Sessions s)(uid \<mapsto> sv_next s), sv_tasks := sv_tasks s @ [(sv_next s, cfg)]\<rparr>) s')"
proof -
  let ?n = "length (filter (\<lambda>r. active (sv_heap s r)) (store_List visit (sv_Sessions s)))"
  have new: ?thesis
    if "store_FindByServer visit (sv_heap s) (sv_Sessions s) name = None"
      "int ?n < st_MaxConcurrentSessions (ac_Settings (sv_Config s))"
      "s' = logAudit a b c d e (let s = set_session (sv_next s) (s\<lparr>sv_heap := (sv_heap s)(sv_next s := new_session uid name cfg now), sv_next := sv_next s + 1\<rparr>)
         in s\<lparr>sv_tasks := sv_tasks s @ [(sv_next s - 1, cfg)]\<rparr>)" for name cfg a b c d e
    using that by (intro disjI2 exI[of _ name] exI[of _ cfg])
      (simp add: set_session_def store_Set_def logAudit_def same_sessions_def new_session_def)
  show ?thesis
  proof (cases "\<exists>name cfg. req = Some name \<and> find_server (sv_Config s) name = Some cfg
      \<and> store_FindByServer visit (sv_heap s) (sv_Sessions s) name = None
      \<and> int ?n < st_MaxConcurrentSessions (ac_Settings (sv_Config s))")
    case True
    then obtain name cfg where nc: "req = Some name" "find_server (sv_Config s) name = Some cfg"
      and ok: "store_FindByServer visit (sv_heap s) (sv_Sessions s) name = None"
        "int ?n < st_MaxConcurrentSessions (ac_Settings (sv_Config s))" by blast
    obtain may where may: "(if oc_Enabled (ac_OIDC (sv_Config s)) then UserCanAccessServer (ac_OIDC (sv_Config s)) (cl_user cl) name
        else Some True) = Some may"
      using assms unfolding CreateSession_def Let_def nc option.case nc(2) by (auto elim!: bind_SomeE)
    show ?thesis
    proof (cases may)
      case True
      have "s' = logAudit ''session_create'' (email_of cl) name uid (cl_ip cl)
          (let s = set_session (sv_next s) (s\<lparr>sv_heap := (sv_heap s)(sv_next s := new_session uid name cfg now), sv_next := sv_next s + 1\<rparr>)
           in s\<lparr>sv_tasks := sv_tasks s @ [(sv_next s - 1, cfg)]\<rparr>)"
        using assms ok unfolding CreateSession_def Let_def nc option.case nc(2) may by (simp add: True set_session_def)
      then show ?thesis by (rule new[OF ok])
    next
      case False
      then show ?thesis using assms unfolding CreateSession_def Let_def nc option.case nc(2) may by simp
    qed
  next
    case False
    then show ?thesis
      using assms unfolding CreateSession_def Let_def
      by (auto elim!: bind_SomeE split: option.split_asm if_split_asm simp: not_le)
  qed
qed

lemma Create_inv:
  assumes "store_inv s" "tasks_inv s" "server_ok s (OCreate req cl visit now uid)"
    and "CreateSession req cl visit now uid s = Some (resp, s')"
  shows "store_inv s' \<and> tasks_inv s'"
proof -
  have en: "enumerates visit (sv_Sessions s)" and fresh: "sv_Sessions s uid = None" using assms(3) by auto
  from Create_cases[OF assms(4)] show ?thesis
  proof (elim disjE exE conjE)
    assume "s' = s"
    then show ?thesis using assms(1,2) by simp
  next
    fix name cfg
    let ?k = "new_session uid name cfg now"
    let ?t = "s\<lparr>sv_heap := (sv_heap s)(sv_next s := ?k), sv_next := sv_next s + 1,
           sv_Sessions := (sv_Sessions s)(uid \<mapsto> sv_next s), sv_tasks := sv_tasks s @ [(sv_next s, cfg)]\<rparr>"
    assume none: "store_FindByServer visit (sv_heap s) (sv_Sessions s) name = None"
      and room: "int (length (filter (\<lambda>r. active (sv_heap s r)) (store_List visit (sv_Sessions s))))
         < st_MaxConcurrentSessions (ac_Settings (sv_Config s))"
      and same: "same_sessions ?t s'"
    have old: "r < sv_next s" "ks_ID (sv_heap s r) = i" "i \<noteq> uid" if "sv_Sessions s i = Some r" for i r
      using assms(1) that fresh unfolding store_inv_def by auto
    have unique: "i = j" if "sv_Sessions s i = Some r" "sv_Sessions s j = Some q" "active (sv_heap s r)" "active (sv_heap s q)"
        "ks_ServerName (sv_heap s r) = ks_ServerName (sv_heap s q)" for i j r q
      using assms(1) that unfolding store_inv_def by blast
    have k: "ks_ID ?k = uid" "ks_ServerName ?k = name" "active ?k" "ks_Status ?k = SessionStarting"
      by (simp_all add: new_session_def active_def)
    have other: "ks_ServerName (sv_heap s r) \<noteq> name" if "sv_Sessions s i = Some r" "active (sv_heap s r)" for i r
    proof -
      have "\<not> active_for (sv_heap s) name r"
        using mem.lookup_None_iff[OF en, THEN iffD1, OF none] that(1) unfolding store_Get_def by blast
      then show ?thesis using that(2) by (auto simp: active_for_def active_def)
    qed
    have ids: "active_ids ?t = insert uid (active_ids s)"
      using k old by (auto simp: active_ids_def)
    have fin: "finite (active_ids s)"
      using assms(1) by (auto simp: store_inv_def active_ids_def intro: finite_subset[of _ "dom (sv_Sessions s)"])
    have card: "int (card (active_ids ?t)) \<le> max 0 (st_MaxConcurrentSessions (ac_Settings (sv_Config s)))"
      using room fin unfolding count_active[OF assms(1) en] ids by (simp add: card_insert_if)
    have refs: "\<forall>i r. sv_Sessions ?t i = Some r \<longrightarrow> r < sv_next ?t \<and> ks_ID (sv_heap ?t r) = i"
      using old k(1) by (auto dest: less_imp_neq intro: less_SucI)
    have uniq: "\<forall>i j r q. sv_Sessions ?t i = Some r \<longrightarrow> sv_Sessions ?t j = Some q \<longrightarrow> active (sv_heap ?t r)
        \<longrightarrow> active (sv_heap ?t q) \<longrightarrow> ks_ServerName (sv_heap ?t r) = ks_ServerName (sv_heap ?t q) \<longrightarrow> i = j"
    proof (intro allI impI)
      fix i j r q
      assume a: "sv_Sessions ?t i = Some r" "sv_Sessions ?t j = Some q" "active (sv_heap ?t r)" "active (sv_heap ?t q)"
        "ks_ServerName (sv_heap ?t r) = ks_ServerName (sv_heap ?t q)"
      show "i = j"
      proof (cases "i = uid"; cases "j = uid")
        assume ij: "i \<noteq> uid" "j \<noteq> uid"
        then have o: "sv_Sessions s i = Some r" "sv_Sessions s j = Some q" using a(1,2) by simp_all
        moreover have "sv_heap ?t r = sv_heap s r" "sv_heap ?t q = sv_heap s q" using old(1)[OF o(1)] old(1)[OF o(2)] by simp_all
        ultimately show "i = j" using a(3-5) unique[OF o] by simp
      next
        assume ij: "i \<noteq> uid" "j = uid"
        then have o: "sv_Sessions s i = Some r" "q = sv_next s" using a(1,2) by simp_all
        then show "i = j" using a(3-5) old(1)[OF o(1)] other[OF o(1)] k by auto
      next
        assume ij: "i = uid" "j \<noteq> uid"
        then have o: "sv_Sessions s j = Some q" "r = sv_next s" using a(1,2) by simp_all
        then show "i = j" using a(3-5) old(1)[OF o(1)] other[OF o(1)] k by auto
      qed simp
    qed
    have "finite (dom (sv_Sessions s))" using assms(1) unfolding store_inv_def by (rule conjunct1)
    then have fin_t: "finite (dom (sv_Sessions ?t))" by simp
    have cfg: "sv_Config ?t = sv_Config s" by simp
    have 1: "store_inv ?t"
      unfolding store_inv_def cfg by (intro conjI fin_t refs uniq card)
    have old_task: "r \<noteq> sv_next s \<and> stored s r \<and> ks_Status (sv_heap s r) = SessionStarting"
      if "(r, c) \<in> set (sv_tasks s)" for r c
    proof -
      have "stored s r \<and> ks_Status (sv_heap s r) = SessionStarting"
        using assms(2) that unfolding tasks_inv_def by blast
      then show ?thesis using old(1) unfolding stored_def by blast
    qed
    moreover have "ks_ID (sv_heap s r) \<noteq> uid" if "(r, c) \<in> set (sv_tasks s)" for r c
      using old_task[OF that] fresh by (auto simp: stored_def)
    moreover have "distinct (map fst (sv_tasks s))" using assms(2) unfolding tasks_inv_def by (rule conjunct1)
    ultimately have 2: "tasks_inv ?t"
      using k unfolding tasks_inv_def stored_def by auto blast+
    show ?thesis using 1 2 same_inv[OF same] by blast
  qed
qed

text \<open>The configuration is never written.\<close>

lemma same_sessions_Config: "same_sessions s s' \<Longrightarrow> sv_Config s' = sv_Config s"
  by (simp add: same_sessions_def)

lemma update_session_Config [simp]: "sv_Config (update_session r f s) = sv_Config s"
  by (simp add: update_session_def set_session_def write_session_def)

lemma Delete_Config:
  assumes "DeleteSession reg i cl s = Some (resp, s')"
  shows "sv_Config s' = sv_Config s"
proof (cases "store_Get (sv_Sessions s) i")
  case (Some r)
  then show ?thesis
    by (rule Delete_steps[OF _ assms]) (auto simp: logAudit_def dest: same_sessions_Config)
qed (use assms in \<open>simp add: DeleteSession_def\<close>)

lemma server_next_inv:
  assumes "server_ok s op" "server_next op s = Some s'" "store_inv s" "tasks_inv s"
  shows "store_inv s' \<and> tasks_inv s' \<and> sv_Config s' = sv_Config s"
proof (cases op)
  case (OCreate req cl visit now uid)
  then obtain resp where c: "CreateSession req cl visit now uid s = Some (resp, s')" using assms(2) by auto
  have "sv_Config s' = sv_Config s" using Create_cases[OF c] by (auto dest: same_sessions_Config)
  then show ?thesis using Create_inv[OF assms(3,4) _ c] assms(1) OCreate by simp
next
  case (OTask be now)
  then have r: "run_task be now s = Some s'" using assms(2) by simp
  have "sv_Config s' = sv_Config s"
  proof (cases "sv_tasks s")
    case (Cons t ts)
    obtain r cfg where t: "t = (r, cfg)" by (cases t)
    have "live_ref r s" using tasks_live[OF assms(4), of r cfg] Cons t by simp
    then have "live_ref r (s\<lparr>sv_tasks := ts\<rparr>)" by (simp add: live_ref_def stored_def)
    then show ?thesis
      using startSession_starts r Cons t by (fastforce simp: run_task_def starts_def shrinks_def)
  qed (use r in \<open>simp add: run_task_def\<close>)
  then show ?thesis using run_task_inv[OF assms(3,4) r] by simp
next
  case (OKeepAlive i now)
  then have "s' = snd (KeepAliveSession i now s)" using assms(2) by simp
  moreover have "sv_Config (snd (KeepAliveSession i now s)) = sv_Config s"
    by (simp add: KeepAliveSession_def split: option.split)
  ultimately show ?thesis using KeepAlive_inv[OF assms(3,4)] by simp
next
  case (ODelete reg i cl)
  then obtain resp where d: "DeleteSession reg i cl s = Some (resp, s')" using assms(2) by auto
  show ?thesis using Delete_inv[OF assms(3,4) _ d] Delete_Config[OF d] assms(1) ODelete by simp
next
  case (OCleanup reg visit visit_creds now)
  then have c: "sessionCleanup reg visit visit_creds now s = Some s'" using assms(2) by simp
  then obtain s1 where s1: "foldM (cleanup_idle (now - st_IdleTimeoutMinutes (ac_Settings (sv_Config s)) * 60000000000))
      (store_List visit (sv_Sessions s)) s = Some s1"
    "s' = CleanupStaleBMCCreds reg visit_creds (st_BMCCredsTTLMinutes (ac_Settings (sv_Config s))) now s1"
    by (auto simp: sessionCleanup_def Let_def elim!: bind_SomeE)
  have "shrinks s s1" using cleanup_all_inv[OF assms(3,4) _ s1(1)] listed_stored[OF assms(3)] by blast
  then have "sv_Config s' = sv_Config s"
    unfolding s1(2) using same_sessions_Config[OF cleanup_creds_same] by (simp add: shrinks_def)
  then show ?thesis using cleanup_inv[OF assms(3,4) c] by simp
qed

lemma server_state_inv: "server_state cfg s \<Longrightarrow> store_inv s \<and> tasks_inv s \<and> sv_Config s = cfg"
proof (induction rule: server_state.induct)
  case start
  show ?case
    by (auto simp: newServerCore_def store_inv_def tasks_inv_def NewSessionStore_def active_ids_def)
next
  case (step s op s')
  then show ?case using server_next_inv[OF step.hyps(2,3)] by blast
qed

section \<open>The cleanup loop\<close>

definition idle :: "int \<Rightarrow> KVMSession \<Rightarrow> bool" where
  "idle threshold k \<longleftrightarrow> ks_Status k = SessionConnected \<and> ks_LastActivity k < threshold"

text \<open>The parts of the server that only some operations touch.\<close>

definition same_viewing :: "Server \<Rightarrow> Server \<Rightarrow> bool" where
  "same_viewing s s' \<longleftrightarrow> sv_VNCBridges s' = sv_VNCBridges s \<and> sv_WSSProxies s' = sv_WSSProxies s"

lemma StopIKVMBridge_fields:
  assumes "StopIKVMBridge i s = Some s'"
  shows "sv_Bridges s' = (sv_Bridges s)(i := None)" "same_viewing s s'" "sv_BMCCreds s' = sv_BMCCreds s"
proof -
  have p: "sv_Bridges (set_proxy n f t) = sv_Bridges t" "same_viewing u (set_proxy n f t) = same_viewing u t"
    "sv_BMCCreds (set_proxy n f t) = sv_BMCCreds t" for n f t u
    by (auto simp: set_proxy_def getOrCreateProxy_def same_viewing_def Let_def split: option.split)
  show "sv_Bridges s' = (sv_Bridges s)(i := None)"
    using assms unfolding StopIKVMBridge_def Let_def
    by (auto simp: p fun_upd_idem elim!: bind_SomeE split: option.split_asm option.split)
  show "same_viewing s s'"
    using assms unfolding StopIKVMBridge_def Let_def
    by (auto simp: p elim!: bind_SomeE split: option.split_asm option.split) (simp_all add: same_viewing_def)
  show "sv_BMCCreds s' = sv_BMCCreds s"
    using assms unfolding StopIKVMBridge_def Let_def
    by (auto simp: p elim!: bind_SomeE split: option.split_asm option.split)
qed

lemma same_viewing_trans: "same_viewing s t \<Longrightarrow> same_viewing t u \<Longrightarrow> same_viewing s u"
  by (simp add: same_viewing_def)

lemma cleanup_idle_effect:
  assumes "stored s r" "cleanup_idle th r s = Some s'"
  shows "sv_heap s' = (sv_heap s)(r := if idle th (sv_heap s r) then (sv_heap s r)\<lparr>ks_Status := SessionDisconnected\<rparr> else sv_heap s r)"
    "sv_Bridges s' = (if idle th (sv_heap s r) then (sv_Bridges s)(ks_ID (sv_heap s r) := None) else sv_Bridges s)"
    "same_viewing s s'" "sv_BMCCreds s' = sv_BMCCreds s"
proof -
  have "sv_heap s' = (sv_heap s)(r := if idle th (sv_heap s r) then (sv_heap s r)\<lparr>ks_Status := SessionDisconnected\<rparr> else sv_heap s r)
    \<and> sv_Bridges s' = (if idle th (sv_heap s r) then (sv_Bridges s)(ks_ID (sv_heap s r) := None) else sv_Bridges s)
    \<and> same_viewing s s' \<and> sv_BMCCreds s' = sv_BMCCreds s"
  proof (cases "idle th (sv_heap s r)")
    case True
    then obtain s1 where s1: "StopIKVMBridge (ks_ID (sv_heap s r)) s = Some s1"
      "s' = update_session r (\<lambda>k. k\<lparr>ks_Status := SessionDisconnected\<rparr>) s1"
      using assms(2) by (auto simp: cleanup_idle_def idle_def Let_def elim!: bind_SomeE)
    have "sv_heap s1 = sv_heap s" using StopIKVMBridge_same[OF s1(1)] by (simp add: same_sessions_def)
    then show ?thesis
      using True StopIKVMBridge_fields[OF s1(1)] s1(2)
      by (simp add: same_viewing_def update_session_def set_session_def write_session_def)
  next
    case False
    then have "s' = s" using assms(2) by (auto simp: cleanup_idle_def idle_def Let_def)
    then show ?thesis using False by (simp add: same_viewing_def)
  qed
  then show "sv_heap s' = (sv_heap s)(r := if idle th (sv_heap s r) then (sv_heap s r)\<lparr>ks_Status := SessionDisconnected\<rparr> else sv_heap s r)"
    "sv_Bridges s' = (if idle th (sv_heap s r) then (sv_Bridges s)(ks_ID (sv_heap s r) := None) else sv_Bridges s)"
    "same_viewing s s'" "sv_BMCCreds s' = sv_BMCCreds s" by blast+
qed

lemma cleanup_all_effect:
  assumes "store_inv s" "tasks_inv s" "\<forall>r\<in>set rs. stored s r" "foldM (cleanup_idle th) rs s = Some s'"
  shows "(\<forall>q. sv_heap s' q = (if q \<in> set rs \<and> idle th (sv_heap s q) then (sv_heap s q)\<lparr>ks_Status := SessionDisconnected\<rparr> else sv_heap s q))
    \<and> (\<forall>j. sv_Bridges s' j = (if \<exists>q\<in>set rs. idle th (sv_heap s q) \<and> ks_ID (sv_heap s q) = j then None else sv_Bridges s j))
    \<and> same_viewing s s' \<and> sv_BMCCreds s' = sv_BMCCreds s"
  using assms
proof (induction rs arbitrary: s)
  case Nil
  then show ?case by (simp add: same_viewing_def)
next
  case (Cons r rs)
  obtain s1 where s1: "cleanup_idle th r s = Some s1" "foldM (cleanup_idle th) rs s1 = Some s'"
    using Cons.prems(4) by (auto elim!: bind_SomeE)
  have r: "stored s r" using Cons.prems(3) by simp
  have 1: "store_inv s1 \<and> tasks_inv s1 \<and> shrinks s s1" by (rule cleanup_idle_inv[OF Cons.prems(1,2) r s1(1)])
  then have st: "\<forall>r\<in>set rs. stored s1 r" using Cons.prems(3) shrinks_stored by auto
  note eff = cleanup_idle_effect[OF r s1(1)]
  note ih = Cons.IH[OF conjunct1[OF 1] conjunct1[OF conjunct2[OF 1]] st s1(2)]
  have idle1: "idle th (sv_heap s1 q) \<longleftrightarrow> q \<noteq> r \<and> idle th (sv_heap s q)" for q
    unfolding eff(1) by (auto simp: idle_def)
  have id1: "ks_ID (sv_heap s1 q) = ks_ID (sv_heap s q)" for q unfolding eff(1) by simp
  have "same_viewing s s' \<and> sv_BMCCreds s' = sv_BMCCreds s"
    using ih eff(3,4) same_viewing_trans by metis
  moreover have "sv_heap s' q = (if q \<in> set (r # rs) \<and> idle th (sv_heap s q)
      then (sv_heap s q)\<lparr>ks_Status := SessionDisconnected\<rparr> else sv_heap s q)" for q
  proof -
    have "sv_heap s' q = (if q \<in> set rs \<and> idle th (sv_heap s1 q) then (sv_heap s1 q)\<lparr>ks_Status := SessionDisconnected\<rparr> else sv_heap s1 q)"
      using ih by blast
    then show ?thesis unfolding idle1 eff(1) by auto
  qed
  moreover have "sv_Bridges s' j = (if \<exists>q\<in>set (r # rs). idle th (sv_heap s q) \<and> ks_ID (sv_heap s q) = j then None else sv_Bridges s j)" for j
  proof -
    have "sv_Bridges s' j = (if \<exists>q\<in>set rs. idle th (sv_heap s1 q) \<and> ks_ID (sv_heap s1 q) = j then None else sv_Bridges s1 j)"
      using ih by blast
    then show ?thesis unfolding idle1 id1 eff(2) by auto
  qed
  ultimately show ?case by blast
qed

lemma cleanup_creds_effect:
  "sv_BMCCreds (CleanupStaleBMCCreds reg visit ttl now s)
     = (\<lambda>i. if i \<in> set visit \<and> stale_cred (now - ttl * 60000000000) s i then None else sv_BMCCreds s i)
   \<and> sv_Bridges (CleanupStaleBMCCreds reg visit ttl now s) = sv_Bridges s
   \<and> same_viewing s (CleanupStaleBMCCreds reg visit ttl now s)"
proof -
  have f: "sv_BMCCreds (fold (\<lambda>(name, creds). bmc_logout reg name creds) xs s) = sv_BMCCreds s
      \<and> sv_Bridges (fold (\<lambda>(name, creds). bmc_logout reg name creds) xs s) = sv_Bridges s
      \<and> same_viewing s (fold (\<lambda>(name, creds). bmc_logout reg name creds) xs s)" for xs and s :: Server
    by (induction xs arbitrary: s) (auto simp: bmc_logout_def same_viewing_def split: option.splits if_splits)
  show ?thesis unfolding CleanupStaleBMCCreds_def Let_def using f by (auto simp: same_viewing_def)
qed

lemma enumerated_stored:
  assumes "store_inv s" "enumerates visit (sv_Sessions s)"
  shows "set (store_List visit (sv_Sessions s)) = {r. \<exists>i. sv_Sessions s i = Some r}"
  using mem.listing_get[OF assms(2)] by (simp add: store_Get_def)

section \<open>The start-up of a session\<close>

lemma retry_outcome: "retry n f k = Inr x \<Longrightarrow> \<exists>j. k \<le> j \<and> j < k + n \<and> f j = Inr x"
proof (induction n arbitrary: k)
  case (Suc n)
  show ?case
  proof (cases "f k")
    case (Inl e)
    then have "retry n f (Suc k) = Inr x" using Suc.prems by (simp split: if_split_asm)
    from Suc.IH[OF this] show ?thesis by (metis Suc_leD add_Suc_shift)
  next
    case (Inr y)
    then show ?thesis using Suc.prems by (intro exI[of _ k]) simp
  qed
qed simp

definition settled :: "session_ref \<Rightarrow> Server \<Rightarrow> bool" where
  "settled r s \<longleftrightarrow> ks_Status (sv_heap s r) = SessionConnected \<and> ks_ConnMode (sv_heap s r) \<noteq> None
     \<or> ks_Status (sv_heap s r) = SessionError \<and> ks_Error (sv_heap s r) \<noteq> ''''"

lemma fail_settled: "msg \<noteq> '''' \<Longrightarrow> settled r (fail_session r msg s)"
  by (simp add: settled_def fail_session_def)

lemma ikvm_settled: "ks_ConnMode (sv_heap s r) \<noteq> None \<Longrightarrow> settled r (startIKVMSession now r s)"
  by (simp add: settled_def startIKVMSession_def)

lemma direct_settled: "ks_ConnMode (sv_heap s r) \<noteq> None \<Longrightarrow> settled r (startDirectSession now r ci s)"
  by (simp add: settled_def startDirectSession_def)

text \<open>A start-up task that returns leaves its session connected, with a connection mode, or failed with a
  message, never starting; other sessions keep their data.\<close>

theorem startSession_settles:
  assumes "startSession be now r cfg s = Some s'"
  shows "settled r s' \<and> (\<forall>q. q \<noteq> r \<longrightarrow> sv_heap s' q = sv_heap s q)"
proof
  show "settled r s'"
    using assms unfolding startSession_def start_megarac_def Let_def
    by (auto elim!: bind_SomeE split: option.split_asm if_split_asm sum.splits prod.splits
        intro!: fail_settled ikvm_settled direct_settled)
  have p: "sv_heap (snd (getOrCreateProxy n t)) = sv_heap t" "sv_heap (set_proxy n f t) = sv_heap t" for n f t
    using same_sessions_simps(3,4) unfolding same_sessions_def by blast+
  have p': "getOrCreateProxy n t = (e, u) \<Longrightarrow> sv_heap u = sv_heap t" for n t e u using p(1)[of n t] by simp
  show "\<forall>q. q \<noteq> r \<longrightarrow> sv_heap s' q = sv_heap s q"
    using assms unfolding startSession_def start_megarac_def startIKVMSession_def startDirectSession_def fail_session_def Let_def
    by (auto elim!: bind_SomeE dest!: p' simp: p split: option.split_asm if_split_asm sum.splits prod.splits)
qed

section \<open>Properties\<close>

text \<open>A start-up task panics in exactly one case: the board is not \<open>ami_megarac\<close> and its authenticator logs in
  but returns no connection info, which is what the NanoKVM authenticator always does.\<close>

theorem startSession_panics_iff:
  "startSession be now r cfg s = None \<longleftrightarrow>
     GetPassword (be_getenv be) cfg \<noteq> None \<and> be_registered be (sc_BoardType cfg) \<and> sc_BoardType cfg \<noteq> ''ami_megarac''
     \<and> (\<exists>creds. retry bmcRetryAttempts (be_Authenticate be) 1 = Inr (creds, None))"
  unfolding startSession_def Let_def
  by (auto simp: Option.bind_eq_None_conv split: option.splits sum.splits prod.splits if_splits)


text \<open>One tick of the cleanup loop disconnects exactly the connected sessions without activity since the
  idle threshold and stops their iKVM bridges; it leaves every other session and bridge as it was, and it
  stops no VNC bridge and no WebSocket proxy, so a viewer of an idle VNC or WebSocket session stays
  connected.\<close>

theorem sessionCleanup_idle:
  assumes "server_state cfg s" "enumerates visit (sv_Sessions s)" "sessionCleanup reg visit visit_creds now s = Some s'"
    and "sv_Sessions s i = Some r"
  defines "stop \<equiv> idle (now - st_IdleTimeoutMinutes (ac_Settings cfg) * 60000000000) (sv_heap s r)"
  shows "sv_heap s' r = (if stop then (sv_heap s r)\<lparr>ks_Status := SessionDisconnected\<rparr> else sv_heap s r)
     \<and> sv_Bridges s' i = (if stop then None else sv_Bridges s i)
     \<and> sv_VNCBridges s' = sv_VNCBridges s \<and> sv_WSSProxies s' = sv_WSSProxies s"
proof -
  have inv: "store_inv s" "tasks_inv s" "sv_Config s = cfg" using server_state_inv[OF assms(1)] by blast+
  define th where "th = now - st_IdleTimeoutMinutes (ac_Settings cfg) * 60000000000"
  define rs where "rs = store_List visit (sv_Sessions s)"
  obtain s1 where s1: "foldM (cleanup_idle th) rs s = Some s1"
    "s' = CleanupStaleBMCCreds reg visit_creds (st_BMCCredsTTLMinutes (ac_Settings cfg)) now s1"
    using assms(3) unfolding sessionCleanup_def Let_def inv(3) th_def rs_def by (auto elim!: bind_SomeE)
  have st: "\<forall>r\<in>set rs. stored s r" using listed_stored[OF inv(1)] unfolding rs_def by blast
  note eff = cleanup_all_effect[OF inv(1,2) st s1(1)]
  note creds = cleanup_creds_effect[of reg visit_creds "st_BMCCredsTTLMinutes (ac_Settings cfg)" now s1, folded s1(2)]
  have h: "sv_heap s' = sv_heap s1" using cleanup_creds_same unfolding s1(2) same_sessions_def by blast
  have mem: "q \<in> set rs \<longleftrightarrow> (\<exists>j. sv_Sessions s j = Some q)" for q
    unfolding rs_def enumerated_stored[OF inv(1) assms(2)] by simp
  have id: "ks_ID (sv_heap s q) = j" if "sv_Sessions s j = Some q" for j q using inv(1) that unfolding store_inv_def by blast
  have same: "(\<exists>q\<in>set rs. idle th (sv_heap s q) \<and> ks_ID (sv_heap s q) = i) \<longleftrightarrow> idle th (sv_heap s r)"
    using mem id assms(4) by (metis option.inject)
  have "r \<in> set rs" using mem assms(4) by blast
  then have "sv_heap s' r = (if idle th (sv_heap s r) then (sv_heap s r)\<lparr>ks_Status := SessionDisconnected\<rparr> else sv_heap s r)"
    using eff h by simp
  moreover have "sv_Bridges s' i = (if idle th (sv_heap s r) then None else sv_Bridges s i)"
    using eff creds unfolding same[symmetric] by simp
  moreover have "same_viewing s s'" using eff creds same_viewing_trans by blast
  ultimately show ?thesis unfolding assms(5) th_def[symmetric] same_viewing_def by blast
qed

text \<open>Deleting a session does not cancel its start-up task. When the task of a deleted session on a
  board other than \<open>ami_megarac\<close> reaches its BMC afterwards, the session is connected again and its BMC login
  is stored, until the cleanup loop finds it idle.\<close>

theorem deleted_session_reconnects:
  assumes "sv_Sessions s i = Some r" "ks_ID (sv_heap s r) = i" "sv_tasks s = (r, cfg) # ts"
    and "DeleteSession reg i cl s = Some (resp, s1)"
    and "sc_BoardType cfg \<noteq> ''ami_megarac''" "be_registered be (sc_BoardType cfg)"
    and "GetPassword (be_getenv be) cfg = Some pw" "be_Authenticate be 1 = Inr (creds, Some ci)"
  shows "ks_Status (sv_heap s1 r) = SessionDisconnected
    \<and> (\<exists>s2. run_task be now s1 = Some s2 \<and> ks_Status (sv_heap s2 r) = SessionConnected
        \<and> sv_BMCCreds s2 i = Some \<lparr>ce_Creds = creds, ce_CreatedAt = now\<rparr>)"
proof -
  have i: "store_Get (sv_Sessions s) i = Some r" using assms(1) by (simp add: store_Get_def)
  obtain s2 where 2: "same_sessions s s2"
    "s1 = logAudit ''session_delete'' (email_of cl) (ks_ServerName (sv_heap s r)) i (cl_ip cl)
       (update_session r (\<lambda>k. k\<lparr>ks_Status := SessionDisconnected\<rparr>) s2)"
    by (rule Delete_steps[OF i assms(4)])
  have h: "sv_heap s1 r = (sv_heap s r)\<lparr>ks_Status := SessionDisconnected\<rparr>" and t: "sv_tasks s1 = (r, cfg) # ts"
    using 2(1) assms(3) unfolding 2(2) same_sessions_def by (simp_all add: logAudit_def)
  have auth: "be_Authenticate be (Suc 0) = Inr (creds, Some ci)" using assms(8) by simp
  have first: "retry bmcRetryAttempts (be_Authenticate be) 1 = Inr (creds, Some ci)"
    by (simp add: bmcRetryAttempts_def numeral_3_eq_3 auth)
  have "\<exists>s2. run_task be now s1 = Some s2 \<and> ks_Status (sv_heap s2 r) = SessionConnected
        \<and> sv_BMCCreds s2 i = Some \<lparr>ce_Creds = creds, ce_CreatedAt = now\<rparr>"
    by (simp add: run_task_def t startSession_def assms(5-7) first[unfolded One_nat_def] h assms(2) startDirectSession_def startIKVMSession_def Let_def)
  then show ?thesis by (simp add: h)
qed

text \<open>The role check guards \<open>CreateSession\<close> only. A user whose roles exclude a server cannot create a session
  for it, but deletes the session of another user on it: \<open>DeleteSession\<close> answers and acts as it does for every
  caller, apart from the audit entry.\<close>

theorem DeleteSession_unchecked:
  assumes "oc_Enabled (ac_OIDC (sv_Config s))" "find_server (sv_Config s) name = Some cfg"
    and "UserCanAccessServer (ac_OIDC (sv_Config s)) (cl_user cl) name = Some False"
    and "sv_Sessions s i = Some r" "ks_ServerName (sv_heap s r) = name"
    and "DeleteSession reg i owner s = Some (resp, s1)"
  shows "CreateSession (Some name) cl visit now uid s = Some (ApiError 403 ''access denied to this server'', s)
    \<and> (\<exists>s2. DeleteSession reg i cl s = Some (resp, s2) \<and> s2\<lparr>sv_audit := a\<rparr> = s1\<lparr>sv_audit := a\<rparr>
        \<and> ks_Status (sv_heap s2 r) = SessionDisconnected)"
proof
  show "CreateSession (Some name) cl visit now uid s = Some (ApiError 403 ''access denied to this server'', s)"
    by (simp add: CreateSession_def assms(1-3))
  show "\<exists>s2. DeleteSession reg i cl s = Some (resp, s2) \<and> s2\<lparr>sv_audit := a\<rparr> = s1\<lparr>sv_audit := a\<rparr>
        \<and> ks_Status (sv_heap s2 r) = SessionDisconnected"
    using assms(4,6) unfolding DeleteSession_def store_Get_def
    by (auto simp: Let_def logAudit_def elim!: bind_SomeE)
qed

section \<open>Examples\<close>

definition sample_config :: AppConfig where
  "sample_config = \<lparr>ac_Servers = [\<lparr>sc_Name = ''web1'', sc_BMCIP = ''10.0.0.2'', sc_BMCPort = 443, sc_BoardType = ''dell_idrac9'',
       sc_Username = ''root'', sc_CredentialEnv = ''PW'', sc_TLSSkipVerify = None, sc_PollIntervalSeconds = 30\<rparr>],
     ac_Settings = \<lparr>st_MaxConcurrentSessions = 1, st_SessionTimeoutMinutes = 60, st_IdleTimeoutMinutes = 30,
       st_ListenAddress = '''', st_CORSOrigins = [], st_RateLimitRPM = 0, st_BMCProxyRateLimitRPM = 0, st_DBPath = '''',
       st_AuditLog = None, st_MetricsEnabled = False, st_BMCCredsTTLMinutes = 60, st_AuditRetentionDays = 0,
       st_ISODir = '''', st_ISOMaxSizeGB = 0, st_ISOServeAddress = '''', st_NFSEnabled = None, st_NFSPort = 0\<rparr>,
     ac_OIDC = sample_oidc\<rparr>"

definition sample_caller :: "string list \<Rightarrow> caller" where
  "sample_caller roles = \<lparr>cl_user = Some \<lparr>ui_Email = ''a@b'', ui_Name = ''A'', ui_Roles = roles\<rparr>, cl_ip = ''1.2.3.4'', cl_addr = ''1.2.3.4:5000''\<rparr>"

definition sample_creds :: BMCCredentials where
  "sample_creds = \<lparr>bc_SessionCookie = ''c'', bc_CSRFToken = '''', bc_KVMToken = '''', bc_WebCookie = '''', bc_Username = ''root'',
     bc_Privilege = 4, bc_ExtendedPriv = 0, bc_Extra = []\<rparr>"

definition sample_info :: KVMConnectInfo where
  "sample_info = \<lparr>ci_Mode = KVMModeVNC, ci_IKVMArgs = None, ci_TargetURL = '''', ci_TargetAddr = ''10.0.0.2:5901'', ci_VNCPassword = ''pw''\<rparr>"

definition sample_env :: bmc_env where
  "sample_env = \<lparr>be_getenv = (\<lambda>_. ''secret''), be_registered = (\<lambda>_. True), be_is_megarac = (\<lambda>_. False),
     be_Authenticate = (\<lambda>_. Inr (sample_creds, Some sample_info)), be_CreateWebSession = (\<lambda>_. Inl ''no''), be_getJNLP = (\<lambda>_. Inl ''no'')\<rparr>"

definition sample_started :: Server where
  "sample_started = snd (the (CreateSession (Some ''web1'') (sample_caller [''ops'']) [] 0 ''u1'' (newServerCore sample_config)))"

definition sample_connected :: Server where
  "sample_connected = the (run_task sample_env 0 sample_started)"

lemmas sample_defs = sample_caller_def sample_creds_def sample_info_def sample_env_def sample_oidc_def sample_config_def

lemma sample_CreateSession:
  "CreateSession (Some ''web1'') (sample_caller [''ops'']) [] 0 ''u1'' (newServerCore sample_config)
     = Some (ApiSession 202 (new_session ''u1'' ''web1'' (hd (ac_Servers sample_config)) 0), sample_started)"
  unfolding sample_started_def
  by (simp add: CreateSession_def newServerCore_def sample_defs find_server_def UserCanAccessServer_def Let_def
      store_FindByServer_def store_List_def map_filter_def NewSessionStore_def)

lemma sample_started_fields:
  "sv_heap sample_started 0 = new_session ''u1'' ''web1'' (hd (ac_Servers sample_config)) 0"
  "sv_Sessions sample_started = [''u1'' \<mapsto> 0]" "sv_tasks sample_started = [(0, hd (ac_Servers sample_config))]"
  "sv_Config sample_started = sample_config" "sv_Bridges sample_started = Map.empty" "sv_BMCCreds sample_started = Map.empty"
  unfolding sample_started_def
  by (simp_all add: CreateSession_def newServerCore_def sample_defs find_server_def UserCanAccessServer_def Let_def
      store_FindByServer_def store_List_def map_filter_def NewSessionStore_def set_session_def store_Set_def logAudit_def new_session_def)

lemma sample_started_state: "server_state sample_config sample_started"
proof (rule server_state.step[OF server_state.start])
  show "server_next (OCreate (Some ''web1'') (sample_caller [''ops'']) [] 0 ''u1'') (newServerCore sample_config) = Some sample_started"
    by (simp add: sample_CreateSession)
qed (simp add: newServerCore_def NewSessionStore_def enumerates_def)


lemma sample_run_task: "run_task sample_env 0 sample_started = Some sample_connected"
  by (simp add: sample_connected_def run_task_def sample_started_fields startSession_def GetPassword_def sample_defs
      bmcRetryAttempts_def numeral_3_eq_3)

lemma sample_connected_fields:
  "ks_Status (sv_heap sample_connected 0) = SessionConnected" "ks_LastActivity (sv_heap sample_connected 0) = 0"
  "ks_ID (sv_heap sample_connected 0) = ''u1''"
  "sv_Sessions sample_connected = [''u1'' \<mapsto> 0]" "sv_Bridges sample_connected = Map.empty" "sv_Config sample_connected = sample_config"
  by (simp_all add: sample_connected_def run_task_def sample_started_fields startSession_def GetPassword_def sample_env_def
      sample_config_def sample_info_def bmcRetryAttempts_def numeral_3_eq_3 startDirectSession_def new_session_def
      update_session_def set_session_def store_Set_def write_session_def)

lemma sample_connected_state: "server_state sample_config sample_connected"
proof (rule server_state.step[OF sample_started_state])
  show "server_next (OTask sample_env 0) sample_started = Some sample_connected" by (simp add: sample_run_task)
qed simp

theorem startSession_settles_witness: "settled 0 sample_connected"
  using startSession_settles[of sample_env 0 0 "hd (ac_Servers sample_config)" "sample_started\<lparr>sv_tasks := []\<rparr>" sample_connected]
    sample_run_task by (simp add: run_task_def sample_started_fields)

theorem sessionCleanup_idle_witness:
  "\<exists>s'. sessionCleanup (\<lambda>_. True) [''u1''] [] 1800000000001 sample_connected = Some s'
     \<and> ks_Status (sv_heap s' 0) = SessionDisconnected"
proof -
  have en: "enumerates [''u1''] (sv_Sessions sample_connected)"
    by (simp add: enumerates_def sample_connected_fields)
  have "store_List [''u1''] (sv_Sessions sample_connected) = [0]"
    by (simp add: store_List_def map_filter_def sample_connected_fields)
  then obtain s' where s': "sessionCleanup (\<lambda>_. True) [''u1''] [] 1800000000001 sample_connected = Some s'"
    by (simp add: sessionCleanup_def Let_def cleanup_idle_def sample_connected_fields StopIKVMBridge_def sample_config_def)
  have "ks_Status (sv_heap s' 0) = SessionDisconnected"
    using sessionCleanup_idle[OF sample_connected_state en s', of "''u1''" 0]
    by (simp add: sample_connected_fields idle_def sample_config_def)
  with s' show ?thesis by blast
qed

lemma sample_DeleteSession:
  "\<exists>resp s1. DeleteSession (\<lambda>_. True) ''u1'' cl sample_started = Some (resp, s1)"
  by (simp add: DeleteSession_def store_Get_def sample_started_fields StopIKVMBridge_def Let_def)

theorem deleted_session_reconnects_witness:
  "\<exists>resp s1 s2. DeleteSession (\<lambda>_. True) ''u1'' (sample_caller []) sample_started = Some (resp, s1)
     \<and> run_task sample_env 5 s1 = Some s2 \<and> ks_Status (sv_heap s2 0) = SessionConnected"
proof -
  obtain resp s1 where d: "DeleteSession (\<lambda>_. True) ''u1'' (sample_caller []) sample_started = Some (resp, s1)"
    using sample_DeleteSession by blast
  have "ks_Status (sv_heap s1 0) = SessionDisconnected
    \<and> (\<exists>s2. run_task sample_env 5 s1 = Some s2 \<and> ks_Status (sv_heap s2 0) = SessionConnected
        \<and> sv_BMCCreds s2 ''u1'' = Some \<lparr>ce_Creds = sample_creds, ce_CreatedAt = 5\<rparr>)"
    by (rule deleted_session_reconnects[OF _ _ sample_started_fields(3) d, of sample_env "''secret''" sample_creds sample_info 5])
      (simp_all add: sample_started_fields new_session_def sample_env_def GetPassword_def sample_config_def)
  with d show ?thesis by blast
qed

theorem DeleteSession_unchecked_witness:
  "\<exists>resp s2. DeleteSession (\<lambda>_. True) ''u1'' (sample_caller []) sample_started = Some (resp, s2)
     \<and> ks_Status (sv_heap s2 0) = SessionDisconnected"
proof -
  obtain resp s1 where d: "DeleteSession (\<lambda>_. True) ''u1'' (sample_caller [''ops'']) sample_started = Some (resp, s1)"
    using sample_DeleteSession by blast
  have "CreateSession (Some ''web1'') (sample_caller []) [''u1''] 1 ''u2'' sample_started
      = Some (ApiError 403 ''access denied to this server'', sample_started)
    \<and> (\<exists>s2. DeleteSession (\<lambda>_. True) ''u1'' (sample_caller []) sample_started = Some (resp, s2)
        \<and> s2\<lparr>sv_audit := None\<rparr> = s1\<lparr>sv_audit := None\<rparr> \<and> ks_Status (sv_heap s2 0) = SessionDisconnected)"
    by (rule DeleteSession_unchecked[OF _ _ _ _ _ d, of "''web1''" "hd (ac_Servers sample_config)"])
      (simp_all add: sample_started_fields new_session_def sample_defs find_server_def UserCanAccessServer_def)
  then show ?thesis by blast
qed

end
