(* ===== verification/Controls.thy ===== *)
theory Controls
  imports Sessions Vnc
begin

text \<open>
  The handlers around a running console: the KVM control and viewer control handlers of
  \<open>src/internal/api/handlers.go\<close> and the iKVM part of \<open>src/internal/api/websocket.go\<close>. They connect the server of
  \<open>Sessions\<close> with its bridges (\<open>Bridge\<close>, \<open>Vnc\<close>) and its viewer registries (\<open>Viewers\<close>).

  A decoded request body is an option, \<^term>\<open>None\<close> when decoding fails. The details of audit entries and the
  log output are left out. \<^term>\<open>None\<close> as a result is a panic.
\<close>

section \<open>KVM controls\<close>

definition getBridge :: "string \<Rightarrow> Server \<Rightarrow> Bridge option" where
  "getBridge i s = sv_Bridges s i"

text \<open>The name of the session's server for the audit log, empty without a session.\<close>

definition server_of :: "string \<Rightarrow> Server \<Rightarrow> string" where
  "server_of i s = (case store_Get (sv_Sessions s) i of None \<Rightarrow> '''' | Some r \<Rightarrow> ks_ServerName (sv_heap s r))"

definition audit_kvm :: "string \<Rightarrow> string \<Rightarrow> caller \<Rightarrow> Server \<Rightarrow> Server" where
  "audit_kvm event i cl s = logAudit event (email_of cl) (server_of i s) i (cl_ip cl) s"

text \<open>A command on the bridge that was found: its error is a response, otherwise the audit log is written.\<close>

definition on_bridge ::
  "(Bridge \<Rightarrow> (bridge_error option \<times> Bridge) option) \<Rightarrow> string \<Rightarrow> Bridge \<Rightarrow> (Server \<Rightarrow> Server) \<Rightarrow> api_response \<Rightarrow> Server
     \<Rightarrow> (api_response \<times> Server) option" where
  "on_bridge send i b audit ok s = do {
     (e, b) \<leftarrow> send b;
     let s = s\<lparr>sv_Bridges := (sv_Bridges s)(i \<mapsto> b)\<rparr>;
     Some (case e of
        Some e \<Rightarrow> (ApiBridgeError e, s)
      | None \<Rightarrow> (ok, audit s))
   }"

definition no_bridge :: api_response where
  "no_bridge = ApiError 404 ''no active KVM bridge for this session''"

definition bad_body :: api_response where
  "bad_body = ApiError 400 ''invalid request body''"

definition power_code :: "string \<Rightarrow> u8 option" where
  "power_code action =
     (if action = ''off'' then Some 0
      else if action = ''on'' then Some 1
      else if action = ''cycle'' then Some 2
      else if action = ''reset'' then Some 3
      else if action = ''soft_reset'' then Some 5
      else None)"

text \<open>\<open>run\<close> is \<open>exec.Command(\<dots>).CombinedOutput()\<close>: the output and the text of the error, if any.\<close>

definition bmc_cold_reset ::
  "(string \<Rightarrow> string) \<Rightarrow> (string list \<Rightarrow> string \<times> string option) \<Rightarrow> caller \<Rightarrow> string \<Rightarrow> Server \<Rightarrow> api_response \<times> Server" where
  "bmc_cold_reset getenv run cl i s =
     (case store_Get (sv_Sessions s) i of
        None \<Rightarrow> (ApiError 404 ''session not found'', s)
      | Some r \<Rightarrow>
          (case find_server (sv_Config s) (ks_ServerName (sv_heap s r)) of
             None \<Rightarrow> (ApiError 404 ''server config not found'', s)
           | Some cfg \<Rightarrow>
               (case run [''ipmitool'', ''-I'', ''lanplus'', ''-H'', ks_BMCIP (sv_heap s r), ''-U'', sc_Username cfg,
                     ''-P'', getenv (sc_CredentialEnv cfg), ''mc'', ''reset'', ''cold''] of
                  (out, Some err) \<Rightarrow> (ApiError 500 (''BMC cold reset failed: '' @ out @ '': '' @ err), s)
                | (out, None) \<Rightarrow>
                    (ApiMap [(''status'', ''ok''), (''action'', ''bmc_reset'')],
                     logAudit ''kvm_bmc_reset'' '''' (ks_ServerName (sv_heap s r)) i (cl_addr cl) s))))"

definition KVMPowerControl ::
  "(string \<Rightarrow> string) \<Rightarrow> (string list \<Rightarrow> string \<times> string option) \<Rightarrow> string option \<Rightarrow> caller \<Rightarrow> string \<Rightarrow> Server
     \<Rightarrow> (api_response \<times> Server) option" where
  "KVMPowerControl getenv run req cl i s =
     (case getBridge i s of
        None \<Rightarrow> Some (no_bridge, s)
      | Some b \<Rightarrow>
          (case req of
             None \<Rightarrow> Some (bad_body, s)
           | Some action \<Rightarrow>
               if action = ''bmc_reset'' then Some (bmc_cold_reset getenv run cl i s)
               else (case power_code action of
                  None \<Rightarrow> Some (ApiError 400 ''invalid action: must be on/off/cycle/reset/soft_reset/bmc_reset'', s)
                | Some code \<Rightarrow>
                    on_bridge (SendPowerCommand code) i b
                      (\<lambda>s. logAudit ''kvm_power_control'' '''' (server_of i s) i (cl_addr cl) s)
                      (ApiMap [(''status'', ''ok''), (''action'', action)]) s)))"

definition KVMDisplayLock :: "bool option \<Rightarrow> caller \<Rightarrow> string \<Rightarrow> Server \<Rightarrow> (api_response \<times> Server) option" where
  "KVMDisplayLock req cl i s =
     (case getBridge i s of
        None \<Rightarrow> Some (no_bridge, s)
      | Some b \<Rightarrow>
          (case req of
             None \<Rightarrow> Some (bad_body, s)
           | Some lock \<Rightarrow>
               on_bridge (SendDisplayLock lock) i b (audit_kvm ''kvm_display_lock'' i cl)
                 (ApiMap [(''status'', ''ok''), (''lock'', if lock then ''true'' else ''false'')]) s))"

definition KVMResetVideo :: "caller \<Rightarrow> string \<Rightarrow> Server \<Rightarrow> (api_response \<times> Server) option" where
  "KVMResetVideo cl i s =
     (case getBridge i s of
        None \<Rightarrow> Some (no_bridge, s)
      | Some b \<Rightarrow> on_bridge ResetVideo i b (audit_kvm ''kvm_reset_video'' i cl) ApiOk s)"

definition mouse_code :: "string \<Rightarrow> u8 option" where
  "mouse_code mode = (if mode = ''relative'' then Some 1 else if mode = ''absolute'' then Some 2 else None)"

definition KVMMouseMode :: "string option \<Rightarrow> caller \<Rightarrow> string \<Rightarrow> Server \<Rightarrow> (api_response \<times> Server) option" where
  "KVMMouseMode req cl i s =
     (case getBridge i s of
        None \<Rightarrow> Some (no_bridge, s)
      | Some b \<Rightarrow>
          (case req of
             None \<Rightarrow> Some (bad_body, s)
           | Some mode \<Rightarrow>
               (case mouse_code mode of
                  None \<Rightarrow> Some (ApiError 400 ''invalid mode: must be relative or absolute'', s)
                | Some code \<Rightarrow>
                    on_bridge (SetMouseMode code) i b (audit_kvm ''kvm_mouse_mode'' i cl)
                      (ApiMap [(''status'', ''ok''), (''mode'', mode)]) s)))"

definition layout_code :: "string \<Rightarrow> string option" where
  "layout_code layout =
     (if layout = ''en'' then Some ''AD''
      else if layout = ''fr'' then Some ''FR''
      else if layout = ''de'' then Some ''DE''
      else if layout = ''es'' then Some ''ES''
      else if layout = ''jp'' then Some ''JP''
      else None)"

definition KVMKeyboardLayout :: "string option \<Rightarrow> caller \<Rightarrow> string \<Rightarrow> Server \<Rightarrow> (api_response \<times> Server) option" where
  "KVMKeyboardLayout req cl i s =
     (case getBridge i s of
        None \<Rightarrow> Some (no_bridge, s)
      | Some b \<Rightarrow>
          (case req of
             None \<Rightarrow> Some (bad_body, s)
           | Some layout \<Rightarrow>
               (case layout_code layout of
                  None \<Rightarrow> Some (ApiError 400 ''invalid layout: must be en/fr/de/es/jp'', s)
                | Some code \<Rightarrow>
                    on_bridge (SetKeyboardLayout code) i b (audit_kvm ''kvm_keyboard_layout'' i cl)
                      (ApiMap [(''status'', ''ok''), (''layout'', layout)]) s)))"

definition KVMIPMICommand :: "bytes option \<Rightarrow> caller \<Rightarrow> string \<Rightarrow> Server \<Rightarrow> (api_response \<times> Server) option" where
  "KVMIPMICommand req cl i s =
     (case getBridge i s of
        None \<Rightarrow> Some (no_bridge, s)
      | Some b \<Rightarrow>
          (case req of
             None \<Rightarrow> Some (bad_body, s)
           | Some data \<Rightarrow>
               if length data = 0 then Some (ApiError 400 ''data is required'', s)
               else on_bridge (SendIPMICommand data) i b (audit_kvm ''kvm_ipmi_command'' i cl) ApiOk s))"

text \<open>\<open>png\<close> is the encoder of \<open>image/png\<close>.\<close>

definition KVMScreenshot ::
  "(nat \<Rightarrow> nat \<Rightarrow> bytes \<Rightarrow> bytes) \<Rightarrow> caller \<Rightarrow> string \<Rightarrow> Server \<Rightarrow> (api_response \<times> Server) option" where
  "KVMScreenshot png cl i s =
     (case getBridge i s of
        None \<Rightarrow> Some (no_bridge, s)
      | Some b \<Rightarrow> do {
          shot \<leftarrow> Screenshot png b;
          Some (case shot of
             None \<Rightarrow> (ApiError 503 ''no framebuffer available'', s)
           | Some d \<Rightarrow> (ApiPNG d, audit_kvm ''kvm_screenshot'' i cl s))
        })"

section \<open>Viewer control\<close>

definition ensureViewerRegistry :: "string \<Rightarrow> Server \<Rightarrow> ViewerRegistry \<times> Server" where
  "ensureViewerRegistry i s =
     (case sv_ViewerRegistries s i of
        Some reg \<Rightarrow> (reg, s)
      | None \<Rightarrow> (NewViewerRegistry, s\<lparr>sv_ViewerRegistries := (sv_ViewerRegistries s)(i \<mapsto> NewViewerRegistry)\<rparr>))"

definition set_registry :: "string \<Rightarrow> ViewerRegistry \<Rightarrow> Server \<Rightarrow> Server" where
  "set_registry i reg s = s\<lparr>sv_ViewerRegistries := (sv_ViewerRegistries s)(i \<mapsto> reg)\<rparr>"

text \<open>Display name, email and address.\<close>

definition resolveViewerIdentity :: "caller \<Rightarrow> string \<times> string \<times> string" where
  "resolveViewerIdentity cl =
     (case cl_user cl of
        Some u \<Rightarrow> (ui_Email u, ui_Email u, cl_ip cl)
      | None \<Rightarrow> (cl_ip cl, '''', cl_ip cl))"

text \<open>The viewer a request is about: \<open>viewer_id\<close> of the body (empty when there is none), else the first listed
  viewer from the address that has control, or has it not.\<close>

definition chosen_viewer :: "string \<Rightarrow> string \<Rightarrow> bool \<Rightarrow> ViewerRegistry \<Rightarrow> string" where
  "chosen_viewer viewer_id ip has reg =
     (if viewer_id = '''' then
        (case List.find (\<lambda>v. v_IP v = ip \<and> v_HasControl v = has) (List_viewers reg) of
           None \<Rightarrow> ''''
         | Some v \<Rightarrow> v_ID v)
      else viewer_id)"

text \<open>The message has a long dash where \<open>--\<close> stands here.\<close>

definition no_viewer :: api_response where
  "no_viewer = ApiError 404 ''viewer not found -- pass viewer_id in request body''"

definition RequestViewerControl :: "int \<Rightarrow> string \<Rightarrow> caller \<Rightarrow> string \<Rightarrow> Server \<Rightarrow> api_response \<times> Server" where
  "RequestViewerControl now viewer_id cl i s =
     (case store_Get (sv_Sessions s) i of
        None \<Rightarrow> (ApiError 404 ''session not found'', s)
      | Some r \<Rightarrow>
          (let (_, userEmail, ip) = resolveViewerIdentity cl
           in case sv_ViewerRegistries s i of
                None \<Rightarrow> (ApiError 404 ''no viewers connected'', s)
              | Some reg \<Rightarrow>
                  if Count reg = 0 then (ApiError 404 ''no viewers connected'', s)
                  else
                    (let viewerID = chosen_viewer viewer_id ip False reg
                     in if viewerID = '''' then (no_viewer, s)
                        else (case RequestControl now viewerID 30 reg of
                           (reg, False) \<Rightarrow> (ApiError 409 ''failed to request control'', set_registry i reg s)
                         | (reg, True) \<Rightarrow>
                             (ApiMap [(''status'', ''pending''), (''viewer_id'', viewerID)],
                              logAudit ''kvm_control_request'' userEmail (ks_ServerName (sv_heap s r)) i ip
                                (set_registry i reg s))))))"

definition handle_AcceptControlRequest :: "caller \<Rightarrow> string \<Rightarrow> Server \<Rightarrow> api_response \<times> Server" where
  "handle_AcceptControlRequest cl i s =
     (case store_Get (sv_Sessions s) i of
        None \<Rightarrow> (ApiError 404 ''session not found'', s)
      | Some r \<Rightarrow>
          (let (_, userEmail, ip) = resolveViewerIdentity cl
           in case sv_ViewerRegistries s i of
                None \<Rightarrow> (ApiError 404 ''no viewers connected'', s)
              | Some reg \<Rightarrow>
                  (case AcceptControlRequest reg of
                     (reg, False) \<Rightarrow> (ApiError 404 ''no pending control request'', set_registry i reg s)
                   | (reg, True) \<Rightarrow>
                       (ApiOk, logAudit ''kvm_control_transfer'' userEmail (ks_ServerName (sv_heap s r)) i ip
                                 (set_registry i reg s)))))"

definition handle_DenyControlRequest :: "string \<Rightarrow> Server \<Rightarrow> api_response \<times> Server" where
  "handle_DenyControlRequest i s =
     (case store_Get (sv_Sessions s) i of
        None \<Rightarrow> (ApiError 404 ''session not found'', s)
      | Some r \<Rightarrow>
          (case sv_ViewerRegistries s i of
             None \<Rightarrow> (ApiError 404 ''no viewers connected'', s)
           | Some reg \<Rightarrow> (ApiOk, set_registry i (DenyControlRequest reg) s)))"

definition ReleaseViewerControl :: "string \<Rightarrow> caller \<Rightarrow> string \<Rightarrow> Server \<Rightarrow> api_response \<times> Server" where
  "ReleaseViewerControl viewer_id cl i s =
     (case store_Get (sv_Sessions s) i of
        None \<Rightarrow> (ApiError 404 ''session not found'', s)
      | Some r \<Rightarrow>
          (let (_, userEmail, ip) = resolveViewerIdentity cl
           in case sv_ViewerRegistries s i of
                None \<Rightarrow> (ApiError 404 ''no viewers connected'', s)
              | Some reg \<Rightarrow>
                  if Count reg = 0 then (ApiError 404 ''no viewers connected'', s)
                  else
                    (let viewerID = chosen_viewer viewer_id ip True reg
                     in if viewerID = '''' then (no_viewer, s)
                        else (ApiOk, logAudit ''kvm_control_release'' userEmail (ks_ServerName (sv_heap s r)) i ip
                                       (set_registry i (ReleaseControl viewerID reg) s)))))"

section \<open>Opening a console\<close>

text \<open>\<open>fmt.Sscanf(s, "%d", \<dots>)\<close>: leading blanks, a sign, and as many digits as there are; a line feed before
  them, no digit or a value that does not fit is an error and assigns nothing.\<close>

definition is_blank :: "char \<Rightarrow> bool" where
  "is_blank c \<longleftrightarrow> (of_char c :: nat) \<in> {9, 11, 12, 13, 32}"

definition scan_int :: "string \<Rightarrow> int option" where
  "scan_int str =
     (case dropWhile is_blank str of
        [] \<Rightarrow> None
      | c # cs \<Rightarrow>
          if c = CHR ''-'' then Option.bind (parse_digits (takeWhile is_digit cs)) (\<lambda>n. in_int64 (- n))
          else if c = CHR ''+'' then Option.bind (parse_digits (takeWhile is_digit cs)) in_int64
          else Option.bind (parse_digits (takeWhile is_digit (c # cs))) in_int64)"

definition port_or :: "int \<Rightarrow> string \<Rightarrow> int" where
  "port_or d str = (if str = '''' then d else case scan_int str of None \<Rightarrow> d | Some n \<Rightarrow> n)"

definition bridge_config :: "JViewerArgs \<Rightarrow> ClientConfig" where
  "bridge_config args = \<lparr>cc_Host = jv_Hostname args, cc_Port = port_or 80 (jv_KVMPort args),
     cc_WebSecurePort = port_or 443 (jv_WebSecurePort args), cc_WebCookie = jv_WebCookie args,
     cc_KVMToken = jv_KVMToken args, cc_UseSSL = (jv_KVMSecure args = ''1'')\<rparr>"

datatype open_error = ENoArgs | EStart bridge_error

definition mark_kvm :: "bool \<Rightarrow> string \<Rightarrow> Server \<Rightarrow> Server" where
  "mark_kvm v name s =
     (case find_server (sv_Config s) name of
        None \<Rightarrow> s
      | Some cfg \<Rightarrow> set_proxy (sc_Name cfg) (\<lambda>e. e\<lparr>pe_kvmActive := v\<rparr>) s)"

definition ensureIKVMBridge ::
  "(string \<Rightarrow> Conn option) \<Rightarrow> KVMSession \<Rightarrow> Server \<Rightarrow> (open_error option \<times> Server) option" where
  "ensureIKVMBridge dial k s =
     (if (case sv_Bridges s (ks_ID k) of None \<Rightarrow> False | Some b \<Rightarrow> Running b) then Some (None, s)
      else (case ks_IKVMArgs k of
         None \<Rightarrow> Some (Some ENoArgs, s)
       | Some args \<Rightarrow> do {
           let s = mark_kvm True (ks_ServerName k) s;
           b \<leftarrow> NewBridge (bridge_config args);
           (e, b) \<leftarrow> Start dial b;
           Some (case e of
              Some e \<Rightarrow> (Some (EStart e), mark_kvm False (ks_ServerName k) s)
            | None \<Rightarrow> (None, s\<lparr>sv_Bridges := (sv_Bridges s)(ks_ID k \<mapsto> b)\<rparr>))
         }))"

text \<open>\<open>proxyIKVM\<close> up to the loop that serves the viewer, which is told whether it is entered: \<open>upgraded\<close> is the
  outcome of the WebSocket upgrade, \<open>viewerID\<close> the id of the query or a fresh one. \<open>close_viewer\<close> is the
  deferred end.\<close>

definition close_viewer :: "string \<Rightarrow> string \<Rightarrow> Server \<Rightarrow> Server" where
  "close_viewer viewerID i s =
     (case sv_ViewerRegistries s i of
        None \<Rightarrow> s
      | Some reg \<Rightarrow> set_registry i (Remove viewerID reg) s)"

definition proxyIKVM ::
  "int \<Rightarrow> string \<Rightarrow> caller \<Rightarrow> bool \<Rightarrow> (string \<Rightarrow> Conn option) \<Rightarrow> KVMSession \<Rightarrow> Server \<Rightarrow> (bool \<times> Server) option" where
  "proxyIKVM now viewerID cl upgraded dial k s =
     (if \<not> upgraded then Some (False, s)
      else do {
        let (displayName, _, viewerIP) = resolveViewerIdentity cl;
        let (registry, s) = ensureViewerRegistry (ks_ID k) s;
        let s = set_registry (ks_ID k) (Add now viewerID displayName viewerIP registry) s;
        (e, s) \<leftarrow> ensureIKVMBridge dial k s;
        Some (case e of
           Some e \<Rightarrow> (False, close_viewer viewerID (ks_ID k) s)
         | None \<Rightarrow> (True, s))
      })"

section \<open>Executions\<close>

text \<open>A control request that is answered.\<close>

inductive control_step :: "caller \<Rightarrow> string \<Rightarrow> Server \<Rightarrow> api_response \<Rightarrow> Server \<Rightarrow> bool" for cl i s where
  power: "KVMPowerControl getenv run req cl i s = Some (resp, s') \<Longrightarrow> control_step cl i s resp s'"
| lock: "KVMDisplayLock lk cl i s = Some (resp, s') \<Longrightarrow> control_step cl i s resp s'"
| reset: "KVMResetVideo cl i s = Some (resp, s') \<Longrightarrow> control_step cl i s resp s'"
| mouse: "KVMMouseMode req cl i s = Some (resp, s') \<Longrightarrow> control_step cl i s resp s'"
| layout: "KVMKeyboardLayout req cl i s = Some (resp, s') \<Longrightarrow> control_step cl i s resp s'"
| ipmi: "KVMIPMICommand d cl i s = Some (resp, s') \<Longrightarrow> control_step cl i s resp s'"
| screenshot: "KVMScreenshot png cl i s = Some (resp, s') \<Longrightarrow> control_step cl i s resp s'"

text \<open>A viewer control request.\<close>

inductive viewer_step :: "caller \<Rightarrow> string \<Rightarrow> Server \<Rightarrow> Server \<Rightarrow> bool" for cl i s where
  request: "viewer_step cl i s (snd (RequestViewerControl now v cl i s))"
| accept: "viewer_step cl i s (snd (handle_AcceptControlRequest cl i s))"
| deny: "viewer_step cl i s (snd (handle_DenyControlRequest i s))"
| release: "viewer_step cl i s (snd (ReleaseViewerControl v cl i s))"
| leave: "viewer_step cl i s (close_viewer v i s)"
| timer: "\<lbrakk>sv_ViewerRegistries s i = Some reg; l = OFire now t \<or> l = OCallback v; vr_ok reg l\<rbrakk>
    \<Longrightarrow> viewer_step cl i s (set_registry i (vr_next reg l) s)"

text \<open>The states of a server with consoles. A viewer enters under an id of its own; between two handlers a bridge
  may move to any state that a bridge can reach.\<close>

inductive console_state :: "AppConfig \<Rightarrow> Server \<Rightarrow> bool" for cfg where
  start: "console_state cfg (newServerCore cfg)"
| session: "\<lbrakk>console_state cfg s; server_next op s = Some s'\<rbrakk> \<Longrightarrow> console_state cfg s'"
| control: "\<lbrakk>console_state cfg s; control_step cl i s resp s'\<rbrakk> \<Longrightarrow> console_state cfg s'"
| viewer: "\<lbrakk>console_state cfg s; viewer_step cl i s s'\<rbrakk> \<Longrightarrow> console_state cfg s'"
| enter: "\<lbrakk>console_state cfg s; v \<noteq> ''''; \<forall>reg. sv_ViewerRegistries s (ks_ID k) = Some reg \<longrightarrow> v \<notin> dom (viewers reg);
     proxyIKVM now v cl upgraded dial k s = Some (entered, s')\<rbrakk> \<Longrightarrow> console_state cfg s'"
| bridge: "\<lbrakk>console_state cfg s; sv_Bridges s i = Some b; bridge_state b'\<rbrakk>
    \<Longrightarrow> console_state cfg (s\<lparr>sv_Bridges := (sv_Bridges s)(i \<mapsto> b')\<rparr>)"

section \<open>Invariant\<close>

definition console_inv :: "Server \<Rightarrow> bool" where
  "console_inv s \<longleftrightarrow> (\<forall>i b. sv_Bridges s i = Some b \<longrightarrow> bridge_state b)
     \<and> (\<forall>i reg. sv_ViewerRegistries s i = Some reg \<longrightarrow> vr_inv reg)"

text \<open>The session operations only remove bridges.\<close>

definition fewer_bridges :: "Server \<Rightarrow> Server \<Rightarrow> bool" where
  "fewer_bridges s s' \<longleftrightarrow> sv_Bridges s' \<subseteq>\<^sub>m sv_Bridges s \<and> sv_ViewerRegistries s' = sv_ViewerRegistries s"

lemma fewer_refl [simp]: "fewer_bridges s s"
  by (simp add: fewer_bridges_def)

lemma fewer_trans: "fewer_bridges s t \<Longrightarrow> fewer_bridges t u \<Longrightarrow> fewer_bridges s u"
  unfolding fewer_bridges_def using map_le_trans by auto

lemma fewer_inv: "fewer_bridges s s' \<Longrightarrow> console_inv s \<Longrightarrow> console_inv s'"
  unfolding fewer_bridges_def console_inv_def map_le_def by (metis domI)

text \<open>What leaves bridges and registries alone.\<close>

definition same_consoles :: "Server \<Rightarrow> Server \<Rightarrow> bool" where
  "same_consoles s s' \<longleftrightarrow> sv_Bridges s' = sv_Bridges s \<and> sv_ViewerRegistries s' = sv_ViewerRegistries s"

lemma same_consoles_simps [simp]:
  "same_consoles s s" "same_consoles s (logAudit a b c d e t) = same_consoles s t"
  "same_consoles s (set_proxy n g t) = same_consoles s t" "same_consoles s (snd (getOrCreateProxy n t)) = same_consoles s t"
  "same_consoles s (bmc_logout reg n creds t) = same_consoles s t"
  "same_consoles s (StopVNCBridge i t) = same_consoles s t" "same_consoles s (StopWSSProxy i t) = same_consoles s t"
  "same_consoles s (t\<lparr>sv_BMCCreds := h\<rparr>) = same_consoles s t" "same_consoles s (t\<lparr>sv_tasks := h'\<rparr>) = same_consoles s t"
  "same_consoles s (write_session r f t) = same_consoles s t" "same_consoles s (set_session r t) = same_consoles s t"
  "same_consoles s (update_session r f t) = same_consoles s t" "same_consoles s (mark_kvm v n t) = same_consoles s t"
  by (auto simp: same_consoles_def logAudit_def getOrCreateProxy_def set_proxy_def bmc_logout_def StopVNCBridge_def
      StopWSSProxy_def write_session_def set_session_def update_session_def mark_kvm_def Let_def split: option.splits)

lemma same_consoles_fewer: "same_consoles s s' \<Longrightarrow> fewer_bridges s s'"
  by (simp add: same_consoles_def fewer_bridges_def)

lemma same_consoles_heap [simp]: "same_consoles s (t\<lparr>sv_heap := h, sv_next := n\<rparr>) = same_consoles s t"
  by (simp add: same_consoles_def)

lemma StopIKVMBridge_fewer: "StopIKVMBridge i s = Some s' \<Longrightarrow> fewer_bridges s s'"
proof -
  assume a: "StopIKVMBridge i s = Some s'"
  have "sv_ViewerRegistries s' = sv_ViewerRegistries s"
    using a unfolding StopIKVMBridge_def Let_def
    by (auto elim!: bind_SomeE simp: set_proxy_def getOrCreateProxy_def Let_def split: option.split_asm option.split)
  moreover have "(m(i := None)) \<subseteq>\<^sub>m m" for m :: "string \<rightharpoonup> Bridge"
    by (simp add: map_le_def)
  ultimately show ?thesis using StopIKVMBridge_fields(1)[OF a] by (simp add: fewer_bridges_def)
qed

lemma CreateSession_fewer: "CreateSession req cl visit now uid s = Some (resp, s') \<Longrightarrow> fewer_bridges s s'"
  unfolding CreateSession_def Let_def
  by (rule same_consoles_fewer) (auto elim!: bind_SomeE split: option.split_asm if_split_asm)

lemma startSession_fewer: "startSession be now r cfg s = Some s' \<Longrightarrow> same_consoles s s'"
  unfolding startSession_def start_megarac_def startIKVMSession_def startDirectSession_def fail_session_def Let_def
  by (auto elim!: bind_SomeE split: option.split_asm if_split_asm sum.splits prod.splits)
     (metis same_consoles_simps(1,4) snd_conv)+

lemma run_task_fewer: "run_task be now s = Some s' \<Longrightarrow> fewer_bridges s s'"
  unfolding run_task_def
  by (rule same_consoles_fewer) (auto split: list.split_asm dest!: startSession_fewer simp: same_consoles_def)

lemma DeleteSession_fewer: "DeleteSession reg i cl s = Some (resp, s') \<Longrightarrow> fewer_bridges s s'"
proof -
  assume d: "DeleteSession reg i cl s = Some (resp, s')"
  have st: "fewer_bridges s t" if "StopIKVMBridge i u = Some t" "same_consoles s u" for t u
    using that StopIKVMBridge_fewer same_consoles_fewer fewer_trans by blast
  have u: "fewer_bridges s (logAudit a b c e f (update_session r g (StopWSSProxy i (StopVNCBridge i t))))" if "fewer_bridges s t"
    for a b c e f r g t
    using that same_consoles_fewer[of t] fewer_trans by simp
  show ?thesis
  proof (cases "store_Get (sv_Sessions s) i")
    case (Some r)
    obtain t where t: "StopIKVMBridge i (case sv_BMCCreds s i of None \<Rightarrow> s
        | Some e \<Rightarrow> bmc_logout reg (ks_ServerName (sv_heap s r)) (ce_Creds e) (s\<lparr>sv_BMCCreds := (sv_BMCCreds s)(i := None)\<rparr>)) = Some t"
      "s' = logAudit ''session_delete'' (email_of cl) (ks_ServerName (sv_heap (StopWSSProxy i (StopVNCBridge i t)) r)) i (cl_ip cl)
        (update_session r (\<lambda>k. k\<lparr>ks_Status := SessionDisconnected\<rparr>) (StopWSSProxy i (StopVNCBridge i t)))"
      using d unfolding DeleteSession_def Let_def Some option.case by (auto elim!: bind_SomeE simp: logAudit_def)
    have "fewer_bridges s t" by (rule st[OF t(1)]) (simp split: option.split)
    then show ?thesis unfolding t(2) by (rule u)
  qed (use d in \<open>simp add: DeleteSession_def\<close>)
qed

lemma cleanup_idle_fewer: "cleanup_idle th r s = Some s' \<Longrightarrow> fewer_bridges s s'"
proof (cases "ks_Status (sv_heap s r) = SessionConnected \<and> ks_LastActivity (sv_heap s r) < th")
  case True
  moreover assume "cleanup_idle th r s = Some s'"
  ultimately obtain t where t: "StopIKVMBridge (ks_ID (sv_heap s r)) s = Some t"
    "s' = update_session r (\<lambda>k. k\<lparr>ks_Status := SessionDisconnected\<rparr>) t" by (auto simp: cleanup_idle_def elim!: bind_SomeE)
  show ?thesis
    unfolding t(2) by (rule fewer_trans[OF StopIKVMBridge_fewer[OF t(1)] same_consoles_fewer]) simp
qed (auto simp: cleanup_idle_def Let_def)

lemma logouts_consoles: "same_consoles s t \<Longrightarrow> same_consoles s (fold (\<lambda>(name, creds). bmc_logout reg name creds) xs t)"
proof (induction xs arbitrary: t)
  case (Cons x xs)
  have "same_consoles s (case x of (name, creds) \<Rightarrow> bmc_logout reg name creds t)"
    using Cons.prems by (cases x) simp
  from Cons.IH[OF this] show ?case by (cases x) simp
qed simp

lemma cleanup_creds_consoles: "same_consoles s (CleanupStaleBMCCreds reg visit ttl now s)"
  unfolding CleanupStaleBMCCreds_def Let_def by (rule logouts_consoles) simp

lemma foldM_fewer:
  assumes "\<And>x s s'. f x s = Some s' \<Longrightarrow> fewer_bridges s s'" "foldM f xs s = Some s'"
  shows "fewer_bridges s s'"
  using assms(2)
proof (induction xs arbitrary: s)
  case (Cons x xs)
  then obtain t where t: "f x s = Some t" "foldM f xs t = Some s'" by (auto elim!: bind_SomeE)
  show ?case using fewer_trans[OF assms(1)[OF t(1)] Cons.IH[OF t(2)]] .
qed simp

lemma cleanup_fewer: "sessionCleanup reg visit visit_creds now s = Some s' \<Longrightarrow> fewer_bridges s s'"
  unfolding sessionCleanup_def Let_def
  by (auto elim!: bind_SomeE intro: fewer_trans[OF foldM_fewer[OF cleanup_idle_fewer] same_consoles_fewer[OF cleanup_creds_consoles]])

lemma server_next_fewer: "server_next op s = Some s' \<Longrightarrow> fewer_bridges s s'"
  by (cases op) (auto dest: CreateSession_fewer run_task_fewer DeleteSession_fewer cleanup_fewer
      simp: KeepAliveSession_def intro: same_consoles_fewer split: option.split)

text \<open>A control moves the bridge of its session by one of the bridge's operations, or nothing.\<close>

definition bridge_moves :: "string \<Rightarrow> Server \<Rightarrow> Server \<Rightarrow> bool" where
  "bridge_moves i s s' \<longleftrightarrow> same_sessions s s' \<and> same_viewing s s' \<and> sv_ViewerRegistries s' = sv_ViewerRegistries s
     \<and> (\<forall>j. j \<noteq> i \<longrightarrow> sv_Bridges s' j = sv_Bridges s j)
     \<and> (\<forall>b'. sv_Bridges s' i = Some b' \<longrightarrow>
           (\<exists>b. sv_Bridges s i = Some b \<and> (bridge_state b \<longrightarrow> bridge_state b')))"

lemma bridge_moves_refl [simp]: "bridge_moves i s s"
  by (auto simp: bridge_moves_def same_viewing_def)

lemma bridge_moves_audit: "bridge_moves i s (logAudit a b c d e t) = bridge_moves i s t"
  by (simp add: bridge_moves_def logAudit_def same_viewing_def same_sessions_def)

lemma bridge_moves_audit_kvm [simp]: "bridge_moves i s (audit_kvm ev j cl t) = bridge_moves i s t"
  by (simp add: audit_kvm_def bridge_moves_audit)

text \<open>What an answered control leaves in the audit log: an entry exactly when it succeeded.\<close>

definition audited :: "string \<Rightarrow> string \<Rightarrow> api_response \<Rightarrow> Server \<Rightarrow> Server \<Rightarrow> bool" where
  "audited email i resp s s' \<longleftrightarrow>
     (case sv_audit s of
        None \<Rightarrow> sv_audit s' = None
      | Some es \<Rightarrow>
          if (case resp of ApiError c m \<Rightarrow> True | ApiBridgeError e \<Rightarrow> True | _ \<Rightarrow> False) then sv_audit s' = Some es
          else (\<exists>e. sv_audit s' = Some (es @ [e]) \<and> ae_SessionID e = i \<and> ae_UserEmail e = email \<and> ae_ServerName e = server_of i s))"

lemma audited_error:
  "audited email i (ApiError c m) s s" "sv_audit s' = sv_audit s \<Longrightarrow> audited email i (ApiBridgeError e) s s'"
  by (auto simp: audited_def split: option.split)

lemma on_bridge_moves:
  assumes "on_bridge send i b audit ok s = Some (resp, s')" "sv_Bridges s i = Some b"
    and "\<And>e b'. send b = Some (e, b') \<Longrightarrow> bridge_state b \<Longrightarrow> bridge_state b'"
    and "\<And>t. bridge_moves i s (audit t) = bridge_moves i s t"
  shows "bridge_moves i s s'"
proof -
  obtain e b' where e: "send b = Some (e, b')"
    "(resp, s') = (case e of Some e \<Rightarrow> (ApiBridgeError e, s\<lparr>sv_Bridges := (sv_Bridges s)(i \<mapsto> b')\<rparr>)
       | None \<Rightarrow> (ok, audit (s\<lparr>sv_Bridges := (sv_Bridges s)(i \<mapsto> b')\<rparr>)))"
    using assms(1) unfolding on_bridge_def Let_def by (auto elim!: bind_SomeE)
  have "bridge_moves i s (s\<lparr>sv_Bridges := (sv_Bridges s)(i \<mapsto> b')\<rparr>)"
    using assms(2) assms(3)[OF e(1)] by (simp add: bridge_moves_def same_sessions_def same_viewing_def)
  then show ?thesis using e(2) assms(4) by (auto split: option.split_asm)
qed

lemma on_bridge_audited:
  assumes "on_bridge send i b audit ok s = Some (resp, s')" "ok = ApiMap m"
    and "\<And>t. \<exists>ev a. audit t = logAudit ev email (server_of i t) i a t"
  shows "audited email i resp s s'"
proof -
  obtain e b' where e: "send b = Some (e, b')"
    "(resp, s') = (case e of Some e \<Rightarrow> (ApiBridgeError e, s\<lparr>sv_Bridges := (sv_Bridges s)(i \<mapsto> b')\<rparr>)
       | None \<Rightarrow> (ok, audit (s\<lparr>sv_Bridges := (sv_Bridges s)(i \<mapsto> b')\<rparr>)))"
    using assms(1) unfolding on_bridge_def Let_def by (auto elim!: bind_SomeE)
  have srv: "server_of i (s\<lparr>sv_Bridges := f\<rparr>) = server_of i s" for f
    by (simp add: server_of_def split: option.split)
  obtain ev a where "audit (s\<lparr>sv_Bridges := (sv_Bridges s)(i \<mapsto> b')\<rparr>)
      = logAudit ev email (server_of i s) i a (s\<lparr>sv_Bridges := (sv_Bridges s)(i \<mapsto> b')\<rparr>)"
    using assms(3)[of "s\<lparr>sv_Bridges := (sv_Bridges s)(i \<mapsto> b')\<rparr>"] by (auto simp: srv)
  with e show ?thesis
    by (auto simp: audited_def logAudit_def assms(2) split: option.split_asm option.split)
qed

lemma audit_kvm_form: "\<exists>ev' a. audit_kvm ev i cl t = logAudit ev' (email_of cl) (server_of i t) i a t"
  unfolding audit_kvm_def by blast

lemma audit_power_form: "\<exists>ev a. logAudit ev' '''' (server_of i t) i a' t = logAudit ev '''' (server_of i t) i a t"
  by blast

lemma cold_reset_moves: "bmc_cold_reset getenv run cl i s = (resp, s') \<Longrightarrow> bridge_moves i s s'"
  unfolding bmc_cold_reset_def by (auto simp: bridge_moves_audit split: option.split_asm prod.split_asm)

lemma control_step_moves: "control_step cl i s resp s' \<Longrightarrow> bridge_moves i s s'"
proof (induction rule: control_step.induct)
  case (power getenv run req resp s')
  then show ?case
    unfolding KVMPowerControl_def getBridge_def
    by (auto split: option.split_asm if_split_asm dest: cold_reset_moves
        elim!: on_bridge_moves intro: bridge_state.power simp: bridge_moves_audit)
next
  case (lock lk resp s')
  then show ?case
    unfolding KVMDisplayLock_def getBridge_def
    by (auto split: option.split_asm elim!: on_bridge_moves intro: bridge_state.lock)
next
  case (reset resp s')
  then show ?case
    unfolding KVMResetVideo_def getBridge_def
    by (auto split: option.split_asm elim!: on_bridge_moves intro: bridge_state.reset)
next
  case (mouse req resp s')
  then show ?case
    unfolding KVMMouseMode_def getBridge_def
    by (auto split: option.split_asm elim!: on_bridge_moves intro: bridge_state.mouse)
next
  case (layout req resp s')
  then show ?case
    unfolding KVMKeyboardLayout_def getBridge_def
    by (auto split: option.split_asm elim!: on_bridge_moves intro: bridge_state.layout)
next
  case (ipmi d resp s')
  then show ?case
    unfolding KVMIPMICommand_def getBridge_def
    by (auto split: option.split_asm if_split_asm elim!: on_bridge_moves intro: bridge_state.ipmi)
next
  case (screenshot png resp s')
  then show ?case
    unfolding KVMScreenshot_def getBridge_def
    by (auto split: option.split_asm elim!: bind_SomeE)
qed

lemma moves_console_inv: "bridge_moves i s s' \<Longrightarrow> console_inv s \<Longrightarrow> console_inv s'"
  unfolding bridge_moves_def console_inv_def by metis

text \<open>Viewer requests.\<close>

lemma set_registry_inv: "\<lbrakk>console_inv s; vr_inv reg\<rbrakk> \<Longrightarrow> console_inv (set_registry i reg s)"
  by (auto simp: console_inv_def set_registry_def)

lemma audit_inv [simp]: "console_inv (logAudit a b c d e s) = console_inv s"
  by (simp add: console_inv_def logAudit_def)

lemma registry_inv: "\<lbrakk>console_inv s; sv_ViewerRegistries s i = Some reg\<rbrakk> \<Longrightarrow> vr_inv reg"
  by (simp add: console_inv_def)

lemma request_pair: "\<lbrakk>RequestControl now v n reg = (reg', ok); vr_inv reg\<rbrakk> \<Longrightarrow> vr_inv reg'"
  using vr_inv_Request[of reg now v n] by simp

lemma accept_pair: "\<lbrakk>AcceptControlRequest reg = (reg', ok); vr_inv reg\<rbrakk> \<Longrightarrow> vr_inv reg'"
  using vr_inv_Accept[of reg] by simp

lemma viewer_step_inv: "viewer_step cl i s s' \<Longrightarrow> console_inv s \<Longrightarrow> console_inv s'"
proof (induction rule: viewer_step.induct)
  case (request now v)
  then show ?case
    by (auto simp: RequestViewerControl_def Let_def intro!: set_registry_inv dest: registry_inv request_pair
        split: option.split prod.split bool.split)
next
  case accept
  then show ?case
    by (auto simp: handle_AcceptControlRequest_def Let_def intro!: set_registry_inv dest: registry_inv accept_pair
        split: option.split prod.split bool.split)
next
  case deny
  then show ?case
    by (auto simp: handle_DenyControlRequest_def intro!: set_registry_inv vr_inv_Deny dest: registry_inv split: option.split)
next
  case (release v)
  then show ?case
    by (auto simp: ReleaseViewerControl_def Let_def intro!: set_registry_inv vr_inv_Release dest: registry_inv
        split: option.split prod.split)
next
  case (leave v)
  then show ?case
    by (auto simp: close_viewer_def intro!: set_registry_inv vr_inv_Remove dest: registry_inv split: option.split)
next
  case (timer reg l now t v)
  then show ?case using set_registry_inv vr_inv_next registry_inv by blast
qed

text \<open>Entering a console.\<close>

lemma mark_kvm_inv [simp]: "console_inv (mark_kvm v n s) = console_inv s"
  using same_consoles_simps(13)[of s v n s] by (auto simp: same_consoles_def console_inv_def)

lemma ensure_fields:
  assumes "ensureIKVMBridge dial k s = Some (e, s')"
  shows "sv_ViewerRegistries s' = sv_ViewerRegistries s" "console_inv s \<Longrightarrow> console_inv s'"
proof -
  have m: "sv_ViewerRegistries (mark_kvm v n t) = sv_ViewerRegistries t" "sv_Bridges (mark_kvm v n t) = sv_Bridges t" for v n t
    using same_consoles_simps(13)[of t v n t] by (auto simp: same_consoles_def)
  show "sv_ViewerRegistries s' = sv_ViewerRegistries s"
    using assms unfolding ensureIKVMBridge_def Let_def
    by (auto simp: m elim!: bind_SomeE split: option.split_asm if_split_asm)
  have new: "console_inv (t\<lparr>sv_Bridges := (sv_Bridges t)(i \<mapsto> b')\<rparr>)"
    if "NewBridge cfg = Some b" "Start dial b = Some (x, b')" "console_inv t" for cfg b x b' t i
    using that bridge_state.start[OF bridge_state.new] by (auto simp: console_inv_def)
  show "console_inv s'" if "console_inv s"
    using assms that new[OF _ _ mark_kvm_inv[THEN iffD2, OF that]] unfolding ensureIKVMBridge_def Let_def
    by (auto elim!: bind_SomeE simp: m split: option.split_asm if_split_asm)
qed

lemma proxyIKVM_inv:
  assumes "proxyIKVM now v cl upgraded dial k s = Some (entered, s')" "console_inv s" "v \<noteq> ''''"
    "\<forall>reg. sv_ViewerRegistries s (ks_ID k) = Some reg \<longrightarrow> v \<notin> dom (viewers reg)"
  shows "console_inv s'"
proof (cases upgraded)
  case True
  obtain name em ip where id: "resolveViewerIdentity cl = (name, em, ip)" by (cases "resolveViewerIdentity cl")
  obtain reg s1 where reg: "ensureViewerRegistry (ks_ID k) s = (reg, s1)" by (cases "ensureViewerRegistry (ks_ID k) s")
  have 1: "console_inv s1 \<and> vr_inv reg \<and> v \<notin> dom (viewers reg)"
    using reg assms(2,4) registry.inv_start
    by (auto simp: ensureViewerRegistry_def console_inv_def NewViewerRegistry_def split: option.split_asm if_split_asm)
  have 2: "console_inv (set_registry (ks_ID k) (Add now v name ip reg) s1)"
    using 1 assms(3) by (simp add: set_registry_inv vr_inv_Add)
  obtain e s2 where e: "ensureIKVMBridge dial k (set_registry (ks_ID k) (Add now v name ip reg) s1) = Some (e, s2)"
    "s' = s2 \<or> s' = close_viewer v (ks_ID k) s2"
    using assms(1) True unfolding proxyIKVM_def Let_def id reg
    by (auto elim!: bind_SomeE split: option.split_asm)
  have "console_inv s2" by (rule ensure_fields(2)[OF e(1) 2])
  then show ?thesis using e(2) viewer_step_inv[OF viewer_step.leave] by blast
qed (use assms in \<open>simp add: proxyIKVM_def\<close>)

lemma console_state_inv: "console_state cfg s \<Longrightarrow> console_inv s"
proof (induction rule: console_state.induct)
  case start
  show ?case by (simp add: console_inv_def newServerCore_def)
next
  case (session s op s')
  then show ?case using server_next_fewer fewer_inv by blast
next
  case (control s cl i resp s')
  then show ?case using control_step_moves moves_console_inv by blast
next
  case (viewer s cl i s')
  then show ?case using viewer_step_inv by blast
next
  case (enter s v k now cl upgraded dial entered s')
  then show ?case using proxyIKVM_inv by blast
next
  case (bridge s i b b')
  then show ?case by (auto simp: console_inv_def)
qed

section \<open>Properties\<close>

lemma StopIKVMBridge_returns:
  assumes "console_inv s"
  shows "\<exists>s'. StopIKVMBridge i s = Some s'"
proof (cases "sv_Bridges s i")
  case (Some b)
  then obtain b' where "stop_bridge b = Some b'"
    using assms stop_bridge_returns bridge_state_inv unfolding console_inv_def by blast
  with Some show ?thesis by (simp add: StopIKVMBridge_def Let_def)
qed (simp add: StopIKVMBridge_def)

lemma foldM_returns:
  assumes "\<And>x s. I s \<Longrightarrow> \<exists>s'. f x s = Some s' \<and> I s'" "I s"
  shows "\<exists>s'. foldM f xs s = Some s'"
  using assms(2)
proof (induction xs arbitrary: s)
  case (Cons x xs)
  obtain t where t: "f x s = Some t" "I t" using assms(1)[OF Cons.prems] by blast
  show ?case using Cons.IH[OF t(2)] t(1) by simp
qed simp

text \<open>Deleting a session and the cleanup loop return in every state of a server with consoles: stopping its
  bridge closes no channel twice, whatever the bridge did before.\<close>

theorem deletion_returns:
  assumes "console_state cfg s"
  shows "(\<exists>resp s'. DeleteSession reg i cl s = Some (resp, s')) \<and> (\<exists>s'. sessionCleanup reg visit visit_creds now s = Some s')"
proof
  have inv: "console_inv s" by (rule console_state_inv[OF assms])
  show "\<exists>resp s'. DeleteSession reg i cl s = Some (resp, s')"
  proof (cases "store_Get (sv_Sessions s) i")
    case (Some r)
    define s0 where "s0 = (case sv_BMCCreds s i of None \<Rightarrow> s
      | Some e \<Rightarrow> bmc_logout reg (ks_ServerName (sv_heap s r)) (ce_Creds e) (s\<lparr>sv_BMCCreds := (sv_BMCCreds s)(i := None)\<rparr>))"
    have "same_consoles s s0" by (simp add: s0_def split: option.split)
    then have "console_inv s0" using inv fewer_inv same_consoles_fewer by blast
    then obtain t where "StopIKVMBridge i s0 = Some t" using StopIKVMBridge_returns by blast
    then show ?thesis using Some by (simp add: DeleteSession_def s0_def[symmetric] Let_def)
  qed (simp add: DeleteSession_def)
  have "\<exists>s'. cleanup_idle th r s = Some s' \<and> console_inv s'" if i: "console_inv s" for th r s
  proof -
    have "\<exists>s'. cleanup_idle th r s = Some s'"
      using StopIKVMBridge_returns[OF i, of "ks_ID (sv_heap s r)"] by (auto simp: cleanup_idle_def Let_def)
    then show ?thesis using cleanup_idle_fewer fewer_inv i by blast
  qed
  from foldM_returns[of console_inv, OF this inv]
  show "\<exists>s'. sessionCleanup reg visit visit_creds now s = Some s'"
    by (auto simp: sessionCleanup_def Let_def split: bind_split)
qed


text \<open>A control request acts on the bridge of its session only: every other bridge, every session and every
  registry stay as they are.\<close>

theorem control_is_local:
  assumes "control_step cl i s resp s'"
  shows "sv_Sessions s' = sv_Sessions s \<and> sv_heap s' = sv_heap s \<and> sv_ViewerRegistries s' = sv_ViewerRegistries s
    \<and> (\<forall>j. j \<noteq> i \<longrightarrow> sv_Bridges s' j = sv_Bridges s j) \<and> (sv_Bridges s i = None \<longrightarrow> s' = s)"
proof -
  have "s' = s" if "sv_Bridges s i = None"
    using assms that
    by (cases rule: control_step.cases)
      (simp_all add: KVMPowerControl_def KVMDisplayLock_def KVMResetVideo_def KVMMouseMode_def KVMKeyboardLayout_def
        KVMIPMICommand_def KVMScreenshot_def getBridge_def)
  then show ?thesis
    using control_step_moves[OF assms] by (simp add: bridge_moves_def same_sessions_def)
qed

text \<open>A known power action writes exactly one header with its code to the connection of the session's bridge and
  is answered with success, when the connection takes it.\<close>

theorem KVMPowerControl_sends:
  assumes "power_code action = Some code" "sv_Bridges s i = Some b" "b_client b = Some c" "c_conn c = Some cn"
    and "\<not> cn_closed cn" "\<not> cn_fail cn (cn_writes cn)"
  shows "\<exists>s' b' c' cn'. KVMPowerControl getenv run (Some action) cl i s = Some (ApiMap [(''status'', ''ok''), (''action'', action)], s')
    \<and> sv_Bridges s' i = Some b' \<and> b_client b' = Some c' \<and> c_conn c' = Some cn'
    \<and> cn_out cn' = cn_out cn @ Encode \<lparr>Type = IVTPPowerControlReq, PktSize = 0, Status = ucast code\<rparr>"
proof -
  have "action \<noteq> ''bmc_reset''" using assms(1) by (auto simp: power_code_def)
  then show ?thesis
    using assms by (simp add: KVMPowerControl_def getBridge_def on_bridge_def SendPowerCommand_def with_client_def
        SendHeader_def conn_write_def logAudit_def Let_def)
qed

text \<open>Every control writes one audit entry exactly when it succeeds, with the session, its server and the email of
  the caller, except that the entries of power control never name a user.\<close>

theorem controls_audited:
  "(\<forall>getenv run req resp s'. KVMPowerControl getenv run req cl i s = Some (resp, s') \<longrightarrow> audited '''' i resp s s')
   \<and> (\<forall>lk resp s'. KVMDisplayLock lk cl i s = Some (resp, s') \<longrightarrow> audited (email_of cl) i resp s s')
   \<and> (\<forall>resp s'. KVMResetVideo cl i s = Some (resp, s') \<longrightarrow> audited (email_of cl) i resp s s')
   \<and> (\<forall>req resp s'. KVMMouseMode req cl i s = Some (resp, s') \<longrightarrow> audited (email_of cl) i resp s s')
   \<and> (\<forall>req resp s'. KVMKeyboardLayout req cl i s = Some (resp, s') \<longrightarrow> audited (email_of cl) i resp s s')
   \<and> (\<forall>d resp s'. KVMIPMICommand d cl i s = Some (resp, s') \<longrightarrow> audited (email_of cl) i resp s s')
   \<and> (\<forall>png resp s'. KVMScreenshot png cl i s = Some (resp, s') \<longrightarrow> audited (email_of cl) i resp s s')"
proof (intro conjI allI impI)
  have reset: "audited '''' i resp s s'" if "bmc_cold_reset getenv run cl i s = (resp, s')" for getenv run resp s'
    using that unfolding bmc_cold_reset_def
    by (auto simp: audited_def logAudit_def server_of_def split: option.split_asm prod.split_asm option.split)
  note simps = getBridge_def no_bridge_def bad_body_def
  note aud = on_bridge_audited[OF _ refl audit_kvm_form] on_bridge_audited[OF _ refl audit_power_form]
  show "audited '''' i resp s s'" if "KVMPowerControl getenv run req cl i s = Some (resp, s')" for getenv run req resp s'
    using that unfolding KVMPowerControl_def simps
    by (auto intro: audited_error reset elim!: aud split: option.split_asm if_split_asm)
  show "audited (email_of cl) i resp s s'" if "KVMDisplayLock lk cl i s = Some (resp, s')" for lk resp s'
    using that unfolding KVMDisplayLock_def simps by (auto intro: audited_error elim!: aud split: option.split_asm)
  show "audited (email_of cl) i resp s s'" if "KVMResetVideo cl i s = Some (resp, s')" for resp s'
    using that unfolding KVMResetVideo_def simps by (auto intro: audited_error elim!: aud split: option.split_asm)
  show "audited (email_of cl) i resp s s'" if "KVMMouseMode req cl i s = Some (resp, s')" for req resp s'
    using that unfolding KVMMouseMode_def simps by (auto intro: audited_error elim!: aud split: option.split_asm)
  show "audited (email_of cl) i resp s s'" if "KVMKeyboardLayout req cl i s = Some (resp, s')" for req resp s'
    using that unfolding KVMKeyboardLayout_def simps by (auto intro: audited_error elim!: aud split: option.split_asm)
  show "audited (email_of cl) i resp s s'" if "KVMIPMICommand d cl i s = Some (resp, s')" for d resp s'
    using that unfolding KVMIPMICommand_def simps
    by (auto intro: audited_error elim!: aud split: option.split_asm if_split_asm)
  show "audited (email_of cl) i resp s s'" if "KVMScreenshot png cl i s = Some (resp, s')" for png resp s'
    using that unfolding KVMScreenshot_def simps
    by (auto simp: audited_def audit_kvm_def logAudit_def elim!: bind_SomeE split: option.split_asm option.split)
qed

text \<open>A viewer without control takes it with two requests of its own: nothing asks that the controlling viewer
  accepts the request.\<close>

theorem requester_accepts_itself:
  assumes "console_state cfg s" "sv_Sessions s i = Some r" "sv_ViewerRegistries s i = Some reg"
    and "viewers reg v \<noteq> None" "\<not> HasControl v reg"
  shows "\<exists>reg'. sv_ViewerRegistries (snd (handle_AcceptControlRequest cl i (snd (RequestViewerControl now v cl i s)))) i = Some reg'
    \<and> HasControl v reg'"
proof -
  have inv: "vr_inv reg" by (rule registry_inv[OF console_state_inv[OF assms(1)] assms(3)])
  have v: "v \<noteq> []" using inv assms(4) by (auto simp: vr_inv_def)
  have "finite (dom (viewers reg))" using inv unfolding vr_inv_def by (metis finite_set)
  then have "Count reg \<noteq> 0" using assms(4) by (auto simp: Count_def)
  obtain u where u: "viewers reg v = Some u" using assms(4) by blast
  define reg1 where "reg1 = fst (RequestControl now v 30 reg)"
  have r1: "RequestControl now v 30 reg = (reg1, True)" "viewers reg1 v = Some u" "pendingRequest reg1 \<noteq> None"
    "\<And>q. pendingRequest reg1 = Some q \<Longrightarrow> RequesterID q = v"
    using u assms(5) by (auto simp: reg1_def RequestControl_def HasControl_def Let_def)
  define s1 where "s1 = snd (RequestViewerControl now v cl i s)"
  have s1: "sv_Sessions s1 i = Some r" "sv_ViewerRegistries s1 i = Some reg1"
    using assms(2,3) \<open>Count reg \<noteq> 0\<close> v r1(1)
    by (auto simp: s1_def RequestViewerControl_def store_Get_def chosen_viewer_def set_registry_def logAudit_def
        split: prod.split)
  obtain q where q: "pendingRequest reg1 = Some q" "RequesterID q = v" using r1(3,4) by blast
  obtain reg2 where reg2: "AcceptControlRequest reg1 = (reg2, True)" "controller reg2 = v"
    using q r1(2) by (simp add: AcceptControlRequest_def)
  show ?thesis
    unfolding s1_def[symmetric] using s1 reg2
    by (auto simp: handle_AcceptControlRequest_def store_Get_def set_registry_def logAudit_def HasControl_def
        split: prod.split)
qed

text \<open>When opening a console succeeds, the session has a running bridge; the other bridges are untouched. When it
  fails, no bridge was registered and the server is not left marked as in use.\<close>

theorem ensureIKVMBridge_spec:
  assumes "ensureIKVMBridge dial k s = Some (e, s')"
  shows "(e = None \<longrightarrow> (\<exists>b. sv_Bridges s' (ks_ID k) = Some b \<and> Running b))
    \<and> (\<forall>j. j \<noteq> ks_ID k \<longrightarrow> sv_Bridges s' j = sv_Bridges s j)
    \<and> (e \<noteq> None \<longrightarrow> sv_Bridges s' = sv_Bridges s
        \<and> (\<forall>err c. e = Some (EStart err) \<longrightarrow> find_server (sv_Config s) (ks_ServerName k) = Some c \<longrightarrow>
             (\<exists>p. sv_proxies s' (sc_Name c) = Some p \<and> \<not> pe_kvmActive p)))"
proof -
  have m: "sv_Bridges (mark_kvm v n t) = sv_Bridges t" for v n t
    using same_consoles_simps(13)[of t v n t] by (auto simp: same_consoles_def)
  have c: "sv_Config (mark_kvm v n t) = sv_Config t" for v n t
    by (auto simp: mark_kvm_def set_proxy_def getOrCreateProxy_def Let_def split: option.split)
  have p: "\<exists>p. sv_proxies (mark_kvm False n t) (sc_Name cf) = Some p \<and> \<not> pe_kvmActive p"
    if "find_server (sv_Config t) n = Some cf" for n t cf
    using that by (auto simp: mark_kvm_def set_proxy_def split: prod.split)
  have run: "Running b'" if "Start dial b = Some (None, b')" for b b'
    using that by (auto simp: Start_def Running_def Let_def elim!: bind_SomeE split: if_split_asm option.split_asm prod.split_asm)
  show ?thesis
    using assms unfolding ensureIKVMBridge_def Let_def
    by (auto simp: m elim!: bind_SomeE split: option.split_asm if_split_asm intro!: p simp: c) (erule run)+
qed

section \<open>Examples\<close>

definition sample_dial :: "string \<Rightarrow> Conn option" where
  "sample_dial addr = Some \<lparr>cn_in = crlf2, cn_out = [], cn_writes = 0, cn_fail = (\<lambda>_. False), cn_closed = False, cn_keep = 0,
     cn_local = ''10.0.0.9''\<rparr>"

lemma sample_tunnel: "tunnel_loop 4096 [0, 0, 0, 0] [] crlf2 = (None, crlf2, [])"
proof -
  have "tunnel_loop (Suc (Suc (Suc (Suc n)))) [0, 0, 0, 0] [] crlf2 = (None, crlf2, [])" for n
    by (simp add: crlf2_def)
  from this[of 4092] show ?thesis by simp
qed

lemma sample_no_error: "\<not> contains (str_bytes ''ERROR'') crlf2"
  by code_simp

lemma sample_Start:
  assumes "\<not> b_running b"
  shows "\<exists>b'. Start sample_dial b = Some (None, b') \<and> b_running b'
    \<and> (\<exists>c cn. b_client b' = Some c \<and> c_conn c = Some cn \<and> \<not> cn_closed cn \<and> \<not> cn_fail cn (cn_writes cn))"
  using assms
  by (simp add: Start_def Let_def Connect_def sample_dial_def singlePortHandshake_def conn_write_def readTunnelResponse_def
      sample_tunnel sample_no_error)

definition sample_args :: JViewerArgs where
  "sample_args = \<lparr>jv_Hostname = ''10.0.0.2'', jv_KVMToken = ''t'', jv_KVMSecure = ''0'', jv_KVMPort = ''80'', jv_VMSecure = '''',
     jv_CDState = '''', jv_FDState = '''', jv_HDState = '''', jv_CDNum = '''', jv_FDNum = '''', jv_HDNum = '''', jv_ExtendedPriv = '''',
     jv_Localization = '''', jv_KeyboardLayout = '''', jv_WebSecurePort = '''', jv_SinglePortEnabled = '''', jv_WebCookie = ''c'',
     jv_OEMFeatures = ''''\<rparr>"

definition sample_kvm :: KVMSession where
  "sample_kvm = (new_session ''u1'' ''web1'' (hd (ac_Servers sample_config)) 0)
     \<lparr>ks_Status := SessionConnected, ks_ConnMode := Some KVMModeIKVM, ks_IKVMArgs := Some sample_args\<rparr>"

lemma sample_kvm_fields: "ks_ID sample_kvm = ''u1''" "ks_IKVMArgs sample_kvm = Some sample_args"
  by (simp_all add: sample_kvm_def new_session_def)

lemma mark_kvm_fields:
  "sv_Bridges (mark_kvm v n t) = sv_Bridges t" "sv_ViewerRegistries (mark_kvm v n t) = sv_ViewerRegistries t"
  "sv_Sessions (mark_kvm v n t) = sv_Sessions t" "sv_audit (mark_kvm v n t) = sv_audit t"
  by (auto simp: mark_kvm_def set_proxy_def getOrCreateProxy_def Let_def split: option.split)

lemma sample_ensure:
  assumes "sv_Bridges s ''u1'' = None"
  shows "\<exists>b s'. ensureIKVMBridge sample_dial sample_kvm s = Some (None, s') \<and> sv_Bridges s' ''u1'' = Some b \<and> Running b
    \<and> sv_ViewerRegistries s' = sv_ViewerRegistries s \<and> sv_Sessions s' = sv_Sessions s
    \<and> (\<exists>c cn. b_client b = Some c \<and> c_conn c = Some cn \<and> \<not> cn_closed cn \<and> \<not> cn_fail cn (cn_writes cn))"
proof -
  obtain b where b: "NewBridge (bridge_config sample_args) = Some b" "\<not> b_running b"
    using NewBridge_inv[of "bridge_config sample_args"] by (auto simp: wp_opt_iff) (auto simp: NewBridge_def elim!: bind_SomeE)
  obtain b' where b': "Start sample_dial b = Some (None, b')" "b_running b'"
    "\<exists>c cn. b_client b' = Some c \<and> c_conn c = Some cn \<and> \<not> cn_closed cn \<and> \<not> cn_fail cn (cn_writes cn)"
    using sample_Start[OF b(2)] by blast
  show ?thesis
    using assms b(1) b' by (simp add: ensureIKVMBridge_def sample_kvm_fields Let_def mark_kvm_fields Running_def)
qed

text \<open>Two viewers on one console.\<close>

lemma sample_console:
  obtains s b c cn reg where "console_state sample_config s" "sv_Sessions s ''u1'' = Some 0"
    "sv_Bridges s ''u1'' = Some b" "b_client b = Some c" "c_conn c = Some cn" "\<not> cn_closed cn" "\<not> cn_fail cn (cn_writes cn)"
    "sv_ViewerRegistries s ''u1'' = Some reg" "viewers reg ''b'' \<noteq> None" "\<not> HasControl ''b'' reg" "Count reg = 2"
proof -
  have 0: "console_state sample_config sample_connected"
  proof (rule console_state.session[OF console_state.session[OF console_state.start]])
    show "server_next (OCreate (Some ''web1'') (sample_caller [''ops'']) [] 0 ''u1'') (newServerCore sample_config) = Some sample_started"
      by (simp add: sample_CreateSession)
    show "server_next (OTask sample_env 0) sample_started = Some sample_connected" by (simp add: sample_run_task)
  qed
  have "fewer_bridges (newServerCore sample_config) sample_connected"
    using CreateSession_fewer[OF sample_CreateSession] run_task_fewer[OF sample_run_task] fewer_trans by blast
  then have reg0: "sv_ViewerRegistries sample_connected = Map.empty"
    by (simp add: fewer_bridges_def newServerCore_def)
  define cl where "cl = sample_caller []"
  obtain n e ip where id: "resolveViewerIdentity cl = (n, e, ip)" by (cases "resolveViewerIdentity cl")
  define r1 where "r1 = Add 1 ''a'' n ip NewViewerRegistry"
  define t1 where "t1 = set_registry ''u1'' r1 (set_registry ''u1'' NewViewerRegistry sample_connected)"
  have t1: "sv_Bridges t1 = Map.empty" "sv_ViewerRegistries t1 = [''u1'' \<mapsto> r1]" "sv_Sessions t1 = [''u1'' \<mapsto> 0]"
    by (simp_all add: t1_def set_registry_def sample_connected_fields reg0)
  obtain b s1 where s1: "ensureIKVMBridge sample_dial sample_kvm t1 = Some (None, s1)" "sv_Bridges s1 ''u1'' = Some b" "Running b"
    "sv_ViewerRegistries s1 = [''u1'' \<mapsto> r1]" "sv_Sessions s1 = [''u1'' \<mapsto> 0]"
    and live: "\<exists>c cn. b_client b = Some c \<and> c_conn c = Some cn \<and> \<not> cn_closed cn \<and> \<not> cn_fail cn (cn_writes cn)"
    using sample_ensure[of t1] t1 by auto
  have p1: "proxyIKVM 1 ''a'' cl True sample_dial sample_kvm sample_connected = Some (True, s1)"
    using s1(1) reg0 unfolding t1_def r1_def
    by (simp add: proxyIKVM_def id ensureViewerRegistry_def sample_kvm_fields Let_def set_registry_def)
  have c1: "console_state sample_config s1"
    by (rule console_state.enter[OF 0 _ _ p1]) (simp_all add: reg0)
  define r2 where "r2 = Add 2 ''b'' n ip r1"
  have p2: "proxyIKVM 2 ''b'' cl True sample_dial sample_kvm s1 = Some (True, set_registry ''u1'' r2 s1)"
    using s1(2,3) s1(4)
    by (simp add: proxyIKVM_def id ensureViewerRegistry_def sample_kvm_fields Let_def ensureIKVMBridge_def r2_def set_registry_def)
  have c2: "console_state sample_config (set_registry ''u1'' r2 s1)"
    by (rule console_state.enter[OF c1 _ _ p2]) (simp_all add: s1(4) sample_kvm_fields r1_def Add_def NewViewerRegistry_def)
  have "viewers r2 ''b'' \<noteq> None" "\<not> HasControl ''b'' r2" "Count r2 = 2"
    by (simp_all add: r2_def r1_def Add_def NewViewerRegistry_def HasControl_def Count_def)
  then show ?thesis
    using live s1(2,5) by (auto simp: set_registry_def intro!: that[OF c2])
qed

theorem deletion_returns_witness:
  "\<exists>s resp s'. console_state sample_config s \<and> sv_Bridges s ''u1'' \<noteq> None
     \<and> DeleteSession (\<lambda>_. True) ''u1'' (sample_caller []) s = Some (resp, s')"
  by (rule sample_console, frule deletion_returns[THEN conjunct1]) fastforce


theorem control_is_local_witness:
  "control_step (sample_caller []) ''x'' sample_connected no_bridge sample_connected
     \<and> sv_Bridges sample_connected ''y'' = sv_Bridges sample_connected ''y''"
proof -
  have c: "control_step (sample_caller []) ''x'' sample_connected no_bridge sample_connected"
    by (rule control_step.reset) (simp add: KVMResetVideo_def getBridge_def sample_connected_fields)
  from control_is_local[OF this] c show ?thesis by blast
qed

theorem KVMPowerControl_sends_witness:
  "\<exists>s s'. KVMPowerControl (\<lambda>_. '''') (\<lambda>_. ('''', None)) (Some ''cycle'') (sample_caller []) ''u1'' s
     = Some (ApiMap [(''status'', ''ok''), (''action'', ''cycle'')], s')"
proof (rule sample_console)
  fix s :: Server and b c cn reg
  assume a: "sv_Bridges s ''u1'' = Some b" "b_client b = Some c" "c_conn c = Some cn" "\<not> cn_closed cn" "\<not> cn_fail cn (cn_writes cn)"
  have "power_code ''cycle'' = Some 2" by (simp add: power_code_def)
  from KVMPowerControl_sends[OF this a] show ?thesis by blast
qed

theorem controls_audited_witness:
  "\<exists>(s :: Server) s' e. KVMPowerControl (\<lambda>_. '''') (\<lambda>_. ('''', None)) (Some ''cycle'') (sample_caller []) ''u1'' s
     = Some (ApiMap [(''status'', ''ok''), (''action'', ''cycle'')], s') \<and> sv_audit s' = Some [e] \<and> ae_UserEmail e = ''''"
proof (rule sample_console)
  fix s :: Server and b c cn reg
  assume a: "sv_Bridges s ''u1'' = Some b" "b_client b = Some c" "c_conn c = Some cn" "\<not> cn_closed cn" "\<not> cn_fail cn (cn_writes cn)"
  let ?s = "s\<lparr>sv_audit := Some []\<rparr>"
  have p: "power_code ''cycle'' = Some 2" by (simp add: power_code_def)
  have b: "sv_Bridges ?s ''u1'' = Some b" using a(1) by simp
  obtain s' where s': "KVMPowerControl (\<lambda>_. '''') (\<lambda>_. ('''', None)) (Some ''cycle'') (sample_caller []) ''u1'' ?s
      = Some (ApiMap [(''status'', ''ok''), (''action'', ''cycle'')], s')"
    using KVMPowerControl_sends[OF p b a(2-5)] by blast
  have "audited '''' ''u1'' (ApiMap [(''status'', ''ok''), (''action'', ''cycle'')]) ?s s'"
    using controls_audited[THEN conjunct1] s' by blast
  then show ?thesis using s' by (auto simp: audited_def)
qed

theorem requester_accepts_itself_witness:
  "\<exists>s reg'. sv_ViewerRegistries (snd (handle_AcceptControlRequest (sample_caller []) ''u1''
       (snd (RequestViewerControl 9 ''b'' (sample_caller []) ''u1'' s)))) ''u1'' = Some reg' \<and> HasControl ''b'' reg'"
  by (rule sample_console, frule (4) requester_accepts_itself) blast

theorem ensureIKVMBridge_spec_witness:
  "\<exists>s' b. ensureIKVMBridge sample_dial sample_kvm sample_connected = Some (None, s') \<and> sv_Bridges s' ''u1'' = Some b \<and> Running b"
proof -
  obtain s' where s': "ensureIKVMBridge sample_dial sample_kvm sample_connected = Some (None, s')"
    using sample_ensure[of sample_connected] by (auto simp: sample_connected_fields)
  from ensureIKVMBridge_spec[OF this] s' show ?thesis by (auto simp: sample_kvm_fields)
qed

end
