(* ===== verification/Proxies.thy ===== *)
theory Proxies
  imports Controls
begin

text \<open>
  The console WebSocket of \<open>src/internal/api/websocket.go\<close>: \<open>HandleKVMWebSocket\<close> and the proxies that it
  chooses among, with the connections they share (\<open>ensureVNCBridge\<close>, \<open>ensureWSSProxy\<close>).

  A handler runs up to the loop that serves its viewer; the iterations of that loop, of the broadcast loops and
  the other handlers interleave, each a step. \<open>ensureVNCBridge\<close> and \<open>ensureWSSProxy\<close> look up under a lock that
  they give up before they dial, so each is a lookup and a creation, which may be apart. What the network
  decides comes with the request (\<open>ws_env\<close>).
\<close>

section \<open>Parameters of a request\<close>

text \<open>The time, the id of the viewer (of the query, or fresh), the outcome of the upgrade, the viewer's socket, the
  dialled connections with the sockets of the viewers to come, and the outcome of the liveness probe. The dialer
  for WebSockets is told whether to skip the verification of certificates, the target and the headers.\<close>

record ws_env =
  we_now :: int
  we_viewer :: string
  we_upgraded :: bool
  we_socket :: nat
  we_dial :: "string \<Rightarrow> Conn option"
  we_sockets :: "nat \<Rightarrow> WsConn"
  we_probe :: probe
  we_dial_wss :: "bool \<Rightarrow> string \<Rightarrow> (string \<times> string) list \<Rightarrow> WssConn option"
  we_wss_sockets :: "nat \<Rightarrow> WssConn"

text \<open>\<open>CheckOrigin\<close> of \<open>wsUpgrader\<close>\<close>

definition check_origin :: "string list \<Rightarrow> string \<Rightarrow> bool" where
  "check_origin origins origin = (list_ex (\<lambda>o'. o' = ''*'') origins \<or> list_ex (\<lambda>o'. o' = origin) origins)"

section \<open>Viewers\<close>

definition register_viewer :: "ws_env \<Rightarrow> caller \<Rightarrow> string \<Rightarrow> Server \<Rightarrow> Server" where
  "register_viewer env cl i s =
     (let (displayName, _, viewerIP) = resolveViewerIdentity cl;
          (registry, s) = ensureViewerRegistry i s
      in set_registry i (Add (we_now env) (we_viewer env) displayName viewerIP registry) s)"

text \<open>The answer of the function that gates a viewer's input.\<close>

definition viewer_allowed :: "string \<Rightarrow> string \<Rightarrow> Server \<Rightarrow> bool" where
  "viewer_allowed v i s = (case sv_ViewerRegistries s i of None \<Rightarrow> False | Some reg \<Rightarrow> HasControl v reg)"

section \<open>VNC\<close>

definition set_vnc :: "nat \<Rightarrow> VBridge \<Rightarrow> Server \<Rightarrow> Server" where
  "set_vnc r b s = s\<lparr>sv_vnc := (sv_vnc s)(r := b)\<rparr>"

definition vncBridgeRunning :: "string \<Rightarrow> Server \<Rightarrow> bool" where
  "vncBridgeRunning i s = (case sv_VNCBridges s i of None \<Rightarrow> False | Some r \<Rightarrow> vb_running (sv_vnc s r))"

definition vnc_lookup :: "string \<Rightarrow> Server \<Rightarrow> nat option" where
  "vnc_lookup i s = (if vncBridgeRunning i s then sv_VNCBridges s i else None)"

definition is_idrac8 :: "AppConfig \<Rightarrow> string \<Rightarrow> bool" where
  "is_idrac8 cfg name = list_ex (\<lambda>c. sc_Name c = name \<and> sc_BoardType c = ''dell_idrac8'') (ac_Servers cfg)"

definition vnc_create :: "ws_env \<Rightarrow> KVMSession \<Rightarrow> Server \<Rightarrow> ((vnc_error + nat) \<times> Server) option" where
  "vnc_create env k s = do {
     let q = is_idrac8 (sv_Config s) (ks_ServerName k);
     let b = (NewVNCBridge (ks_KVMTarget k) (ks_KVMPassword k) (we_sockets env))\<lparr>vb_FilterEncodings := q, vb_RewriteName := q\<rparr>;
     (e, b) \<leftarrow> vb_Start (we_dial env) b;
     case e of
       Some e \<Rightarrow> Some (Inl e, s)
     | None \<Rightarrow>
         (let r = sv_next_conn s
          in Some (Inr r, set_vnc r b (s\<lparr>sv_next_conn := r + 1, sv_VNCBridges := (sv_VNCBridges s)(ks_ID k \<mapsto> r)\<rparr>)))
   }"

definition ensureVNCBridge :: "ws_env \<Rightarrow> KVMSession \<Rightarrow> Server \<Rightarrow> ((vnc_error + nat) \<times> Server) option" where
  "ensureVNCBridge env k s =
     (case vnc_lookup (ks_ID k) s of Some r \<Rightarrow> Some (Inr r, s) | None \<Rightarrow> vnc_create env k s)"

text \<open>\<open>proxyVNC\<close> up to the loop that serves the viewer: the bridge, if that is entered.\<close>

definition proxyVNC :: "ws_env \<Rightarrow> caller \<Rightarrow> KVMSession \<Rightarrow> Server \<Rightarrow> (nat option \<times> Server) option" where
  "proxyVNC env cl k s = do {
     let s = register_viewer env cl (ks_ID k) s;
     let leave = close_viewer (we_viewer env) (ks_ID k);
     if \<not> we_upgraded env then Some (None, leave s)
     else do {
       (r, s) \<leftarrow> ensureVNCBridge env k s;
       case r of
         Inl e \<Rightarrow> Some (None, leave s)
       | Inr r \<Rightarrow> do {
           (e, b) \<leftarrow> vb_serve (we_probe env) (we_dial env) (we_socket env) (sv_vnc s r);
           let s = set_vnc r b s;
           Some (case e of Some e \<Rightarrow> (None, leave s) | None \<Rightarrow> (Some r, s))
         }
     }
   }"

text \<open>An iteration of the viewer's loop; when it ends, the deferred calls.\<close>

definition vnc_viewer_input :: "nat \<Rightarrow> nat \<Rightarrow> string \<Rightarrow> string \<Rightarrow> Server \<Rightarrow> Server option" where
  "vnc_viewer_input r j v i s = do {
     (e, b) \<leftarrow> client_input (viewer_allowed v i s) j (sv_vnc s r);
     Some (case e of
        None \<Rightarrow> set_vnc r b s
      | Some e \<Rightarrow> close_viewer v i (set_vnc r (b\<lparr>vb_ws := (vb_ws b)(j := ws_close (vb_ws b j))\<rparr>) s))
   }"

definition vnc_broadcast :: "nat \<Rightarrow> nat \<Rightarrow> Server \<Rightarrow> Server option" where
  "vnc_broadcast n r s = map_option (\<lambda>b. set_vnc r b s) (broadcast_round n (sv_vnc s r))"

section \<open>WebSocket\<close>

definition set_wss :: "nat \<Rightarrow> wssProxy \<Rightarrow> Server \<Rightarrow> Server" where
  "set_wss r p s = s\<lparr>sv_wss := (sv_wss s)(r := p)\<rparr>"

text \<open>The lookup also forgets a proxy whose backend is gone.\<close>

definition wss_lookup :: "string \<Rightarrow> Server \<Rightarrow> nat option \<times> Server" where
  "wss_lookup i s =
     (case sv_WSSProxies s i of
        None \<Rightarrow> (None, s)
      | Some r \<Rightarrow>
          if wp_done (sv_wss s r) then (None, s\<lparr>sv_WSSProxies := (sv_WSSProxies s)(i := None)\<rparr>) else (Some r, s))"

text \<open>\<open>http.Cookie\<close> as the value of a header: invalid bytes are dropped, a blank or a comma needs quotes.\<close>

definition cookie_value :: "string \<Rightarrow> string" where
  "cookie_value v =
     (let ok = (\<lambda>c. let n = of_char c :: nat in 32 \<le> n \<and> n < 127 \<and> n \<notin> {34, 59, 92}); w = filter ok v
      in if CHR '' '' \<in> set w \<or> CHR '','' \<in> set w then [CHR 0x22] @ w @ [CHR 0x22] else w)"

definition wss_headers :: "BMCCredEntry option \<Rightarrow> (string \<times> string) list" where
  "wss_headers ce =
     (case ce of
        None \<Rightarrow> []
      | Some e \<Rightarrow>
          (if bc_SessionCookie (ce_Creds e) \<noteq> ''''
           then [(''Cookie'', ''-http-session-='' @ cookie_value (bc_SessionCookie (ce_Creds e)))] else [])
          @ (if bc_CSRFToken (ce_Creds e) \<noteq> '''' then [(''XSRF-TOKEN'', bc_CSRFToken (ce_Creds e))] else []))"

definition SkipVerify :: "ServerConfig \<Rightarrow> bool" where
  "SkipVerify cfg = (case sc_TLSSkipVerify cfg of None \<Rightarrow> True | Some v \<Rightarrow> v)"

definition wss_create :: "ws_env \<Rightarrow> KVMSession \<Rightarrow> Server \<Rightarrow> nat option \<times> Server" where
  "wss_create env k s =
     (let headers = wss_headers (sv_BMCCreds s (ks_ID k));
          skip = (case find_server (sv_Config s) (ks_ServerName k) of None \<Rightarrow> True | Some c \<Rightarrow> SkipVerify c)
      in case we_dial_wss env skip (ks_KVMTarget k) headers of
           None \<Rightarrow> (None, s)
         | Some be \<Rightarrow>
             (let r = sv_next_conn s
              in (Some r, set_wss r (new_proxy be (we_wss_sockets env))
                   (s\<lparr>sv_next_conn := r + 1, sv_WSSProxies := (sv_WSSProxies s)(ks_ID k \<mapsto> r)\<rparr>))))"

definition ensureWSSProxy :: "ws_env \<Rightarrow> KVMSession \<Rightarrow> Server \<Rightarrow> nat option \<times> Server" where
  "ensureWSSProxy env k s =
     (case wss_lookup (ks_ID k) s of (Some r, s) \<Rightarrow> (Some r, s) | (None, s) \<Rightarrow> wss_create env k s)"

definition proxyWSS :: "ws_env \<Rightarrow> caller \<Rightarrow> KVMSession \<Rightarrow> Server \<Rightarrow> nat option \<times> Server" where
  "proxyWSS env cl k s =
     (let s = register_viewer env cl (ks_ID k) s; leave = close_viewer (we_viewer env) (ks_ID k)
      in if \<not> we_upgraded env then (None, leave s)
         else case ensureWSSProxy env k s of
                (None, s) \<Rightarrow> (None, leave s)
              | (Some r, s) \<Rightarrow> (Some r, set_wss r (join_proxy (we_socket env) (sv_wss s r)) s))"

text \<open>The end of a viewer: its proxy forgets it, and if that was the last one, the proxy of the session is stopped.\<close>

definition wss_leave :: "nat \<Rightarrow> nat \<Rightarrow> string \<Rightarrow> string \<Rightarrow> Server \<Rightarrow> Server" where
  "wss_leave r j v i s =
     (let s = set_wss r (leave_proxy j (sv_wss s r)) s;
          s = (if length (wp_clients (sv_wss s r)) = 0 then StopWSSProxy i s else s);
          p = sv_wss s r
      in close_viewer v i (set_wss r (p\<lparr>wp_ws := (wp_ws p)(j := wss_close (wp_ws p j))\<rparr>) s))"

definition wss_viewer_input :: "nat \<Rightarrow> nat \<Rightarrow> string \<Rightarrow> string \<Rightarrow> Server \<Rightarrow> Server" where
  "wss_viewer_input r j v i s =
     (case wss_client_input (viewer_allowed v i s) j (sv_wss s r) of
        (goes_on, p) \<Rightarrow> (let s = set_wss r p s in if goes_on then s else wss_leave r j v i s))"

definition wss_broadcast :: "nat \<Rightarrow> Server \<Rightarrow> Server option" where
  "wss_broadcast r s =
     (if wp_done (sv_wss s r) then Some s else map_option (\<lambda>p. set_wss r p s) (wssBroadcastLoop (sv_wss s r)))"

section \<open>The handler\<close>

datatype console = VNCConsole nat | WSSConsole nat | IKVMConsole

text \<open>What a request comes to: an HTTP error, the end of the proxy, or a viewer that is being served.\<close>

datatype ws_result = WsHttp nat string | WsEnded | WsServing console

definition ws_disconnect :: "caller \<Rightarrow> string \<Rightarrow> string \<Rightarrow> Server \<Rightarrow> Server" where
  "ws_disconnect cl name i s = logAudit ''kvm_disconnect'' (email_of cl) name i (cl_ip cl) s"

definition HandleKVMWebSocket :: "ws_env \<Rightarrow> caller \<Rightarrow> string \<Rightarrow> Server \<Rightarrow> (ws_result \<times> Server) option" where
  "HandleKVMWebSocket env cl i s =
     (case store_Get (sv_Sessions s) i of
        None \<Rightarrow> Some (WsHttp 404 ''session not found'', s)
      | Some r \<Rightarrow>
          if ks_Status (sv_heap s r) \<noteq> SessionConnected then Some (WsHttp 502 ''session not connected'', s)
          else do {
            let s = update_session r (\<lambda>k. k\<lparr>ks_LastActivity := we_now env\<rparr>) s;
            let k = sv_heap s r;
            let s = logAudit ''kvm_connect'' (email_of cl) (ks_ServerName k) i (cl_ip cl) s;
            (res, s) \<leftarrow>
              (if ks_ConnMode k = Some KVMModeVNC then do {
                 (c, s) \<leftarrow> proxyVNC env cl k s;
                 Some (case c of None \<Rightarrow> WsEnded | Some r \<Rightarrow> WsServing (VNCConsole r), s)
               }
               else if ks_ConnMode k = Some KVMModeWebSocket then do {
                 let (c, s) = proxyWSS env cl k s;
                 Some (case c of None \<Rightarrow> WsEnded | Some r \<Rightarrow> WsServing (WSSConsole r), s)
               }
               else if ks_ConnMode k = Some KVMModeIKVM then do {
                 (entered, s) \<leftarrow> proxyIKVM (we_now env) (we_viewer env) cl (we_upgraded env) (we_dial env) k s;
                 Some (if entered then WsServing IKVMConsole else WsEnded, s)
               }
               else Some (WsHttp 400 ''unsupported KVM mode'', s));
            Some (case res of
               WsServing c \<Rightarrow> (res, s)
             | _ \<Rightarrow> (res, ws_disconnect cl (ks_ServerName (sv_heap s r)) i s))
          })"

section \<open>What a viewer changes\<close>

lemma register_viewer_eq:
  "\<exists>g. register_viewer env cl i s = s\<lparr>sv_ViewerRegistries := g\<rparr>
     \<and> g i = Some (Add (we_now env) (we_viewer env) (fst (resolveViewerIdentity cl)) (snd (snd (resolveViewerIdentity cl)))
             (case sv_ViewerRegistries s i of None \<Rightarrow> NewViewerRegistry | Some reg \<Rightarrow> reg))
     \<and> (\<forall>j. j \<noteq> i \<longrightarrow> g j = sv_ViewerRegistries s j)"
  by (auto simp: register_viewer_def ensureViewerRegistry_def set_registry_def Let_def case_prod_unfold split: option.split)

lemma close_viewer_eq: "\<exists>g. close_viewer v i s = s\<lparr>sv_ViewerRegistries := g\<rparr>"
proof (cases "sv_ViewerRegistries s i")
  case None
  then show ?thesis by (intro exI[of _ "sv_ViewerRegistries s"]) (simp add: close_viewer_def)
qed (auto simp: close_viewer_def set_registry_def)

text \<open>The consoles of a server whose registries and audit log are replaced are those of the server.\<close>

definition put_log :: "(string \<rightharpoonup> ViewerRegistry) \<Rightarrow> AuditEntry list option \<Rightarrow> Server \<Rightarrow> Server" where
  "put_log g a s = s\<lparr>sv_ViewerRegistries := g, sv_audit := a\<rparr>"

lemma put_log_simps [simp]:
  "sv_VNCBridges (put_log g a s) = sv_VNCBridges s" "sv_vnc (put_log g a s) = sv_vnc s" "sv_Config (put_log g a s) = sv_Config s"
  "sv_next_conn (put_log g a s) = sv_next_conn s" "sv_WSSProxies (put_log g a s) = sv_WSSProxies s"
  "sv_wss (put_log g a s) = sv_wss s" "sv_BMCCreds (put_log g a s) = sv_BMCCreds s" "sv_heap (put_log g a s) = sv_heap s"
  "sv_Bridges (put_log g a s) = sv_Bridges s" "sv_proxies (put_log g a s) = sv_proxies s"
  "put_log g a (put_log h b s) = put_log g a s" "sv_Sessions (put_log g a s) = sv_Sessions s"
  "sv_ViewerRegistries (put_log g a s) = g" "sv_audit (put_log g a s) = a"
  by (simp_all add: put_log_def)

lemma ensureVNCBridge_put:
  "ensureVNCBridge env k (put_log g a s) = map_option (\<lambda>(r, t). (r, put_log g a t)) (ensureVNCBridge env k s)"
  by (auto simp: ensureVNCBridge_def vnc_lookup_def vncBridgeRunning_def vnc_create_def set_vnc_def Let_def
      split: option.split Option.bind_split sum.split) (auto simp: put_log_def)

lemma set_put:
  "set_vnc r b (put_log g a s) = put_log g a (set_vnc r b s)" "set_wss r p (put_log g a s) = put_log g a (set_wss r p s)"
  "(put_log g a s)\<lparr>sv_Bridges := bs\<rparr> = put_log g a (s\<lparr>sv_Bridges := bs\<rparr>)"
  "(put_log g a s)\<lparr>sv_WSSProxies := ps\<rparr> = put_log g a (s\<lparr>sv_WSSProxies := ps\<rparr>)"
  "(put_log g a s)\<lparr>sv_next_conn := n, sv_WSSProxies := ps\<rparr> = put_log g a (s\<lparr>sv_next_conn := n, sv_WSSProxies := ps\<rparr>)"
  "set_registry i reg (put_log g a s) = put_log (g(i \<mapsto> reg)) a s"
  by (simp_all add: set_vnc_def set_wss_def put_log_def set_registry_def)

lemma ensureWSSProxy_put:
  "ensureWSSProxy env k (put_log g a s) = (case ensureWSSProxy env k s of (r, t) \<Rightarrow> (r, put_log g a t))"
  by (auto simp: ensureWSSProxy_def wss_lookup_def wss_create_def Let_def set_put split: option.split)

lemma mark_kvm_put: "mark_kvm v n (put_log g a s) = put_log g a (mark_kvm v n s)"
  by (auto simp: mark_kvm_def set_proxy_def getOrCreateProxy_def Let_def split: option.split) (simp_all add: put_log_def)

lemma ensureIKVMBridge_put:
  "ensureIKVMBridge dial k (put_log g a s) = map_option (\<lambda>(r, t). (r, put_log g a t)) (ensureIKVMBridge dial k s)"
  by (auto simp: ensureIKVMBridge_def mark_kvm_put set_put Let_def split: option.split Option.bind_split)

text \<open>Whether a proxy serves a viewer, and with what effect on the connections, does not depend on who asks.\<close>

lemma put_log_registries: "(put_log h a s)\<lparr>sv_ViewerRegistries := g\<rparr> = put_log g a s"
  by (cases s) (simp add: put_log_def)

lemma register_viewer_put: "\<exists>g. register_viewer env cl i (put_log h a s) = put_log g a s \<and> g i \<noteq> None"
  using register_viewer_eq[of env cl i "put_log h a s"] by (auto simp: put_log_registries)

lemma close_viewer_put: "\<exists>g. close_viewer v i (put_log h a s) = put_log g a s"
  using close_viewer_eq[of v i "put_log h a s"] by (auto simp: put_log_registries)

lemma proxyVNC_put:
  assumes "proxyVNC env cl k (put_log h a s) = Some (Some r, s')"
  shows "\<exists>g t. s' = put_log g a t \<and> (\<forall>cl' h' a'. \<exists>g'. proxyVNC env cl' k (put_log h' a' s) = Some (Some r, put_log g' a' t))"
proof -
  obtain g where g: "register_viewer env cl (ks_ID k) (put_log h a s) = put_log g a s" using register_viewer_put by blast
  have up: "we_upgraded env" using assms by (auto simp: proxyVNC_def Let_def split: if_split_asm)
  obtain t where t: "ensureVNCBridge env k s = Some (Inr r, t)"
    and b: "\<exists>b. vb_serve (we_probe env) (we_dial env) (we_socket env) (sv_vnc t r) = Some (None, b) \<and> s' = put_log g a (set_vnc r b t)"
    using assms up
    by (auto simp: proxyVNC_def Let_def g ensureVNCBridge_put set_put elim!: bind_SomeE split: sum.split_asm option.split_asm)
  then obtain b where b: "vb_serve (we_probe env) (we_dial env) (we_socket env) (sv_vnc t r) = Some (None, b)"
    "s' = put_log g a (set_vnc r b t)" by blast
  have "\<exists>g'. proxyVNC env cl' k (put_log h' a' s) = Some (Some r, put_log g' a' (set_vnc r b t))" for cl' h' a'
  proof -
    obtain g' where "register_viewer env cl' (ks_ID k) (put_log h' a' s) = put_log g' a' s" using register_viewer_put by blast
    then show ?thesis using up t b(1) by (auto simp: proxyVNC_def Let_def ensureVNCBridge_put set_put)
  qed
  then show ?thesis using b(2) by blast
qed

lemma proxyWSS_put:
  assumes "proxyWSS env cl k (put_log h a s) = (Some r, s')"
  shows "\<exists>g t. s' = put_log g a t \<and> (\<forall>cl' h' a'. \<exists>g'. proxyWSS env cl' k (put_log h' a' s) = (Some r, put_log g' a' t))"
proof -
  obtain g where g: "register_viewer env cl (ks_ID k) (put_log h a s) = put_log g a s" using register_viewer_put by blast
  have up: "we_upgraded env" using assms by (auto simp: proxyWSS_def Let_def split: if_split_asm)
  obtain t where t: "ensureWSSProxy env k s = (Some r, t)" "s' = put_log g a (set_wss r (join_proxy (we_socket env) (sv_wss t r)) t)"
    using assms up
    by (auto simp: proxyWSS_def Let_def g ensureWSSProxy_put set_put split: option.split_asm prod.split_asm)
  have "\<exists>g'. proxyWSS env cl' k (put_log h' a' s)
      = (Some r, put_log g' a' (set_wss r (join_proxy (we_socket env) (sv_wss t r)) t))" for cl' h' a'
  proof -
    obtain g' where "register_viewer env cl' (ks_ID k) (put_log h' a' s) = put_log g' a' s" using register_viewer_put by blast
    then show ?thesis using up t(1) by (auto simp: proxyWSS_def Let_def ensureWSSProxy_put set_put)
  qed
  then show ?thesis using t(2) by blast
qed

lemma proxyIKVM_register:
  "proxyIKVM now v cl upgraded dial k s =
     (if \<not> upgraded then Some (False, s)
      else do {
        let env = \<lparr>we_now = now, we_viewer = v, we_upgraded = True, we_socket = 0, we_dial = dial, we_sockets = undefined,
          we_probe = ProbeByte, we_dial_wss = undefined, we_wss_sockets = undefined\<rparr>;
        (e, s) \<leftarrow> ensureIKVMBridge dial k (register_viewer env cl (ks_ID k) s);
        Some (case e of Some e \<Rightarrow> (False, close_viewer v (ks_ID k) s) | None \<Rightarrow> (True, s))
      })"
  by (simp add: proxyIKVM_def register_viewer_def Let_def case_prod_unfold)

lemma proxyIKVM_put:
  assumes "proxyIKVM now v cl up dial k (put_log h a s) = Some (True, s')"
  shows "\<exists>g t. s' = put_log g a t
     \<and> (\<forall>cl' h' a'. \<exists>g'. proxyIKVM now v cl' up dial k (put_log h' a' s) = Some (True, put_log g' a' t))"
proof -
  define env where "env = \<lparr>we_now = now, we_viewer = v, we_upgraded = True, we_socket = 0, we_dial = dial, we_sockets = undefined,
          we_probe = ProbeByte, we_dial_wss = undefined, we_wss_sockets = undefined\<rparr>"
  note reg = proxyIKVM_register[of now v _ up dial k, folded env_def]
  obtain g where g: "register_viewer env cl (ks_ID k) (put_log h a s) = put_log g a s" using register_viewer_put by blast
  have up: "up" using assms by (auto simp: reg split: if_split_asm)
  obtain t where t: "ensureIKVMBridge dial k s = Some (None, t)" "s' = put_log g a t"
    using assms up unfolding reg by (auto simp: Let_def g ensureIKVMBridge_put elim!: bind_SomeE split: option.split_asm)
  have "\<exists>g'. proxyIKVM now v cl' up dial k (put_log h' a' s) = Some (True, put_log g' a' t)" for cl' h' a'
  proof -
    obtain g' where "register_viewer env cl' (ks_ID k) (put_log h' a' s) = put_log g' a' s" using register_viewer_put by blast
    then show ?thesis using up t(1) unfolding reg by (auto simp: Let_def ensureIKVMBridge_put)
  qed
  then show ?thesis using t(2) by blast
qed

section \<open>The handler\<close>

lemma logAudit_put:
  "logAudit ev u n i ip s = put_log (sv_ViewerRegistries s) (sv_audit (logAudit ev u n i ip s)) s"
  by (simp add: logAudit_def put_log_def)

text \<open>A console is opened for whoever asks: when a request gets a console, the same request of any other caller,
  whatever its roles, gets it too, with the same connection to the BMC. The check of roles at the creation of a
  session is not repeated.\<close>

theorem console_ignores_roles:
  assumes "HandleKVMWebSocket env cl i s = Some (WsServing c, s')"
  shows "\<exists>s2. HandleKVMWebSocket env cl' i s = Some (WsServing c, s2) \<and> sv_vnc s2 = sv_vnc s' \<and> sv_wss s2 = sv_wss s'
     \<and> sv_Bridges s2 = sv_Bridges s'"
proof -
  obtain r where r: "store_Get (sv_Sessions s) i = Some r" "ks_Status (sv_heap s r) = SessionConnected"
    using assms by (auto simp: HandleKVMWebSocket_def split: option.split_asm if_split_asm)
  define u where "u = update_session r (\<lambda>k. k\<lparr>ks_LastActivity := we_now env\<rparr>) s"
  define k where "k = sv_heap u r"
  define lg where "lg cl = logAudit ''kvm_connect'' (email_of cl) (ks_ServerName k) i (cl_ip cl) u" for cl
  have lg: "lg cl = put_log (sv_ViewerRegistries u) (sv_audit (lg cl)) u" for cl
    unfolding lg_def by (rule logAudit_put)
  note unf = HandleKVMWebSocket_def r(1) option.case r(2) simp_thms(6) if_False Let_def u_def[symmetric] k_def[symmetric]
    lg_def[symmetric]
  show ?thesis
  proof (cases "ks_ConnMode k")
    case None
    then show ?thesis using assms unfolding unf by (auto split: ws_result.split_asm)
  next
    case (Some m)
    show ?thesis
    proof (cases m)
      case KVMModeVNC
      obtain q where q: "proxyVNC env cl k (lg cl) = Some (Some q, s')" "c = VNCConsole q"
        using assms Some KVMModeVNC unfolding unf by (auto elim!: bind_SomeE split: ws_result.split_asm option.split_asm)
      obtain g t where t: "s' = put_log g (sv_audit (lg cl)) t"
        "\<forall>cl' h' a'. \<exists>g'. proxyVNC env cl' k (put_log h' a' u) = Some (Some q, put_log g' a' t)"
        using proxyVNC_put[OF trans[OF arg_cong[where f = "proxyVNC env cl k", OF lg[of cl, symmetric]] q(1)]] by (metis put_log_simps(14))
      obtain g' where "proxyVNC env cl' k (lg cl') = Some (Some q, put_log g' (sv_audit (lg cl')) t)"
        using t(2) lg[of cl'] by metis
      then show ?thesis using Some KVMModeVNC q(2) t(1) unfolding unf by simp
    next
      case KVMModeWebSocket
      obtain q where q: "proxyWSS env cl k (lg cl) = (Some q, s')" "c = WSSConsole q"
        using assms Some KVMModeWebSocket unfolding unf
        by (auto elim!: bind_SomeE split: ws_result.split_asm option.split_asm prod.split_asm)
      obtain g t where t: "s' = put_log g (sv_audit (lg cl)) t"
        "\<forall>cl' h' a'. \<exists>g'. proxyWSS env cl' k (put_log h' a' u) = (Some q, put_log g' a' t)"
        using proxyWSS_put[OF trans[OF arg_cong[where f = "proxyWSS env cl k", OF lg[of cl, symmetric]] q(1)]] by (metis put_log_simps(14))
      obtain g' where "proxyWSS env cl' k (lg cl') = (Some q, put_log g' (sv_audit (lg cl')) t)"
        using t(2) lg[of cl'] by metis
      then show ?thesis using Some KVMModeWebSocket q(2) t(1) unfolding unf by simp
    next
      case KVMModeIKVM
      let ?P = "\<lambda>cl. proxyIKVM (we_now env) (we_viewer env) cl (we_upgraded env) (we_dial env) k"
      have q: "?P cl (lg cl) = Some (True, s')" "c = IKVMConsole"
        using assms Some KVMModeIKVM unfolding unf
        by (auto elim!: bind_SomeE split: ws_result.split_asm if_split_asm)
      obtain g t where t: "s' = put_log g (sv_audit (lg cl)) t"
        "\<forall>cl' h' a'. \<exists>g'. ?P cl' (put_log h' a' u) = Some (True, put_log g' a' t)"
        using proxyIKVM_put[OF trans[OF arg_cong[where f = "?P cl", OF lg[of cl, symmetric]] q(1)]] by (metis put_log_simps(14))
      obtain g' where "?P cl' (lg cl') = Some (True, put_log g' (sv_audit (lg cl')) t)"
        using t(2) lg[of cl'] by metis
      then show ?thesis using Some KVMModeIKVM q(2) t(1) unfolding unf by simp
    qed
  qed
qed

text \<open>What the proxies leave alone.\<close>

definition same_log :: "Server \<Rightarrow> Server \<Rightarrow> bool" where
  "same_log s s' \<longleftrightarrow> sv_audit s' = sv_audit s \<and> sv_heap s' = sv_heap s \<and> sv_Sessions s' = sv_Sessions s"

lemma same_log_simps [simp]:
  "same_log s s" "same_log s (set_vnc r b t) = same_log s t" "same_log s (set_wss r p t) = same_log s t"
  "same_log s (put_log g (sv_audit s) s)" "same_log s (t\<lparr>sv_VNCBridges := x\<rparr>) = same_log s t"
  "same_log s (t\<lparr>sv_WSSProxies := y\<rparr>) = same_log s t" "same_log s (t\<lparr>sv_next_conn := n\<rparr>) = same_log s t"
  "same_log s (t\<lparr>sv_Bridges := z\<rparr>) = same_log s t" "same_log s (t\<lparr>sv_ViewerRegistries := g'\<rparr>) = same_log s t"
  "same_log s (mark_kvm v m t) = same_log s t" "same_log s (set_registry i reg t) = same_log s t"
  "same_log s (close_viewer w i t) = same_log s t"
  by (auto simp: same_log_def set_vnc_def set_wss_def put_log_def mark_kvm_def set_proxy_def getOrCreateProxy_def Let_def
      set_registry_def close_viewer_def split: option.split)

lemma same_log_register [simp]: "same_log s (register_viewer env cl i t) = same_log s t"
  using register_viewer_eq[of env cl i t] by auto

lemma same_log_register' [simp]: "same_log (register_viewer env cl i t) s = same_log t s"
  using register_viewer_eq[of env cl i t] by (auto simp: same_log_def)

lemma same_log_trans: "\<lbrakk>same_log s t; same_log t u\<rbrakk> \<Longrightarrow> same_log s u"
  by (simp add: same_log_def)

lemma proxyVNC_log: "proxyVNC env cl k s = Some (c, s') \<Longrightarrow> same_log s s'"
proof -
  have v: "vnc_create env k s = Some (x, s') \<Longrightarrow> same_log s s'" for s x s'
    by (auto simp: vnc_create_def Let_def elim!: bind_SomeE split: option.split_asm)
  have e: "ensureVNCBridge env k s = Some (x, s') \<Longrightarrow> same_log s s'" for s x s'
    by (auto simp: ensureVNCBridge_def dest: v split: option.split_asm)
  assume "proxyVNC env cl k s = Some (c, s')"
  then show ?thesis
    by (auto simp: proxyVNC_def Let_def elim!: bind_SomeE split: if_split_asm sum.split_asm option.split_asm
        dest!: e)
qed

lemma proxyWSS_log: "proxyWSS env cl k s = (c, s') \<Longrightarrow> same_log s s'"
proof -
  have e: "ensureWSSProxy env k s = (x, s') \<Longrightarrow> same_log s s'" for s x s'
    by (auto simp: ensureWSSProxy_def wss_lookup_def wss_create_def Let_def split: option.split_asm if_split_asm)
  assume "proxyWSS env cl k s = (c, s')"
  then show ?thesis
    by (auto simp: proxyWSS_def Let_def split: if_split_asm option.split_asm prod.split_asm
        dest!: e)
qed

lemma proxyIKVM_log: "proxyIKVM now v cl up dial k s = Some (c, s') \<Longrightarrow> same_log s s'"
proof -
  have e: "ensureIKVMBridge dial k s = Some (x, s') \<Longrightarrow> same_log s s'" for s x s'
    by (auto simp: ensureIKVMBridge_def Let_def elim!: bind_SomeE split: option.split_asm if_split_asm)
  assume "proxyIKVM now v cl up dial k s = Some (c, s')"
  then show ?thesis
    unfolding proxyIKVM_register Let_def
    by (auto elim!: bind_SomeE split: if_split_asm option.split_asm
        dest!: e)
qed

definition ws_entry :: "string \<Rightarrow> caller \<Rightarrow> string \<Rightarrow> string \<Rightarrow> AuditEntry" where
  "ws_entry ev cl name i = \<lparr>ae_EventType = ev, ae_UserEmail = email_of cl, ae_ServerName = name, ae_SessionID = i,
     ae_RemoteAddr = cl_ip cl\<rparr>"

text \<open>The console handler: a session that does not exist or is not connected is refused without any effect; else
  the session counts as active from now on, the audit log gets the connection, and unless a viewer is now being
  served, also its end.\<close>

theorem kvm_ws_audited:
  assumes "HandleKVMWebSocket env cl i s = Some (res, s')"
  shows "case sv_Sessions s i of
       None \<Rightarrow> res = WsHttp 404 ''session not found'' \<and> s' = s
     | Some r \<Rightarrow>
         if ks_Status (sv_heap s r) \<noteq> SessionConnected then res = WsHttp 502 ''session not connected'' \<and> s' = s
         else sv_heap s' r = (sv_heap s r)\<lparr>ks_LastActivity := we_now env\<rparr>
           \<and> sv_audit s' = map_option (\<lambda>es. es @ [ws_entry ''kvm_connect'' cl (ks_ServerName (sv_heap s r)) i]
                @ (case res of WsServing c \<Rightarrow> [] | _ \<Rightarrow> [ws_entry ''kvm_disconnect'' cl (ks_ServerName (sv_heap s r)) i]))
               (sv_audit s)"
proof (cases "sv_Sessions s i")
  case None
  then show ?thesis using assms by (simp add: HandleKVMWebSocket_def store_Get_def)
next
  case (Some r)
  show ?thesis
  proof (cases "ks_Status (sv_heap s r) = SessionConnected")
    case False
    then show ?thesis using assms Some by (simp add: HandleKVMWebSocket_def store_Get_def)
  next
    case True
    define u where "u = update_session r (\<lambda>k. k\<lparr>ks_LastActivity := we_now env\<rparr>) s"
    define k where "k = sv_heap u r"
    define v where "v = logAudit ''kvm_connect'' (email_of cl) (ks_ServerName k) i (cl_ip cl) u"
    have k: "k = (sv_heap s r)\<lparr>ks_LastActivity := we_now env\<rparr>" "sv_audit u = sv_audit s"
      by (simp_all add: k_def u_def update_session_def set_session_def write_session_def)
    have v: "sv_heap v r = k" "sv_audit v = map_option (\<lambda>es. es @ [ws_entry ''kvm_connect'' cl (ks_ServerName k) i]) (sv_audit s)"
      by (simp_all add: v_def logAudit_def ws_entry_def k_def[symmetric] k(2))
    have g: "store_Get (sv_Sessions s) i = Some r" using Some by (simp add: store_Get_def)
    obtain t where t: "same_log v t"
      "s' = (case res of WsServing c \<Rightarrow> t | _ \<Rightarrow> ws_disconnect cl (ks_ServerName (sv_heap t r)) i t)"
      using assms that[of v] unfolding HandleKVMWebSocket_def g option.case True simp_thms(6) if_False Let_def
        u_def[symmetric] k_def[symmetric] v_def[symmetric]
      by (auto elim!: bind_SomeE dest!: proxyVNC_log proxyWSS_log proxyIKVM_log
          split: if_split_asm option.split_asm prod.split_asm)
    have "sv_heap t r = k" "sv_audit t = map_option (\<lambda>es. es @ [ws_entry ''kvm_connect'' cl (ks_ServerName k) i]) (sv_audit s)"
      using t(1) v by (simp_all add: same_log_def)
    then have "sv_heap s' r = k \<and> sv_audit s' = map_option (\<lambda>es. es @ [ws_entry ''kvm_connect'' cl (ks_ServerName k) i]
                @ (case res of WsServing c \<Rightarrow> [] | _ \<Rightarrow> [ws_entry ''kvm_disconnect'' cl (ks_ServerName k) i]))
               (sv_audit s)"
      unfolding t(2) by (cases res; cases "sv_audit s") (simp_all add: ws_disconnect_def logAudit_def ws_entry_def)
    moreover have nm: "ks_ServerName k = ks_ServerName (sv_heap s r)" by (simp add: k(1))
    ultimately show ?thesis using Some True k(1) unfolding nm by simp
  qed
qed

section \<open>Shared VNC connections\<close>

text \<open>The viewers of a session share one connection: the bridge that a viewer gets is the one kept for the
  session, it is running, and a running bridge is used as it is, without dialling; a new one has the
  encoding filter and the name rewriting exactly when the session's server is an iDRAC8.\<close>

theorem ensureVNCBridge_shares:
  assumes "ensureVNCBridge env k s = Some (Inr r, s')"
  shows "sv_VNCBridges s' (ks_ID k) = Some r \<and> vb_running (sv_vnc s' r)
     \<and> (vncBridgeRunning (ks_ID k) s \<longrightarrow> s' = s)
     \<and> (\<not> vncBridgeRunning (ks_ID k) s \<longrightarrow>
          vb_FilterEncodings (sv_vnc s' r) = is_idrac8 (sv_Config s) (ks_ServerName k)
          \<and> vb_RewriteName (sv_vnc s' r) = is_idrac8 (sv_Config s) (ks_ServerName k)
          \<and> vb_target (sv_vnc s' r) = ks_KVMTarget k)"
proof -
  have st: "vb_running b' \<and> vb_FilterEncodings b' = vb_FilterEncodings b \<and> vb_RewriteName b' = vb_RewriteName b
      \<and> vb_target b' = vb_target b" if "vb_Start d b = Some (None, b')" for d b b'
    using that by (auto simp: vb_Start_def elim!: bind_SomeE split: if_split_asm option.split_asm sum.split_asm)
  show ?thesis
  proof (cases "vnc_lookup (ks_ID k) s")
    case None
    then have "\<not> vncBridgeRunning (ks_ID k) s"
      by (auto simp: vnc_lookup_def vncBridgeRunning_def split: option.split_asm if_split_asm)
    then show ?thesis using assms None
      by (auto simp: ensureVNCBridge_def vnc_create_def Let_def set_vnc_def NewVNCBridge_def elim!: bind_SomeE dest!: st
          split: option.split_asm)
  next
    case (Some q)
    then show ?thesis using assms
      by (auto simp: ensureVNCBridge_def vnc_lookup_def vncBridgeRunning_def split: if_split_asm option.split_asm)
  qed
qed

text \<open>The connections that the server keeps are below \<open>sv_next_conn\<close>.\<close>

definition conn_refs :: "Server \<Rightarrow> bool" where
  "conn_refs s \<longleftrightarrow> (\<forall>i r. sv_VNCBridges s i = Some r \<or> sv_WSSProxies s i = Some r \<longrightarrow> r < sv_next_conn s)"

lemma conn_refs_new: "conn_refs (newServerCore cfg)"
  by (simp add: conn_refs_def newServerCore_def)

lemma conn_refs_set [simp]: "conn_refs (set_vnc r b s) = conn_refs s" "conn_refs (set_wss r p s) = conn_refs s"
  by (simp_all add: conn_refs_def set_vnc_def set_wss_def)

lemma conn_refs_vnc: "\<lbrakk>vnc_create env k s = Some (x, s'); conn_refs s\<rbrakk> \<Longrightarrow> conn_refs s'"
  unfolding vnc_create_def Let_def
  by (auto elim!: bind_SomeE split: option.split_asm) (auto simp: conn_refs_def less_Suc_eq split: if_split_asm)

lemma conn_refs_wss:
  "conn_refs s \<Longrightarrow> conn_refs (snd (wss_create env k s))" "conn_refs s \<Longrightarrow> conn_refs (snd (wss_lookup i s))"
  by (auto simp: wss_create_def wss_lookup_def Let_def split: option.split)
     (auto simp: conn_refs_def less_Suc_eq split: if_split_asm)

lemma conn_refs_stop:
  "conn_refs s \<Longrightarrow> conn_refs (StopVNCBridge i s)" "conn_refs s \<Longrightarrow> conn_refs (StopWSSProxy i s)"
  by (auto simp: StopVNCBridge_def StopWSSProxy_def split: option.split) (auto simp: conn_refs_def split: if_split_asm)

text \<open>The lookup and the creation of a bridge are apart. When two viewers of a session both find no bridge, both
  create one; the first is forgotten by the server but goes on running, with its connection to the BMC, and
  deleting the session does not stop it.\<close>

theorem vnc_creation_race:
  assumes "conn_refs s" "vnc_lookup (ks_ID k) s = None"
    and "vnc_create env1 k s = Some (Inr r1, s1)" "vnc_create env2 k s1 = Some (Inr r2, s2)"
  shows "r1 \<noteq> r2 \<and> (\<forall>i. sv_VNCBridges s2 i \<noteq> Some r1) \<and> vb_running (sv_vnc s2 r1)
     \<and> vb_running (sv_vnc (StopVNCBridge (ks_ID k) s2) r1)"
proof -
  have st: "vb_running b'" if "vb_Start d b = Some (None, b')" for d b b'
    using that by (auto simp: vb_Start_def elim!: bind_SomeE split: if_split_asm option.split_asm sum.split_asm)
  have 1: "r1 = sv_next_conn s" "sv_next_conn s1 = r1 + 1" "sv_VNCBridges s1 = (sv_VNCBridges s)(ks_ID k \<mapsto> r1)"
    "vb_running (sv_vnc s1 r1)"
    using assms(3) by (auto simp: vnc_create_def Let_def set_vnc_def elim!: bind_SomeE dest!: st split: option.split_asm)
  have 2: "r2 = sv_next_conn s1" "sv_VNCBridges s2 = (sv_VNCBridges s1)(ks_ID k \<mapsto> r2)" "sv_vnc s2 r1 = sv_vnc s1 r1"
    using assms(4) 1(2) by (auto simp: vnc_create_def Let_def set_vnc_def elim!: bind_SomeE split: option.split_asm)
  have "sv_VNCBridges s i \<noteq> Some r1" for i
    using assms(1) 1(1) unfolding conn_refs_def by blast
  then show ?thesis using 1 2 by (auto simp: StopVNCBridge_def)
qed

section \<open>Leaving\<close>

text \<open>The last viewer that leaves a proxy stops the proxy that the server keeps for the session at that time,
  which need not be its own: the last viewer of a proxy whose backend was lost takes down the proxy that has
  replaced it, with all its viewers.\<close>

theorem stale_viewer_stops_new_proxy:
  assumes "sv_WSSProxies s i = Some r'" "r \<noteq> r'" "wp_clients (sv_wss s r) = [j]"
  shows "sv_WSSProxies (wss_leave r j v i s) i = None
     \<and> wp_clients (sv_wss (wss_leave r j v i s) r') = []
     \<and> (\<forall>q\<in>set (wp_clients (sv_wss s r')). wc_closed (wp_ws (sv_wss (wss_leave r j v i s) r') q))"
proof -
  have c: "sv_wss (close_viewer v i t) = sv_wss t" "sv_WSSProxies (close_viewer v i t) = sv_WSSProxies t" for t
    using close_viewer_eq[of v i t] by auto
  show ?thesis
    using assms by (auto simp: wss_leave_def Let_def set_wss_def leave_proxy_def StopWSSProxy_def close_proxy_def c wss_close_def)
qed

section \<open>Input\<close>

text \<open>Of the viewers of a VNC session, only the one in control can move the BMC with a message that is a key or
  pointer event: when the event is passed on, the registry of the session names the sender as controller.\<close>

theorem vnc_console_gated:
  assumes "vnc_viewer_input r j v i s = Some s'" "ws_in (vb_ws (sv_vnc s r) j) = m # ms" "is_input m"
    and "vb_conn (sv_vnc s' r) \<noteq> vb_conn (sv_vnc s r)"
  shows "\<exists>reg. sv_ViewerRegistries s i = Some reg \<and> controller reg = v"
proof (cases "viewer_allowed v i s")
  case True
  then show ?thesis by (auto simp: viewer_allowed_def HasControl_def split: option.split_asm)
next
  case False
  have "input_gate (vb_FilterEncodings (sv_vnc s r)) False m = None"
    using assms(3) by (auto simp: input_gate_def is_input_def)
  then have "s' = set_vnc r ((sv_vnc s r)\<lparr>vb_ws := (vb_ws (sv_vnc s r))(j := (vb_ws (sv_vnc s r) j)\<lparr>ws_in := ms\<rparr>)\<rparr>) s"
    using assms(1,2) False by (simp add: vnc_viewer_input_def client_input_def ReadMessage_def Let_def)
  then show ?thesis using assms(4) by (simp add: set_vnc_def)
qed

text \<open>The id of a viewer comes with its request and is not checked. Whoever asks for a VNC console under the id of
  the viewer in control is in control too.\<close>

theorem viewer_id_gives_control:
  assumes "proxyVNC env cl k s = Some (Some r, s')" "viewer_allowed (we_viewer env) (ks_ID k) s" "we_viewer env \<noteq> ''''"
  shows "viewer_allowed (we_viewer env) (ks_ID k) s'"
proof -
  obtain g where g: "register_viewer env cl (ks_ID k) s = s\<lparr>sv_ViewerRegistries := g\<rparr>"
    and a: "viewer_allowed (we_viewer env) (ks_ID k) (s\<lparr>sv_ViewerRegistries := g\<rparr>)"
    using register_viewer_eq[of env cl "ks_ID k" s] assms(2,3)
    by (auto simp: viewer_allowed_def HasControl_def Add_def split: option.split_asm)
  have e: "ensureVNCBridge env k t = Some (x, t') \<Longrightarrow> sv_ViewerRegistries t' = sv_ViewerRegistries t" for t x t'
    by (auto simp: ensureVNCBridge_def vnc_create_def set_vnc_def Let_def elim!: bind_SomeE split: option.split_asm)
  have "sv_ViewerRegistries s' = g"
    using assms(1) by (auto simp: proxyVNC_def Let_def g set_vnc_def elim!: bind_SomeE dest!: e
        split: if_split_asm sum.split_asm option.split_asm)
  then show ?thesis using a by (simp add: viewer_allowed_def)
qed

section \<open>Witnesses\<close>

text \<open>A BMC whose VNC server asks for no password, and a viewer that shakes hands and presses a key.\<close>

definition sample_bmc :: bytes where
  "sample_bmc = replicate 12 82 @ [1, 1]"

definition sample_ws_env :: ws_env where
  "sample_ws_env = \<lparr>we_now = 7, we_viewer = ''v'', we_upgraded = True, we_socket = 1,
     we_dial = (\<lambda>_. Some (sample_conn sample_bmc)), we_sockets = (\<lambda>_. sample_ws [[0], [1], [1], sample_key]),
     we_probe = ProbeTimeout False, we_dial_wss = (\<lambda>_ _ _. Some (sample_wss [(2, [7])])),
     we_wss_sockets = (\<lambda>_. sample_wss [(2, [5])])\<rparr>"

definition sample_vnc_session :: KVMSession where
  "sample_vnc_session = \<lparr>ks_ID = ''u1'', ks_ServerName = ''web1'', ks_BMCIP = ''10.0.0.2'', ks_Status = SessionConnected,
     ks_ConnMode = Some KVMModeVNC, ks_KVMTarget = ''10.0.0.2:5901'', ks_KVMPassword = ''calvin'', ks_IKVMArgs = None,
     ks_CreatedAt = 0, ks_LastActivity = 0, ks_Error = ''''\<rparr>"

definition sample_vnc_server :: Server where
  "sample_vnc_server = (newServerCore sample_config)\<lparr>sv_heap := (\<lambda>_. sample_vnc_session), sv_next := 1,
     sv_Sessions := [''u1'' \<mapsto> 0], sv_audit := Some []\<rparr>"

definition sample_vnc_bridge :: VBridge where
  "sample_vnc_bridge = the (map_option snd (vb_Start (we_dial sample_ws_env)
     (NewVNCBridge ''10.0.0.2:5901'' ''calvin'' (we_sockets sample_ws_env))))"

lemma sample_server_fields:
  "sv_VNCBridges sample_vnc_server = Map.empty" "sv_next_conn sample_vnc_server = 0"
  "sv_ViewerRegistries sample_vnc_server = Map.empty" "sv_Sessions sample_vnc_server = [''u1'' \<mapsto> 0]"
  "sv_heap sample_vnc_server = (\<lambda>_. sample_vnc_session)" "sv_Config sample_vnc_server = sample_config"
  "sv_audit sample_vnc_server = Some []"
  by (simp_all add: sample_vnc_server_def newServerCore_def)

lemma sample_start:
  "\<exists>b. vb_Start (we_dial sample_ws_env) ((NewVNCBridge t p (we_sockets sample_ws_env))\<lparr>vb_FilterEncodings := f, vb_RewriteName := q\<rparr>)
     = Some (None, b) \<and> vb_running b \<and> length (vb_serverInit b) = 24 \<and> vb_clients b = []
     \<and> vb_ws b = we_sockets sample_ws_env \<and> vb_conn b \<noteq> None"
proof -
  have w: "\<not> cn_closed (sample_conn sample_bmc)" "\<not> cn_fail (sample_conn sample_bmc) n" for n by (simp_all add: sample_conn_def)
  obtain b' where b': "vb_Start (we_dial sample_ws_env) ((NewVNCBridge t p (we_sockets sample_ws_env))\<lparr>vb_FilterEncodings := f, vb_RewriteName := q\<rparr>)
      = Some (None, b')" "vb_running b'" "vb_serverInit b' = replicate 24 0"
    using truncated_handshake_accepted[of "we_dial sample_ws_env"
        "(NewVNCBridge t p (we_sockets sample_ws_env))\<lparr>vb_FilterEncodings := f, vb_RewriteName := q\<rparr>"
        "sample_conn sample_bmc" "replicate 12 82" 1 "[1]"] w
    by (auto simp: sample_ws_env_def NewVNCBridge_def sample_bmc_def)
  have "vb_clients b' = [] \<and> vb_ws b' = we_sockets sample_ws_env \<and> vb_conn b' \<noteq> None"
    using b'(1) by (auto simp: vb_Start_def NewVNCBridge_def elim!: bind_SomeE split: option.split_asm sum.split_asm)
  then show ?thesis using b' by auto
qed

lemma sample_serve:
  assumes "vb_running b" "vb_clients b = []" "vb_conn b = Some cn" "length (vb_serverInit b) = 24" "vb_ws b = we_sockets sample_ws_env"
  shows "\<exists>b'. vb_serve (ProbeTimeout False) d 1 b = Some (None, b') \<and> ws_in (vb_ws b' 1) = [sample_key] \<and> vb_conn b' = vb_conn b"
proof -
  define b0 where "b0 = b\<lparr>vb_broadcasting := vb_broadcasting b \<and> True\<rparr>"
  obtain si where si: "client_server_init b0 = Some si"
    using client_server_init_defined[of b0] assms(4) by (auto simp: b0_def)
  have "\<exists>ws. clientHandshake b0 (vb_ws b 1) = Some (True, ws) \<and> ws_in ws = [sample_key]"
    using assms(5) si by (simp add: clientHandshake_def ch_round_def sample_ws_env_def sample_ws_def WriteMessage_def ReadMessage_def)
  then show ?thesis
    using assms by (auto simp: vb_serve_def vb_clientCount_def probe_bmc_def b0_def Let_def ensureBroadcast_def)
qed

lemma sample_proxyVNC:
  fixes s :: Server
  assumes "vnc_lookup ''u1'' s = None" "ks_ID k = ''u1''"
  shows "\<exists>s'. proxyVNC sample_ws_env cl k s = Some (Some (sv_next_conn s), s')
     \<and> ws_in (vb_ws (sv_vnc s' (sv_next_conn s)) 1) = [sample_key]"
proof -
  obtain g where g: "register_viewer sample_ws_env cl ''u1'' s = s\<lparr>sv_ViewerRegistries := g\<rparr>"
    using register_viewer_eq by blast
  define q where "q = is_idrac8 (sv_Config s) (ks_ServerName k)"
  obtain b where b: "vb_Start (we_dial sample_ws_env) ((NewVNCBridge (ks_KVMTarget k) (ks_KVMPassword k)
      (we_sockets sample_ws_env))\<lparr>vb_FilterEncodings := q, vb_RewriteName := q\<rparr>) = Some (None, b)"
    "vb_running b" "length (vb_serverInit b) = 24" "vb_clients b = []" "vb_ws b = we_sockets sample_ws_env" "vb_conn b \<noteq> None"
    using sample_start by blast
  then obtain cn where cn: "vb_conn b = Some cn" by auto
  obtain b' where b': "vb_serve (ProbeTimeout False) (we_dial sample_ws_env) 1 b = Some (None, b')"
    "ws_in (vb_ws b' 1) = [sample_key]"
    using sample_serve[OF b(2,4) cn b(3,5)] by blast
  have env: "we_upgraded sample_ws_env" "we_probe sample_ws_env = ProbeTimeout False" "we_socket sample_ws_env = 1"
    by (simp_all add: sample_ws_env_def)
  have "vnc_lookup ''u1'' (s\<lparr>sv_ViewerRegistries := g\<rparr>) = None"
    using assms(1) by (auto simp: vnc_lookup_def vncBridgeRunning_def split: option.split)
  then show ?thesis
    using b(1) b' assms(2)
    by (simp add: proxyVNC_def Let_def g env ensureVNCBridge_def vnc_create_def q_def[symmetric] set_vnc_def)
qed

lemma sample_lookup: "vnc_lookup ''u1'' sample_vnc_server = None"
  by (simp add: vnc_lookup_def vncBridgeRunning_def sample_server_fields)

lemma sample_vnc_console: "\<exists>s'. HandleKVMWebSocket sample_ws_env cl ''u1'' sample_vnc_server = Some (WsServing (VNCConsole 0), s')"
proof -
  define u where "u = update_session 0 (\<lambda>k. k\<lparr>ks_LastActivity := we_now sample_ws_env\<rparr>) sample_vnc_server"
  define v where "v = logAudit ''kvm_connect'' (email_of cl) (ks_ServerName (sv_heap u 0)) ''u1'' (cl_ip cl) u"
  have f: "vnc_lookup ''u1'' v = None" "sv_next_conn v = 0" "ks_ID (sv_heap u 0) = ''u1''" "ks_ConnMode (sv_heap u 0) = Some KVMModeVNC"
    by (simp_all add: v_def u_def logAudit_def update_session_def set_session_def write_session_def vnc_lookup_def
        vncBridgeRunning_def sample_server_fields sample_vnc_session_def)
  obtain s' where "proxyVNC sample_ws_env cl (sv_heap u 0) v = Some (Some 0, s')"
    using sample_proxyVNC[OF f(1,3)] f(2) by auto
  then show ?thesis
    using f(4) by (simp add: HandleKVMWebSocket_def store_Get_def sample_server_fields sample_vnc_session_def Let_def
        u_def[symmetric] v_def[symmetric])
qed

theorem console_ignores_roles_witness:
  "\<exists>s2. HandleKVMWebSocket sample_ws_env (sample_caller []) ''u1'' sample_vnc_server = Some (WsServing (VNCConsole 0), s2)"
proof -
  obtain s' where "HandleKVMWebSocket sample_ws_env (sample_caller [''ops'']) ''u1'' sample_vnc_server = Some (WsServing (VNCConsole 0), s')"
    using sample_vnc_console by blast
  from console_ignores_roles[OF this, of "sample_caller []"] show ?thesis by blast
qed

theorem kvm_ws_audited_witness:
  "\<exists>s'. HandleKVMWebSocket sample_ws_env (sample_caller []) ''u1'' sample_vnc_server = Some (WsServing (VNCConsole 0), s')
     \<and> sv_audit s' = Some [ws_entry ''kvm_connect'' (sample_caller []) ''web1'' ''u1'']"
proof -
  obtain s' where s: "HandleKVMWebSocket sample_ws_env (sample_caller []) ''u1'' sample_vnc_server = Some (WsServing (VNCConsole 0), s')"
    using sample_vnc_console by blast
  from kvm_ws_audited[OF this] show ?thesis using s by (simp add: sample_server_fields sample_vnc_session_def)
qed

lemma sample_create: "\<exists>s'. vnc_create sample_ws_env sample_vnc_session (s :: Server) = Some (Inr (sv_next_conn s), s')"
proof -
  define q where "q = is_idrac8 (sv_Config s) (ks_ServerName sample_vnc_session)"
  obtain b where "vb_Start (we_dial sample_ws_env) ((NewVNCBridge (ks_KVMTarget sample_vnc_session) (ks_KVMPassword sample_vnc_session)
      (we_sockets sample_ws_env))\<lparr>vb_FilterEncodings := q, vb_RewriteName := q\<rparr>) = Some (None, b)"
    using sample_start by blast
  then show ?thesis by (simp add: vnc_create_def Let_def q_def)
qed

theorem ensureVNCBridge_shares_witness:
  "\<exists>s'. ensureVNCBridge sample_ws_env sample_vnc_session sample_vnc_server = Some (Inr 0, s') \<and> sv_VNCBridges s' ''u1'' = Some 0"
proof -
  have id: "ks_ID sample_vnc_session = ''u1''" by (simp add: sample_vnc_session_def)
  obtain s' where s: "vnc_create sample_ws_env sample_vnc_session sample_vnc_server = Some (Inr 0, s')"
    using sample_create[of sample_vnc_server] by (auto simp: sample_server_fields)
  then have e: "ensureVNCBridge sample_ws_env sample_vnc_session sample_vnc_server = Some (Inr 0, s')"
    by (simp add: ensureVNCBridge_def id sample_lookup)
  from ensureVNCBridge_shares[OF this] show ?thesis using e id by auto
qed

theorem vnc_creation_race_witness:
  "\<exists>(s2 :: Server) r1. vb_running (sv_vnc s2 r1) \<and> vb_running (sv_vnc (StopVNCBridge ''u1'' s2) r1) \<and> (\<forall>i. sv_VNCBridges s2 i \<noteq> Some r1)"
proof -
  have id: "ks_ID sample_vnc_session = ''u1''" by (simp add: sample_vnc_session_def)
  have refs: "conn_refs sample_vnc_server" by (simp add: conn_refs_def sample_vnc_server_def newServerCore_def)
  obtain s1 where s1: "vnc_create sample_ws_env sample_vnc_session sample_vnc_server = Some (Inr (sv_next_conn sample_vnc_server), s1)"
    using sample_create by blast
  obtain s2 where s2: "vnc_create sample_ws_env sample_vnc_session s1 = Some (Inr (sv_next_conn s1), s2)" using sample_create by blast
  have l: "vnc_lookup (ks_ID sample_vnc_session) sample_vnc_server = None" by (simp add: id sample_lookup)
  show ?thesis using vnc_creation_race[OF refs l s1 s2] id by auto
qed

text \<open>A viewer on a proxy whose backend is gone, and two on the proxy that took its place.\<close>

definition sample_two_proxies :: Server where
  "sample_two_proxies = sample_vnc_server\<lparr>sv_WSSProxies := [''u1'' \<mapsto> 1], sv_next_conn := 2,
     sv_wss := (\<lambda>r. if r = 0 then sample_proxy\<lparr>wp_done := True, wp_clients := [1]\<rparr> else sample_proxy\<lparr>wp_clients := [2, 3]\<rparr>)\<rparr>"

theorem stale_viewer_stops_new_proxy_witness:
  "sv_WSSProxies (wss_leave 0 1 ''a'' ''u1'' sample_two_proxies) ''u1'' = None
     \<and> wc_closed (wp_ws (sv_wss (wss_leave 0 1 ''a'' ''u1'' sample_two_proxies) 1) 2)"
  using stale_viewer_stops_new_proxy[of sample_two_proxies "''u1''" 1 0 1 "''a''"] by (simp add: sample_two_proxies_def)

lemma sample_viewer_in_control:
  "viewer_allowed ''v'' ''u1'' (register_viewer sample_ws_env cl ''u1'' sample_vnc_server)"
  using register_viewer_eq[of sample_ws_env cl "''u1''" sample_vnc_server]
  by (auto simp: viewer_allowed_def HasControl_def Add_def NewViewerRegistry_def sample_server_fields sample_ws_env_def)

theorem viewer_id_gives_control_witness:
  "\<exists>s'. proxyVNC sample_ws_env (sample_caller []) sample_vnc_session
       (register_viewer sample_ws_env (sample_caller [''ops'']) ''u1'' sample_vnc_server) = Some (Some 0, s')
     \<and> viewer_allowed ''v'' ''u1'' s'"
proof -
  let ?t = "register_viewer sample_ws_env (sample_caller [''ops'']) ''u1'' sample_vnc_server"
  have id: "ks_ID sample_vnc_session = ''u1''" "we_viewer sample_ws_env = ''v''"
    by (simp_all add: sample_vnc_session_def sample_ws_env_def)
  obtain g where g: "?t = sample_vnc_server\<lparr>sv_ViewerRegistries := g\<rparr>" using register_viewer_eq by blast
  have l: "vnc_lookup ''u1'' ?t = None" "sv_next_conn ?t = 0"
    using g by (simp_all add: vnc_lookup_def vncBridgeRunning_def sample_server_fields)
  obtain s' where s: "proxyVNC sample_ws_env (sample_caller []) sample_vnc_session ?t = Some (Some 0, s')"
    using sample_proxyVNC[OF l(1) id(1)] l(2) by auto
  show ?thesis using viewer_id_gives_control[OF s] s sample_viewer_in_control id by auto
qed

text \<open>The viewer in control presses a key.\<close>

definition sample_pressing :: Server where
  "sample_pressing = (register_viewer sample_ws_env (sample_caller []) ''u1'' sample_vnc_server)
     \<lparr>sv_vnc := (\<lambda>_. sample_vnc\<lparr>vb_running := True, vb_conn := Some (sample_conn []), vb_clients := [1],
        vb_ws := (\<lambda>_. sample_ws [sample_key])\<rparr>)\<rparr>"

theorem vnc_console_gated_witness:
  "\<exists>s'. vnc_viewer_input 0 1 ''v'' ''u1'' sample_pressing = Some s'
     \<and> (\<exists>reg. sv_ViewerRegistries sample_pressing ''u1'' = Some reg \<and> controller reg = ''v'')"
proof -
  obtain g where g: "register_viewer sample_ws_env (sample_caller []) ''u1'' sample_vnc_server = sample_vnc_server\<lparr>sv_ViewerRegistries := g\<rparr>"
    using register_viewer_eq by blast
  have a: "viewer_allowed ''v'' ''u1'' sample_pressing"
    using sample_viewer_in_control[of "sample_caller []"] by (simp add: sample_pressing_def viewer_allowed_def)
  have key: "sample_key \<noteq> []" "sample_key ! 0 = 4" by (simp_all add: sample_key_def)
  have w: "tcp_write sample_key (sample_conn []) = (True, (sample_conn [])\<lparr>cn_writes := 1, cn_out := sample_key\<rparr>)"
    by (simp add: tcp_write_def sample_conn_def)
  have f: "sv_vnc sample_pressing 0 = sample_vnc\<lparr>vb_running := True, vb_conn := Some (sample_conn []), vb_clients := [1],
        vb_ws := (\<lambda>_. sample_ws [sample_key])\<rparr>" by (simp add: sample_pressing_def)
  obtain s' where s: "vnc_viewer_input 0 1 ''v'' ''u1'' sample_pressing = Some s'"
     "vb_conn (sv_vnc s' 0) = Some ((sample_conn [])\<lparr>cn_writes := 1, cn_out := sample_key\<rparr>)"
    by (simp add: vnc_viewer_input_def a client_input_def f sample_ws_def ReadMessage_def input_gate_def key w set_vnc_def
        Let_def)
  have "cn_out ((sample_conn [])\<lparr>cn_writes := 1, cn_out := sample_key\<rparr>) \<noteq> cn_out (sample_conn [])" using key by simp
  then have "vb_conn (sv_vnc s' 0) \<noteq> vb_conn (sv_vnc sample_pressing 0)" unfolding s(2) by (auto simp: f dest: arg_cong[of _ _ cn_out])
  from vnc_console_gated[OF s(1) _ _ this, of sample_key "[]"] show ?thesis using s(1) by (simp add: f sample_ws_def)
qed

end
