(* ===== verification/Store.thy ===== *)
theory Store
  imports Controls
begin

text \<open>
  The SQLite database, \<open>src/internal/store\<close>: the schema migrations (\<open>store.go\<close>), the session store (\<open>sessions.go\<close>), a
  second provider of the interface \<open>session_store\<close>, and the audit log (\<open>audit.go\<close>) with the handler that lists it. The
  table of the ISO files is in \<open>Isos\<close>.

  A statement either takes effect or fails and changes nothing; the flag \<open>ok\<close> of an operation tells which.
\<close>

section \<open>Migrations\<close>

record schema =
  sm_versions :: "nat set"
  sm_tables :: "string list"

definition migrations :: "(nat \<times> string \<times> bool) list" where
  "migrations = [(1, ''audit_log'', False), (2, ''kvm_sessions'', False), (3, ''iso_files'', True)]"

text \<open>A migration is a transaction: the statements, with \<open>CREATE TABLE\<close> failing on an existing table unless it says
  \<open>IF NOT EXISTS\<close>, the new version, the commit.\<close>

definition run_migration :: "(nat \<Rightarrow> bool) \<Rightarrow> nat \<times> string \<times> bool \<Rightarrow> schema \<Rightarrow> schema option" where
  "run_migration ok m db =
     (case m of (v, table, if_not_exists) \<Rightarrow>
        if ok v \<and> (if_not_exists \<or> table \<notin> set (sm_tables db)) \<and> v \<notin> sm_versions db
        then Some (db\<lparr>sm_versions := insert v (sm_versions db),
                      sm_tables := (if table \<in> set (sm_tables db) then sm_tables db else sm_tables db @ [table])\<rparr>)
        else None)"

fun run_migrations :: "(nat \<Rightarrow> bool) \<Rightarrow> nat \<Rightarrow> (nat \<times> string \<times> bool) list \<Rightarrow> schema \<Rightarrow> bool \<times> schema" where
  "run_migrations ok current [] db = (True, db)"
| "run_migrations ok current (m # ms) db =
     (if fst m \<le> current then run_migrations ok current ms db
      else case run_migration ok m db of
        None \<Rightarrow> (False, db)
      | Some db \<Rightarrow> run_migrations ok current ms db)"

text \<open>\<open>COALESCE(MAX(version), 0)\<close>\<close>

definition current_version :: "schema \<Rightarrow> nat" where
  "current_version db = (if sm_versions db = {} then 0 else Max (sm_versions db))"

definition migrate :: "bool \<Rightarrow> (nat \<Rightarrow> bool) \<Rightarrow> schema \<Rightarrow> bool \<times> schema" where
  "migrate ready ok db = (if ready then run_migrations ok (current_version db) migrations db else (False, db))"

definition empty_schema :: schema where
  "empty_schema = \<lparr>sm_versions = {}, sm_tables = []\<rparr>"

definition schema_at :: "nat \<Rightarrow> schema \<Rightarrow> bool" where
  "schema_at n db \<longleftrightarrow> n \<le> 3 \<and> sm_versions db = {1..n} \<and> sm_tables db = map (fst \<circ> snd) (take n migrations)"

lemma schema_at_version: "schema_at n db \<Longrightarrow> current_version db = n"
proof -
  assume s: "schema_at n db"
  have "Max {1..n} = n" if "n \<noteq> 0" using that by (intro Max_eqI) auto
  then show ?thesis using s by (cases "n = 0") (simp_all add: schema_at_def current_version_def)
qed

lemma migrate_from:
  assumes "schema_at n db"
  shows "\<exists>m. schema_at m (snd (migrate ready ok db)) \<and> n \<le> m \<and> (fst (migrate ready ok db) \<longrightarrow> m = 3)
     \<and> (ready \<and> (\<forall>v. ok v) \<longrightarrow> fst (migrate ready ok db))"
proof -
  have cv: "current_version db = n" using schema_at_version[OF assms] .
  have "n = 0 \<or> n = 1 \<or> n = 2 \<or> n = 3" using assms by (auto simp: schema_at_def)
  then have "(\<exists>m\<in>{0, 1, 2, 3}. schema_at m (snd (migrate ready ok db)) \<and> n \<le> m \<and> (fst (migrate ready ok db) \<longrightarrow> m = 3)
     \<and> (ready \<and> (\<forall>v. ok v) \<longrightarrow> fst (migrate ready ok db)))"
    using assms
    by (elim disjE) (auto simp: migrate_def cv schema_at_def run_migration_def migrations_def numeral_eq_Suc atLeastAtMostSuc_conv split: option.split)
  then show ?thesis by blast
qed

text \<open>C39: migrations can be interrupted and repeated: whatever runs failed before, at whichever statement, the database has the
  tables of the migrations it records, each once; a run that reports success has applied all three, and a run in which no
  statement fails succeeds.\<close>

theorem migrations_resume:
  defines "db \<equiv> (\<lambda>runs. fold (\<lambda>(ready, ok) db. snd (migrate ready ok db)) runs empty_schema)"
  shows "(\<exists>n. schema_at n (db runs))
     \<and> (fst (migrate ready ok (db runs)) \<longrightarrow> schema_at 3 (snd (migrate ready ok (db runs))))
     \<and> fst (migrate True (\<lambda>_. True) (db runs))"
proof -
  have "\<exists>n. schema_at n (fold (\<lambda>(ready, ok) db. snd (migrate ready ok db)) runs db0)" if "schema_at n0 db0" for n0 db0
    using that
  proof (induction runs arbitrary: n0 db0)
    case (Cons r rs)
    obtain ready ok where r: "r = (ready, ok)" by force
    from migrate_from[OF Cons.prems, of ready ok] obtain m where "schema_at m (snd (migrate ready ok db0))" by blast
    from Cons.IH[OF this] show ?case by (simp add: r)
  qed auto
  moreover have "schema_at 0 empty_schema" by (simp add: schema_at_def empty_schema_def)
  ultimately obtain n where n: "schema_at n (db runs)" unfolding db_def by blast
  then show ?thesis using migrate_from[OF n, of ready ok] migrate_from[OF n, of True "\<lambda>_. True"] by auto
qed

section \<open>The session store\<close>

text \<open>A row. Times are written in seconds.\<close>

record session_row =
  sr_id :: string
  sr_server_name :: string
  sr_bmc_ip :: string
  sr_status :: SessionStatus
  sr_conn_mode :: "KVMMode option"
  sr_kvm_target :: string
  sr_kvm_password :: string
  sr_created_at :: int
  sr_last_activity :: int
  sr_error :: string

record SQLiteSessionStore =
  ss_cache :: SessionStore
  ss_rows :: "string \<rightharpoonup> session_row"

definition format_time :: "int \<Rightarrow> int" where "format_time t = t div 1000000000"
definition parse_time :: "int \<Rightarrow> int" where "parse_time t = t * 1000000000"

definition row_of :: "KVMSession \<Rightarrow> session_row" where
  "row_of k = \<lparr>sr_id = ks_ID k, sr_server_name = ks_ServerName k, sr_bmc_ip = ks_BMCIP k, sr_status = ks_Status k, sr_conn_mode = ks_ConnMode k,
     sr_kvm_target = ks_KVMTarget k, sr_kvm_password = ks_KVMPassword k, sr_created_at = format_time (ks_CreatedAt k),
     sr_last_activity = format_time (ks_LastActivity k), sr_error = ks_Error k\<rparr>"

text \<open>\<open>INSERT \<dots> ON CONFLICT(id) DO UPDATE\<close>: the update keeps the server, the address and the time of creation.\<close>

definition upsert :: "session_row option \<Rightarrow> session_row \<Rightarrow> session_row" where
  "upsert old new =
     (case old of
        None \<Rightarrow> new
      | Some o' \<Rightarrow> new\<lparr>sr_server_name := sr_server_name o', sr_bmc_ip := sr_bmc_ip o', sr_created_at := sr_created_at o'\<rparr>)"

definition persistSession :: "bool \<Rightarrow> KVMSession \<Rightarrow> SQLiteSessionStore \<Rightarrow> SQLiteSessionStore" where
  "persistSession ok k s = (if ok then s\<lparr>ss_rows := (ss_rows s)(ks_ID k \<mapsto> upsert (ss_rows s (ks_ID k)) (row_of k))\<rparr> else s)"

definition sq_Get :: "SQLiteSessionStore \<Rightarrow> string \<Rightarrow> session_ref option" where
  "sq_Get s i = ss_cache s i"

definition sq_Set :: "bool \<Rightarrow> session_heap \<Rightarrow> SQLiteSessionStore \<Rightarrow> session_ref \<Rightarrow> SQLiteSessionStore" where
  "sq_Set ok h s r = persistSession ok (h r) (s\<lparr>ss_cache := (ss_cache s)(ks_ID (h r) \<mapsto> r)\<rparr>)"

definition sq_Delete :: "bool \<Rightarrow> SQLiteSessionStore \<Rightarrow> string \<Rightarrow> SQLiteSessionStore" where
  "sq_Delete ok s i =
     (let s = s\<lparr>ss_cache := (ss_cache s)(i := None)\<rparr>
      in if ok then s\<lparr>ss_rows := (ss_rows s)(i := None)\<rparr> else s)"

definition sq_List :: "string list \<Rightarrow> SQLiteSessionStore \<Rightarrow> session_ref list" where
  "sq_List visit s = List.map_filter (ss_cache s) visit"

definition sq_FindByServer :: "string list \<Rightarrow> session_heap \<Rightarrow> SQLiteSessionStore \<Rightarrow> string \<Rightarrow> session_ref option" where
  "sq_FindByServer visit h s name = List.find (active_for h name) (sq_List visit s)"

definition sq_visits :: "string list \<Rightarrow> SQLiteSessionStore \<Rightarrow> bool" where
  "sq_visits visit s \<longleftrightarrow> enumerates visit (ss_cache s)"

text \<open>\<open>NewSQLiteSessionStore\<close>: \<open>found\<close> are the rows in the order of the query; the session of the \<open>n\<close>th row is allocated at
  \<open>next + n\<close>. \<open>visit\<close> is the order of the loop over the cache.\<close>

definition session_of :: "session_row \<Rightarrow> KVMSession" where
  "session_of r = \<lparr>ks_ID = sr_id r, ks_ServerName = sr_server_name r, ks_BMCIP = sr_bmc_ip r, ks_Status = sr_status r, ks_ConnMode = sr_conn_mode r,
     ks_KVMTarget = sr_kvm_target r, ks_KVMPassword = sr_kvm_password r, ks_IKVMArgs = None, ks_CreatedAt = parse_time (sr_created_at r),
     ks_LastActivity = parse_time (sr_last_activity r), ks_Error = sr_error r\<rparr>"

fun load_rows :: "session_row list \<Rightarrow> session_heap \<times> session_ref \<times> SQLiteSessionStore \<Rightarrow> session_heap \<times> session_ref \<times> SQLiteSessionStore" where
  "load_rows [] st = st"
| "load_rows (r # rs) (h, n, s) = load_rows rs (h(n := session_of r), n + 1, s\<lparr>ss_cache := (ss_cache s)(sr_id r \<mapsto> n)\<rparr>)"

definition mark_stale :: "(string \<Rightarrow> bool) \<Rightarrow> string \<Rightarrow> session_heap \<times> SQLiteSessionStore \<Rightarrow> session_heap \<times> SQLiteSessionStore" where
  "mark_stale ok i st =
     (case st of (h, s) \<Rightarrow>
        (case ss_cache s i of
           None \<Rightarrow> (h, s)
         | Some r \<Rightarrow>
             if ks_Status (h r) = SessionStarting \<or> ks_Status (h r) = SessionConnected then
               (let k = (h r)\<lparr>ks_Status := SessionDisconnected\<rparr> in (h(r := k), persistSession (ok i) k s))
             else (h, s)))"

definition NewSQLiteSessionStore :: "(string \<Rightarrow> bool) \<Rightarrow> session_row list \<Rightarrow> string list \<Rightarrow> session_heap \<Rightarrow> session_ref \<Rightarrow> (string \<rightharpoonup> session_row)
    \<Rightarrow> session_heap \<times> SQLiteSessionStore" where
  "NewSQLiteSessionStore ok found visit h n db =
     (case load_rows found (h, n, \<lparr>ss_cache = Map.empty, ss_rows = db\<rparr>) of
        (h, _, s) \<Rightarrow> fold (mark_stale ok) visit (h, s))"

text \<open>The database is behind the cache: towards its clients the store is the in-memory one, whatever statements fail.\<close>

lemma persist_cache [simp]: "ss_cache (persistSession ok k s) = ss_cache s"
  by (simp add: persistSession_def)

interpretation sqlite: session_store sq_Get "sq_Set ok" "sq_Delete ok'" sq_List sq_FindByServer sq_visits for ok ok'
proof
  fix visit s
  assume "sq_visits visit s"
  then show "set (sq_List visit s) = {r. \<exists>i. sq_Get s i = Some r}"
    using mem.listing_get[of visit "ss_cache s"] by (simp add: sq_visits_def sq_List_def sq_Get_def store_List_def store_Get_def)
qed (auto simp: sq_Get_def sq_Set_def sq_Delete_def sq_FindByServer_def Let_def)

section \<open>Restarts\<close>

datatype sq_op = SqSet KVMSession | SqDelete string

text \<open>The rows after operations none of which fails, the latest first, and what is remembered of a session: as it was
  stored first and last.\<close>

fun rows_after :: "sq_op list \<Rightarrow> string \<rightharpoonup> session_row" where
  "rows_after [] = Map.empty"
| "rows_after (SqSet k # ops) = ss_rows (sq_Set True (\<lambda>_. k) \<lparr>ss_cache = Map.empty, ss_rows = rows_after ops\<rparr> 0)"
| "rows_after (SqDelete i # ops) = ss_rows (sq_Delete True \<lparr>ss_cache = Map.empty, ss_rows = rows_after ops\<rparr> i)"

fun remembered :: "sq_op list \<Rightarrow> string \<Rightarrow> (KVMSession \<times> KVMSession) option" where
  "remembered [] i = None"
| "remembered (SqSet k # ops) i =
     (if i = ks_ID k then Some (case remembered ops i of None \<Rightarrow> k | Some (first, _) \<Rightarrow> first, k) else remembered ops i)"
| "remembered (SqDelete j # ops) i = (if i = j then None else remembered ops i)"

definition whole_seconds :: "int \<Rightarrow> int" where
  "whole_seconds t = t div 1000000000 * 1000000000"

definition ended :: "SessionStatus \<Rightarrow> SessionStatus" where
  "ended st = (if st = SessionStarting \<or> st = SessionConnected then SessionDisconnected else st)"

definition revived :: "KVMSession \<Rightarrow> KVMSession \<Rightarrow> KVMSession" where
  "revived first k = k\<lparr>ks_ServerName := ks_ServerName first, ks_BMCIP := ks_BMCIP first, ks_CreatedAt := whole_seconds (ks_CreatedAt first),
     ks_LastActivity := whole_seconds (ks_LastActivity k), ks_IKVMArgs := None, ks_Status := ended (ks_Status k)\<rparr>"

lemma rows_remembered:
  "rows_after ops i = (case remembered ops i of None \<Rightarrow> None
     | Some (first, k) \<Rightarrow> Some ((row_of k)\<lparr>sr_server_name := ks_ServerName first, sr_bmc_ip := ks_BMCIP first,
          sr_created_at := format_time (ks_CreatedAt first)\<rparr>))"
  by (induction ops i rule: remembered.induct)
     (auto simp: sq_Set_def persistSession_def sq_Delete_def Let_def upsert_def row_of_def split: option.split prod.split)

lemma remembered_id: "remembered ops i = Some (first, k) \<Longrightarrow> ks_ID k = i"
proof (induction ops arbitrary: first k)
  case (Cons x ops)
  from Cons.prems show ?case by (cases x) (simp_all split: if_split_asm, metis Cons.IH, metis Cons.IH)
qed simp

text \<open>Loading allocates one session for each row.\<close>

lemma load_rows_spec:
  assumes "load_rows rs (h, n, s) = (h', n', s')" "distinct (map sr_id rs)" "\<forall>i r. ss_cache s i = Some r \<longrightarrow> r < n"
    and "inj_on (ss_cache s) (dom (ss_cache s))"
  shows "ss_rows s' = ss_rows s \<and> dom (ss_cache s') = dom (ss_cache s) \<union> sr_id ` set rs
     \<and> (\<forall>x\<in>set rs. \<exists>r. ss_cache s' (sr_id x) = Some r \<and> h' r = session_of x)
     \<and> (\<forall>i r. i \<notin> sr_id ` set rs \<longrightarrow> ss_cache s i = Some r \<longrightarrow> ss_cache s' i = Some r \<and> h' r = h r)
     \<and> inj_on (ss_cache s') (dom (ss_cache s'))"
  using assms
proof (induction rs arbitrary: h n s)
  case (Cons x rs)
  let ?h = "h(n := session_of x)" and ?s = "s\<lparr>ss_cache := (ss_cache s)(sr_id x \<mapsto> n)\<rparr>"
  have run: "load_rows rs (?h, n + 1, ?s) = (h', n', s')" using Cons.prems(1) by simp
  have lt: "\<forall>i r. ss_cache ?s i = Some r \<longrightarrow> r < n + 1"
  proof (intro allI impI)
    fix i r assume "ss_cache ?s i = Some r"
    then show "r < n + 1" using Cons.prems(3) by (cases "i = sr_id x") fastforce+
  qed
  have inj: "inj_on (ss_cache ?s) (dom (ss_cache ?s))"
  proof (rule inj_onI)
    fix i j assume "i \<in> dom (ss_cache ?s)" "j \<in> dom (ss_cache ?s)" "ss_cache ?s i = ss_cache ?s j"
    then show "i = j" using Cons.prems(3,4) by (fastforce simp: inj_on_def dom_def split: if_split_asm)
  qed
  have d: "distinct (map sr_id rs)" "sr_id x \<notin> sr_id ` set rs" using Cons.prems(2) by simp_all
  note IH = Cons.IH[OF run d(1) lt inj]
  have fresh: "r \<noteq> n" if "ss_cache s i = Some r" for i r using Cons.prems(3) that by fastforce
  have "ss_cache ?s (sr_id x) = Some n" by simp
  then have x: "ss_cache s' (sr_id x) = Some n \<and> h' n = session_of x" using IH d(2) by fastforce
  have keep: "ss_cache s' i = Some r \<and> h' r = h r" if "i \<notin> sr_id ` set (x # rs)" "ss_cache s i = Some r" for i r
  proof -
    have "ss_cache ?s i = Some r" "i \<notin> sr_id ` set rs" using that by auto
    then have "ss_cache s' i = Some r \<and> h' r = ?h r" using IH by blast
    then show ?thesis using fresh[OF that(2)] by simp
  qed
  have "dom (ss_cache s') = dom (ss_cache s) \<union> sr_id ` set (x # rs)" "ss_rows s' = ss_rows s" using IH by auto
  moreover have "\<forall>y\<in>set (x # rs). \<exists>r. ss_cache s' (sr_id y) = Some r \<and> h' r = session_of y" using IH x by auto
  ultimately show ?case using IH keep by blast
qed auto

lemma mark_stale_fold:
  assumes "fold (mark_stale ok) visit (h, s) = (h', s')" "inj_on (ss_cache s) (dom (ss_cache s))" "distinct visit"
  shows "ss_cache s' = ss_cache s
     \<and> (\<forall>i r. ss_cache s i = Some r \<longrightarrow> h' r = (if i \<in> set visit then (h r)\<lparr>ks_Status := ended (ks_Status (h r))\<rparr> else h r))"
  using assms
proof (induction visit arbitrary: h s)
  case (Cons i visit)
  obtain h1 s1 where m: "mark_stale ok i (h, s) = (h1, s1)" by force
  have c: "ss_cache s1 = ss_cache s" using m by (auto simp: mark_stale_def Let_def split: option.split_asm if_split_asm)
  have h1: "h1 r = (if j = i then (h r)\<lparr>ks_Status := ended (ks_Status (h r))\<rparr> else h r)" if r: "ss_cache s j = Some r" for j r
  proof (cases "j = i")
    case True
    then show ?thesis using m r by (auto simp: mark_stale_def ended_def Let_def split: if_split_asm)
  next
    case False
    have "ss_cache s i \<noteq> Some r"
      using False r Cons.prems(2) by (metis domI inj_onD)
    then show ?thesis using m False by (auto simp: mark_stale_def Let_def split: option.split_asm if_split_asm)
  qed
  have run: "fold (mark_stale ok) visit (h1, s1) = (h', s')" using Cons.prems(1) m by simp
  have "inj_on (ss_cache s1) (dom (ss_cache s1))" "distinct visit" using Cons.prems c by simp_all
  note IH = Cons.IH[OF run this, unfolded c]
  show ?case using IH h1 Cons.prems(3) by auto
qed simp

lemma reopened:
  assumes "NewSQLiteSessionStore ok found visit h n db = (h', s')" "distinct (map sr_id found)" "distinct visit" "sr_id ` set found \<subseteq> set visit"
  shows "dom (ss_cache s') = sr_id ` set found"
    "x \<in> set found \<Longrightarrow> \<exists>r. ss_cache s' (sr_id x) = Some r \<and> h' r = (session_of x)\<lparr>ks_Status := ended (sr_status x)\<rparr>"
proof -
  let ?s0 = "\<lparr>ss_cache = Map.empty, ss_rows = db\<rparr>"
  obtain h1 n1 s1 where l: "load_rows found (h, n, ?s0) = (h1, n1, s1)" by (cases "load_rows found (h, n, ?s0)")
  have ld: "dom (ss_cache s1) = sr_id ` set found" "\<forall>x\<in>set found. \<exists>r. ss_cache s1 (sr_id x) = Some r \<and> h1 r = session_of x"
    "inj_on (ss_cache s1) (dom (ss_cache s1))"
    using load_rows_spec[OF l assms(2)] by auto
  have f: "fold (mark_stale ok) visit (h1, s1) = (h', s')" using assms(1) l by (simp add: NewSQLiteSessionStore_def)
  note m = mark_stale_fold[OF f ld(3) assms(3)]
  show "dom (ss_cache s') = sr_id ` set found" using m ld(1) by simp
  assume x: "x \<in> set found"
  then obtain r where r: "ss_cache s1 (sr_id x) = Some r" "h1 r = session_of x" using ld(2) by blast
  have "sr_id x \<in> set visit" using x assms(4) by auto
  then have "h' r = (session_of x)\<lparr>ks_Status := ended (sr_status x)\<rparr>" using m r by (simp add: session_of_def)
  then show "\<exists>r. ss_cache s' (sr_id x) = Some r \<and> h' r = (session_of x)\<lparr>ks_Status := ended (sr_status x)\<rparr>" using m r by auto
qed


text \<open>After a restart no server is blocked: no session of the reopened store is starting or connected, whatever rows there
  are and whatever statements fail, so every server is free and no session counts against the limit.\<close>

theorem restart_frees_servers:
  assumes "NewSQLiteSessionStore ok found visit h n db = (h', s')" "distinct (map sr_id found)" "distinct visit"
    and "set visit = sr_id ` set found" "sq_visits visit2 s'"
  shows "sq_FindByServer visit2 h' s' name = None \<and> (\<forall>i r. sq_Get s' i = Some r \<longrightarrow> \<not> active (h' r))"
proof -
  note re = reopened[OF assms(1-3)]
  have na: "ks_Status (h' r) \<noteq> SessionStarting \<and> ks_Status (h' r) \<noteq> SessionConnected" if g: "sq_Get s' i = Some r" for i r
  proof -
    have "i \<in> sr_id ` set found" using re(1) assms(4) g by (force simp: sq_Get_def dom_def)
    then obtain x where "x \<in> set found" "i = sr_id x" by blast
    then have "h' r = (session_of x)\<lparr>ks_Status := ended (sr_status x)\<rparr>" using re(2)[of x] assms(4) g by (auto simp: sq_Get_def)
    then show ?thesis by (simp add: ended_def)
  qed
  have "ks_Status (h' r) = SessionDisconnected \<or> ks_Status (h' r) = SessionError" if "sq_Get s' i = Some r" for i r
    using na[OF that] by (cases "ks_Status (h' r)") simp_all
  then have "sq_FindByServer visit2 h' s' name = None"
    using sqlite.lookup_None_iff[OF assms(5)] by (auto simp: active_for_def)
  then show ?thesis using na by (auto simp: active_def)
qed

section \<open>The audit log\<close>

text \<open>The table, oldest row first. Ids are assigned by \<open>AUTOINCREMENT\<close>, timestamps by the database; the details of an entry
  are left out.\<close>

record audit_row =
  au_id :: int
  au_timestamp :: string
  au_entry :: AuditEntry

record audit_db =
  ad_rows :: "audit_row list"
  ad_next :: int

record AuditFilter =
  af_EventType :: string
  af_ServerName :: string
  af_UserEmail :: string
  af_Limit :: int
  af_Offset :: int

definition LogAudit :: "bool \<Rightarrow> string \<Rightarrow> AuditEntry \<Rightarrow> audit_db \<Rightarrow> bool \<times> audit_db" where
  "LogAudit ok ts e db =
     (ok, if ok then db\<lparr>ad_rows := ad_rows db @ [\<lparr>au_id = ad_next db, au_timestamp = ts, au_entry = e\<rparr>], ad_next := ad_next db + 1\<rparr> else db)"

definition audit_matches :: "AuditFilter \<Rightarrow> audit_row \<Rightarrow> bool" where
  "audit_matches f r \<longleftrightarrow> (af_EventType f = '''' \<or> ae_EventType (au_entry r) = af_EventType f)
     \<and> (af_ServerName f = '''' \<or> ae_ServerName (au_entry r) = af_ServerName f)
     \<and> (af_UserEmail f = '''' \<or> ae_UserEmail (au_entry r) = af_UserEmail f)"

definition QueryAudit :: "AuditFilter \<Rightarrow> audit_db \<Rightarrow> audit_row list" where
  "QueryAudit f db =
     (let found = rev (sort_key au_id (filter (audit_matches f) (ad_rows db)));
          lim = (if af_Limit f \<le> 0 then 100 else af_Limit f);
          rest = (if af_Offset f > 0 then drop (nat (af_Offset f)) found else found)
      in take (nat lim) rest)"

text \<open>\<open>older\<close> compares a timestamp with the cutoff, as the database compares the texts.\<close>

definition PurgeOldAuditEntries :: "bool \<Rightarrow> (string \<Rightarrow> bool) \<Rightarrow> audit_db \<Rightarrow> (int \<times> audit_db) option" where
  "PurgeOldAuditEntries ok older db =
     (if ok then Some (int (length (filter (\<lambda>r. older (au_timestamp r)) (ad_rows db))),
                       db\<lparr>ad_rows := filter (\<lambda>r. \<not> older (au_timestamp r)) (ad_rows db)\<rparr>)
      else None)"

definition query_int :: "string \<Rightarrow> int" where
  "query_int v = (if v = '''' then 0 else case scan_int v of None \<Rightarrow> 0 | Some n \<Rightarrow> n)"

text \<open>\<open>GetAuditLog\<close>: \<open>q\<close> gives the parameters of the query, empty when missing, \<open>ok\<close> whether the statement succeeds.\<close>

definition GetAuditLog :: "bool \<Rightarrow> (string \<Rightarrow> string) \<Rightarrow> audit_db option \<Rightarrow> (nat \<times> string) + audit_row list" where
  "GetAuditLog ok q db =
     (case db of
        None \<Rightarrow> Inl (404, ''audit log not enabled'')
      | Some db \<Rightarrow>
          if ok then Inr (QueryAudit \<lparr>af_EventType = q ''event_type'', af_ServerName = q ''server_name'', af_UserEmail = q ''user_email'',
                            af_Limit = query_int (q ''limit''), af_Offset = query_int (q ''offset'')\<rparr> db)
          else Inl (500, ''failed to query audit log''))"

datatype audit_op = AuLog bool string AuditEntry | AuPurge bool "string \<Rightarrow> bool"

fun audit_apply :: "audit_op \<Rightarrow> audit_db \<Rightarrow> audit_db" where
  "audit_apply (AuLog ok ts e) db = snd (LogAudit ok ts e db)"
| "audit_apply (AuPurge ok older) db = (case PurgeOldAuditEntries ok older db of None \<Rightarrow> db | Some (_, db') \<Rightarrow> db')"

definition empty_audit :: audit_db where
  "empty_audit = \<lparr>ad_rows = [], ad_next = 1\<rparr>"

definition audit_ok :: "audit_db \<Rightarrow> bool" where
  "audit_ok db \<longleftrightarrow> sorted_wrt (<) (map au_id (ad_rows db)) \<and> (\<forall>r\<in>set (ad_rows db). au_id r < ad_next db)"

lemma audit_apply_ok: "audit_ok db \<Longrightarrow> audit_ok (audit_apply x db)"
  by (cases x) (auto simp: audit_ok_def LogAudit_def PurgeOldAuditEntries_def sorted_wrt_append sorted_wrt_map sorted_wrt_filter
      split: option.split if_split_asm)

lemma audit_reachable_ok: "audit_ok (fold audit_apply ops empty_audit)"
proof -
  have "audit_ok (fold audit_apply ops db)" if "audit_ok db" for db
    using that by (induction ops arbitrary: db) (simp_all add: audit_apply_ok)
  then show ?thesis by (simp add: audit_ok_def empty_audit_def)
qed

lemma found_rows:
  assumes "audit_ok db"
  shows "sort_key au_id (filter P (ad_rows db)) = filter P (ad_rows db)"
proof (rule sort_key_id_if_sorted)
  have "sorted (map au_id (ad_rows db))" using assms by (auto simp: audit_ok_def intro: strict_sorted_imp_sorted)
  then show "sorted (map au_id (filter P (ad_rows db)))" by (rule sorted_filter)
qed

lemma pages: "concat (map (\<lambda>p. take l (drop (p * l) xs)) [0..<n]) = take (n * l) xs"
proof (induction n)
  case (Suc n)
  then show ?case using take_add[of "n * l" l xs] by (simp add: add.commute)
qed simp

text \<open>The audit log can be read page by page: in every state of the log, after any inserts, failures and purges, pages of any
  positive size put together are the matching entries, each once, the latest first.\<close>

theorem audit_pages:
  assumes "0 < l" "length (ad_rows (fold audit_apply ops empty_audit)) \<le> n * nat l"
  shows "concat (map (\<lambda>p. QueryAudit (f\<lparr>af_Limit := l, af_Offset := int p * l\<rparr>) (fold audit_apply ops empty_audit)) [0..<n])
       = rev (filter (audit_matches f) (ad_rows (fold audit_apply ops empty_audit)))"
proof -
  let ?db = "fold audit_apply ops empty_audit"
  let ?xs = "rev (filter (audit_matches f) (ad_rows ?db))"
  have m: "audit_matches (f\<lparr>af_Limit := a, af_Offset := b\<rparr>) = audit_matches f" for a b by (rule ext) (simp add: audit_matches_def)
  have "QueryAudit (f\<lparr>af_Limit := l, af_Offset := int p * l\<rparr>) ?db = take (nat l) (drop (p * nat l) ?xs)" for p
    using assms(1) by (cases "p = 0") (simp_all add: QueryAudit_def m found_rows[OF audit_reachable_ok] nat_mult_distrib)
  then have "concat (map (\<lambda>p. QueryAudit (f\<lparr>af_Limit := l, af_Offset := int p * l\<rparr>) ?db) [0..<n]) = take (n * nat l) ?xs"
    using pages[of "nat l" ?xs n] by simp
  also have "\<dots> = ?xs" using assms(2) by (simp add: order.trans[OF length_filter_le])
  finally show ?thesis .
qed

section \<open>Examples\<close>

theorem migrations_resume_witness:
  "fst (migrate True (\<lambda>_. True) (fold (\<lambda>(ready, ok) db. snd (migrate ready ok db)) [(True, \<lambda>v. v < 3)] empty_schema))"
  using migrations_resume[of "[(True, \<lambda>v. v < 3)]"] by simp

definition stored_ops :: "sq_op list" where
  "stored_ops = [SqSet (sample_session ''a'' ''srv'' SessionConnected), SqSet (sample_session ''a'' ''srv'' SessionStarting)]"

lemma stored_rows: "rows_after stored_ops = [''a'' \<mapsto> row_of (sample_session ''a'' ''srv'' SessionConnected)]"
  by (rule ext) (auto simp: rows_remembered stored_ops_def sample_session_def row_of_def simp del: rows_after.simps)


theorem restart_frees_servers_witness:
  "\<exists>h' s'. NewSQLiteSessionStore (\<lambda>_. False) [row_of (sample_session ''a'' ''srv'' SessionConnected)] [''a''] sample_heap 7 (rows_after stored_ops) = (h', s')
     \<and> sq_FindByServer [''a''] h' s' ''srv'' = None"
proof -
  let ?x = "row_of (sample_session ''a'' ''srv'' SessionConnected)"
  obtain h' s' where n: "NewSQLiteSessionStore (\<lambda>_. False) [?x] [''a''] sample_heap 7 (rows_after stored_ops) = (h', s')" by force
  have i: "sr_id ?x = ''a''" by (simp add: row_of_def sample_session_def)
  have "dom (ss_cache s') = {''a''}" using reopened(1)[OF n] i by simp
  then have "sq_visits [''a''] s'" by (simp add: sq_visits_def enumerates_def)
  from restart_frees_servers[OF n _ _ _ this] i show ?thesis using n by auto
qed

definition login_entry :: AuditEntry where
  "login_entry = \<lparr>ae_EventType = ''login'', ae_UserEmail = ''a@b'', ae_ServerName = '''', ae_SessionID = '''', ae_RemoteAddr = ''1.2.3.4''\<rparr>"

theorem audit_pages_witness:
  "concat (map (\<lambda>p. QueryAudit \<lparr>af_EventType = '''', af_ServerName = '''', af_UserEmail = '''', af_Limit = 2, af_Offset = int p * 2\<rparr>
      (fold audit_apply [AuLog True ''t'' login_entry, AuLog False ''t'' login_entry, AuLog True ''u'' login_entry, AuPurge True (\<lambda>t. t = ''x''), AuLog True ''v'' login_entry] empty_audit)) [0..<2])
   = [\<lparr>au_id = 3, au_timestamp = ''v'', au_entry = login_entry\<rparr>, \<lparr>au_id = 2, au_timestamp = ''u'', au_entry = login_entry\<rparr>, \<lparr>au_id = 1, au_timestamp = ''t'', au_entry = login_entry\<rparr>]"
  using audit_pages[of 2 "[AuLog True ''t'' login_entry, AuLog False ''t'' login_entry, AuLog True ''u'' login_entry, AuPurge True (\<lambda>t. t = ''x''), AuLog True ''v'' login_entry]" 2
      "\<lparr>af_EventType = '''', af_ServerName = '''', af_UserEmail = '''', af_Limit = 0, af_Offset = 0\<rparr>"]
  by (simp add: empty_audit_def LogAudit_def PurgeOldAuditEntries_def audit_matches_def)

end
