(* ===== verification/Sha256.thy ===== *)
theory Sha256
  imports Vnc
begin

text \<open>
  SHA-256 (FIPS 180-4), the hash of \<open>crypto/sha256\<close> that the ISO library records of every file
  (\<open>src/internal/api/iso_handlers.go\<close>). \<open>sha256 xs\<close> is what \<open>Sum\<close> gives when the bytes \<open>xs\<close> have been written
  to the hasher, in whatever pieces.
\<close>

unbundle bit_operations_syntax

definition sha_k :: "u32 list" where
  "sha_k =
     [1116352408, 1899447441, 3049323471, 3921009573, 961987163, 1508970993, 2453635748, 2870763221,
      3624381080, 310598401, 607225278, 1426881987, 1925078388, 2162078206, 2614888103, 3248222580,
      3835390401, 4022224774, 264347078, 604807628, 770255983, 1249150122, 1555081692, 1996064986,
      2554220882, 2821834349, 2952996808, 3210313671, 3336571891, 3584528711, 113926993, 338241895,
      666307205, 773529912, 1294757372, 1396182291, 1695183700, 1986661051, 2177026350, 2456956037,
      2730485921, 2820302411, 3259730800, 3345764771, 3516065817, 3600352804, 4094571909, 275423344,
      430227734, 506948616, 659060556, 883997877, 958139571, 1322822218, 1537002063, 1747873779,
      1955562222, 2024104815, 2227730452, 2361852424, 2428436474, 2756734187, 3204031479, 3329325298]"

definition sha_init :: "u32 list" where
  "sha_init = [1779033703, 3144134277, 1013904242, 2773480762, 1359893119, 2600822924, 528734635, 1541459225]"

definition rotr :: "nat \<Rightarrow> u32 \<Rightarrow> u32" where
  "rotr n w = drop_bit n w OR push_bit (32 - n) w"

text \<open>The padded message: a one bit, zeros and the length in bits as a 64-bit number.\<close>

definition be64 :: "u64 \<Rightarrow> bytes" where
  "be64 w = map (\<lambda>i. ucast (drop_bit (8 * (7 - i)) w)) [0..<8]"

definition sha_pad :: "bytes \<Rightarrow> bytes" where
  "sha_pad xs = xs @ [0x80] @ replicate ((119 - length xs mod 64) mod 64) 0 @ be64 (of_nat (8 * length xs))"

fun words_of :: "bytes \<Rightarrow> u32 list" where
  "words_of (a # b # c # d # xs) = get_be32 a b c d # words_of xs"
| "words_of xs = []"

text \<open>The message schedule, kept as the last 16 words, newest first.\<close>

definition sha_next :: "u32 list \<Rightarrow> u32" where
  "sha_next ws =
     (let s0 = rotr 7 (ws ! 14) XOR rotr 18 (ws ! 14) XOR drop_bit 3 (ws ! 14);
          s1 = rotr 17 (ws ! 1) XOR rotr 19 (ws ! 1) XOR drop_bit 10 (ws ! 1)
      in ws ! 15 + s0 + ws ! 6 + s1)"

fun sha_extend :: "nat \<Rightarrow> u32 list \<Rightarrow> u32 list" where
  "sha_extend 0 ws = []"
| "sha_extend (Suc n) ws = (let w = sha_next ws in w # sha_extend n (w # butlast ws))"

definition sha_schedule :: "u32 list \<Rightarrow> u32 list" where
  "sha_schedule block = block @ sha_extend 48 (rev block)"

definition sha_round :: "u32 \<times> u32 \<Rightarrow> u32 list \<Rightarrow> u32 list" where
  "sha_round kw st =
     (case st of
        [a, b, c, d, e, f, g, h] \<Rightarrow>
          (let s1 = rotr 6 e XOR rotr 11 e XOR rotr 25 e;
               ch = (e AND f) XOR (NOT e AND g);
               t1 = h + s1 + ch + fst kw + snd kw;
               s0 = rotr 2 a XOR rotr 13 a XOR rotr 22 a;
               maj = (a AND b) XOR (a AND c) XOR (b AND c)
           in [t1 + (s0 + maj), a, b, c, d + t1, e, f, g])
      | _ \<Rightarrow> st)"

definition sha_compress :: "u32 list \<Rightarrow> u32 list \<Rightarrow> u32 list" where
  "sha_compress block st = map2 (+) st (fold sha_round (zip sha_k (sha_schedule block)) st)"

function sha_blocks :: "u32 list \<Rightarrow> u32 list \<Rightarrow> u32 list" where
  "sha_blocks ws st = (if length ws < 16 then st else sha_blocks (drop 16 ws) (sha_compress (take 16 ws) st))"
  by auto
termination by (relation "measure (length o fst)") auto

declare sha_blocks.simps [simp del]
declare sha_blocks.simps [code]

definition sha256 :: "bytes \<Rightarrow> bytes" where
  "sha256 xs = concat (map be32 (sha_blocks (words_of (sha_pad xs)) sha_init))"

lemma length_sha_round [simp]: "length st = 8 \<Longrightarrow> length (sha_round kw st) = 8"
  by (auto simp: sha_round_def Let_def split: list.split)

lemma length_sha_fold [simp]: "length st = 8 \<Longrightarrow> length (fold sha_round kws st) = 8"
  by (induction kws arbitrary: st) simp_all

lemma length_sha_blocks: "length st = 8 \<Longrightarrow> length (sha_blocks ws st) = 8"
proof (induction ws st rule: sha_blocks.induct)
  case (1 ws st)
  then show ?case by (subst sha_blocks.simps) (simp add: sha_compress_def)
qed

lemma length_sha256 [simp]: "length (sha256 xs) = 32"
  using length_sha_blocks[of sha_init "words_of (sha_pad xs)"]
  by (simp add: sha256_def sha_init_def be32_def length_concat comp_def sum_list_triv)

end
