(* ===== verification/Isos.thy ===== *)
theory Isos
  imports Sessions Sha256 "HOL-Library.List_Lexorder" "HOL-Library.Char_ord"
begin

text \<open>
  The ISO library: the handlers of \<open>src/internal/api/iso_handlers.go\<close> and the table of \<open>src/internal/store/isos.go\<close>.

  The library is the rows of the table, the files on the disk and the downloads in progress. A file is an inode that
  its directory entry names: a handler that has opened a file goes on writing to it when the entry is removed. An
  upload and a download are each a beginning, up to the creation of the file, and an end; the body of the request
  arrives between them, and other handlers run. Operation \<open>n\<close> on the table (on the disk) fails when \<open>li_dbfail n\<close>
  (\<open>li_iofail n\<close>). Sizes are 64-bit integers.
\<close>

section \<open>Paths\<close>

text \<open>\<open>strings.Split(s, "/")\<close>\<close>

fun split_slash :: "string \<Rightarrow> string list" where
  "split_slash [] = [[]]"
| "split_slash (c # cs) =
     (if c = CHR ''/'' then [] # split_slash cs
      else case split_slash cs of [] \<Rightarrow> [[c]] | w # ws \<Rightarrow> (c # w) # ws)"

definition is_rooted :: "string \<Rightarrow> bool" where
  "is_rooted p \<longleftrightarrow> p \<noteq> [] \<and> p ! 0 = CHR ''/''"

text \<open>The elements of a path that \<open>filepath.Clean\<close> keeps.\<close>

definition clean_step :: "bool \<Rightarrow> string list \<Rightarrow> string \<Rightarrow> string list" where
  "clean_step rooted acc e =
     (if e = '''' \<or> e = ''.'' then acc
      else if e = ''..'' then
        (if acc \<noteq> [] \<and> last acc \<noteq> ''..'' then butlast acc else if rooted then acc else acc @ [e])
      else acc @ [e])"

definition path_elems :: "string \<Rightarrow> string list" where
  "path_elems p = foldl (clean_step (is_rooted p)) [] (split_slash p)"

fun join_slash :: "string list \<Rightarrow> string" where
  "join_slash [] = ''''"
| "join_slash [e] = e"
| "join_slash (e # es) = e @ ''/'' @ join_slash es"

definition path_clean :: "string \<Rightarrow> string" where
  "path_clean p =
     (let out = (if is_rooted p then ''/'' else '''') @ join_slash (path_elems p)
      in if out = '''' then ''.'' else out)"

definition path_join :: "string \<Rightarrow> string \<Rightarrow> string" where
  "path_join dir f =
     (if dir = '''' \<and> f = '''' then ''''
      else if dir = '''' then path_clean f
      else if f = '''' then path_clean dir
      else path_clean (dir @ ''/'' @ f))"

section \<open>State\<close>

record ISOFile =
  if_ID :: int
  if_Filename :: string
  if_SizeBytes :: int
  if_SHA256 :: string
  if_UploadedBy :: string
  if_UploadedAt :: int
  if_LastUsed :: "int option"

record ISODownload =
  dl_ID :: string
  dl_Filename :: string
  dl_URL :: string
  dl_TotalBytes :: int
  dl_Downloaded :: int
  dl_Status :: string
  dl_Error :: string
  dl_StartedAt :: int

record Library =
  li_Settings :: Settings
  li_db :: "ISOFile list option"
  li_nextid :: int
  li_dbops :: nat
  li_dbfail :: "nat \<Rightarrow> bool"
  li_disk :: "string \<rightharpoonup> nat"
  li_inodes :: "nat \<Rightarrow> bytes"
  li_nextino :: nat
  li_ioops :: nat
  li_iofail :: "nat \<Rightarrow> bool"
  li_Downloads :: "(string \<times> ISODownload) list"
  li_audit :: "AuditEntry list option"

datatype iso_response =
    IsoError nat string
  | IsoListing "ISOFile list" int int
  | IsoRecord nat ISOFile
  | IsoBasic nat string int string
  | IsoOk
  | IsoContent "bytes option"
  | IsoDownload nat ISODownload
  | IsoDownloads "ISODownload list"
  | IsoMounted string

text \<open>\<open>int64\<close> arithmetic\<close>

definition i64 :: "int \<Rightarrow> int" where
  "i64 n = (n + 2 ^ 63) mod 2 ^ 64 - 2 ^ 63"

definition max_bytes :: "Library \<Rightarrow> int" where
  "max_bytes l = i64 (i64 (i64 (st_ISOMaxSizeGB (li_Settings l) * 1024) * 1024) * 1024)"

definition total_size :: "ISOFile list \<Rightarrow> int" where
  "total_size rows = fold (\<lambda>r t. i64 (t + if_SizeBytes r)) rows 0"

section \<open>The table\<close>

text \<open>An operation on the table that fails leaves it alone. The rows are kept by name, which is unique.\<close>

definition db_op :: "Library \<Rightarrow> bool \<times> Library" where
  "db_op l = (\<not> li_dbfail l (li_dbops l), l\<lparr>li_dbops := li_dbops l + 1\<rparr>)"

definition rows :: "Library \<Rightarrow> ISOFile list" where
  "rows l = (case li_db l of None \<Rightarrow> [] | Some rs \<Rightarrow> rs)"

definition find_row :: "string \<Rightarrow> Library \<Rightarrow> ISOFile option" where
  "find_row f l = List.find (\<lambda>r. if_Filename r = f) (rows l)"

definition GetISO :: "string \<Rightarrow> Library \<Rightarrow> ISOFile option option \<times> Library" where
  "GetISO f l = (case db_op l of (ok, l) \<Rightarrow> (if ok then Some (find_row f l) else None, l))"

definition db_ListISOs :: "Library \<Rightarrow> ISOFile list option \<times> Library" where
  "db_ListISOs l = (case db_op l of (ok, l) \<Rightarrow> (if ok then Some (sort_key if_Filename (rows l)) else None, l))"

definition InsertISO :: "int \<Rightarrow> string \<Rightarrow> int \<Rightarrow> string \<Rightarrow> string \<Rightarrow> Library \<Rightarrow> bool \<times> Library" where
  "InsertISO now f sz sha user l =
     (case db_op l of
        (ok, l) \<Rightarrow>
          if ok \<and> find_row f l = None then
            (True, l\<lparr>li_db := Some (rows l @ [\<lparr>if_ID = li_nextid l, if_Filename = f, if_SizeBytes = sz, if_SHA256 = sha,
                       if_UploadedBy = user, if_UploadedAt = now, if_LastUsed = None\<rparr>]), li_nextid := li_nextid l + 1\<rparr>)
          else (False, l))"

definition db_DeleteISO :: "string \<Rightarrow> Library \<Rightarrow> bool \<times> Library" where
  "db_DeleteISO f l =
     (case db_op l of
        (ok, l) \<Rightarrow> (ok, if ok then l\<lparr>li_db := Some (filter (\<lambda>r. if_Filename r \<noteq> f) (rows l))\<rparr> else l))"

definition TouchISOLastUsed :: "int \<Rightarrow> string \<Rightarrow> Library \<Rightarrow> bool \<times> Library" where
  "TouchISOLastUsed now f l =
     (case db_op l of
        (ok, l) \<Rightarrow> (ok, if ok then l\<lparr>li_db := Some (map (\<lambda>r. if if_Filename r = f then r\<lparr>if_LastUsed := Some now\<rparr> else r) (rows l))\<rparr>
                     else l))"

definition ListUnusedISOs :: "int \<Rightarrow> Library \<Rightarrow> ISOFile list option \<times> Library" where
  "ListUnusedISOs cutoff l =
     (case db_op l of
        (ok, l) \<Rightarrow>
          (if ok then Some (sort_key if_Filename (filter (\<lambda>r. case if_LastUsed r of
                None \<Rightarrow> if_UploadedAt r < cutoff | Some t \<Rightarrow> t < cutoff) (rows l))) else None, l))"

section \<open>The disk\<close>

definition io_op :: "Library \<Rightarrow> bool \<times> Library" where
  "io_op l = (\<not> li_iofail l (li_ioops l), l\<lparr>li_ioops := li_ioops l + 1\<rparr>)"

datatype removal = Removed | NotThere | NotRemoved

definition os_Remove :: "string \<Rightarrow> Library \<Rightarrow> removal \<times> Library" where
  "os_Remove path l =
     (case io_op l of
        (ok, l) \<Rightarrow>
          if \<not> ok then (NotRemoved, l)
          else if li_disk l path = None then (NotThere, l)
          else (Removed, l\<lparr>li_disk := (li_disk l)(path := None)\<rparr>))"

text \<open>\<open>os.OpenFile\<close> with \<open>O_CREATE|O_EXCL\<close>\<close>

datatype open_result = Opened nat | Exists | NotOpened

definition os_Create :: "string \<Rightarrow> Library \<Rightarrow> open_result \<times> Library" where
  "os_Create path l =
     (case io_op l of
        (ok, l) \<Rightarrow>
          if \<not> ok then (NotOpened, l)
          else if li_disk l path \<noteq> None then (Exists, l)
          else (Opened (li_nextino l), l\<lparr>li_disk := (li_disk l)(path \<mapsto> li_nextino l),
                 li_inodes := (li_inodes l)(li_nextino l := []), li_nextino := li_nextino l + 1\<rparr>))"

text \<open>\<open>io.Copy\<close> to an open file and \<open>Close\<close>: the error, if there is one, comes after \<open>n\<close> bytes.\<close>

definition copied :: "nat option \<Rightarrow> bytes \<Rightarrow> bytes" where
  "copied stop content = (case stop of None \<Rightarrow> content | Some n \<Rightarrow> take n content)"

definition io_Copy :: "nat \<Rightarrow> bytes \<Rightarrow> nat option \<Rightarrow> Library \<Rightarrow> Library" where
  "io_Copy ino content stop l = l\<lparr>li_inodes := (li_inodes l)(ino := li_inodes l ino @ copied stop content)\<rparr>"

definition file_at :: "string \<Rightarrow> Library \<Rightarrow> bytes option" where
  "file_at path l = map_option (li_inodes l) (li_disk l path)"

definition lib_audit :: "string \<Rightarrow> string \<Rightarrow> string \<Rightarrow> string \<Rightarrow> string \<Rightarrow> Library \<Rightarrow> Library" where
  "lib_audit ev user name i addr l =
     l\<lparr>li_audit := map_option (\<lambda>es. es @ [\<lparr>ae_EventType = ev, ae_UserEmail = user, ae_ServerName = name,
        ae_SessionID = i, ae_RemoteAddr = addr\<rparr>]) (li_audit l)\<rparr>"

section \<open>Names\<close>

text \<open>The names that \<open>validISOFilename\<close> matches.\<close>

definition iso_char :: "char \<Rightarrow> bool" where
  "iso_char c \<longleftrightarrow> (let n = of_char c :: nat in
     (97 \<le> n \<and> n \<le> 122) \<or> (65 \<le> n \<and> n \<le> 90) \<or> (48 \<le> n \<and> n \<le> 57) \<or> n \<in> {46, 95, 45})"

definition has_suffix :: "string \<Rightarrow> string \<Rightarrow> bool" where
  "has_suffix suf s \<longleftrightarrow> length suf \<le> length s \<and> drop (length s - length suf) s = suf"

definition sanitizeISOFilename :: "string \<Rightarrow> string option" where
  "sanitizeISOFilename name =
     (if name = '''' then Some ''filename is required''
      else if length name > 255 then Some ''filename too long (max 255 characters)''
      else if contains ''..'' name then Some (''filename must not contain '' @ [CHR 0x27] @ ''..'' @ [CHR 0x27])
      else if \<not> list_all iso_char name then
        Some ''filename contains invalid characters (only a-z, A-Z, 0-9, '.', '_', '-' allowed)''
      else if \<not> has_suffix ''.iso'' (to_lower name) then Some ''filename must end with .iso''
      else None)"

definition dest_path :: "string \<Rightarrow> Library \<Rightarrow> string" where
  "dest_path f l = path_join (st_ISODir (li_Settings l)) f"

definition quoted :: "string \<Rightarrow> string" where
  "quoted s = [CHR 0x22] @ s @ [CHR 0x22]"

section \<open>Handlers\<close>

abbreviation no_db :: iso_response where
  "no_db \<equiv> IsoError 500 ''database not available''"

abbreviation db_error :: iso_response where
  "db_error \<equiv> IsoError 500 ''database error''"

definition ListISOs :: "Library \<Rightarrow> iso_response \<times> Library" where
  "ListISOs l =
     (if li_db l = None then (no_db, l)
      else case db_ListISOs l of
        (None, l) \<Rightarrow> (IsoError 500 ''failed to list ISOs'', l)
      | (Some isos, l) \<Rightarrow> (IsoListing isos (total_size isos) (max_bytes l), l))"

text \<open>What \<open>ParseMultipartForm\<close> and \<open>FormFile\<close> find: an error, no file, or a file with its name, the size in its
  header and its content.\<close>

datatype upload_form = FormError string | FormNoFile | FormFile string int bytes

record upload =
  up_filename :: string
  up_path :: string
  up_inode :: nat
  up_total :: int
  up_max :: int

definition over_limit :: "string \<Rightarrow> Library \<Rightarrow> iso_response" where
  "over_limit what l = IsoError 413 (what @ show_int (st_ISOMaxSizeGB (li_Settings l)) @ '' GB'')"

text \<open>\<open>UploadISO\<close> up to the creation of the file.\<close>

definition upload_begin :: "upload_form \<Rightarrow> Library \<Rightarrow> (iso_response + upload) \<times> Library" where
  "upload_begin form l =
     (if li_db l = None then (Inl no_db, l)
      else case form of
        FormError e \<Rightarrow> (Inl (IsoError 400 (''failed to parse multipart form: '' @ e)), l)
      | FormNoFile \<Rightarrow> (Inl (IsoError 400 (''missing 'file' field in multipart form'')), l)
      | FormFile filename sz _ \<Rightarrow>
          (case sanitizeISOFilename filename of
             Some e \<Rightarrow> (Inl (IsoError 400 e), l)
           | None \<Rightarrow>
               (case GetISO filename l of
                  (None, l) \<Rightarrow> (Inl db_error, l)
                | (Some (Some _), l) \<Rightarrow> (Inl (IsoError 409 (''ISO '' @ quoted filename @ '' already exists'')), l)
                | (Some None, l) \<Rightarrow>
                    (case db_ListISOs l of
                       (None, l) \<Rightarrow> (Inl db_error, l)
                     | (Some isos, l) \<Rightarrow>
                         (let total = total_size isos; mx = max_bytes l; path = dest_path filename l in
                          if sz > 0 \<and> i64 (total + sz) > mx then
                            (Inl (over_limit ''upload would exceed total ISO storage limit of '' l), l)
                          else case os_Create path l of
                            (Exists, l) \<Rightarrow> (Inl (IsoError 409 (''ISO file '' @ quoted filename @ '' already exists on disk'')), l)
                          | (NotOpened, l) \<Rightarrow> (Inl (IsoError 500 ''failed to create file''), l)
                          | (Opened ino, l) \<Rightarrow>
                              (Inr \<lparr>up_filename = filename, up_path = path, up_inode = ino, up_total = total, up_max = mx\<rparr>, l))))))"

text \<open>The rest of it, when the body has arrived.\<close>

definition upload_finish :: "int \<Rightarrow> caller \<Rightarrow> bytes \<Rightarrow> nat option \<Rightarrow> upload \<Rightarrow> Library \<Rightarrow> iso_response \<times> Library" where
  "upload_finish now cl content stop u l =
     (let l = io_Copy (up_inode u) content stop l;
          written = int (length (copied stop content));
          sha = hex_encode (sha256 (copied stop content)) in
      if stop \<noteq> None then
        (case os_Remove (up_path u) l of (_, l) \<Rightarrow> (IsoError 500 ''failed to write file'', l))
      else if i64 (up_total u + written) > up_max u then
        (case os_Remove (up_path u) l of
           (_, l) \<Rightarrow> (over_limit ''upload exceeds total ISO storage limit of '' l, l))
      else case InsertISO now (up_filename u) written sha (email_of cl) l of
        (False, l) \<Rightarrow> (case os_Remove (up_path u) l of (_, l) \<Rightarrow> (IsoError 500 ''failed to record ISO metadata'', l))
      | (True, l) \<Rightarrow>
          (case GetISO (up_filename u) l of
             (Some (Some f), l) \<Rightarrow> (IsoRecord 201 f, lib_audit ''iso.upload'' (email_of cl) '''' '''' (cl_addr cl) l)
           | (_, l) \<Rightarrow> (IsoBasic 201 (up_filename u) written sha, l)))"

definition form_content :: "upload_form \<Rightarrow> bytes" where
  "form_content form = (case form of FormFile _ _ content \<Rightarrow> content | _ \<Rightarrow> [])"

definition UploadISO :: "int \<Rightarrow> caller \<Rightarrow> upload_form \<Rightarrow> nat option \<Rightarrow> Library \<Rightarrow> iso_response \<times> Library" where
  "UploadISO now cl form stop l =
     (case upload_begin form l of
        (Inl resp, l) \<Rightarrow> (resp, l)
      | (Inr u, l) \<Rightarrow> upload_finish now cl (form_content form) stop u l)"

text \<open>The handlers that name an ISO start alike: the name is checked and the row is looked up.\<close>

definition with_iso :: "string \<Rightarrow> string \<Rightarrow> (Library \<Rightarrow> iso_response \<times> Library) \<Rightarrow> Library \<Rightarrow> iso_response \<times> Library" where
  "with_iso filename missing k l =
     (case sanitizeISOFilename filename of
        Some e \<Rightarrow> (IsoError 400 e, l)
      | None \<Rightarrow>
          (case GetISO filename l of
             (None, l) \<Rightarrow> (db_error, l)
           | (Some None, l) \<Rightarrow> (IsoError 404 (''ISO '' @ quoted filename @ missing), l)
           | (Some (Some _), l) \<Rightarrow> k l))"

definition DeleteISO :: "caller \<Rightarrow> string \<Rightarrow> Library \<Rightarrow> iso_response \<times> Library" where
  "DeleteISO cl filename l =
     (if li_db l = None then (no_db, l)
      else with_iso filename '' not found'' (\<lambda>l.
        case os_Remove (dest_path filename l) l of
          (NotRemoved, l) \<Rightarrow> (IsoError 500 ''failed to remove file from disk'', l)
        | (_, l) \<Rightarrow>
            (case db_DeleteISO filename l of
               (False, l) \<Rightarrow> (IsoError 500 ''failed to remove ISO from database'', l)
             | (True, l) \<Rightarrow> (IsoOk, lib_audit ''iso.delete'' (email_of cl) '''' '''' (cl_addr cl) l))) l)"

text \<open>\<open>http.ServeFile\<close> answers with the content of the file, or with its own error when there is none.\<close>

definition DownloadISO :: "string \<Rightarrow> Library \<Rightarrow> iso_response \<times> Library" where
  "DownloadISO filename l =
     (if li_db l = None then (no_db, l)
      else with_iso filename '' not found'' (\<lambda>l. (IsoContent (file_at (dest_path filename l) l), l)) l)"

section \<open>Downloads from a URL\<close>

definition upd_dl :: "string \<Rightarrow> (ISODownload \<Rightarrow> ISODownload) \<Rightarrow> Library \<Rightarrow> Library" where
  "upd_dl i f l = l\<lparr>li_Downloads := map (\<lambda>(j, d). (j, if j = i then f d else d)) (li_Downloads l)\<rparr>"

definition trim_slash :: "string \<Rightarrow> string" where
  "trim_slash s = rev (dropWhile (\<lambda>c. c = CHR ''/'') (rev s))"

text \<open>The decoded body is the URL and the file name; \<open>parse\<close> is what \<open>url.Parse\<close> makes of the URL: its scheme and
  path. The check for a download under way and the entry into the table of downloads are apart.\<close>

definition download_check ::
  "(string \<Rightarrow> (string \<times> string) option) \<Rightarrow> (string \<times> string) option \<Rightarrow> Library \<Rightarrow> (iso_response + string) \<times> Library" where
  "download_check parse body l =
     (if li_db l = None then (Inl no_db, l)
      else case body of
        None \<Rightarrow> (Inl (IsoError 400 ''invalid request body''), l)
      | Some (url, name) \<Rightarrow>
          if url = '''' then (Inl (IsoError 400 ''url is required''), l)
          else case parse url of
            None \<Rightarrow> (Inl (IsoError 400 ''invalid URL''), l)
          | Some (scheme, path) \<Rightarrow>
              if scheme \<noteq> ''http'' \<and> scheme \<noteq> ''https'' then
                (Inl (IsoError 400 ''only http and https URLs are supported''), l)
              else
                (let filename = (if name = '''' then last (split_slash (trim_slash path)) else name) in
                 if filename = '''' then
                   (Inl (IsoError 400 ''could not determine filename from URL; please provide a filename''), l)
                 else case sanitizeISOFilename filename of
                   Some e \<Rightarrow> (Inl (IsoError 400 e), l)
                 | None \<Rightarrow>
                     (case GetISO filename l of
                        (None, l) \<Rightarrow> (Inl db_error, l)
                      | (Some (Some _), l) \<Rightarrow> (Inl (IsoError 409 (''ISO '' @ quoted filename @ '' already exists'')), l)
                      | (Some None, l) \<Rightarrow>
                          if list_ex (\<lambda>(_, d). dl_Filename d = filename \<and> dl_Status d = ''downloading'') (li_Downloads l)
                          then (Inl (IsoError 409 (''download for '' @ quoted filename @ '' is already in progress'')), l)
                          else (Inr filename, l))))"

definition download_add :: "string \<Rightarrow> int \<Rightarrow> string \<Rightarrow> string \<Rightarrow> Library \<Rightarrow> ISODownload \<times> Library" where
  "download_add uid now url filename l =
     (let d = \<lparr>dl_ID = uid, dl_Filename = filename, dl_URL = url, dl_TotalBytes = 0, dl_Downloaded = 0,
                dl_Status = ''downloading'', dl_Error = '''', dl_StartedAt = now\<rparr>
      in (d, l\<lparr>li_Downloads := li_Downloads l @ [(uid, d)]\<rparr>))"

text \<open>\<open>DownloadISOFromURL\<close>: the response; on 202 the goroutine that performs the download is started.\<close>

definition DownloadISOFromURL ::
  "(string \<Rightarrow> (string \<times> string) option) \<Rightarrow> string \<Rightarrow> int \<Rightarrow> (string \<times> string) option \<Rightarrow> Library \<Rightarrow> iso_response \<times> Library" where
  "DownloadISOFromURL parse uid now body l =
     (case download_check parse body l of
        (Inl resp, l) \<Rightarrow> (resp, l)
      | (Inr filename, l) \<Rightarrow>
          (case download_add uid now (case body of None \<Rightarrow> '''' | Some (url, _) \<Rightarrow> url) filename l of
             (d, l) \<Rightarrow> (IsoDownload 202 d, l)))"

text \<open>The local function \<open>fail\<close> of \<open>performISODownload\<close>.\<close>

definition dl_fail :: "string \<Rightarrow> string \<Rightarrow> string \<Rightarrow> Library \<Rightarrow> Library" where
  "dl_fail i path msg l =
     (case os_Remove path l of (_, l) \<Rightarrow> upd_dl i (\<lambda>d. d\<lparr>dl_Status := ''error'', dl_Error := msg\<rparr>) l)"

text \<open>What \<open>http.Get\<close> comes to: an error, a status other than 200 with its text, or a body with the length it
  announces, which is not positive when it announces none.\<close>

datatype http_get = GetFailed string | GetStatus nat string | GetBody int

text \<open>\<open>performISODownload\<close> for the download \<open>d\<close>, up to the creation of the file: the inode and the total of the
  sizes, if it gets that far.\<close>

definition perform_begin :: "ISODownload \<Rightarrow> http_get \<Rightarrow> Library \<Rightarrow> (nat \<times> int) option \<times> Library" where
  "perform_begin d get l =
     (let i = dl_ID d; path = dest_path (dl_Filename d) l in
      case get of
        GetFailed e \<Rightarrow> (None, dl_fail i path (''HTTP request failed: '' @ e) l)
      | GetStatus code st \<Rightarrow> (None, dl_fail i path (''remote server returned '' @ show_int (int code) @ '' '' @ st) l)
      | GetBody len \<Rightarrow>
          (let l = (if len > 0 then upd_dl i (\<lambda>d. d\<lparr>dl_TotalBytes := len\<rparr>) l else l) in
           case db_ListISOs l of
             (None, l) \<Rightarrow> (None, dl_fail i path ''database error'' l)
           | (Some isos, l) \<Rightarrow>
               (let total = total_size isos; mx = max_bytes l in
                if len > 0 \<and> i64 (total + len) > mx then
                  (None, dl_fail i path (''download would exceed total ISO storage limit of ''
                           @ show_int (st_ISOMaxSizeGB (li_Settings l)) @ '' GB'') l)
                else
                  (let (stat_ok, l) = io_op l;
                       l = (if stat_ok \<and> li_disk l path \<noteq> None then
                              (case GetISO (dl_Filename d) l of
                                 (Some (Some _), l) \<Rightarrow> l
                               | (_, l) \<Rightarrow> snd (os_Remove path l))
                            else l)
                   in case os_Create path l of
                        (Exists, l) \<Rightarrow>
                          (None, dl_fail i path (''file '' @ quoted (dl_Filename d) @ '' already exists on disk'') l)
                      | (NotOpened, l) \<Rightarrow> (None, dl_fail i path ''failed to create file'' l)
                      | (Opened ino, l) \<Rightarrow> (Some (ino, total), l)))))"

text \<open>\<open>progressWriter\<close>: a write of \<open>n\<close> bytes that went through.\<close>

definition progress_write :: "string \<Rightarrow> nat \<Rightarrow> Library \<Rightarrow> Library" where
  "progress_write i n l = (if n > 0 then upd_dl i (\<lambda>d. d\<lparr>dl_Downloaded := i64 (dl_Downloaded d + int n)\<rparr>) l else l)"

text \<open>The rest, when the body has arrived in the pieces \<open>ns\<close>.\<close>

definition perform_finish ::
  "int \<Rightarrow> string \<Rightarrow> string \<Rightarrow> ISODownload \<Rightarrow> bytes \<Rightarrow> nat option \<Rightarrow> nat list \<Rightarrow> nat \<times> int \<Rightarrow> Library \<Rightarrow> Library" where
  "perform_finish now user addr d content stop ns it l =
     (let i = dl_ID d; path = dest_path (dl_Filename d) l;
          l = fold (progress_write i) ns (io_Copy (fst it) content stop l);
          written = int (length (copied stop content));
          sha = hex_encode (sha256 (copied stop content)) in
      if stop \<noteq> None then dl_fail i path ''download write failed'' l
      else if i64 (snd it + written) > max_bytes l then
        dl_fail i path (''download exceeds total ISO storage limit of '' @ show_int (st_ISOMaxSizeGB (li_Settings l)) @ '' GB'')
          (snd (os_Remove path l))
      else case InsertISO now (dl_Filename d) written sha user l of
        (False, l) \<Rightarrow> dl_fail i path ''failed to record ISO metadata'' (snd (os_Remove path l))
      | (True, l) \<Rightarrow>
          lib_audit ''iso.download_url'' user '''' '''' addr
            (upd_dl i (\<lambda>d. d\<lparr>dl_Status := ''complete'', dl_Downloaded := written\<rparr>) l))"

definition performISODownload ::
  "int \<Rightarrow> string \<Rightarrow> string \<Rightarrow> ISODownload \<Rightarrow> http_get \<Rightarrow> bytes \<Rightarrow> nat option \<Rightarrow> nat list \<Rightarrow> Library \<Rightarrow> Library" where
  "performISODownload now user addr d get content stop ns l =
     (case perform_begin d get l of
        (None, l) \<Rightarrow> l
      | (Some it, l) \<Rightarrow> perform_finish now user addr d content stop ns it l)"

text \<open>\<open>visit\<close> is the order in which \<open>range\<close> meets the downloads.\<close>

definition ListISODownloads :: "string list \<Rightarrow> Library \<Rightarrow> iso_response" where
  "ListISODownloads visit l = IsoDownloads (List.map_filter (map_of (li_Downloads l)) visit)"

definition GetISODownload :: "string \<Rightarrow> Library \<Rightarrow> iso_response" where
  "GetISODownload i l =
     (case map_of (li_Downloads l) i of
        None \<Rightarrow> IsoError 404 ''download not found''
      | Some d \<Rightarrow> IsoDownload 200 d)"

section \<open>Names and paths\<close>

lemma split_slash_ne [simp]: "split_slash s \<noteq> []"
  by (induction s) (auto split: list.split)

lemma split_slash_no: "CHR ''/'' \<notin> set f \<Longrightarrow> split_slash f = [f]"
  by (induction f) auto

lemma split_slash_append: "CHR ''/'' \<notin> set f \<Longrightarrow> split_slash (d @ ''/'' @ f) = split_slash d @ [f]"
  by (induction d) (auto simp: split_slash_no split: list.split)

lemma join_slash_snoc: "join_slash (es @ [f]) = concat (map (\<lambda>e. e @ ''/'') es) @ f"
proof (induction es)
  case (Cons e es)
  then show ?case by (cases "es @ [f]") simp_all
qed simp

text \<open>What the check of a name guarantees.\<close>

lemma iso_name:
  assumes "sanitizeISOFilename f = None"
  shows "f \<noteq> ''''" "CHR ''/'' \<notin> set f" "f \<noteq> ''.''" "f \<noteq> ''..''" "length f \<le> 255" "\<not> contains ''..'' f"
    "has_suffix ''.iso'' (to_lower f)"
proof -
  have c: "list_all iso_char f" and s: "has_suffix ''.iso'' (to_lower f)"
    and e: "f \<noteq> ''''" "length f \<le> 255" "\<not> contains ''..'' f"
    using assms by (auto simp: sanitizeISOFilename_def split: if_split_asm)
  show "CHR ''/'' \<notin> set f" using c by (auto simp: list_all_iff iso_char_def)
  have "4 \<le> length f" using s by (simp add: has_suffix_def to_lower_def)
  then show "f \<noteq> ''.''" "f \<noteq> ''..''" by auto
qed (use assms in \<open>auto simp: sanitizeISOFilename_def split: if_split_asm\<close>)

text \<open>The directory part of the path of an ISO.\<close>

definition iso_prefix :: "string \<Rightarrow> string" where
  "iso_prefix dir =
     (if dir = '''' then ''''
      else (if is_rooted dir then ''/'' else '''') @ concat (map (\<lambda>e. e @ ''/'') (path_elems dir)))"

lemma path_elems_snoc:
  assumes "sanitizeISOFilename f = None" "dir \<noteq> ''''"
  shows "path_elems (dir @ ''/'' @ f) = path_elems dir @ [f]" "is_rooted (dir @ ''/'' @ f) = is_rooted dir"
  using iso_name[OF assms(1)] assms(2)
  by (auto simp: path_elems_def split_slash_append[simplified] clean_step_def is_rooted_def nth_append)

lemma path_join_iso:
  assumes "sanitizeISOFilename f = None"
  shows "path_join dir f = iso_prefix dir @ f"
proof (cases "dir = ''''")
  case True
  have "\<not> is_rooted f" using iso_name(1,2)[OF assms] by (cases f) (auto simp: is_rooted_def)
  then have "path_clean f = f"
    using iso_name[OF assms] by (simp add: path_clean_def path_elems_def split_slash_no clean_step_def)
  then show ?thesis using True iso_name(1)[OF assms] by (simp add: path_join_def iso_prefix_def)
next
  case False
  then show ?thesis
    using path_elems_snoc[OF assms False] iso_name(1)[OF assms] join_slash_snoc[of "path_elems dir" f]
    by (simp add: path_join_def path_clean_def iso_prefix_def Let_def)
qed

lemma path_join_inj:
  "\<lbrakk>sanitizeISOFilename f = None; sanitizeISOFilename g = None; path_join dir f = path_join dir g\<rbrakk> \<Longrightarrow> f = g"
  by (simp add: path_join_iso)

text \<open>C30: a name that passes the check is one element of a path, so the file of an ISO is in the ISO directory itself:
  its path is a prefix that depends on the directory only, followed by the name, and two names never share a
  file. A name that does not pass makes an upload, a deletion and a download fail without any effect.\<close>

theorem iso_names_confined:
  "(sanitizeISOFilename f = None \<longrightarrow>
      path_join dir f = iso_prefix dir @ f \<and> CHR ''/'' \<notin> set f \<and> f \<noteq> ''.'' \<and> f \<noteq> ''..'' \<and> length f \<le> 255
      \<and> (\<forall>g. sanitizeISOFilename g = None \<longrightarrow> path_join dir g = path_join dir f \<longrightarrow> g = f))
   \<and> (sanitizeISOFilename f = Some e \<longrightarrow> li_db l \<noteq> None \<longrightarrow>
      UploadISO now cl (FormFile f sz c) stop l = (IsoError 400 e, l) \<and> DeleteISO cl f l = (IsoError 400 e, l)
      \<and> DownloadISO f l = (IsoError 400 e, l))"
proof -
  have "path_join dir f = iso_prefix dir @ f \<and> CHR ''/'' \<notin> set f \<and> f \<noteq> ''.'' \<and> f \<noteq> ''..'' \<and> length f \<le> 255
      \<and> (\<forall>g. sanitizeISOFilename g = None \<longrightarrow> path_join dir g = path_join dir f \<longrightarrow> g = f)" if "sanitizeISOFilename f = None"
    using iso_name[OF that] path_join_iso[OF that] path_join_inj[OF _ that] by blast
  moreover have "UploadISO now cl (FormFile f sz c) stop l = (IsoError 400 e, l) \<and> DeleteISO cl f l = (IsoError 400 e, l)
      \<and> DownloadISO f l = (IsoError 400 e, l)" if "sanitizeISOFilename f = Some e" "li_db l \<noteq> None"
    using that by (simp add: UploadISO_def upload_begin_def DeleteISO_def DownloadISO_def with_iso_def)
  ultimately show ?thesis by blast
qed

section \<open>What the operations change\<close>

definition same_files :: "Library \<Rightarrow> Library \<Rightarrow> bool" where
  "same_files l l' \<longleftrightarrow> rows l' = rows l \<and> li_disk l' = li_disk l \<and> li_inodes l' = li_inodes l
     \<and> li_nextino l' = li_nextino l \<and> li_Settings l' = li_Settings l \<and> (li_db l' = None \<longleftrightarrow> li_db l = None)"

lemma same_files_refl [simp]: "same_files l l"
  by (simp add: same_files_def)

lemma same_files_trans: "\<lbrakk>same_files l m; same_files m n\<rbrakk> \<Longrightarrow> same_files l n"
  by (simp add: same_files_def)

lemma rows_simps [simp]:
  "rows (l\<lparr>li_db := Some rs\<rparr>) = rs" "rows (l\<lparr>li_dbops := n\<rparr>) = rows l" "rows (l\<lparr>li_ioops := n\<rparr>) = rows l"
  "rows (l\<lparr>li_disk := dk\<rparr>) = rows l" "rows (l\<lparr>li_inodes := io\<rparr>) = rows l" "rows (l\<lparr>li_nextino := n\<rparr>) = rows l"
  "rows (l\<lparr>li_Downloads := ds\<rparr>) = rows l" "rows (l\<lparr>li_audit := au\<rparr>) = rows l" "rows (l\<lparr>li_nextid := k\<rparr>) = rows l"
  by (simp_all add: rows_def)

lemma find_row_simps [simp]:
  "find_row f (l\<lparr>li_dbops := n\<rparr>) = find_row f l" "find_row f (l\<lparr>li_ioops := n\<rparr>) = find_row f l"
  "find_row f (l\<lparr>li_inodes := io\<rparr>) = find_row f l" "find_row f (l\<lparr>li_disk := dk\<rparr>) = find_row f l"
  "find_row f (l\<lparr>li_Downloads := ds\<rparr>) = find_row f l"
  by (simp_all add: find_row_def)

lemma find_row_iff: "find_row f l = None \<longleftrightarrow> f \<notin> if_Filename ` set (rows l)"
  by (auto simp: find_row_def find_None_iff)

lemma db_op_same: "db_op l = (ok, l') \<Longrightarrow> same_files l l'"
  by (auto simp: db_op_def same_files_def)

lemma io_op_same: "io_op l = (ok, l') \<Longrightarrow> same_files l l'"
  by (auto simp: io_op_def same_files_def)

lemma GetISO_same: "GetISO f l = (r, l') \<Longrightarrow> same_files l l' \<and> (\<forall>x. r = Some x \<longrightarrow> x = find_row f l)"
  by (auto simp: GetISO_def db_op_def same_files_def split: if_split_asm)

lemma db_ListISOs_same: "db_ListISOs l = (r, l') \<Longrightarrow> same_files l l' \<and> (\<forall>x. r = Some x \<longrightarrow> x = sort_key if_Filename (rows l))"
  by (auto simp: db_ListISOs_def db_op_def same_files_def split: if_split_asm)

lemma upd_dl_same [simp]: "same_files l (upd_dl i f l)" "same_files l (progress_write i n l)" "same_files l (lib_audit a b c d e l)"
  by (simp_all add: upd_dl_def same_files_def progress_write_def lib_audit_def)

text \<open>A removal takes away at most the entry; a creation adds an empty file under a free name.\<close>

definition unlinks :: "string \<Rightarrow> Library \<Rightarrow> Library \<Rightarrow> bool" where
  "unlinks path l l' \<longleftrightarrow> (\<exists>m. same_files (l\<lparr>li_disk := m\<rparr>) l' \<and> (m = li_disk l \<or> m = (li_disk l)(path := None)))"

lemma same_unlinks: "same_files l l' \<Longrightarrow> unlinks path l l'"
  by (auto simp: unlinks_def same_files_def intro!: exI[of _ "li_disk l"])

lemma os_Remove_unlinks: "os_Remove path l = (r, l') \<Longrightarrow> unlinks path l l'"
  by (auto simp: os_Remove_def io_op_def unlinks_def same_files_def split: if_split_asm)

lemma unlinks_trans: "\<lbrakk>unlinks path l m; unlinks path m n\<rbrakk> \<Longrightarrow> unlinks path l n"
  by (auto simp: unlinks_def same_files_def)

lemma dl_fail_unlinks: "unlinks path l (dl_fail i path msg l)"
proof -
  obtain r l1 where r: "os_Remove path l = (r, l1)" by force
  then show ?thesis
    using unlinks_trans[OF os_Remove_unlinks[OF r] same_unlinks[OF upd_dl_same(1)]] by (simp add: dl_fail_def)
qed

definition creates :: "string \<Rightarrow> nat \<Rightarrow> Library \<Rightarrow> Library \<Rightarrow> bool" where
  "creates path ino l l' \<longleftrightarrow> li_disk l path = None \<and> ino = li_nextino l
     \<and> same_files (l\<lparr>li_disk := (li_disk l)(path \<mapsto> ino), li_inodes := (li_inodes l)(ino := []), li_nextino := ino + 1\<rparr>) l'"

lemma os_Create_cases:
  "os_Create path l = (r, l') \<Longrightarrow> case r of Opened ino \<Rightarrow> creates path ino l l' | _ \<Rightarrow> same_files l l'"
  by (auto simp: os_Create_def io_op_def creates_def same_files_def split: if_split_asm)

lemma creates_same: "\<lbrakk>same_files l m; creates path ino m n\<rbrakk> \<Longrightarrow> creates path ino l n"
  by (simp add: creates_def same_files_def)

lemma upload_begin_Inl: "upload_begin form l = (Inl resp, l') \<Longrightarrow> same_files l l'"
  unfolding upload_begin_def Let_def
  by (auto split: if_split_asm upload_form.split_asm option.split_asm prod.split_asm open_result.split_asm
      dest!: GetISO_same db_ListISOs_same os_Create_cases intro: same_files_trans)

lemma upload_begin_Inr:
  assumes "upload_begin form l = (Inr u, l')"
  shows "\<exists>f sz c. form = FormFile f sz c \<and> sanitizeISOFilename f = None \<and> find_row f l = None \<and> li_db l \<noteq> None
     \<and> up_filename u = f \<and> up_path u = dest_path f l \<and> up_total u = total_size (sort_key if_Filename (rows l))
     \<and> up_max u = max_bytes l \<and> creates (dest_path f l) (up_inode u) l l'"
proof -
  have dm: "dest_path f l' = dest_path f l \<and> max_bytes l' = max_bytes l \<and> rows l' = rows l" if "same_files l l'" for l l' f
    using that by (simp add: dest_path_def max_bytes_def same_files_def)
  show ?thesis
    using assms unfolding upload_begin_def Let_def
    by (auto split: if_split_asm upload_form.split_asm option.split_asm prod.split_asm open_result.split_asm
      dest!: GetISO_same db_ListISOs_same os_Create_cases) (metis dm same_files_trans creates_same)+
qed

definition new_row :: "int \<Rightarrow> string \<Rightarrow> bytes \<Rightarrow> string \<Rightarrow> Library \<Rightarrow> ISOFile" where
  "new_row now f data user l = \<lparr>if_ID = li_nextid l, if_Filename = f, if_SizeBytes = int (length data),
     if_SHA256 = hex_encode (sha256 data), if_UploadedBy = user, if_UploadedAt = now, if_LastUsed = None\<rparr>"

lemma find_snoc: "List.find P (xs @ [y]) = (case List.find P xs of None \<Rightarrow> if P y then Some y else None | Some x \<Rightarrow> Some x)"
  by (induction xs) auto

text \<open>The end of an upload: the file is registered, or at most removed.\<close>

lemma InsertISO_cases:
  assumes "InsertISO now f (int (length data)) (hex_encode (sha256 data)) user l = (ok, l')"
  shows "if ok then find_row f l = None \<and> same_files (l\<lparr>li_db := Some (rows l @ [new_row now f data user l])\<rparr>) l'
         else same_files l l'"
  using assms by (auto simp: InsertISO_def db_op_def new_row_def same_files_def rows_def split: if_split_asm option.split_asm)

lemma upload_finish_cases:
  assumes "upload_finish now cl content stop u l = (resp, l')"
  defines "data \<equiv> copied stop content" and "l1 \<equiv> io_Copy (up_inode u) content stop l"
  shows "(stop = None \<and> i64 (up_total u + int (length data)) \<le> up_max u \<and> find_row (up_filename u) l = None
       \<and> same_files (l1\<lparr>li_db := Some (rows l @ [new_row now (up_filename u) data (email_of cl) l])\<rparr>) l'
       \<and> (resp = IsoRecord 201 (new_row now (up_filename u) data (email_of cl) l)
          \<or> resp = IsoBasic 201 (up_filename u) (int (length data)) (hex_encode (sha256 data))))
     \<or> (unlinks (up_path u) l1 l' \<and> (\<exists>code msg. resp = IsoError code msg))"
proof -
  have l1: "rows l1 = rows l" "find_row f l1 = find_row f l" "new_row now f d e l1 = new_row now f d e l" for f d e
    by (simp_all add: l1_def io_Copy_def new_row_def)
  have fr: "find_row (up_filename u) (l1\<lparr>li_db := Some (rows l @ [new_row now (up_filename u) data (email_of cl) l])\<rparr>)
      = Some (new_row now (up_filename u) data (email_of cl) l)" if "find_row (up_filename u) l = None"
    using that by (auto simp: find_row_def find_snoc new_row_def)
  have fs: "find_row g a = find_row g b" if "same_files a b" for a b g using that by (simp add: find_row_def same_files_def)
  note fin = assms(1)[unfolded upload_finish_def Let_def, folded data_def l1_def]
  consider (stopped) "stop \<noteq> None" | (large) "stop = None" "i64 (up_total u + int (length data)) > up_max u"
    | (insert) "stop = None" "\<not> i64 (up_total u + int (length data)) > up_max u" by blast
  then show ?thesis
  proof cases
    case stopped
    then show ?thesis using fin by (auto dest: os_Remove_unlinks split: prod.split_asm)
  next
    case large
    then show ?thesis using fin by (auto simp: over_limit_def dest: os_Remove_unlinks split: prod.split_asm)
  next
    case insert
    obtain ok l2 where i: "InsertISO now (up_filename u) (int (length data)) (hex_encode (sha256 data)) (email_of cl) l1 = (ok, l2)"
      by force
    note c = InsertISO_cases[OF i]
    show ?thesis
    proof (cases ok)
      case False
      obtain r l3 where r: "os_Remove (up_path u) l2 = (r, l3)" by force
      have "l' = l3" "\<exists>code msg. resp = IsoError code msg"
        using fin insert i r False by auto
      moreover have "same_files l1 l2" using c False by simp
      ultimately show ?thesis using unlinks_trans[OF same_unlinks os_Remove_unlinks[OF r]] by blast
    next
      case True
      obtain g l3 where g: "GetISO (up_filename u) l2 = (g, l3)" by force
      note c' = c[unfolded if_P[OF True] l1]
      have gr: "x = Some (new_row now (up_filename u) data (email_of cl) l)" if "g = Some x" for x
        using GetISO_same[OF g] that fs[OF c'[THEN conjunct2]] fr c' by (auto simp: l1)
      have "same_files (l1\<lparr>li_db := Some (rows l @ [new_row now (up_filename u) data (email_of cl) l])\<rparr>) l3"
        using c' GetISO_same[OF g] same_files_trans by blast
      then have "same_files (l1\<lparr>li_db := Some (rows l @ [new_row now (up_filename u) data (email_of cl) l])\<rparr>) l'
         \<and> (resp = IsoRecord 201 (new_row now (up_filename u) data (email_of cl) l)
          \<or> resp = IsoBasic 201 (up_filename u) (int (length data)) (hex_encode (sha256 data)))"
        using fin insert i g True gr same_files_trans upd_dl_same(3)
        by (fastforce split: option.split_asm)
      then show ?thesis using insert c' by (auto simp: l1)
    qed
  qed
qed

section \<open>The library and the disk agree\<close>

text \<open>Every row is about a file of the ISO directory, with its size and its hash; no two names share an inode.\<close>

definition registered :: "Library \<Rightarrow> ISOFile \<Rightarrow> bool" where
  "registered l r \<longleftrightarrow> sanitizeISOFilename (if_Filename r) = None
     \<and> (\<exists>c. file_at (dest_path (if_Filename r) l) l = Some c \<and> if_SizeBytes r = int (length c)
            \<and> if_SHA256 r = hex_encode (sha256 c))"

definition lib_inv :: "Library \<Rightarrow> bool" where
  "lib_inv l \<longleftrightarrow> distinct (map if_Filename (rows l)) \<and> (\<forall>r\<in>set (rows l). registered l r)
     \<and> (\<forall>p i. li_disk l p = Some i \<longrightarrow> i < li_nextino l) \<and> inj_on (li_disk l) (dom (li_disk l))"

lemma lib_inv_parts:
  assumes "lib_inv l"
  shows "distinct (map if_Filename (rows l))" "\<And>r. r \<in> set (rows l) \<Longrightarrow> registered l r"
    "\<And>p i. li_disk l p = Some i \<Longrightarrow> i < li_nextino l" "inj_on (li_disk l) (dom (li_disk l))"
  using assms by (simp_all add: lib_inv_def)

lemma same_files_inv: "\<lbrakk>same_files l l'; lib_inv l\<rbrakk> \<Longrightarrow> lib_inv l'"
  by (simp add: lib_inv_def same_files_def registered_def file_at_def dest_path_def)

lemma lib_inv_write:
  assumes "lib_inv l" "creates path ino l l1"
  shows "lib_inv (io_Copy ino content stop l1)"
proof -
  let ?l = "io_Copy ino content stop l1"
  have c: "li_disk l path = None" "ino = li_nextino l" "li_disk l1 = (li_disk l)(path \<mapsto> ino)" "rows l1 = rows l"
    "li_nextino l1 = ino + 1" "li_Settings l1 = li_Settings l" "li_inodes l1 = (li_inodes l)(ino := [])"
    using assms(2) by (auto simp: creates_def same_files_def)
  have "registered ?l r" if r: "r \<in> set (rows l)" for r
  proof -
    obtain x where x: "li_disk l (dest_path (if_Filename r) l) = Some x"
      using lib_inv_parts(2)[OF assms(1) r] by (auto simp: registered_def file_at_def)
    have "x \<noteq> ino" using lib_inv_parts(3)[OF assms(1) x] c(2) by simp
    moreover have "dest_path (if_Filename r) l \<noteq> path" using x c(1) by auto
    ultimately show ?thesis
      using lib_inv_parts(2)[OF assms(1) r] x c by (simp add: registered_def file_at_def dest_path_def io_Copy_def)
  qed
  moreover have "inj_on (li_disk ?l) (dom (li_disk ?l))"
  proof (rule inj_onI)
    fix p q assume "p \<in> dom (li_disk ?l)" "q \<in> dom (li_disk ?l)" "li_disk ?l p = li_disk ?l q"
    then show "p = q"
      using lib_inv_parts(3,4)[OF assms(1)] c(1-3)
      by (auto simp: io_Copy_def inj_on_def dom_def split: if_split_asm)
  qed
  moreover have "i < li_nextino ?l" if "li_disk ?l p = Some i" for p i
    using that lib_inv_parts(3)[OF assms(1), of p i] c by (auto simp: io_Copy_def split: if_split_asm)
  ultimately show ?thesis using lib_inv_parts(1)[OF assms(1)] c(4) by (simp add: lib_inv_def io_Copy_def)
qed

lemma other_path: "\<lbrakk>registered l r; sanitizeISOFilename f = None; if_Filename r \<noteq> f\<rbrakk> \<Longrightarrow> dest_path (if_Filename r) l \<noteq> dest_path f l"
  using path_join_inj by (auto simp: registered_def dest_path_def)

text \<open>Taking away a file that no row names keeps the invariant, and so does registering one.\<close>

lemma lib_inv_unlink:
  assumes "lib_inv l" "sanitizeISOFilename f = None" "unlinks (dest_path f l) l l'"
  shows "lib_inv (l'\<lparr>li_db := Some (filter (\<lambda>r. if_Filename r \<noteq> f) (rows l'))\<rparr>)"
    and "find_row f l = None \<Longrightarrow> lib_inv l'"
proof -
  obtain m where m: "same_files (l\<lparr>li_disk := m\<rparr>) l'" "m = li_disk l \<or> m = (li_disk l)(dest_path f l := None)"
    using assms(3) by (auto simp: unlinks_def)
  have l': "rows l' = rows l" "li_disk l' = m" "li_inodes l' = li_inodes l" "li_nextino l' = li_nextino l" "li_Settings l' = li_Settings l"
    using m(1) by (simp_all add: same_files_def)
  have reg: "registered l' r" if "r \<in> set (rows l)" "if_Filename r \<noteq> f" for r
    using lib_inv_parts(2)[OF assms(1) that(1)] other_path[OF lib_inv_parts(2)[OF assms(1) that(1)] assms(2) that(2)] m(2)
    by (auto simp: registered_def file_at_def dest_path_def l')
  have disk: "(\<forall>p i. m p = Some i \<longrightarrow> i < li_nextino l) \<and> inj_on m (dom m)"
    using m(2) lib_inv_parts(3,4)[OF assms(1)] by (auto simp: inj_on_def dom_def split: if_split_asm)
  have upd: "registered (l'\<lparr>li_db := x\<rparr>) r = registered l' r" for x r by (simp add: registered_def file_at_def dest_path_def)
  show "lib_inv (l'\<lparr>li_db := Some (filter (\<lambda>r. if_Filename r \<noteq> f) (rows l'))\<rparr>)"
    using lib_inv_parts(1)[OF assms(1)] reg disk by (simp add: lib_inv_def l' upd distinct_map_filter)
  show "lib_inv l'" if "find_row f l = None"
    using that lib_inv_parts(1)[OF assms(1)] reg disk by (auto simp: lib_inv_def l' find_row_iff)
qed

lemma lib_inv_register:
  assumes "lib_inv l" "find_row f l = None" "sanitizeISOFilename f = None" "file_at (dest_path f l) l = Some data"
  shows "lib_inv (l\<lparr>li_db := Some (rows l @ [new_row now f data user k])\<rparr>)"
proof -
  have "registered (l\<lparr>li_db := x\<rparr>) r = registered l r" for x r by (simp add: registered_def file_at_def dest_path_def)
  moreover have "registered l (new_row now f data user k)" using assms(3,4) by (simp add: registered_def new_row_def)
  ultimately show ?thesis using assms(1,2) by (auto simp: lib_inv_def find_row_iff new_row_def)
qed

lemma io_Copy_fields [simp]:
  "rows (io_Copy ino c st l) = rows l" "li_disk (io_Copy ino c st l) = li_disk l" "li_Settings (io_Copy ino c st l) = li_Settings l"
  "find_row f (io_Copy ino c st l) = find_row f l" "dest_path f (io_Copy ino c st l) = dest_path f l"
  "li_inodes (io_Copy ino c st l) = (li_inodes l)(ino := li_inodes l ino @ copied st c)"
  by (simp_all add: io_Copy_def dest_path_def)

text \<open>From the creation of a file to its registration or removal, for an upload and for a download.\<close>

lemma created_file:
  assumes "creates (dest_path f l) ino l l1"
  shows "file_at (dest_path f l) (io_Copy ino content stop l1) = Some (copied stop content)"
    "rows l1 = rows l" "dest_path f l1 = dest_path f l" "find_row f l1 = find_row f l"
  using assms by (auto simp: creates_def same_files_def file_at_def dest_path_def find_row_def)

lemma UploadISO_inv:
  assumes "UploadISO now cl form stop l = (resp, l')" "lib_inv l"
  shows "lib_inv l'"
proof -
  obtain x l1 where b: "upload_begin form l = (x, l1)" by force
  show ?thesis
  proof (cases x)
    case (Inl r)
    then show ?thesis using assms b same_files_inv[OF upload_begin_Inl] by (auto simp: UploadISO_def)
  next
    case (Inr u)
    define f where "f = up_filename u"
    have u: "sanitizeISOFilename f = None" "find_row f l = None" "up_path u = dest_path f l" "creates (dest_path f l) (up_inode u) l l1"
      using upload_begin_Inr[OF b[unfolded Inr]] by (auto simp: f_def)
    define l2 where "l2 = io_Copy (up_inode u) (form_content form) stop l1"
    have inv: "lib_inv l2" unfolding l2_def by (rule lib_inv_write[OF assms(2) u(4)])
    note cf = created_file[OF u(4)]
    have fin: "upload_finish now cl (form_content form) stop u l1 = (resp, l')"
      using assms(1) b Inr by (simp add: UploadISO_def)
    have l2: "dest_path f l2 = dest_path f l" "find_row f l2 = None" "rows l2 = rows l1"
      by (simp_all add: l2_def cf u(2))
    let ?r = "new_row now f (copied stop (form_content form)) (email_of cl) l1"
    have "same_files (l2\<lparr>li_db := Some (rows l1 @ [?r])\<rparr>) l' \<or> unlinks (up_path u) l2 l'"
      using upload_finish_cases[OF fin, folded l2_def f_def] by blast
    then show ?thesis
    proof
      assume "unlinks (up_path u) l2 l'"
      then show ?thesis using lib_inv_unlink(2)[OF inv u(1)] l2 u(3) by simp
    next
      assume "same_files (l2\<lparr>li_db := Some (rows l1 @ [?r])\<rparr>) l'"
      moreover have "file_at (dest_path f l2) l2 = Some (copied stop (form_content form))"
        unfolding l2(1) unfolding l2_def by (rule cf(1))
      ultimately show ?thesis
        using lib_inv_register[OF inv l2(2) u(1)] l2(3) same_files_inv by metis
    qed
  qed
qed

lemma with_iso_cases:
  assumes "with_iso f missing k l = (resp, l')"
  shows "(same_files l l' \<and> (\<exists>code msg. resp = IsoError code msg))
     \<or> (\<exists>l1. sanitizeISOFilename f = None \<and> find_row f l \<noteq> None \<and> same_files l l1 \<and> k l1 = (resp, l'))"
  using assms by (auto simp: with_iso_def split: option.split_asm prod.split_asm dest!: GetISO_same)

lemma DeleteISO_inv:
  assumes "DeleteISO cl f l = (resp, l')" "lib_inv l" "resp \<noteq> IsoError 500 ''failed to remove ISO from database''"
  shows "lib_inv l'"
proof (cases "li_db l = None")
  case False
  define k where "k = (\<lambda>l. case os_Remove (dest_path f l) l of
          (NotRemoved, l) \<Rightarrow> (IsoError 500 ''failed to remove file from disk'', l)
        | (_, l) \<Rightarrow>
            (case db_DeleteISO f l of
               (False, l) \<Rightarrow> (IsoError 500 ''failed to remove ISO from database'', l)
             | (True, l) \<Rightarrow> (IsoOk, lib_audit ''iso.delete'' (email_of cl) '''' '''' (cl_addr cl) l)))"
  have "with_iso f '' not found'' k l = (resp, l')" using assms(1) False by (simp add: DeleteISO_def k_def)
  from with_iso_cases[OF this] show ?thesis
  proof (elim disjE exE conjE)
    assume "same_files l l'"
    then show ?thesis using same_files_inv assms(2) by blast
  next
    fix l1 assume s: "sanitizeISOFilename f = None" "same_files l l1" and k: "k l1 = (resp, l')"
    have inv: "lib_inv l1" using same_files_inv s(2) assms(2) by blast
    obtain r l2 where r: "os_Remove (dest_path f l1) l1 = (r, l2)" by force
    note un = os_Remove_unlinks[OF r]
    show ?thesis
    proof (cases "r = NotRemoved")
      case True
      then have "same_files l1 l2" using r by (auto simp: os_Remove_def io_op_def same_files_def split: if_split_asm)
      then show ?thesis using k r True same_files_inv[OF _ inv] by (simp add: k_def)
    next
      case False
      obtain ok l3 where d: "db_DeleteISO f l2 = (ok, l3)" by force
      have ok: "ok" using k r d False assms(3) by (cases r) (auto simp: k_def split: bool.split_asm)
      have "same_files (l2\<lparr>li_db := Some (filter (\<lambda>r. if_Filename r \<noteq> f) (rows l2))\<rparr>) l3"
        using d ok by (auto simp: db_DeleteISO_def db_op_def same_files_def)
      moreover have "l' = lib_audit ''iso.delete'' (email_of cl) '''' '''' (cl_addr cl) l3"
        using k r d ok False by (cases r) (simp_all add: k_def)
      ultimately have "same_files (l2\<lparr>li_db := Some (filter (\<lambda>r. if_Filename r \<noteq> f) (rows l2))\<rparr>) l'"
        using same_files_trans upd_dl_same(3) by blast
      then show ?thesis using same_files_inv lib_inv_unlink(1)[OF inv s(1) un] by blast
    qed
  qed
qed (use assms in \<open>auto simp: DeleteISO_def\<close>)

text \<open>The beginning of a download.\<close>

lemma perform_begin_cases:
  assumes "perform_begin d get l = (x, l')"
  defines "path \<equiv> dest_path (dl_Filename d) l"
  shows "case x of
       None \<Rightarrow> unlinks path l l'
     | Some (ino, tot) \<Rightarrow> tot = total_size (sort_key if_Filename (rows l)) \<and> (\<exists>len. get = GetBody len)
         \<and> (\<exists>m. unlinks path l m \<and> creates path ino m l')"
proof -
  have st: "dest_path f b = dest_path f a \<and> rows b = rows a" if "same_files a b" for a b f
    using that by (simp add: dest_path_def same_files_def)
  show ?thesis
  proof (cases get)
    case (GetBody len)
    define la where "la = (if len > 0 then upd_dl (dl_ID d) (\<lambda>d. d\<lparr>dl_TotalBytes := len\<rparr>) l else l)"
    obtain isos lb where b: "db_ListISOs la = (isos, lb)" by force
    have s: "same_files l la" by (simp add: la_def)
    have sb: "same_files l lb" using same_files_trans[OF s] db_ListISOs_same[OF b] by blast
    note def = assms(1)[unfolded perform_begin_def Let_def GetBody http_get.case, folded la_def path_def, unfolded b prod.case]
    show ?thesis
    proof (cases isos)
      case None
      then show ?thesis using def unlinks_trans[OF same_unlinks[OF sb] dl_fail_unlinks] by auto
    next
      case (Some fs)
      have fs: "fs = sort_key if_Filename (rows l)" using db_ListISOs_same[OF b] Some st[OF s] by simp
      show ?thesis
      proof (cases "len > 0 \<and> i64 (total_size fs + len) > max_bytes lb")
        case True
        then show ?thesis using def Some unlinks_trans[OF same_unlinks[OF sb] dl_fail_unlinks] by auto
      next
        case False
        obtain so lc where c: "io_op lb = (so, lc)" by force
        define ld where "ld = (if so \<and> li_disk lc path \<noteq> None then
                              (case GetISO (dl_Filename d) lc of
                                 (Some (Some _), l) \<Rightarrow> l
                               | (_, l) \<Rightarrow> snd (os_Remove path l))
                            else lc)"
        have sc: "same_files l lc" using same_files_trans[OF sb io_op_same[OF c]] .
        have "unlinks path lc ld"
        proof -
          obtain g le where g: "GetISO (dl_Filename d) lc = (g, le)" by force
          have u: "unlinks path lc le" using same_unlinks GetISO_same[OF g] by blast
          have "unlinks path lc (snd (os_Remove path le))"
            using unlinks_trans[OF u os_Remove_unlinks[of path le]] by (metis prod.collapse)
          then show ?thesis using u by (auto simp: ld_def g same_unlinks split: option.split)
        qed
        then have ud: "unlinks path l ld" using unlinks_trans same_unlinks[OF sc] by blast
        obtain oc lf where o: "os_Create path ld = (oc, lf)" by force
        have def2: "(x, l') = (case os_Create path ld of
              (Exists, l) \<Rightarrow> (None, dl_fail (dl_ID d) path (''file '' @ quoted (dl_Filename d) @ '' already exists on disk'') l)
            | (NotOpened, l) \<Rightarrow> (None, dl_fail (dl_ID d) path ''failed to create file'' l)
            | (Opened ino, l) \<Rightarrow> (Some (ino, total_size fs), l))"
          using def Some False c by (simp add: ld_def)
        have fl: "unlinks path l (dl_fail (dl_ID d) path msg lf)" if "same_files ld lf" for msg
          by (rule unlinks_trans[OF unlinks_trans[OF ud same_unlinks[OF that]] dl_fail_unlinks])
        show ?thesis
        proof (cases oc)
          case (Opened ino)
          then show ?thesis using def2 o os_Create_cases[OF o] ud fs GetBody by auto
        next
          case Exists
          then show ?thesis using def2 o fl os_Create_cases[OF o] by simp
        next
          case NotOpened
          then show ?thesis using def2 o fl os_Create_cases[OF o] by simp
        qed
      qed
    qed
  qed (use assms(1) dl_fail_unlinks in \<open>auto simp: perform_begin_def path_def\<close>)
qed

lemma progress_same: "same_files l (fold (progress_write i) ns l)"
proof (induction ns arbitrary: l)
  case (Cons n ns)
  show ?case using same_files_trans[OF upd_dl_same(2) Cons.IH] by simp
qed simp

lemma perform_finish_cases:
  assumes "perform_finish now user addr d content stop ns (ino, tot) l = l'"
  defines "data \<equiv> copied stop content" and "f \<equiv> dl_Filename d" and "l1 \<equiv> io_Copy ino content stop l"
  shows "(stop = None \<and> i64 (tot + int (length data)) \<le> max_bytes l \<and> find_row f l = None
       \<and> same_files (l1\<lparr>li_db := Some (rows l @ [new_row now f data user l])\<rparr>) l')
     \<or> unlinks (dest_path f l) l1 l'"
proof -
  define l2 where "l2 = fold (progress_write (dl_ID d)) ns l1"
  have s: "same_files l1 l2" unfolding l2_def by (rule progress_same)
  have nx: "li_nextid (upd_dl i g k) = li_nextid k" for i g k by (simp add: upd_dl_def)
  have nid: "li_nextid (fold (progress_write i) ns k) = li_nextid k" for i k
    by (induction ns arbitrary: k) (simp_all add: progress_write_def nx)
  have l2: "rows l2 = rows l" "find_row f l2 = find_row f l" "dest_path f l = dest_path f l1" "max_bytes l2 = max_bytes l"
    "new_row now f data user l2 = new_row now f data user l"
    using s nid[of "dl_ID d" l1] unfolding l2_def[symmetric]
    by (simp_all add: same_files_def l1_def find_row_def dest_path_def max_bytes_def new_row_def) (simp add: io_Copy_def)
  note fin = assms(1)[unfolded perform_finish_def Let_def fst_conv snd_conv, folded data_def l1_def f_def, folded l2_def]
  have u: "unlinks p l1 (dl_fail i p msg l2)" "unlinks p l1 (dl_fail i p msg (snd (os_Remove p k)))"
    if "same_files l2 k" for p i msg k
  proof -
    show "unlinks p l1 (dl_fail i p msg l2)" by (rule unlinks_trans[OF same_unlinks[OF s] dl_fail_unlinks])
    have "unlinks p k (snd (os_Remove p k))" by (rule os_Remove_unlinks[of _ _ "fst (os_Remove p k)"]) simp
    then have "unlinks p l1 (snd (os_Remove p k))" by (rule unlinks_trans[OF same_unlinks[OF same_files_trans[OF s that]]])
    then show "unlinks p l1 (dl_fail i p msg (snd (os_Remove p k)))" using unlinks_trans dl_fail_unlinks by blast
  qed
  consider (stopped) "stop \<noteq> None" | (large) "stop = None" "i64 (tot + int (length data)) > max_bytes l2"
    | (insert) "stop = None" "\<not> i64 (tot + int (length data)) > max_bytes l2" by blast
  then show ?thesis
  proof cases
    case stopped
    then show ?thesis using fin u(1)[OF same_files_refl] by auto
  next
    case large
    then show ?thesis using fin u(2)[OF same_files_refl] by auto
  next
    case insert
    obtain ok l3 where i: "InsertISO now f (int (length data)) (hex_encode (sha256 data)) user l2 = (ok, l3)" by force
    note c = InsertISO_cases[OF i]
    show ?thesis
    proof (cases ok)
      case False
      then show ?thesis using fin insert i u(2)[of l3] c by auto
    next
      case True
      have "same_files l3 l'" using fin insert i True same_files_trans[OF upd_dl_same(1) upd_dl_same(3)] by auto
      moreover have "find_row f l = None" "same_files (l2\<lparr>li_db := Some (rows l @ [new_row now f data user l])\<rparr>) l3"
        using c True by (simp_all add: l2)
      moreover have "same_files (l1\<lparr>li_db := x\<rparr>) (l2\<lparr>li_db := x\<rparr>)" for x using s by (simp add: same_files_def rows_def)
      ultimately show ?thesis using insert l2(4) same_files_trans by (metis linorder_not_less)
    qed
  qed
qed

lemma performISODownload_inv:
  assumes "performISODownload now user addr d get content stop ns l = l'" "lib_inv l"
    and "sanitizeISOFilename (dl_Filename d) = None" "find_row (dl_Filename d) l = None"
  shows "lib_inv l'"
proof -
  let ?f = "dl_Filename d"
  obtain x l1 where b: "perform_begin d get l = (x, l1)" by force
  note bc = perform_begin_cases[OF b]
  show ?thesis
  proof (cases x)
    case None
    then show ?thesis using assms b bc lib_inv_unlink(2)[OF assms(2,3)] by (simp add: performISODownload_def)
  next
    case (Some it)
    obtain ino tot where it: "it = (ino, tot)" by force
    obtain m where m: "unlinks (dest_path ?f l) l m" "creates (dest_path ?f l) ino m l1" using bc Some it by auto
    have im: "lib_inv m" by (rule lib_inv_unlink(2)[OF assms(2,3) m(1) assms(4)])
    have dm: "dest_path ?f m = dest_path ?f l" "find_row ?f m = None"
      using m(1) assms(4) by (auto simp: unlinks_def same_files_def dest_path_def find_row_def rows_def)
    define l2 where "l2 = io_Copy ino content stop l1"
    have inv: "lib_inv l2" unfolding l2_def by (rule lib_inv_write[OF im m(2)])
    note cf = created_file[OF m(2)[folded dm(1)]]
    have fin: "perform_finish now user addr d content stop ns (ino, tot) l1 = l'"
      using assms(1) b Some it by (simp add: performISODownload_def)
    have l2: "dest_path ?f l2 = dest_path ?f l1" "dest_path ?f l2 = dest_path ?f m" "find_row ?f l2 = None" "rows l2 = rows l1"
      by (simp_all add: l2_def cf dm)
    from perform_finish_cases[OF fin, folded l2_def] show ?thesis
    proof
      assume "unlinks (dest_path ?f l1) l2 l'"
      then show ?thesis using lib_inv_unlink(2)[OF inv assms(3)] l2 by simp
    next
      let ?r = "new_row now ?f (copied stop content) user l1"
      assume "stop = None \<and> i64 (tot + int (length (copied stop content))) \<le> max_bytes l1 \<and> find_row ?f l1 = None
         \<and> same_files (l2\<lparr>li_db := Some (rows l1 @ [?r])\<rparr>) l'"
      then have "same_files (l2\<lparr>li_db := Some (rows l1 @ [?r])\<rparr>) l'" by blast
      moreover have "file_at (dest_path ?f l2) l2 = Some (copied stop content)"
        unfolding l2(2) unfolding l2_def by (rule cf(1))
      ultimately show ?thesis
        using lib_inv_register[OF inv l2(3) assms(3)] l2(4) same_files_inv by metis
    qed
  qed
qed

text \<open>The states of a library whose handlers and downloads run one after the other, each as a whole; between the
  acceptance of a download and its performance no file of its name is registered, and the deletion of a row
  does not fail.\<close>

inductive library_state :: "Library \<Rightarrow> bool" where
  new: "\<lbrakk>li_db l = Some []; li_disk l = Map.empty\<rbrakk> \<Longrightarrow> library_state l"
| upload: "\<lbrakk>library_state l; UploadISO now cl form stop l = (resp, l')\<rbrakk> \<Longrightarrow> library_state l'"
| delete: "\<lbrakk>library_state l; DeleteISO cl f l = (resp, l'); resp \<noteq> IsoError 500 ''failed to remove ISO from database''\<rbrakk>
    \<Longrightarrow> library_state l'"
| accept: "\<lbrakk>library_state l; DownloadISOFromURL parse uid now body l = (resp, l')\<rbrakk> \<Longrightarrow> library_state l'"
| perform: "\<lbrakk>library_state l; performISODownload now user addr d get content stop ns l = l';
     sanitizeISOFilename (dl_Filename d) = None; find_row (dl_Filename d) l = None\<rbrakk> \<Longrightarrow> library_state l'"
| touch: "\<lbrakk>library_state l; TouchISOLastUsed now f l = (ok, l')\<rbrakk> \<Longrightarrow> library_state l'"

lemma DownloadISOFromURL_same: "DownloadISOFromURL parse uid now body l = (resp, l') \<Longrightarrow> same_files l l'"
  unfolding DownloadISOFromURL_def download_check_def download_add_def Let_def
  by (auto split: prod.split_asm sum.split_asm option.split_asm if_split_asm dest!: GetISO_same) (auto simp: same_files_def)

lemma TouchISOLastUsed_inv:
  assumes "TouchISOLastUsed now f l = (ok, l')" "lib_inv l"
  shows "lib_inv l'"
proof -
  define g where "g = (\<lambda>r :: ISOFile. if if_Filename r = f then r\<lparr>if_LastUsed := Some now\<rparr> else r)"
  have c: "same_files l l' \<or> same_files (l\<lparr>li_db := Some (map g (rows l))\<rparr>) l'"
    using assms(1) by (auto simp: TouchISOLastUsed_def db_op_def same_files_def g_def split: if_split_asm)
  have n: "if_Filename (g r) = if_Filename r" "registered (l\<lparr>li_db := x\<rparr>) (g r) = registered l r" for x r
    by (simp_all add: g_def registered_def file_at_def dest_path_def)
  have "lib_inv (l\<lparr>li_db := Some (map g (rows l))\<rparr>)"
    using assms(2) n by (simp add: lib_inv_def comp_def)
  then show ?thesis using c same_files_inv assms(2) by blast
qed

text \<open>C2: the table and the disk agree: in every state of a library used sequentially, whatever operations on the disk
  and reads of the table fail, the names are distinct and every row has its file in the ISO directory, with the
  size and the SHA-256 that the row records.\<close>

theorem library_consistent:
  assumes "library_state l"
  shows "distinct (map if_Filename (rows l)) \<and> (\<forall>r\<in>set (rows l). \<exists>c. file_at (dest_path (if_Filename r) l) l = Some c
     \<and> if_SizeBytes r = int (length c) \<and> if_SHA256 r = hex_encode (sha256 c))"
proof -
  have "lib_inv l"
    using assms
  proof (induction rule: library_state.induct)
    case (new l)
    then show ?case by (simp add: lib_inv_def rows_def)
  qed (blast intro: UploadISO_inv DeleteISO_inv same_files_inv[OF DownloadISOFromURL_same] performISODownload_inv
        TouchISOLastUsed_inv)+
  then show ?thesis by (auto simp: lib_inv_def registered_def)
qed

end
