(* ===== verification/Boards.thy ===== *)
theory Boards
  imports Isos
begin

text \<open>
  The board drivers, as the BMC proxy uses them: \<open>BoardHandler\<close> of \<open>src/internal/boards/board.go\<close> and its five
  implementations. A handler is a constructor of \<open>board\<close>, a method a function on it. The laws the proxy relies on are
  the locale \<open>board_handler\<close>, interpreted on every board at the end.

  A request and a response are records of what the proxy looks at: the headers as a map from canonical names to
  values, the cookies of a request as the list that \<open>Cookies\<close> returns.
\<close>

section \<open>HTTP messages\<close>

text \<open>\<open>http.CanonicalHeaderKey\<close>\<close>

definition upper_char :: "char \<Rightarrow> char" where
  "upper_char c = (let n = of_char c :: nat in if 97 \<le> n \<and> n \<le> 122 then char_of (n - 32) else c)"

definition lower_char :: "char \<Rightarrow> char" where
  "lower_char c = (let n = of_char c :: nat in if 65 \<le> n \<and> n \<le> 90 then char_of (n + 32) else c)"

fun canonical :: "bool \<Rightarrow> string \<Rightarrow> string" where
  "canonical up [] = []"
| "canonical up (c # cs) = (if up then upper_char c else lower_char c) # canonical (c = CHR ''-'') cs"

type_synonym header = "string \<rightharpoonup> string"

definition h_get :: "string \<Rightarrow> header \<Rightarrow> string" where
  "h_get k h = (case h (canonical True k) of None \<Rightarrow> '''' | Some v \<Rightarrow> v)"

definition h_set :: "string \<Rightarrow> string \<Rightarrow> header \<Rightarrow> header" where
  "h_set k v h = h(canonical True k \<mapsto> v)"

definition h_del :: "string \<Rightarrow> header \<Rightarrow> header" where
  "h_del k h = h(canonical True k := None)"

record web_request =
  wr_Method :: string
  wr_Scheme :: string
  wr_Host :: string
  wr_Path :: string
  wr_RawPath :: string
  wr_Header :: header
  wr_Cookies :: "(string \<times> string) list"

text \<open>A \<open>Set-Cookie\<close> header: \<open>sk_DomainOk\<close> tells whether its domain, if it has one, is the host it comes from.\<close>

record set_cookie =
  sk_Name :: string
  sk_Value :: string
  sk_Path :: string
  sk_Secure :: bool
  sk_MaxAge :: int
  sk_Expires :: "int option"
  sk_DomainOk :: bool

record web_response =
  wo_Status :: nat
  wo_Header :: header
  wo_SetCookies :: "set_cookie list"
  wo_Body :: bytes

definition text_bytes :: "string \<Rightarrow> bytes" where
  "text_bytes s = map (\<lambda>c. of_nat (of_char c)) s"

abbreviation no_header :: header where "no_header \<equiv> Map.empty"

definition extra_of :: "BMCCredentials \<Rightarrow> string \<Rightarrow> string" where
  "extra_of creds k = (case map_of (bc_Extra creds) k of None \<Rightarrow> '''' | Some v \<Rightarrow> v)"

section \<open>The handlers\<close>

datatype board = IDRAC8Board | IDRAC9Board | MegaRACBoard | NanoKVMBoard | APCBoard

definition boards_Get :: "string \<Rightarrow> board option" where
  "boards_Get boardType =
     (if boardType = ''dell_idrac8'' then Some IDRAC8Board
      else if boardType = ''dell_idrac9'' then Some IDRAC9Board
      else if boardType = ''ami_megarac'' then Some MegaRACBoard
      else if boardType = ''nanokvm'' then Some NanoKVMBoard
      else if boardType = ''apc_ups'' then Some APCBoard
      else None)"

fun Scheme :: "board \<Rightarrow> string" where
  "Scheme IDRAC8Board = ''https''"
| "Scheme IDRAC9Board = ''https''"
| "Scheme MegaRACBoard = ''http''"
| "Scheme NanoKVMBoard = ''http''"
| "Scheme APCBoard = ''http''"

definition BMCBaseURL :: "string \<Rightarrow> string \<Rightarrow> int \<Rightarrow> string" where
  "BMCBaseURL boardType ip port =
     (let scheme = (case boards_Get boardType of None \<Rightarrow> ''http'' | Some h \<Rightarrow> Scheme h);
          port = (if port = 0 then (if scheme = ''https'' then 443 else 80) else port)
      in scheme @ ''://'' @ ip @ '':'' @ show_int port)"

definition index_page :: "BMCCredentials \<Rightarrow> string" where
  "index_page creds = ''index.html?ST1='' @ extra_of creds ''st1'' @ '',ST2='' @ bc_CSRFToken creds"

fun LoginBypass :: "board \<Rightarrow> string \<Rightarrow> BMCCredentials \<Rightarrow> string" where
  "LoginBypass IDRAC8Board path creds =
     (if path = ''/'' \<or> path = ''/start.html'' \<or> path = ''/login.html'' then index_page creds else '''')"
| "LoginBypass IDRAC9Board path creds = ''''"
| "LoginBypass MegaRACBoard path creds = ''''"
| "LoginBypass NanoKVMBoard path creds = ''''"
| "LoginBypass APCBoard path creds = (if path = ''/'' \<or> has_suffix ''/logon.htm'' path then ''home.htm'' else '''')"

definition session_set_cookie :: "string \<Rightarrow> BMCCredentials \<Rightarrow> set_cookie" where
  "session_set_cookie name creds = \<lparr>sk_Name = name, sk_Value = bc_SessionCookie creds, sk_Path = ''/'', sk_Secure = True,
     sk_MaxAge = 0, sk_Expires = None, sk_DomainOk = True\<rparr>"

definition xml_declaration :: string where
  "xml_declaration = ''<?xml version='' @ quoted ''1.0'' @ '' encoding='' @ quoted ''UTF-8'' @ ''?>''"

text \<open>The response, when the request is intercepted.\<close>

fun LoginIntercept :: "board \<Rightarrow> string \<Rightarrow> string \<Rightarrow> BMCCredentials \<Rightarrow> web_response option" where
  "LoginIntercept IDRAC8Board method path creds =
     (if method = ''POST'' \<and> path = ''/data/logout'' then
        Some \<lparr>wo_Status = 200, wo_Header = h_set ''Content-Type'' ''text/xml'' no_header, wo_SetCookies = [],
              wo_Body = text_bytes (xml_declaration @ ''<root><status>ok</status></root>'')\<rparr>
      else if method = ''POST'' \<and> path = ''/data/login'' then
        Some \<lparr>wo_Status = 200, wo_Header = h_set ''Content-Type'' ''text/xml'' no_header,
              wo_SetCookies = [session_set_cookie ''-http-session-'' creds],
              wo_Body = text_bytes (xml_declaration @ '' <root> <status>ok</status> <authResult>0</authResult> <forwardUrl>''
                          @ index_page creds @ ''</forwardUrl> </root>'')\<rparr>
      else None)"
| "LoginIntercept IDRAC9Board method path creds =
     (if method = ''POST'' \<and> path = ''/sysmgmt/2015/bmc/session'' then
        Some \<lparr>wo_Status = 201, wo_Header = h_set ''XSRF-TOKEN'' (bc_CSRFToken creds)
                (h_set ''Content-Type'' ''application/json; charset=utf-8'' no_header),
              wo_SetCookies = [session_set_cookie ''-http-session-'' creds],
              wo_Body = text_bytes (''{'' @ quoted ''authResult'' @ '':0}'')\<rparr>
      else None)"
| "LoginIntercept MegaRACBoard method path creds =
     (if method = ''GET'' \<and> path = ''/rpc/WEBSES/logout.asp'' then
        Some \<lparr>wo_Status = 200, wo_Header = h_set ''Content-Type'' ''application/json'' no_header, wo_SetCookies = [],
              wo_Body = text_bytes (''{'' @ quoted ''WEBSES'' @ '':{'' @ quoted ''SESSID'' @ '':'' @ quoted ''Disconnected'' @ ''}}'')\<rparr>
      else None)"
| "LoginIntercept NanoKVMBoard method path creds = None"
| "LoginIntercept APCBoard method path creds = None"

definition add_cookie :: "string \<Rightarrow> string \<Rightarrow> web_request \<Rightarrow> web_request" where
  "add_cookie n v r = r\<lparr>wr_Cookies := wr_Cookies r @ [(n, v)]\<rparr>"

definition set_token :: "string \<Rightarrow> BMCCredentials \<Rightarrow> web_request \<Rightarrow> web_request" where
  "set_token k creds r =
     (if bc_CSRFToken creds \<noteq> '''' then r\<lparr>wr_Header := h_set k (bc_CSRFToken creds) (wr_Header r)\<rparr> else r)"

fun InjectCredentials :: "board \<Rightarrow> BMCCredentials \<Rightarrow> web_request \<Rightarrow> web_request" where
  "InjectCredentials IDRAC8Board creds r = set_token ''ST2'' creds (add_cookie ''-http-session-'' (bc_SessionCookie creds) r)"
| "InjectCredentials IDRAC9Board creds r = set_token ''XSRF-TOKEN'' creds (add_cookie ''-http-session-'' (bc_SessionCookie creds) r)"
| "InjectCredentials MegaRACBoard creds r = set_token ''CSRFTOKEN'' creds (add_cookie ''SessionCookie'' (bc_SessionCookie creds) r)"
| "InjectCredentials NanoKVMBoard creds r = add_cookie ''nano-kvm-token'' (bc_SessionCookie creds) r"
| "InjectCredentials APCBoard creds r = r"

text \<open>What follows the session token of an APC path: \<open>p\<close> begins with \<open>/NMC/\<close>.\<close>

definition after_token :: "string \<Rightarrow> string option" where
  "after_token p = (let rest = dropWhile (\<lambda>c. c \<noteq> CHR ''/'') (drop 5 p) in if rest = [] then None else Some rest)"

definition has_prefix :: "string \<Rightarrow> string \<Rightarrow> bool" where
  "has_prefix pre s \<longleftrightarrow> take (length pre) s = pre"

definition trim_prefix :: "string \<Rightarrow> string \<Rightarrow> string" where
  "trim_prefix pre s = (if has_prefix pre s then drop (length pre) s else s)"

definition strip_nmc :: "string \<Rightarrow> string" where
  "strip_nmc p = (if has_prefix ''/NMC/'' p then (case after_token p of None \<Rightarrow> p | Some rest \<Rightarrow> rest) else p)"

fun RewriteRequestURL :: "board \<Rightarrow> BMCCredentials \<Rightarrow> web_request \<Rightarrow> web_request" where
  "RewriteRequestURL APCBoard creds r =
     (let nmc = extra_of creds ''nmc_path'' in
      if nmc = '''' then r
      else (let p = strip_nmc (wr_Path r) in
            r\<lparr>wr_Path := nmc @ p, wr_RawPath := (if wr_RawPath r \<noteq> '''' then nmc @ p else wr_RawPath r)\<rparr>))"
| "RewriteRequestURL _ creds r = r"

text \<open>\<open>InferContentType\<close>\<close>

definition InferContentType :: "string \<Rightarrow> string" where
  "InferContentType path =
     (if has_suffix ''.html'' path \<or> has_suffix ''.htm'' path then ''text/html''
      else if has_suffix ''.js'' path \<or> has_suffix ''.jsesp'' path then ''application/javascript''
      else if has_suffix ''.css'' path then ''text/css''
      else if has_suffix ''.json'' path then ''application/json''
      else if has_suffix ''.png'' path then ''image/png''
      else if has_suffix ''.gif'' path then ''image/gif''
      else if has_suffix ''.jpg'' path \<or> has_suffix ''.jpeg'' path then ''image/jpeg''
      else if has_suffix ''.svg'' path then ''image/svg+xml''
      else if has_suffix ''.xml'' path then ''text/xml''
      else ''text/html'')"

text \<open>\<open>path\<close> is the path of the request that was sent to the BMC.\<close>

fun ModifyProxyResponse :: "board \<Rightarrow> string \<Rightarrow> BMCCredentials option \<Rightarrow> header \<Rightarrow> header" where
  "ModifyProxyResponse IDRAC8Board path creds h =
     (let h = (if h_get ''Content-Type'' h = ''application/x-gzip'' then h_set ''Content-Type'' (InferContentType path) h else h);
          h = (if has_suffix ''.jsesp'' path then h_set ''Content-Type'' ''application/javascript'' h else h)
      in if h_get ''X_Language'' h = '''' then h_set ''X_Language'' ''en'' h else h)"
| "ModifyProxyResponse NanoKVMBoard path creds h =
     (case creds of
        None \<Rightarrow> h
      | Some c \<Rightarrow> if bc_SessionCookie c \<noteq> '''' then h_set ''X-KVM-NanoToken'' (bc_SessionCookie c) h else h)"
| "ModifyProxyResponse _ path creds h = h"

fun RewriteLocationHeader :: "board \<Rightarrow> string \<Rightarrow> string \<Rightarrow> string" where
  "RewriteLocationHeader APCBoard loc proxyPrefix =
     (let after = trim_prefix proxyPrefix loc in
      if has_prefix ''/NMC/'' after then
        (case after_token after of Some rest \<Rightarrow> proxyPrefix @ rest | None \<Rightarrow> proxyPrefix @ ''/'')
      else loc)"
| "RewriteLocationHeader _ loc proxyPrefix = loc"

fun CookiesToStrip :: "board \<Rightarrow> string list" where
  "CookiesToStrip IDRAC8Board = [''-http-session-'']"
| "CookiesToStrip IDRAC9Board = [''-http-session-'']"
| "CookiesToStrip MegaRACBoard = [''SessionCookie'']"
| "CookiesToStrip NanoKVMBoard = [''nano-kvm-token'']"
| "CookiesToStrip APCBoard = []"

section \<open>The contract of a handler\<close>

lemma has_prefix_append [simp]: "has_prefix p (p @ s)"
  by (simp add: has_prefix_def)

lemma has_prefix_iff: "has_prefix p s \<longleftrightarrow> (\<exists>t. s = p @ t)"
  unfolding has_prefix_def by (metis append_eq_conv_conj append_take_drop_id)

lemma trim_prefix_append [simp]: "trim_prefix p (p @ s) = s"
  by (simp add: trim_prefix_def)

text \<open>What the proxy relies on: the credentials are cookies that the browser cannot send itself and headers, they do not
  change where the request goes, and a location below the prefix of the proxy stays there.\<close>

locale board_handler =
  fixes strip :: "string list"
    and inject :: "BMCCredentials \<Rightarrow> web_request \<Rightarrow> web_request"
    and rewrite :: "BMCCredentials \<Rightarrow> web_request \<Rightarrow> web_request"
    and relocate :: "string \<Rightarrow> string \<Rightarrow> string"
  assumes inject_cookies: "\<exists>cs. wr_Cookies (inject c r) = wr_Cookies r @ cs \<and> fst ` set cs \<subseteq> set strip"
    and inject_target: "wr_Scheme (inject c r) = wr_Scheme r \<and> wr_Host (inject c r) = wr_Host r"
    and rewrite_target: "wr_Scheme (rewrite c r) = wr_Scheme r \<and> wr_Host (rewrite c r) = wr_Host r"
    and rewrite_cookies: "wr_Cookies (rewrite c r) = wr_Cookies r"
    and relocate_below: "has_prefix p loc \<Longrightarrow> has_prefix p (relocate loc p)"
begin

text \<open>A request with the injected credentials: what it adds to the cookies, where it goes.\<close>

lemma credentials_sent:
  obtains cs where "wr_Cookies (rewrite c (inject c r)) = wr_Cookies r @ cs" "fst ` set cs \<subseteq> set strip"
    "wr_Scheme (rewrite c (inject c r)) = wr_Scheme r" "wr_Host (rewrite c (inject c r)) = wr_Host r"
  using inject_cookies[of c r] inject_target rewrite_target rewrite_cookies by auto

text \<open>A cookie that the strip list does not name is the browser's.\<close>

lemma foreign_cookies:
  assumes "n \<notin> set strip"
  shows "(n, v) \<in> set (wr_Cookies (rewrite c (inject c r))) \<longleftrightarrow> (n, v) \<in> set (wr_Cookies r)"
  using assms by (rule_tac credentials_sent[of c r]) force

lemma relocate_twice: "has_prefix p loc \<Longrightarrow> \<exists>t. relocate loc p = p @ t"
  using relocate_below by (simp add: has_prefix_iff)

end

lemma RewriteLocationHeader_below: "has_prefix p loc \<Longrightarrow> has_prefix p (RewriteLocationHeader b loc p)"
  by (cases b) (auto simp: Let_def split: option.split)

interpretation handler: board_handler "CookiesToStrip b" "InjectCredentials b" "RewriteRequestURL b" "RewriteLocationHeader b" for b
proof
  show "has_prefix p loc \<Longrightarrow> has_prefix p (RewriteLocationHeader b loc p)" for p loc by (rule RewriteLocationHeader_below)
qed (cases b; simp add: add_cookie_def set_token_def Let_def)+

end
