(* ===== verification/Regexp.thy ===== *)
theory Regexp
  imports Client
begin

text \<open>
  Go's \<open>regexp\<close>, as far as the BMC drivers use it: literals, classes, groups, alternatives, greedy and lazy
  repetition. A match is leftmost-first: of the matches that begin at the leftmost position the one is taken that a
  backtracking search finds first. \<open>re_match\<close> lists all matches of a prefix in that order, each with the texts of the
  groups and the rest of the string; \<open>re_lang\<close> says independently which strings an expression describes.
\<close>

section \<open>Expressions\<close>

datatype regex =
    RChar "char \<Rightarrow> bool"
  | REmpty
  | RSeq regex regex
  | RAlt regex regex
  | RStar bool regex
  | RGroup regex
  | RBoundary

definition word_char :: "char \<Rightarrow> bool" where
  "word_char c \<longleftrightarrow> (let n = of_char c :: nat in (48 \<le> n \<and> n \<le> 57) \<or> (65 \<le> n \<and> n \<le> 90) \<or> (97 \<le> n \<and> n \<le> 122) \<or> n = 95)"

definition space_char :: "char \<Rightarrow> bool" where
  "space_char c \<longleftrightarrow> (let n = of_char c :: nat in n \<in> {9, 10, 12, 13, 32})"

definition digit_char :: "char \<Rightarrow> bool" where
  "digit_char c \<longleftrightarrow> (let n = of_char c :: nat in 48 \<le> n \<and> n \<le> 57)"

text \<open>\<open>RBoundary\<close> is \<open>\b\<close> behind a word character. The flag of \<open>RStar\<close> is set when it is greedy.\<close>

lemma concat_map_cong [fundef_cong]:
  "xs = ys \<Longrightarrow> (\<And>x. x \<in> set ys \<Longrightarrow> f x = g x) \<Longrightarrow> concat (map f xs) = concat (map g ys)"
  by (metis map_cong)

function (sequential) re_match :: "regex \<Rightarrow> string \<Rightarrow> (string list \<times> string) list" where
  "re_match (RChar p) s = (case s of [] \<Rightarrow> [] | c # cs \<Rightarrow> if p c then [([], cs)] else [])"
| "re_match REmpty s = [([], s)]"
| "re_match (RSeq a b) s = concat (map (\<lambda>(g, t). map (\<lambda>(h, u). (g @ h, u)) (if length t \<le> length s then re_match b t else [])) (re_match a s))"
| "re_match (RAlt a b) s = re_match a s @ re_match b s"
| "re_match (RStar greedy a) s =
     (let more = concat (map (\<lambda>(g, t). if length t < length s then map (\<lambda>(h, u). (g @ h, u)) (re_match (RStar greedy a) t) else [])
                   (re_match a s))
      in if greedy then more @ [([], s)] else ([], s) # more)"
| "re_match (RGroup a) s = map (\<lambda>(g, t). (take (length s - length t) s # g, t)) (re_match a s)"
| "re_match RBoundary s = (case s of [] \<Rightarrow> [([], s)] | c # cs \<Rightarrow> if word_char c then [] else [([], s)])"
  by pat_completeness auto
termination
  by (relation "measures [\<lambda>(r, s). length s, \<lambda>(r, s). size r]") auto

lemmas re_star = re_match.simps(5)
declare re_match.simps(5) [simp del]

text \<open>\<open>FindStringSubmatch\<close>: the texts of the whole match and of its groups.\<close>

fun re_find :: "regex \<Rightarrow> string \<Rightarrow> string list option" where
  "re_find r s =
     (case re_match r s of
        (g, t) # _ \<Rightarrow> Some (take (length s - length t) s # g)
      | [] \<Rightarrow> (case s of [] \<Rightarrow> None | c # cs \<Rightarrow> re_find r cs))"

declare re_find.simps [simp del]

fun replace_runs :: "(char \<Rightarrow> bool) \<Rightarrow> string \<Rightarrow> bool \<Rightarrow> string" where
  "replace_runs p [] inside = []"
| "replace_runs p (c # cs) inside =
     (if p c then (if inside then [] else [CHR '' '']) @ replace_runs p cs True else c # replace_runs p cs False)"

text \<open>\<open>regexp.MustCompile(`\s+`).ReplaceAllString(s, " ")\<close>\<close>

definition flatten :: "string \<Rightarrow> string" where
  "flatten s = replace_runs space_char s False"

section \<open>Building expressions\<close>

fun re_lit :: "string \<Rightarrow> regex" where
  "re_lit [] = REmpty"
| "re_lit [c] = RChar (\<lambda>x. x = c)"
| "re_lit (c # cs) = RSeq (RChar (\<lambda>x. x = c)) (re_lit cs)"

fun re_all :: "regex list \<Rightarrow> regex" where
  "re_all [] = REmpty"
| "re_all [r] = r"
| "re_all (r # rs) = RSeq r (re_all rs)"

definition re_plus :: "regex \<Rightarrow> regex" where "re_plus r = RSeq r (RStar True r)"
definition re_opt :: "regex \<Rightarrow> regex" where "re_opt r = RAlt r REmpty"
definition re_space :: regex where "re_space = RStar True (RChar space_char)"
definition re_not :: "char \<Rightarrow> regex" where "re_not d = RChar (\<lambda>c. c \<noteq> d)"
definition re_dot :: regex where "re_dot = RChar (\<lambda>c. c \<noteq> CHR 0x0A)"
definition re_digits :: regex where "re_digits = RGroup (re_plus (RChar digit_char))"

text \<open>\<open>(\d+(?:\.\d+)?)\<close>\<close>

definition re_decimal :: regex where
  "re_decimal = RGroup (RSeq (re_plus (RChar digit_char))
     (re_opt (RSeq (RChar (\<lambda>c. c = CHR ''.'')) (re_plus (RChar digit_char)))))"

section \<open>The strings an expression describes\<close>

text \<open>\<open>re_lang r u rest\<close>: \<open>r\<close> matches \<open>u\<close> in front of \<open>rest\<close>.\<close>

inductive re_lang :: "regex \<Rightarrow> string \<Rightarrow> string \<Rightarrow> bool" where
  char: "p c \<Longrightarrow> re_lang (RChar p) [c] rest"
| empty: "re_lang REmpty [] rest"
| seq: "\<lbrakk>re_lang a u (v @ rest); re_lang b v rest\<rbrakk> \<Longrightarrow> re_lang (RSeq a b) (u @ v) rest"
| left: "re_lang a u rest \<Longrightarrow> re_lang (RAlt a b) u rest"
| right: "re_lang b u rest \<Longrightarrow> re_lang (RAlt a b) u rest"
| stop: "re_lang (RStar g a) [] rest"
| more: "\<lbrakk>re_lang a u (v @ rest); re_lang (RStar g a) v rest\<rbrakk> \<Longrightarrow> re_lang (RStar g a) (u @ v) rest"
| group: "re_lang a u rest \<Longrightarrow> re_lang (RGroup a) u rest"
| boundary: "\<forall>c cs. rest = c # cs \<longrightarrow> \<not> word_char c \<Longrightarrow> re_lang RBoundary [] rest"

inductive_cases re_lang_cases: "re_lang (RChar p) u rest" "re_lang REmpty u rest" "re_lang (RSeq a b) u rest"
  "re_lang (RAlt a b) u rest" "re_lang (RGroup a) u rest" "re_lang RBoundary u rest"

lemma re_star_iff:
  "(g, t) \<in> set (re_match (RStar greedy a) s) \<longleftrightarrow> (g = [] \<and> t = s)
     \<or> (\<exists>g1 t1 g2. (g1, t1) \<in> set (re_match a s) \<and> length t1 < length s \<and> (g2, t) \<in> set (re_match (RStar greedy a) t1) \<and> g = g1 @ g2)"
  by (subst re_star, cases greedy) (auto simp: Let_def split: if_split_asm; fastforce)+

lemma re_match_sound: "(g, t) \<in> set (re_match r s) \<Longrightarrow> \<exists>u. s = u @ t \<and> re_lang r u t"
proof (induction r s arbitrary: g t rule: re_match.induct)
  case (1 p s)
  then show ?case by (auto split: list.splits if_split_asm intro: re_lang.char)
next
  case (3 a b s)
  then obtain g1 t1 g2 where *: "(g1, t1) \<in> set (re_match a s)" "(g2, t) \<in> set (re_match b t1)"
    by (auto split: if_split_asm)
  then obtain u where u: "s = u @ t1" "re_lang a u t1" using 3 by blast
  then obtain v where "t1 = v @ t" "re_lang b v t" using 3 * by (metis length_append le_add2)
  then show ?case using u re_lang.seq by (metis append.assoc)
next
  case (4 a b s)
  from 4(3) show ?case using 4(1,2) by (metis UnE re_lang.left re_lang.right re_match.simps(4) set_append)
next
  case (5 greedy a s)
  from 5(3) consider "t = s" | g1 t1 g2 where "(g1, t1) \<in> set (re_match a s)" "length t1 < length s" "(g2, t) \<in> set (re_match (RStar greedy a) t1)"
    unfolding re_star_iff[of g t] by blast
  then show ?case
  proof cases
    case 1
    then show ?thesis using re_lang.stop by blast
  next
    case 2
    then obtain u where u: "s = u @ t1" "re_lang a u t1" using 5 by blast
    obtain v where "t1 = v @ t" "re_lang (RStar greedy a) v t" using 5(2)[OF 2(1) refl 2(2,3)] by blast
    then show ?thesis using u re_lang.more by (metis append.assoc)
  qed
next
  case (6 a s)
  then show ?case using re_lang.group by fastforce
next
  case (7 s)
  then show ?case by (auto split: list.splits if_split_asm intro: re_lang.boundary)
qed (auto intro: re_lang.intros)

lemma re_match_complete: "re_lang r u t \<Longrightarrow> \<exists>g. (g, t) \<in> set (re_match r (u @ t))"
proof (induction rule: re_lang.induct)
  case (seq a u v rest b)
  then obtain g h where "(g, v @ rest) \<in> set (re_match a ((u @ v) @ rest))" "(h, rest) \<in> set (re_match b (v @ rest))"
    by auto
  then show ?case by (force simp: image_iff)
next
  case (more a u v rest g)
  show ?case
  proof (cases u)
    case Nil
    then show ?thesis using more by simp
  next
    case (Cons c cs)
    obtain h k where "(h, v @ rest) \<in> set (re_match a ((u @ v) @ rest))" "(k, rest) \<in> set (re_match (RStar g a) (v @ rest))"
      using more by auto
    moreover have "length (v @ rest) < length ((u @ v) @ rest)" using Cons by simp
    ultimately show ?thesis unfolding append_assoc by (metis append_assoc re_star_iff)
  qed
next
  case (boundary rest)
  then show ?case by (cases rest) auto
next
  case (stop g a rest)
  then show ?case using re_star_iff[of "[]" rest] by auto
next
  case (group a u rest)
  then obtain g where "(g, rest) \<in> set (re_match a (u @ rest))" by blast
  then have "(take (length (u @ rest) - length rest) (u @ rest) # g, rest) \<in> set (re_match (RGroup a) (u @ rest))"
    by (auto intro!: image_eqI[where x = "(g, rest)"])
  then show ?case by blast
next
  case (char p c rest)
  then show ?case by simp
next
  case (left a u rest b)
  then show ?case by auto
next
  case (right b u rest a)
  then show ?case by auto
qed simp

text \<open>The matcher agrees with the meaning of the expressions: a search succeeds exactly when some part of the string
  is in the language of the expression.\<close>

theorem re_find_iff:
  "re_find r s \<noteq> None \<longleftrightarrow> (\<exists>pre u post. s = pre @ u @ post \<and> re_lang r u post)"
proof (induction s)
  case Nil
  have "re_find r [] \<noteq> None \<longleftrightarrow> re_match r [] \<noteq> []" by (subst re_find.simps) (auto split: list.splits)
  also have "\<dots> \<longleftrightarrow> re_lang r [] []" using re_match_sound[of _ _ r "[]"] re_match_complete[of r "[]" "[]"] by (cases "re_match r []") force+
  finally show ?case by auto
next
  case (Cons c cs)
  show ?case
  proof (cases "re_match r (c # cs)")
    case (Cons m ms)
    then obtain u where "c # cs = u @ snd m" "re_lang r u (snd m)"
      using re_match_sound[of "fst m" "snd m" r "c # cs"] by auto
    then have "\<exists>pre u post. c # cs = pre @ u @ post \<and> re_lang r u post" by (metis append_Nil)
    then show ?thesis using Cons by (subst re_find.simps) (auto split: prod.splits)
  next
    case Nil
    have "\<not> re_lang r u post" if "c # cs = u @ post" for u post
      using re_match_complete[of r u post] that Nil by auto
    then have "(\<exists>pre u post. c # cs = pre @ u @ post \<and> re_lang r u post) \<longleftrightarrow> (\<exists>pre u post. cs = pre @ u @ post \<and> re_lang r u post)"
      by (metis append_Cons append_Nil list.sel(3) neq_Nil_conv)
    then show ?thesis using Nil Cons.IH by (subst re_find.simps) simp
  qed
qed

end
