(* ===== verification/Status.thy ===== *)
theory Status
  imports Boards Regexp Breaker Complex_Main
begin

text \<open>
  The status of the devices: \<open>FetchStatus\<close> of the board drivers (\<open>src/internal/boards\<close>) and the status poller of
  \<open>src/internal/api/status.go\<close>.

  A BMC is what a \<open>GET\<close> of a path answers: nothing, when the request fails, or a status and a body, which may break
  off. The JSON decoder is a parameter for each type it decodes into: \<open>None\<close> is an error. Numbers that the code keeps in a
  \<open>float64\<close> are rationals.
\<close>

section \<open>Device status\<close>

record DeviceStatus =
  ds_Online :: bool
  ds_PowerState :: string
  ds_Model :: string
  ds_Health :: string
  ds_LoadWatts :: rat
  ds_LoadPct :: rat
  ds_LoadAmps :: rat
  ds_Voltage :: rat
  ds_BatteryPct :: rat
  ds_RuntimeMin :: rat
  ds_TemperatureC :: rat
  ds_AppVersion :: string
  ds_ImageVersion :: string
  ds_UpdateAvail :: bool
  ds_CircuitBreakerState :: string
  ds_LastUpdated :: int
  ds_Error :: string

definition blank_status :: "bool \<Rightarrow> DeviceStatus" where
  "blank_status online = \<lparr>ds_Online = online, ds_PowerState = '''', ds_Model = '''', ds_Health = '''', ds_LoadWatts = 0, ds_LoadPct = 0,
     ds_LoadAmps = 0, ds_Voltage = 0, ds_BatteryPct = 0, ds_RuntimeMin = 0, ds_TemperatureC = 0, ds_AppVersion = '''',
     ds_ImageVersion = '''', ds_UpdateAvail = False, ds_CircuitBreakerState = '''', ds_LastUpdated = zeroTime, ds_Error = ''''\<rparr>"

record json_decoder =
  js_System :: "string \<Rightarrow> (string \<times> string \<times> string) option"
  js_Power :: "string \<Rightarrow> rat list option"
  js_Thermal :: "string \<Rightarrow> (string \<times> rat) list option"
  js_NanoInfo :: "string \<Rightarrow> (int \<times> string \<times> string) option"
  js_NanoGpio :: "string \<Rightarrow> (int \<times> bool) option"
  js_Releases :: "string \<Rightarrow> (string \<times> bool \<times> bool) list option"

type_synonym http_reply = "(nat \<times> string option) option"
type_synonym bmc = "string \<Rightarrow> http_reply"

definition trim_space :: "string \<Rightarrow> string" where
  "trim_space s = (let sp = (\<lambda>c. space_char c \<or> c = CHR 0x0B) in rev (dropWhile sp (rev (dropWhile sp s))))"

text \<open>\<open>strconv.ParseFloat\<close> of digits with an optional fraction\<close>

definition decimal_value :: "string \<Rightarrow> rat" where
  "decimal_value s =
     (let w = takeWhile (\<lambda>c. c \<noteq> CHR ''.'') s; f = drop (Suc (length w)) s
      in of_int (digits_value (w @ f)) / 10 ^ length f)"

text \<open>The first group of a match\<close>

definition re_group :: "regex \<Rightarrow> string \<Rightarrow> string option" where
  "re_group r s = (case re_find r s of Some (_ # g # _) \<Rightarrow> Some g | _ \<Rightarrow> None)"

definition set_match :: "regex \<Rightarrow> (rat \<Rightarrow> DeviceStatus \<Rightarrow> DeviceStatus) \<Rightarrow> string \<Rightarrow> DeviceStatus \<Rightarrow> DeviceStatus" where
  "set_match r f s st = (case re_group r s of None \<Rightarrow> st | Some g \<Rightarrow> f (decimal_value g) st)"

section \<open>iDRAC\<close>

text \<open>Both generations read the same three Redfish resources; they differ in the request's authentication.\<close>

definition ok_body :: "http_reply \<Rightarrow> string option" where
  "ok_body reply = (case reply of Some (code, Some b) \<Rightarrow> if code = 200 then Some b else None | _ \<Rightarrow> None)"

definition inlet :: "(string \<times> rat) list \<Rightarrow> rat option" where
  "inlet ts = map_option snd (List.find (\<lambda>(n, _). contains ''inlet'' (to_lower n)) ts)"

definition redfish_status :: "json_decoder \<Rightarrow> bmc \<Rightarrow> DeviceStatus" where
  "redfish_status js get =
     (let reply = get ''/redfish/v1/Systems/System.Embedded.1''; st = blank_status True in
      if reply = None then st\<lparr>ds_Online := False\<rparr>
      else
        (let st = (case Option.bind (ok_body reply) (js_System js) of
               None \<Rightarrow> st
             | Some (pw, model, health) \<Rightarrow>
                 st\<lparr>ds_PowerState := to_lower pw, ds_Model := model, ds_Health := to_lower health\<rparr>);
             st = (case Option.bind (ok_body (get ''/redfish/v1/Chassis/System.Embedded.1/Power'')) (js_Power js) of
               Some (w # _) \<Rightarrow> st\<lparr>ds_LoadWatts := w\<rparr>
             | _ \<Rightarrow> st)
         in case Option.bind (Option.bind (ok_body (get ''/redfish/v1/Chassis/System.Embedded.1/Thermal'')) (js_Thermal js)) inlet of
              None \<Rightarrow> st
            | Some t \<Rightarrow> st\<lparr>ds_TemperatureC := t\<rparr>))"

section \<open>MegaRAC\<close>

definition re_quoted_spaces :: regex where
  "re_quoted_spaces = RStar True (RChar (\<lambda>c. c = CHR 0x27 \<or> space_char c))"

definition q1 :: string where "q1 = [CHR 0x27]"

definition re_js_text :: "string \<Rightarrow> regex" where
  "re_js_text key = re_all [re_lit key, re_quoted_spaces, re_lit '':'', re_space, re_lit q1, RGroup (RStar True (re_not CHR 0x27)), re_lit q1]"

definition re_power_state :: regex where
  "re_power_state = re_all [re_lit ''JF_STATE'', re_quoted_spaces, re_lit '':'', re_space, re_digits]"

definition re_cpu_temp :: regex where
  "re_cpu_temp = re_all [re_lit (q1 @ ''SensorName'' @ q1), re_space, re_lit '':'', re_space, re_lit (q1 @ ''CPU1 Temp'' @ q1),
     RStar True (re_not CHR ''}''), re_lit (q1 @ ''SensorReading'' @ q1), re_space, re_lit '':'', re_space, re_digits]"

definition some_text :: "string option \<Rightarrow> string list" where
  "some_text m = (case m of None \<Rightarrow> [] | Some g \<Rightarrow> if trim_space g = '''' then [] else [trim_space g])"

definition fru_model :: "string \<Rightarrow> DeviceStatus \<Rightarrow> DeviceStatus" where
  "fru_model fru st =
     (case some_text (re_group (re_js_text ''PI_ProductName'') fru) of
        p # _ \<Rightarrow> st\<lparr>ds_Model := p\<rparr>
      | [] \<Rightarrow>
          (case some_text (re_group (re_js_text ''BI_BoardMfr'') fru) @ some_text (re_group (re_js_text ''BI_BoardProductName'') fru) of
             [] \<Rightarrow> st
           | [a] \<Rightarrow> st\<lparr>ds_Model := a\<rparr>
           | a # b # _ \<Rightarrow> st\<lparr>ds_Model := a @ '' '' @ b\<rparr>))"

definition megarac_status :: "bmc \<Rightarrow> DeviceStatus" where
  "megarac_status get =
     (let st = blank_status True in
      case get ''/rpc/hoststatus.asp'' of
        None \<Rightarrow> st\<lparr>ds_Online := False\<rparr>
      | Some (_, None) \<Rightarrow> st
      | Some (_, Some body) \<Rightarrow>
          (let st = (case re_group re_power_state body of
                 None \<Rightarrow> st
               | Some g \<Rightarrow> st\<lparr>ds_PowerState := (if g = ''1'' then ''on'' else ''off'')\<rparr>)
           in case get ''/rpc/getfruinfo.asp'' of
                Some (_, Some fru) \<Rightarrow>
                  (let st = fru_model fru st
                   in case get ''/rpc/getallsensors.asp'' of
                        Some (_, Some sens) \<Rightarrow>
                          set_match re_cpu_temp (\<lambda>v st. if v > 0 then st\<lparr>ds_TemperatureC := v / 1000\<rparr> else st) sens st
                      | _ \<Rightarrow> st)
              | _ \<Rightarrow> st))"

section \<open>APC\<close>

definition data_value :: "string \<Rightarrow> regex list \<Rightarrow> regex" where
  "data_value name rest = re_all ([re_lit name, RStar False re_dot, re_lit (''dataValue'' @ [CHR 0x22] @ ''>''), re_space, re_decimal] @ rest)"

definition re_model :: "regex \<Rightarrow> regex" where
  "re_model name = re_all [name, RStar False re_dot, re_lit (''dataValue'' @ [CHR 0x22] @ ''>''), re_space, RGroup (re_plus (re_not CHR ''<''))]"

definition model_page :: "http_reply \<Rightarrow> regex \<Rightarrow> DeviceStatus \<Rightarrow> DeviceStatus" where
  "model_page reply r st =
     (case reply of
        None \<Rightarrow> st
      | Some (_, b) \<Rightarrow>
          (case some_text (re_group r (flatten (case b of None \<Rightarrow> '''' | Some b \<Rightarrow> b))) of [] \<Rightarrow> st | m # _ \<Rightarrow> st\<lparr>ds_Model := m\<rparr>))"

definition ups_values :: "string \<Rightarrow> DeviceStatus \<Rightarrow> DeviceStatus" where
  "ups_values flat st =
     set_match (re_all [re_lit ''Input Voltage'', RStar False re_dot, re_lit ''<td>'', re_space, re_decimal, re_space, re_lit ''VAC''])
       (\<lambda>v. ds_Voltage_update (\<lambda>_. v)) flat
     (set_match (data_value ''Internal Temperature'' [re_space, RAlt (re_lit ''&deg;'') (re_lit [CHR 0xC2, CHR 0xB0])])
       (\<lambda>v. ds_TemperatureC_update (\<lambda>_. v)) flat
     (set_match (data_value ''Load Current'' []) (\<lambda>v. ds_LoadAmps_update (\<lambda>_. v)) flat
     (set_match (data_value ''Load Power'' []) (\<lambda>v. ds_LoadPct_update (\<lambda>_. v)) flat
     (set_match (data_value ''Capacity'' [re_space, re_opt (re_lit ''&nbsp;''), re_space, re_lit ''%''])
       (\<lambda>v. ds_BatteryPct_update (\<lambda>_. v)) flat
     (set_match (data_value ''Runtime Remaining'' [re_space, re_lit ''min'']) (\<lambda>v. ds_RuntimeMin_update (\<lambda>_. v)) flat st)))))"

definition pdu_status :: "bmc \<Rightarrow> string \<Rightarrow> DeviceStatus \<Rightarrow> DeviceStatus" where
  "pdu_status get nmc st =
     (case get (nmc @ ''/home.htm'') of
        None \<Rightarrow> st\<lparr>ds_Online := False\<rparr>
      | Some (_, None) \<Rightarrow> st
      | Some (_, Some home) \<Rightarrow>
          (let st = model_page (get (nmc @ ''/aboutpdu.htm'')) (re_model (re_all [re_lit ''Model'', re_space, re_lit ''Number'']))
                 (st\<lparr>ds_PowerState := ''on'', ds_Model := ''APC PDU''\<rparr>);
               st = set_match (data_value ''Device Load'' [re_space, re_lit ''kW'']) (\<lambda>v. ds_LoadWatts_update (\<lambda>_. v * 1000)) (flatten home) st;
               st = set_match (re_all [re_lit ''Current Load Value is '', re_decimal, re_space, re_lit ''A''])
                      (\<lambda>v. ds_LoadAmps_update (\<lambda>_. v)) (flatten home) st
           in case get (nmc @ ''/phstat.htm'') of
                Some (_, Some ph) \<Rightarrow>
                  set_match (re_all [re_decimal, re_space, re_lit ''V'', RBoundary]) (\<lambda>v. ds_Voltage_update (\<lambda>_. v)) ph st
              | _ \<Rightarrow> st))"

definition apc_status :: "bmc \<Rightarrow> BMCCredentials \<Rightarrow> DeviceStatus" where
  "apc_status get creds =
     (let nmc = extra_of creds ''nmc_path''; st = blank_status True in
      case get (nmc @ ''/upstat.htm'') of
        Some (_, Some ups) \<Rightarrow>
          (let isUPS = contains ''Runtime Remaining'' ups \<or> contains ''langCapacity'' ups;
               st = (if isUPS then ups_values (flatten ups) (st\<lparr>ds_PowerState := ''on'', ds_Model := ''APC UPS''\<rparr>) else st);
               st = model_page (get (nmc @ ''/upabout.htm'')) (re_model (RAlt (re_lit ''langModel'') (re_lit ''Model''))) st
           in if isUPS then st else pdu_status get nmc st)
      | _ \<Rightarrow> pdu_status get nmc st)"

section \<open>NanoKVM\<close>

text \<open>The versions of the latest releases, kept in package variables; \<open>reply\<close> is the answer of the releases URL.\<close>

record nano_cache =
  nc_App :: string
  nc_Image :: string
  nc_CheckTime :: int

definition new_cache :: nano_cache where
  "new_cache = \<lparr>nc_App = '''', nc_Image = '''', nc_CheckTime = zeroTime\<rparr>"

fun scan_releases :: "(string \<times> bool \<times> bool) list \<Rightarrow> nano_cache \<Rightarrow> nano_cache" where
  "scan_releases [] c = c"
| "scan_releases ((tag, pre, draft) # rs) c =
     (if pre \<or> draft then scan_releases rs c
      else
        (let c = (if has_prefix ''v'' tag \<and> nc_Image c = '''' then c\<lparr>nc_Image := tag\<rparr>
                  else if \<not> has_prefix ''v'' tag \<and> nc_App c = '''' then c\<lparr>nc_App := tag\<rparr> else c)
         in if nc_App c \<noteq> '''' \<and> nc_Image c \<noteq> '''' then c else scan_releases rs c))"

definition getNanoKVMLatestVersions :: "json_decoder \<Rightarrow> int \<Rightarrow> http_reply \<Rightarrow> nano_cache \<Rightarrow> nano_cache" where
  "getNanoKVMLatestVersions js now reply c =
     (if since now (nc_CheckTime c) < 3600000000000 \<and> nc_App c \<noteq> '''' then c
      else case Option.bind (Option.bind reply snd) (js_Releases js) of
        None \<Rightarrow> c
      | Some rs \<Rightarrow> (scan_releases rs c)\<lparr>nc_CheckTime := now\<rparr>)"

text \<open>\<open>json.Decode\<close> into a fresh variable whose error is ignored: what fails to decode is the zero value.\<close>

definition nano_status :: "json_decoder \<Rightarrow> int \<Rightarrow> http_reply \<Rightarrow> bmc \<Rightarrow> nano_cache \<Rightarrow> DeviceStatus \<times> nano_cache" where
  "nano_status js now releases get c =
     (let st = (blank_status True)\<lparr>ds_Model := ''NanoKVM''\<rparr>;
          (st, c) =
            (case get ''/api/vm/info'' of
               None \<Rightarrow> (st, c)
             | Some (_, b) \<Rightarrow>
                 (case (case Option.bind b (js_NanoInfo js) of None \<Rightarrow> (0, '''', '''') | Some i \<Rightarrow> i) of
                    (code, img, app) \<Rightarrow>
                      if code = 0 then
                        (let c = getNanoKVMLatestVersions js now releases c
                         in (st\<lparr>ds_AppVersion := (if app \<noteq> '''' then ''v'' @ app else ds_AppVersion st),
                                ds_ImageVersion := (if img \<noteq> '''' then img else ds_ImageVersion st),
                                ds_UpdateAvail := (nc_App c \<noteq> '''' \<and> app \<noteq> nc_App c)\<rparr>, c))
                      else (st, c)))
      in (case get ''/api/vm/gpio'' of
            None \<Rightarrow> st
          | Some (_, b) \<Rightarrow>
              (case (case Option.bind b (js_NanoGpio js) of None \<Rightarrow> (0, False) | Some g \<Rightarrow> g) of
                 (code, pwr) \<Rightarrow> if code = 0 then st\<lparr>ds_PowerState := (if pwr then ''on'' else ''off'')\<rparr> else st), c))"

section \<open>Fetching a status\<close>

text \<open>\<open>None\<close> when the handler needs credentials and there are none. \<open>gets\<close> gives the answers of the BMC to the requests of
  the driver, which depend on the credentials.\<close>

fun FetchStatus :: "json_decoder \<Rightarrow> int \<Rightarrow> http_reply \<Rightarrow> (BMCCredentials option \<Rightarrow> bmc) \<Rightarrow> board \<Rightarrow> BMCCredentials option
    \<Rightarrow> nano_cache \<Rightarrow> DeviceStatus option \<times> nano_cache" where
  "FetchStatus js now rel gets IDRAC8Board creds c = (Some (redfish_status js (gets None)), c)"
| "FetchStatus js now rel gets b None c = (None, c)"
| "FetchStatus js now rel gets IDRAC9Board (Some k) c = (Some (redfish_status js (gets (Some k))), c)"
| "FetchStatus js now rel gets MegaRACBoard (Some k) c = (Some (megarac_status (gets (Some k))), c)"
| "FetchStatus js now rel gets APCBoard (Some k) c = (Some (apc_status (gets (Some k)) k), c)"
| "FetchStatus js now rel gets NanoKVMBoard (Some k) c = apfst Some (nano_status js now rel (gets (Some k)) c)"

end
