(* ===== verification/Poller.thy ===== *)
theory Poller
  imports Status
begin

text \<open>
  The status poller of \<open>src/internal/api/status.go\<close>: one circuit breaker and one cache entry for each server. The
  servers of one round are polled in parallel and share nothing, so a round is a fold over them. \<open>t0\<close> is the time when
  a poll begins, \<open>t1\<close> the time when the status has been fetched, \<open>None\<close> that the deadline of 30 seconds passed first.
\<close>

section \<open>State\<close>

type_synonym StatusCache = "string \<rightharpoonup> DeviceStatus"

record poller =
  po_breakers :: "string \<rightharpoonup> Breaker"
  po_cache :: StatusCache
  po_gauge :: "string \<rightharpoonup> bool"

definition NewStatusCache :: StatusCache where
  "NewStatusCache = Map.empty"

definition cache_Set :: "string \<Rightarrow> DeviceStatus \<Rightarrow> StatusCache \<Rightarrow> StatusCache" where
  "cache_Set name st c = c(name \<mapsto> st)"

definition new_poller :: poller where
  "new_poller = \<lparr>po_breakers = Map.empty, po_cache = NewStatusCache, po_gauge = Map.empty\<rparr>"

definition getBreaker :: "string \<Rightarrow> poller \<Rightarrow> Breaker" where
  "getBreaker name p = (case po_breakers p name of Some b \<Rightarrow> b | None \<Rightarrow> New 3 60000000000)"

fun state_name :: "State \<Rightarrow> string" where
  "state_name StateClosed = ''closed''"
| "state_name StateOpen = ''open''"
| "state_name StateHalfOpen = ''half-open''"

section \<open>One poll\<close>

definition fetchDeviceStatus :: "json_decoder \<Rightarrow> int \<Rightarrow> http_reply \<Rightarrow> (BMCCredentials option \<Rightarrow> bmc) \<Rightarrow> bool
    \<Rightarrow> (string \<rightharpoonup> bmcProxyEntry) \<Rightarrow> ServerConfig \<Rightarrow> nano_cache \<Rightarrow> DeviceStatus \<times> nano_cache" where
  "fetchDeviceStatus js now rel gets reachable proxies cfg c =
     (let creds = Option.bind (proxies (sc_Name cfg)) pe_bmcCreds;
          (st, c) = (case boards_Get (sc_BoardType cfg) of
             None \<Rightarrow> (None, c)
           | Some h \<Rightarrow> FetchStatus js now rel gets h creds c)
      in (case st of
            Some st \<Rightarrow> st
          | None \<Rightarrow> if reachable then blank_status True else (blank_status False)\<lparr>ds_Error := ''BMC unreachable''\<rparr>, c))"

definition record_poll :: "string \<Rightarrow> DeviceStatus \<Rightarrow> Breaker \<Rightarrow> poller \<Rightarrow> poller" where
  "record_poll name st b p = \<lparr>po_breakers = (po_breakers p)(name \<mapsto> b), po_cache = cache_Set name st (po_cache p),
     po_gauge = (po_gauge p)(name \<mapsto> ds_Online st)\<rparr>"

text \<open>The result tells whether the server was contacted.\<close>

definition poll_server :: "string \<Rightarrow> int \<Rightarrow> int \<Rightarrow> DeviceStatus option \<Rightarrow> poller \<Rightarrow> bool \<times> poller" where
  "poll_server name t0 t1 fetched p =
     (case Allow t0 (getBreaker name p) of
        (b, False) \<Rightarrow>
          (case State_op t0 b of
             (b, s) \<Rightarrow> (False, record_poll name ((blank_status False)\<lparr>ds_CircuitBreakerState := state_name s, ds_LastUpdated := t0,
                         ds_Error := ''circuit breaker open: server unreachable''\<rparr>) b p))
      | (b, True) \<Rightarrow>
          (let st = (case fetched of None \<Rightarrow> (blank_status False)\<lparr>ds_Error := ''status poll timed out''\<rparr> | Some st \<Rightarrow> st)\<lparr>ds_LastUpdated := t1\<rparr>;
               b = fst (State_op t1 b);
               b = (if ds_Online st then RecordSuccess b else RecordFailure t1 b)
           in case State_op t1 b of
                (b, s) \<Rightarrow> (True, record_poll name (st\<lparr>ds_CircuitBreakerState := state_name s\<rparr>) b p)))"

text \<open>\<open>polls\<close> gives the times and the outcome of the poll of a server.\<close>

definition PollStatuses :: "(string \<Rightarrow> int \<times> int \<times> DeviceStatus option) \<Rightarrow> ServerConfig list \<Rightarrow> poller \<Rightarrow> poller" where
  "PollStatuses polls servers p =
     fold (\<lambda>cfg p. case polls (sc_Name cfg) of (t0, t1, fetched) \<Rightarrow> snd (poll_server (sc_Name cfg) t0 t1 fetched p)) servers p"

section \<open>The schedule\<close>

definition interval :: "ServerConfig \<Rightarrow> int" where
  "interval cfg = i64 (sc_PollIntervalSeconds cfg * 1000000000)"

text \<open>A tick of \<open>StartStatusPoller\<close> at \<open>now\<close> whose polls end at \<open>fin\<close>: the servers that are polled and the new table of
  times.\<close>

definition poller_tick :: "int \<Rightarrow> int \<Rightarrow> ServerConfig list \<Rightarrow> (string \<Rightarrow> int) \<Rightarrow> ServerConfig list \<times> (string \<Rightarrow> int)" where
  "poller_tick now fin servers lastPolled =
     (let due = filter (\<lambda>s. since now (lastPolled (sc_Name s)) \<ge> interval s) servers
      in (due, \<lambda>n. if n \<in> sc_Name ` set due then fin else lastPolled n))"

primrec ticks :: "(nat \<Rightarrow> int) \<Rightarrow> (nat \<Rightarrow> int) \<Rightarrow> ServerConfig list \<Rightarrow> int \<Rightarrow> nat \<Rightarrow> string \<Rightarrow> int" where
  "ticks now fin servers start 0 = (\<lambda>_. start)"
| "ticks now fin servers start (Suc n) = snd (poller_tick (now n) (fin n) servers (ticks now fin servers start n))"

section \<open>When a server is contacted\<close>

text \<open>The polls of a server, the latest first: when each began, and what a poll that contacted the server came to and when.\<close>

type_synonym poll_event = "int \<times> (int \<times> bool) option"

fun calls_of :: "poll_event list \<Rightarrow> call list" where
  "calls_of [] = []"
| "calls_of ((t0, None) # es) = CAllow t0 # CAllow t0 # calls_of es"
| "calls_of ((t0, Some (t1, online)) # es) = CAllow t1 # (if online then CSuccess t1 else CFailure t1) # CAllow t1 # CAllow t0 # calls_of es"

text \<open>How many of the latest answers were failures, and when the last failure was.\<close>

fun outage :: "poll_event list \<Rightarrow> int" where
  "outage [] = 0"
| "outage ((t0, None) # es) = outage es"
| "outage ((t0, Some (t1, online)) # es) = (if online then 0 else outage es + 1)"

fun last_outage :: "poll_event list \<Rightarrow> int" where
  "last_outage [] = zeroTime"
| "last_outage ((t0, Some (t1, False)) # es) = t1"
| "last_outage (_ # es) = last_outage es"

definition latest :: "poll_event list \<Rightarrow> int option" where
  "latest es = (case es of [] \<Rightarrow> None | (u0, None) # _ \<Rightarrow> Some u0 | (u0, Some (u1, _)) # _ \<Rightarrow> Some u1)"

fun poll_times :: "poll_event list \<Rightarrow> bool" where
  "poll_times [] = True"
| "poll_times ((t0, r) # es) \<longleftrightarrow> (case r of None \<Rightarrow> True | Some (t1, _) \<Rightarrow> t0 \<le> t1)
     \<and> (case latest es of None \<Rightarrow> True | Some u \<Rightarrow> u \<le> t0) \<and> poll_times es"

lemma outage_calls: "recent_failures (calls_of es) = outage es" "last_failure (calls_of es) = last_outage es"
  by (induction es rule: calls_of.induct) (auto split: bool.split)

lemma outage_nonneg: "0 \<le> outage es"
  by (induction es rule: outage.induct) auto

lemma monotone_Cons: "(\<And>d g. h = d # g \<Longrightarrow> call_time d \<le> call_time c) \<Longrightarrow> monotone_calls h \<Longrightarrow> monotone_calls (c # h)"
  by (cases h) auto

lemma calls_latest: "calls_of es = d # g \<Longrightarrow> latest es = Some (call_time d)"
  by (cases es rule: calls_of.cases) (auto simp: latest_def)

lemma poll_times_calls: "poll_times ((t0, None) # es) \<Longrightarrow> monotone_calls (CAllow t0 # calls_of es)"
proof (induction es arbitrary: t0)
  case (Cons e es)
  obtain u0 r where e: "e = (u0, r)" by force
  have "monotone_calls (CAllow u0 # calls_of es)" using Cons.IH[of u0] Cons.prems by (simp add: e)
  then have "monotone_calls (calls_of (e # es))" using Cons.prems by (cases r) (auto simp: e split: bool.split)
  then show ?case using Cons.prems by (intro monotone_Cons) (auto dest!: calls_latest)
qed simp

lemma State_op_Allow: "fst (State_op t b) = fst (Allow t b)"
  by (simp add: Allow_def split: prod.split)

text \<open>A sequence of polls of one server, oldest first; \<open>happened\<close> is what a poll looks like from outside.\<close>

definition happened :: "string \<Rightarrow> int \<Rightarrow> int \<Rightarrow> DeviceStatus option \<Rightarrow> poller \<Rightarrow> poll_event" where
  "happened name t0 t1 fetched p =
     (t0, if fst (poll_server name t0 t1 fetched p)
          then Some (t1, case fetched of None \<Rightarrow> False | Some st \<Rightarrow> ds_Online st) else None)"

inductive polled :: "string \<Rightarrow> poll_event list \<Rightarrow> poller \<Rightarrow> bool" for name where
  start: "po_breakers p name = None \<Longrightarrow> polled name [] p"
| poll: "polled name es p \<Longrightarrow> polled name (happened name t0 t1 fetched p # es) (snd (poll_server name t0 t1 fetched p))"
| other: "\<lbrakk>polled name es p; other \<noteq> name\<rbrakk> \<Longrightarrow> polled name es (snd (poll_server other t0 t1 fetched p))"

lemma poll_breaker:
  "getBreaker name (snd (poll_server name t0 t1 fetched p)) = fst (State_op (if fst (poll_server name t0 t1 fetched p) then t1 else t0)
     (if fst (poll_server name t0 t1 fetched p)
      then (let b = fst (State_op t1 (fst (Allow t0 (getBreaker name p))))
            in if (case fetched of None \<Rightarrow> False | Some st \<Rightarrow> ds_Online st) then RecordSuccess b else RecordFailure t1 b)
      else fst (Allow t0 (getBreaker name p))))"
  by (auto simp: poll_server_def record_poll_def getBreaker_def[of name "\<lparr>po_breakers = _, po_cache = _, po_gauge = _\<rparr>"] Let_def blank_status_def
      split: prod.split bool.split option.split)

lemma polled_sim: "polled name es p \<Longrightarrow> sim 3 60000000000 (calls_of es) (getBreaker name p)"
proof (induction rule: polled.induct)
  case (start p)
  then show ?case by (simp add: getBreaker_def sim_New)
next
  case (poll es p t0 t1 fetched)
  note a = sim_Allow[OF poll.IH, of t0]
  show ?case
  proof (cases "fst (poll_server name t0 t1 fetched p)")
    case False
    then show ?thesis using sim_Allow[OF a, of t0] by (simp add: poll_breaker happened_def State_op_Allow)
  next
    case True
    then show ?thesis
      using sim_Allow[OF sim_Success[OF sim_Allow[OF a, of t1], of t1], of t1] sim_Allow[OF sim_Failure[OF sim_Allow[OF a, of t1], of t1], of t1]
      by (simp add: poll_breaker happened_def State_op_Allow Let_def)
  qed
next
  case (other es p nm t0 t1 fetched)
  then have "getBreaker name (snd (poll_server nm t0 t1 fetched p)) = getBreaker name p"
    by (auto simp: poll_server_def record_poll_def getBreaker_def Let_def split: prod.split bool.split)
  then show ?case using other by simp
qed

text \<open>C15: the poller leaves an unreachable server alone: a poll contacts its server unless the last three or more answers
  were failures and the latest of them is less than a minute old; polls of other servers and polls that were skipped
  do not matter.\<close>

theorem poller_refines:
  assumes "polled name es p" "poll_times ((t0, None) # es)"
  shows "fst (poll_server name t0 t1 fetched p) \<longleftrightarrow> \<not> (3 \<le> outage es \<and> since t0 (last_outage es) < 60000000000)"
proof -
  have "fst (poll_server name t0 t1 fetched p) = snd (Allow t0 (getBreaker name p))"
    by (auto simp: poll_server_def Let_def split: prod.split bool.split)
  also have "\<dots> \<longleftrightarrow> \<not> denies 3 60000000000 (calls_of es) t0"
    using sim_Allow_result[OF polled_sim[OF assms(1)] poll_times_calls[OF assms(2)]] .
  finally show ?thesis by (auto simp: denies_def tripped_def outage_calls)
qed

theorem poller_refines_witness:
  "\<exists>p. polled ''web1'' [(30, Some (31, False)), (20, Some (21, False)), (10, Some (11, False))] p
     \<and> \<not> fst (poll_server ''web1'' 40 41 None p)"
proof -
  define step where "step t p = snd (poll_server ''web1'' t (t + 1) None p)" for t :: int and p
  have c: "fst (poll_server ''web1'' t t1 None p)" if "polled ''web1'' es p" "poll_times ((t, None) # es)" "outage es < 3" for t t1 es p
    using poller_refines[OF that(1,2)] that(3) by simp
  have p: "polled ''web1'' ((t, Some (t + 1, False)) # es) (step t p)" if "polled ''web1'' es p" "poll_times ((t, None) # es)" "outage es < 3"
    for t es p
    using polled.poll[OF that(1), of t "t + 1" None] c[OF that] by (simp add: happened_def step_def)
  have "polled ''web1'' [] new_poller" by (rule polled.start) (simp add: new_poller_def)
  from p[OF p[OF p[OF this, of 10], of 20], of 30]
  have *: "polled ''web1'' [(30, Some (31, False)), (20, Some (21, False)), (10, Some (11, False))] (step 30 (step 20 (step 10 new_poller)))"
    by (simp add: latest_def)
  then show ?thesis using poller_refines[OF *, of 40 41 None] by (auto simp: latest_def since_def)
qed

section \<open>What the cache shows\<close>

definition shown :: "poller \<Rightarrow> bool" where
  "shown p \<longleftrightarrow> (\<forall>name st. po_cache p name = Some st \<longrightarrow> po_gauge p name = Some (ds_Online st)
     \<and> (\<exists>b. po_breakers p name = Some b \<and> ds_CircuitBreakerState st = state_name (state b)
            \<and> (ds_Online st \<longrightarrow> state b = StateClosed \<and> failures b = 0)))"

lemma shown_record:
  assumes "shown p" "ds_CircuitBreakerState st = state_name (state b)" "ds_Online st \<longrightarrow> state b = StateClosed \<and> failures b = 0"
  shows "shown (record_poll name st b p)"
  using assms by (auto simp: shown_def record_poll_def cache_Set_def)

lemma State_op_state: "State_op t b = (b', s) \<Longrightarrow> s = state b'"
  by (auto simp: State_op_def Let_def)

lemma poll_server_shown:
  assumes "shown p"
  shows "shown (snd (poll_server name t0 t1 fetched p))"
proof -
  obtain b ok where a: "Allow t0 (getBreaker name p) = (b, ok)" by force
  show ?thesis
  proof (cases ok)
    case False
    obtain b' s where st: "State_op t0 b = (b', s)" by force
    show ?thesis
      using shown_record[OF assms] State_op_state[OF st] by (simp add: poll_server_def a st False blank_status_def)
  next
    case True
    define st where "st = (case fetched of None \<Rightarrow> (blank_status False)\<lparr>ds_Error := ''status poll timed out''\<rparr> | Some st \<Rightarrow> st)\<lparr>ds_LastUpdated := t1\<rparr>"
    define b1 where "b1 = (let b = fst (State_op t1 b) in if ds_Online st then RecordSuccess b else RecordFailure t1 b)"
    obtain b' s where so: "State_op t1 b1 = (b', s)" by force
    have "ds_Online st \<longrightarrow> state b' = StateClosed \<and> failures b' = 0"
      using so by (auto simp: b1_def RecordSuccess_def State_op_def Let_def)
    moreover have "snd (poll_server name t0 t1 fetched p) = record_poll name (st\<lparr>ds_CircuitBreakerState := state_name s\<rparr>) b' p"
      using so unfolding poll_server_def a by (simp add: True Let_def st_def[symmetric] b1_def)
    ultimately show ?thesis using shown_record[OF assms] State_op_state[OF so] by simp
  qed
qed

text \<open>C32: what the poller shows is consistent in every state: for each server the gauge agrees with the cached status, the
  cached breaker state is the state of the breaker, and a server shown online has a closed breaker without failures.\<close>

theorem poller_consistent:
  "shown (fold (\<lambda>(polls, servers). PollStatuses polls servers) rounds new_poller)"
proof -
  have one: "shown (PollStatuses polls servers p)" if "shown p" for polls servers p
    using that
  proof (induction servers arbitrary: p)
    case (Cons cfg servers)
    then show ?case by (simp add: PollStatuses_def poll_server_shown split: prod.split)
  qed (simp add: PollStatuses_def)
  have "shown (fold (\<lambda>(polls, servers). PollStatuses polls servers) rounds p)" if "shown p" for p
    using that by (induction rounds arbitrary: p) (simp_all add: one split: prod.splits)
  then show ?thesis by (simp add: shown_def new_poller_def NewStatusCache_def)
qed

section \<open>The NanoKVM driver\<close>

lemma getNano_same: "nc_App c \<noteq> '''' \<Longrightarrow> nc_Image c \<noteq> '''' \<Longrightarrow>
  nc_App (getNanoKVMLatestVersions js now reply c) = nc_App c \<and> nc_Image (getNanoKVMLatestVersions js now reply c) = nc_Image c"
proof -
  assume a: "nc_App c \<noteq> ''''" "nc_Image c \<noteq> ''''"
  have "nc_App (scan_releases rs c) = nc_App c \<and> nc_Image (scan_releases rs c) = nc_Image c" for rs
    using a by (induction rs c rule: scan_releases.induct) (simp_all add: Let_def)
  then show ?thesis by (auto simp: getNanoKVMLatestVersions_def split: option.split)
qed

text \<open>The hourly look for new NanoKVM releases has no effect: once an application and an image version are known, no
  answer of the releases URL at any later time changes them.\<close>

theorem nano_versions_frozen:
  assumes "nc_App c \<noteq> ''''" "nc_Image c \<noteq> ''''"
  shows "nc_App (fold (\<lambda>(js, now, reply). getNanoKVMLatestVersions js now reply) checks c) = nc_App c
     \<and> nc_Image (fold (\<lambda>(js, now, reply). getNanoKVMLatestVersions js now reply) checks c) = nc_Image c"
  using assms
proof (induction checks arbitrary: c)
  case (Cons k ks)
  obtain js now reply where "k = (js, now, reply)" by (cases k)
  then show ?case using Cons.IH[of "getNanoKVMLatestVersions js now reply c"] getNano_same[OF Cons.prems] Cons.prems by simp
qed simp

definition old_versions :: nano_cache where
  "old_versions = \<lparr>nc_App = ''2.1.0'', nc_Image = ''v1.3.0'', nc_CheckTime = 0\<rparr>"

definition sample_json :: json_decoder where
  "sample_json = \<lparr>js_System = (\<lambda>_. None), js_Power = (\<lambda>_. None), js_Thermal = (\<lambda>_. None), js_NanoInfo = (\<lambda>_. None),
     js_NanoGpio = (\<lambda>_. None), js_Releases = (\<lambda>_. Some [(''2.2.0'', False, False), (''v1.4.0'', False, False)])\<rparr>"

theorem nano_versions_frozen_witness:
  "nc_App (getNanoKVMLatestVersions sample_json 7200000000000 (Some (200, Some ''[]'')) old_versions) = ''2.1.0''
   \<and> nc_CheckTime (getNanoKVMLatestVersions sample_json 7200000000000 (Some (200, Some ''[]'')) old_versions) = 7200000000000"
  using nano_versions_frozen[of old_versions "[(sample_json, 7200000000000, Some (200, Some ''[]''))]"]
  by (simp add: old_versions_def getNanoKVMLatestVersions_def sample_json_def since_def)

text \<open>A NanoKVM whose credentials are cached is never reported offline, even when no request to it succeeds, so its
  circuit breaker never opens; and an answer that is not the expected JSON is reported as a host that is off.\<close>

theorem nanokvm_never_offline:
  assumes "sc_BoardType cfg = ''nanokvm''" "proxies (sc_Name cfg) = Some e" "pe_bmcCreds e = Some k"
  shows "ds_Online (fst (fetchDeviceStatus js now rel gets reachable proxies cfg c))
     \<and> (gets (Some k) ''/api/vm/gpio'' = Some (code, Some body) \<longrightarrow> js_NanoGpio js body = None \<longrightarrow>
        ds_PowerState (fst (fetchDeviceStatus js now rel gets reachable proxies cfg c)) = ''off'')"
proof -
  have *: "fetchDeviceStatus js now rel gets reachable proxies cfg c = nano_status js now rel (gets (Some k)) c"
    using assms by (simp add: fetchDeviceStatus_def boards_Get_def apfst_def map_prod_def split: prod.split)
  show ?thesis unfolding * by (auto simp: nano_status_def blank_status_def Let_def split: option.split prod.split)
qed

definition sample_nano :: ServerConfig where
  "sample_nano = \<lparr>sc_Name = ''nano1'', sc_BMCIP = ''10.0.0.9'', sc_BMCPort = 80, sc_BoardType = ''nanokvm'', sc_Username = ''admin'',
     sc_CredentialEnv = ''PW'', sc_TLSSkipVerify = None, sc_PollIntervalSeconds = 30\<rparr>"

theorem nanokvm_never_offline_witness:
  "ds_Online (fst (fetchDeviceStatus sample_json 0 None (\<lambda>_ _. None) False
      [''nano1'' \<mapsto> \<lparr>pe_bmcCreds = Some sample_creds, pe_kvmActive = False\<rparr>] sample_nano new_cache))"
  using nanokvm_never_offline[of sample_nano "[''nano1'' \<mapsto> \<lparr>pe_bmcCreds = Some sample_creds, pe_kvmActive = False\<rparr>]"
      "\<lparr>pe_bmcCreds = Some sample_creds, pe_kvmActive = False\<rparr>" sample_creds]
  by (simp add: sample_nano_def)

section \<open>Every server is polled\<close>

lemma since_ge: "\<lbrakk>0 < i; i < 2 ^ 63\<rbrakk> \<Longrightarrow> since now t \<ge> i \<longleftrightarrow> now - t \<ge> i"
  by (auto simp: since_def)

definition due_at :: "(nat \<Rightarrow> int) \<Rightarrow> (nat \<Rightarrow> int) \<Rightarrow> ServerConfig list \<Rightarrow> int \<Rightarrow> ServerConfig \<Rightarrow> nat \<Rightarrow> bool" where
  "due_at now fin servers start cfg n \<longleftrightarrow> cfg \<in> set (fst (poller_tick (now n) (fin n) servers (ticks now fin servers start n)))"

lemma due_iff:
  assumes "cfg \<in> set servers" "0 < interval cfg" "interval cfg < 2 ^ 63"
  shows "due_at now fin servers start cfg n \<longleftrightarrow> now n - ticks now fin servers start n (sc_Name cfg) \<ge> interval cfg"
  using assms since_ge by (auto simp: due_at_def poller_tick_def)

lemma ticks_step:
  assumes "cfg \<in> set servers" "inj_on sc_Name (set servers)"
  shows "ticks now fin servers start (Suc n) (sc_Name cfg)
       = (if due_at now fin servers start cfg n then fin n else ticks now fin servers start n (sc_Name cfg))"
  using assms by (auto simp: poller_tick_def due_at_def Let_def dest: inj_onD)

text \<open>C33: no server is forgotten: when the ticks and the ends of rounds are at most \<open>g\<close> apart and time advances, after every
  tick comes one at which a given server is polled, less than its interval and \<open>g\<close> after its last poll.\<close>

theorem every_server_polled:
  assumes "cfg \<in> set servers" "inj_on sc_Name (set servers)" "0 < interval cfg" "interval cfg < 2 ^ 63"
    and "\<forall>n. now n < now (Suc n) \<and> now (Suc n) \<le> now n + g \<and> now (Suc n) \<le> fin n + g" "now 0 \<le> start + g"
  shows "\<exists>n\<ge>m. due_at now fin servers start cfg n
     \<and> now n - ticks now fin servers start n (sc_Name cfg) < interval cfg + g"
proof -
  let ?L = "\<lambda>n. ticks now fin servers start n (sc_Name cfg)"
  note due = due_iff[OF assms(1,3,4), of now fin start] and st = ticks_step[OF assms(1,2), of now fin start]
  have bound: "now n - ?L n < interval cfg + g" for n
  proof (induction n)
    case 0
    then show ?case using assms(3,6) by simp
  next
    case (Suc n)
    have t: "now (Suc n) \<le> now n + g" "now (Suc n) \<le> fin n + g" using assms(5) by simp_all
    show ?case
    proof (cases "due_at now fin servers start cfg n")
      case True
      then show ?thesis using st[of n] t(2) assms(3) by (simp del: ticks.simps)
    next
      case False
      then show ?thesis using st[of n] due[of n] t(1) by (simp del: ticks.simps)
    qed
  qed
  have "\<exists>n\<ge>m. due_at now fin servers start cfg n"
  proof (rule ccontr)
    assume *: "\<not> (\<exists>n\<ge>m. due_at now fin servers start cfg n)"
    then have nd: "\<not> due_at now fin servers start cfg n" if "n \<ge> m" for n using that by blast
    have fixed: "?L (m + k) = ?L m" for k using st[of "m + k" for k] nd by (induction k) (simp_all del: ticks.simps)
    have adv: "now m + int k \<le> now (m + k)" for k
    proof (induction k)
      case (Suc k)
      have "now (m + k) < now (Suc (m + k))" using assms(5) by blast
      then show ?case using Suc by simp
    qed simp
    obtain k where "int k \<ge> interval cfg + ?L m - now m" using zle_int by (metis nat_le_iff order_refl)
    then have "now (m + k) - ?L (m + k) \<ge> interval cfg" using adv[of k] fixed[of k] by linarith
    then show False using due[of "m + k"] nd[of "m + k"] by simp
  qed
  then show ?thesis using bound by blast
qed

theorem every_server_polled_witness:
  "\<exists>n\<ge>100. due_at (\<lambda>n. 10000000000 * (int n + 1)) (\<lambda>n. 10000000000 * (int n + 1)) [sample_nano] 0 sample_nano n"
proof -
  have "interval sample_nano = 30000000000" by (simp add: interval_def sample_nano_def i64_def)
  then show ?thesis
    using every_server_polled[of sample_nano "[sample_nano]" "\<lambda>n. 10000000000 * (int n + 1)" 10000000000 "\<lambda>n. 10000000000 * (int n + 1)" 0 100]
    by auto
qed

end
