(* ===== verification/Webproxy.thy ===== *)
theory Webproxy
  imports Poller Controls
begin

text \<open>
  The proxy to the web interfaces of the BMCs, \<open>src/internal/api/proxy.go\<close>, and what keeps its sessions: the IPMI session
  endpoint, the session manager and the NanoKVM WebSocket of \<open>src/internal/api/handlers.go\<close>.

  The state is the server and one cookie jar for each BMC. A jar is \<open>net/http/cookiejar\<close> for the one host it is used with, in
  the order in which its cookies were created. \<open>httputil.ReverseProxy\<close> is its \<open>Director\<close>, the exchange with the BMC and
  \<open>ModifyResponse\<close>. The exchange and the decompression of gzip are parameters; \<open>bn_gunzip\<close> gives the content, unless the data
  is damaged, and what it has left unread.
\<close>

section \<open>Cookies\<close>

record jar_cookie =
  jc_Name :: string
  jc_Value :: string
  jc_Path :: string
  jc_Secure :: bool
  jc_Expires :: "int option"

type_synonym jar = "jar_cookie list"

definition default_path :: "string \<Rightarrow> string" where
  "default_path p =
     (if \<not> is_rooted p then ''/''
      else (let d = butlast (rev (dropWhile (\<lambda>c. c \<noteq> CHR ''/'') (rev p))) in if d = '''' then ''/'' else d))"

definition SetCookie :: "int \<Rightarrow> string \<Rightarrow> set_cookie \<Rightarrow> jar \<Rightarrow> jar" where
  "SetCookie now url_path c jar =
     (if \<not> sk_DomainOk c then jar
      else
        (let path = (if is_rooted (sk_Path c) then sk_Path c else default_path url_path);
             same = (\<lambda>j. jc_Name j = sk_Name c \<and> jc_Path j = path);
             expires = (if sk_MaxAge c > 0 then Some (now + sk_MaxAge c * 1000000000) else sk_Expires c);
             j = \<lparr>jc_Name = sk_Name c, jc_Value = sk_Value c, jc_Path = path, jc_Secure = sk_Secure c, jc_Expires = expires\<rparr>
         in if sk_MaxAge c < 0 \<or> (case expires of None \<Rightarrow> False | Some t \<Rightarrow> t \<le> now) then filter (\<lambda>x. \<not> same x) jar
            else if list_ex same jar then map (\<lambda>x. if same x then j else x) jar
            else jar @ [j]))"

definition SetCookies :: "int \<Rightarrow> string \<Rightarrow> set_cookie list \<Rightarrow> jar \<Rightarrow> jar" where
  "SetCookies now url_path cs jar = fold (SetCookie now url_path) cs jar"

definition path_match :: "string \<Rightarrow> string \<Rightarrow> bool" where
  "path_match request_path cookie_path \<longleftrightarrow>
     request_path = cookie_path
     \<or> has_prefix cookie_path request_path
       \<and> (has_suffix ''/'' cookie_path \<or> take 1 (drop (length cookie_path) request_path) = ''/'')"

definition Cookies :: "int \<Rightarrow> string \<Rightarrow> string \<Rightarrow> jar \<Rightarrow> (string \<times> string) list" where
  "Cookies now scheme path jar =
     (let path = (if path = '''' then ''/'' else path);
          send = (\<lambda>j. (case jc_Expires j of None \<Rightarrow> True | Some t \<Rightarrow> now < t) \<and> path_match path (jc_Path j)
                      \<and> (scheme = ''https'' \<or> \<not> jc_Secure j))
      in map (\<lambda>j. (jc_Name j, jc_Value j)) (sort_key (\<lambda>j. - int (length (jc_Path j))) (filter send jar)))"

definition filterCookies :: "string list \<Rightarrow> web_request \<Rightarrow> web_request" where
  "filterCookies names r = r\<lparr>wr_Cookies := filter (\<lambda>(n, _). n \<notin> set names) (wr_Cookies r)\<rparr>"

section \<open>Requests and responses\<close>

definition host_port :: "ServerConfig \<Rightarrow> string" where
  "host_port cfg = sc_BMCIP cfg @ '':'' @ show_int (sc_BMCPort cfg)"

definition cfg_scheme :: "ServerConfig \<Rightarrow> string" where
  "cfg_scheme cfg = (case boards_Get (sc_BoardType cfg) of None \<Rightarrow> ''http'' | Some h \<Rightarrow> Scheme h)"

definition bmcOrigin :: "ServerConfig \<Rightarrow> string" where
  "bmcOrigin cfg = cfg_scheme cfg @ ''://'' @ host_port cfg"

definition cookieStripList :: "board option \<Rightarrow> string list" where
  "cookieStripList h = [''kvm_session'', ''kvm_oauth_state''] @ (case h of None \<Rightarrow> [] | Some b \<Rightarrow> CookiesToStrip b)"

text \<open>\<open>Director\<close>: what it does for every board, and the credentials.\<close>

definition outgoing :: "int \<Rightarrow> ServerConfig \<Rightarrow> jar \<Rightarrow> web_request \<Rightarrow> web_request" where
  "outgoing now cfg jar r =
     (let r = r\<lparr>wr_Scheme := cfg_scheme cfg, wr_Host := host_port cfg\<rparr>;
          r = (if h_get ''Accept-Encoding'' (wr_Header r) = ''''
               then r\<lparr>wr_Header := h_set ''Accept-Encoding'' ''gzip, deflate'' (wr_Header r)\<rparr> else r);
          r = filterCookies (cookieStripList (boards_Get (sc_BoardType cfg))) r
      in r\<lparr>wr_Cookies := wr_Cookies r @ Cookies now (wr_Scheme r) (wr_Path r) jar\<rparr>)"

definition Director :: "int \<Rightarrow> ServerConfig \<Rightarrow> BMCCredentials option \<Rightarrow> jar \<Rightarrow> web_request \<Rightarrow> web_request" where
  "Director now cfg creds jar r =
     (case (creds, boards_Get (sc_BoardType cfg)) of
        (Some c, Some b) \<Rightarrow> RewriteRequestURL b c (InjectCredentials b c (outgoing now cfg jar r))
      | _ \<Rightarrow> outgoing now cfg jar r)"

text \<open>\<open>rewriteLocationForBMC\<close>: the origin up to its last colon and from there on.\<close>

definition port_suffix :: "string \<Rightarrow> string" where
  "port_suffix origin = CHR '':'' # rev (takeWhile (\<lambda>c. c \<noteq> CHR '':'') (rev origin))"

definition no_port :: "string \<Rightarrow> string" where
  "no_port origin = butlast (rev (dropWhile (\<lambda>c. c \<noteq> CHR '':'') (rev origin)))"

definition rewriteLocationForBMC :: "string \<Rightarrow> string \<Rightarrow> string \<Rightarrow> string" where
  "rewriteLocationForBMC loc origin name =
     (let prefix = ''/__bmc/'' @ name in
      if has_prefix origin loc then prefix @ drop (length origin) loc
      else if CHR '':'' \<in> set origin \<and> no_port origin \<noteq> '''' \<and> (port_suffix origin = '':80'' \<or> port_suffix origin = '':443'')
              \<and> has_prefix (no_port origin @ ''/'') loc
      then prefix @ drop (length (no_port origin)) loc
      else if has_prefix ''/'' loc then prefix @ loc
      else loc)"

record bmc_net =
  bn_exchange :: "string \<Rightarrow> web_request \<Rightarrow> string + web_response"
  bn_gunzip :: "bytes \<Rightarrow> bytes option \<times> bytes"

definition decompress :: "bmc_net \<Rightarrow> web_response \<Rightarrow> web_response" where
  "decompress net resp =
     (if h_get ''Content-Encoding'' (wo_Header resp) = ''gzip'' then
        (case bn_gunzip net (wo_Body resp) of
           (None, rest) \<Rightarrow> resp\<lparr>wo_Body := rest\<rparr>
         | (Some b, _) \<Rightarrow> resp\<lparr>wo_Body := b,
             wo_Header := h_set ''Content-Length'' (show_int (int (length b))) (h_del ''Content-Encoding'' (wo_Header resp))\<rparr>)
      else resp)"

text \<open>\<open>ModifyResponse\<close> for the response to \<open>req\<close>: the response and the jar.\<close>

definition ModifyResponse :: "bmc_net \<Rightarrow> int \<Rightarrow> ServerConfig \<Rightarrow> string \<Rightarrow> BMCCredentials option \<Rightarrow> web_request \<Rightarrow> web_response \<Rightarrow> jar
    \<Rightarrow> web_response \<times> jar" where
  "ModifyResponse net now cfg name creds req resp jar =
     (let h = boards_Get (sc_BoardType cfg);
          jar = SetCookies now (wr_Path req) (wo_SetCookies resp) jar;
          loc = h_get ''Location'' (wo_Header resp);
          new_loc = rewriteLocationForBMC loc (bmcOrigin cfg) name;
          new_loc = (case h of None \<Rightarrow> new_loc | Some b \<Rightarrow> RewriteLocationHeader b new_loc (''/__bmc/'' @ name));
          resp = (if loc \<noteq> '''' then resp\<lparr>wo_Header := h_set ''Location'' new_loc (wo_Header resp)\<rparr> else resp);
          resp = decompress net resp;
          hd = (case h of None \<Rightarrow> wo_Header resp | Some b \<Rightarrow> ModifyProxyResponse b (wr_Path req) creds (wo_Header resp));
          hd = (if creds \<noteq> None then h_set ''X-KVM-AutoLogin'' ''true'' hd else hd)
      in (resp\<lparr>wo_Header := h_del ''Content-Disposition'' (h_del ''X-Frame-Options'' (h_del ''Content-Security-Policy'' hd))\<rparr>, jar))"

section \<open>The handler\<close>

text \<open>The server name and the rest of the path.\<close>

definition split_bmc_path :: "string \<Rightarrow> string \<times> string" where
  "split_bmc_path p =
     (let path = trim_prefix ''/__bmc/'' p;
          rest = dropWhile (\<lambda>c. c \<noteq> CHR ''/'') path
      in (takeWhile (\<lambda>c. c \<noteq> CHR ''/'') path, if rest = '''' then ''/'' else rest))"

text \<open>\<open>http.Redirect\<close> to a relative reference, for a request of the path \<open>oldpath\<close>\<close>

definition http_Redirect :: "string \<Rightarrow> string \<Rightarrow> string" where
  "http_Redirect oldpath url =
     (let oldpath = (if oldpath = '''' then ''/'' else oldpath);
          url = (if is_rooted url then url else rev (dropWhile (\<lambda>c. c \<noteq> CHR ''/'') (rev oldpath)) @ url);
          p = takeWhile (\<lambda>c. c \<noteq> CHR ''?'') url;
          q = dropWhile (\<lambda>c. c \<noteq> CHR ''?'') url;
          cleaned = path_clean p
      in (if has_suffix ''/'' p \<and> \<not> has_suffix ''/'' cleaned then cleaned @ ''/'' else cleaned) @ q)"

record Web =
  wb_srv :: Server
  wb_jars :: "string \<Rightarrow> jar"

datatype bmc_result =
    BmcError nat string
  | BmcRedirect string
  | BmcIntercepted web_response
  | BmcForwarded web_request web_response

definition forward :: "bmc_net \<Rightarrow> int \<Rightarrow> ServerConfig \<Rightarrow> string \<Rightarrow> BMCCredentials option \<Rightarrow> web_request \<Rightarrow> Web \<Rightarrow> bmc_result \<times> Web" where
  "forward net now cfg name creds r w =
     (let out = Director now cfg creds (wb_jars w name) r in
      case bn_exchange net name out of
        Inl e \<Rightarrow> (BmcError 502 (''BMC unreachable: '' @ e), w)
      | Inr resp \<Rightarrow>
          (case ModifyResponse net now cfg name creds out resp (wb_jars w name) of
             (resp, jar) \<Rightarrow> (BmcForwarded out resp, w\<lparr>wb_jars := (wb_jars w)(name := jar)\<rparr>)))"

text \<open>The caller is in the request's context; the handler does not look at it.\<close>

definition HandleBMCProxy :: "bmc_net \<Rightarrow> int \<Rightarrow> caller \<Rightarrow> web_request \<Rightarrow> Web \<Rightarrow> bmc_result \<times> Web" where
  "HandleBMCProxy net now cl r w =
     (case split_bmc_path (wr_Path r) of
        (name, remainder) \<Rightarrow>
          if name = '''' then (BmcError 400 ''missing server name'', w)
          else case find_server (sv_Config (wb_srv w)) name of
            None \<Rightarrow> (BmcError 404 ''unknown server'', w)
          | Some cfg \<Rightarrow>
              (case getOrCreateProxy name (wb_srv w) of
                 (entry, s) \<Rightarrow>
                   (let w = w\<lparr>wb_srv := s\<rparr>; creds = pe_bmcCreds entry; h = boards_Get (sc_BoardType cfg);
                        bypass = (case (h, creds) of
                            (Some b, Some c) \<Rightarrow> if wr_Method r = ''GET'' then LoginBypass b remainder c else ''''
                          | _ \<Rightarrow> '''');
                        intercept = (case (h, creds) of
                            (Some b, Some c) \<Rightarrow> LoginIntercept b (wr_Method r) remainder c
                          | _ \<Rightarrow> None)
                    in if bypass \<noteq> '''' then (BmcRedirect (http_Redirect (wr_Path r) bypass), w)
                       else case intercept of
                         Some resp \<Rightarrow> (BmcIntercepted resp, w)
                       | None \<Rightarrow>
                           forward net now cfg name creds
                             (r\<lparr>wr_Path := remainder, wr_RawPath := (if wr_RawPath r \<noteq> '''' then remainder else wr_RawPath r)\<rparr>) w)))"

section \<open>BMC sessions\<close>

definition ensureBMCSession :: "bmc_env \<Rightarrow> ServerConfig \<Rightarrow> Server \<Rightarrow> (string + BMCCredentials option) \<times> Server" where
  "ensureBMCSession be cfg s =
     (case GetPassword (be_getenv be) cfg of
        None \<Rightarrow> (Inl ''password not configured'', s)
      | Some password \<Rightarrow>
          if \<not> be_registered be (sc_BoardType cfg) then (Inl (''unsupported board type: '' @ sc_BoardType cfg), s)
          else
            (case getOrCreateProxy (sc_Name cfg) s of
               (entry, s) \<Rightarrow>
                 if pe_kvmActive entry then (Inr (pe_bmcCreds entry), s)
                 else
                   (let s = (case pe_bmcCreds entry of
                          None \<Rightarrow> s
                        | Some old \<Rightarrow> set_proxy (sc_Name cfg) (\<lambda>e. e\<lparr>pe_bmcCreds := None\<rparr>)
                                       (s\<lparr>sv_logouts := sv_logouts s @ [(sc_Name cfg, old)]\<rparr>))
                    in case be_CreateWebSession be 1 of
                         Inl e \<Rightarrow> (Inl e, s)
                       | Inr creds \<Rightarrow> (Inr (Some creds), set_proxy (sc_Name cfg) (\<lambda>e. e\<lparr>pe_bmcCreds := Some creds\<rparr>) s))))"

text \<open>\<open>None\<close> is a panic. The numbers of the response are written in decimal here.\<close>

definition CreateIPMISession :: "bmc_env \<Rightarrow> caller \<Rightarrow> string \<Rightarrow> Server \<Rightarrow> (api_response \<times> Server) option" where
  "CreateIPMISession be cl name s =
     (case find_server (sv_Config s) name of
        None \<Rightarrow> Some (ApiError 404 ''server not found'', s)
      | Some cfg \<Rightarrow> do {
          may \<leftarrow> (if oc_Enabled (ac_OIDC (sv_Config s)) then UserCanAccessServer (ac_OIDC (sv_Config s)) (cl_user cl) name else Some True);
          if \<not> may then Some (ApiError 403 ''access denied'', s)
          else (case ensureBMCSession be cfg s of
             (Inl e, s) \<Rightarrow> Some (ApiError 502 ''BMC authentication failed'', s)
           | (Inr creds, s) \<Rightarrow> do {
               let s = logAudit ''ipmi_session'' (email_of cl) name '''' (cl_ip cl) s;
               c \<leftarrow> creds;
               Some (ApiMap [(''board_type'', sc_BoardType cfg), (''session_cookie'', bc_SessionCookie c), (''csrf_token'', bc_CSRFToken c),
                 (''username'', bc_Username c), (''privilege'', show_int (bc_Privilege c)),
                 (''extended_priv'', show_int (bc_ExtendedPriv c))], s)
             })
        })"

text \<open>One server of \<open>createAll\<close> and a whole round; there is no cache at start-up. \<open>envs\<close> is what the BMC of each server answers.\<close>

definition manage_session :: "bmc_env \<Rightarrow> StatusCache option \<Rightarrow> ServerConfig \<Rightarrow> Server \<Rightarrow> Server" where
  "manage_session be sc cfg s =
     (case getOrCreateProxy (sc_Name cfg) s of
        (entry, s) \<Rightarrow>
          if pe_bmcCreds entry \<noteq> None
             \<and> (sc_BoardType cfg = ''dell_idrac8''
                \<or> (case Option.bind sc (\<lambda>c. c (sc_Name cfg)) of None \<Rightarrow> False | Some st \<Rightarrow> ds_Online st \<and> ds_PowerState st \<noteq> ''''))
          then s
          else snd (ensureBMCSession be cfg s))"

definition createAll :: "(string \<Rightarrow> bmc_env) \<Rightarrow> StatusCache option \<Rightarrow> ServerConfig list \<Rightarrow> Server \<Rightarrow> Server" where
  "createAll envs sc servers s = fold (\<lambda>cfg. manage_session (envs (sc_Name cfg)) sc cfg) servers s"

section \<open>The NanoKVM WebSocket\<close>

datatype nano_result = NanoError nat string | NanoDial string string

text \<open>\<open>HandleNanoKVMWebSocket\<close> up to the connection to the device: its URL and the cookie that is sent. \<open>None\<close> is a panic.\<close>

definition HandleNanoKVMWebSocket :: "string option \<Rightarrow> string \<Rightarrow> Server \<Rightarrow> nano_result option" where
  "HandleNanoKVMWebSocket cookie path s =
     (let token = (case cookie of None \<Rightarrow> '''' | Some v \<Rightarrow> v) in
      if token = '''' then Some (NanoError 401 ''missing nano-kvm-token'')
      else if length token < 20 then None
      else case List.find (\<lambda>cfg. sc_BoardType cfg = ''nanokvm''
             \<and> (case Option.bind (sv_proxies s (sc_Name cfg)) pe_bmcCreds of None \<Rightarrow> False | Some c \<Rightarrow> bc_SessionCookie c = token))
             (ac_Servers (sv_Config s)) of
           None \<Rightarrow> Some (NanoError 401 ''unknown NanoKVM token'')
         | Some cfg \<Rightarrow> Some (NanoDial
             (''ws://'' @ sc_BMCIP cfg @ (if sc_BMCPort cfg = 0 then '''' else '':'' @ show_int (sc_BMCPort cfg)) @ path)
             (''nano-kvm-token='' @ token)))"

section \<open>What reaches the BMC\<close>

lemma outgoing_fields:
  "wr_Scheme (outgoing now cfg jar r) = cfg_scheme cfg" "wr_Host (outgoing now cfg jar r) = host_port cfg"
  "wr_Cookies (outgoing now cfg jar r) = filter (\<lambda>(n, _). n \<notin> set (cookieStripList (boards_Get (sc_BoardType cfg)))) (wr_Cookies r)
     @ Cookies now (cfg_scheme cfg) (wr_Path r) jar"
  by (simp_all add: outgoing_def filterCookies_def Let_def)

lemma Director_target:
  "wr_Scheme (Director now cfg creds jar r) = cfg_scheme cfg \<and> wr_Host (Director now cfg creds jar r) = host_port cfg"
  by (auto simp: Director_def outgoing_fields handler.inject_target handler.rewrite_target split: option.split)

lemma Director_cookies:
  obtains cs where "wr_Cookies (Director now cfg creds jar r) = wr_Cookies (outgoing now cfg jar r) @ cs"
    "cs = [] \<or> (\<exists>b. creds \<noteq> None \<and> boards_Get (sc_BoardType cfg) = Some b \<and> fst ` set cs \<subseteq> set (CookiesToStrip b))"
proof (cases "\<exists>c b. creds = Some c \<and> boards_Get (sc_BoardType cfg) = Some b")
  case False
  then have "Director now cfg creds jar r = outgoing now cfg jar r" by (auto simp: Director_def split: option.split)
  then show ?thesis using that[of "[]"] by simp
next
  case True
  then obtain k b where kb: "creds = Some k" "boards_Get (sc_BoardType cfg) = Some b" by blast
  obtain cs where "wr_Cookies (RewriteRequestURL b k (InjectCredentials b k (outgoing now cfg jar r))) = wr_Cookies (outgoing now cfg jar r) @ cs"
      "fst ` set cs \<subseteq> set (CookiesToStrip b)"
    by (rule handler.credentials_sent)
  then show ?thesis using that[of cs] kb by (simp add: Director_def)
qed

lemma HandleBMCProxy_forwarded:
  assumes "HandleBMCProxy net now cl r w = (BmcForwarded out resp, w')"
  obtains name rest cfg r' where "split_bmc_path (wr_Path r) = (name, rest)" "find_server (sv_Config (wb_srv w)) name = Some cfg"
    "out = Director now cfg (Option.bind (sv_proxies (wb_srv w) name) pe_bmcCreds) (wb_jars w name) r'"
proof -
  obtain name rest where sp: "split_bmc_path (wr_Path r) = (name, rest)" by force
  obtain cfg where cfg: "find_server (sv_Config (wb_srv w)) name = Some cfg" and "name \<noteq> ''''"
    using assms sp by (cases "find_server (sv_Config (wb_srv w)) name") (auto simp: HandleBMCProxy_def split: if_split_asm)
  moreover obtain entry s where e: "getOrCreateProxy name (wb_srv w) = (entry, s)" by force
  moreover have "pe_bmcCreds entry = Option.bind (sv_proxies (wb_srv w) name) pe_bmcCreds"
    using e by (auto simp: getOrCreateProxy_def Let_def split: option.split_asm)
  ultimately show ?thesis
    using assms sp that[OF sp cfg]
    by (auto simp: HandleBMCProxy_def forward_def Let_def split: if_split_asm option.split_asm sum.split_asm prod.split_asm)
qed


section \<open>Locations\<close>

lemma trim_bmc: "trim_prefix ''/__bmc/'' (''/__bmc/'' @ s) = s"
  by (rule trim_prefix_append)

lemma split_bmc:
  assumes "CHR ''/'' \<notin> set name" "is_rooted p"
  shows "split_bmc_path ((''/__bmc/'' @ name) @ p) = (name, p)"
proof -
  obtain cs where p: "p = CHR ''/'' # cs" using assms(2) by (cases p) (auto simp: is_rooted_def)
  have "takeWhile (\<lambda>c. c \<noteq> CHR ''/'') (name @ p) = name" "dropWhile (\<lambda>c. c \<noteq> CHR ''/'') (name @ p) = p"
    using assms(1) by (auto simp: p takeWhile_append dropWhile_append)
  then show ?thesis unfolding split_bmc_path_def append_assoc trim_bmc by (simp add: p)
qed

lemma rewrite_origin: "rewriteLocationForBMC (origin @ p) origin name = (''/__bmc/'' @ name) @ p"
  unfolding rewriteLocationForBMC_def Let_def has_prefix_append if_True by simp

lemma relocate_plain: "b \<noteq> APCBoard \<Longrightarrow> RewriteLocationHeader b loc pre = loc"
  by (cases b) simp_all

lemma rewrite_plain: "b \<noteq> APCBoard \<Longrightarrow> RewriteRequestURL b creds r = r"
  by (cases b) simp_all

lemma after_token_nmc:
  assumes "CHR ''/'' \<notin> set tok" "is_rooted q"
  shows "after_token (''/NMC/'' @ tok @ q) = Some q" "has_prefix ''/NMC/'' (''/NMC/'' @ tok @ q)"
proof -
  obtain cs where q: "q = CHR ''/'' # cs" using assms(2) by (cases q) (auto simp: is_rooted_def)
  have "dropWhile (\<lambda>c. c \<noteq> CHR ''/'') (tok @ q) = q" using assms(1) by (auto simp: q dropWhile_append)
  then show "after_token (''/NMC/'' @ tok @ q) = Some q" by (simp add: after_token_def q)
qed (rule has_prefix_append)



text \<open>The origin of a BMC is compared as a prefix, without a boundary behind its port: a redirect to another port of the
  same host whose number begins with the port of the BMC is turned into a path of another server, whose name is the
  name of the first one followed by the rest of the port.\<close>

theorem location_crosses_servers:
  assumes "CHR ''/'' \<notin> set name" "CHR ''/'' \<notin> set digits" "is_rooted p"
  shows "split_bmc_path (rewriteLocationForBMC (origin @ digits @ p) origin name) = (name @ digits, p)"
  using split_bmc[of "name @ digits" p] assms unfolding rewrite_origin by simp

theorem location_crosses_servers_witness:
  "split_bmc_path (rewriteLocationForBMC (''http://10.0.0.7:80'' @ ''80'' @ ''/login'') ''http://10.0.0.7:80'' ''rack'') = (''rack80'', ''/login'')"
  using location_crosses_servers[of "''rack''" "''80''" "''/login''" "''http://10.0.0.7:80''"] by (simp add: is_rooted_def)

text \<open>A request for a server without a slash behind its name is sent to a page of no server when the login page is
  bypassed: the relative location is resolved against the parent of the path.\<close>

theorem bypass_needs_slash:
  assumes "CHR ''/'' \<notin> set name" "name \<noteq> ''''" "find_server (sv_Config (wb_srv w)) name = Some cfg" "sc_BoardType cfg = ''apc_ups''"
    and "sv_proxies (wb_srv w) name = Some e" "pe_bmcCreds e = Some c" "wr_Method r = ''GET''"
    and "find_server (sv_Config (wb_srv w)) ''home.htm'' = None"
    and "wr_Path r = ''/__bmc/'' @ name"
  shows "\<exists>loc w'. HandleBMCProxy net now cl r w = (BmcRedirect loc, w')
     \<and> HandleBMCProxy net now cl (r\<lparr>wr_Path := loc\<rparr>) w' = (BmcError 404 ''unknown server'', w')"
proof -
  have sp: "split_bmc_path (''/__bmc/'' @ name) = (name, ''/'')"
    unfolding split_bmc_path_def trim_bmc using assms(1) by (simp add: takeWhile_append)
  have rev: "dropWhile (\<lambda>c. c \<noteq> CHR ''/'') (rev (''/__bmc/'' @ name)) = rev ''/__bmc/''"
    using assms(1) by (simp add: dropWhile_append)
  have tw: "takeWhile (\<lambda>c. c \<noteq> CHR ''?'') ''/__bmc/home.htm'' = ''/__bmc/home.htm''" "dropWhile (\<lambda>c. c \<noteq> CHR ''?'') ''/__bmc/home.htm'' = ''''"
    "path_clean ''/__bmc/home.htm'' = ''/__bmc/home.htm''" "has_suffix ''/'' ''/__bmc/home.htm'' = False" "is_rooted ''home.htm'' = False"
    by code_simp+
  have loc: "http_Redirect (''/__bmc/'' @ name) ''home.htm'' = ''/__bmc/home.htm''"
    unfolding http_Redirect_def Let_def using rev tw by simp
  have sp2: "split_bmc_path ''/__bmc/home.htm'' = (''home.htm'', ''/'')" by code_simp
  have g: "getOrCreateProxy name (wb_srv w) = (e, wb_srv w)" using assms(5) by (simp add: getOrCreateProxy_def)
  have "HandleBMCProxy net now cl r w = (BmcRedirect ''/__bmc/home.htm'', w\<lparr>wb_srv := wb_srv w\<rparr>)"
    unfolding HandleBMCProxy_def assms(9) sp prod.case assms(3) option.case g Let_def
    using assms(2,4,6,7) loc by (simp add: boards_Get_def)
  moreover have "HandleBMCProxy net now cl (r\<lparr>wr_Path := ''/__bmc/home.htm''\<rparr>) w' = (BmcError 404 ''unknown server'', w')"
    if "w' = w\<lparr>wb_srv := wb_srv w\<rparr>" for w' :: Web
    using that assms(8) by (simp add: HandleBMCProxy_def sp2)
  ultimately show ?thesis by blast
qed

section \<open>Who may use the proxy\<close>

text \<open>The proxy does not look at the roles of its user: a user to whom the IPMI session endpoint refuses a server reaches the
  same server through the proxy, and whatever the request is, it is sent with the cached credentials of the BMC.\<close>

theorem proxy_ignores_roles:
  assumes "CreateIPMISession be cl name s = Some (ApiError 403 m, s')"
    and "find_server (sv_Config s) name = Some cfg" "boards_Get (sc_BoardType cfg) = Some b" "b \<in> {IDRAC8Board, IDRAC9Board, MegaRACBoard}"
    and "sv_proxies s name = Some e" "pe_bmcCreds e = Some c" "name \<noteq> ''''" "split_bmc_path (wr_Path r) = (name, rest)"
    and "wr_Method r = ''PUT''" "wb_srv w = s"
  shows "\<exists>out n. n \<in> set (CookiesToStrip b) \<and> (n, bc_SessionCookie c) \<in> set (wr_Cookies out) \<and> wr_Host out = host_port cfg
     \<and> fst (HandleBMCProxy net now cl r w) = (case bn_exchange net name out of
          Inl err \<Rightarrow> BmcError 502 (''BMC unreachable: '' @ err)
        | Inr resp \<Rightarrow> BmcForwarded out (fst (ModifyResponse net now cfg name (Some c) out resp (wb_jars w name))))"
proof -
  define r' where "r' = r\<lparr>wr_Path := rest, wr_RawPath := (if wr_RawPath r \<noteq> '''' then rest else wr_RawPath r)\<rparr>"
  define out where "out = Director now cfg (Some c) (wb_jars w name) r'"
  have g: "getOrCreateProxy name s = (e, s)" using assms(5) by (simp add: getOrCreateProxy_def)
  have i: "LoginIntercept b ''PUT'' rest c = None" by (cases b) simp_all
  have w: "w\<lparr>wb_srv := s\<rparr> = w" using assms(10) by simp
  have fwd: "HandleBMCProxy net now cl r w = forward net now cfg name (Some c) r' w"
    unfolding HandleBMCProxy_def assms(8) prod.case assms(10) assms(2) option.case g Let_def w r'_def
    using assms(3,6,7,9) i by simp
  have "fst (HandleBMCProxy net now cl r w) = (case bn_exchange net name out of
          Inl err \<Rightarrow> BmcError 502 (''BMC unreachable: '' @ err)
        | Inr resp \<Rightarrow> BmcForwarded out (fst (ModifyResponse net now cfg name (Some c) out resp (wb_jars w name))))"
    unfolding fwd forward_def Let_def out_def[symmetric] by (simp split: sum.split prod.split)
  moreover have "\<exists>n. n \<in> set (CookiesToStrip b) \<and> (n, bc_SessionCookie c) \<in> set (wr_Cookies out)"
    using assms(3,4) by (auto simp: out_def Director_def add_cookie_def set_token_def)
  moreover have "wr_Host out = host_port cfg" unfolding out_def using Director_target by blast
  ultimately show ?thesis by blast
qed

section \<open>The BMC sessions\<close>

lemma set_proxy_other: "n \<noteq> name \<Longrightarrow> sv_proxies (set_proxy name f s) n = sv_proxies s n"
  by (simp add: set_proxy_def getOrCreateProxy_def Let_def split: option.split)

lemma set_proxy_fields:
  "sv_Config (set_proxy name f s) = sv_Config s" "sv_logouts (set_proxy name f s) = sv_logouts s"
  by (simp_all add: set_proxy_def getOrCreateProxy_def Let_def split: option.split)

lemma set_proxy_entry:
  "sv_proxies (set_proxy name f s) name = Some (f (case sv_proxies s name of Some e \<Rightarrow> e | None \<Rightarrow> \<lparr>pe_bmcCreds = None, pe_kvmActive = False\<rparr>))"
  by (simp add: set_proxy_def getOrCreateProxy_def Let_def split: option.split)

definition entry_of :: "string \<Rightarrow> Server \<Rightarrow> bmcProxyEntry" where
  "entry_of name s = (case sv_proxies s name of Some e \<Rightarrow> e | None \<Rightarrow> \<lparr>pe_bmcCreds = None, pe_kvmActive = False\<rparr>)"

lemma getOrCreateProxy_entry:
  assumes "getOrCreateProxy name s = (e, s')"
  shows "e = entry_of name s" "entry_of name s' = entry_of name s" "sv_logouts s' = sv_logouts s" "sv_Config s' = sv_Config s"
    "n \<noteq> name \<Longrightarrow> sv_proxies s' n = sv_proxies s n"
  using assms by (auto simp: getOrCreateProxy_def entry_of_def Let_def split: option.split_asm)

lemma set_proxy_entry_of: "entry_of name (set_proxy name f s) = f (entry_of name s)"
  by (simp add: entry_of_def set_proxy_entry)

text \<open>C37: renewing a BMC session never leaves a second one open: unless the KVM uses the session, in which case nothing changes,
  the credentials it replaces are logged out exactly once, and afterwards the entry holds the new credentials or, when
  the login failed, none; other servers are not touched.\<close>

theorem ensureBMCSession_spec:
  assumes "GetPassword (be_getenv be) cfg = Some pw" "be_registered be (sc_BoardType cfg)" "ensureBMCSession be cfg s = (res, s')"
  defines "e \<equiv> entry_of (sc_Name cfg) s"
  shows "(if pe_kvmActive e then res = Inr (pe_bmcCreds e) \<and> entry_of (sc_Name cfg) s' = e \<and> sv_logouts s' = sv_logouts s
          else sv_logouts s' = sv_logouts s @ (case pe_bmcCreds e of None \<Rightarrow> [] | Some old \<Rightarrow> [(sc_Name cfg, old)])
            \<and> (case be_CreateWebSession be 1 of
                 Inl err \<Rightarrow> res = Inl err \<and> entry_of (sc_Name cfg) s' = e\<lparr>pe_bmcCreds := None\<rparr>
               | Inr c \<Rightarrow> res = Inr (Some c) \<and> entry_of (sc_Name cfg) s' = e\<lparr>pe_bmcCreds := Some c\<rparr>))
     \<and> (\<forall>n. n \<noteq> sc_Name cfg \<longrightarrow> sv_proxies s' n = sv_proxies s n)"
proof -
  obtain en s1 where g: "getOrCreateProxy (sc_Name cfg) s = (en, s1)" by force
  note ge = getOrCreateProxy_entry[OF g]
  define s2 where "s2 = (case pe_bmcCreds e of None \<Rightarrow> s1
     | Some old \<Rightarrow> set_proxy (sc_Name cfg) (\<lambda>e. e\<lparr>pe_bmcCreds := None\<rparr>) (s1\<lparr>sv_logouts := sv_logouts s1 @ [(sc_Name cfg, old)]\<rparr>))"
  have s2: "entry_of (sc_Name cfg) s2 = e\<lparr>pe_bmcCreds := None\<rparr>" "sv_logouts s2 = sv_logouts s @ (case pe_bmcCreds e of None \<Rightarrow> [] | Some old \<Rightarrow> [(sc_Name cfg, old)])"
    "n \<noteq> sc_Name cfg \<Longrightarrow> sv_proxies s2 n = sv_proxies s n" for n
    using ge set_proxy_entry_of[of "sc_Name cfg"]
    by (auto simp: s2_def e_def set_proxy_fields set_proxy_other entry_of_def[of _ "_\<lparr>sv_logouts := _\<rparr>"] split: option.split)
       (auto simp: entry_of_def)
  have "ensureBMCSession be cfg s = (if pe_kvmActive e then (Inr (pe_bmcCreds e), s1)
      else case be_CreateWebSession be 1 of Inl err \<Rightarrow> (Inl err, s2)
        | Inr c \<Rightarrow> (Inr (Some c), set_proxy (sc_Name cfg) (\<lambda>e. e\<lparr>pe_bmcCreds := Some c\<rparr>) s2))"
    unfolding ensureBMCSession_def assms(1) option.case g prod.case Let_def ge(1)[folded e_def] s2_def using assms(2) by simp
  then show ?thesis
    using assms(3) s2 ge by (auto simp: set_proxy_fields set_proxy_other set_proxy_entry_of e_def split: sum.split_asm if_split_asm)
qed

text \<open>The entry after \<open>ensureBMCSession\<close>, for the theorems that follow.\<close>

lemma ensure_cases:
  assumes "ensureBMCSession be cfg s = (res, s')"
  shows "sv_Config s' = sv_Config s" "n \<noteq> sc_Name cfg \<Longrightarrow> entry_of n s' = entry_of n s"
    "GetPassword (be_getenv be) cfg = Some pw \<Longrightarrow> be_registered be (sc_BoardType cfg) \<Longrightarrow> \<not> pe_kvmActive (entry_of (sc_Name cfg) s) \<Longrightarrow>
     entry_of (sc_Name cfg) s' = (entry_of (sc_Name cfg) s)\<lparr>pe_bmcCreds := (case be_CreateWebSession be 1 of Inl _ \<Rightarrow> None | Inr c \<Rightarrow> Some c)\<rparr>"
    "GetPassword (be_getenv be) cfg = Some pw \<Longrightarrow> be_registered be (sc_BoardType cfg) \<Longrightarrow> pe_kvmActive (entry_of (sc_Name cfg) s) \<Longrightarrow>
     res = Inr (pe_bmcCreds (entry_of (sc_Name cfg) s))"
proof -
  obtain en s1 where g: "getOrCreateProxy (sc_Name cfg) s = (en, s1)" by force
  note ge = getOrCreateProxy_entry[OF g]
  have lg: "entry_of n (k\<lparr>sv_logouts := l\<rparr>) = entry_of n k" for n l and k :: Server by (simp add: entry_of_def)
  have so: "entry_of n (set_proxy m f k) = entry_of n k" if "n \<noteq> m" for n m f k
    using set_proxy_other[OF that] by (simp add: entry_of_def)
  have eo: "entry_of n s1 = entry_of n s" for n using ge(2,5) by (cases "n = sc_Name cfg") (auto simp: entry_of_def)
  show "sv_Config s' = sv_Config s"
    using assms g ge(4) by (auto simp: ensureBMCSession_def set_proxy_fields Let_def split: option.split_asm sum.split_asm if_split_asm)
  show "entry_of n s' = entry_of n s" if "n \<noteq> sc_Name cfg"
    using that assms g eo by (auto simp: ensureBMCSession_def lg so Let_def split: option.split_asm sum.split_asm if_split_asm)
  show "entry_of (sc_Name cfg) s' = (entry_of (sc_Name cfg) s)\<lparr>pe_bmcCreds := (case be_CreateWebSession be 1 of Inl _ \<Rightarrow> None | Inr c \<Rightarrow> Some c)\<rparr>"
    if "GetPassword (be_getenv be) cfg = Some pw" "be_registered be (sc_BoardType cfg)" "\<not> pe_kvmActive (entry_of (sc_Name cfg) s)"
    using that assms g eo[of "sc_Name cfg"] ge(1) by (auto simp: ensureBMCSession_def lg set_proxy_entry_of Let_def split: option.split_asm sum.split_asm)
  show "res = Inr (pe_bmcCreds (entry_of (sc_Name cfg) s))"
    if "GetPassword (be_getenv be) cfg = Some pw" "be_registered be (sc_BoardType cfg)" "pe_kvmActive (entry_of (sc_Name cfg) s)"
    using that assms g ge(1) by (auto simp: ensureBMCSession_def)
qed

text \<open>The IPMI session endpoint panics for a server whose session could not be renewed before a console was opened on it: the
  entry is then in use by the KVM and has no credentials, and the handler reads them without a check.\<close>

theorem ipmi_session_panics:
  assumes "GetPassword (be_getenv be) cfg = Some pw" "be_registered be (sc_BoardType cfg)" "\<not> oc_Enabled (ac_OIDC (sv_Config s))"
    and "find_server (sv_Config s) (sc_Name cfg) = Some cfg" "\<not> pe_kvmActive (entry_of (sc_Name cfg) s)" "be_CreateWebSession be 1 = Inl err"
  shows "CreateIPMISession be cl (sc_Name cfg) (mark_kvm True (sc_Name cfg) (snd (ensureBMCSession be cfg s))) = None"
proof -
  obtain res s1 where e: "ensureBMCSession be cfg s = (res, s1)" by force
  note c = ensure_cases[OF e]
  define s2 where "s2 = mark_kvm True (sc_Name cfg) s1"
  have m: "s2 = set_proxy (sc_Name cfg) (\<lambda>e. e\<lparr>pe_kvmActive := True\<rparr>) s1" using assms(4) c(1) by (simp add: s2_def mark_kvm_def)
  have s2: "sv_Config s2 = sv_Config s" "pe_kvmActive (entry_of (sc_Name cfg) s2)" "pe_bmcCreds (entry_of (sc_Name cfg) s2) = None"
    using c(1) c(3)[OF assms(1,2,5)] assms(6) by (simp_all add: m set_proxy_fields set_proxy_entry_of)
  obtain res' s3 where e': "ensureBMCSession be cfg s2 = (res', s3)" by force
  have "res' = Inr None" using ensure_cases(4)[OF e' assms(1,2) s2(2)] s2(3) by simp
  then show ?thesis using assms(3,4) s2(1) e' by (simp add: CreateIPMISession_def e s2_def)
qed

text \<open>The session manager gives every server a session: after a round in which all logins succeed, every configured server
  has credentials, unless its KVM is in use.\<close>

theorem manager_creates_sessions:
  assumes "distinct (map sc_Name servers)" "cfg \<in> set servers"
    and "\<forall>c\<in>set servers. GetPassword (be_getenv (envs (sc_Name c))) c \<noteq> None \<and> be_registered (envs (sc_Name c)) (sc_BoardType c)
        \<and> isl (be_CreateWebSession (envs (sc_Name c)) 1) = False"
    and "\<not> pe_kvmActive (entry_of (sc_Name cfg) s)"
  shows "pe_bmcCreds (entry_of (sc_Name cfg) (createAll envs sc servers s)) \<noteq> None"
proof -
  have other: "entry_of n (manage_session be sc c s) = entry_of n s" if "n \<noteq> sc_Name c" for n be c s
  proof -
    obtain en s1 where g: "getOrCreateProxy (sc_Name c) s = (en, s1)" by force
    have "entry_of n s1 = entry_of n s" using getOrCreateProxy_entry(5)[OF g that] by (simp add: entry_of_def)
    then show ?thesis using ensure_cases(2)[OF surjective_pairing that] g by (auto simp: manage_session_def)
  qed
  have others: "entry_of n (createAll envs sc cs s) = entry_of n s" if "n \<notin> sc_Name ` set cs" for n cs s
    using that by (induction cs arbitrary: s) (simp_all add: createAll_def other)
  obtain pre post where sp: "servers = pre @ cfg # post" using split_list[OF assms(2)] by blast
  define t where "t = createAll envs sc pre s"
  have t: "\<not> pe_kvmActive (entry_of (sc_Name cfg) t)" using others[of "sc_Name cfg" pre s] assms(1,4) by (auto simp: t_def sp)
  define u where "u = manage_session (envs (sc_Name cfg)) sc cfg t"
  have "pe_bmcCreds (entry_of (sc_Name cfg) u) \<noteq> None"
  proof -
    obtain en t1 where g: "getOrCreateProxy (sc_Name cfg) t = (en, t1)" by force
    note ge = getOrCreateProxy_entry[OF g]
    obtain pw k where l: "GetPassword (be_getenv (envs (sc_Name cfg))) cfg = Some pw" "be_registered (envs (sc_Name cfg)) (sc_BoardType cfg)"
      "be_CreateWebSession (envs (sc_Name cfg)) 1 = Inr k"
      using assms(2,3) by (metis isl_def not_Some_eq old.sum.exhaust)
    have "pe_bmcCreds (entry_of (sc_Name cfg) (snd (ensureBMCSession (envs (sc_Name cfg)) cfg t1))) \<noteq> None"
      using ensure_cases(3)[OF surjective_pairing l(1,2), of t1] t ge(2) l(3) by simp
    then show ?thesis using g ge(1,2) by (simp add: u_def manage_session_def)
  qed
  moreover have "createAll envs sc servers s = createAll envs sc post u" by (simp add: createAll_def t_def u_def sp)
  moreover have "sc_Name cfg \<notin> sc_Name ` set post" using assms(1) by (auto simp: sp)
  ultimately show ?thesis using others by simp
qed

section \<open>The NanoKVM WebSocket\<close>

text \<open>The NanoKVM WebSocket connects exactly the holders of the session token of a configured device to it, with that
  token; a cookie of one to nineteen characters makes the handler panic.\<close>

theorem nanokvm_ws_token:
  "(\<forall>url c. HandleNanoKVMWebSocket cookie path s = Some (NanoDial url c) \<longrightarrow>
      (\<exists>cfg e k. cfg \<in> set (ac_Servers (sv_Config s)) \<and> sc_BoardType cfg = ''nanokvm'' \<and> sv_proxies s (sc_Name cfg) = Some e
         \<and> pe_bmcCreds e = Some k \<and> cookie = Some (bc_SessionCookie k) \<and> c = ''nano-kvm-token='' @ bc_SessionCookie k))
   \<and> (HandleNanoKVMWebSocket cookie path s = None \<longleftrightarrow> (\<exists>v. cookie = Some v \<and> 0 < length v \<and> length v < 20))"
proof (intro conjI allI impI)
  show "HandleNanoKVMWebSocket cookie path s = None \<longleftrightarrow> (\<exists>v. cookie = Some v \<and> 0 < length v \<and> length v < 20)"
    by (auto simp: HandleNanoKVMWebSocket_def split: option.splits)
next
  fix url c assume dial: "HandleNanoKVMWebSocket cookie path s = Some (NanoDial url c)"
  then obtain v where v: "cookie = Some v" "20 \<le> length v" by (cases cookie) (auto simp: HandleNanoKVMWebSocket_def split: if_split_asm)
  define P where "P = (\<lambda>cfg :: ServerConfig. sc_BoardType cfg = ''nanokvm''
     \<and> (case Option.bind (sv_proxies s (sc_Name cfg)) pe_bmcCreds of None \<Rightarrow> False | Some c \<Rightarrow> bc_SessionCookie c = v))"
  obtain cfg where "List.find P (ac_Servers (sv_Config s)) = Some cfg" "c = ''nano-kvm-token='' @ v"
    using dial v by (cases "List.find P (ac_Servers (sv_Config s))") (auto simp: HandleNanoKVMWebSocket_def P_def[symmetric] split: if_split_asm)
  moreover from this(1) have "cfg \<in> set (ac_Servers (sv_Config s))" "P cfg" by (auto simp: find_Some_iff)
  ultimately show "\<exists>cfg e k. cfg \<in> set (ac_Servers (sv_Config s)) \<and> sc_BoardType cfg = ''nanokvm'' \<and> sv_proxies s (sc_Name cfg) = Some e
         \<and> pe_bmcCreds e = Some k \<and> cookie = Some (bc_SessionCookie k) \<and> c = ''nano-kvm-token='' @ bc_SessionCookie k"
    using v(1) by (auto simp: P_def bind_eq_Some_conv split: option.split_asm)
qed

section \<open>Examples\<close>

definition sample_device :: "string \<Rightarrow> string \<Rightarrow> ServerConfig" where
  "sample_device name board = \<lparr>sc_Name = name, sc_BMCIP = ''10.0.0.7'', sc_BMCPort = 80, sc_BoardType = board, sc_Username = ''root'',
     sc_CredentialEnv = ''PW'', sc_TLSSkipVerify = None, sc_PollIntervalSeconds = 30\<rparr>"

definition sample_entry :: bmcProxyEntry where
  "sample_entry = \<lparr>pe_bmcCreds = Some sample_creds, pe_kvmActive = False\<rparr>"

definition device_server :: "string \<Rightarrow> Server" where
  "device_server board = (newServerCore (sample_config\<lparr>ac_Servers := [sample_device ''rack'' board], ac_OIDC := sample_oidc\<lparr>oc_Enabled := False\<rparr>\<rparr>))\<lparr>sv_proxies := [''rack'' \<mapsto> sample_entry]\<rparr>"

definition device_web :: "string \<Rightarrow> Web" where
  "device_web board = \<lparr>wb_srv = device_server board, wb_jars = (\<lambda>_. [])\<rparr>"

definition sample_web_request :: "string \<Rightarrow> string \<Rightarrow> web_request" where
  "sample_web_request method path = \<lparr>wr_Method = method, wr_Scheme = '''', wr_Host = '''', wr_Path = path, wr_RawPath = '''',
     wr_Header = Map.empty, wr_Cookies = [(''kvm_session'', ''secret''), (''theme'', ''dark'')]\<rparr>"

definition echo_net :: bmc_net where
  "echo_net = \<lparr>bn_exchange = (\<lambda>_ r. Inr \<lparr>wo_Status = 200, wo_Header = Map.empty, wo_SetCookies = [], wo_Body = []\<rparr>),
     bn_gunzip = (\<lambda>b. (None, b))\<rparr>"

lemma device_facts:
  "find_server (sv_Config (device_server board)) ''rack'' = Some (sample_device ''rack'' board)"
  "sv_proxies (device_server board) ''rack'' = Some sample_entry" "pe_bmcCreds sample_entry = Some sample_creds" "sc_BoardType (sample_device n board) = board"
  "sc_Name (sample_device n board) = n" "sv_Config (device_server board) = sample_config\<lparr>ac_Servers := [sample_device ''rack'' board], ac_OIDC := sample_oidc\<lparr>oc_Enabled := False\<rparr>\<rparr>"
  "wb_srv (device_web board) = device_server board"
  "find_server (sample_config\<lparr>ac_Servers := [sample_device ''rack'' board], ac_OIDC := sample_oidc\<lparr>oc_Enabled := False\<rparr>\<rparr>) ''rack''
     = Some (sample_device ''rack'' board)"
  by (simp_all add: device_server_def device_web_def find_server_def newServerCore_def sample_device_def sample_entry_def)

theorem bypass_needs_slash_witness:
  "\<exists>loc w'. HandleBMCProxy echo_net 0 (sample_caller []) (sample_web_request ''GET'' ''/__bmc/rack'') (device_web ''apc_ups'') = (BmcRedirect loc, w')
     \<and> HandleBMCProxy echo_net 0 (sample_caller []) ((sample_web_request ''GET'' ''/__bmc/rack'')\<lparr>wr_Path := loc\<rparr>) w' = (BmcError 404 ''unknown server'', w')"
  by (rule bypass_needs_slash[of "''rack''" _ "sample_device ''rack'' ''apc_ups''" sample_entry sample_creds])
     (simp_all add: device_facts sample_web_request_def, simp_all add: find_server_def sample_device_def)


theorem proxy_ignores_roles_witness:
  "\<exists>(out :: web_request) n. (n, ''c'') \<in> set (wr_Cookies out) \<and> wr_Host out = ''10.0.0.7:80''"
proof -
  define s where "s = (device_server ''ami_megarac'')\<lparr>sv_Config := (sv_Config (device_server ''ami_megarac''))\<lparr>ac_OIDC := sample_oidc\<lparr>oc_Enabled := True\<rparr>\<rparr>\<rparr>"
  have f: "find_server (sv_Config s) ''rack'' = Some (sample_device ''rack'' ''ami_megarac'')" "sv_proxies s ''rack'' = Some sample_entry"
    by (simp_all add: s_def find_server_def device_facts)
  have sp: "split_bmc_path ''/__bmc/rack/data'' = (''rack'', ''/data'')" by code_simp
  have "UserCanAccessServer (sample_oidc\<lparr>oc_Enabled := True\<rparr>) (cl_user (sample_caller [])) ''rack'' = Some False"
    by (simp add: UserCanAccessServer_def sample_caller_def)
  then have c: "CreateIPMISession sample_env (sample_caller []) ''rack'' s = Some (ApiError 403 ''access denied'', s)"
    using f by (simp add: CreateIPMISession_def s_def)
  have h: "host_port (sample_device ''rack'' ''ami_megarac'') = ''10.0.0.7:80''" by code_simp
  have k: "bc_SessionCookie sample_creds = ''c''" by (simp add: sample_creds_def)
  show ?thesis
    using proxy_ignores_roles[OF c f(1) _ _ f(2), of MegaRACBoard sample_creds "sample_web_request ''PUT'' ''/__bmc/rack/data''" "''/data''" "(device_web ''ami_megarac'')\<lparr>wb_srv := s\<rparr>" echo_net 0]
    by (simp add: sp h k boards_Get_def device_facts sample_web_request_def) blast
qed

lemma device_login:
  "GetPassword (be_getenv sample_env) (sample_device n board) = Some ''secret''" "be_registered sample_env b" "be_CreateWebSession sample_env k = Inl ''no''"
  "entry_of ''rack'' (device_server board) = sample_entry" "\<not> pe_kvmActive sample_entry" "\<not> oc_Enabled (ac_OIDC (sv_Config (device_server board)))"
  "sv_logouts (device_server board) = []"
  by (simp_all add: GetPassword_def sample_env_def sample_device_def entry_of_def device_facts) 
     (simp_all add: sample_entry_def device_server_def newServerCore_def)

theorem ensureBMCSession_spec_witness:
  "sv_logouts (snd (ensureBMCSession sample_env (sample_device ''rack'' ''ami_megarac'') (device_server ''ami_megarac''))) = [(''rack'', sample_creds)]"
proof -
  obtain res s' where e: "ensureBMCSession sample_env (sample_device ''rack'' ''ami_megarac'') (device_server ''ami_megarac'') = (res, s')" by force
  show ?thesis using ensureBMCSession_spec[OF device_login(1,2) e] by (simp add: e device_login device_facts)
qed

theorem ipmi_session_panics_witness:
  "CreateIPMISession sample_env (sample_caller []) ''rack'' (mark_kvm True ''rack''
     (snd (ensureBMCSession sample_env (sample_device ''rack'' ''ami_megarac'') (device_server ''ami_megarac'')))) = None"
  using ipmi_session_panics[of sample_env "sample_device ''rack'' ''ami_megarac''" "''secret''" "device_server ''ami_megarac''" "''no''" "sample_caller []"]
  by (simp add: device_login device_facts)

theorem manager_creates_sessions_witness:
  "pe_bmcCreds (entry_of ''rack'' (createAll (\<lambda>_. sample_env\<lparr>be_CreateWebSession := (\<lambda>_. Inr sample_creds)\<rparr>) None
     [sample_device ''web'' ''dell_idrac9'', sample_device ''rack'' ''ami_megarac''] (device_server ''ami_megarac''))) \<noteq> None"
  using manager_creates_sessions[of "[sample_device ''web'' ''dell_idrac9'', sample_device ''rack'' ''ami_megarac'']" "sample_device ''rack'' ''ami_megarac''"
      "\<lambda>_. sample_env\<lparr>be_CreateWebSession := (\<lambda>_. Inr sample_creds)\<rparr>" "device_server ''ami_megarac''" None]
  by (simp add: device_facts device_login)

theorem nanokvm_ws_token_witness:
  "HandleNanoKVMWebSocket (Some ''short'') ''/api/ws'' (device_server ''nanokvm'') = None"
  using nanokvm_ws_token[of "Some ''short''" "''/api/ws''" "device_server ''nanokvm''"] by auto

end
