(* ===== verification/Isolib.thy ===== *)
theory Isolib
  imports Isos
begin

text \<open>
  What the ISO library promises, beyond the invariant of \<open>Isos\<close>: an upload can be read back, sequential uploads stay
  within the storage limit, every download comes to an end; and what the interleavings and failures of the
  handlers break. The examples that the theorems of both theories are applied to are at the end.
\<close>

section \<open>An upload can be read back\<close>

lemma find_row_snoc: "find_row f l = None \<Longrightarrow> same_files (k\<lparr>li_db := Some (rows l @ [r])\<rparr>) l' \<Longrightarrow> if_Filename r = f \<Longrightarrow> find_row f l' = Some r"
  by (simp add: find_row_def same_files_def find_snoc)

text \<open>C28: an upload can be read back: when the upload of a file is answered with its record, the record has the size
  and the hash of the content, and a download of that name that reaches the table gives the content.\<close>

theorem upload_download_roundtrip:
  assumes "UploadISO now cl form stop l = (IsoRecord 201 r, l')" "\<not> li_dbfail l' (li_dbops l')"
  shows "if_SizeBytes r = int (length (form_content form)) \<and> if_SHA256 r = hex_encode (sha256 (form_content form))
     \<and> if_UploadedBy r = email_of cl \<and> fst (DownloadISO (if_Filename r) l') = IsoContent (Some (form_content form))"
proof -
  obtain u l1 where b: "upload_begin form l = (Inr u, l1)" "upload_finish now cl (form_content form) stop u l1 = (IsoRecord 201 r, l')"
  proof -
    obtain x l1 where x: "upload_begin form l = (x, l1)" by force
    have "x \<noteq> Inl (IsoRecord 201 r)"
      using x unfolding upload_begin_def Let_def over_limit_def
      by (auto split: if_split_asm upload_form.split_asm option.split_asm prod.split_asm open_result.split_asm)
    then show ?thesis using assms(1) x that by (cases x) (auto simp: UploadISO_def)
  qed
  obtain f sz c where u: "form = FormFile f sz c" "sanitizeISOFilename f = None" "find_row f l = None" "li_db l \<noteq> None"
    "up_filename u = f" "up_path u = dest_path f l" "creates (dest_path f l) (up_inode u) l l1"
    using upload_begin_Inr[OF b(1)] by blast
  note cf = created_file[OF u(7)]
  from upload_finish_cases[OF b(2)] have fin: "stop = None"
    "same_files ((io_Copy (up_inode u) (form_content form) stop l1)\<lparr>li_db := Some (rows l1 @ [r])\<rparr>) l'"
    "r = new_row now f (copied stop (form_content form)) (email_of cl) l1"
    by (auto simp: u(5))
  have name: "if_Filename r = f" by (simp add: fin(3) new_row_def)
  have "find_row f l' = Some r" using find_row_snoc[OF _ fin(2) name] cf(4) u(3) by simp
  moreover have "file_at (dest_path f l') l' = Some (form_content form)"
    using fin(1,2) cf(1)[of "form_content form" stop] cf(3)
    by (simp add: same_files_def file_at_def dest_path_def copied_def io_Copy_def)
  moreover have "li_db l' \<noteq> None" using fin(2) by (simp add: same_files_def)
  moreover have "dest_path f (l'\<lparr>li_dbops := n\<rparr>) = dest_path f l'" "file_at p (l'\<lparr>li_dbops := n\<rparr>) = file_at p l'" for n p
    by (simp_all add: dest_path_def file_at_def)
  ultimately show ?thesis
    using assms(2) u(2) fin(1) name
    by (simp add: DownloadISO_def with_iso_def GetISO_def db_op_def fin(3) new_row_def copied_def)
qed

section \<open>The limit\<close>

lemma i64_id: "\<lbrakk>- (2 ^ 63) \<le> n; n < 2 ^ 63\<rbrakk> \<Longrightarrow> i64 n = n"
  by (simp add: i64_def)

lemma total_fold:
  "\<lbrakk>\<forall>r\<in>set rs. 0 \<le> if_SizeBytes r; 0 \<le> t; t + (\<Sum>r\<leftarrow>rs. if_SizeBytes r) < 2 ^ 63\<rbrakk>
   \<Longrightarrow> fold (\<lambda>r t. i64 (t + if_SizeBytes r)) rs t = t + (\<Sum>r\<leftarrow>rs. if_SizeBytes r)"
proof (induction rs arbitrary: t)
  case (Cons r rs)
  have "0 \<le> (\<Sum>r\<leftarrow>rs. if_SizeBytes r)" using Cons.prems(1) by (intro sum_list_nonneg) auto
  then have "i64 (t + if_SizeBytes r) = t + if_SizeBytes r" using Cons.prems by (intro i64_id) auto
  then show ?case using Cons.IH[of "t + if_SizeBytes r"] Cons.prems by (simp add: add.assoc)
qed simp

lemma sum_sorted: "(\<Sum>r\<leftarrow>sort_key k rs. g r) = (\<Sum>r\<leftarrow>rs. (g r :: int))"
proof -
  have ins: "(\<Sum>r\<leftarrow>insort_key k x rs. g r) = g x + (\<Sum>r\<leftarrow>rs. g r)" for x rs by (induction rs) auto
  show ?thesis by (induction rs) (simp_all add: ins)
qed

lemma total_size_sum:
  assumes "\<forall>r\<in>set rs. 0 \<le> if_SizeBytes r" "(\<Sum>r\<leftarrow>rs. if_SizeBytes r) < 2 ^ 63"
  shows "total_size (sort_key if_Filename rs) = (\<Sum>r\<leftarrow>rs. if_SizeBytes r)"
  using total_fold[of "sort_key if_Filename rs" 0] assms by (simp add: total_size_def sum_sorted)

text \<open>C29: the storage limit: when the sizes in the table stay within the configured limit, they do after any upload,
  whatever the client claims the size to be; the limit is computed without overflow up to \<open>2^31\<close> gigabytes.\<close>

theorem upload_within_limit:
  assumes "\<forall>r\<in>set (rows l). 0 \<le> if_SizeBytes r" "(\<Sum>r\<leftarrow>rows l. if_SizeBytes r) \<le> max_bytes l"
    and "0 \<le> st_ISOMaxSizeGB (li_Settings l)" "st_ISOMaxSizeGB (li_Settings l) \<le> 2 ^ 31" "length (form_content form) < 2 ^ 61"
    and "UploadISO now cl form stop l = (resp, l')"
  shows "max_bytes l = st_ISOMaxSizeGB (li_Settings l) * 2 ^ 30 \<and> (\<Sum>r\<leftarrow>rows l'. if_SizeBytes r) \<le> max_bytes l"
proof -
  let ?S = "\<lambda>l. \<Sum>r\<leftarrow>rows l. if_SizeBytes r"
  have mb: "max_bytes l = st_ISOMaxSizeGB (li_Settings l) * 2 ^ 30"
    using assms(3,4) by (simp add: max_bytes_def i64_id)
  have small: "max_bytes l \<le> 2 ^ 61" using assms(3,4) mb by simp
  obtain x l1 where b: "upload_begin form l = (x, l1)" by force
  show ?thesis
  proof (cases x)
    case (Inl r)
    then have "same_files l l'" using assms(6) b upload_begin_Inl[of form l r l'] by (auto simp: UploadISO_def)
    then show ?thesis using mb assms(2) by (simp add: same_files_def)
  next
    case (Inr u)
    obtain f sz c where u: "form = FormFile f sz c" "up_total u = total_size (sort_key if_Filename (rows l))" "up_max u = max_bytes l"
      "creates (dest_path f l) (up_inode u) l l1"
      using upload_begin_Inr[OF b[unfolded Inr]] by blast
    have rows: "rows l1 = rows l" using created_file(2)[OF u(4)] .
    have tot: "up_total u = ?S l" using total_size_sum assms(1,2) small by (simp add: u(2))
    have fin: "upload_finish now cl (form_content form) stop u l1 = (resp, l')"
      using assms(6) b Inr by (simp add: UploadISO_def)
    define data where "data = copied stop (form_content form)"
    have len: "length data < 2 ^ 61" using assms(5) by (auto simp: data_def copied_def split: option.split)
    have "0 \<le> ?S l" using assms(1) by (intro sum_list_nonneg) auto
    then have ov: "i64 (?S l + int (length data)) = ?S l + int (length data)"
      using len assms(2) small by (intro i64_id) auto
    from upload_finish_cases[OF fin] show ?thesis
    proof
      assume "unlinks (up_path u) (io_Copy (up_inode u) (form_content form) stop l1) l' \<and> (\<exists>code msg. resp = IsoError code msg)"
      then have "rows l' = rows l" by (auto simp: unlinks_def same_files_def rows)
      then show ?thesis using mb assms(2) by simp
    next
      assume a: "stop = None \<and> i64 (up_total u + int (length (copied stop (form_content form)))) \<le> up_max u \<and>
        find_row (up_filename u) l1 = None \<and>
        same_files (io_Copy (up_inode u) (form_content form) stop l1
          \<lparr>li_db := Some (rows l1 @ [new_row now (up_filename u) (copied stop (form_content form)) (email_of cl) l1])\<rparr>) l' \<and>
        (resp = IsoRecord 201 (new_row now (up_filename u) (copied stop (form_content form)) (email_of cl) l1) \<or>
         resp = IsoBasic 201 (up_filename u) (int (length (copied stop (form_content form)))) (hex_encode (sha256 (copied stop (form_content form)))))"
      then have "rows l' = rows l @ [new_row now (up_filename u) data (email_of cl) l1]"
        by (simp add: same_files_def rows data_def)
      moreover have "i64 (up_total u + int (length data)) \<le> up_max u" using a unfolding data_def by blast
      then have "?S l + int (length data) \<le> max_bytes l" using ov by (simp only: tot u(3))
      ultimately show ?thesis using mb by (simp add: new_row_def)
    qed
  qed
qed

section \<open>What goes wrong\<close>

text \<open>A download that fails removes the file under its name, even one that it did not create: when a file of the
  name was registered after the download was accepted and the request to the remote server fails, the file is
  gone and its row stays.\<close>

theorem failed_download_deletes_file:
  assumes "find_row (dl_Filename d) l = Some r" "\<not> li_iofail l (li_ioops l)" "\<forall>len. get \<noteq> GetBody len"
  shows "file_at (dest_path (dl_Filename d) l) (performISODownload now user addr d get content stop ns l) = None
     \<and> find_row (dl_Filename d) (performISODownload now user addr d get content stop ns l) = Some r"
  using assms
  by (cases get) (auto simp: performISODownload_def perform_begin_def dl_fail_def os_Remove_def io_op_def file_at_def upd_dl_def
      Let_def)

lemma dl_fail_removes:
  assumes "\<not> li_iofail l (li_ioops l)"
  shows "li_disk (dl_fail i path msg l) path = None"
  using assms by (simp add: dl_fail_def os_Remove_def io_op_def upd_dl_def)

lemma progress_io [simp]:
  "li_iofail (fold (progress_write i) ns l) = li_iofail l" "li_ioops (fold (progress_write i) ns l) = li_ioops l"
  by (induction ns arbitrary: l) (simp_all add: progress_write_def upd_dl_def)

lemma perform_finish_taken:
  assumes "find_row (dl_Filename d) l = Some r" "\<forall>n. \<not> li_iofail l n"
  shows "li_disk (perform_finish now user addr d content stop ns it l) (dest_path (dl_Filename d) l) = None"
proof -
  let ?f = "dl_Filename d"
  define l2 where "l2 = fold (progress_write (dl_ID d)) ns (io_Copy (fst it) content stop l)"
  have io: "li_iofail l2 = li_iofail l" by (simp add: l2_def) (simp add: io_Copy_def)
  have "same_files (io_Copy (fst it) content stop l) l2" unfolding l2_def by (rule progress_same)
  then have row: "find_row ?f l2 = Some r" using assms(1) by (simp add: same_files_def find_row_def rows_def)
      (metis io_Copy_fields(1) rows_def)
  have rm: "li_iofail (snd (os_Remove p k)) = li_iofail k" for p k by (simp add: os_Remove_def io_op_def)
  have ins: "InsertISO now ?f n sha user l2 = (False, l2\<lparr>li_dbops := li_dbops l2 + 1\<rparr>)" for n sha
    using row by (simp add: InsertISO_def db_op_def)
  let ?r = "perform_finish now user addr d content stop ns it l"
  let ?G = "\<lambda>k. \<exists>msg. ?r = dl_fail (dl_ID d) (dest_path ?f l) msg k"
  note pf = perform_finish_def Let_def l2_def[symmetric] ins prod.case bool.case
  have "?G l2 \<or> ?G (snd (os_Remove (dest_path ?f l) l2)) \<or> ?G (snd (os_Remove (dest_path ?f l) (l2\<lparr>li_dbops := li_dbops l2 + 1\<rparr>)))"
    by (simp only: pf simp_thms split: if_split) blast
  then obtain msg k where k: "?r = dl_fail (dl_ID d) (dest_path ?f l) msg k" "li_iofail k = li_iofail l2"
    using rm by fastforce
  show ?thesis unfolding k(1) by (rule dl_fail_removes) (simp add: k(2) io assms(2))
qed

text \<open>An upload and a download of the same name can destroy the upload. When the download begins while the body of the
  upload arrives, it takes the uploader's file for an orphan and replaces it; the upload then registers its file
  and is answered with success, the download cannot register its own and removes it: the row stays without a
  file.\<close>

theorem upload_lost_to_download:
  assumes "upload_begin form l = (Inr u, l1)" "dl_Filename d = up_filename u" "perform_begin d get l1 = (Some it, l2)"
    and "upload_finish now cl content stop u l2 = (IsoRecord 201 r, l3)" "\<forall>n. \<not> li_iofail l3 n"
    and l4: "l4 = perform_finish now' user addr d content' stop' ns it l3"
  shows "find_row (dl_Filename d) l4 = Some r \<and> file_at (dest_path (dl_Filename d) l4) l4 = None"
proof -
  let ?f = "dl_Filename d"
  obtain f sz c where u: "sanitizeISOFilename f = None" "find_row f l = None" "up_filename u = f" "up_path u = dest_path f l"
    "creates (dest_path f l) (up_inode u) l l1"
    using upload_begin_Inr[OF assms(1)] by blast
  from upload_finish_cases[OF assms(4)] have fin: "find_row ?f l2 = None" "if_Filename r = ?f"
    "same_files ((io_Copy (up_inode u) content stop l2)\<lparr>li_db := Some (rows l2 @ [r])\<rparr>) l3"
    by (auto simp: assms(2) new_row_def)
  have row3: "find_row ?f l3 = Some r" using find_row_snoc[OF fin(1) fin(3) fin(2)] .
  obtain ino tot where it: "it = (ino, tot)" by force
  from perform_finish_cases[of now' user addr d content' stop' ns ino tot l3, OF refl] row3
  have "unlinks (dest_path ?f l3) (io_Copy ino content' stop' l3) l4" by (auto simp: l4 it)
  then have "find_row ?f l4 = find_row ?f l3" "dest_path ?f l4 = dest_path ?f l3"
    by (auto simp: unlinks_def same_files_def find_row_def dest_path_def)
  moreover have "li_disk l4 (dest_path ?f l3) = None"
    unfolding l4 by (rule perform_finish_taken[OF row3 assms(5)])
  ultimately show ?thesis using row3 by (simp add: file_at_def)
qed

section \<open>Downloads end\<close>

lemma upd_dl_entry: "(i, q) \<in> set (li_Downloads (upd_dl i g l)) \<Longrightarrow> \<exists>q0. q = g q0"
  by (auto simp: upd_dl_def split: if_split_asm)

lemma dl_fail_status: "(i, q) \<in> set (li_Downloads (dl_fail i p msg l)) \<Longrightarrow> dl_Status q = ''error''"
  by (auto simp: dl_fail_def split: prod.split_asm dest: upd_dl_entry)

lemma perform_begin_fails:
  assumes "perform_begin d get l = (None, l')"
  shows "\<exists>p msg k. l' = dl_fail (dl_ID d) p msg k"
  using assms unfolding perform_begin_def Let_def
  by (auto split: http_get.split_asm if_split_asm option.split_asm prod.split_asm open_result.split_asm)


section \<open>Examples\<close>

definition sample_library :: Library where
  "sample_library = \<lparr>li_Settings = (ac_Settings sample_config)\<lparr>st_ISODir := ''data'', st_ISOMaxSizeGB := 50\<rparr>, li_db = Some [],
     li_nextid = 1, li_dbops = 0, li_dbfail = (\<lambda>_. False), li_disk = Map.empty, li_inodes = (\<lambda>_. []), li_nextino = 0,
     li_ioops = 0, li_iofail = (\<lambda>_. False), li_Downloads = [], li_audit = Some []\<rparr>"

abbreviation sample_form :: upload_form where
  "sample_form \<equiv> FormFile ''a.iso'' 3 [1, 2, 3]"

definition sample_row :: ISOFile where
  "sample_row = \<lparr>if_ID = 1, if_Filename = ''a.iso'', if_SizeBytes = 3, if_SHA256 = hex_encode (sha256 [1, 2, 3]), if_UploadedBy = ''a@b'',
     if_UploadedAt = 0, if_LastUsed = None\<rparr>"

definition sample_download :: ISODownload where
  "sample_download = \<lparr>dl_ID = ''u'', dl_Filename = ''a.iso'', dl_URL = ''http://x/a.iso'', dl_TotalBytes = 0, dl_Downloaded = 0,
     dl_Status = ''downloading'', dl_Error = '''', dl_StartedAt = 0\<rparr>"

lemma sample_name: "sanitizeISOFilename ''a.iso'' = None" "contains ''..'' ''../../etc/passwd''"
  by code_simp+

lemma sample_path: "dest_path ''a.iso'' sample_library = ''data/a.iso''" "path_join ''data'' ''a.iso'' = ''data/a.iso''"
  by code_simp+

lemmas sample_library_simps = sample_library_def sample_config_def db_op_def io_op_def GetISO_def db_ListISOs_def InsertISO_def
  find_row_def rows_def os_Create_def total_size_def max_bytes_def i64_def Let_def lib_audit_def io_Copy_def copied_def

lemma sample_begin:
  "upload_begin sample_form sample_library =
     (Inr \<lparr>up_filename = ''a.iso'', up_path = ''data/a.iso'', up_inode = 0, up_total = 0, up_max = 50 * 2 ^ 30\<rparr>,
      sample_library\<lparr>li_dbops := 2, li_ioops := 1, li_disk := [''data/a.iso'' \<mapsto> 0], li_inodes := (\<lambda>_. [])(0 := []), li_nextino := 1\<rparr>)"
  by (simp add: upload_begin_def sample_name)
     (simp add: sample_library_simps dest_path_def sample_path(2))

lemma sample_upload:
  "UploadISO 0 (sample_caller [''ops'']) sample_form None sample_library =
     (IsoRecord 201 sample_row,
      lib_audit ''iso.upload'' ''a@b'' '''' '''' ''1.2.3.4:5000''
       (sample_library\<lparr>li_dbops := 4, li_ioops := 1, li_disk := [''data/a.iso'' \<mapsto> 0], li_inodes := (\<lambda>_. [])(0 := [1, 2, 3]),
         li_nextino := 1, li_db := Some [sample_row], li_nextid := 2\<rparr>))"
  by (simp add: UploadISO_def sample_begin upload_finish_def form_content_def)
     (simp add: sample_library_simps sample_row_def sample_caller_def email_of_def)


theorem upload_download_roundtrip_witness:
  "fst (DownloadISO ''a.iso'' (snd (UploadISO 0 (sample_caller [''ops'']) sample_form None sample_library)))
     = IsoContent (Some [1, 2, 3])"
proof -
  let ?l = "snd (UploadISO 0 (sample_caller [''ops'']) sample_form None sample_library)"
  have nf: "\<not> li_dbfail ?l (li_dbops ?l)" unfolding sample_upload by (simp add: lib_audit_def sample_library_def)
  have "UploadISO 0 (sample_caller [''ops'']) sample_form None sample_library = (IsoRecord 201 sample_row, ?l)"
    by (simp add: sample_upload)
  from upload_download_roundtrip[OF this nf] show ?thesis by (simp add: sample_row_def form_content_def)
qed

theorem upload_within_limit_witness:
  "(\<Sum>r\<leftarrow>rows (snd (UploadISO 0 (sample_caller [''ops'']) sample_form None sample_library)). if_SizeBytes r) \<le> 50 * 2 ^ 30"
  using upload_within_limit[OF _ _ _ _ _ sample_upload]
  by (simp add: sample_upload form_content_def) (simp add: sample_library_simps)

text \<open>The library with the uploaded file.\<close>

definition stocked_library :: Library where
  "stocked_library = snd (UploadISO 0 (sample_caller [''ops'']) sample_form None sample_library)"

lemma stocked_row: "find_row ''a.iso'' stocked_library = Some sample_row" "li_iofail stocked_library n = False"
  by (simp_all add: stocked_library_def sample_upload) (simp_all add: sample_library_simps sample_row_def)

theorem failed_download_deletes_file_witness:
  "find_row ''a.iso'' stocked_library = Some sample_row
   \<and> find_row ''a.iso'' (performISODownload 0 ''a@b'' ''1.2.3.4'' sample_download (GetStatus 404 ''Not Found'') [] None [] stocked_library)
      = Some sample_row
   \<and> file_at (dest_path ''a.iso'' stocked_library)
       (performISODownload 0 ''a@b'' ''1.2.3.4'' sample_download (GetStatus 404 ''Not Found'') [] None [] stocked_library) = None"
  using failed_download_deletes_file[of sample_download stocked_library sample_row "GetStatus 404 ''Not Found''"]
  by (simp add: stocked_row sample_download_def)


text \<open>The download of the same name begins when the file of the upload is there and its row is not.\<close>

lemma sample_race:
  "perform_begin sample_download (GetBody 3) (snd (upload_begin sample_form sample_library)) =
     (Some (1, 0), sample_library\<lparr>li_dbops := 4, li_ioops := 4, li_disk := [''data/a.iso'' \<mapsto> 1],
        li_inodes := (\<lambda>_. [])(0 := [], 1 := []), li_nextino := 2\<rparr>)"
  by (simp add: perform_begin_def sample_begin sample_download_def)
     (simp add: sample_library_simps dest_path_def sample_path(2) os_Remove_def upd_dl_def)

lemma sample_race_upload:
  "upload_finish 0 (sample_caller [''ops'']) [1, 2, 3] None (projr (fst (upload_begin sample_form sample_library)))
     (snd (perform_begin sample_download (GetBody 3) (snd (upload_begin sample_form sample_library)))) =
   (IsoRecord 201 sample_row, lib_audit ''iso.upload'' ''a@b'' '''' '''' ''1.2.3.4:5000''
      (sample_library\<lparr>li_dbops := 6, li_ioops := 4, li_disk := [''data/a.iso'' \<mapsto> 1], li_db := Some [sample_row], li_nextid := 2,
        li_inodes := (\<lambda>_. [])(0 := [1, 2, 3], 1 := []), li_nextino := 2\<rparr>))"
  unfolding sample_race snd_conv unfolding sample_begin fst_conv sum.sel
  by (simp add: fun_upd_twist[of "Suc 0" 0] upload_finish_def sample_library_simps sample_row_def sample_caller_def email_of_def)

theorem upload_lost_to_download_witness:
  "\<exists>l4. find_row ''a.iso'' l4 = Some sample_row \<and> file_at (dest_path ''a.iso'' l4) l4 = None"
proof -
  let ?b = "upload_begin sample_form sample_library"
  let ?p = "perform_begin sample_download (GetBody 3) (snd ?b)"
  have h: "?b = (Inr (projr (fst ?b)), snd ?b)" "dl_Filename sample_download = up_filename (projr (fst ?b))"
    "?p = (Some (1, 0), snd ?p)" "dl_Filename sample_download = ''a.iso''"
    by (simp_all only: sample_race) (simp_all add: sample_begin sample_download_def)
  note lost = upload_lost_to_download[OF h(1-3) sample_race_upload _ refl, unfolded h(4)]
  show ?thesis by (rule exI, rule lost[of 0 "''a@b''" "''1.2.3.4''" "[1, 2, 3]" None "[3]"]) (simp add: lib_audit_def sample_library_def)
qed

theorem library_consistent_witness:
  "file_at (dest_path ''a.iso'' stocked_library) stocked_library = Some [1, 2, 3]
   \<and> (\<exists>c. file_at (dest_path ''a.iso'' stocked_library) stocked_library = Some c \<and> 3 = int (length c))"
proof -
  have "library_state sample_library" by (rule library_state.new) (simp_all add: sample_library_def)
  then have "library_state stocked_library"
    unfolding stocked_library_def by (rule library_state.upload) (rule surjective_pairing)
  moreover have "rows stocked_library = [sample_row]"
    by (simp add: stocked_library_def sample_upload) (simp add: rows_def lib_audit_def)
  moreover have "file_at (dest_path ''a.iso'' stocked_library) stocked_library = Some [1, 2, 3]"
    by (simp add: stocked_library_def sample_upload file_at_def dest_path_def lib_audit_def)
       (simp add: sample_library_def sample_path(2))
  ultimately show ?thesis using library_consistent[of stocked_library] by (simp add: sample_row_def)
qed

theorem iso_names_confined_witness:
  "path_join ''data'' ''a.iso'' = iso_prefix ''data'' @ ''a.iso''
   \<and> (\<exists>e. DeleteISO (sample_caller []) ''../../etc/passwd'' sample_library = (IsoError 400 e, sample_library))"
proof -
  obtain e where e: "sanitizeISOFilename ''../../etc/passwd'' = Some e" by (simp add: sanitizeISOFilename_def sample_name(2))
  have "li_db sample_library \<noteq> None" by (simp add: sample_library_def)
  note del = iso_names_confined[THEN conjunct2, rule_format, OF e this, THEN conjunct2, THEN conjunct1, of "sample_caller []"]
  show ?thesis
    by (intro conjI exI[of _ e] del iso_names_confined[THEN conjunct1, rule_format, OF sample_name(1), THEN conjunct1])
qed

end
