(* ===== verification/Media.thy ===== *)
theory Media
  imports Webproxy Isolib
begin

text \<open>
  Virtual media: the drivers of MegaRAC and iDRAC9 (\<open>src/internal/boards/megarac.go\<close>, \<open>idrac9.go\<close>), the handlers that
  mount, eject and query an image (\<open>src/internal/api/handlers.go\<close>), the one that mounts an ISO of the library
  (\<open>iso_handlers.go\<close>), and the file server that a BMC fetches it from (\<open>src/internal/iso/fileserver.go\<close>).

  A BMC is what it answers to the last of the requests that were sent to it: nothing, when the request fails, or a status
  and a body, which may break off. The parser of URLs is a parameter: the scheme, the host and the path.
\<close>

section \<open>Requests to a BMC\<close>

datatype web_auth = BasicAuth string string | SessionAuth string string

record web_call =
  wc_Method :: string
  wc_URL :: string
  wc_Body :: string
  wc_Auth :: web_auth

type_synonym bmc_script = "web_call list \<Rightarrow> (nat \<times> string option) option"

record media_env =
  me_url_Parse :: "string \<Rightarrow> (string \<times> string \<times> string) option"
  me_bmc :: bmc_script
  me_getenv :: "string \<Rightarrow> string"
  me_MediaJSON :: "string \<Rightarrow> (bool \<times> string \<times> string list \<times> bool) option"
  me_cwd :: "string option"

record VirtualMediaStatus =
  vm_Inserted :: bool
  vm_Image :: string
  vm_MediaType :: string
  vm_WriteProtected :: bool

text \<open>\<open>url.QueryEscape\<close>\<close>

definition upper_hex :: "nat \<Rightarrow> char" where
  "upper_hex d = (''0123456789ABCDEF'' ! (d mod 16))"

definition query_char :: "char \<Rightarrow> string" where
  "query_char c =
     (let n = of_char c :: nat in
      if (48 \<le> n \<and> n \<le> 57) \<or> (65 \<le> n \<and> n \<le> 90) \<or> (97 \<le> n \<and> n \<le> 122) \<or> n \<in> {45, 95, 46, 126} then [c]
      else if n = 32 then ''+''
      else [CHR ''%'', upper_hex (n div 16), upper_hex n])"

definition QueryEscape :: "string \<Rightarrow> string" where
  "QueryEscape s = concat (map query_char s)"

section \<open>MegaRAC\<close>

text \<open>\<open>path.Split\<close>\<close>

definition path_Split :: "string \<Rightarrow> string \<times> string" where
  "path_Split p = (let file = rev (takeWhile (\<lambda>c. c \<noteq> CHR ''/'') (rev p)) in (take (length p - length file) p, file))"

text \<open>The address, the directory, the file name and the type of the share.\<close>

definition parseMegaRACMediaURL :: "media_env \<Rightarrow> string \<Rightarrow> string + (string \<times> string \<times> string \<times> int)" where
  "parseMegaRACMediaURL env imageURL =
     (case me_url_Parse env imageURL of
        None \<Rightarrow> Inl ''invalid URL''
      | Some (scheme, host, path) \<Rightarrow>
          (case path_Split path of
             (dir, file) \<Rightarrow>
               if scheme = ''nfs'' then
                 (if file = '''' then Inl ''NFS URL must include a filename (e.g., nfs://server/path/image.iso)'' else Inr (host, dir, file, 0))
               else if scheme = ''cifs'' \<or> scheme = ''smb'' then
                 (if file = '''' then Inl ''CIFS URL must include a filename (e.g., cifs://server/share/image.iso)'' else Inr (host, dir, file, 1))
               else Inl ''MegaRAC requires NFS or CIFS URL (e.g., nfs://server/path/image.iso)''))"

definition send_call :: "media_env \<Rightarrow> web_call \<Rightarrow> web_call list \<Rightarrow> (nat \<times> string option) option \<times> web_call list" where
  "send_call env c calls = (me_bmc env (calls @ [c]), calls @ [c])"

definition megaracDoRequest :: "media_env \<Rightarrow> string \<Rightarrow> string \<Rightarrow> string \<Rightarrow> BMCCredentials \<Rightarrow> web_call list \<Rightarrow> (string + string) \<times> web_call list" where
  "megaracDoRequest env method url body creds calls =
     (case send_call env \<lparr>wc_Method = method, wc_URL = url, wc_Body = body, wc_Auth = SessionAuth (bc_SessionCookie creds) (bc_CSRFToken creds)\<rparr> calls of
        (None, calls) \<Rightarrow> (Inl ''request failed'', calls)
      | (Some (_, None), calls) \<Rightarrow> (Inl ''failed to read response'', calls)
      | (Some (code, Some b), calls) \<Rightarrow>
          (if code \<ge> 400 then Inl (''HTTP '' @ show_int (int code) @ '': '' @ b) else Inr b, calls))"

definition re_hapi :: regex where
  "re_hapi = re_all [re_lit ''HAPI_STATUS'', re_space, re_lit '':'', re_space, re_digits]"

text \<open>The error, if there is one.\<close>

definition megaracCheckHAPIStatus :: "string \<Rightarrow> string option" where
  "megaracCheckHAPIStatus body =
     (case re_group re_hapi body of
        None \<Rightarrow> Some ''could not parse HAPI_STATUS from response''
      | Some g \<Rightarrow> if g = ''0'' then None else Some (''MegaRAC returned error status '' @ g))"

text \<open>A request and the check of its answer.\<close>

definition hapi_call :: "media_env \<Rightarrow> string \<Rightarrow> string \<Rightarrow> string \<Rightarrow> string \<Rightarrow> BMCCredentials \<Rightarrow> web_call list \<Rightarrow> string option \<times> web_call list" where
  "hapi_call env url body failed bad creds calls =
     (case megaracDoRequest env ''POST'' url body creds calls of
        (Inl e, calls) \<Rightarrow> (Some (failed @ e), calls)
      | (Inr b, calls) \<Rightarrow> (map_option (\<lambda>e. bad @ e) (megaracCheckHAPIStatus b), calls))"

definition media_base :: "string \<Rightarrow> ServerConfig \<Rightarrow> string" where
  "media_base board cfg = BMCBaseURL board (sc_BMCIP cfg) (sc_BMCPort cfg)"

definition mount_params :: "string \<Rightarrow> string \<Rightarrow> string \<Rightarrow> int \<Rightarrow> string" where
  "mount_params imgName ipAddr srcPath shrType =
     ''MEDIA_TYPE=1&IMAGE_OPER=0&IMAGE_TYPE=CD/DVD&IMAGE_NAME='' @ QueryEscape imgName @ ''&IP_ADDR='' @ QueryEscape ipAddr
     @ ''&SRC_PATH='' @ QueryEscape srcPath @ ''&SHR_TYPE='' @ show_int shrType"

definition redirection :: "string \<Rightarrow> string" where
  "redirection flag = ''MEDIA_TYPE=1&IMAGE_TYPE=CD/DVD&START_BIT='' @ flag"

definition megarac_MountMedia :: "media_env \<Rightarrow> ServerConfig \<Rightarrow> BMCCredentials \<Rightarrow> string \<Rightarrow> web_call list \<Rightarrow> string option \<times> web_call list" where
  "megarac_MountMedia env cfg creds imageURL calls =
     (case parseMegaRACMediaURL env imageURL of
        Inl e \<Rightarrow> (Some e, calls)
      | Inr (ip, dir, file, share) \<Rightarrow>
          (case hapi_call env (media_base ''ami_megarac'' cfg @ ''/rpc/setmediaimage.asp'') (mount_params file ip dir share)
                  ''failed to set media image: '' ''set media image failed: '' creds calls of
             (Some e, calls) \<Rightarrow> (Some e, calls)
           | (None, calls) \<Rightarrow>
               hapi_call env (media_base ''ami_megarac'' cfg @ ''/rpc/startredirection.asp'') (redirection ''1'')
                 ''failed to start redirection: '' ''start redirection failed: '' creds calls))"

definition megarac_EjectMedia :: "media_env \<Rightarrow> ServerConfig \<Rightarrow> BMCCredentials \<Rightarrow> web_call list \<Rightarrow> string option \<times> web_call list" where
  "megarac_EjectMedia env cfg creds calls =
     hapi_call env (media_base ''ami_megarac'' cfg @ ''/rpc/startredirection.asp'') (redirection ''0'')
       ''failed to stop redirection: '' ''stop redirection failed: '' creds calls"

definition re_cd_block :: regex where
  "re_cd_block = re_all [re_lit (q1 @ ''IMG_TYPE'' @ q1), re_space, re_lit '':'', re_space, re_lit (q1 @ ''CD/DVD'' @ q1), RStar True (re_not CHR ''}'')]"

definition re_field :: "string \<Rightarrow> regex \<Rightarrow> regex" where
  "re_field key value = re_all [re_lit (q1 @ key @ q1), re_space, re_lit '':'', re_space, value]"

definition re_quoted :: regex where
  "re_quoted = re_all [re_lit q1, RGroup (RStar True (re_not CHR 0x27)), re_lit q1]"

definition field_text :: "string \<Rightarrow> string \<Rightarrow> string" where
  "field_text key block = (case re_group (re_field key re_quoted) block of None \<Rightarrow> '''' | Some g \<Rightarrow> g)"

definition megarac_GetMediaStatus :: "media_env \<Rightarrow> ServerConfig \<Rightarrow> BMCCredentials \<Rightarrow> web_call list \<Rightarrow> (string + VirtualMediaStatus) \<times> web_call list" where
  "megarac_GetMediaStatus env cfg creds calls =
     (case megaracDoRequest env ''GET'' (media_base ''ami_megarac'' cfg @ ''/rpc/getrmediacfg.asp'') '''' creds calls of
        (Inl e, calls) \<Rightarrow> (Inl (''failed to get remote media config: '' @ e), calls)
      | (Inr body, calls) \<Rightarrow>
          (let st = \<lparr>vm_Inserted = False, vm_Image = '''', vm_MediaType = ''CD/DVD'', vm_WriteProtected = False\<rparr>
           in (Inr (case re_find re_cd_block body of
                  None \<Rightarrow> st
                | Some m \<Rightarrow>
                    (let block = m ! 0; img = field_text ''IMG_NAME'' block; ip = field_text ''IP_ADDR'' block; src = field_text ''SRC_PATH'' block
                     in st\<lparr>vm_Inserted := (case re_group (re_field ''START_FLAG'' re_digits) block of None \<Rightarrow> False | Some g \<Rightarrow> g \<noteq> ''0''),
                           vm_Image := (if img \<noteq> '''' \<and> ip \<noteq> '''' then ip @ src @ img else img)\<rparr>)), calls)))"

section \<open>iDRAC9\<close>

definition redfishPassword :: "media_env \<Rightarrow> ServerConfig \<Rightarrow> string" where
  "redfishPassword env cfg = (if sc_CredentialEnv cfg \<noteq> '''' then me_getenv env (sc_CredentialEnv cfg) else '''')"

definition redfish_call :: "media_env \<Rightarrow> ServerConfig \<Rightarrow> string \<Rightarrow> string \<Rightarrow> string \<Rightarrow> string \<times> string \<Rightarrow> web_call list \<Rightarrow> (string + string option) \<times> web_call list" where
  "redfish_call env cfg method action body msgs calls =
     (case send_call env \<lparr>wc_Method = method,
               wc_URL = media_base ''dell_idrac9'' cfg @ ''/redfish/v1/Managers/iDRAC.Embedded.1/VirtualMedia/CD'' @ action, wc_Body = body,
               wc_Auth = BasicAuth (sc_Username cfg) (redfishPassword env cfg)\<rparr> calls of
        (None, calls) \<Rightarrow> (Inl (fst msgs), calls)
      | (Some (code, b), calls) \<Rightarrow>
          (if code \<ge> 400 then Inl (snd msgs @ '' (HTTP '' @ show_int (int code) @ ''): '' @ (case b of None \<Rightarrow> '''' | Some b \<Rightarrow> b))
           else Inr b, calls))"

definition failure :: "(string + 'a) \<times> 'c \<Rightarrow> string option \<times> 'c" where
  "failure r = (case fst r of Inl e \<Rightarrow> Some e | Inr _ \<Rightarrow> None, snd r)"

definition idrac9_MountMedia :: "media_env \<Rightarrow> ServerConfig \<Rightarrow> string \<Rightarrow> web_call list \<Rightarrow> string option \<times> web_call list" where
  "idrac9_MountMedia env cfg imageURL calls =
     failure (redfish_call env cfg ''POST'' ''/Actions/VirtualMedia.InsertMedia'' (''{'' @ quoted ''Image'' @ '':'' @ quoted imageURL @ ''}'')
       (''mount request failed'', ''mount failed'') calls)"

definition idrac9_EjectMedia :: "media_env \<Rightarrow> ServerConfig \<Rightarrow> web_call list \<Rightarrow> string option \<times> web_call list" where
  "idrac9_EjectMedia env cfg calls =
     failure (redfish_call env cfg ''POST'' ''/Actions/VirtualMedia.EjectMedia'' ''{}'' (''eject request failed'', ''eject failed'') calls)"

definition idrac9_GetMediaStatus :: "media_env \<Rightarrow> ServerConfig \<Rightarrow> web_call list \<Rightarrow> (string + VirtualMediaStatus) \<times> web_call list" where
  "idrac9_GetMediaStatus env cfg calls =
     (case redfish_call env cfg ''GET'' '''' '''' (''status request failed'', ''status query failed'') calls of
        (Inl e, calls) \<Rightarrow> (Inl e, calls)
      | (Inr b, calls) \<Rightarrow>
          (case Option.bind b (me_MediaJSON env) of
             None \<Rightarrow> (Inl ''failed to parse virtual media response'', calls)
           | Some (inserted, img, types, wp) \<Rightarrow>
               (Inr \<lparr>vm_Inserted = inserted, vm_Image = img, vm_MediaType = (case types of [] \<Rightarrow> '''' | t # _ \<Rightarrow> t), vm_WriteProtected = wp\<rparr>, calls)))"

section \<open>The optional interface\<close>

text \<open>\<open>VirtualMediaHandler\<close>: the boards that have it.\<close>

datatype vm_handler = VMegaRAC | VIDRAC9

fun virtual_media :: "board \<Rightarrow> vm_handler option" where
  "virtual_media MegaRACBoard = Some VMegaRAC"
| "virtual_media IDRAC9Board = Some VIDRAC9"
| "virtual_media _ = None"

fun MountMedia :: "media_env \<Rightarrow> vm_handler \<Rightarrow> ServerConfig \<Rightarrow> BMCCredentials \<Rightarrow> string \<Rightarrow> web_call list \<Rightarrow> string option \<times> web_call list" where
  "MountMedia env VMegaRAC cfg creds url calls = megarac_MountMedia env cfg creds url calls"
| "MountMedia env VIDRAC9 cfg creds url calls = idrac9_MountMedia env cfg url calls"

fun EjectMedia :: "media_env \<Rightarrow> vm_handler \<Rightarrow> ServerConfig \<Rightarrow> BMCCredentials \<Rightarrow> web_call list \<Rightarrow> string option \<times> web_call list" where
  "EjectMedia env VMegaRAC cfg creds calls = megarac_EjectMedia env cfg creds calls"
| "EjectMedia env VIDRAC9 cfg creds calls = idrac9_EjectMedia env cfg calls"

fun GetMediaStatus :: "media_env \<Rightarrow> vm_handler \<Rightarrow> ServerConfig \<Rightarrow> BMCCredentials \<Rightarrow> web_call list \<Rightarrow> (string + VirtualMediaStatus) \<times> web_call list" where
  "GetMediaStatus env VMegaRAC cfg creds calls = megarac_GetMediaStatus env cfg creds calls"
| "GetMediaStatus env VIDRAC9 cfg creds calls = idrac9_GetMediaStatus env cfg calls"

section \<open>Handlers\<close>

datatype media_response = MediaError nat string | MediaOk | MediaStatus VirtualMediaStatus | MediaMounted string

definition resolveVirtualMedia :: "string \<Rightarrow> Server \<Rightarrow> media_response + (ServerConfig \<times> BMCCredentials \<times> vm_handler)" where
  "resolveVirtualMedia i s =
     (case store_Get (sv_Sessions s) i of
        None \<Rightarrow> Inl (MediaError 404 ''session not found'')
      | Some r \<Rightarrow>
          (case find_server (sv_Config s) (ks_ServerName (sv_heap s r)) of
             None \<Rightarrow> Inl (MediaError 404 ''server config not found'')
           | Some cfg \<Rightarrow>
               (let creds = (case sv_BMCCreds s i of
                      Some ce \<Rightarrow> Some (ce_Creds ce)
                    | None \<Rightarrow> Option.bind (sv_proxies s (ks_ServerName (sv_heap s r))) pe_bmcCreds)
                in case creds of
                     None \<Rightarrow> Inl (MediaError 502 (''no BMC credentials available '' @ [CHR 0xE2, CHR 0x80, CHR 0x94] @ '' create a session first''))
                   | Some c \<Rightarrow>
                       (case boards_Get (sc_BoardType cfg) of
                          None \<Rightarrow> Inl (MediaError 404 ''unsupported board type'')
                        | Some b \<Rightarrow>
                            (case virtual_media b of
                               None \<Rightarrow> Inl (MediaError 501 ''virtual media not supported for this board type'')
                             | Some vm \<Rightarrow> Inr (cfg, c, vm))))))"

definition session_server :: "string \<Rightarrow> Server \<Rightarrow> string" where
  "session_server i s = (case store_Get (sv_Sessions s) i of None \<Rightarrow> '''' | Some r \<Rightarrow> ks_ServerName (sv_heap s r))"

text \<open>\<open>body\<close> is the image URL of the decoded request.\<close>

definition VirtualMediaMount :: "media_env \<Rightarrow> caller \<Rightarrow> string \<Rightarrow> string option \<Rightarrow> Server \<times> web_call list \<Rightarrow> media_response \<times> Server \<times> web_call list" where
  "VirtualMediaMount env cl i body st =
     (case st of (s, calls) \<Rightarrow>
        (case resolveVirtualMedia i s of
           Inl e \<Rightarrow> (e, s, calls)
         | Inr (cfg, creds, vm) \<Rightarrow>
             (case body of
                None \<Rightarrow> (MediaError 400 ''invalid request body'', s, calls)
              | Some url \<Rightarrow>
                  if url = '''' then (MediaError 400 ''image_url is required'', s, calls)
                  else case me_url_Parse env url of
                    None \<Rightarrow> (MediaError 400 ''invalid image URL'', s, calls)
                  | Some (scheme, _, _) \<Rightarrow>
                      if to_lower scheme \<notin> {''http'', ''https'', ''nfs'', ''cifs''}
                      then (MediaError 400 ''image_url must use http, https, nfs, or cifs scheme'', s, calls)
                      else (case MountMedia env vm cfg creds url calls of
                          (Some e, calls) \<Rightarrow> (MediaError 500 (''mount failed: '' @ e), s, calls)
                        | (None, calls) \<Rightarrow>
                            (MediaOk, logAudit ''virtual_media_mount'' (email_of cl) (session_server i s) i (cl_ip cl) s, calls)))))"

definition VirtualMediaEject :: "media_env \<Rightarrow> caller \<Rightarrow> string \<Rightarrow> Server \<times> web_call list \<Rightarrow> media_response \<times> Server \<times> web_call list" where
  "VirtualMediaEject env cl i st =
     (case st of (s, calls) \<Rightarrow>
        (case resolveVirtualMedia i s of
           Inl e \<Rightarrow> (e, s, calls)
         | Inr (cfg, creds, vm) \<Rightarrow>
             (case EjectMedia env vm cfg creds calls of
                (Some e, calls) \<Rightarrow> (MediaError 500 (''eject failed: '' @ e), s, calls)
              | (None, calls) \<Rightarrow> (MediaOk, logAudit ''virtual_media_eject'' (email_of cl) (session_server i s) i (cl_ip cl) s, calls))))"

definition handle_VirtualMediaStatus :: "media_env \<Rightarrow> string \<Rightarrow> Server \<times> web_call list \<Rightarrow> media_response \<times> Server \<times> web_call list" where
  "handle_VirtualMediaStatus env i st =
     (case st of (s, calls) \<Rightarrow>
        (case resolveVirtualMedia i s of
           Inl e \<Rightarrow> (e, s, calls)
         | Inr (cfg, creds, vm) \<Rightarrow>
             (case GetMediaStatus env vm cfg creds calls of
                (Inl e, calls) \<Rightarrow> (MediaError 500 (''status query failed: '' @ e), s, calls)
              | (Inr v, calls) \<Rightarrow> (MediaStatus v, s, calls))))"

section \<open>Mounting an ISO of the library\<close>

text \<open>\<open>filepath.Abs\<close>\<close>

definition absolute_path :: "media_env \<Rightarrow> string \<Rightarrow> string option" where
  "absolute_path env p = (if is_rooted p then Some (path_clean p) else map_option (\<lambda>d. path_join d p) (me_cwd env))"

text \<open>What follows the first colon of the listen address, or the default.\<close>

definition listen_port :: "string \<Rightarrow> string" where
  "listen_port addr = (let port = drop 1 (dropWhile (\<lambda>c. c \<noteq> CHR '':'') addr) in if port = '''' then ''8080'' else port)"

definition media_url :: "media_env \<Rightarrow> Settings \<Rightarrow> string \<Rightarrow> string \<Rightarrow> media_response + string" where
  "media_url env st boardType filename =
     (if boardType = ''ami_megarac'' then
        (case absolute_path env (st_ISODir st) of
           None \<Rightarrow> Inl (MediaError 500 ''failed to resolve ISO directory'')
         | Some dir \<Rightarrow>
             Inr (''nfs://'' @ st_ISOServeAddress st @ (if has_suffix ''/'' dir then dir else dir @ ''/'') @ filename))
      else Inr (''http://'' @ st_ISOServeAddress st @ '':'' @ listen_port (st_ListenAddress st) @ ''/iso/'' @ filename))"

text \<open>The library and the server share their settings; the audit entry is written to the log of the library.\<close>

definition MountLocalISO :: "media_env \<Rightarrow> caller \<Rightarrow> int \<Rightarrow> string \<Rightarrow> string option \<Rightarrow> Library \<times> Server \<times> web_call list
    \<Rightarrow> media_response \<times> Library \<times> Server \<times> web_call list" where
  "MountLocalISO env cl now i body st =
     (case st of (l, s, calls) \<Rightarrow>
        if li_db l = None then (MediaError 500 ''database not available'', l, s, calls)
        else case body of
          None \<Rightarrow> (MediaError 400 ''invalid request body'', l, s, calls)
        | Some f \<Rightarrow>
            (case sanitizeISOFilename f of
               Some e \<Rightarrow> (MediaError 400 e, l, s, calls)
             | None \<Rightarrow>
                 (case GetISO f l of
                    (None, l) \<Rightarrow> (MediaError 500 ''database error'', l, s, calls)
                  | (Some None, l) \<Rightarrow> (MediaError 404 (''ISO '' @ quoted f @ '' not found in library''), l, s, calls)
                  | (Some (Some _), l) \<Rightarrow>
                      (case resolveVirtualMedia i s of
                         Inl e \<Rightarrow> (e, l, s, calls)
                       | Inr (cfg, creds, vm) \<Rightarrow>
                           if st_ISOServeAddress (li_Settings l) = ''''
                           then (MediaError 500 ''iso_serve_address is not configured'', l, s, calls)
                           else case media_url env (li_Settings l) (sc_BoardType cfg) f of
                             Inl e \<Rightarrow> (e, l, s, calls)
                           | Inr url \<Rightarrow>
                               (case MountMedia env vm cfg creds url calls of
                                  (Some e, calls) \<Rightarrow> (MediaError 500 (''mount failed: '' @ e), l, s, calls)
                                | (None, calls) \<Rightarrow>
                                    (MediaMounted url,
                                     lib_audit ''iso.mount'' (email_of cl) (session_server i s) i (cl_addr cl) (snd (TouchISOLastUsed now f l)),
                                     s, calls))))))"

section \<open>The file server\<close>

definition isAllowedClient :: "string set \<Rightarrow> string \<Rightarrow> bool \<Rightarrow> bool" where
  "isAllowedClient bmcIPs clientIP has_cookie = (if clientIP \<in> bmcIPs then True else if has_cookie then True else True)"

definition FileServer :: "string set \<Rightarrow> string \<Rightarrow> bool \<Rightarrow> string \<Rightarrow> Library \<Rightarrow> iso_response \<times> Library" where
  "FileServer bmcIPs clientIP has_cookie path l =
     (let filename = trim_prefix ''/iso/'' path in
      if filename = '''' \<or> contains ''/'' filename \<or> contains ''..'' filename then (IsoError 404 ''404 page not found'', l)
      else case GetISO filename l of
        (None, l) \<Rightarrow> (IsoError 500 ''internal server error'', l)
      | (Some None, l) \<Rightarrow> (IsoError 404 ''404 page not found'', l)
      | (Some (Some _), l) \<Rightarrow>
          if \<not> isAllowedClient bmcIPs clientIP has_cookie then (IsoError 403 ''forbidden'', l)
          else (IsoContent (file_at (dest_path filename l) l), l))"

section \<open>Mounting on a MegaRAC\<close>

definition megarac_accepts :: "media_env \<Rightarrow> web_call list \<Rightarrow> bool" where
  "megarac_accepts env calls \<longleftrightarrow> (\<exists>code b. me_bmc env calls = Some (code, Some b) \<and> code < 400 \<and> re_group re_hapi b = Some ''0'')"

definition megarac_call :: "ServerConfig \<Rightarrow> BMCCredentials \<Rightarrow> string \<Rightarrow> string \<Rightarrow> web_call" where
  "megarac_call cfg creds page body = \<lparr>wc_Method = ''POST'', wc_URL = media_base ''ami_megarac'' cfg @ page, wc_Body = body,
     wc_Auth = SessionAuth (bc_SessionCookie creds) (bc_CSRFToken creds)\<rparr>"

lemma hapi_call_iff:
  assumes "hapi_call env (media_base ''ami_megarac'' cfg @ page) body a b creds calls = (e, calls')"
  shows "calls' = calls @ [megarac_call cfg creds page body]" "e = None \<longleftrightarrow> megarac_accepts env calls'"
  using assms
  by (auto simp: hapi_call_def megaracDoRequest_def send_call_def megarac_call_def megarac_accepts_def megaracCheckHAPIStatus_def
      split: option.split_asm prod.split_asm if_split_asm)

text \<open>Mounting an image on a MegaRAC is two requests, the second only after the first was accepted: the mount succeeds exactly
  when the URL names a file on an NFS or CIFS share and the BMC accepts both with a status 0; otherwise the redirection is
  not started, or its refusal is reported.\<close>

theorem megarac_mount_spec:
  assumes "megarac_MountMedia env cfg creds url calls = (e, calls')"
  shows "case parseMegaRACMediaURL env url of
      Inl err \<Rightarrow> e = Some err \<and> calls' = calls
    | Inr (ip, dir, f, share) \<Rightarrow>
        (let c1 = calls @ [megarac_call cfg creds ''/rpc/setmediaimage.asp'' (mount_params f ip dir share)];
             c2 = c1 @ [megarac_call cfg creds ''/rpc/startredirection.asp'' (redirection ''1'')]
         in if megarac_accepts env c1 then calls' = c2 \<and> (e = None \<longleftrightarrow> megarac_accepts env c2) else calls' = c1 \<and> e \<noteq> None)"
proof (cases "parseMegaRACMediaURL env url")
  case (Inl err)
  then show ?thesis using assms by (simp add: megarac_MountMedia_def)
next
  case (Inr r)
  obtain ip dir f share where r: "r = (ip, dir, f, share)" by (cases r)
  obtain e1 k1 where h1: "hapi_call env (media_base ''ami_megarac'' cfg @ ''/rpc/setmediaimage.asp'') (mount_params f ip dir share)
      ''failed to set media image: '' ''set media image failed: '' creds calls = (e1, k1)" by force
  obtain e2 k2 where h2: "hapi_call env (media_base ''ami_megarac'' cfg @ ''/rpc/startredirection.asp'') (redirection ''1'')
      ''failed to start redirection: '' ''start redirection failed: '' creds k1 = (e2, k2)" by force
  have "(e, calls') = (if e1 = None then (e2, k2) else (e1, k1))"
    using assms Inr r h1 h2 by (auto simp: megarac_MountMedia_def split: option.split_asm)
  then show ?thesis
    using hapi_call_iff[OF h1] hapi_call_iff[OF h2] by (auto simp: Inr r Let_def split: if_split_asm)
qed

section \<open>Mounting an ISO of the library\<close>

lemma path_Split_file: "CHR ''/'' \<notin> set f \<Longrightarrow> path_Split (d @ ''/'' @ f) = (d @ ''/'', f)"
  by (simp add: path_Split_def takeWhile_append)


text \<open>The port of the URL under which an iDRAC fetches an ISO is what follows the first colon of the listen address: that is the
  port for a host without a colon, but for an IPv6 address in brackets it still contains a colon, so the URL has no valid port.\<close>

theorem iso_url_port:
  assumes "boardType \<noteq> ''ami_megarac''"
  shows "(CHR '':'' \<notin> set host \<longrightarrow> port \<noteq> '''' \<longrightarrow>
            media_url env (st\<lparr>st_ListenAddress := host @ '':'' @ port\<rparr>) boardType f
              = Inr (''http://'' @ st_ISOServeAddress st @ '':'' @ port @ ''/iso/'' @ f))
     \<and> (CHR '':'' \<in> set host \<longrightarrow>
            (\<exists>p. CHR '':'' \<in> set p \<and> media_url env (st\<lparr>st_ListenAddress := ''['' @ host @ '']:'' @ port\<rparr>) boardType f
              = Inr (''http://'' @ st_ISOServeAddress st @ '':'' @ p @ ''/iso/'' @ f)))"
proof (intro conjI impI)
  assume "CHR '':'' \<notin> set host" "port \<noteq> ''''"
  then have "listen_port (host @ '':'' @ port) = port" by (simp add: listen_port_def dropWhile_append)
  then show "media_url env (st\<lparr>st_ListenAddress := host @ '':'' @ port\<rparr>) boardType f
      = Inr (''http://'' @ st_ISOServeAddress st @ '':'' @ port @ ''/iso/'' @ f)"
    using assms by (simp add: media_url_def)
next
  assume "CHR '':'' \<in> set host"
  then obtain a b where h: "host = a @ '':'' @ b" "CHR '':'' \<notin> set a" using split_list_first[of "CHR '':''" host] by auto
  have d: "dropWhile (\<lambda>c. c \<noteq> CHR '':'') (a @ '':'' @ x) = '':'' @ x" for x using h(2) by (simp add: dropWhile_append)
  have "listen_port (''['' @ host @ '']:'' @ port) = b @ '']:'' @ port" using d[of "b @ '']:'' @ port"] by (simp add: listen_port_def h(1))
  then show "\<exists>p. CHR '':'' \<in> set p \<and> media_url env (st\<lparr>st_ListenAddress := ''['' @ host @ '']:'' @ port\<rparr>) boardType f
      = Inr (''http://'' @ st_ISOServeAddress st @ '':'' @ p @ ''/iso/'' @ f)"
    using assms by (intro exI[of _ "b @ '']:'' @ port"]) (simp add: media_url_def)
qed

section \<open>The file server\<close>

text \<open>The ISO file server gives every registered file to everybody: its answer does not depend on the address of the client
  or on a cookie and is never a refusal, it reads no file outside the library, and a name with a slash or two dots is not found.\<close>

theorem file_server_open:
  "FileServer ips ip c path l = FileServer ips' ip' c' path l
   \<and> fst (FileServer ips ip c path l) \<noteq> IsoError 403 m
   \<and> (\<forall>content. fst (FileServer ips ip c path l) = IsoContent content \<longrightarrow>
        (\<exists>f r. path = ''/iso/'' @ f \<and> find_row f l = Some r \<or> f = path \<and> find_row f l = Some r) \<and> \<not> contains ''..'' (trim_prefix ''/iso/'' path)
        \<and> \<not> contains ''/'' (trim_prefix ''/iso/'' path))"
proof -
  have row: "\<exists>x. find_row f l = Some x" if "GetISO f l = (Some (Some r), l1)" for f r l1
    using GetISO_same[OF that] by (metis option.distinct(1))
  have tp: "path = ''/iso/'' @ trim_prefix ''/iso/'' path \<or> trim_prefix ''/iso/'' path = path"
    by (cases "has_prefix ''/iso/'' path") (auto simp: trim_prefix_def has_prefix_iff)
  have ex: "\<exists>f r. path = ''/iso/'' @ f \<and> find_row f l = Some r \<or> f = path \<and> find_row f l = Some r"
    if "GetISO (trim_prefix ''/iso/'' path) l = (Some (Some r), l1)" for r l1
    using row[OF that] tp by metis
  show ?thesis
    using ex by (simp add: FileServer_def isAllowedClient_def Let_def split: option.split prod.split)
qed


section \<open>Examples\<close>

definition sample_media_parse :: "string \<Rightarrow> (string \<times> string \<times> string) option" where
  "sample_media_parse u =
     (if has_prefix ''nfs://'' u
      then let r = drop 6 u in Some (''nfs'', takeWhile (\<lambda>c. c \<noteq> CHR ''/'') r, dropWhile (\<lambda>c. c \<noteq> CHR ''/'') r)
      else None)"

definition sample_media_env :: media_env where
  "sample_media_env = \<lparr>me_url_Parse = sample_media_parse, me_bmc = (\<lambda>_. Some (200, Some ''HAPI_STATUS:0'')), me_getenv = (\<lambda>_. ''''),
     me_MediaJSON = (\<lambda>_. None), me_cwd = None\<rparr>"

definition sample_megarac :: ServerConfig where
  "sample_megarac = (hd (ac_Servers sample_config))\<lparr>sc_BoardType := ''ami_megarac''\<rparr>"

definition sample_media_server :: Server where
  "sample_media_server = (newServerCore (sample_config\<lparr>ac_Servers := [sample_megarac]\<rparr>))\<lparr>
     sv_Sessions := [''u1'' \<mapsto> 0], sv_heap := sample_heap(0 := sample_session ''u1'' ''web1'' SessionConnected),
     sv_BMCCreds := [''u1'' \<mapsto> \<lparr>ce_Creds = sample_creds, ce_CreatedAt = 0\<rparr>]\<rparr>"

definition sample_media_library :: Library where
  "sample_media_library = stocked_library\<lparr>li_Settings := (ac_Settings sample_config)\<lparr>st_ISODir := ''/isos'', st_ISOServeAddress := ''10.0.0.1''\<rparr>\<rparr>"

lemma sample_accepts: "megarac_accepts sample_media_env calls"
proof -
  have "re_group re_hapi ''HAPI_STATUS:0'' = Some ''0''" by code_simp
  then show ?thesis by (simp add: megarac_accepts_def sample_media_env_def)
qed

lemma sample_parse: "CHR ''/'' \<notin> set h \<Longrightarrow> is_rooted p \<Longrightarrow> sample_media_parse (''nfs://'' @ h @ p) = Some (''nfs'', h, p)"
  by (cases p) (auto simp: sample_media_parse_def has_prefix_iff is_rooted_def Let_def takeWhile_append dropWhile_append)

lemma sample_resolve: "resolveVirtualMedia ''u1'' sample_media_server = Inr (sample_megarac, sample_creds, VMegaRAC)"
  by (simp add: resolveVirtualMedia_def sample_media_server_def newServerCore_def sample_config_def sample_megarac_def
      store_Get_def sample_session_def find_server_def boards_Get_def)

lemma megarac_mount_sample:
  "megarac_MountMedia sample_media_env sample_megarac sample_creds ''nfs://10.0.0.1/isos/a.iso'' []
     = (None, [megarac_call sample_megarac sample_creds ''/rpc/setmediaimage.asp'' (mount_params ''a.iso'' ''10.0.0.1'' ''/isos/'' 0),
               megarac_call sample_megarac sample_creds ''/rpc/startredirection.asp'' (redirection ''1'')])"
proof -
  have "re_group re_hapi ''HAPI_STATUS:0'' = Some ''0''" by code_simp
  moreover have "parseMegaRACMediaURL sample_media_env ''nfs://10.0.0.1/isos/a.iso'' = Inr (''10.0.0.1'', ''/isos/'', ''a.iso'', 0)"
    by code_simp
  ultimately show ?thesis
    by (simp add: megarac_MountMedia_def hapi_call_def megaracDoRequest_def send_call_def megarac_call_def sample_media_env_def
        megaracCheckHAPIStatus_def)
qed

theorem megarac_mount_spec_witness:
  "megarac_MountMedia sample_media_env sample_megarac sample_creds ''nfs://10.0.0.1/isos/a.iso'' []
     = (None, [megarac_call sample_megarac sample_creds ''/rpc/setmediaimage.asp'' (mount_params ''a.iso'' ''10.0.0.1'' ''/isos/'' 0),
               megarac_call sample_megarac sample_creds ''/rpc/startredirection.asp'' (redirection ''1'')])"
proof -
  obtain e calls where m: "megarac_MountMedia sample_media_env sample_megarac sample_creds ''nfs://10.0.0.1/isos/a.iso'' [] = (e, calls)"
    by force
  have "parseMegaRACMediaURL sample_media_env ''nfs://10.0.0.1/isos/a.iso'' = Inr (''10.0.0.1'', ''/isos/'', ''a.iso'', 0)"
    by code_simp
  with megarac_mount_spec[OF m] show ?thesis by (simp add: m sample_accepts)
qed


theorem iso_url_port_witness:
  "media_url sample_media_env ((ac_Settings sample_config)\<lparr>st_ListenAddress := ''0.0.0.0:8080''\<rparr>) ''dell_idrac9'' ''a.iso''
     = Inr ''http://:8080/iso/a.iso''"
  using iso_url_port[of "''dell_idrac9''" "''0.0.0.0''" "''8080''" sample_media_env "ac_Settings sample_config" "''a.iso''"]
  by (simp add: sample_config_def)

lemma stocked_files: "li_dbfail stocked_library n = False" "st_ISODir (li_Settings stocked_library) = ''data''"
    "li_disk stocked_library ''data/a.iso'' = Some 0" "li_inodes stocked_library 0 = [1, 2, 3]"
  unfolding stocked_library_def sample_upload by (simp_all add: lib_audit_def) (simp_all add: sample_library_def sample_config_def)

lemma stocked_GetISO: "GetISO ''a.iso'' stocked_library = (Some (Some sample_row), stocked_library\<lparr>li_dbops := Suc (li_dbops stocked_library)\<rparr>)"
  using stocked_row(1) by (simp add: GetISO_def db_op_def stocked_files find_row_def rows_def)

theorem file_server_open_witness:
  "fst (FileServer {} ''192.0.2.7'' False ''/iso/a.iso'' stocked_library) = IsoContent (Some [1, 2, 3])
   \<and> (\<exists>f r. ''/iso/a.iso'' = ''/iso/'' @ f \<and> find_row f stocked_library = Some r \<or> f = ''/iso/a.iso'' \<and> find_row f stocked_library = Some r)"
proof -
  have c: "trim_prefix ''/iso/'' ''/iso/a.iso'' = ''a.iso''" "\<not> contains ''/'' ''a.iso''" "\<not> contains ''..'' ''a.iso''" by code_simp+
  have d: "file_at (dest_path ''a.iso'' (stocked_library\<lparr>li_dbops := n\<rparr>)) (stocked_library\<lparr>li_dbops := n\<rparr>) = Some [1, 2, 3]" for n
    unfolding dest_path_def file_at_def by (simp add: stocked_files sample_path)
  have f: "fst (FileServer {} ''192.0.2.7'' False ''/iso/a.iso'' stocked_library) = IsoContent (Some [1, 2, 3])"
    unfolding FileServer_def c Let_def stocked_GetISO prod.case option.case isAllowedClient_def d using c by simp
  note all = file_server_open[of "{}" "''192.0.2.7''" False "''/iso/a.iso''" stocked_library, THEN conjunct2, THEN conjunct2]
  show ?thesis by (rule conjI[OF f], rule all[rule_format, OF f, THEN conjunct1])
qed

end
