(* ===== verification/Cryptojs.thy ===== *)
theory Cryptojs
  imports Sha256 Boards
begin

text \<open>
  The encryption of a password for a NanoKVM: \<open>encryptCryptoJS\<close> and \<open>evpBytesToKey\<close> of \<open>src/internal/auth/nanokvm.go\<close>, with
  MD5 (\<open>crypto/md5\<close>), the chaining of blocks (\<open>crypto/cipher\<close>) and base64 (\<open>encoding/base64\<close>). The block cipher itself, AES, is
  a parameter \<open>E key block\<close>. The other side, \<open>cryptojs_open\<close>, is the specification: what a device does that holds the passphrase.
\<close>

unbundle bit_operations_syntax

section \<open>MD5\<close>

definition md5_k :: "u32 list" where
  "md5_k =
     [3614090360, 3905402710, 606105819, 3250441966, 4118548399, 1200080426, 2821735955, 4249261313,
      1770035416, 2336552879, 4294925233, 2304563134, 1804603682, 4254626195, 2792965006, 1236535329,
      4129170786, 3225465664, 643717713, 3921069994, 3593408605, 38016083, 3634488961, 3889429448,
      568446438, 3275163606, 4107603335, 1163531501, 2850285829, 4243563512, 1735328473, 2368359562,
      4294588738, 2272392833, 1839030562, 4259657740, 2763975236, 1272893353, 4139469664, 3200236656,
      681279174, 3936430074, 3572445317, 76029189, 3654602809, 3873151461, 530742520, 3299628645,
      4096336452, 1126891415, 2878612391, 4237533241, 1700485571, 2399980690, 4293915773, 2240044497,
      1873313359, 4264355552, 2734768916, 1309151649, 4149444226, 3174756917, 718787259, 3951481745]"

definition md5_shift :: "nat \<Rightarrow> nat" where
  "md5_shift i = [7, 12, 17, 22, 5, 9, 14, 20, 4, 11, 16, 23, 6, 10, 15, 21] ! (4 * (i div 16) + i mod 4)"

type_synonym md5_state = "u32 \<times> u32 \<times> u32 \<times> u32"

fun md5_round :: "u32 list \<Rightarrow> nat \<Rightarrow> md5_state \<Rightarrow> md5_state" where
  "md5_round block i (a, b, c, d) =
     (let (f, g) = (if i < 16 then ((b AND c) OR (NOT b AND d), i)
                    else if i < 32 then ((d AND b) OR (NOT d AND c), 5 * i + 1)
                    else if i < 48 then (b XOR c XOR d, 3 * i + 5)
                    else (c XOR (b OR NOT d), 7 * i))
      in (d, b + rotr (32 - md5_shift i) (f + a + md5_k ! i + block ! (g mod 16)), b, c))"

fun md5_add :: "md5_state \<Rightarrow> md5_state \<Rightarrow> md5_state" where
  "md5_add (a, b, c, d) (a', b', c', d') = (a + a', b + b', c + c', d + d')"

definition md5_compress :: "u32 list \<Rightarrow> md5_state \<Rightarrow> md5_state" where
  "md5_compress block st = md5_add st (fold (md5_round block) [0..<64] st)"

function md5_blocks :: "u32 list \<Rightarrow> md5_state \<Rightarrow> md5_state" where
  "md5_blocks ws st = (if length ws < 16 then st else md5_blocks (drop 16 ws) (md5_compress (take 16 ws) st))"
  by auto
termination by (relation "measure (length o fst)") auto

declare md5_blocks.simps [simp del]
declare md5_blocks.simps [code]

fun le_words :: "bytes \<Rightarrow> u32 list" where
  "le_words (a # b # c # d # xs) = get_le32 a b c d # le_words xs"
| "le_words xs = []"

definition md5_pad :: "bytes \<Rightarrow> bytes" where
  "md5_pad xs = xs @ [0x80] @ replicate ((119 - length xs mod 64) mod 64) 0 @ rev (be64 (of_nat (8 * length xs)))"

definition md5 :: "bytes \<Rightarrow> bytes" where
  "md5 xs = (case md5_blocks (le_words (md5_pad xs)) (1732584193, 4023233417, 2562383102, 271733878) of
     (a, b, c, d) \<Rightarrow> le32 a @ le32 b @ le32 c @ le32 d)"

lemma length_md5 [simp]: "length (md5 xs) = 16"
  by (simp add: md5_def le32_def split: prod.split)

section \<open>Base64\<close>

definition b64_char :: "nat \<Rightarrow> char" where
  "b64_char n = char_of (if n < 26 then n + 65 else if n < 52 then n + 71 else if n < 62 then n - 4 else if n = 62 then 43 else 47)"

definition b64_digit :: "char \<Rightarrow> nat" where
  "b64_digit c = (let n = of_char c :: nat in
     if n = 43 then 62 else if n = 47 then 63 else if n < 58 then n + 4 else if n < 91 then n - 65 else n - 71)"

fun b64 :: "bytes \<Rightarrow> string" where
  "b64 (x # y # z # xs) =
     [b64_char (unat x div 4), b64_char (16 * (unat x mod 4) + unat y div 16),
      b64_char (4 * (unat y mod 16) + unat z div 64), b64_char (unat z mod 64)] @ b64 xs"
| "b64 [x, y] = [b64_char (unat x div 4), b64_char (16 * (unat x mod 4) + unat y div 16), b64_char (4 * (unat y mod 16)), CHR ''='']"
| "b64 [x] = [b64_char (unat x div 4), b64_char (16 * (unat x mod 4)), CHR ''='', CHR ''='']"
| "b64 [] = []"

fun unb64 :: "string \<Rightarrow> bytes" where
  "unb64 (p # q # r # s # cs) =
     (let b1 = 4 * b64_digit p + b64_digit q div 16; b2 = 16 * (b64_digit q mod 16) + b64_digit r div 4;
          b3 = 64 * (b64_digit r mod 4) + b64_digit s
      in if r = CHR ''='' then [of_nat b1] else if s = CHR ''='' then [of_nat b1, of_nat b2]
         else [of_nat b1, of_nat b2, of_nat b3] @ unb64 cs)"
| "unb64 cs = []"

lemma b64_char_digit:
  assumes "n < 64"
  shows "b64_digit (b64_char n) = n" "b64_char n \<noteq> CHR ''=''"
proof -
  have "\<forall>n \<in> set [0..<64]. b64_digit (b64_char n) = n \<and> b64_char n \<noteq> CHR ''=''"
    by code_simp
  then show "b64_digit (b64_char n) = n" "b64_char n \<noteq> CHR ''=''" using assms by auto
qed

lemma byte_bound [simp]: "unat (x :: u8) < 256"
  using unsigned_less[of x] by simp

lemma b64_parts [simp]:
  "unat (x :: u8) div 4 < 64" "16 * (unat (x :: u8) mod 4) + unat (y :: u8) div 16 < 64" "4 * (unat (y :: u8) mod 16) + unat (z :: u8) div 64 < 64"
  "16 * (unat (x :: u8) mod 4) < 64" "4 * (unat (y :: u8) mod 16) < 64" "unat (z :: u8) mod 64 < 64"
  using byte_bound[of x] byte_bound[of y] byte_bound[of z] by linarith+

lemma b64_bytes [simp]:
  "word_of_nat (4 * (unat (x :: u8) div 4) + (16 * (unat x mod 4) + unat (y :: u8) div 16) div 16) = x"
  "word_of_nat (16 * ((16 * (unat (x :: u8) mod 4) + unat (y :: u8) div 16) mod 16) + (4 * (unat y mod 16) + unat (z :: u8) div 64) div 4) = y"
  "word_of_nat (64 * ((4 * (unat (y :: u8) mod 16) + unat (z :: u8) div 64) mod 4) + unat z mod 64) = z"
  "word_of_nat (4 * (unat (x :: u8) div 4) + 16 * (unat x mod 4) div 16) = x"
  "word_of_nat (16 * ((16 * (unat (x :: u8) mod 4) + unat (y :: u8) div 16) mod 16) + 4 * (unat y mod 16) div 4) = y"
proof -
  have w: "n = unat b \<Longrightarrow> word_of_nat n = b" for n and b :: u8 by simp
  have s: "unat y div 16 < 16" "unat z div 64 < 4" using byte_bound[of y] byte_bound[of z] by linarith+
  show "word_of_nat (4 * (unat x div 4) + (16 * (unat x mod 4) + unat y div 16) div 16) = x" by (rule w) (use s in simp)
  show "word_of_nat (16 * ((16 * (unat x mod 4) + unat y div 16) mod 16) + (4 * (unat y mod 16) + unat z div 64) div 4) = y"
    by (rule w) (use s in simp)
  show "word_of_nat (64 * ((4 * (unat y mod 16) + unat z div 64) mod 4) + unat z mod 64) = z" by (rule w) (use s in simp)
  show "word_of_nat (4 * (unat x div 4) + 16 * (unat x mod 4) div 16) = x" by (rule w) (use s in simp)
  show "word_of_nat (16 * ((16 * (unat x mod 4) + unat y div 16) mod 16) + 4 * (unat y mod 16) div 4) = y"
    by (rule w) (use s in simp)
qed

lemma unb64_quad:
  "p < 64 \<Longrightarrow> q < 64 \<Longrightarrow> r < 64 \<Longrightarrow> s < 64 \<Longrightarrow> unb64 (b64_char p # b64_char q # b64_char r # b64_char s # cs) =
     [word_of_nat (4 * p + q div 16), word_of_nat (16 * (q mod 16) + r div 4), word_of_nat (64 * (r mod 4) + s)] @ unb64 cs"
  "p < 64 \<Longrightarrow> q < 64 \<Longrightarrow> r < 64 \<Longrightarrow> unb64 (b64_char p # b64_char q # b64_char r # CHR ''='' # cs) =
     [word_of_nat (4 * p + q div 16), word_of_nat (16 * (q mod 16) + r div 4)]"
  "p < 64 \<Longrightarrow> q < 64 \<Longrightarrow> unb64 (b64_char p # b64_char q # CHR ''='' # s' # cs) = [word_of_nat (4 * p + q div 16)]"
  by (simp_all add: b64_char_digit Let_def)

lemma b64_roundtrip: "unb64 (b64 xs) = xs"
proof (induction xs rule: b64.induct)
  case (1 x y z xs)
  then show ?case by (simp only: b64.simps append.simps unb64_quad b64_parts b64_bytes)
next
  case (2 x y)
  then show ?case by (simp only: b64.simps unb64_quad b64_parts b64_bytes)
next
  case (3 x)
  then show ?case by (simp only: b64.simps unb64_quad b64_parts b64_bytes)
qed simp

section \<open>The encryption\<close>

text \<open>\<open>evpBytesToKey\<close>: hash after hash until there are enough bytes.\<close>

function evp_loop :: "bytes \<Rightarrow> bytes \<Rightarrow> nat \<Rightarrow> bytes \<Rightarrow> bytes \<Rightarrow> bytes" where
  "evp_loop pw salt n block derived =
     (if length derived < n then (let block = md5 (block @ pw @ salt) in evp_loop pw salt n block (derived @ block)) else derived)"
  by auto
termination by (relation "measure (\<lambda>(_, _, n, _, derived). n - length derived)") auto

declare evp_loop.simps [simp del]

definition evpBytesToKey :: "bytes \<Rightarrow> bytes \<Rightarrow> nat \<Rightarrow> nat \<Rightarrow> bytes \<times> bytes" where
  "evpBytesToKey pw salt keyLen ivLen =
     (let derived = evp_loop pw salt (keyLen + ivLen) [] [] in (take keyLen derived, take ivLen (drop keyLen derived)))"

text \<open>\<open>NewCBCEncrypter\<close> and \<open>CryptBlocks\<close> on whole blocks, and the inverse with the inverse of the cipher\<close>

function cbc_encrypt :: "(bytes \<Rightarrow> bytes) \<Rightarrow> bytes \<Rightarrow> bytes \<Rightarrow> bytes" where
  "cbc_encrypt E iv xs = (if xs = [] then [] else let c = E (map2 (XOR) iv (take 16 xs)) in c @ cbc_encrypt E c (drop 16 xs))"
  by auto
termination by (relation "measure (\<lambda>(_, _, xs). length xs)") auto

function cbc_decrypt :: "(bytes \<Rightarrow> bytes) \<Rightarrow> bytes \<Rightarrow> bytes \<Rightarrow> bytes" where
  "cbc_decrypt D iv ys =
     (if ys = [] then [] else map2 (XOR) iv (D (take 16 ys)) @ cbc_decrypt D (take 16 ys) (drop 16 ys))"
  by auto
termination by (relation "measure (\<lambda>(_, _, ys). length ys)") auto

declare cbc_encrypt.simps [simp del] cbc_decrypt.simps [simp del]

definition pkcs7_pad :: "bytes \<Rightarrow> bytes" where
  "pkcs7_pad xs = (let n = 16 - length xs mod 16 in xs @ replicate n (of_nat n))"

definition nanoKVMEncryptKey :: string where
  "nanoKVMEncryptKey = ''nanokvm-sipeed-2024''"

text \<open>\<open>salt\<close> is what the read of 8 random bytes gives.\<close>

definition encryptCryptoJS :: "(bytes \<Rightarrow> bytes \<Rightarrow> bytes) \<Rightarrow> string + bytes \<Rightarrow> string \<Rightarrow> string \<Rightarrow> string + string" where
  "encryptCryptoJS E rand plaintext passphrase =
     (case rand of
        Inl e \<Rightarrow> Inl e
      | Inr salt \<Rightarrow>
          (case evpBytesToKey (text_bytes passphrase) salt 32 16 of
             (key, iv) \<Rightarrow> Inr (b64 (text_bytes ''Salted__'' @ salt @ cbc_encrypt (E key) iv (pkcs7_pad (text_bytes plaintext))))))"

definition cryptojs_open :: "(bytes \<Rightarrow> bytes \<Rightarrow> bytes) \<Rightarrow> string \<Rightarrow> string \<Rightarrow> bytes option" where
  "cryptojs_open D passphrase s =
     (let raw = unb64 s in
      if take 8 raw \<noteq> text_bytes ''Salted__'' then None
      else case evpBytesToKey (text_bytes passphrase) (take 8 (drop 8 raw)) 32 16 of
        (key, iv) \<Rightarrow>
          let padded = cbc_decrypt (D key) iv (drop 16 raw)
          in if padded = [] then None else Some (take (length padded - unat (List.last padded)) padded))"

text \<open>The derivation hashes three times: two hashes are the key, the third is the vector.\<close>

lemma evp_three:
  "evpBytesToKey pw salt 32 16 =
     (let h1 = md5 (pw @ salt); h2 = md5 (h1 @ pw @ salt); h3 = md5 (h2 @ pw @ salt) in (h1 @ h2, h3))"
  by (simp add: evpBytesToKey_def evp_loop.simps[of _ _ _ "[]"] evp_loop.simps[of _ _ _ "md5 _"] Let_def)

lemma pkcs7_unpad:
  "pkcs7_pad xs \<noteq> []" "length (pkcs7_pad xs) mod 16 = 0"
  "take (length (pkcs7_pad xs) - unat (List.last (pkcs7_pad xs))) (pkcs7_pad xs) = xs"
proof -
  define n where "n = 16 - length xs mod 16"
  have n: "0 < n" "n \<le> 16" by (simp_all add: n_def)
  have p: "pkcs7_pad xs = xs @ replicate n (of_nat n)" by (simp add: pkcs7_pad_def n_def Let_def)
  have "length xs mod 16 < 16" by simp
  then have "(length xs + n) mod 16 = 0" unfolding n_def by presburger
  then show "pkcs7_pad xs \<noteq> []" "length (pkcs7_pad xs) mod 16 = 0" using n by (simp_all add: p)
  have "unat (of_nat n :: u8) = n" using n by (simp add: unat_of_nat)
  then show "take (length (pkcs7_pad xs) - unat (List.last (pkcs7_pad xs))) (pkcs7_pad xs) = xs"
    using n by (simp add: p last_replicate)
qed

lemma map2_xor_cancel:
  "length iv = length (b :: bytes) \<Longrightarrow> map2 (XOR) iv (map2 (XOR) iv b) = b"
  by (induction iv b rule: list_induct2) (simp_all add: xor.assoc[symmetric])

lemma length_text_bytes [simp]: "length (text_bytes s) = length s"
  by (simp add: text_bytes_def)

lemma cbc_roundtrip:
  assumes cipher: "\<And>b. length b = 16 \<Longrightarrow> length (E b) = 16 \<and> D (E b) = b"
    and "length iv = 16" "length xs mod 16 = 0"
  shows "cbc_decrypt D iv (cbc_encrypt E iv xs) = xs"
  using assms
proof (induction E iv xs rule: cbc_encrypt.induct)
  case (1 E iv xs)
  show ?case
  proof (cases "xs = []")
    case True
    then show ?thesis by (simp add: cbc_encrypt.simps[of E iv "[]"] cbc_decrypt.simps[of D iv "[]"])
  next
    case False
    then have l: "16 \<le> length xs" using "1.prems"(3) by (cases "length xs < 16") auto
    define b where "b = map2 (XOR) iv (take 16 xs)"
    have b: "length b = 16" using l "1.prems" by (simp add: b_def)
    have E: "length (E b) = 16" "D (E b) = b" using "1.prems"(1)[OF b] by simp_all
    have ne: "E b \<noteq> []" using E(1) by auto
    have m: "length (drop 16 xs) mod 16 = 0" using "1.prems"(3) l by (simp add: le_mod_geq)
    have ih: "cbc_decrypt D (E b) (cbc_encrypt E (E b) (drop 16 xs)) = drop 16 xs"
      using "1.IH"[OF False b_def[symmetric, THEN arg_cong[of _ _ E], symmetric]] "1.prems"(1) E(1) m by (simp add: b_def)
    have "cbc_encrypt E iv xs = E b @ cbc_encrypt E (E b) (drop 16 xs)"
      using False by (subst cbc_encrypt.simps) (simp add: b_def Let_def)
    then have "cbc_decrypt D iv (cbc_encrypt E iv xs) = map2 (XOR) iv b @ drop 16 xs"
      using E ne ih by (subst cbc_decrypt.simps) simp
    also have "map2 (XOR) iv b = take 16 xs" using l "1.prems"(2) by (simp add: b_def map2_xor_cancel)
    finally show ?thesis by simp
  qed
qed



end
