(* ===== verification/Auth.thy ===== *)
theory Auth
  imports Cryptojs Media Proxies "HOL-Library.Multiset"
begin

text \<open>
  The login dialogues with the BMCs: \<open>BMCAuthenticator\<close> of \<open>src/internal/auth/auth.go\<close> and its five implementations. An
  authenticator is a constructor of \<open>board\<close>, a method a function on it.

  The BMC is what it answers to the last of the requests that were sent to it: an error, or a reply. A reply has the path it
  came from after redirects, a status, headers, cookies, and a body that may break off with an error. The XML, JSON and URL
  parsers, the JSON encoder, the block cipher and the random bytes of the salt are parameters. A request that cannot be built, for
  a URL that does not parse, counts as one that is answered with an error.
\<close>

section \<open>Requests and replies\<close>

record auth_call =
  ac_Method :: string
  ac_URL :: string
  ac_Body :: string
  ac_Header :: "(string \<times> string) list"
  ac_Cookies :: "(string \<times> string) list"
  ac_Basic :: "(string \<times> string) option"

record auth_reply =
  ar_Path :: string
  ar_Status :: nat
  ar_Header :: header
  ar_Cookies :: "(string \<times> string) list"
  ar_Body :: string
  ar_Broken :: "string option"

record auth_env =
  av_bmc :: "auth_call list \<Rightarrow> string + auth_reply"
  av_xml_jnlp :: "string \<Rightarrow> string + string list"
  av_xml_login :: "string \<Rightarrow> (string \<times> string \<times> string) option"
  av_url_Query :: "string \<Rightarrow> (string \<Rightarrow> string) option"
  av_url_Path :: "string \<Rightarrow> string + string"
  av_json_sessions :: "string \<Rightarrow> string list option"
  av_json_nano :: "string \<Rightarrow> string + (int \<times> string \<times> string)"
  av_json_string :: "string \<Rightarrow> string"
  av_salt :: "auth_call list \<Rightarrow> string + bytes"
  av_aes :: "bytes \<Rightarrow> bytes \<Rightarrow> bytes"

type_synonym 'a dialogue = "auth_call list \<Rightarrow> (string + 'a) \<times> auth_call list"

definition do_call :: "auth_env \<Rightarrow> auth_call \<Rightarrow> auth_reply dialogue" where
  "do_call env c calls = (av_bmc env (calls @ [c]), calls @ [c])"

definition plain_call :: "string \<Rightarrow> string \<Rightarrow> string \<Rightarrow> auth_call" where
  "plain_call method url body = \<lparr>ac_Method = method, ac_URL = url, ac_Body = body, ac_Header = [], ac_Cookies = [], ac_Basic = None\<rparr>"

definition form_type :: "string \<times> string" where
  "form_type = (''Content-Type'', ''application/x-www-form-urlencoded'')"

text \<open>The next step of a dialogue, when the last one went well.\<close>

definition and_then :: "'a dialogue \<Rightarrow> (string \<Rightarrow> string) \<Rightarrow> ('a \<Rightarrow> 'b dialogue) \<Rightarrow> 'b dialogue" where
  "and_then d wrap f calls = (case d calls of (Inl e, calls) \<Rightarrow> (Inl (wrap e), calls) | (Inr x, calls) \<Rightarrow> f x calls)"

definition give :: "string + 'a \<Rightarrow> 'a dialogue" where
  "give r calls = (r, calls)"

definition base_url :: "string \<Rightarrow> string \<Rightarrow> int \<Rightarrow> string" where
  "base_url scheme host port = scheme @ ''://'' @ host @ '':'' @ show_int port"

definition no_creds :: BMCCredentials where
  "no_creds = \<lparr>bc_SessionCookie = '''', bc_CSRFToken = '''', bc_KVMToken = '''', bc_WebCookie = '''', bc_Username = '''',
     bc_Privilege = 0, bc_ExtendedPriv = 0, bc_Extra = []\<rparr>"

section \<open>MegaRAC\<close>

record megaracSession =
  se_SessionCookie :: string
  se_BMCIPAddr :: string
  se_CSRFToken :: string

text \<open>\<open>readBodyTolerant\<close>: data before a connection that was cut counts as the body.\<close>

definition readBodyTolerant :: "auth_reply \<Rightarrow> string + string" where
  "readBodyTolerant r =
     (case ar_Broken r of
        None \<Rightarrow> Inr (ar_Body r)
      | Some err \<Rightarrow>
          if ar_Body r \<noteq> '''' \<and> (contains ''unexpected EOF'' err \<or> contains ''connection reset'' err) then Inr (ar_Body r)
          else Inl err)"

definition re_signed_status :: regex where
  "re_signed_status = re_all [re_lit ''HAPI_STATUS:'', RGroup (re_all [re_opt (re_lit ''-''), re_plus (RChar digit_char)])]"

definition re_quoted1 :: regex where
  "re_quoted1 = re_all [re_lit q1, RGroup (re_plus (re_not CHR 0x27)), re_lit q1]"

definition parseSessionResponse :: "string \<Rightarrow> string + megaracSession" where
  "parseSessionResponse body =
     (let bad = (case re_group re_signed_status body of None \<Rightarrow> None | Some st \<Rightarrow> if st \<noteq> ''0'' then Some st else None)
      in case bad of
           Some st \<Rightarrow> Inl (''BMC returned HAPI_STATUS:'' @ st @ '' (login failed)'')
         | None \<Rightarrow>
             (case re_group (re_field ''SESSION_COOKIE'' re_quoted1) body of
                None \<Rightarrow> Inl ''SESSION_COOKIE not found in response''
              | Some cookie \<Rightarrow>
                  (case re_group (re_field ''CSRFTOKEN'' re_quoted1) body of
                     None \<Rightarrow> Inl ''CSRFTOKEN not found in response''
                   | Some csrf \<Rightarrow>
                       Inr \<lparr>se_SessionCookie = cookie,
                            se_BMCIPAddr = (case re_group (re_field ''BMC_IP_ADDR'' re_quoted1) body of None \<Rightarrow> '''' | Some ip \<Rightarrow> ip),
                            se_CSRFToken = csrf\<rparr>)))"

text \<open>The arguments come in pairs of a key with a dash and a value; of two with the same key the last one counts.\<close>

fun jnlp_pairs :: "string list \<Rightarrow> (string \<times> string) list" where
  "jnlp_pairs (a # b # xs) = (trim_prefix ''-'' a, b) # jnlp_pairs xs"
| "jnlp_pairs xs = []"

definition jnlp_arg :: "string list \<Rightarrow> string \<Rightarrow> string" where
  "jnlp_arg xs key = (case map_of (rev (jnlp_pairs xs)) key of None \<Rightarrow> '''' | Some v \<Rightarrow> v)"

definition jviewer_args :: "string list \<Rightarrow> JViewerArgs" where
  "jviewer_args xs = (let arg = jnlp_arg xs in
     \<lparr>jv_Hostname = arg ''hostname'', jv_KVMToken = arg ''kvmtoken'', jv_KVMSecure = arg ''kvmsecure'', jv_KVMPort = arg ''kvmport'',
      jv_VMSecure = arg ''vmsecure'', jv_CDState = arg ''cdstate'', jv_FDState = arg ''fdstate'', jv_HDState = arg ''hdstate'',
      jv_CDNum = arg ''cdnum'', jv_FDNum = arg ''fdnum'', jv_HDNum = arg ''hdnum'', jv_ExtendedPriv = arg ''extendedpriv'',
      jv_Localization = arg ''localization'', jv_KeyboardLayout = arg ''keyboardlayout'', jv_WebSecurePort = arg ''websecureport'',
      jv_SinglePortEnabled = arg ''singleportenabled'', jv_WebCookie = arg ''webcookie'', jv_OEMFeatures = arg ''oemfeatures''\<rparr>)"

definition parseJNLP :: "auth_env \<Rightarrow> string \<Rightarrow> string + JViewerArgs" where
  "parseJNLP env body =
     (case av_xml_jnlp env body of
        Inl e \<Rightarrow> Inl (''parsing JNLP XML: '' @ e)
      | Inr xs \<Rightarrow>
          if jv_KVMToken (jviewer_args xs) = '''' then Inl ''kvmtoken not found in JNLP arguments''
          else if jv_Hostname (jviewer_args xs) = '''' then Inl ''hostname not found in JNLP arguments''
          else Inr (jviewer_args xs))"

text \<open>A request with the session, whose body is read tolerantly.\<close>

definition session_call :: "megaracSession \<Rightarrow> string \<Rightarrow> (string \<times> string) list \<Rightarrow> auth_call" where
  "session_call sess url extra = (plain_call ''GET'' url '''')\<lparr>ac_Header :=
     [(''Cookie'', ''SessionCookie='' @ se_SessionCookie sess), (''X-CSRFTOKEN'', se_CSRFToken sess)] @ extra\<rparr>"

definition read_tolerant :: "auth_env \<Rightarrow> auth_call \<Rightarrow> string dialogue" where
  "read_tolerant env c =
     and_then (do_call env c) (\<lambda>e. ''sending request: '' @ e)
       (\<lambda>r. and_then (give (readBodyTolerant r)) (\<lambda>e. ''reading response: '' @ e) (\<lambda>b. give (Inr b)))"

text \<open>\<open>Encode\<close> sorts the fields by name.\<close>

definition create_call :: "string \<Rightarrow> string \<Rightarrow> string \<Rightarrow> auth_call" where
  "create_call base user pw =
     (plain_call ''POST'' (base @ ''/rpc/WEBSES/create.asp'')
        (''WEBVAR_PASSWORD='' @ QueryEscape pw @ ''&WEBVAR_USERNAME='' @ QueryEscape user))\<lparr>ac_Header := [form_type]\<rparr>"

definition createSession :: "auth_env \<Rightarrow> string \<Rightarrow> string \<Rightarrow> string \<Rightarrow> megaracSession dialogue" where
  "createSession env base user pw =
     and_then (read_tolerant env (create_call base user pw)) id (\<lambda>b. give (parseSessionResponse b))"

definition getJNLP :: "auth_env \<Rightarrow> string \<Rightarrow> string \<Rightarrow> megaracSession \<Rightarrow> JViewerArgs dialogue" where
  "getJNLP env base host sess =
     and_then (read_tolerant env (session_call sess (base @ ''/Java/jviewer.jnlp?EXTRNIP='' @ QueryEscape host @ ''&JNLPSTR=JViewer'')
         [(''Referer'', base @ ''/'')])) id (\<lambda>b. give (parseJNLP env b))"

definition logoutWithSession :: "auth_env \<Rightarrow> string \<Rightarrow> megaracSession \<Rightarrow> unit dialogue" where
  "logoutWithSession env base sess =
     and_then (do_call env (session_call sess (base @ ''/rpc/WEBSES/logout.asp'') [])) (\<lambda>e. ''sending logout request: '' @ e)
       (\<lambda>_. give (Inr ()))"

record roleInfo =
  ro_username :: string
  ro_privilege :: int
  ro_extendedPriv :: int

definition role_number :: "string \<Rightarrow> string \<Rightarrow> int" where
  "role_number key body =
     (case re_group (re_field key re_digits) body of None \<Rightarrow> 0 | Some g \<Rightarrow> (case scan_int g of None \<Rightarrow> 0 | Some n \<Rightarrow> n))"

definition parseRoleResponse :: "string \<Rightarrow> string + roleInfo" where
  "parseRoleResponse body =
     (let bad = (case re_group re_signed_status body of None \<Rightarrow> None | Some st \<Rightarrow> if st \<noteq> ''0'' then Some st else None)
      in case bad of
           Some st \<Rightarrow> Inl (''getrole returned HAPI_STATUS:'' @ st)
         | None \<Rightarrow> Inr \<lparr>ro_username = field_text ''CURUSERNAME'' body, ro_privilege = role_number ''CURPRIV'' body,
             ro_extendedPriv = role_number ''EXTENDED_PRIV'' body\<rparr>)"

definition getRole :: "auth_env \<Rightarrow> string \<Rightarrow> megaracSession \<Rightarrow> roleInfo dialogue" where
  "getRole env base sess =
     and_then (read_tolerant env (session_call sess (base @ ''/rpc/getrole.asp'') [])) id (\<lambda>b. give (parseRoleResponse b))"

definition megarac_creds :: "megaracSession \<Rightarrow> BMCCredentials" where
  "megarac_creds sess = no_creds\<lparr>bc_SessionCookie := se_SessionCookie sess, bc_CSRFToken := se_CSRFToken sess\<rparr>"

definition ikvm_info :: "JViewerArgs \<Rightarrow> KVMConnectInfo" where
  "ikvm_info args = \<lparr>ci_Mode = KVMModeIKVM, ci_IKVMArgs = Some args, ci_TargetURL = '''', ci_TargetAddr = '''', ci_VNCPassword = ''''\<rparr>"

definition megarac_Authenticate :: "auth_env \<Rightarrow> string \<Rightarrow> int \<Rightarrow> string \<Rightarrow> string \<Rightarrow> (BMCCredentials \<times> KVMConnectInfo option) dialogue" where
  "megarac_Authenticate env host port user pw =
     (let base = base_url ''http'' host port
      in and_then (createSession env base user pw) (\<lambda>e. ''creating BMC session: '' @ e)
           (\<lambda>sess calls. case getJNLP env base host sess calls of
              (Inl e, calls) \<Rightarrow> (Inl (''getting JNLP: '' @ e), snd (logoutWithSession env base sess calls))
            | (Inr args, calls) \<Rightarrow>
                (Inr ((megarac_creds sess)\<lparr>bc_KVMToken := jv_KVMToken args, bc_WebCookie := jv_WebCookie args\<rparr>, Some (ikvm_info args)), calls)))"

definition megarac_CreateWebSession :: "auth_env \<Rightarrow> string \<Rightarrow> int \<Rightarrow> string \<Rightarrow> string \<Rightarrow> BMCCredentials dialogue" where
  "megarac_CreateWebSession env host port user pw =
     (let base = base_url ''http'' host port
      in and_then (createSession env base user pw) (\<lambda>e. ''creating BMC session: '' @ e)
           (\<lambda>sess calls. case getRole env base sess calls of
              (Inl _, calls) \<Rightarrow> (Inr (megarac_creds sess), calls)
            | (Inr role, calls) \<Rightarrow>
                (Inr ((megarac_creds sess)\<lparr>bc_Username := ro_username role, bc_Privilege := ro_privilege role,
                   bc_ExtendedPriv := ro_extendedPriv role\<rparr>), calls)))"

definition creds_session :: "BMCCredentials \<Rightarrow> megaracSession" where
  "creds_session c = \<lparr>se_SessionCookie = bc_SessionCookie c, se_BMCIPAddr = '''', se_CSRFToken = bc_CSRFToken c\<rparr>"

definition megarac_Logout :: "auth_env \<Rightarrow> string \<Rightarrow> int \<Rightarrow> BMCCredentials \<Rightarrow> unit dialogue" where
  "megarac_Logout env host port c = logoutWithSession env (base_url ''http'' host port) (creds_session c)"

text \<open>\<open>FetchKVMToken\<close>: the tokens are written into the credentials it was given.\<close>

definition fetch_token :: "auth_env \<Rightarrow> string \<Rightarrow> int \<Rightarrow> BMCCredentials \<Rightarrow> (BMCCredentials \<times> KVMConnectInfo) dialogue" where
  "fetch_token env host port c =
     and_then (getJNLP env (base_url ''http'' host port) host (creds_session c)) (\<lambda>e. ''getting JNLP: '' @ e)
       (\<lambda>args. give (Inr (c\<lparr>bc_KVMToken := jv_KVMToken args, bc_WebCookie := jv_WebCookie args\<rparr>, ikvm_info args)))"

section \<open>iDRAC8\<close>

record idrac8Session =
  i8_SessionCookie :: string
  i8_ST1 :: string
  i8_ST2 :: string

definition session_cookie_of :: "auth_reply \<Rightarrow> string" where
  "session_cookie_of r = (case List.find (\<lambda>(n, v). n = ''-http-session-'') (ar_Cookies r) of None \<Rightarrow> '''' | Some (_, v) \<Rightarrow> v)"

definition re_tag :: "string \<Rightarrow> regex \<Rightarrow> regex" where
  "re_tag name value = re_all [re_lit (''<'' @ name @ ''>''), RGroup (re_plus value), re_lit (''</'' @ name @ ''>'')]"

definition tag_text :: "string \<Rightarrow> regex \<Rightarrow> string \<Rightarrow> string" where
  "tag_text name value body = (case re_group (re_tag name value) body of None \<Rightarrow> '''' | Some g \<Rightarrow> g)"

definition parseIDRAC8LoginResponse :: "auth_env \<Rightarrow> string \<Rightarrow> string \<times> string \<times> string" where
  "parseIDRAC8LoginResponse env body =
     (case av_xml_login env body of
        Some r \<Rightarrow> r
      | None \<Rightarrow> (tag_text ''authResult'' (RChar digit_char) body, tag_text ''forwardUrl'' (re_not CHR ''<'') body,
          tag_text ''errorMsg'' (re_not CHR ''<'') body))"

text \<open>\<open>strings.Replace\<close> of the first occurrence\<close>

fun replace_first :: "string \<Rightarrow> string \<Rightarrow> string \<Rightarrow> string" where
  "replace_first old new [] = (if old = [] then new else [])"
| "replace_first old new (c # cs) =
     (if take (length old) (c # cs) = old then new @ drop (length old) (c # cs) else c # replace_first old new cs)"

definition idrac8_tokens :: "auth_env \<Rightarrow> string \<Rightarrow> string \<times> string" where
  "idrac8_tokens env url =
     (if url = '''' then ('''', '''')
      else case av_url_Query env (replace_first '',ST2='' ''&ST2='' url) of
        None \<Rightarrow> ('''', '''')
      | Some get \<Rightarrow> (get ''ST1'', get ''ST2''))"

definition idrac8_call :: "string \<Rightarrow> string \<Rightarrow> string \<Rightarrow> auth_call" where
  "idrac8_call base user pw =
     (plain_call ''POST'' (base @ ''/data/login'') (''user='' @ QueryEscape user @ ''&password='' @ QueryEscape pw))\<lparr>ac_Header := [form_type]\<rparr>"

definition idrac8_session :: "auth_env \<Rightarrow> auth_reply \<Rightarrow> string + idrac8Session" where
  "idrac8_session env r =
     (case ar_Broken r of
        Some e \<Rightarrow> Inl (''reading login response: '' @ e)
      | None \<Rightarrow>
          if ar_Status r \<noteq> 200 then Inl (''login returned HTTP '' @ show_int (int (ar_Status r)))
          else if session_cookie_of r = '''' then Inl ''no -http-session- cookie in login response''
          else case parseIDRAC8LoginResponse env (ar_Body r) of
            (authResult, url, msg) \<Rightarrow>
              if authResult \<noteq> ''0'' then
                (if msg \<noteq> '''' then Inl (''login failed: authResult='' @ authResult @ '' ('' @ msg @ '')'')
                 else Inl (''login failed: authResult='' @ authResult))
              else case idrac8_tokens env url of
                (st1, st2) \<Rightarrow>
                  if st1 = '''' \<or> st2 = '''' then Inl ''missing ST1/ST2 tokens in login response''
                  else Inr \<lparr>i8_SessionCookie = session_cookie_of r, i8_ST1 = st1, i8_ST2 = st2\<rparr>)"

definition idrac8_login :: "auth_env \<Rightarrow> string \<Rightarrow> string \<Rightarrow> string \<Rightarrow> idrac8Session dialogue" where
  "idrac8_login env base user pw =
     and_then (do_call env (idrac8_call base user pw)) (\<lambda>e. ''sending login request: '' @ e) (\<lambda>r. give (idrac8_session env r))"

definition idrac8_creds :: "idrac8Session \<Rightarrow> BMCCredentials" where
  "idrac8_creds sess = no_creds\<lparr>bc_SessionCookie := i8_SessionCookie sess, bc_CSRFToken := i8_ST2 sess, bc_Extra := [(''st1'', i8_ST1 sess)]\<rparr>"

definition vnc_info :: "string \<Rightarrow> string \<Rightarrow> KVMConnectInfo" where
  "vnc_info host pw = \<lparr>ci_Mode = KVMModeVNC, ci_IKVMArgs = None, ci_TargetURL = '''', ci_TargetAddr = host @ '':5901'', ci_VNCPassword = pw\<rparr>"

definition idrac8_Authenticate :: "auth_env \<Rightarrow> string \<Rightarrow> int \<Rightarrow> string \<Rightarrow> string \<Rightarrow> (BMCCredentials \<times> KVMConnectInfo option) dialogue" where
  "idrac8_Authenticate env host port user pw =
     and_then (idrac8_login env (base_url ''https'' host port) user pw) (\<lambda>e. ''iDRAC8 login: '' @ e)
       (\<lambda>sess. give (Inr (idrac8_creds sess, Some (vnc_info host pw))))"

definition idrac8_CreateWebSession :: "auth_env \<Rightarrow> string \<Rightarrow> int \<Rightarrow> string \<Rightarrow> string \<Rightarrow> BMCCredentials dialogue" where
  "idrac8_CreateWebSession env host port user pw =
     and_then (idrac8_login env (base_url ''https'' host port) user pw) (\<lambda>e. ''iDRAC8 login: '' @ e)
       (\<lambda>sess. give (Inr (idrac8_creds sess)))"

definition idrac8_logout_call :: "string \<Rightarrow> idrac8Session \<Rightarrow> auth_call" where
  "idrac8_logout_call base sess =
     (plain_call ''GET'' (base @ ''/data/logout'' @ (if i8_ST1 sess \<noteq> '''' then ''?ST1='' @ QueryEscape (i8_ST1 sess) else '''')) '''')
       \<lparr>ac_Cookies := [(''-http-session-'', i8_SessionCookie sess)], ac_Header := (if i8_ST2 sess \<noteq> '''' then [(''ST2'', i8_ST2 sess)] else [])\<rparr>"

definition idrac8_Logout :: "auth_env \<Rightarrow> string \<Rightarrow> int \<Rightarrow> BMCCredentials \<Rightarrow> unit dialogue" where
  "idrac8_Logout env host port c =
     and_then (do_call env (idrac8_logout_call (base_url ''https'' host port)
         \<lparr>i8_SessionCookie = bc_SessionCookie c, i8_ST1 = extra_of c ''st1'', i8_ST2 = bc_CSRFToken c\<rparr>))
       (\<lambda>e. ''sending logout request: '' @ e) (\<lambda>_. give (Inr ()))"

section \<open>iDRAC9\<close>

record idrac9Session =
  i9_SessionCookie :: string
  i9_XSRFToken :: string

text \<open>\<open>%q\<close>, for a string of ASCII characters\<close>

definition hex_char :: "nat \<Rightarrow> char" where
  "hex_char d = (''0123456789abcdef'' ! (d mod 16))"

definition quote_char :: "char \<Rightarrow> string" where
  "quote_char c =
     (let n = of_char c :: nat; bs = CHR 0x5C in
      if n = 34 \<or> n = 92 then [bs, c]
      else if n = 7 then [bs, CHR ''a''] else if n = 8 then [bs, CHR ''b''] else if n = 12 then [bs, CHR ''f'']
      else if n = 10 then [bs, CHR ''n''] else if n = 13 then [bs, CHR ''r''] else if n = 9 then [bs, CHR ''t'']
      else if n = 11 then [bs, CHR ''v'']
      else if n < 32 \<or> n = 127 then [bs, CHR ''x'', hex_char (n div 16), hex_char n]
      else [c])"

definition go_quote :: "string \<Rightarrow> string" where
  "go_quote s = [CHR 0x22] @ concat (map quote_char s) @ [CHR 0x22]"

definition idrac9_endpoint :: string where
  "idrac9_endpoint = ''/sysmgmt/2015/bmc/session''"

definition idrac9_call :: "string \<Rightarrow> string \<Rightarrow> string \<Rightarrow> auth_call" where
  "idrac9_call base user pw =
     (plain_call ''POST'' (base @ idrac9_endpoint) '''')\<lparr>ac_Header := [(''user'', go_quote user), (''password'', go_quote pw)]\<rparr>"

definition redfish_auth :: "string \<Rightarrow> string \<Rightarrow> string \<Rightarrow> string \<Rightarrow> auth_call" where
  "redfish_auth method url user pw = (plain_call method url '''')\<lparr>ac_Basic := Some (user, pw)\<rparr>"

text \<open>The sessions that Redfish lists are deleted one after the other, whatever comes back.\<close>

fun delete_sessions :: "auth_env \<Rightarrow> string \<Rightarrow> string \<Rightarrow> string \<Rightarrow> string list \<Rightarrow> auth_call list \<Rightarrow> auth_call list" where
  "delete_sessions env base user pw [] calls = calls"
| "delete_sessions env base user pw (m # ms) calls =
     delete_sessions env base user pw ms (snd (do_call env (redfish_auth ''DELETE'' (base @ m) user pw) calls))"

definition clearStaleSessions :: "auth_env \<Rightarrow> string \<Rightarrow> string \<Rightarrow> string \<Rightarrow> auth_call list \<Rightarrow> auth_call list" where
  "clearStaleSessions env base user pw calls =
     (case do_call env (redfish_auth ''GET'' (base @ ''/redfish/v1/SessionService/Sessions'') user pw) calls of
        (Inl _, calls) \<Rightarrow> calls
      | (Inr r, calls) \<Rightarrow>
          (case av_json_sessions env (ar_Body r) of None \<Rightarrow> calls | Some ms \<Rightarrow> delete_sessions env base user pw ms calls))"

definition idrac9_session :: "auth_reply \<Rightarrow> string + idrac9Session" where
  "idrac9_session r =
     (if ar_Status r \<noteq> 200 \<and> ar_Status r \<noteq> 201 then Inl (''login returned HTTP '' @ show_int (int (ar_Status r)))
      else if session_cookie_of r = '''' then Inl ''no -http-session- cookie in login response''
      else if h_get ''XSRF-TOKEN'' (ar_Header r) = '''' then Inl ''no XSRF-TOKEN header in login response''
      else Inr \<lparr>i9_SessionCookie = session_cookie_of r, i9_XSRFToken = h_get ''XSRF-TOKEN'' (ar_Header r)\<rparr>)"

definition idrac9_login :: "auth_env \<Rightarrow> string \<Rightarrow> string \<Rightarrow> string \<Rightarrow> idrac9Session dialogue" where
  "idrac9_login env base user pw =
     and_then (do_call env (idrac9_call base user pw)) (\<lambda>e. ''sending login request: '' @ e)
       (\<lambda>r calls. if ar_Status r = 503 then
            and_then (do_call env (idrac9_call base user pw)) (\<lambda>e. ''sending login retry request: '' @ e)
              (\<lambda>r. give (idrac9_session r)) (clearStaleSessions env base user pw calls)
          else give (idrac9_session r) calls)"

definition vnc_config :: "auth_env \<Rightarrow> string \<Rightarrow> string" where
  "vnc_config env pw = ''{'' @ quoted ''Attributes'' @ '':{'' @ quoted ''VNCServer.1.Enable'' @ '':'' @ quoted ''Enabled'' @ '',''
     @ quoted ''VNCServer.1.Password'' @ '':'' @ av_json_string env pw @ ''}}''"

definition configureVNC :: "auth_env \<Rightarrow> string \<Rightarrow> int \<Rightarrow> string \<Rightarrow> string \<Rightarrow> string dialogue" where
  "configureVNC env host port user pw =
     and_then (do_call env ((redfish_auth ''PATCH'' (base_url ''https'' host port @ ''/redfish/v1/Managers/iDRAC.Embedded.1/Attributes'') user pw)
         \<lparr>ac_Body := vnc_config env (pw @ ''1!''), ac_Header := [(''Content-Type'', ''application/json'')]\<rparr>))
       (\<lambda>e. ''sending Redfish PATCH: '' @ e)
       (\<lambda>r. give (if ar_Status r \<noteq> 200
          then Inl (''Redfish VNC config failed (HTTP '' @ show_int (int (ar_Status r)) @ ''): '' @ ar_Body r)
          else Inr (pw @ ''1!'')))"

definition idrac9_logout_call :: "string \<Rightarrow> idrac9Session \<Rightarrow> auth_call" where
  "idrac9_logout_call base sess = (plain_call ''DELETE'' (base @ idrac9_endpoint) '''')
     \<lparr>ac_Cookies := [(''-http-session-'', i9_SessionCookie sess)], ac_Header := [(''XSRF-TOKEN'', i9_XSRFToken sess)]\<rparr>"

definition idrac9_logout :: "auth_env \<Rightarrow> string \<Rightarrow> idrac9Session \<Rightarrow> unit dialogue" where
  "idrac9_logout env base sess =
     and_then (do_call env (idrac9_logout_call base sess)) (\<lambda>e. ''sending logout request: '' @ e) (\<lambda>_. give (Inr ()))"

definition idrac9_creds :: "idrac9Session \<Rightarrow> BMCCredentials" where
  "idrac9_creds sess = no_creds\<lparr>bc_SessionCookie := i9_SessionCookie sess, bc_CSRFToken := i9_XSRFToken sess\<rparr>"

definition idrac9_Authenticate :: "auth_env \<Rightarrow> string \<Rightarrow> int \<Rightarrow> string \<Rightarrow> string \<Rightarrow> (BMCCredentials \<times> KVMConnectInfo option) dialogue" where
  "idrac9_Authenticate env host port user pw =
     (let base = base_url ''https'' host port
      in and_then (idrac9_login env base user pw) (\<lambda>e. ''iDRAC9 login: '' @ e)
           (\<lambda>sess calls. case configureVNC env host port user pw calls of
              (Inl e, calls) \<Rightarrow> (Inl (''iDRAC9 VNC setup: '' @ e), snd (idrac9_logout env base sess calls))
            | (Inr vncPassword, calls) \<Rightarrow> (Inr (idrac9_creds sess, Some (vnc_info host vncPassword)), calls)))"

definition idrac9_CreateWebSession :: "auth_env \<Rightarrow> string \<Rightarrow> int \<Rightarrow> string \<Rightarrow> string \<Rightarrow> BMCCredentials dialogue" where
  "idrac9_CreateWebSession env host port user pw =
     and_then (idrac9_login env (base_url ''https'' host port) user pw) (\<lambda>e. ''iDRAC9 login: '' @ e)
       (\<lambda>sess. give (Inr (idrac9_creds sess)))"

definition idrac9_Logout :: "auth_env \<Rightarrow> string \<Rightarrow> int \<Rightarrow> BMCCredentials \<Rightarrow> unit dialogue" where
  "idrac9_Logout env host port c =
     idrac9_logout env (base_url ''https'' host port) \<lparr>i9_SessionCookie = bc_SessionCookie c, i9_XSRFToken = bc_CSRFToken c\<rparr>"

section \<open>APC\<close>

definition trim_suffix :: "string \<Rightarrow> string \<Rightarrow> string" where
  "trim_suffix suf s = (if has_suffix suf s then take (length s - length suf) s else s)"

text \<open>The path of the session from the location that answers the login: its first two segments.\<close>

definition auth_path :: "string \<Rightarrow> string + string" where
  "auth_path path =
     (let locPath = trim_suffix ''/'' path in
      if \<not> has_prefix ''/NMC/'' locPath then Inl (''unexpected auth redirect path: '' @ locPath)
      else Inr (''/NMC/'' @ takeWhile (\<lambda>c. c \<noteq> CHR ''/'') (drop 5 locPath)))"

definition apc_call :: "string \<Rightarrow> string \<Rightarrow> string \<Rightarrow> string \<Rightarrow> auth_call" where
  "apc_call base pre user pw = (plain_call ''POST'' (base @ pre @ ''/Forms/login1'')
     (''login_password='' @ QueryEscape pw @ ''&login_username='' @ QueryEscape user @ ''&submit=Log+On''))\<lparr>ac_Header := [form_type]\<rparr>"

definition apc_session :: "auth_env \<Rightarrow> string \<Rightarrow> auth_reply \<Rightarrow> string + string" where
  "apc_session env pre r =
     (let location = h_get ''Location'' (ar_Header r) in
      if location = '''' then Inl (''no redirect after login (status '' @ show_int (int (ar_Status r)) @ '')'')
      else case av_url_Path env location of
        Inl e \<Rightarrow> Inl (''parsing redirect URL: '' @ e)
      | Inr path \<Rightarrow>
          (case auth_path path of
             Inl e \<Rightarrow> Inl e
           | Inr p \<Rightarrow> if p = pre then Inl ''login failed: session token unchanged (bad credentials?)'' else Inr p))"

definition apc_login :: "auth_env \<Rightarrow> string \<Rightarrow> string \<Rightarrow> string \<Rightarrow> string dialogue" where
  "apc_login env base user pw =
     and_then (do_call env (plain_call ''GET'' (base @ ''/'') '''')) (\<lambda>e. ''getting login page: '' @ e)
       (\<lambda>r calls. let finalPath = ar_Path r; pre = trim_suffix ''/logon.htm'' finalPath in
          if \<not> contains ''/NMC/'' finalPath \<or> \<not> has_suffix ''/logon.htm'' finalPath
          then (Inl (''unexpected login page path: '' @ finalPath), calls)
          else and_then (do_call env (apc_call base pre user pw)) (\<lambda>e. ''sending login: '' @ e)
                 (\<lambda>r. give (apc_session env pre r)) calls)"

definition apc_creds :: "string \<Rightarrow> BMCCredentials" where
  "apc_creds path = no_creds\<lparr>bc_Extra := [(''nmc_path'', path)]\<rparr>"

definition apc_CreateWebSession :: "auth_env \<Rightarrow> string \<Rightarrow> int \<Rightarrow> string \<Rightarrow> string \<Rightarrow> BMCCredentials dialogue" where
  "apc_CreateWebSession env host port user pw =
     and_then (apc_login env (base_url ''http'' host port) user pw) (\<lambda>e. ''APC login: '' @ e) (\<lambda>p. give (Inr (apc_creds p)))"

definition apc_Logout :: "auth_env \<Rightarrow> string \<Rightarrow> int \<Rightarrow> BMCCredentials \<Rightarrow> unit dialogue" where
  "apc_Logout env host port c =
     (if extra_of c ''nmc_path'' = '''' then give (Inr ())
      else and_then (do_call env (plain_call ''GET'' (base_url ''http'' host port @ extra_of c ''nmc_path'' @ ''/logout.htm'') '''')) id
             (\<lambda>_. give (Inr ())))"

section \<open>NanoKVM\<close>

definition nano_call :: "string \<Rightarrow> string \<Rightarrow> string \<Rightarrow> auth_call" where
  "nano_call base user enc = (plain_call ''POST'' (base @ ''/api/auth/login'')
     (''{'' @ quoted ''username'' @ '':'' @ quoted user @ '','' @ quoted ''password'' @ '':'' @ quoted (QueryEscape enc) @ ''}''))
       \<lparr>ac_Header := [(''Content-Type'', ''application/json'')]\<rparr>"

definition nano_session :: "auth_env \<Rightarrow> auth_reply \<Rightarrow> string + string" where
  "nano_session env r =
     (case av_json_nano env (ar_Body r) of
        Inl e \<Rightarrow> Inl (''parsing response: '' @ e)
      | Inr (code, msg, token) \<Rightarrow>
          if code \<noteq> 0 then Inl (''login failed: '' @ msg)
          else if token = '''' then Inl ''login returned empty token''
          else Inr token)"

definition nano_login :: "auth_env \<Rightarrow> string \<Rightarrow> string \<Rightarrow> string \<Rightarrow> string dialogue" where
  "nano_login env base user pw =
     and_then (\<lambda>calls. give (encryptCryptoJS (av_aes env) (av_salt env calls) pw nanoKVMEncryptKey) calls) (\<lambda>e. ''encrypting password: '' @ e)
       (\<lambda>enc. and_then (do_call env (nano_call base user enc)) (\<lambda>e. ''sending request: '' @ e) (\<lambda>r. give (nano_session env r)))"

definition nano_CreateWebSession :: "auth_env \<Rightarrow> string \<Rightarrow> int \<Rightarrow> string \<Rightarrow> string \<Rightarrow> BMCCredentials dialogue" where
  "nano_CreateWebSession env host port user pw =
     and_then (nano_login env (base_url ''http'' host port) user pw) (\<lambda>e. ''NanoKVM login: '' @ e)
       (\<lambda>token. give (Inr (no_creds\<lparr>bc_SessionCookie := token\<rparr>)))"

definition nano_Authenticate :: "auth_env \<Rightarrow> string \<Rightarrow> int \<Rightarrow> string \<Rightarrow> string \<Rightarrow> (BMCCredentials \<times> KVMConnectInfo option) dialogue" where
  "nano_Authenticate env host port user pw = and_then (nano_CreateWebSession env host port user pw) id (\<lambda>c. give (Inr (c, None)))"

definition nano_Logout :: "auth_env \<Rightarrow> string \<Rightarrow> int \<Rightarrow> BMCCredentials \<Rightarrow> unit dialogue" where
  "nano_Logout env host port c =
     (if bc_SessionCookie c = '''' then give (Inr ())
      else and_then (do_call env ((plain_call ''POST'' (base_url ''http'' host port @ ''/api/auth/logout'') '''')
              \<lparr>ac_Cookies := [(''nano-kvm-token'', bc_SessionCookie c)]\<rparr>)) id (\<lambda>_. give (Inr ())))"

section \<open>The interface\<close>

definition auth_Get :: "string \<Rightarrow> board option" where
  "auth_Get boardType =
     (if boardType = ''ami_megarac'' then Some MegaRACBoard
      else if boardType = ''dell_idrac8'' then Some IDRAC8Board
      else if boardType = ''dell_idrac9'' then Some IDRAC9Board
      else if boardType = ''apc_ups'' then Some APCBoard
      else if boardType = ''nanokvm'' then Some NanoKVMBoard
      else None)"

fun Authenticate :: "auth_env \<Rightarrow> board \<Rightarrow> string \<Rightarrow> int \<Rightarrow> string \<Rightarrow> string \<Rightarrow> (BMCCredentials \<times> KVMConnectInfo option) dialogue" where
  "Authenticate env MegaRACBoard host port user pw = megarac_Authenticate env host port user pw"
| "Authenticate env IDRAC8Board host port user pw = idrac8_Authenticate env host port user pw"
| "Authenticate env IDRAC9Board host port user pw = idrac9_Authenticate env host port user pw"
| "Authenticate env APCBoard host port user pw = give (Inl ''APC UPS does not support KVM'')"
| "Authenticate env NanoKVMBoard host port user pw = nano_Authenticate env host port user pw"

fun CreateWebSession :: "auth_env \<Rightarrow> board \<Rightarrow> string \<Rightarrow> int \<Rightarrow> string \<Rightarrow> string \<Rightarrow> BMCCredentials dialogue" where
  "CreateWebSession env MegaRACBoard host port user pw = megarac_CreateWebSession env host port user pw"
| "CreateWebSession env IDRAC8Board host port user pw = idrac8_CreateWebSession env host port user pw"
| "CreateWebSession env IDRAC9Board host port user pw = idrac9_CreateWebSession env host port user pw"
| "CreateWebSession env APCBoard host port user pw = apc_CreateWebSession env host port user pw"
| "CreateWebSession env NanoKVMBoard host port user pw = nano_CreateWebSession env host port user pw"

fun bmc_Logout :: "auth_env \<Rightarrow> board \<Rightarrow> string \<Rightarrow> int \<Rightarrow> BMCCredentials \<Rightarrow> unit dialogue" where
  "bmc_Logout env MegaRACBoard host port c = megarac_Logout env host port c"
| "bmc_Logout env IDRAC8Board host port c = idrac8_Logout env host port c"
| "bmc_Logout env IDRAC9Board host port c = idrac9_Logout env host port c"
| "bmc_Logout env APCBoard host port c = apc_Logout env host port c"
| "bmc_Logout env NanoKVMBoard host port c = nano_Logout env host port c"

text \<open>What the sessions of \<open>Sessions\<close> see of a BMC: the \<open>k\<close>-th attempt comes after the requests of those before it.\<close>

primrec after_attempts :: "'a dialogue \<Rightarrow> nat \<Rightarrow> auth_call list \<Rightarrow> auth_call list" where
  "after_attempts d 0 calls = calls"
| "after_attempts d (Suc n) calls = snd (d (after_attempts d n calls))"

definition attempt :: "'a dialogue \<Rightarrow> auth_call list \<Rightarrow> nat \<Rightarrow> string + 'a" where
  "attempt d calls k = fst (d (after_attempts d (k - 1) calls))"

definition bmc_env_of :: "auth_env \<Rightarrow> (string \<Rightarrow> string) \<Rightarrow> ServerConfig \<Rightarrow> string \<Rightarrow> auth_call list \<Rightarrow> bmc_env" where
  "bmc_env_of env getenv cfg pw calls =
     (let b = the (auth_Get (sc_BoardType cfg)); host = sc_BMCIP cfg; port = sc_BMCPort cfg
      in \<lparr>be_getenv = getenv, be_registered = (\<lambda>t. auth_Get t \<noteq> None), be_is_megarac = (\<lambda>t. auth_Get t = Some MegaRACBoard),
          be_Authenticate = attempt (Authenticate env b host port (sc_Username cfg) pw) calls,
          be_CreateWebSession = attempt (CreateWebSession env b host port (sc_Username cfg) pw) calls,
          be_getJNLP = (\<lambda>c. fst (getJNLP env (base_url ''http'' host port) host (creds_session c) calls))\<rparr>)"

section \<open>Dialogues\<close>

lemmas dialogue_simps = and_then_def give_def do_call_def

lemma fst_and_then: "fst (and_then d w f calls) = (case d calls of (Inl e, k) \<Rightarrow> Inl (w e) | (Inr x, k) \<Rightarrow> fst (f x k))"
  by (simp add: and_then_def split: prod.split sum.split)

lemma and_then_Inr:
  "and_then d w f calls = (Inr y, k2) \<longleftrightarrow> (\<exists>x k. d calls = (Inr x, k) \<and> f x k = (Inr y, k2))"
  by (auto simp: and_then_def split: prod.split sum.split)

lemma give_Inr [simp]: "give r calls = (r, calls)"
  by (simp add: give_def)

lemma do_call_Inr: "do_call env c calls = (Inr r, k) \<longleftrightarrow> av_bmc env (calls @ [c]) = Inr r \<and> k = calls @ [c]"
  by (auto simp: do_call_def)

text \<open>A request with a session sends one call, whatever comes back.\<close>

lemma one_call [simp]:
  "snd (do_call env c calls) = calls @ [c]"
  "snd (read_tolerant env c calls) = calls @ [c]"
  "snd (logoutWithSession env base sess calls) = calls @ [session_call sess (base @ ''/rpc/WEBSES/logout.asp'') []]"
  "snd (idrac9_logout env base s9 calls) = calls @ [idrac9_logout_call base s9]"
  by (simp_all add: do_call_def read_tolerant_def logoutWithSession_def idrac9_logout_def and_then_def split: sum.split prod.split)

lemma snd_then_give [simp]: "snd (and_then d w (\<lambda>x. give (f x)) calls) = snd (d calls)"
  by (simp add: and_then_def split: sum.split prod.split)

lemma getJNLP_calls: "\<exists>c. snd (getJNLP env base host sess calls) = calls @ [c]"
  by (simp add: getJNLP_def)

lemma configureVNC_calls: "\<exists>c. snd (configureVNC env host port user pw calls) = calls @ [c]"
  by (simp add: configureVNC_def)

section \<open>Starting a session over the authenticators\<close>

lemma retry_Inr: "retry n f k = Inr x \<Longrightarrow> \<exists>j. f j = Inr x"
  by (induction n f k rule: retry.induct) (auto split: sum.split_asm if_split_asm)

lemma Authenticate_info:
  "fst (Authenticate env b host port user pw calls) = Inr (c, info) \<Longrightarrow> info = None \<longleftrightarrow> b = NanoKVMBoard"
  by (cases b) (auto simp: megarac_Authenticate_def idrac8_Authenticate_def idrac9_Authenticate_def nano_Authenticate_def Let_def
      fst_and_then split: sum.split_asm prod.split_asm)

text \<open>C11: over the authenticators as they are, the start-up of a session panics exactly for a NanoKVM whose login succeeds: it alone
  comes without connection info. For every other board, whatever its BMC answers, the start-up returns.\<close>

theorem only_nanokvm_panics:
  "startSession (bmc_env_of env getenv cfg pw calls) now r cfg s = None \<longleftrightarrow>
     sc_BoardType cfg = ''nanokvm'' \<and> GetPassword getenv cfg \<noteq> None
     \<and> (\<exists>x. retry bmcRetryAttempts (attempt (nano_Authenticate env (sc_BMCIP cfg) (sc_BMCPort cfg) (sc_Username cfg) pw) calls) 1 = Inr x)"
    (is "_ \<longleftrightarrow> ?rhs")
proof -
  let ?b = "the (auth_Get (sc_BoardType cfg))"
  let ?f = "attempt (Authenticate env ?b (sc_BMCIP cfg) (sc_BMCPort cfg) (sc_Username cfg) pw) calls"
  have info: "info = None \<longleftrightarrow> ?b = NanoKVMBoard" if got: "retry bmcRetryAttempts ?f 1 = Inr (c, info)" for c info
  proof -
    obtain j where "?f j = Inr (c, info)" using retry_Inr[OF got] by blast
    then show ?thesis by (intro Authenticate_info) (simp add: attempt_def)
  qed
  have "startSession (bmc_env_of env getenv cfg pw calls) now r cfg s = None \<longleftrightarrow>
      GetPassword getenv cfg \<noteq> None \<and> auth_Get (sc_BoardType cfg) \<noteq> None \<and> sc_BoardType cfg \<noteq> ''ami_megarac''
      \<and> (\<exists>c. retry bmcRetryAttempts ?f 1 = Inr (c, None))"
    by (simp add: startSession_panics_iff bmc_env_of_def Let_def)
  also have "\<dots> \<longleftrightarrow> sc_BoardType cfg = ''nanokvm'' \<and> GetPassword getenv cfg \<noteq> None \<and> (\<exists>x. retry bmcRetryAttempts ?f 1 = Inr x)"
  proof (cases "sc_BoardType cfg = ''nanokvm''")
    case True
    then have "auth_Get (sc_BoardType cfg) = Some NanoKVMBoard" by (simp add: auth_Get_def)
    then have "(\<exists>c. retry bmcRetryAttempts ?f 1 = Inr (c, None)) \<longleftrightarrow> (\<exists>x. retry bmcRetryAttempts ?f 1 = Inr x)"
      using info by (metis option.sel surj_pair)
    then show ?thesis using True by (simp add: auth_Get_def)
  next
    case False
    then have "auth_Get (sc_BoardType cfg) \<noteq> None \<Longrightarrow> ?b \<noteq> NanoKVMBoard" by (simp add: auth_Get_def split: if_split_asm)
    then show ?thesis using info False by blast
  qed
  also have "\<dots> \<longleftrightarrow> ?rhs"
    by (cases "sc_BoardType cfg = ''nanokvm''") (simp_all add: auth_Get_def)
  finally show ?thesis .
qed

section \<open>Sessions on the BMC\<close>

text \<open>The login of a MegaRAC, when it fails behind the creation of its session, ends it.\<close>

text \<open>A login that fails leaves no session behind on a MegaRAC or an iDRAC9: when the session was created and a later step
  fails, the last request of the dialogue is the logout of that session; when it was not created, nothing else is sent.\<close>

theorem failed_login_ends_session:
  assumes "Authenticate env b host port user pw calls = (Inl e, calls')"
  shows "(b = MegaRACBoard \<longrightarrow>
            (case createSession env (base_url ''http'' host port) user pw calls of
               (Inl _, k) \<Rightarrow> calls' = k
             | (Inr sess, k) \<Rightarrow> \<exists>c. calls' = k @ [c, session_call sess (base_url ''http'' host port @ ''/rpc/WEBSES/logout.asp'') []]))
       \<and> (b = IDRAC9Board \<longrightarrow>
            (case idrac9_login env (base_url ''https'' host port) user pw calls of
               (Inl _, k) \<Rightarrow> calls' = k
             | (Inr sess, k) \<Rightarrow> \<exists>c. calls' = k @ [c, idrac9_logout_call (base_url ''https'' host port) sess]))"
proof (intro conjI impI)
  assume "b = MegaRACBoard"
  then have a: "megarac_Authenticate env host port user pw calls = (Inl e, calls')" using assms by simp
  obtain x k where k: "createSession env (base_url ''http'' host port) user pw calls = (x, k)" by force
  show "case createSession env (base_url ''http'' host port) user pw calls of
      (Inl _, k) \<Rightarrow> calls' = k
    | (Inr sess, k) \<Rightarrow> \<exists>c. calls' = k @ [c, session_call sess (base_url ''http'' host port @ ''/rpc/WEBSES/logout.asp'') []]"
  proof (cases x)
    case (Inl err)
    then show ?thesis using a k by (simp add: megarac_Authenticate_def and_then_def Let_def)
  next
    case (Inr sess)
    obtain y k2 where j: "getJNLP env (base_url ''http'' host port) host sess k = (y, k2)" by force
    have "calls' = k2 @ [session_call sess (base_url ''http'' host port @ ''/rpc/WEBSES/logout.asp'') []]"
      using a k Inr j by (auto simp: megarac_Authenticate_def and_then_def Let_def split: sum.split_asm)
    then show ?thesis using getJNLP_calls[of env "base_url ''http'' host port" host sess k] k Inr j by auto
  qed
next
  assume "b = IDRAC9Board"
  then have a: "idrac9_Authenticate env host port user pw calls = (Inl e, calls')" using assms by simp
  obtain x k where k: "idrac9_login env (base_url ''https'' host port) user pw calls = (x, k)" by force
  show "case idrac9_login env (base_url ''https'' host port) user pw calls of
      (Inl _, k) \<Rightarrow> calls' = k
    | (Inr sess, k) \<Rightarrow> \<exists>c. calls' = k @ [c, idrac9_logout_call (base_url ''https'' host port) sess]"
  proof (cases x)
    case (Inl err)
    then show ?thesis using a k by (simp add: idrac9_Authenticate_def and_then_def Let_def)
  next
    case (Inr sess)
    obtain y k2 where j: "configureVNC env host port user pw k = (y, k2)" by force
    have "calls' = k2 @ [idrac9_logout_call (base_url ''https'' host port) sess]"
      using a k Inr j by (auto simp: idrac9_Authenticate_def and_then_def Let_def split: sum.split_asm)
    then show ?thesis using configureVNC_calls[of env host port user pw k] k Inr j by auto
  qed
qed

text \<open>An iDRAC9 that opens a session and is gone when the VNC server is to be configured\<close>

definition sample_auth :: auth_env where
  "sample_auth =
     \<lparr>av_bmc = (\<lambda>calls. if ac_Method (List.last calls) = ''POST''
         then Inr \<lparr>ar_Path = idrac9_endpoint, ar_Status = 201, ar_Header = h_set ''XSRF-TOKEN'' ''x'' no_header,
                   ar_Cookies = [(''-http-session-'', ''s'')], ar_Body = '''', ar_Broken = None\<rparr>
         else Inl ''timeout''),
      av_xml_jnlp = (\<lambda>_. Inl ''EOF''), av_xml_login = (\<lambda>_. None), av_url_Query = (\<lambda>_. None), av_url_Path = (\<lambda>_. Inl ''''),
      av_json_sessions = (\<lambda>_. None), av_json_nano = (\<lambda>_. Inl ''EOF''), av_json_string = quoted, 
      av_salt = (\<lambda>_. Inr [1, 2, 3, 4, 5, 6, 7, 8]), av_aes = (\<lambda>k b. map2 (XOR) (take 16 k) b)\<rparr>"

lemma sample_auth_login:
  "idrac9_login sample_auth (base_url ''https'' ''h'' 443) ''u'' ''p'' [] =
     (Inr \<lparr>i9_SessionCookie = ''s'', i9_XSRFToken = ''x''\<rparr>, [idrac9_call (base_url ''https'' ''h'' 443) ''u'' ''p''])"
  by (simp add: idrac9_login_def and_then_def do_call_def sample_auth_def idrac9_call_def plain_call_def idrac9_session_def
      session_cookie_of_def h_get_def h_set_def)

lemma sample_auth_fails: "\<exists>e calls'. Authenticate sample_auth IDRAC9Board ''h'' 443 ''u'' ''p'' [] = (Inl e, calls')"
  by (simp add: idrac9_Authenticate_def and_then_def sample_auth_login Let_def configureVNC_def do_call_def)
     (simp add: sample_auth_def redfish_auth_def plain_call_def)

theorem failed_login_ends_session_witness:
  "\<exists>c. snd (Authenticate sample_auth IDRAC9Board ''h'' 443 ''u'' ''p'' []) =
     [idrac9_call (base_url ''https'' ''h'' 443) ''u'' ''p'', c,
      idrac9_logout_call (base_url ''https'' ''h'' 443) \<lparr>i9_SessionCookie = ''s'', i9_XSRFToken = ''x''\<rparr>]"
proof -
  obtain e calls' where a: "Authenticate sample_auth IDRAC9Board ''h'' 443 ''u'' ''p'' [] = (Inl e, calls')"
    using sample_auth_fails by blast
  have "snd (Authenticate sample_auth IDRAC9Board ''h'' 443 ''u'' ''p'' []) = calls'" using a by simp
  then show ?thesis using failed_login_ends_session[OF a] by (simp add: sample_auth_login del: Authenticate.simps)
qed

text \<open>The sessions that the BMC lists when it is asked after the requests \<open>calls\<close>.\<close>

definition listed :: "auth_env \<Rightarrow> auth_call list \<Rightarrow> string list" where
  "listed env calls = (case av_bmc env calls of Inl _ \<Rightarrow> [] | Inr r \<Rightarrow> (case av_json_sessions env (ar_Body r) of None \<Rightarrow> [] | Some ms \<Rightarrow> ms))"

lemma delete_sessions_calls: "delete_sessions env base user pw ms calls = calls @ map (\<lambda>m. redfish_auth ''DELETE'' (base @ m) user pw) ms"
  by (induction ms arbitrary: calls) simp_all

lemma clearStaleSessions_calls:
  "clearStaleSessions env base user pw calls =
     (let k = calls @ [redfish_auth ''GET'' (base @ ''/redfish/v1/SessionService/Sessions'') user pw]
      in k @ map (\<lambda>m. redfish_auth ''DELETE'' (base @ m) user pw) (listed env k))"
  by (simp add: clearStaleSessions_def do_call_def listed_def delete_sessions_calls Let_def split: sum.split option.split)

text \<open>The login of an iDRAC9 is one request, unless the answer is that the service is unavailable: then all sessions that Redfish
  lists are deleted and the login is sent once more, and not again. The outcome is that of the last login request.\<close>

theorem idrac9_login_spec:
  "let L = idrac9_call base user pw; S = redfish_auth ''GET'' (base @ ''/redfish/v1/SessionService/Sessions'') user pw;
             busy = (case av_bmc env (calls @ [L]) of Inl _ \<Rightarrow> False | Inr r \<Rightarrow> ar_Status r = 503);
             sent = calls @ [L] @ (if busy then [S] @ map (\<lambda>m. redfish_auth ''DELETE'' (base @ m) user pw) (listed env (calls @ [L, S])) @ [L] else [])
         in snd (idrac9_login env base user pw calls) = sent
          \<and> (\<forall>sess. fst (idrac9_login env base user pw calls) = Inr sess \<longleftrightarrow> (\<exists>r. av_bmc env sent = Inr r \<and> idrac9_session r = Inr sess))"
proof (cases "av_bmc env (calls @ [idrac9_call base user pw])")
  case (Inl e)
  then show ?thesis by (simp add: idrac9_login_def and_then_def do_call_def)
next
  case (Inr r)
  show ?thesis
  proof (cases "ar_Status r = 503")
    case True
    then show ?thesis using Inr
      by (auto simp: idrac9_login_def and_then_def do_call_def clearStaleSessions_calls Let_def split: sum.split)
  next
    case False
    then show ?thesis using Inr by (auto simp: idrac9_login_def and_then_def do_call_def)
  qed
qed

section \<open>Renewal\<close>

text \<open>What the session manager relies on: logging in sends requests, and the logout of what a login gave is one request that
  names the session, \<open>ends c\<close>.\<close>

locale authenticator =
  fixes create :: "BMCCredentials dialogue"
    and logout :: "BMCCredentials \<Rightarrow> unit dialogue"
    and ends :: "BMCCredentials \<Rightarrow> auth_call"
  assumes create_extends: "\<exists>x. snd (create calls) = calls @ x"
    and logout_ends: "fst (create calls) = Inr c \<Longrightarrow> snd (logout c calls') = calls' @ [ends c]"

text \<open>\<open>n\<close> renewals, as \<open>ensureBMCSession\<close> makes them: the session that is held is logged out and a new one is created. The last
  component remembers all sessions that were created.\<close>

primrec renewals :: "BMCCredentials dialogue \<Rightarrow> (BMCCredentials \<Rightarrow> unit dialogue) \<Rightarrow> nat
    \<Rightarrow> BMCCredentials option \<times> auth_call list \<times> BMCCredentials list" where
  "renewals create logout 0 = (None, [], [])"
| "renewals create logout (Suc n) =
     (case renewals create logout n of (held, calls, got) \<Rightarrow>
        let calls = (case held of None \<Rightarrow> calls | Some c \<Rightarrow> snd (logout c calls))
        in case create calls of
             (Inl _, calls) \<Rightarrow> (None, calls, got)
           | (Inr c, calls) \<Rightarrow> (Some c, calls, got @ [c]))"

context authenticator begin

lemma renewals_inv:
  "renewals create logout n = (held, calls, got) \<Longrightarrow>
     (\<forall>c. held = Some c \<longrightarrow> (\<exists>k. fst (create k) = Inr c))
     \<and> (\<exists>ended. got = ended @ (case held of None \<Rightarrow> [] | Some c \<Rightarrow> [c]) \<and> mset (map ends ended) \<subseteq># mset calls)"
proof (induction n arbitrary: held calls got)
  case (Suc n)
  obtain held0 calls0 got0 where r: "renewals create logout n = (held0, calls0, got0)" by (cases "renewals create logout n")
  obtain ended where e: "got0 = ended @ (case held0 of None \<Rightarrow> [] | Some c \<Rightarrow> [c])" "mset (map ends ended) \<subseteq># mset calls0"
    and h: "\<And>c. held0 = Some c \<Longrightarrow> \<exists>k. fst (create k) = Inr c" using Suc.IH[OF r] by blast
  define k where "k = (case held0 of None \<Rightarrow> calls0 | Some c \<Rightarrow> snd (logout c calls0))"
  have k: "mset (map ends got0) \<subseteq># mset k"
  proof (cases held0)
    case None
    then show ?thesis using e by (simp add: k_def)
  next
    case (Some c)
    then have "k = calls0 @ [ends c]" using h[OF Some] logout_ends by (auto simp: k_def)
    then show ?thesis using e Some by simp
  qed
  obtain x where x: "snd (create k) = k @ x" using create_extends by blast
  have sub: "mset (map ends got0) \<subseteq># mset (k @ x)" using k by (simp add: subset_mset.add_increasing2)
  show ?case
  proof (cases "fst (create k)")
    case (Inl err)
    then have "held = None \<and> calls = k @ x \<and> got = got0"
      using Suc.prems r x by (auto simp: k_def[symmetric] split: prod.split_asm)
    then show ?thesis using sub by auto
  next
    case (Inr c)
    then have "held = Some c \<and> calls = k @ x \<and> got = got0 @ [c]"
      using Suc.prems r x by (auto simp: k_def[symmetric] split: prod.split_asm)
    then show ?thesis using sub Inr by auto
  qed
qed simp

end

text \<open>The request that ends a session, for each board.\<close>

fun ends_call :: "board \<Rightarrow> string \<Rightarrow> int \<Rightarrow> BMCCredentials \<Rightarrow> auth_call" where
  "ends_call MegaRACBoard host port c = session_call (creds_session c) (base_url ''http'' host port @ ''/rpc/WEBSES/logout.asp'') []"
| "ends_call IDRAC8Board host port c = idrac8_logout_call (base_url ''https'' host port)
     \<lparr>i8_SessionCookie = bc_SessionCookie c, i8_ST1 = extra_of c ''st1'', i8_ST2 = bc_CSRFToken c\<rparr>"
| "ends_call IDRAC9Board host port c = idrac9_logout_call (base_url ''https'' host port)
     \<lparr>i9_SessionCookie = bc_SessionCookie c, i9_XSRFToken = bc_CSRFToken c\<rparr>"
| "ends_call APCBoard host port c = plain_call ''GET'' (base_url ''http'' host port @ extra_of c ''nmc_path'' @ ''/logout.htm'') ''''"
| "ends_call NanoKVMBoard host port c = (plain_call ''POST'' (base_url ''http'' host port @ ''/api/auth/logout'') '''')
     \<lparr>ac_Cookies := [(''nano-kvm-token'', bc_SessionCookie c)]\<rparr>"

text \<open>A login only adds requests.\<close>

definition extends :: "'a dialogue \<Rightarrow> bool" where
  "extends d \<longleftrightarrow> (\<forall>calls. \<exists>x. snd (d calls) = calls @ x)"

lemma extends_do_call [simp]: "extends (do_call env c)" by (simp add: extends_def)
lemma extends_give [simp]: "extends (give r)" "extends (\<lambda>calls. (f calls, calls))" by (simp_all add: extends_def)

lemma extends_and_then:
  assumes "extends d" "\<And>x. extends (f x)"
  shows "extends (and_then d w f)"
  unfolding extends_def
proof
  fix calls
  obtain r k where d: "d calls = (r, k)" by force
  obtain x where x: "k = calls @ x" using assms(1) d unfolding extends_def by (metis snd_conv)
  have "\<exists>y. snd (f z k) = k @ y" for z using assms(2) by (simp add: extends_def)
  then show "\<exists>x. snd (and_then d w f calls) = calls @ x" by (cases r) (auto simp: and_then_def d x)
qed

lemma extends_read_tolerant [simp]: "extends (read_tolerant env c)" by (simp add: extends_def)

lemma extends_getRole: "extends (getRole env base sess)"
  by (simp add: extends_def getRole_def)

lemma extends_then_case:
  assumes "extends d"
  shows "extends (\<lambda>calls. case d calls of (Inl e, k) \<Rightarrow> (Inr x, k) | (Inr y, k) \<Rightarrow> (Inr (g y), k))"
  unfolding extends_def
proof
  fix calls
  obtain r k where d: "d calls = (r, k)" by force
  then obtain z where "k = calls @ z" using assms unfolding extends_def by (metis snd_conv)
  then show "\<exists>z. snd (case d calls of (Inl e, k) \<Rightarrow> (Inr x, k) | (Inr y, k) \<Rightarrow> (Inr (g y), k)) = calls @ z"
    by (cases r) (auto simp: d)
qed

lemma extends_if: "extends d \<Longrightarrow> extends (\<lambda>calls. if P then (r, calls) else d calls)"
  by (simp add: extends_def)

lemma extends_idrac9_login: "extends (idrac9_login env base user pw)"
  unfolding idrac9_login_def
  by (intro extends_and_then extends_do_call)
     (auto simp: extends_def clearStaleSessions_calls and_then_def do_call_def Let_def split: sum.split)

lemma extends_CreateWebSession: "extends (CreateWebSession env b host port user pw)"
proof (cases b)
  case MegaRACBoard
  then show ?thesis
    by (auto simp: megarac_CreateWebSession_def createSession_def Let_def intro!: extends_and_then extends_then_case extends_getRole)
next
  case IDRAC8Board
  then show ?thesis by (auto simp: idrac8_CreateWebSession_def idrac8_login_def intro!: extends_and_then)
next
  case IDRAC9Board
  then show ?thesis by (auto simp: idrac9_CreateWebSession_def intro!: extends_and_then extends_idrac9_login)
next
  case APCBoard
  then show ?thesis
    by (auto simp: apc_CreateWebSession_def apc_login_def Let_def intro!: extends_and_then extends_if)
next
  case NanoKVMBoard
  then show ?thesis by (auto simp: nano_CreateWebSession_def nano_login_def intro!: extends_and_then)
qed

text \<open>What a login gives names a session.\<close>

lemma apc_session_path:
  assumes "apc_session env pre r = Inr p"
  shows "\<exists>tok. p = ''/NMC/'' @ tok \<and> CHR ''/'' \<notin> set tok"
proof -
  have "CHR ''/'' \<notin> set (takeWhile (\<lambda>c. c \<noteq> CHR ''/'') s)" for s :: string
    using set_takeWhileD by fastforce
  moreover obtain s where "p = ''/NMC/'' @ takeWhile (\<lambda>c. c \<noteq> CHR ''/'') s"
    using assms by (auto simp: apc_session_def auth_path_def Let_def split: if_split_asm sum.split_asm)
  ultimately show ?thesis by blast
qed

lemma apc_path:
  assumes "fst (apc_CreateWebSession env host port user pw calls) = Inr c"
  shows "\<exists>tok. extra_of c ''nmc_path'' = ''/NMC/'' @ tok \<and> CHR ''/'' \<notin> set tok"
proof -
  obtain k where "apc_CreateWebSession env host port user pw calls = (Inr c, k)" using assms by (metis prod.collapse)
  then obtain pre r where r: "apc_session env pre r = Inr (extra_of c ''nmc_path'')"
    by (auto simp: apc_CreateWebSession_def apc_login_def and_then_Inr apc_creds_def extra_of_def Let_def split: if_split_asm)
  then show ?thesis by (rule apc_session_path)
qed

lemma nano_token:
  assumes "fst (nano_CreateWebSession env host port user pw calls) = Inr c"
  shows "bc_SessionCookie c \<noteq> ''''"
proof -
  obtain k where "nano_CreateWebSession env host port user pw calls = (Inr c, k)" using assms by (metis prod.collapse)
  then obtain r where "nano_session env r = Inr (bc_SessionCookie c)"
    by (auto simp: nano_CreateWebSession_def nano_login_def and_then_Inr)
  then show ?thesis by (auto simp: nano_session_def split: sum.split_asm if_split_asm)
qed

interpretation bmc: authenticator "CreateWebSession env b host port user pw" "bmc_Logout env b host port" "ends_call b host port"
proof
  show "\<exists>x. snd (CreateWebSession env b host port user pw calls) = calls @ x" for calls
    using extends_CreateWebSession by (simp add: extends_def)
  show "snd (bmc_Logout env b host port c calls') = calls' @ [ends_call b host port c]"
    if "fst (CreateWebSession env b host port user pw calls) = Inr c" for c calls calls'
    using that apc_path[of env host port user pw calls c] nano_token[of env host port user pw calls c]
    by (cases b) (auto simp: megarac_Logout_def idrac8_Logout_def idrac9_Logout_def apc_Logout_def nano_Logout_def)
qed

text \<open>C10: the sessions that the server opens on a BMC do not pile up, whatever the BMC answers and whatever board it has: after any
  number of renewals every session that a login gave, except the one that is held, has been ended by a logout of its own.\<close>

theorem renewed_sessions_ended:
  "case renewals (CreateWebSession env b host port user pw) (bmc_Logout env b host port) n of (held, calls, got) \<Rightarrow>
     \<exists>ended. got = ended @ (case held of None \<Rightarrow> [] | Some c \<Rightarrow> [c]) \<and> mset (map (ends_call b host port) ended) \<subseteq># mset calls"
  using bmc.renewals_inv by (auto split: prod.split)

end
