(* ===== verification/Http.thy ===== *)
theory Http
  imports Sessions Oidc Status
begin

text \<open>
  The HTTP layer: the middleware of \<open>src/internal/middleware\<close> and the routes of \<open>src/cmd/server/main.go\<close>.

  A route is a pattern of \<open>http.ServeMux\<close> with what wraps its handler; a handler is the name of the method. The multiplexer is modelled
  with its rules for registration (two patterns that conflict panic) and for dispatch, on paths without percent signs. The token
  bucket of \<open>golang.org/x/time/rate\<close> is a parameter: \<open>new\<close> makes a limiter from an interval and a burst, \<open>allow\<close> asks it at a time.
\<close>

section \<open>CORS\<close>

definition cors_origin :: "string list \<Rightarrow> string \<Rightarrow> string option" where
  "cors_origin origins origin =
     (let allowed = map trim_space origins
      in if ''*'' \<in> set allowed then Some ''*''
         else if origin \<noteq> '''' \<and> origin \<in> set allowed then Some origin
         else None)"

definition cors_headers :: "string list \<Rightarrow> string \<Rightarrow> (string \<times> string) list" where
  "cors_headers origins origin =
     (case cors_origin origins origin of
        None \<Rightarrow> []
      | Some ov \<Rightarrow> (''Access-Control-Allow-Origin'', ov) # (if ''*'' \<in> set (map trim_space origins) then [] else [(''Vary'', ''Origin'')]))
     @ [(''Access-Control-Allow-Methods'', ''GET, POST, PUT, PATCH, DELETE, OPTIONS''),
        (''Access-Control-Allow-Headers'', ''Content-Type, Authorization'')]"

section \<open>Rate limits\<close>

record 'l ipLimiter =
  il_limiter :: 'l
  il_lastSeen :: int

type_synonym 'l limiters = "string \<rightharpoonup> 'l ipLimiter"

text \<open>The limiter of an address, made when there is none, with the time it is asked at. \<open>time.Minute / time.Duration(rpm)\<close> panics for 0.\<close>

definition getLimiter :: "(int \<Rightarrow> int \<Rightarrow> 'l) \<Rightarrow> int \<Rightarrow> int \<Rightarrow> string \<Rightarrow> 'l limiters \<Rightarrow> 'l option" where
  "getLimiter new rpm now ip lims =
     (case lims ip of
        Some l \<Rightarrow> Some (il_limiter l)
      | None \<Rightarrow> if rpm = 0 then None else Some (new (60000000000 div rpm) (max 1 (rpm div 4))))"

definition rate_request ::
  "(int \<Rightarrow> int \<Rightarrow> 'l) \<Rightarrow> (int \<Rightarrow> 'l \<Rightarrow> bool \<times> 'l) \<Rightarrow> int \<Rightarrow> int \<Rightarrow> string \<Rightarrow> 'l limiters \<Rightarrow> (bool \<times> 'l limiters) option" where
  "rate_request new allow rpm now ip lims = do {
     l \<leftarrow> getLimiter new rpm now ip lims;
     Some (case allow now l of (ok, l) \<Rightarrow> (ok, lims(ip \<mapsto> \<lparr>il_limiter = l, il_lastSeen = now\<rparr>)))
   }"

definition rate_cleanup :: "int \<Rightarrow> 'l limiters \<Rightarrow> 'l limiters" where
  "rate_cleanup now lims =
     (\<lambda>ip. case lims ip of None \<Rightarrow> None | Some l \<Rightarrow> if now - il_lastSeen l > 600000000000 then None else Some l)"

text \<open>Requests and cleanups over time, with the answers\<close>

datatype limit_event = LRequest int string | LCleanup int

fun event_time :: "limit_event \<Rightarrow> int" where
  "event_time (LRequest t ip) = t"
| "event_time (LCleanup t) = t"

fun limit_step ::
  "(int \<Rightarrow> int \<Rightarrow> 'l) \<Rightarrow> (int \<Rightarrow> 'l \<Rightarrow> bool \<times> 'l) \<Rightarrow> int \<Rightarrow> limit_event \<Rightarrow> (string \<times> bool) list \<times> 'l limiters
     \<Rightarrow> ((string \<times> bool) list \<times> 'l limiters) option" where
  "limit_step new allow rpm (LRequest t ip) (ans, lims) = do {
     (ok, lims) \<leftarrow> rate_request new allow rpm t ip lims;
     Some (ans @ [(ip, ok)], lims)
   }"
| "limit_step new allow rpm (LCleanup t) (ans, lims) = Some (ans, rate_cleanup t lims)"

text \<open>The specification: one bucket for one address, asked at the given times.\<close>

fun bucket :: "(int \<Rightarrow> 'l \<Rightarrow> bool \<times> 'l) \<Rightarrow> int list \<Rightarrow> 'l \<Rightarrow> bool list \<times> 'l" where
  "bucket allow [] l = ([], l)"
| "bucket allow (t # ts) l = (case allow t l of (ok, l) \<Rightarrow> (case bucket allow ts l of (oks, l) \<Rightarrow> (ok # oks, l)))"

definition times_of :: "string \<Rightarrow> limit_event list \<Rightarrow> int list" where
  "times_of ip evs = List.map_filter (\<lambda>e. case e of LRequest t i \<Rightarrow> if i = ip then Some t else None | LCleanup _ \<Rightarrow> None) evs"

definition answers_of :: "string \<Rightarrow> (string \<times> bool) list \<Rightarrow> bool list" where
  "answers_of ip ans = map snd (filter (\<lambda>a. fst a = ip) ans)"

lemma bucket_append:
  "bucket allow (ts @ us) l = (case bucket allow ts l of (oks, l) \<Rightarrow> (case bucket allow us l of (oks', l) \<Rightarrow> (oks @ oks', l)))"
  by (induction ts arbitrary: l) (auto split: prod.split)

lemma times_of_append: "times_of ip (evs @ [e]) = times_of ip evs @ (case e of LRequest t i \<Rightarrow> if i = ip then [t] else [] | LCleanup _ \<Rightarrow> [])"
  by (simp add: times_of_def map_filter_def split: limit_event.split)

lemma times_of_simps [simp]:
  "times_of ip [] = []" "times_of ip (LCleanup t # evs) = times_of ip evs"
  "times_of ip (LRequest t i # evs) = (if i = ip then [t] else []) @ times_of ip evs"
  by (simp_all add: times_of_def map_filter_def)

lemma times_of_sub: "set (times_of ip evs) \<subseteq> set (map event_time evs)"
proof (induction evs)
  case (Cons e evs)
  then show ?case by (cases e) auto
qed simp

lemma times_before:
  assumes "sorted (map event_time (evs @ [e]))" "times_of ip evs \<noteq> []"
  shows "List.last (times_of ip evs) \<le> event_time e" "sorted (times_of ip evs)"
proof -
  note sub = times_of_sub
  then show "List.last (times_of ip evs) \<le> event_time e" using assms(1) last_in_set[OF assms(2)] by (fastforce simp: sorted_append)
  have "sorted (map event_time evs) \<Longrightarrow> sorted (times_of ip evs)"
  proof (induction evs rule: rev_induct)
    case (snoc x xs)
    have "set (times_of ip xs) \<subseteq> set (map event_time xs)" by (rule times_of_sub)
    then show ?case using snoc by (cases x) (auto simp: times_of_append sorted_append)
  qed (simp add: times_of_def map_filter_def)
  then show "sorted (times_of ip evs)" using assms(1) by (simp add: sorted_append)
qed

text \<open>The bucket is full when nobody has asked it for ten minutes.\<close>

definition full_when_idle :: "(int \<Rightarrow> 'l \<Rightarrow> bool \<times> 'l) \<Rightarrow> 'l \<Rightarrow> bool" where
  "full_when_idle allow fresh \<longleftrightarrow>
     (\<forall>ts t. ts \<noteq> [] \<longrightarrow> sorted ts \<longrightarrow> t - List.last ts > 600000000000 \<longrightarrow> allow t (snd (bucket allow ts fresh)) = allow t fresh)"

lemma foldM_snoc: "foldM f (xs @ [x]) s = Option.bind (foldM f xs s) (f x)"
  by (induction xs arbitrary: s) (auto simp: bind_eq_None_conv split: Option.bind_split)

text \<open>What the map of limiters says of one address: its bucket, or nothing when it was last seen long ago.\<close>

definition bucket_inv ::
  "(int \<Rightarrow> 'l \<Rightarrow> bool \<times> 'l) \<Rightarrow> 'l \<Rightarrow> string \<Rightarrow> limit_event list \<Rightarrow> (string \<times> bool) list \<times> 'l limiters \<Rightarrow> bool" where
  "bucket_inv allow fresh ip evs st \<longleftrightarrow>
     answers_of ip (fst st) = fst (bucket allow (times_of ip evs) fresh)
     \<and> (case snd st ip of
          None \<Rightarrow> times_of ip evs = [] \<or> (\<exists>t\<in>set (map event_time evs). t - List.last (times_of ip evs) > 600000000000)
        | Some l \<Rightarrow> times_of ip evs \<noteq> [] \<and> il_lastSeen l = List.last (times_of ip evs)
            \<and> il_limiter l = snd (bucket allow (times_of ip evs) fresh))"

lemma bucket_inv_step:
  assumes inv: "bucket_inv allow fresh ip evs (ans, lims)" and rpm: "0 < rpm"
    and fresh: "fresh = new (60000000000 div rpm) (max 1 (rpm div 4))"
    and law: "full_when_idle allow fresh"
    and ord: "sorted (map event_time (evs @ [e]))"
  shows "\<exists>st. limit_step new allow rpm e (ans, lims) = Some st \<and> bucket_inv allow fresh ip (evs @ [e]) st"
proof (cases e)
  case (LCleanup t)
  have ord': "event_time x \<le> t" if "x \<in> set evs" for x using ord LCleanup that by (auto simp: sorted_append)
  show ?thesis
  proof (cases "lims ip")
    case None
    then show ?thesis using inv LCleanup by (auto simp: bucket_inv_def times_of_append rate_cleanup_def)
  next
    case (Some l)
    then show ?thesis using inv LCleanup by (auto simp: bucket_inv_def times_of_append rate_cleanup_def)
  qed
next
  case (LRequest t i)
  obtain l where l: "getLimiter new rpm t i lims = Some l" using rpm by (cases "lims i") (auto simp: getLimiter_def)
  obtain ok l' where a: "allow t l = (ok, l')" by force
  have st: "limit_step new allow rpm e (ans, lims) = Some (ans @ [(i, ok)], lims(i \<mapsto> \<lparr>il_limiter = l', il_lastSeen = t\<rparr>))"
    by (simp add: LRequest rate_request_def l a)
  show ?thesis
  proof (cases "i = ip")
    case False
    then show ?thesis using inv st LRequest by (auto simp: bucket_inv_def times_of_append answers_of_def split: option.split)
  next
    case True
    have "allow t (snd (bucket allow (times_of ip evs) fresh)) = (ok, l')"
    proof (cases "lims ip")
      case (Some x)
      then show ?thesis using inv l a True by (simp add: bucket_inv_def getLimiter_def)
    next
      case None
      then have f: "l = fresh" using l True rpm fresh by (simp add: getLimiter_def)
      show ?thesis
      proof (cases "times_of ip evs = []")
        case True
        then show ?thesis using a f by simp
      next
        case ne: False
        then obtain x where x: "x \<in> set evs" "event_time x - List.last (times_of ip evs) > 600000000000"
          using inv None by (auto simp: bucket_inv_def)
        have "event_time x \<le> t" using ord LRequest x(1) by (auto simp: sorted_append)
        then have "allow t (snd (bucket allow (times_of ip evs) fresh)) = allow t fresh"
          using x(2) times_before(2)[OF ord ne] law ne unfolding full_when_idle_def by fastforce
        then show ?thesis using a f by simp
      qed
    qed
    then show ?thesis using inv st True LRequest
      by (auto simp: bucket_inv_def times_of_append answers_of_def bucket_append split: prod.split)
  qed
qed

text \<open>C35: the rate limiter gives every address a bucket of its own: the answers to the requests of an address are those of one bucket
  asked at the times of these requests, whatever other addresses do. That the limiters of addresses that were quiet for ten minutes are
  dropped changes no answer, as long as a bucket that nobody asked for ten minutes is as good as new. For a positive number of
  requests per minute no request panics.\<close>

theorem limits_per_address:
  assumes "0 < rpm" and fresh: "fresh = new (60000000000 div rpm) (max 1 (rpm div 4))"
    and law: "full_when_idle allow fresh"
    and "sorted (map event_time evs)"
  shows "\<exists>ans lims. foldM (limit_step new allow rpm) evs ([], Map.empty) = Some (ans, lims)
     \<and> answers_of ip ans = fst (bucket allow (times_of ip evs) fresh)"
proof -
  have "\<exists>st. foldM (limit_step new allow rpm) evs ([], Map.empty) = Some st \<and> bucket_inv allow fresh ip evs st"
    using assms(4)
  proof (induction evs rule: rev_induct)
    case Nil
    then show ?case by (simp add: bucket_inv_def answers_of_def times_of_def map_filter_def)
  next
    case (snoc e evs)
    then obtain ans lims where "foldM (limit_step new allow rpm) evs ([], Map.empty) = Some (ans, lims)"
      "bucket_inv allow fresh ip evs (ans, lims)" by (auto simp: sorted_append)
    then show ?case using bucket_inv_step[where new = new and allow = allow, OF _ assms(1) fresh law snoc.prems] by (simp add: foldM_snoc)
  qed
  then show ?thesis by (auto simp: bucket_inv_def)
qed

text \<open>A token bucket over integers, measured in nanoseconds: one request costs the interval.\<close>

type_synonym token_bucket = "int \<times> int \<times> (int \<times> int) option"

definition bucket_new :: "int \<Rightarrow> int \<Rightarrow> token_bucket" where
  "bucket_new interval burst = (interval, interval * burst, None)"

fun bucket_allow :: "int \<Rightarrow> token_bucket \<Rightarrow> bool \<times> token_bucket" where
  "bucket_allow t (i, cap, level) =
     (let tokens = (case level of None \<Rightarrow> cap | Some (n, t0) \<Rightarrow> min cap (n + (t - t0)))
      in if i \<le> tokens then (True, i, cap, Some (tokens - i, t)) else (False, i, cap, Some (tokens, t)))"

lemma bucket_level:
  assumes "0 \<le> cap" "ts \<noteq> []" "sorted ts"
  shows "\<exists>n. 0 \<le> n \<and> snd (bucket bucket_allow ts (i, cap, None)) = (i, cap, Some (n, List.last ts))"
  using assms(2,3)
proof (induction ts rule: rev_induct)
  case (snoc t ts)
  show ?case
  proof (cases "ts = []")
    case True
    then show ?thesis using assms(1) by (simp add: Let_def)
  next
    case False
    then obtain n where n: "0 \<le> n" "snd (bucket bucket_allow ts (i, cap, None)) = (i, cap, Some (n, List.last ts))"
      using snoc by (auto simp: sorted_append)
    have "List.last ts \<le> t" using snoc.prems(2) False by (simp add: sorted_append)
    then show ?thesis using n assms(1) by (auto simp: bucket_append Let_def split: prod.split)
  qed
qed simp

lemma bucket_full_when_idle: "full_when_idle bucket_allow (bucket_new 1000000000 15)"
proof -
  have "bucket_allow t (snd (bucket bucket_allow ts (1000000000, 15000000000, None))) = bucket_allow t (1000000000, 15000000000, None)"
    if ne: "ts \<noteq> []" and so: "sorted ts" and late: "t - List.last ts > 600000000000" for ts t
  proof -
    obtain n where "0 \<le> n" "snd (bucket bucket_allow ts (1000000000, 15000000000, None)) = (1000000000, 15000000000, Some (n, List.last ts))"
      using bucket_level[of 15000000000 ts 1000000000] ne so by auto
    then show ?thesis using late by (simp add: Let_def)
  qed
  then show ?thesis by (simp add: full_when_idle_def bucket_new_def)
qed

theorem limits_per_address_witness:
  "\<exists>ans lims. foldM (limit_step bucket_new bucket_allow 60) [LRequest 0 ''a'', LRequest 5 ''b'', LCleanup 700000000000, LRequest 700000000001 ''a''] ([], Map.empty)
      = Some (ans, lims) \<and> answers_of ''a'' ans = [True, True]"
proof -
  have "fst (bucket bucket_allow [0, 700000000001] (bucket_new 1000000000 15)) = [True, True]"
    by (simp add: bucket_new_def Let_def)
  then show ?thesis
    using limits_per_address[of 60 "bucket_new 1000000000 15" bucket_new bucket_allow
        "[LRequest 0 ''a'', LRequest 5 ''b'', LCleanup 700000000000, LRequest 700000000001 ''a'']" "''a''"]
    by (simp add: bucket_full_when_idle del: limit_step.simps foldM.simps bucket.simps)
qed

section \<open>Metrics\<close>

text \<open>\<open>normalizePath\<close>: the label of a path\<close>

definition normalizePath :: "string \<Rightarrow> string" where
  "normalizePath path =
     (if length path > 15 \<and> take 14 path = ''/api/sessions/'' then ''/api/sessions/{id}''
      else if length path > 19 \<and> take 19 path = ''/api/ipmi-session/'' then ''/api/ipmi-session/{name}''
      else if length path > 8 \<and> take 8 path = ''/ws/kvm/'' then ''/ws/kvm/{id}''
      else if length path > 7 \<and> take 7 path = ''/__bmc/'' then ''/__bmc/{name}/...''
      else path)"

text \<open>The rule for IPMI sessions compares 19 characters with a text of 18 and never applies: every server name is a label of its own. The
  other rules apply to every id of two characters or more, and to every request to a BMC.\<close>

theorem normalizePath_rules:
  "normalizePath (''/api/ipmi-session/'' @ name) = ''/api/ipmi-session/'' @ name"
  "1 < length sid \<Longrightarrow> normalizePath (''/api/sessions/'' @ sid) = ''/api/sessions/{id}''"
  "sid \<noteq> '''' \<Longrightarrow> normalizePath (''/ws/kvm/'' @ sid) = ''/ws/kvm/{id}''"
  "sid \<noteq> '''' \<Longrightarrow> normalizePath (''/__bmc/'' @ sid) = ''/__bmc/{name}/...''"
proof -
  have "take 19 p \<noteq> ''/api/ipmi-session/''" if "19 < length p" for p
  proof
    assume e: "take 19 p = ''/api/ipmi-session/''"
    have "length (take 19 p) = 19" using that by simp
    then show False unfolding e by simp
  qed
  then show "normalizePath (''/api/ipmi-session/'' @ name) = ''/api/ipmi-session/'' @ name" by (auto simp: normalizePath_def)
  show "1 < length sid \<Longrightarrow> normalizePath (''/api/sessions/'' @ sid) = ''/api/sessions/{id}''" by (simp add: normalizePath_def)
  show "sid \<noteq> '''' \<Longrightarrow> normalizePath (''/ws/kvm/'' @ sid) = ''/ws/kvm/{id}''" by (simp add: normalizePath_def)
  show "sid \<noteq> '''' \<Longrightarrow> normalizePath (''/__bmc/'' @ sid) = ''/__bmc/{name}/...''" by (simp add: normalizePath_def)
qed

end
