(* ===== verification/Mux.thy ===== *)
theory Mux
  imports Http Config
begin

text \<open>
  The multiplexer (\<open>http.ServeMux\<close>) and the routes of \<open>src/cmd/server/main.go\<close>. A route is a pattern with what wraps its handler; a
  handler is the name of the method. Registration of a pattern that conflicts with one before it panics; dispatch is on paths
  without percent signs, for methods other than \<open>CONNECT\<close>.
\<close>

section \<open>Patterns\<close>

text \<open>A segment of a pattern: text, a wildcard \<open>{name}\<close>, or the rest of the path behind a slash at the end.\<close>

datatype segment = Lit string | Wild | Multi

datatype wrap = Plain | RateLimited | BmcRateLimited | Protected

record route =
  rt_method :: string
  rt_segments :: "segment list"
  rt_wrap :: wrap
  rt_handler :: string

fun pattern_segments :: "string list \<Rightarrow> segment list" where
  "pattern_segments [] = []"
| "pattern_segments [w] = (if w = '''' then [Multi] else if w ! 0 = CHR 0x7B then [Wild] else [Lit w])"
| "pattern_segments (w # ws) = (if w \<noteq> '''' \<and> w ! 0 = CHR 0x7B then Wild else Lit w) # pattern_segments ws"

text \<open>A pattern is a method and a space, or nothing, and a path.\<close>

definition route_of :: "string \<Rightarrow> wrap \<Rightarrow> string \<Rightarrow> route" where
  "route_of pattern w h =
     (let m = takeWhile (\<lambda>c. c \<noteq> CHR '' '') pattern;
          (method, path) = (if m = pattern then ('''', pattern) else (m, drop (length m + 1) pattern))
      in \<lparr>rt_method = method, rt_segments = pattern_segments (tl (split_slash path)), rt_wrap = w, rt_handler = h\<rparr>)"

section \<open>Registration\<close>

datatype relationship = Equivalent | MoreGeneral | MoreSpecific | Disjoint | Overlaps

fun combineRelationships :: "relationship \<Rightarrow> relationship \<Rightarrow> relationship" where
  "combineRelationships Equivalent r = r"
| "combineRelationships Disjoint r = Disjoint"
| "combineRelationships Overlaps r = (if r = Disjoint then Disjoint else Overlaps)"
| "combineRelationships MoreGeneral r = (if r = Equivalent then MoreGeneral else if r = MoreSpecific then Overlaps else r)"
| "combineRelationships MoreSpecific r = (if r = Equivalent then MoreSpecific else if r = MoreGeneral then Overlaps else r)"

fun compareSegments :: "segment \<Rightarrow> segment \<Rightarrow> relationship" where
  "compareSegments Multi Multi = Equivalent"
| "compareSegments Multi _ = MoreGeneral"
| "compareSegments _ Multi = MoreSpecific"
| "compareSegments Wild Wild = Equivalent"
| "compareSegments Wild (Lit w) = (if w = ''/'' then Disjoint else MoreGeneral)"
| "compareSegments (Lit w) Wild = (if w = ''/'' then Disjoint else MoreSpecific)"
| "compareSegments (Lit v) (Lit w) = (if v = w then Equivalent else Disjoint)"

definition ends_multi :: "segment list \<Rightarrow> bool" where
  "ends_multi ss \<longleftrightarrow> ss \<noteq> [] \<and> List.last ss = Multi"

definition comparePaths :: "segment list \<Rightarrow> segment list \<Rightarrow> relationship" where
  "comparePaths ss ts =
     (if length ss \<noteq> length ts \<and> \<not> ends_multi ss \<and> \<not> ends_multi ts then Disjoint
      else let rel = fold (\<lambda>(s, t) r. combineRelationships r (compareSegments s t)) (zip ss ts) Equivalent
        in if rel = Disjoint \<or> length ss = length ts then rel
           else if length ss < length ts \<and> ends_multi ss then combineRelationships rel MoreGeneral
           else if length ts < length ss \<and> ends_multi ts then combineRelationships rel MoreSpecific
           else Disjoint)"

definition compareMethods :: "string \<Rightarrow> string \<Rightarrow> relationship" where
  "compareMethods m n =
     (if m = n then Equivalent
      else if m = '''' then MoreGeneral
      else if n = '''' then MoreSpecific
      else if m = ''GET'' \<and> n = ''HEAD'' then MoreGeneral
      else if n = ''GET'' \<and> m = ''HEAD'' then MoreSpecific
      else Disjoint)"

definition comparePathsAndMethods :: "route \<Rightarrow> route \<Rightarrow> relationship" where
  "comparePathsAndMethods p q =
     (let r = compareMethods (rt_method p) (rt_method q)
      in if r = Disjoint then Disjoint else combineRelationships r (comparePaths (rt_segments p) (rt_segments q)))"

definition conflictsWith :: "route \<Rightarrow> route \<Rightarrow> bool" where
  "conflictsWith p q \<longleftrightarrow> comparePathsAndMethods p q \<in> {Equivalent, Overlaps}"

text \<open>\<open>Handle\<close>, which panics when the pattern conflicts with one before it\<close>

definition mux_handle :: "route \<Rightarrow> route list \<Rightarrow> route list option" where
  "mux_handle r rs = (if \<exists>q\<in>set rs. conflictsWith r q then None else Some (rs @ [r]))"

section \<open>Dispatch\<close>

text \<open>The segments of a path; a slash at the end is a segment of its own.\<close>

definition path_segments :: "string \<Rightarrow> string list" where
  "path_segments path =
     (let ws = tl (split_slash path) in if ws = [] then [] else if List.last ws = '''' then butlast ws @ [''/''] else ws)"

definition after_lit :: "string \<Rightarrow> (segment list \<times> route) list \<Rightarrow> (segment list \<times> route) list" where
  "after_lit w rs = List.map_filter (\<lambda>(ss, r). case ss of Lit v # ts \<Rightarrow> if v = w then Some (ts, r) else None | _ \<Rightarrow> None) rs"

definition after_wild :: "(segment list \<times> route) list \<Rightarrow> (segment list \<times> route) list" where
  "after_wild rs = List.map_filter (\<lambda>(ss, r). case ss of Wild # ts \<Rightarrow> Some (ts, r) | _ \<Rightarrow> None) rs"

text \<open>\<open>matchPath\<close>: text before wildcards before the rest of the path\<close>

fun match_path :: "(segment list \<times> route) list \<Rightarrow> string list \<Rightarrow> route option" where
  "match_path rs [] = map_option snd (List.find (\<lambda>(ss, r). ss = []) rs)"
| "match_path rs (w # ws) =
     (case match_path (after_lit w rs) ws of
        Some r \<Rightarrow> Some r
      | None \<Rightarrow>
          (case (if w = ''/'' then None else match_path (after_wild rs) ws) of
             Some r \<Rightarrow> Some r
           | None \<Rightarrow> map_option snd (List.find (\<lambda>(ss, r). ss = [Multi]) rs)))"

definition of_method :: "string \<Rightarrow> route list \<Rightarrow> (segment list \<times> route) list" where
  "of_method m rs = map (\<lambda>r. (rt_segments r, r)) (filter (\<lambda>r. rt_method r = m) rs)"

definition match_route :: "route list \<Rightarrow> string \<Rightarrow> string \<Rightarrow> route option" where
  "match_route rs method path =
     (case match_path (of_method method rs) (path_segments path) of
        Some r \<Rightarrow> Some r
      | None \<Rightarrow>
          (case (if method = ''HEAD'' then match_path (of_method ''GET'' rs) (path_segments path) else None) of
             Some r \<Rightarrow> Some r
           | None \<Rightarrow> match_path (of_method '''' rs) (path_segments path)))"

definition exactMatch :: "route option \<Rightarrow> string \<Rightarrow> bool" where
  "exactMatch n path =
     (case n of
        None \<Rightarrow> False
      | Some r \<Rightarrow> \<not> ends_multi (rt_segments r) \<or>
          (has_suffix ''/'' path \<and> length (rt_segments r) = length (filter (\<lambda>c. c = CHR ''/'') path)))"

definition cleanPath :: "string \<Rightarrow> string" where
  "cleanPath p =
     (if p = '''' then ''/''
      else let p = (if p ! 0 \<noteq> CHR ''/'' then ''/'' @ p else p); np = path_clean p
        in if has_suffix ''/'' p \<and> np \<noteq> ''/'' then np @ ''/'' else np)"

definition other_method :: "route list \<Rightarrow> string \<Rightarrow> bool" where
  "other_method rs path \<longleftrightarrow>
     (\<exists>m\<in>set (map rt_method rs). m \<noteq> '''' \<and> (match_path (of_method m rs) (path_segments path) \<noteq> None
        \<or> (\<not> has_suffix ''/'' path \<and> match_path (of_method m rs) (path_segments (path @ ''/'')) \<noteq> None)))"

datatype found = Redirected string | NoRoute nat | Found route

definition findHandler :: "route list \<Rightarrow> string \<Rightarrow> string \<Rightarrow> found" where
  "findHandler rs method p =
     (let path = cleanPath p; n = match_route rs method path
      in if \<not> exactMatch n path \<and> \<not> has_suffix ''/'' path \<and> exactMatch (match_route rs method (path @ ''/'')) (path @ ''/'')
         then Redirected (path @ ''/'')
         else if path \<noteq> p then Redirected path
         else case n of
           Some r \<Rightarrow> Found r
         | None \<Rightarrow> NoRoute (if other_method rs path then 405 else 404))"

section \<open>The routes\<close>

text \<open>\<open>registerAPIRoutes\<close>\<close>

definition api_routes :: "route list" where
  "api_routes = map (\<lambda>(p, w, h). route_of p w h)
     [(''GET /api/servers'', Plain, ''ListServers''),
      (''POST /api/sessions'', RateLimited, ''CreateSession''),
      (''GET /api/sessions'', Plain, ''ListSessions''),
      (''GET /api/sessions/{id}'', Plain, ''GetSession''),
      (''PATCH /api/sessions/{id}/keepalive'', Plain, ''KeepAliveSession''),
      (''DELETE /api/sessions/{id}'', RateLimited, ''DeleteSession''),
      (''POST /api/ipmi-session/{name}'', RateLimited, ''CreateIPMISession''),
      (''GET /api/server-status'', Plain, ''GetServerStatuses''),
      (''GET /api/audit-log'', Plain, ''GetAuditLog''),
      (''POST /api/sessions/{id}/power'', RateLimited, ''KVMPowerControl''),
      (''POST /api/sessions/{id}/display-lock'', RateLimited, ''KVMDisplayLock''),
      (''POST /api/sessions/{id}/reset-video'', RateLimited, ''KVMResetVideo''),
      (''POST /api/sessions/{id}/mouse-mode'', RateLimited, ''KVMMouseMode''),
      (''POST /api/sessions/{id}/keyboard-layout'', RateLimited, ''KVMKeyboardLayout''),
      (''POST /api/sessions/{id}/ipmi'', RateLimited, ''KVMIPMICommand''),
      (''GET /api/sessions/{id}/screenshot'', Plain, ''KVMScreenshot''),
      (''POST /api/sessions/{id}/virtual-media/mount'', RateLimited, ''VirtualMediaMount''),
      (''POST /api/sessions/{id}/virtual-media/eject'', RateLimited, ''VirtualMediaEject''),
      (''GET /api/sessions/{id}/virtual-media'', Plain, ''VirtualMediaStatus''),
      (''/api/ws'', Plain, ''HandleNanoKVMWebSocket''),
      (''/api/stream/h264'', Plain, ''HandleNanoKVMWebSocket''),
      (''GET /ws/kvm/{id}'', Plain, ''HandleKVMWebSocket''),
      (''/__bmc/'', BmcRateLimited, ''HandleBMCProxy''),
      (''GET /api/isos'', Plain, ''ListISOs''),
      (''POST /api/isos'', RateLimited, ''UploadISO''),
      (''DELETE /api/isos/{name}'', RateLimited, ''DeleteISO''),
      (''GET /api/iso-file/{name}'', Plain, ''DownloadISO''),
      (''POST /api/iso-downloads'', RateLimited, ''DownloadISOFromURL''),
      (''GET /api/iso-downloads'', Plain, ''ListISODownloads''),
      (''GET /api/iso-downloads/{id}'', Plain, ''GetISODownload''),
      (''POST /api/sessions/{id}/virtual-media/mount-local'', RateLimited, ''MountLocalISO''),
      (''POST /api/sessions/{id}/viewers/request-control'', RateLimited, ''RequestViewerControl''),
      (''POST /api/sessions/{id}/viewers/release-control'', RateLimited, ''ReleaseViewerControl''),
      (''POST /api/sessions/{id}/viewers/accept-control'', RateLimited, ''AcceptControlRequest''),
      (''POST /api/sessions/{id}/viewers/deny-control'', RateLimited, ''DenyControlRequest'')]"

text \<open>The routes of the server before and after those of the API, and the frontend: its files if there are any.\<close>

definition open_routes :: "bool \<Rightarrow> bool \<Rightarrow> route list" where
  "open_routes metrics oidc = map (\<lambda>(p, w, h). route_of p w h)
     ((if metrics then [(''GET /metrics'', Plain, ''promhttp'')] else [])
      @ [(''GET /healthz'', Plain, ''healthz''), (''GET /readyz'', Plain, ''readyz'')]
      @ (if oidc then [(''GET /auth/login'', RateLimited, ''HandleLogin''), (''GET /auth/callback'', RateLimited, ''HandleCallback''),
           (''GET /auth/logout'', Plain, ''HandleLogout'')] else [])
      @ [(''GET /auth/me'', Plain, ''HandleMe'')])"

definition protected_routes :: "route list" where
  "protected_routes = map (\<lambda>p. route_of p Protected ''Middleware'') [''/api/'', ''/ws/'', ''/__bmc/'']"

definition iso_route :: route where
  "iso_route = route_of ''/iso/'' Plain ''FileServer''"

definition frontend_route :: "bool \<Rightarrow> route" where
  "frontend_route web = (if web then route_of ''/'' Plain ''spaHandler'' else route_of ''GET /'' Plain ''status'')"

definition main_routes :: "bool \<Rightarrow> bool \<Rightarrow> bool \<Rightarrow> route list" where
  "main_routes metrics oidc web =
     open_routes metrics oidc @ (if oidc then protected_routes else api_routes) @ [iso_route, frontend_route web]"

text \<open>What \<open>main\<close> registers: the multiplexer of the server and that of the API behind the login. \<open>web\<close> says whether the directory
  of the frontend exists.\<close>

definition server_mux :: "AppConfig \<Rightarrow> bool \<Rightarrow> (route list \<times> route list) option" where
  "server_mux cfg web = do {
     let metrics = st_MetricsEnabled (ac_Settings cfg);
     let oidc = oc_Enabled (ac_OIDC cfg);
     api \<leftarrow> (if oidc then foldM mux_handle api_routes [] else Some []);
     main \<leftarrow> foldM mux_handle (main_routes metrics oidc web) [];
     Some (main, api)
   }"

lemma register_api: "foldM mux_handle api_routes [] = Some api_routes"
  by code_simp

lemma register_main: "foldM mux_handle (main_routes metrics oidc web) [] = (if web then Some (main_routes metrics oidc True) else None)"
proof -
  have "\<forall>m\<in>{True, False}. \<forall>a\<in>{True, False}. \<forall>w\<in>{True, False}.
      foldM mux_handle (main_routes m a w) [] = (if w then Some (main_routes m a True) else None)"
    by code_simp
  then show ?thesis by (cases metrics; cases oidc; cases web) simp_all
qed

text \<open>C12: the server starts exactly when there is a frontend directory: then all patterns are registered, and none conflicts with another.
  Without the directory, where the code means to serve the API alone, the pattern \<open>GET /\<close> conflicts with \<open>/iso/\<close> (it is more special
  in its method and more general in its path) and the registration panics.\<close>

theorem registration_needs_frontend:
  "server_mux cfg web =
     (if web then Some (main_routes (st_MetricsEnabled (ac_Settings cfg)) (oc_Enabled (ac_OIDC cfg)) True,
        if oc_Enabled (ac_OIDC cfg) then api_routes else [])
      else None)"
  by (simp add: server_mux_def register_api register_main Let_def)

section \<open>What dispatch finds\<close>

text \<open>A pattern matches a path.\<close>

fun seg_match :: "segment list \<Rightarrow> string list \<Rightarrow> bool" where
  "seg_match [] [] = True"
| "seg_match [Multi] (w # ws) = True"
| "seg_match (Lit v # ss) (w # ws) = (v = w \<and> seg_match ss ws)"
| "seg_match (Wild # ss) (w # ws) = (w \<noteq> ''/'' \<and> seg_match ss ws)"
| "seg_match _ _ = False"

lemma in_after_lit: "(ss, r) \<in> set (after_lit w rs) \<longleftrightarrow> (Lit w # ss, r) \<in> set rs"
  by (force simp: after_lit_def map_filter_def split: list.splits segment.splits if_splits)

lemma in_after_wild: "(ss, r) \<in> set (after_wild rs) \<longleftrightarrow> (Wild # ss, r) \<in> set rs"
  by (force simp: after_wild_def map_filter_def split: list.splits segment.splits)

lemma find_snd_Some: "map_option snd (List.find P rs) = Some r \<Longrightarrow> \<exists>ss. (ss, r) \<in> set rs \<and> P (ss, r)"
  by (auto simp: find_Some_iff) (metis nth_mem)

lemma match_path_sound: "match_path rs ws = Some r \<Longrightarrow> \<exists>ss. (ss, r) \<in> set rs \<and> seg_match ss ws"
proof (induction rs ws rule: match_path.induct)
  case (1 rs)
  then show ?case using find_snd_Some by fastforce
next
  case (2 rs w ws)
  consider "match_path (after_lit w rs) ws = Some r" | "w \<noteq> ''/''" "match_path (after_wild rs) ws = Some r"
    | "map_option snd (List.find (\<lambda>(ss, r). ss = [Multi]) rs) = Some r"
    using "2.prems" by (auto split: option.split_asm if_split_asm)
  then show ?case
  proof cases
    case 1
    then obtain ss where "(ss, r) \<in> set (after_lit w rs)" "seg_match ss ws" using "2.IH"(1) by blast
    then show ?thesis using in_after_lit by (intro exI[of _ "Lit w # ss"]) simp
  next
    case 2
    have "match_path (after_lit w rs) ws = Some r \<or> match_path (after_lit w rs) ws = None" 
      using "2.prems" by (auto split: option.split_asm)
    then obtain ss where "(ss, r) \<in> set (after_wild rs) \<and> seg_match ss ws \<or> (ss, r) \<in> set (after_lit w rs) \<and> seg_match ss ws"
      using "2.IH" 2 by blast
    then show ?thesis using in_after_wild in_after_lit 2(1) by (metis seg_match.simps(3,4))
  next
    case 3
    then obtain ss where "(ss, r) \<in> set rs" "ss = [Multi]" using find_snd_Some[OF 3] by auto
    then show ?thesis by (intro exI[of _ "[Multi]"]) simp
  qed
qed

lemma match_path_complete: "(ss, r) \<in> set rs \<Longrightarrow> seg_match ss ws \<Longrightarrow> match_path rs ws \<noteq> None"
proof (induction rs ws arbitrary: ss rule: match_path.induct)
  case (1 rs)
  then have "ss = []" by (cases ss rule: list.exhaust) (auto elim: seg_match.elims)
  then show ?case using 1 by (auto simp: find_None_iff)
next
  case (2 rs w ws)
  show ?case
  proof (cases "match_path (after_lit w rs) ws")
    case None
    from "2.prems"(2) consider ts where "ss = Lit w # ts" "seg_match ts ws" | ts where "ss = Wild # ts" "w \<noteq> ''/''" "seg_match ts ws" | "ss = [Multi]"
      by (cases "(ss, w # ws)" rule: seg_match.cases) auto
    then show ?thesis
    proof cases
      case 1
      then show ?thesis using "2.IH"(1)[of ts] "2.prems"(1) in_after_lit None by metis
    next
      case 2
      then have "match_path (after_wild rs) ws \<noteq> None"
        using "2.IH"(2)[OF None 2(2), of ts] "2.prems"(1) in_after_wild by metis
      then show ?thesis using None 2(2) by (auto split: option.split)
    next
      case 3
      then show ?thesis using "2.prems"(1) None by (auto simp: find_None_iff split: option.split)
    qed
  qed simp
qed

lemma in_of_method: "(ss, r) \<in> set (of_method m rs) \<longleftrightarrow> r \<in> set rs \<and> rt_method r = m \<and> ss = rt_segments r"
  by (auto simp: of_method_def)

lemma match_route_sound:
  assumes "match_route rs m path = Some r"
  shows "r \<in> set rs" "seg_match (rt_segments r) (path_segments path)"
    "rt_method r = m \<or> rt_method r = '''' \<or> (m = ''HEAD'' \<and> rt_method r = ''GET'')"
  using assms unfolding match_route_def
  by (auto split: option.split_asm if_split_asm dest!: match_path_sound simp: in_of_method)

section \<open>The two multiplexers\<close>

definition api_heads :: "string list" where
  "api_heads = [''api'', ''ws'', ''__bmc'']"

definition head_in :: "string list \<Rightarrow> segment list \<Rightarrow> bool" where
  "head_in hs ss = (case ss of Lit v # _ \<Rightarrow> v \<in> set hs | _ \<Rightarrow> False)"

lemma api_shape: "r \<in> set api_routes \<Longrightarrow> head_in api_heads (rt_segments r) \<and> 2 \<le> length (rt_segments r)"
proof -
  have "list_all (\<lambda>r. head_in api_heads (rt_segments r) \<and> 2 \<le> length (rt_segments r)) api_routes" by code_simp
  then show "r \<in> set api_routes \<Longrightarrow> ?thesis" by (simp add: list_all_iff)
qed

lemma open_shape: "r \<in> set (iso_route # open_routes m a) \<Longrightarrow> head_in [''metrics'', ''healthz'', ''readyz'', ''auth'', ''iso''] (rt_segments r)"
proof -
  have "\<forall>m\<in>{True, False}. \<forall>a\<in>{True, False}.
      list_all (\<lambda>r. head_in [''metrics'', ''healthz'', ''readyz'', ''auth'', ''iso''] (rt_segments r)) (iso_route # open_routes m a)"
    by code_simp
  then show "r \<in> set (iso_route # open_routes m a) \<Longrightarrow> ?thesis" by (cases m; cases a) (auto simp: list_all_iff)
qed

lemma after_append: "after_lit w (rs @ qs) = after_lit w rs @ after_lit w qs" "after_wild (rs @ qs) = after_wild rs @ after_wild qs"
  by (simp_all add: after_lit_def after_wild_def map_filter_def)

lemma of_method_append: "of_method m (rs @ qs) = of_method m rs @ of_method m qs"
  by (simp add: of_method_def)

lemma after_lit_none:
  assumes "\<And>r. r \<in> set rs \<Longrightarrow> head_in hs (rt_segments r)" "x \<notin> set hs"
  shows "after_lit x (of_method m rs) = []"
proof (rule ccontr)
  assume "after_lit x (of_method m rs) \<noteq> []"
  then obtain ss r where "(ss, r) \<in> set (after_lit x (of_method m rs))" by (metis list.set_intros(1) neq_Nil_conv surj_pair)
  then have "r \<in> set rs" "rt_segments r = Lit x # ss" by (auto simp: in_after_lit in_of_method)
  then show False using assms by (fastforce simp: head_in_def)
qed

lemma after_wild_none:
  assumes "\<And>r. r \<in> set rs \<Longrightarrow> head_in hs (rt_segments r)"
  shows "after_wild (of_method m rs) = []"
proof (rule ccontr)
  assume "after_wild (of_method m rs) \<noteq> []"
  then obtain ss r where "(ss, r) \<in> set (after_wild (of_method m rs))" by (metis list.set_intros(1) neq_Nil_conv surj_pair)
  then have "r \<in> set rs" "rt_segments r = Wild # ss" by (auto simp: in_after_wild in_of_method)
  then show False using assms by (fastforce simp: head_in_def)
qed

lemma find_multi_none:
  assumes "\<And>r. r \<in> set rs \<Longrightarrow> head_in hs (rt_segments r)"
  shows "List.find (\<lambda>(ss, r). ss = [Multi]) (of_method m rs) = None"
  using assms by (fastforce simp: find_None_iff in_of_method head_in_def)

lemma match_path_nil [simp]: "match_path [] ws = None"
  by (induction "[] :: (segment list \<times> route) list" ws rule: match_path.induct) (simp_all add: after_lit_def after_wild_def map_filter_def)

lemma find_append: "List.find P (xs @ ys) = (case List.find P xs of Some x \<Rightarrow> Some x | None \<Rightarrow> List.find P ys)"
  by (induction xs) simp_all

text \<open>A table of patterns that begin with text, followed by the pattern \<open>/\<close>.\<close>

lemma match_lits:
  assumes "\<And>r. r \<in> set rs \<Longrightarrow> head_in hs (rt_segments r)"
  shows "match_path (of_method m rs) (x # ws) = match_path (after_lit x (of_method m rs)) ws"
  using after_wild_none[OF assms] find_multi_none[OF assms] by (simp split: option.split)

lemma match_frontend:
  assumes "\<And>r. r \<in> set rs \<Longrightarrow> head_in hs (rt_segments r)"
  shows "match_path (of_method m (rs @ [frontend_route True])) (x # ws) =
    (case match_path (of_method m rs) (x # ws) of Some r \<Rightarrow> Some r | None \<Rightarrow> if m = '''' then Some (frontend_route True) else None)"
proof -
  have f: "rt_segments (frontend_route True) = [Multi]" "rt_method (frontend_route True) = ''''" by code_simp+
  have "after_lit x (of_method m [frontend_route True]) = []" "after_wild (of_method m [frontend_route True]) = []"
    by (simp_all add: of_method_def f after_lit_def after_wild_def map_filter_def)
  then show ?thesis
    using after_wild_none[OF assms] find_multi_none[OF assms] match_lits[OF assms]
    by (simp add: of_method_append after_append find_append split: option.split) (auto simp: of_method_def f)
qed

lemma main_shape:
  assumes "r \<in> set (open_routes m a @ (if a then protected_routes else api_routes) @ [iso_route])"
  shows "head_in ([''metrics'', ''healthz'', ''readyz'', ''auth'', ''iso''] @ api_heads) (rt_segments r)"
proof -
  have w: "head_in hs ss \<Longrightarrow> set hs \<subseteq> set ks \<Longrightarrow> head_in ks ss" for hs ks ss by (auto simp: head_in_def split: list.split segment.split)
  have "list_all (\<lambda>r. head_in api_heads (rt_segments r)) protected_routes" by code_simp
  then have p: "q \<in> set protected_routes \<Longrightarrow> head_in api_heads (rt_segments q)" for q by (simp add: list_all_iff)
  consider "r \<in> set (iso_route # open_routes m a)" | "r \<in> set protected_routes" | "r \<in> set api_routes"
    using assms by (auto split: if_split_asm)
  then show ?thesis
  proof cases
    case 1
    show ?thesis by (rule w[OF open_shape[OF 1]]) auto
  next
    case 2
    show ?thesis by (rule w[OF p[OF 2]]) auto
  next
    case 3
    show ?thesis by (rule w[OF conjunct1[OF api_shape[OF 3]]]) auto
  qed
qed

lemma main_tree:
  assumes "x \<in> set api_heads"
  shows "match_path (of_method m (main_routes mt a True)) (x # ws) =
    (case match_path (after_lit x (of_method m (if a then protected_routes else api_routes))) ws of
       Some r \<Rightarrow> Some r | None \<Rightarrow> if m = '''' then Some (frontend_route True) else None)"
proof -
  let ?rs = "open_routes mt a @ (if a then protected_routes else api_routes) @ [iso_route]"
  have o: "after_lit x (of_method m (open_routes mt a)) = []" "after_lit x (of_method m [iso_route]) = []"
    using assms by (auto intro!: after_lit_none[of _ "[''metrics'', ''healthz'', ''readyz'', ''auth'', ''iso'']"] open_shape simp: api_heads_def)
  have "main_routes mt a True = ?rs @ [frontend_route True]" by (simp add: main_routes_def)
  then have "match_path (of_method m (main_routes mt a True)) (x # ws) =
      (case match_path (of_method m ?rs) (x # ws) of Some r \<Rightarrow> Some r | None \<Rightarrow> if m = '''' then Some (frontend_route True) else None)"
    using match_frontend[where rs = ?rs, OF main_shape] by simp
  also have "match_path (of_method m ?rs) (x # ws) = match_path (after_lit x (of_method m ?rs)) ws"
    by (rule match_lits) (rule main_shape)
  finally show ?thesis by (simp add: of_method_append after_append o)
qed

lemma main_api_tree:
  assumes "path_segments path = x # ws" "x \<in> set api_heads"
  shows "match_route (main_routes mt False True) m path =
    (case match_route api_routes m path of Some r \<Rightarrow> Some r | None \<Rightarrow> Some (frontend_route True))"
proof -
  have e: "match_path (of_method k api_routes) (x # ws) = match_path (after_lit x (of_method k api_routes)) ws" for k
    by (rule match_lits) (rule conjunct1[OF api_shape])
  show ?thesis unfolding match_route_def assms(1) main_tree[OF assms(2)] e by (simp split: option.split del: match_path.simps)
qed

lemma main_protected_tree:
  assumes "path_segments path = x # y # ws" "x \<in> set api_heads"
  obtains r where "match_route (main_routes mt True True) m path = Some r" "rt_wrap r = Protected" "length (rt_segments r) = 2" "ends_multi (rt_segments r)"
proof -
  have "\<forall>x\<in>set api_heads. after_lit x (of_method '''' protected_routes) = [([Multi], route_of (''/'' @ x @ ''/'') Protected ''Middleware'')]"
    by code_simp
  then have any: "after_lit x (of_method '''' protected_routes) = [([Multi], route_of (''/'' @ x @ ''/'') Protected ''Middleware'')]"
    using assms(2) by blast
  have "list_all (\<lambda>r. rt_method r = '''') protected_routes" by code_simp
  then have "of_method k protected_routes = []" if "k \<noteq> ''''" for k
    using that by (auto simp: of_method_def list_all_iff filter_empty_conv)
  then have none: "after_lit x (of_method k protected_routes) = []" if "k \<noteq> ''''" for k
    using that by (simp add: after_lit_def map_filter_def)
  have one: "match_path [([Multi], r)] (y # ws) = Some r" for r
    by (simp add: after_lit_def after_wild_def map_filter_def split: option.split)
  have "match_route (main_routes mt True True) m path = Some (route_of (''/'' @ x @ ''/'') Protected ''Middleware'')"
    unfolding match_route_def assms(1) main_tree[OF assms(2)]
    by (cases "m = ''''") (simp_all add: any none one del: match_path.simps)
  moreover have "\<forall>x\<in>set api_heads. let r = route_of (''/'' @ x @ ''/'') Protected ''Middleware''
      in rt_wrap r = Protected \<and> length (rt_segments r) = 2 \<and> ends_multi (rt_segments r)" by code_simp
  ultimately show ?thesis using assms(2) that by (auto simp: Let_def)
qed

lemma length_split_slash: "length (split_slash s) = Suc (length (filter (\<lambda>c. c = CHR ''/'') s))"
  by (induction s) (auto split: list.split)

lemma length_path_segments: "length (path_segments (CHR ''/'' # q)) = length (filter (\<lambda>c. c = CHR ''/'') (CHR ''/'' # q))"
  by (simp add: path_segments_def Let_def length_split_slash)

lemma path_segments_slash:
  assumes "path_segments (CHR ''/'' # q) = x # y # ws"
  shows "\<exists>y' zs. path_segments (CHR ''/'' # q @ ''/'') = x # y' # zs"
proof -
  let ?ws = "split_slash q"
  have s: "split_slash (q @ ''/'') = ?ws @ [[]]" using split_slash_append[of "[]" q] by simp
  then have p: "path_segments (CHR ''/'' # q @ ''/'') = ?ws @ [''/'']" by (simp add: path_segments_def Let_def)
  have "length ?ws = length (x # y # ws)" using assms length_path_segments[of q] by (simp add: length_split_slash)
  then obtain a b cs where ws: "?ws = a # b # cs" by (metis length_Cons Suc_length_conv)
  have "x = a" using assms by (simp add: path_segments_def Let_def ws split: if_split_asm)
  then show ?thesis using p ws by simp
qed

lemma cleanPath_rooted: "\<exists>q. cleanPath p = CHR ''/'' # q"
proof -
  have r: "\<exists>q. path_clean (CHR ''/'' # s) = CHR ''/'' # q" for s by (simp add: path_clean_def is_rooted_def Let_def)
  show ?thesis
  proof (cases "p = ''''")
    case False
    then obtain s where s: "(if p ! 0 \<noteq> CHR ''/'' then ''/'' @ p else p) = CHR ''/'' # s"
      by (cases p; cases "hd p = CHR ''/''") auto
    obtain q where "path_clean (CHR ''/'' # s) = CHR ''/'' # q" using r by blast
    then show ?thesis using False unfolding cleanPath_def s by (simp add: Let_def)
  qed (simp add: cleanPath_def)
qed

lemma findHandler_Found:
  "findHandler rs m p = Found r \<longleftrightarrow> cleanPath p = p \<and> match_route rs m p = Some r
     \<and> (exactMatch (Some r) p \<or> has_suffix ''/'' p \<or> \<not> exactMatch (match_route rs m (p @ ''/'')) (p @ ''/''))"
  by (auto simp: findHandler_def Let_def split: if_splits option.splits)

lemma api_match_shape:
  assumes "r \<in> set api_routes" "match_route rs m path = Some r"
  obtains x y ws where "path_segments path = x # y # ws" "x \<in> set api_heads"
proof -
  have h: "head_in api_heads (rt_segments r)" "2 \<le> length (rt_segments r)" using api_shape[OF assms(1)] by simp_all
  then obtain v s ss where r: "rt_segments r = Lit v # s # ss" "v \<in> set api_heads"
    by (cases "rt_segments r" rule: list.exhaust; cases "tl (rt_segments r)") (auto simp: head_in_def split: segment.split_asm)
  obtain y ws where "path_segments path = v # y # ws"
    using match_route_sound(2)[OF assms(2)] unfolding r
    by (cases "path_segments path"; cases "tl (path_segments path)"; cases s) (auto elim: seg_match.elims)
  then show ?thesis using that r(2) by blast
qed

text \<open>C6: the login changes who is served and not what: a request reaches a handler of the API in the server without login exactly when,
  in the server with login, it goes to the login check and behind it to the same handler.\<close>

theorem login_keeps_routes:
  "findHandler (main_routes mt False True) m p = Found r \<and> r \<in> set api_routes \<longleftrightarrow>
     (\<exists>g. findHandler (main_routes mt True True) m p = Found g \<and> rt_wrap g = Protected) \<and> findHandler api_routes m p = Found r"
proof (cases "cleanPath p = p \<and> match_route api_routes m p = Some r")
  case True
  then have r: "r \<in> set api_routes" "match_route api_routes m p = Some r" "cleanPath p = p" using match_route_sound(1) by blast+
  obtain x y ws where xs: "path_segments p = x # y # ws" "x \<in> set api_heads" using api_match_shape[OF r(1,2)] by blast
  obtain q where q: "p = CHR ''/'' # q" using cleanPath_rooted[of p] r(3) by metis
  obtain y' zs where xs': "path_segments (p @ ''/'') = x # y' # zs" using path_segments_slash[of q x y ws] xs(1) q by auto
  have count: "3 \<le> length (filter (\<lambda>c. c = CHR ''/'') (p @ ''/''))"
    using length_path_segments[of q] xs(1) q by simp
  have main: "match_route (main_routes mt False True) m p = Some r" using main_api_tree[OF xs] r(2) by simp
  have front: "ends_multi (rt_segments (frontend_route True))" "length (rt_segments (frontend_route True)) = 1" by code_simp+
  have main2: "exactMatch (match_route (main_routes mt False True) m (p @ ''/'')) (p @ ''/'')
      = exactMatch (match_route api_routes m (p @ ''/'')) (p @ ''/'')"
    using main_api_tree[OF xs' xs(2)] count by (auto simp: exactMatch_def front split: option.split)
  obtain g where g: "match_route (main_routes mt True True) m p = Some g" "rt_wrap g = Protected"
    using main_protected_tree[OF xs] by metis
  obtain g2 where g2: "match_route (main_routes mt True True) m (p @ ''/'') = Some g2" "length (rt_segments g2) = 2" "ends_multi (rt_segments g2)"
    using main_protected_tree[OF xs' xs(2)] by metis
  have "\<not> exactMatch (match_route (main_routes mt True True) m (p @ ''/'')) (p @ ''/'')"
    using g2 count by (simp add: exactMatch_def)
  then have "findHandler (main_routes mt True True) m p = Found g" using g r(3) by (simp add: findHandler_Found)
  then show ?thesis using g(2) r main main2 by (auto simp: findHandler_Found)
next
  case False
  have "findHandler api_routes m p \<noteq> Found r" using False by (auto simp: findHandler_Found)
  moreover have "\<not> (findHandler (main_routes mt False True) m p = Found r \<and> r \<in> set api_routes)"
  proof
    assume a: "findHandler (main_routes mt False True) m p = Found r \<and> r \<in> set api_routes"
    then have r: "cleanPath p = p" "match_route (main_routes mt False True) m p = Some r" "r \<in> set api_routes" by (simp_all add: findHandler_Found)
    obtain x y ws where xs: "path_segments p = x # y # ws" "x \<in> set api_heads" using api_match_shape[OF r(3,2)] by blast
    have "\<not> head_in api_heads (rt_segments (frontend_route True))" by code_simp
    then have "r \<noteq> frontend_route True" using api_shape[OF r(3)] by blast
    then have "match_route api_routes m p = Some r" using main_api_tree[OF xs] r(2) by (auto split: option.split_asm)
    then show False using False r(1) by simp
  qed
  ultimately show ?thesis by blast
qed

section \<open>Serving\<close>

text \<open>A request: what the multiplexers and the middleware look at. \<open>hq_IP\<close> is the host of its address.\<close>

record http_request =
  hq_Method :: string
  hq_Path :: string
  hq_Origin :: string
  hq_IP :: string
  hq_auth :: request

datatype served =
    Preflight
  | MovedTo string
  | NoHandler nat
  | Refused response
  | TooManyRequests
  | Handled string "UserInfo option"

record 'l rate_limits =
  rl_main :: "'l limiters"
  rl_bmc :: "'l limiters"

text \<open>The handler of a route behind its rate limiter\<close>

definition run_route ::
  "(int \<Rightarrow> int \<Rightarrow> 'l) \<Rightarrow> (int \<Rightarrow> 'l \<Rightarrow> bool \<times> 'l) \<Rightarrow> Settings \<Rightarrow> int \<Rightarrow> string \<Rightarrow> route \<Rightarrow> UserInfo option \<Rightarrow> 'l rate_limits
     \<Rightarrow> (served \<times> 'l rate_limits) option" where
  "run_route new allow st now ip r user lims =
     (case rt_wrap r of
        RateLimited \<Rightarrow> do {
          (ok, l) \<leftarrow> rate_request new allow (st_RateLimitRPM st) now ip (rl_main lims);
          Some (if ok then Handled (rt_handler r) user else TooManyRequests, lims\<lparr>rl_main := l\<rparr>)
        }
      | BmcRateLimited \<Rightarrow> do {
          (ok, l) \<leftarrow> rate_request new allow (st_BMCProxyRateLimitRPM st) now ip (rl_bmc lims);
          Some (if ok then Handled (rt_handler r) user else TooManyRequests, lims\<lparr>rl_bmc := l\<rparr>)
        }
      | _ \<Rightarrow> Some (Handled (rt_handler r) user, lims))"

text \<open>The chain of \<open>main\<close>: CORS, the multiplexer, the login, the multiplexer of the API, the limiter, the handler. The headers are those
  that CORS adds.\<close>

definition serve ::
  "(int \<Rightarrow> int \<Rightarrow> 'l) \<Rightarrow> (int \<Rightarrow> 'l \<Rightarrow> bool \<times> 'l) \<Rightarrow> AppConfig \<Rightarrow> route list \<times> route list \<Rightarrow> Provider \<Rightarrow> int \<Rightarrow> http_request \<Rightarrow> 'l rate_limits
     \<Rightarrow> ((string \<times> string) list \<times> served \<times> 'l rate_limits) option" where
  "serve new allow cfg muxes p now q lims =
     (let st = ac_Settings cfg; run = run_route new allow st now (hq_IP q);
          res = (if hq_Method q = ''OPTIONS'' then Some (Preflight, lims)
            else case findHandler (fst muxes) (hq_Method q) (hq_Path q) of
              Redirected u \<Rightarrow> Some (MovedTo u, lims)
            | NoRoute c \<Rightarrow> Some (NoHandler c, lims)
            | Found r \<Rightarrow>
                if rt_wrap r \<noteq> Protected then run r None lims
                else case Middleware (hq_auth q) p of
                  NextHandler u \<Rightarrow>
                    (case findHandler (snd muxes) (hq_Method q) (hq_Path q) of
                       Redirected v \<Rightarrow> Some (MovedTo v, lims)
                     | NoRoute c \<Rightarrow> Some (NoHandler c, lims)
                     | Found h \<Rightarrow> run h (Some u) lims)
                | refusal \<Rightarrow> Some (Refused refusal, lims))
      in map_option (\<lambda>r. (cors_headers (st_CORSOrigins st) (hq_Origin q), r)) res)"

definition open_handlers :: "string list" where
  "open_handlers = [''promhttp'', ''healthz'', ''readyz'', ''HandleLogin'', ''HandleCallback'', ''HandleLogout'', ''HandleMe'', ''FileServer'', ''spaHandler'']"

lemma run_route_Handled: "run_route new allow st now ip r user lims = Some (Handled h u, lims') \<Longrightarrow> h = rt_handler r \<and> u = user"
  by (auto simp: run_route_def elim!: bind_SomeE split: wrap.split_asm if_split_asm)

lemma open_or_protected:
  assumes "r \<in> set (main_routes m True True)" "rt_wrap r \<noteq> Protected"
  shows "rt_handler r \<in> set open_handlers"
proof -
  have "\<forall>m\<in>{True, False}. list_all (\<lambda>r. rt_wrap r \<noteq> Protected \<longrightarrow> rt_handler r \<in> set open_handlers) (main_routes m True True)" by code_simp
  then show ?thesis using assms by (cases m) (auto simp: list_all_iff)
qed

lemma findHandler_route: "findHandler rs m p = Found r \<Longrightarrow> r \<in> set rs"
  using match_route_sound(1) by (auto simp: findHandler_Found)

text \<open>C4: with OIDC on, a request that reaches any handler but the open ones (metrics and probes, the login itself, the frontend and the
  files for the BMCs) is that of a user who is logged in: the cookie of the request is that of a session that an earlier callback
  opened for this user and that no logout has ended. The handler is told this user.\<close>

theorem api_needs_login:
  assumes "oc_Enabled (ac_OIDC cfg)" "server_mux cfg web = Some muxes" "p_sessions p = Map.empty"
    and run: "serve new allow cfg muxes (run_ops auth_next p ops) now q lims = Some (hdrs, Handled h user, lims')"
    and "h \<notin> set open_handlers"
  shows "\<exists>u c pre op post. user = Some u \<and> rq_cookie (hq_auth q) sessionCookieName = Some c \<and> ops = pre @ op # post
     \<and> opens (p_config p) op c u \<and> (\<forall>k\<in>set post. \<not> ends c k)"
proof -
  have "muxes = (main_routes (st_MetricsEnabled (ac_Settings cfg)) True True, api_routes)"
    using assms(1,2) by (cases web) (simp_all add: server_mux_def register_api register_main Let_def)
  then obtain r u where r: "Middleware (hq_auth q) (run_ops auth_next p ops) = NextHandler u"
    "run_route new allow (ac_Settings cfg) now (hq_IP q) r (Some u) lims = Some (Handled h user, lims')"
    using run assms(5) open_or_protected[OF findHandler_route] unfolding serve_def Let_def
    by (auto split: if_split_asm found.split_asm response.split_asm dest: run_route_Handled)
  then have user: "user = Some u" using run_route_Handled by metis
  obtain c s where c: "rq_cookie (hq_auth q) sessionCookieName = Some c" "p_sessions (run_ops auth_next p ops) c = Some s" "u = us_User s"
    using r(1) by (auto simp: Middleware_def split: option.splits if_splits)
  show ?thesis using auth_history[OF c(2) assms(3)] c user by blast
qed

lemma sample_login: "Middleware sample_request (run_ops auth_next sample_provider [sample_callback])
    = NextHandler \<lparr>ui_Email = ''a@b'', ui_Name = '''', ui_Roles = [''ops'']\<rparr>"
proof -
  have "drop_bit 4 (0x1F :: u8) = 1" "(0x1F :: u8) AND 15 = 15" by simp_all
  then have "hex_encode [0x1F] = ''1f''" by (simp add: hex_encode_def hex_digit_def)
  then show ?thesis
    by (simp add: Middleware_def sample_request_def sample_provider_def sample_callback_def HandleCallback_def
        sessionCookieName_def stateCookieName_def randomString_def stringClaim_def extractRoles_def sample_oidc_def
        p_log_def Let_def map_filter_def)
qed

theorem api_needs_login_witness:
  "\<exists>c. rq_cookie sample_request sessionCookieName = Some c
     \<and> opens sample_oidc sample_callback c \<lparr>ui_Email = ''a@b'', ui_Name = '''', ui_Roles = [''ops'']\<rparr>"
proof -
  let ?cfg = "sample_config\<lparr>ac_OIDC := sample_oidc\<rparr>"
  let ?q = "\<lparr>hq_Method = ''GET'', hq_Path = ''/api/servers'', hq_Origin = '''', hq_IP = ''1.2.3.4'', hq_auth = sample_request\<rparr>"
  have c: "oc_Enabled (ac_OIDC ?cfg)" "\<not> st_MetricsEnabled (ac_Settings ?cfg)" by (simp_all add: sample_oidc_def sample_config_def)
  have m: "server_mux ?cfg True = Some (main_routes False True True, api_routes)"
    using c by (simp add: server_mux_def register_api register_main Let_def)
  have f: "findHandler (main_routes False True True) ''GET'' ''/api/servers'' = Found (route_of ''/api/'' Protected ''Middleware'')"
    "findHandler api_routes ''GET'' ''/api/servers'' = Found (route_of ''GET /api/servers'' Plain ''ListServers'')"
    "rt_wrap (route_of ''/api/'' Protected ''Middleware'') = Protected" "rt_wrap (route_of ''GET /api/servers'' Plain ''ListServers'') = Plain"
    "rt_handler (route_of ''GET /api/servers'' Plain ''ListServers'') = ''ListServers''"
    by code_simp+
  have e: "p_sessions sample_provider = Map.empty" by (simp add: sample_provider_def)
  have "serve bucket_new bucket_allow ?cfg (main_routes False True True, api_routes) (run_ops auth_next sample_provider [sample_callback]) 0 ?q
      \<lparr>rl_main = Map.empty, rl_bmc = Map.empty\<rparr>
    = Some (cors_headers (st_CORSOrigins (ac_Settings ?cfg)) '''', Handled ''ListServers'' (Some \<lparr>ui_Email = ''a@b'', ui_Name = '''', ui_Roles = [''ops'']\<rparr>),
        \<lparr>rl_main = Map.empty, rl_bmc = Map.empty\<rparr>)"
    by (simp add: serve_def f sample_login run_route_def Let_def del: run_ops.simps foldM.simps fold.simps foldl.simps)
  from api_needs_login[OF c(1) m e this] show ?thesis
    by (auto simp: open_handlers_def sample_provider_def Cons_eq_append_conv)
qed

text \<open>With the settings that \<open>Load\<close> gives, serving a request does not panic: the limits are positive.\<close>

theorem serve_returns:
  assumes "Load readFile unmarshal getenv path = Inr cfg"
  shows "serve new allow cfg muxes p now q lims \<noteq> None"
proof -
  have "positive_settings (ac_Settings cfg)" using assms by (auto simp: Load_correct)
  then have "rate_request new allow (st_RateLimitRPM (ac_Settings cfg)) now (hq_IP q) l \<noteq> None"
    "rate_request new allow (st_BMCProxyRateLimitRPM (ac_Settings cfg)) now (hq_IP q) l \<noteq> None" for l
    by (auto simp: rate_request_def getLimiter_def positive_settings_def split: option.split)
  then obtain a1 l1 a2 l2 where
    "rate_request new allow (st_RateLimitRPM (ac_Settings cfg)) now (hq_IP q) (rl_main lims) = Some (a1, l1)"
    "rate_request new allow (st_BMCProxyRateLimitRPM (ac_Settings cfg)) now (hq_IP q) (rl_bmc lims) = Some (a2, l2)"
    by (metis not_None_eq surj_pair)
  then have "run_route new allow (ac_Settings cfg) now (hq_IP q) r u lims \<noteq> None" for r u
    by (simp add: run_route_def split: wrap.split)
  then show ?thesis by (auto simp: serve_def Let_def split: found.split response.split)
qed

text \<open>Every request that creates or deletes something is rate limited.\<close>

theorem changes_are_limited: "r \<in> set api_routes \<Longrightarrow> rt_method r \<in> {''POST'', ''DELETE''} \<Longrightarrow> rt_wrap r = RateLimited"
proof -
  have "list_all (\<lambda>r. rt_method r \<in> {''POST'', ''DELETE''} \<longrightarrow> rt_wrap r = RateLimited) api_routes" by code_simp
  then show "r \<in> set api_routes \<Longrightarrow> rt_method r \<in> {''POST'', ''DELETE''} \<Longrightarrow> ?thesis" by (auto simp: list_all_iff)
qed

section \<open>Shutdown\<close>

definition shutdown_one :: "session_ref \<Rightarrow> Server \<Rightarrow> Server option" where
  "shutdown_one r s =
     (let k = sv_heap s r in
      if ks_Status k = SessionConnected \<or> ks_Status k = SessionStarting then do {
        s \<leftarrow> StopIKVMBridge (ks_ID k) s;
        Some (update_session r (\<lambda>k. k\<lparr>ks_Status := SessionDisconnected\<rparr>) s)
      }
      else Some s)"

definition shutdown :: "string list \<Rightarrow> Server \<Rightarrow> Server option" where
  "shutdown visit s = foldM shutdown_one (store_List visit (sv_Sessions s)) s"

lemma shutdown_one_effect:
  assumes "stored s r" "shutdown_one r s = Some s'"
  shows "sv_Sessions s' = sv_Sessions s"
    "sv_heap s' = (sv_heap s)(r := if active (sv_heap s r) then (sv_heap s r)\<lparr>ks_Status := SessionDisconnected\<rparr> else sv_heap s r)"
    "sv_Bridges s' = (if active (sv_heap s r) then (sv_Bridges s)(ks_ID (sv_heap s r) := None) else sv_Bridges s)"
proof -
  have "sv_Sessions s' = sv_Sessions s
    \<and> sv_heap s' = (sv_heap s)(r := if active (sv_heap s r) then (sv_heap s r)\<lparr>ks_Status := SessionDisconnected\<rparr> else sv_heap s r)
    \<and> sv_Bridges s' = (if active (sv_heap s r) then (sv_Bridges s)(ks_ID (sv_heap s r) := None) else sv_Bridges s)"
  proof (cases "active (sv_heap s r)")
    case True
    then obtain s1 where s1: "StopIKVMBridge (ks_ID (sv_heap s r)) s = Some s1"
      "s' = update_session r (\<lambda>k. k\<lparr>ks_Status := SessionDisconnected\<rparr>) s1"
      using assms(2) by (auto simp: shutdown_one_def active_def Let_def elim!: bind_SomeE split: if_split_asm)
    then show ?thesis
      using True assms(1) StopIKVMBridge_same[OF s1(1)] StopIKVMBridge_fields(1)[OF s1(1)]
      by (auto simp: same_sessions_def update_session_def set_session_def write_session_def store_Set_def stored_def)
  next
    case False
    then show ?thesis using assms(2) by (auto simp: shutdown_one_def active_def Let_def split: if_split_asm)
  qed
  then show "sv_Sessions s' = sv_Sessions s"
    "sv_heap s' = (sv_heap s)(r := if active (sv_heap s r) then (sv_heap s r)\<lparr>ks_Status := SessionDisconnected\<rparr> else sv_heap s r)"
    "sv_Bridges s' = (if active (sv_heap s r) then (sv_Bridges s)(ks_ID (sv_heap s r) := None) else sv_Bridges s)" by blast+
qed

lemma shutdown_all:
  assumes "\<forall>r\<in>set rs. stored s r" "foldM shutdown_one rs s = Some s'"
  shows "sv_Sessions s' = sv_Sessions s \<and> (\<forall>q. ks_ID (sv_heap s' q) = ks_ID (sv_heap s q))
    \<and> (\<forall>q. active (sv_heap s' q) \<longrightarrow> q \<notin> set rs \<and> active (sv_heap s q))
    \<and> (\<forall>q\<in>set rs. active (sv_heap s q) \<longrightarrow> sv_Bridges s' (ks_ID (sv_heap s q)) = None)
    \<and> (\<forall>i. sv_Bridges s i = None \<longrightarrow> sv_Bridges s' i = None)"
  using assms
proof (induction rs arbitrary: s)
  case (Cons r rs)
  obtain s1 where s1: "shutdown_one r s = Some s1" "foldM shutdown_one rs s1 = Some s'"
    using Cons.prems(2) by (auto elim!: bind_SomeE)
  have r: "stored s r" using Cons.prems(1) by simp
  note eff = shutdown_one_effect[OF r s1(1)]
  have id1: "ks_ID (sv_heap s1 q) = ks_ID (sv_heap s q)" for q unfolding eff(2) by simp
  have st: "\<forall>r\<in>set rs. stored s1 r" using Cons.prems(1) by (simp add: stored_def eff(1) id1)
  have act1: "active (sv_heap s1 q) \<longleftrightarrow> q \<noteq> r \<and> active (sv_heap s q)" for q unfolding eff(2) by (auto simp: active_def)
  have gone: "active (sv_heap s r) \<Longrightarrow> sv_Bridges s1 (ks_ID (sv_heap s r)) = None"
    "sv_Bridges s i = None \<Longrightarrow> sv_Bridges s1 i = None" for i unfolding eff(3) by auto
  note ih = Cons.IH[OF st s1(2)]
  have "active (sv_heap s' q) \<longrightarrow> q \<notin> set (r # rs) \<and> active (sv_heap s q)" for q
    using ih act1[of q] by (simp; blast)
  moreover have "active (sv_heap s q) \<longrightarrow> sv_Bridges s' (ks_ID (sv_heap s q)) = None" if "q \<in> set (r # rs)" for q
  proof (cases "q = r")
    case True
    show ?thesis
    proof
      assume "active (sv_heap s q)"
      then have "sv_Bridges s1 (ks_ID (sv_heap s q)) = None" using gone(1) True by simp
      then show "sv_Bridges s' (ks_ID (sv_heap s q)) = None" using ih by simp
    qed
  next
    case False
    then show ?thesis using ih that act1[of q] id1[of q] by (metis set_ConsD)
  qed
  moreover have "sv_Bridges s i = None \<longrightarrow> sv_Bridges s' i = None" for i using ih gone(2) by blast
  moreover have "sv_Sessions s' = sv_Sessions s" using ih eff(1) by (metis (no_types))
  moreover have "ks_ID (sv_heap s' q) = ks_ID (sv_heap s q)" for q using ih id1[of q] by (metis (no_types))
  ultimately show ?case by blast
qed simp

text \<open>The shutdown leaves no session of the store active, and no iKVM bridge of a session that was.\<close>

theorem shutdown_disconnects:
  assumes "server_state cfg s" "enumerates visit (sv_Sessions s)" "shutdown visit s = Some s'"
  shows "active_ids s' = {} \<and> sv_Sessions s' = sv_Sessions s \<and> (\<forall>i. i \<in> active_ids s \<longrightarrow> sv_Bridges s' i = None)"
proof -
  have inv: "store_inv s" using server_state_inv[OF assms(1)] by blast
  have ids: "\<And>i r. sv_Sessions s i = Some r \<Longrightarrow> ks_ID (sv_heap s r) = i" using inv by (simp add: store_inv_def)
  have "inj_on (sv_Sessions s) (dom (sv_Sessions s))" by (rule inj_onI) (metis ids domIff not_None_eq)
  then have all: "set (store_List visit (sv_Sessions s)) = ran (sv_Sessions s)" by (rule enumerated_list(2)[OF assms(2)])
  have st: "\<forall>r\<in>set (store_List visit (sv_Sessions s)). stored s r" using listed_stored[OF inv] by blast
  have eff: "sv_Sessions s' = sv_Sessions s"
    "\<And>q. active (sv_heap s' q) \<Longrightarrow> q \<notin> ran (sv_Sessions s)"
    "\<And>q. q \<in> ran (sv_Sessions s) \<Longrightarrow> active (sv_heap s q) \<Longrightarrow> sv_Bridges s' (ks_ID (sv_heap s q)) = None"
    using shutdown_all[OF st assms(3)[unfolded shutdown_def]] unfolding all by auto
  have "active_ids s' = {}" using eff(1,2) by (auto simp: active_ids_def ran_def)
  moreover have "sv_Bridges s' i = None" if act: "i \<in> active_ids s" for i
  proof -
    obtain r where r: "sv_Sessions s i = Some r" "active (sv_heap s r)" using act by (auto simp: active_ids_def)
    then have "ks_ID (sv_heap s r) = i" using inv by (auto simp: store_inv_def)
    then show ?thesis using eff(3)[of r] r by (auto simp: ran_def)
  qed
  ultimately show ?thesis using eff(1) by blast
qed

end
