(* ===== verification/Spec2Isabelle.thy ===== *)
theory Spec2Isabelle
  imports Breaker Proxies Store Media Auth Mux
begin

text \<open>
  A verification library for kvm-switcher, a Go server that gives browsers access to the consoles
  of servers with management controllers (BMCs).

  \<^bold>\<open>The program.\<close> A configuration file names the servers (\<open>src/internal/config\<close>,
  \<open>src/internal/models\<close>). The HTTP layer (\<open>src/internal/api\<close>) starts a KVM session for a server, keeps it
  in a session store, registers the viewers of a session and decides which of them may send
  input (\<open>viewers.go\<close>); polling of a BMC is guarded by a circuit breaker (\<open>src/internal/circuitbreaker\<close>).
  For AMI MegaRAC boards the server speaks the IVTP protocol itself (\<open>src/internal/ikvm\<close>): it parses packets
  (\<open>protocol.go\<close>), sends keyboard and mouse reports (\<open>hid.go\<close>) and decodes the ASPEED video stream
  (\<open>decoder.go\<close>, \<open>decompress.go\<close>, \<open>bitstream.go\<close>, \<open>tables.go\<close>) into a framebuffer. The client (\<open>client.go\<close>)
  owns the connection and hands complete frames to the bridge (\<open>bridge.go\<close>), which decodes them, wakes the
  attached viewers and serves each of them as a VNC server (\<open>vnc.go\<close>); their input goes back through the
  bridge and the client to the BMC.

  \<^bold>\<open>Conventions.\<close> Machine integers keep their width as words; Go's \<open>int\<close> is an unbounded integer. A run-time
  panic is the value \<^term>\<open>None\<close> of an option, an error value is a constructor of a result type. Loops
  over a range are folds in the option monad, with the weakest-precondition calculus of
  \<open>Prelude\<close>; the one loop that may not end is a \<open>partial_function\<close> whose value \<^term>\<open>None\<close> means that
  it does not return. Clocks, the environment, files and third-party parsers are arguments.

  \<^bold>\<open>Theories.\<close>
  \<^item> \<open>Prelude\<close>: checked indexing, the calculus, byte layouts, the locale \<open>machine\<close>.
  \<^item> \<open>Breaker\<close> (\<open>breaker.go\<close>): refines a specification over call histories.
  \<^item> \<open>Models\<close> (\<open>models.go\<close>): the records, and the session store as an interpretation of the locale
    \<open>session_store\<close>.
  \<^item> \<open>Config\<close> (\<open>config.go\<close>): validation, defaults and overrides; \<open>Load\<close> returns exactly the valid
    configurations, completed.
  \<^item> \<open>Viewers\<close> (\<open>viewers.go\<close>): the registry with its timers as an interpretation of \<open>machine\<close>; one
    controller at a time, and two ways in which it fails.
  \<^item> \<open>Protocol\<close> (\<open>protocol.go\<close>) and \<open>Hid\<close> (\<open>hid.go\<close>): packet layouts, round trips, checksums.
  \<^item> \<open>Bitstream\<close> (\<open>bitstream.go\<close>): the bit reader refines a bit stream; locale \<open>bit_source\<close>.
  \<^item> \<open>Tables\<close> (\<open>tables.go\<close>), \<open>Huffman\<close> (\<open>initHuffmanTables\<close>, symbol decoding), \<open>Quant\<close> (quantisation
    tables with the exact \<open>float32\<close> rounding), \<open>Idct\<close> (inverse DCT, colour tables): each equals a
    reference definition.
  \<^item> \<open>Decompress\<close> (\<open>decompress.go\<close>): the decoder state and the block decoders. \<open>Blocks\<close> and \<open>Tiles\<close> prove
    that no block decoder panics on a well-formed decoder, that each keeps the invariant
    \<open>wf_dec\<close>, and what the colour conversions paint.
  \<^item> \<open>Decoder\<close> (\<open>decoder.go\<close>): \<open>NewDecoder\<close> and \<open>Decode\<close>; safety, termination and the case in which the
    call does not return.

  \<^item> \<open>Client\<close> (\<open>client.go\<close>): connection, tunnel handshake, message loop, fragments. What one side sends the
    other reads back; a fragmented frame is delivered once; the two inputs on which the loop panics.
  \<^item> \<open>Bridge\<close> (\<open>bridge.go\<close>): commands, subscriptions, frames, lifecycle, screenshot. The invariant
    \<open>bridge_inv\<close> is kept by every operation, so that frames and \<open>Stop\<close> do not panic; which pictures
    a change of resolution blanks.
  \<^item> \<open>Vnc\<close> (\<open>vnc.go\<close>): RFB handshake, input, updates. \<open>bridge_state\<close> is the set of reachable states; input is
    gated, the stream of updates fits the announced size, pointer and key translation.

  \<^item> \<open>Oidc\<close> (\<open>oidc.go\<close>): login, logout, the middleware, roles. A request is let through only with the cookie of a
    completed login that has not ended, as the user of that login; the expiry of a login is never looked at.
  \<^item> \<open>Sessions\<close> (\<open>handlers.go\<close>, the Stop functions of \<open>websocket.go\<close>, the proxy entries of \<open>proxy.go\<close>,
    \<open>sessionCleanup\<close> of \<open>src/cmd/server/main.go\<close>): the life of a session. \<open>server_state\<close> is the set of reachable
    states; the limits on sessions hold in each of them, start-up settles, cleanup stops what is idle. Three
    theorems show where the code falls short: the start-up that panics, the deleted session that comes
    back, the deletion that checks no role.
  \<^item> \<open>Controls\<close> (\<open>handlers.go\<close>, \<open>websocket.go\<close>): the KVM and viewer control handlers and the opening of an iKVM
    console, over the server, its bridges and its registries. \<open>console_state\<close> is the set of reachable states; its
    invariant carries those of \<open>Vnc\<close> and \<open>Viewers\<close> to every session, so that stopping a bridge does not panic
    and control is held by one viewer. A viewer can accept its own request for control.

  \<^item> \<open>Des\<close> and \<open>Rfb\<close> (\<open>src/internal/vnc/bridge.go\<close>): the bridge to a VNC server. The handshake, with the DES response
    to the challenge, the liveness probe, the broadcast loop and the input loop; \<open>vbridge_state\<close> is the set of reachable
    states. What the BMC sends reaches every viewer, and input passes while its sender is in control.
  \<^item> \<open>Wss\<close> (\<open>websocket.go\<close>): the shared WebSocket proxy and its fan-out, the message rewriting, the handshake relay.
  \<^item> \<open>Proxies\<close> (\<open>websocket.go\<close>): \<open>HandleKVMWebSocket\<close> over the server and its bridges: who gets a console, which
    connection the viewers of a session share, and what happens when two of them create one at once.
  \<^item> \<open>Sha256\<close>, \<open>Isos\<close> (\<open>iso_handlers.go\<close>, \<open>store/isos.go\<close>) and \<open>Isolib\<close>: the ISO library over a table and a disk
    whose operations may fail. \<open>library_state\<close> is the set of states of a library used sequentially, in which table and
    disk agree; the long operations are also given in two halves, and the interleavings that break this are shown.
  \<^item> \<open>Boards\<close> (\<open>boards/*.go\<close>): the proxy side of the drivers, each an interpretation of the locale \<open>board_handler\<close>.
    \<open>Regexp\<close>: the regular expressions of the drivers, with a matcher that finds a match exactly when there is one.
    \<open>Status\<close>: the status pages. \<open>Poller\<close> (\<open>status.go\<close>): polling through the circuit breakers; it refines the specification
    of \<open>Breaker\<close>, and no server is forgotten.
  \<^item> \<open>Webproxy\<close> (\<open>proxy.go\<close>, \<open>handlers.go\<close>): the reverse proxy to the pages of a BMC with its cookie jar, the renewal of
    BMC sessions and the session manager. Requests go to the BMC they name without the browser's cookies, redirects come back.
  \<^item> \<open>Store\<close> (\<open>store/*.go\<close>): migrations, sessions on SQLite as a second interpretation of \<open>session_store\<close>, and the audit
    log: interrupted migrations resume, a restart gives back the sessions, pages of the log fit together.
  \<^item> \<open>Media\<close> (\<open>megarac.go\<close>, \<open>idrac9.go\<close>, \<open>handlers.go\<close>, \<open>iso/fileserver.go\<close>): virtual media, the mounting of an ISO of the
    library, and the file server that a BMC fetches it from.

  \<^item> \<open>Cryptojs\<close> and \<open>Auth\<close> (\<open>src/internal/auth\<close>): the login dialogues with the five kinds of BMC, which may answer anything, and the
    encryption of a password for a NanoKVM, which opens again. Sessions that are renewed are ended, for every board
    (locale \<open>authenticator\<close>); over the authenticators as they are, only a NanoKVM makes the start-up of a session panic.
  \<^item> \<open>Http\<close> (\<open>src/internal/middleware\<close>): CORS, the rate limits, which refine one token bucket for each address, and the labels of the
    metrics. \<open>Mux\<close> (\<open>src/cmd/server/main.go\<close>): the multiplexer, the routes, the chain of handlers and the shutdown. With OIDC on, only
    the open handlers run without a login, and the login changes no route; without a frontend the server does not start.

  \<^bold>\<open>Bounds.\<close> \<open>readLoop\<close> ends because every round consumes input; \<open>decode_ac\<close> and every range loop are total. The block loop consumes at least four
  bits in each iteration, so it ends when the header announces no more words than were received.

  \<^bold>\<open>Interleaving.\<close> Handlers run one at a time; the start-up of a session is a task that runs after any number of
  them, in the order of creation. Two requests inside \<open>CreateSession\<close> at once are outside the model. The operations of the bridge run one at a time, in any order; a session runs as one operation,
  and goroutines that send a single header wait in a list until they run. Races between two calls of \<open>Start\<close> or
  \<open>Stop\<close> are outside the model.

  \<^bold>\<open>Not modelled.\<close> The NFS server, the WebSocket and TLS libraries, SQLite, JSON and YAML decoding are third-party code: parameters, or
  operations that may fail; so are the token bucket of the rate limiter and AES. The start-up beyond the routes, the counters of the
  metrics and the test clients are left out. What a method that panics has written
  before the panic is not modelled.
\<close>

end
